(* ===== verification/Prelude.thy ===== *)
theory Prelude
  imports Complex_Main "HOL-Library.Word" "HOL-Library.Sublist"
begin

text \<open>
  Shared vocabulary of the development: the machine integers and the instants that the Go code
  uses, the collections of simplification rules each component fills, and the generic facts about
  maps and lists that several components need.

  Conventions.  A 64-bit \<open>time.Time\<close> or \<open>time.Duration\<close> is an \<^typ>\<open>int\<close> number of nanoseconds.  Every
  reading of the clock is an argument of the operation that makes it.  A \<open>sync.Map\<close> or a Go map is
  a partial function; where the code ranges over one, the order of the range is an argument, a list
  that enumerates the keys, because Go leaves that order open.
\<close>

type_synonym instant = int
type_synonym duration = int
type_synonym byte = "8 word"

definition second :: duration where
  "second = 1000000000"

definition millisecond :: duration where
  "millisecond = 1000000"

named_theorems go_defs \<open>definitions of Go primitives\<close>

subsection \<open>Signed machine integers\<close>

text \<open>\<open>i32\<close> and \<open>i64\<close> reduce an integer to the value that a Go int32 or int64 holds.\<close>

definition i32 :: "int \<Rightarrow> int" where
  [go_defs]: "i32 x = signed_take_bit 31 x"

definition i64 :: "int \<Rightarrow> int" where
  [go_defs]: "i64 x = signed_take_bit 63 x"

lemma i32_id [simp]: "- (2 ^ 31) \<le> x \<Longrightarrow> x < 2 ^ 31 \<Longrightarrow> i32 x = x"
  unfolding i32_def by (rule signed_take_bit_int_eq_self) auto

lemma i64_id [simp]: "- (2 ^ 63) \<le> x \<Longrightarrow> x < 2 ^ 63 \<Longrightarrow> i64 x = x"
  unfolding i64_def by (rule signed_take_bit_int_eq_self) auto

lemma i32_bounds: "- (2 ^ 31) \<le> i32 x" "i32 x < 2 ^ 31"
  unfolding i32_def
  using signed_take_bit_int_greater_eq_minus_exp [of 31 x]
    signed_take_bit_int_less_exp [of 31 x]
  by simp_all

lemma i32_wrap: "i32 (2 ^ 31) = - (2 ^ 31)"
  by (simp add: i32_def signed_take_bit_def mask_eq_exp_minus_1 not_int_def)

text \<open>Go's integer division and remainder truncate toward zero.\<close>

definition go_div :: "int \<Rightarrow> int \<Rightarrow> int" where
  [go_defs]: "go_div a b = sgn a * sgn b * (\<bar>a\<bar> div \<bar>b\<bar>)"

definition go_rem :: "int \<Rightarrow> int \<Rightarrow> int" where
  [go_defs]: "go_rem a b = a - go_div a b * b"

lemma go_div_nonneg [simp]: "0 \<le> a \<Longrightarrow> 0 < b \<Longrightarrow> go_div a b = a div b"
  by (cases "a = 0") (simp_all add: go_div_def)

lemma go_rem_nonneg [simp]: "0 \<le> a \<Longrightarrow> 0 < b \<Longrightarrow> go_rem a b = a mod b"
  by (simp add: go_rem_def minus_div_mult_eq_mod)

lemma go_rem_neg: "a < 0 \<Longrightarrow> 0 < b \<Longrightarrow> go_rem a b = - ((- a) mod b)"
proof -
  assume "a < 0" and "0 < b"
  then have "go_rem a b = a + ((- a) div b) * b"
    by (simp add: go_rem_def go_div_def)
  also have "\<dots> = - ((- a) mod b)"
    by (simp add: minus_div_mult_eq_mod [symmetric])
  finally show ?thesis .
qed

lemma unat_byte_less: "unat (b :: byte) < 256"
  using unsigned_less [of b, where ?'a = nat] by simp

lemma unat_u16_less: "unat (p :: 16 word) < 65536"
  using unsigned_less [of p, where ?'a = nat] by simp

subsection \<open>Maps and the order of a range\<close>

text \<open>\<open>range_of m ord\<close>: a range over \<open>m\<close> can visit the keys in the order \<open>ord\<close>.\<close>

definition range_of :: "('k \<rightharpoonup> 'v) \<Rightarrow> 'k list \<Rightarrow> bool" where
  "range_of m ord \<longleftrightarrow> distinct ord \<and> set ord = dom m"

definition del_keys :: "('k \<rightharpoonup> 'v) \<Rightarrow> 'k list \<Rightarrow> ('k \<rightharpoonup> 'v)" where
  "del_keys m ks = (\<lambda>k. if k \<in> set ks then None else m k)"

lemma dom_del_keys [simp]: "dom (del_keys m ks) = dom m - set ks"
  by (auto simp: del_keys_def split: if_splits)

lemma del_keys_apply [simp]: "del_keys m ks k = (if k \<in> set ks then None else m k)"
  by (simp add: del_keys_def)

lemma range_of_finite: "range_of m ord \<Longrightarrow> finite (dom m)"
  unfolding range_of_def by (metis List.finite_set)

lemma range_of_card: "range_of m ord \<Longrightarrow> card (dom m) = length ord"
  unfolding range_of_def by (metis distinct_card)

lemma range_of_empty [simp]: "range_of Map.empty []"
  by (simp add: range_of_def)

lemma card_dom_upd:
  "finite (dom m) \<Longrightarrow> card (dom (m(k \<mapsto> v))) = (if m k = None then Suc (card (dom m)) else card (dom m))"
  by (auto simp: insert_absorb domIff card_insert_if)

lemma card_dom_del:
  "finite (dom m) \<Longrightarrow> card (dom (m(k := None))) = (if m k = None then card (dom m) else card (dom m) - 1)"
  by (auto simp: card_Diff_singleton_if domIff)

lemma card_dom_del_keys:
  assumes "range_of m ord" and "set ks \<subseteq> dom m" and "distinct ks"
  shows "card (dom (del_keys m ks)) = card (dom m) - length ks"
  using assms by (simp add: card_Diff_subset distinct_card)

lemma finite_dom_upd [simp]: "finite (dom (m(k := x))) \<longleftrightarrow> finite (dom m)"
  by (cases x) (simp_all add: dom_fun_upd)

lemma card_dom_pos: "finite (dom m) \<Longrightarrow> m k = Some v \<Longrightarrow> 0 < card (dom m)"
  by (auto simp: card_gt_0_iff)

lemma split_at_first:
  "x \<notin> set as \<Longrightarrow> x \<notin> set bs \<Longrightarrow> as @ x # cs = bs @ x # ds \<longleftrightarrow> as = bs \<and> cs = ds"
proof (induction as arbitrary: bs)
  case Nil
  then show ?case by (cases bs) auto
next
  case (Cons a as)
  then show ?case by (cases bs) auto
qed

lemma split_at_last:
  assumes "x \<notin> set cs" and "x \<notin> set ds"
  shows "as @ x # cs = bs @ x # ds \<longleftrightarrow> as = bs \<and> cs = ds"
proof -
  have "as @ x # cs = bs @ x # ds \<longleftrightarrow> rev cs @ x # rev as = rev ds @ x # rev bs"
    by (metis append.assoc append_Cons append_Nil rev.simps(2) rev_append rev_rev_ident)
  also have "\<dots> \<longleftrightarrow> as = bs \<and> cs = ds" using assms by (subst split_at_first) auto
  finally show ?thesis .
qed

lemmas map_card_simps = card_dom_upd card_dom_del

subsection \<open>Windows of consecutive numbers modulo n\<close>

lemma mod_window_inj:
  assumes "0 < n" and "(c + int a) mod int n = (c + int b) mod int n" and "a < n" and "b < n"
  shows "a = b"
proof -
  have "int n dvd (c + int a) - (c + int b)" using assms(2) by (simp add: mod_eq_dvd_iff)
  then have "int n dvd int a - int b" by simp
  then have "int a - int b = 0 \<or> int n \<le> \<bar>int a - int b\<bar>"
    using dvd_imp_le_int [of "int a - int b" "int n"] by auto
  with assms(3,4) show ?thesis by linarith
qed

lemma mod_window_inj_on: "0 < n \<Longrightarrow> inj_on (\<lambda>j. (c + int j) mod int n) {0..<n}"
  using mod_window_inj by (intro inj_onI) auto

lemma mod_window_image:
  assumes "0 < n"
  shows "(\<lambda>j. (c + int j) mod int n) ` {0..<n} = {0..<int n}"
proof (rule card_subset_eq)
  show "(\<lambda>j. (c + int j) mod int n) ` {0..<n} \<subseteq> {0..<int n}" using assms by auto
  show "card ((\<lambda>j. (c + int j) mod int n) ` {0..<n}) = card {0..<int n}"
    using card_image [OF mod_window_inj_on [OF assms]] by simp
qed simp

lemma mod_window_onto:
  assumes "k < (n :: nat)"
  shows "\<exists>j < n. (c + j) mod n = k"
proof (intro exI conjI)
  let ?j = "(k + n - c mod n) mod n"
  show "?j < n" using assms by simp
  have "(c + ?j) mod n = (c mod n + (k + n - c mod n)) mod n" by (simp add: mod_simps)
  also have "\<dots> = (k + n) mod n" using assms by (simp add: le_add2 mod_le_divisor trans_le_add2)
  finally show "(c + ?j) mod n = k" using assms by simp
qed

lemma count_map_upt: "count_list (map f [0..<n]) y = card {j \<in> {0..<n}. f j = y}"
proof (induction n)
  case 0
  then show ?case by simp
next
  case (Suc n)
  have "{j \<in> {0..<Suc n}. f j = y} = (if f n = y then insert n {j \<in> {0..<n}. f j = y} else {j \<in> {0..<n}. f j = y})"
    by (auto simp: less_Suc_eq)
  then show ?case using Suc by simp
qed

lemma count_mod_window:
  assumes "0 < n"
  shows "count_list (map (\<lambda>j. h ((c + int j) mod int n)) [0..<n]) y = card {x. 0 \<le> x \<and> x < int n \<and> h x = y}"
proof -
  let ?f = "\<lambda>j. (c + int j) mod int n"
  have "?f ` {j \<in> {0..<n}. h (?f j) = y} = {x \<in> ?f ` {0..<n}. h x = y}" by auto
  also have "\<dots> = {x. 0 \<le> x \<and> x < int n \<and> h x = y}"
    unfolding mod_window_image [OF assms] by auto
  finally have "card {x. 0 \<le> x \<and> x < int n \<and> h x = y} = card {j \<in> {0..<n}. h (?f j) = y}"
    using card_image [OF inj_on_subset [OF mod_window_inj_on [OF assms, of c]
          Collect_restrict [of "{0..<n}" "\<lambda>j. h (?f j) = y"]]]
    by simp
  then show ?thesis by (simp add: count_map_upt)
qed

subsection \<open>Invariants of step systems\<close>

text \<open>
  The contract every stateful component meets: its constructors establish an invariant and each
  public operation keeps it.  The conclusion for whole runs is proved once here.
\<close>

locale invariant_system =
  fixes init :: "'s \<Rightarrow> bool"
    and step :: "'s \<Rightarrow> 's \<Rightarrow> bool"
    and inv :: "'s \<Rightarrow> bool"
  assumes init_inv: "init s \<Longrightarrow> inv s"
    and step_inv: "inv s \<Longrightarrow> step s t \<Longrightarrow> inv t"
begin

lemma steps_inv: "step\<^sup>*\<^sup>* s t \<Longrightarrow> inv s \<Longrightarrow> inv t"
  by (induction rule: rtranclp_induct) (auto intro: step_inv)

lemma run_inv: "init s \<Longrightarrow> step\<^sup>*\<^sup>* s t \<Longrightarrow> inv t"
  using init_inv steps_inv by blast

end

end
