(* ===== verification/CircuitBreaker.thy ===== *)
theory CircuitBreaker
  imports Prelude
begin

text \<open>
  The circuit breaker of \<^verbatim>\<open>circuitbreaker/breaker.go\<close>: its three states, the configuration, the
  counters, and one definition per method.  \<open>Execute\<close> takes the outcome of the protected function
  and the instants at which the admission check and the recording read the clock.
\<close>

datatype cb_state = StateClosed | StateOpen | StateHalfOpen

fun cb_state_string :: "cb_state \<Rightarrow> string" where
  "cb_state_string StateClosed = ''closed''"
| "cb_state_string StateOpen = ''open''"
| "cb_state_string StateHalfOpen = ''half-open''"

record cb_config =
  FailureThreshold :: int
  SuccessThreshold :: int
  cb_Timeout :: duration
  cb_Name :: string

definition cb_DefaultConfig :: cb_config where
  "cb_DefaultConfig = \<lparr>FailureThreshold = 5, SuccessThreshold = 3, cb_Timeout = 30 * second,
     cb_Name = ''default''\<rparr>"

record circuit_breaker =
  cb_config :: cb_config
  cb_st :: cb_state
  cb_failures :: int
  cb_successes :: int
  lastFailureTime :: instant
  lastStateChange :: instant
  totalRequests :: int
  successfulReqs :: int
  failedReqs :: int
  rejectedReqs :: int

definition cb_New :: "cb_config \<Rightarrow> instant \<Rightarrow> circuit_breaker" where
  "cb_New cfg now = \<lparr>cb_config = cfg, cb_st = StateClosed, cb_failures = 0, cb_successes = 0,
     lastFailureTime = 0, lastStateChange = now, totalRequests = 0, successfulReqs = 0,
     failedReqs = 0, rejectedReqs = 0\<rparr>"

definition transitionTo :: "cb_state \<Rightarrow> instant \<Rightarrow> circuit_breaker \<Rightarrow> circuit_breaker" where
  "transitionTo newState now cb =
     (if cb_st cb = newState then cb
      else
        let cb1 = cb\<lparr>cb_st := newState, lastStateChange := now\<rparr>
        in case newState of
             StateClosed \<Rightarrow> cb1\<lparr>cb_failures := 0, cb_successes := 0\<rparr>
           | StateHalfOpen \<Rightarrow> cb1\<lparr>cb_successes := 0\<rparr>
           | StateOpen \<Rightarrow> cb1)"

definition cb_timed_out :: "instant \<Rightarrow> circuit_breaker \<Rightarrow> bool" where
  "cb_timed_out now cb \<longleftrightarrow> now - lastStateChange cb > cb_Timeout (cb_config cb)"

definition getState :: "instant \<Rightarrow> circuit_breaker \<Rightarrow> cb_state \<times> circuit_breaker" where
  "getState now cb =
     (if cb_st cb = StateOpen \<and> cb_timed_out now cb
      then (StateHalfOpen, transitionTo StateHalfOpen now cb)
      else (cb_st cb, cb))"

definition allowRequest :: "instant \<Rightarrow> instant \<Rightarrow> circuit_breaker \<Rightarrow> bool \<times> circuit_breaker" where
  "allowRequest t1 t2 cb =
     (let (st, cb1) = getState t1 cb
      in case st of
           StateClosed \<Rightarrow> (True, cb1)
         | StateOpen \<Rightarrow>
             if cb_timed_out t2 cb1 then (True, transitionTo StateHalfOpen t2 cb1)
             else (False, cb1)
         | StateHalfOpen \<Rightarrow> (True, cb1))"

definition recordSuccess :: "instant \<Rightarrow> circuit_breaker \<Rightarrow> circuit_breaker" where
  "recordSuccess now cb =
     (let (st, cb1) = getState now cb
      in if st = StateHalfOpen then
           let cb2 = cb1\<lparr>cb_successes := cb_successes cb1 + 1\<rparr>
           in if cb_successes cb2 \<ge> SuccessThreshold (cb_config cb2)
              then transitionTo StateClosed now cb2 else cb2
         else if st = StateClosed then cb1\<lparr>cb_failures := 0\<rparr>
         else cb1)"

definition recordFailure :: "instant \<Rightarrow> circuit_breaker \<Rightarrow> circuit_breaker" where
  "recordFailure now cb =
     (let cb0 = cb\<lparr>lastFailureTime := now, cb_failures := cb_failures cb + 1\<rparr>;
          failures = cb_failures cb0;
          (st, cb1) = getState now cb0
      in if st = StateHalfOpen then transitionTo StateOpen now cb1
         else if st = StateClosed \<and> failures \<ge> FailureThreshold (cb_config cb1)
              then transitionTo StateOpen now cb1
         else cb1)"

text \<open>The result of \<open>Execute\<close>: rejected, or what the protected function returned.\<close>

datatype 'e cb_result = ErrCircuitOpen | FnResult "'e option"

definition cb_Execute ::
  "instant \<Rightarrow> instant \<Rightarrow> instant \<Rightarrow> 'e option \<Rightarrow> circuit_breaker \<Rightarrow> 'e cb_result \<times> circuit_breaker" where
  "cb_Execute t1 t2 t3 fn_err cb =
     (let cb0 = cb\<lparr>totalRequests := totalRequests cb + 1\<rparr>;
          (allowed, cb1) = allowRequest t1 t2 cb0
      in if \<not> allowed then
           (ErrCircuitOpen, snd (getState t3 (cb1\<lparr>rejectedReqs := rejectedReqs cb1 + 1\<rparr>)))
         else
           case fn_err of
             Some e \<Rightarrow>
               let cb2 = recordFailure t3 cb1
               in (FnResult (Some e), cb2\<lparr>failedReqs := failedReqs cb2 + 1\<rparr>)
           | None \<Rightarrow>
               let cb2 = recordSuccess t3 cb1
               in (FnResult None, cb2\<lparr>successfulReqs := successfulReqs cb2 + 1\<rparr>))"

definition cb_State :: "instant \<Rightarrow> circuit_breaker \<Rightarrow> cb_state \<times> circuit_breaker" where
  "cb_State now cb = getState now cb"

definition cb_Stats ::
  "instant \<Rightarrow> circuit_breaker \<Rightarrow> (int \<times> int \<times> int \<times> int \<times> cb_state) \<times> circuit_breaker" where
  "cb_Stats now cb =
     (let (st, cb1) = getState now cb
      in ((totalRequests cb, successfulReqs cb, failedReqs cb, rejectedReqs cb, st), cb1))"

definition cb_Reset :: "instant \<Rightarrow> circuit_breaker \<Rightarrow> circuit_breaker" where
  "cb_Reset now cb = cb\<lparr>cb_st := StateClosed, cb_failures := 0, cb_successes := 0,
     lastStateChange := now, totalRequests := 0, successfulReqs := 0, failedReqs := 0,
     rejectedReqs := 0, lastFailureTime := 0\<rparr>"

definition cb_IsHealthy :: "instant \<Rightarrow> circuit_breaker \<Rightarrow> bool \<times> circuit_breaker" where
  "cb_IsHealthy now cb =
     (let (st, cb1) = getState now cb in (st = StateClosed \<or> st = StateHalfOpen, cb1))"

definition GetLastFailureTime :: "circuit_breaker \<Rightarrow> instant option" where
  "GetLastFailureTime cb = (if lastFailureTime cb = 0 then None else Some (lastFailureTime cb))"

subsection \<open>Runs of the breaker\<close>

text \<open>
  Every public method that changes state is a step.
\<close>

inductive cb_step :: "circuit_breaker \<Rightarrow> circuit_breaker \<Rightarrow> bool" where
  execute: "cb_step cb (snd (cb_Execute t1 t2 t3 (err :: string option) cb))"
| read_state: "cb_step cb (snd (cb_State now cb))"
| read_stats: "cb_step cb (snd (cb_Stats now cb))"
| read_health: "cb_step cb (snd (cb_IsHealthy now cb))"
| reset: "cb_step cb (cb_Reset now cb)"

text \<open>A sequence of calls, each with its three clock readings and the error of the function.\<close>

type_synonym 'e cb_call = "instant \<times> instant \<times> instant \<times> 'e option"

fun cb_run :: "'e cb_call list \<Rightarrow> circuit_breaker \<Rightarrow> circuit_breaker" where
  "cb_run [] cb = cb"
| "cb_run ((t1, t2, t3, e) # cs) cb = cb_run cs (snd (cb_Execute t1 t2 t3 e cb))"

definition cb_config_ok :: "cb_config \<Rightarrow> bool" where
  "cb_config_ok cfg \<longleftrightarrow> 1 \<le> FailureThreshold cfg \<and> 1 \<le> SuccessThreshold cfg"

definition cb_inv :: "circuit_breaker \<Rightarrow> bool" where
  "cb_inv cb \<longleftrightarrow>
     0 \<le> cb_failures cb \<and> 0 \<le> cb_successes cb \<and>
     (cb_st cb = StateClosed \<longrightarrow> cb_failures cb < FailureThreshold (cb_config cb)) \<and>
     (cb_st cb = StateHalfOpen \<longrightarrow> cb_successes cb < SuccessThreshold (cb_config cb))"

definition cb_counts_ok :: "circuit_breaker \<Rightarrow> bool" where
  "cb_counts_ok cb \<longleftrightarrow>
     totalRequests cb = successfulReqs cb + failedReqs cb + rejectedReqs cb"

lemmas cb_defs = cb_Execute_def allowRequest_def recordSuccess_def recordFailure_def
  getState_def transitionTo_def cb_timed_out_def cb_State_def cb_Stats_def cb_IsHealthy_def
  cb_Reset_def cb_New_def Let_def

subsection \<open>What each method keeps\<close>

lemma transitionTo_frame [simp]:
  "cb_config (transitionTo s t cb) = cb_config cb"
  "totalRequests (transitionTo s t cb) = totalRequests cb"
  "successfulReqs (transitionTo s t cb) = successfulReqs cb"
  "failedReqs (transitionTo s t cb) = failedReqs cb"
  "rejectedReqs (transitionTo s t cb) = rejectedReqs cb"
  by (cases s; simp add: transitionTo_def Let_def)+

lemma transitionTo_state [simp]: "cb_st (transitionTo s t cb) = s"
  by (cases s) (simp_all add: transitionTo_def Let_def)

lemma getState_frame [simp]:
  "cb_config (snd (getState t cb)) = cb_config cb"
  "totalRequests (snd (getState t cb)) = totalRequests cb"
  "successfulReqs (snd (getState t cb)) = successfulReqs cb"
  "failedReqs (snd (getState t cb)) = failedReqs cb"
  "rejectedReqs (snd (getState t cb)) = rejectedReqs cb"
  by (simp_all add: getState_def)

lemma getState_returns_state [simp]: "fst (getState t cb) = cb_st (snd (getState t cb))"
  by (simp add: getState_def)

lemma cb_inv_getState:
  "cb_inv cb \<Longrightarrow> cb_config_ok (cb_config cb) \<Longrightarrow> cb_inv (snd (getState t cb))"
  by (auto simp: cb_inv_def getState_def transitionTo_def cb_config_ok_def Let_def)

lemma allowRequest_frame [simp]:
  "cb_config (snd (allowRequest t1 t2 cb)) = cb_config cb"
  "totalRequests (snd (allowRequest t1 t2 cb)) = totalRequests cb"
  "successfulReqs (snd (allowRequest t1 t2 cb)) = successfulReqs cb"
  "failedReqs (snd (allowRequest t1 t2 cb)) = failedReqs cb"
  "rejectedReqs (snd (allowRequest t1 t2 cb)) = rejectedReqs cb"
  by (simp_all add: allowRequest_def getState_def split: cb_state.split)

lemma cb_inv_allowRequest:
  "cb_inv cb \<Longrightarrow> cb_config_ok (cb_config cb) \<Longrightarrow> cb_inv (snd (allowRequest t1 t2 cb))"
  by (auto simp: cb_inv_def cb_config_ok_def cb_defs split: cb_state.split)

lemma recordSuccess_frame [simp]:
  "cb_config (recordSuccess t cb) = cb_config cb"
  "totalRequests (recordSuccess t cb) = totalRequests cb"
  "successfulReqs (recordSuccess t cb) = successfulReqs cb"
  "failedReqs (recordSuccess t cb) = failedReqs cb"
  "rejectedReqs (recordSuccess t cb) = rejectedReqs cb"
  by (simp_all add: recordSuccess_def getState_def Let_def)

lemma cb_inv_recordSuccess:
  "cb_inv cb \<Longrightarrow> cb_config_ok (cb_config cb) \<Longrightarrow> cb_inv (recordSuccess t cb)"
  by (auto simp: cb_inv_def cb_config_ok_def cb_defs)

lemma recordFailure_frame [simp]:
  "cb_config (recordFailure t cb) = cb_config cb"
  "totalRequests (recordFailure t cb) = totalRequests cb"
  "successfulReqs (recordFailure t cb) = successfulReqs cb"
  "failedReqs (recordFailure t cb) = failedReqs cb"
  "rejectedReqs (recordFailure t cb) = rejectedReqs cb"
  by (simp_all add: recordFailure_def getState_def Let_def)

lemma cb_inv_recordFailure:
  "cb_inv cb \<Longrightarrow> cb_config_ok (cb_config cb) \<Longrightarrow> cb_inv (recordFailure t cb)"
  by (auto simp: cb_inv_def cb_config_ok_def cb_defs)

lemma cb_inv_counters [simp]:
  "cb_inv (cb\<lparr>totalRequests := a\<rparr>) = cb_inv cb"
  "cb_inv (cb\<lparr>rejectedReqs := a\<rparr>) = cb_inv cb"
  "cb_inv (cb\<lparr>failedReqs := a\<rparr>) = cb_inv cb"
  "cb_inv (cb\<lparr>successfulReqs := a\<rparr>) = cb_inv cb"
  by (simp_all add: cb_inv_def)

lemma cb_Execute_config [simp]: "cb_config (snd (cb_Execute t1 t2 t3 e cb)) = cb_config cb"
  by (cases e) (simp_all add: cb_Execute_def Let_def case_prod_unfold)

lemma cb_inv_Execute:
  "cb_inv cb \<Longrightarrow> cb_config_ok (cb_config cb) \<Longrightarrow> cb_inv (snd (cb_Execute t1 t2 t3 e cb))"
  by (cases e) (simp_all add: cb_Execute_def Let_def case_prod_unfold cb_inv_allowRequest
      cb_inv_recordSuccess cb_inv_recordFailure cb_inv_getState)

lemma cb_counts_Execute:
  "cb_counts_ok cb \<Longrightarrow> cb_counts_ok (snd (cb_Execute t1 t2 t3 e cb))"
  by (cases e) (simp_all add: cb_counts_ok_def cb_Execute_def Let_def case_prod_unfold)

lemma cb_step_preserves:
  assumes "cb_step cb cb'" and "cb_config_ok (cb_config cb)" and "cb_inv cb" and "cb_counts_ok cb"
  shows "cb_config cb' = cb_config cb \<and> cb_inv cb' \<and> cb_counts_ok cb'"
  using assms
proof (induction rule: cb_step.induct)
  case (execute cb t1 t2 t3 err)
  then show ?case by (simp add: cb_inv_Execute cb_counts_Execute)
next
  case (read_state cb now)
  then show ?case by (simp add: cb_State_def cb_inv_getState cb_counts_ok_def)
next
  case (read_stats cb now)
  then show ?case
    by (simp add: cb_Stats_def Let_def case_prod_unfold cb_inv_getState cb_counts_ok_def)
next
  case (read_health cb now)
  then show ?case
    by (simp add: cb_IsHealthy_def Let_def case_prod_unfold cb_inv_getState cb_counts_ok_def)
next
  case (reset cb now)
  then show ?case
    by (simp add: cb_Reset_def cb_inv_def cb_counts_ok_def cb_config_ok_def)
qed

lemma cb_inv_New: "cb_config_ok cfg \<Longrightarrow> cb_inv (cb_New cfg now) \<and> cb_counts_ok (cb_New cfg now)"
  by (simp add: cb_New_def cb_inv_def cb_counts_ok_def cb_config_ok_def)

interpretation cbsys: invariant_system
  "\<lambda>cb. \<exists>cfg now. cb_config_ok cfg \<and> cb = cb_New cfg now" cb_step
  "\<lambda>cb. cb_config_ok (cb_config cb) \<and> cb_inv cb \<and> cb_counts_ok cb"
proof unfold_locales
  fix cb
  assume "\<exists>cfg now. cb_config_ok cfg \<and> cb = cb_New cfg now"
  then show "cb_config_ok (cb_config cb) \<and> cb_inv cb \<and> cb_counts_ok cb"
    by (metis cb_inv_New cb_New_def circuit_breaker.simps(1))
next
  fix cb cb'
  assume "cb_config_ok (cb_config cb) \<and> cb_inv cb \<and> cb_counts_ok cb" and "cb_step cb cb'"
  then show "cb_config_ok (cb_config cb') \<and> cb_inv cb' \<and> cb_counts_ok cb'"
    by (metis cb_step_preserves)
qed

subsection \<open>Tripping and recovering\<close>

lemma cb_closed_failure:
  fixes t1 t2 t3 :: instant and e :: 'e
  assumes "cb_st cb = StateClosed"
  defines "cb' \<equiv> snd (cb_Execute t1 t2 t3 (Some e) cb)"
  shows "cb_failures cb + 1 < FailureThreshold (cb_config cb) \<Longrightarrow>
           cb_st cb' = StateClosed \<and> cb_failures cb' = cb_failures cb + 1"
    and "cb_failures cb + 1 \<ge> FailureThreshold (cb_config cb) \<Longrightarrow>
           cb_st cb' = StateOpen \<and> lastStateChange cb' = t3"
  using assms(1) by (simp_all add: cb'_def cb_defs)

lemma cb_half_open_success:
  fixes t1 t2 t3 :: instant
  assumes "cb_st cb = StateHalfOpen"
  defines "cb' \<equiv> snd (cb_Execute t1 t2 t3 (None :: 'e option) cb)"
  shows "cb_successes cb + 1 < SuccessThreshold (cb_config cb) \<Longrightarrow>
           cb_st cb' = StateHalfOpen \<and> cb_successes cb' = cb_successes cb + 1"
    and "cb_successes cb + 1 \<ge> SuccessThreshold (cb_config cb) \<Longrightarrow>
           cb_st cb' = StateClosed \<and> cb_failures cb' = 0"
  using assms(1) by (simp_all add: cb'_def cb_defs)

lemma cb_expired_acts_half_open:
  assumes "cb_st cb = StateOpen" and "cb_timed_out t1 cb"
  shows "cb_Execute t1 t2 t3 e cb = cb_Execute t1 t2 t3 e (transitionTo StateHalfOpen t1 cb)"
  using assms by (cases cb; cases e) (simp_all add: cb_defs)

lemma cb_run_closed_failures:
  assumes "cb_st cb = StateClosed" and "\<forall>(t1, t2, t3, e) \<in> set cs. e \<noteq> None"
    and "cb_failures cb + int (length cs) < FailureThreshold (cb_config cb)"
  shows "cb_st (cb_run cs cb) = StateClosed \<and>
         cb_failures (cb_run cs cb) = cb_failures cb + int (length cs) \<and>
         cb_config (cb_run cs cb) = cb_config cb"
  using assms
proof (induction cs arbitrary: cb)
  case Nil
  then show ?case by simp
next
  case (Cons c cs)
  obtain t1 t2 t3 e where c: "c = (t1, t2, t3, Some e)"
    using Cons.prems(2) by (cases c) auto
  let ?cb = "snd (cb_Execute t1 t2 t3 (Some e) cb)"
  have 1: "cb_st ?cb = StateClosed \<and> cb_failures ?cb = cb_failures cb + 1"
    using Cons.prems by (intro cb_closed_failure(1)) auto
  have "cb_st (cb_run cs ?cb) = StateClosed \<and>
      cb_failures (cb_run cs ?cb) = cb_failures ?cb + int (length cs) \<and>
      cb_config (cb_run cs ?cb) = cb_config ?cb"
    using Cons.prems 1 by (intro Cons.IH) auto
  then show ?case using 1 c by simp
qed

lemma cb_run_append: "cb_run (xs @ ys) cb = cb_run ys (cb_run xs cb)"
  by (induction xs cb rule: cb_run.induct) simp_all

lemma cb_run_half_open_successes:
  fixes cs :: "'e cb_call list"
  assumes "cb_st cb = StateHalfOpen" and "\<forall>(t1, t2, t3, e) \<in> set cs. e = None" and "cs \<noteq> []"
    and "cb_successes cb + int (length cs) = SuccessThreshold (cb_config cb)"
  shows "cb_st (cb_run cs cb) = StateClosed \<and> cb_failures (cb_run cs cb) = 0"
  using assms
proof (induction cs arbitrary: cb)
  case Nil
  then show ?case by simp
next
  case (Cons c cs)
  obtain t1 t2 t3 where c: "c = (t1, t2, t3, None)"
    using Cons.prems(2) by (cases c) auto
  let ?cb = "snd (cb_Execute t1 t2 t3 (None :: 'e option) cb)"
  show ?case
  proof (cases "cs = []")
    case True
    then show ?thesis
      using Cons.prems c by (simp add: cb_half_open_success(2))
  next
    case False
    have 1: "cb_st ?cb = StateHalfOpen \<and> cb_successes ?cb = cb_successes cb + 1"
      using Cons.prems False by (intro cb_half_open_success(1)) (auto simp: neq_Nil_conv)
    have "cb_st (cb_run cs ?cb) = StateClosed \<and> cb_failures (cb_run cs ?cb) = 0"
      using Cons.prems 1 False by (intro Cons.IH) auto
    then show ?thesis using c by simp
  qed
qed

subsection \<open>Properties\<close>



text \<open>An open breaker whose timeout has not passed rejects the call with \<open>ErrCircuitOpen\<close>, whatever
  the protected function would have returned, and changes only its request counters.\<close>

theorem breaker_open_rejects:
  assumes "cb_st cb = StateOpen"
    and "\<not> cb_timed_out t1 cb" and "\<not> cb_timed_out t2 cb" and "\<not> cb_timed_out t3 cb"
  shows "cb_Execute t1 t2 t3 e cb =
    (ErrCircuitOpen, cb\<lparr>totalRequests := totalRequests cb + 1, rejectedReqs := rejectedReqs cb + 1\<rparr>)"
  using assms by (simp add: cb_defs)

theorem breaker_open_rejects_witness:
  "fst (cb_Execute 5 6 7 (None :: string option)
     ((cb_New cb_DefaultConfig 0)\<lparr>cb_st := StateOpen\<rparr>)) = ErrCircuitOpen"
  using breaker_open_rejects [of "(cb_New cb_DefaultConfig 0)\<lparr>cb_st := StateOpen\<rparr>" 5 6 7 "None :: string option"]
  by (simp add: cb_New_def cb_timed_out_def cb_DefaultConfig_def second_def)

text \<open>Starting closed with no recorded failure, a breaker stays closed during fewer than
  \<open>FailureThreshold\<close> consecutive failing calls and is open right after the call that reaches the
  threshold.\<close>

theorem breaker_trips:
  assumes "cb_st cb = StateClosed" and "cb_failures cb = 0"
    and "\<forall>(t1, t2, t3, e) \<in> set cs. e \<noteq> None"
    and "int (length cs) = FailureThreshold (cb_config cb)" and "cs \<noteq> []"
  shows "cb_st (cb_run cs cb) = StateOpen \<and>
         (\<forall>k < length cs. cb_st (cb_run (take k cs) cb) = StateClosed)"
proof
  obtain ds t1 t2 t3 e where cs: "cs = ds @ [(t1, t2, t3, Some e)]"
    using assms(3,5) by (cases cs rule: rev_cases) auto
  have pre: "cb_st (cb_run ds cb) = StateClosed \<and>
      cb_failures (cb_run ds cb) = int (length ds) \<and> cb_config (cb_run ds cb) = cb_config cb"
    using cb_run_closed_failures [of cb ds] assms cs by auto
  then have "cb_failures (cb_run ds cb) + 1 \<ge> FailureThreshold (cb_config (cb_run ds cb))"
    using assms(4) cs by simp
  with pre show "cb_st (cb_run cs cb) = StateOpen"
    using cs by (simp add: cb_run_append cb_closed_failure(2))
next
  show "\<forall>k < length cs. cb_st (cb_run (take k cs) cb) = StateClosed"
  proof (intro allI impI)
    fix k assume k: "k < length cs"
    then have "cb_failures cb + int (length (take k cs)) < FailureThreshold (cb_config cb)"
      using assms(2,4) by simp
    moreover have "\<forall>(t1, t2, t3, e) \<in> set (take k cs). e \<noteq> None"
      using assms(3) by (meson in_set_takeD)
    ultimately show "cb_st (cb_run (take k cs) cb) = StateClosed"
      using cb_run_closed_failures [OF assms(1)] by blast
  qed
qed

theorem breaker_trips_witness:
  "cb_st (cb_run (replicate 5 (1, 1, 2, Some ''down'')) (cb_New cb_DefaultConfig 0)) = StateOpen"
  using breaker_trips [of "cb_New cb_DefaultConfig 0" "replicate 5 (1, 1, 2, Some ''down'')"]
  by (simp add: cb_New_def cb_DefaultConfig_def)

text \<open>An open breaker recovers: once its timeout has passed, \<open>SuccessThreshold\<close> consecutive
  successful calls close it and clear its failure count.\<close>

theorem breaker_recovers:
  assumes "cb_st cb = StateOpen" and "cs = (t1, t2, t3, None) # rest" and "cb_timed_out t1 cb"
    and "\<forall>(t1, t2, t3, e) \<in> set cs. e = None"
    and "int (length cs) = SuccessThreshold (cb_config cb)"
  shows "cb_st (cb_run cs cb) = StateClosed \<and> cb_failures (cb_run cs cb) = 0"
proof -
  let ?cb = "transitionTo StateHalfOpen t1 cb"
  have "cb_run cs cb = cb_run cs ?cb"
    using assms(1-3) by (simp add: cb_expired_acts_half_open)
  moreover have "cb_successes ?cb = 0"
    using assms(1) by (simp add: transitionTo_def)
  ultimately show ?thesis
    using assms(2,4,5) cb_run_half_open_successes [of ?cb cs] by simp
qed

theorem breaker_recovers_witness:
  "cb_st (cb_run (replicate 3 (40 * second, 40 * second, 41 * second, None :: string option))
     ((cb_New cb_DefaultConfig 0)\<lparr>cb_st := StateOpen\<rparr>)) = StateClosed"
  using breaker_recovers [of "(cb_New cb_DefaultConfig 0)\<lparr>cb_st := StateOpen\<rparr>"
      "replicate 3 (40 * second, 40 * second, 41 * second, None :: string option)"
      "40 * second" "40 * second" "41 * second"
      "replicate 2 (40 * second, 40 * second, 41 * second, None)"]
  by (simp add: cb_New_def cb_DefaultConfig_def cb_timed_out_def second_def numeral_eq_Suc)

end
