(* ===== verification/GoStrings.thy ===== *)
theory GoStrings
  imports Prelude
begin

text \<open>
  The functions of Go's \<^verbatim>\<open>strings\<close> and \<^verbatim>\<open>strconv\<close> packages that the modelled code calls.  A Go string is
  a sequence of bytes, here a \<^typ>\<open>string\<close>; letters and white space are those of ASCII, which is
  what host names, ports, addresses and units are written in.
\<close>

definition code :: "char \<Rightarrow> nat" where
  "code c = of_char c"

definition is_digit :: "char \<Rightarrow> bool" where
  "is_digit c \<longleftrightarrow> 48 \<le> code c \<and> code c \<le> 57"

definition is_space :: "char \<Rightarrow> bool" where
  "is_space c \<longleftrightarrow> (9 \<le> code c \<and> code c \<le> 13) \<or> code c = 32"

definition lower_char :: "char \<Rightarrow> char" where
  "lower_char c = (if 65 \<le> code c \<and> code c \<le> 90 then char_of (code c + 32) else c)"

definition upper_char :: "char \<Rightarrow> char" where
  "upper_char c = (if 97 \<le> code c \<and> code c \<le> 122 then char_of (code c - 32) else c)"

definition ToLower :: "string \<Rightarrow> string" where
  "ToLower s = map lower_char s"

definition ToUpper :: "string \<Rightarrow> string" where
  "ToUpper s = map upper_char s"

definition TrimSpace :: "string \<Rightarrow> string" where
  "TrimSpace s = rev (dropWhile is_space (rev (dropWhile is_space s)))"

text \<open>\<open>strings.Split\<close> with a one-character separator: always at least one part.\<close>

fun Split :: "char \<Rightarrow> string \<Rightarrow> string list" where
  "Split c [] = [[]]"
| "Split c (x # xs) =
     (if x = c then [] # Split c xs
      else case Split c xs of [] \<Rightarrow> [[x]] | p # ps \<Rightarrow> (x # p) # ps)"

fun Join :: "char \<Rightarrow> string list \<Rightarrow> string" where
  "Join c [] = []"
| "Join c [s] = s"
| "Join c (s # ss) = s @ c # Join c ss"

definition RemoveAll :: "char \<Rightarrow> string \<Rightarrow> string" where
  "RemoveAll c s = filter (\<lambda>x. x \<noteq> c) s"

definition HasPrefix :: "string \<Rightarrow> string \<Rightarrow> bool" where
  "HasPrefix s p \<longleftrightarrow> take (length p) s = p"

definition HasSuffix :: "string \<Rightarrow> string \<Rightarrow> bool" where
  "HasSuffix s p \<longleftrightarrow> length p \<le> length s \<and> drop (length s - length p) s = p"

definition digit_val :: "char \<Rightarrow> nat" where
  "digit_val c = code c - 48"

definition dec_val :: "string \<Rightarrow> nat" where
  "dec_val s = foldl (\<lambda>a c. 10 * a + digit_val c) 0 s"

text \<open>\<open>strconv.ParseUint(s, 10, bits)\<close>; \<^const>\<open>None\<close> is its error result.\<close>

definition ParseUint :: "nat \<Rightarrow> string \<Rightarrow> nat option" where
  "ParseUint bits s =
     (if s = [] \<or> \<not> list_all is_digit s then None
      else if dec_val s < 2 ^ bits then Some (dec_val s) else None)"

text \<open>\<open>strconv.FormatUint(n, 10)\<close>.\<close>

fun FormatUint :: "nat \<Rightarrow> string" where
  "FormatUint n =
     (if n < 10 then [char_of (48 + n)]
      else FormatUint (n div 10) @ [char_of (48 + n mod 10)])"

declare FormatUint.simps [simp del]

subsection \<open>Facts\<close>

lemma code_char_of [simp]: "code (char_of n) = n mod 256"
  by (simp add: code_def)

lemma char_of_code [simp]: "char_of (code c) = c"
  by (simp add: code_def)

lemma code_bound: "code c < 256"
  by (simp add: code_def)

lemma is_digit_char_of [simp]: "(n::nat) < 10 \<Longrightarrow> is_digit (char_of (48 + n))"
  by (simp add: is_digit_def)

lemma digit_val_char_of [simp]: "(n::nat) < 10 \<Longrightarrow> digit_val (char_of (48 + n)) = n"
  by (simp add: digit_val_def)

lemma dec_val_snoc [simp]: "dec_val (s @ [c]) = 10 * dec_val s + digit_val c"
  by (simp add: dec_val_def)

lemma dec_val_single [simp]: "dec_val [c] = digit_val c"
  by (simp add: dec_val_def)

lemma FormatUint_digits: "list_all is_digit (FormatUint n)"
proof (induction n rule: FormatUint.induct)
  case (1 n)
  show ?case
  proof (cases "n < 10")
    case True
    then show ?thesis by (subst FormatUint.simps) simp
  next
    case False
    with 1 have "list_all is_digit (FormatUint (n div 10))" by simp
    with False show ?thesis by (subst FormatUint.simps) simp
  qed
qed

lemma FormatUint_nonempty [simp]: "FormatUint n \<noteq> []"
  by (subst FormatUint.simps) simp

lemma dec_val_FormatUint [simp]: "dec_val (FormatUint n) = n"
proof (induction n rule: FormatUint.induct)
  case (1 n)
  show ?case
  proof (cases "n < 10")
    case True
    then show ?thesis by (subst FormatUint.simps) simp
  next
    case False
    with 1 have "dec_val (FormatUint (n div 10)) = n div 10" by simp
    with False show ?thesis by (subst FormatUint.simps) simp
  qed
qed

lemma ParseUint_FormatUint: "n < 2 ^ bits \<Longrightarrow> ParseUint bits (FormatUint n) = Some n"
  by (simp add: ParseUint_def FormatUint_digits)

lemma FormatUint_inj: "FormatUint m = FormatUint n \<longleftrightarrow> m = n"
  by (metis dec_val_FormatUint)

lemma ParseUint_bound: "ParseUint bits s = Some n \<Longrightarrow> n < 2 ^ bits"
  by (auto simp: ParseUint_def split: if_splits)

lemma digit_not_sep:
  "is_digit c \<Longrightarrow> c \<noteq> CHR ''-''" "is_digit c \<Longrightarrow> c \<noteq> CHR '',''" "is_digit c \<Longrightarrow> c \<noteq> CHR ''/''"
  "is_digit c \<Longrightarrow> c \<noteq> CHR '':''" "is_digit c \<Longrightarrow> \<not> is_space c"
  by (auto simp: is_digit_def is_space_def code_def)

lemma is_digit_dot: "\<not> is_digit CHR ''.''"
  by (simp add: is_digit_def code_def)

lemma FormatUint_is_digit: "c \<in> set (FormatUint n) \<Longrightarrow> is_digit c"
  using FormatUint_digits [of n] by (simp add: list_all_iff)

lemma FormatUint_no_sep:
  "CHR ''-'' \<notin> set (FormatUint n)" "CHR '','' \<notin> set (FormatUint n)"
  "CHR ''/'' \<notin> set (FormatUint n)" "CHR '':'' \<notin> set (FormatUint n)"
  by (metis FormatUint_is_digit digit_not_sep(1), metis FormatUint_is_digit digit_not_sep(2),
      metis FormatUint_is_digit digit_not_sep(3), metis FormatUint_is_digit digit_not_sep(4))

lemma dropWhile_id: "(\<forall>x \<in> set xs. \<not> P x) \<Longrightarrow> dropWhile P xs = xs"
  by (cases xs) auto

lemma TrimSpace_id: "(\<forall>c \<in> set s. \<not> is_space c) \<Longrightarrow> TrimSpace s = s"
  by (simp add: TrimSpace_def dropWhile_id)

lemma TrimSpace_FormatUint [simp]: "TrimSpace (FormatUint n) = FormatUint n"
  by (rule TrimSpace_id) (metis FormatUint_is_digit digit_not_sep(5))

lemma Split_not_Nil [simp]: "Split c s \<noteq> []"
  by (induction s) (auto split: list.splits)

lemma Split_no_sep: "c \<notin> set s \<Longrightarrow> Split c s = [s]"
  by (induction s) auto

lemma Split_append_sep: "c \<notin> set s \<Longrightarrow> Split c (s @ c # t) = s # Split c t"
  by (induction s) auto

lemma Split_parts_no_sep: "p \<in> set (Split c s) \<Longrightarrow> c \<notin> set p"
proof (induction s arbitrary: p)
  case Nil
  then show ?case by simp
next
  case (Cons x xs)
  then show ?case
    by (cases "Split c xs") (auto split: if_splits)
qed

lemma Split_Join:
  "ps \<noteq> [] \<Longrightarrow> (\<forall>p \<in> set ps. c \<notin> set p) \<Longrightarrow> Split c (Join c ps) = ps"
  by (induction c ps rule: Join.induct) (auto simp: Split_no_sep Split_append_sep)

lemma Join_Split [simp]: "Join c (Split c s) = s"
proof (induction s)
  case Nil
  then show ?case by simp
next
  case (Cons x xs)
  then show ?case
    by (cases "Split c xs"; cases "tl (Split c xs)") (auto simp: neq_Nil_conv)
qed

lemma HasPrefix_iff: "HasPrefix s p \<longleftrightarrow> prefix p s"
  by (auto simp: HasPrefix_def prefix_def) (metis append_take_drop_id)

lemma HasSuffix_iff: "HasSuffix s p \<longleftrightarrow> suffix p s"
proof
  assume "HasSuffix s p"
  then show "suffix p s"
    unfolding HasSuffix_def by (metis suffix_drop)
next
  assume "suffix p s"
  then show "HasSuffix s p"
    by (auto simp: HasSuffix_def suffix_def)
qed

lemma lower_char_idem [simp]: "lower_char (lower_char c) = lower_char c"
  by (auto simp: lower_char_def code_bound)

lemma ToLower_idem [simp]: "ToLower (ToLower s) = ToLower s"
  by (simp add: ToLower_def)

lemma ToLower_append: "ToLower (s @ t) = ToLower s @ ToLower t"
  by (simp add: ToLower_def)

lemma ToLower_Nil [simp]: "ToLower [] = []"
  by (simp add: ToLower_def)

end
