(* ===== verification/GoNet.thy ===== *)
theory GoNet
  imports GoStrings
begin

text \<open>
  The address types of Go's \<^verbatim>\<open>net\<close> and \<^verbatim>\<open>net/netip\<close> packages as far as the modelled code uses them:
  \<open>net.IP\<close> (a byte slice; the empty list is nil), \<open>net.IPNet\<close>, \<open>netip.Addr\<close>, \<open>netip.Prefix\<close>, and the parsing and
  printing of addresses and prefixes.
\<close>

unbundle bit_operations_syntax

type_synonym ip = "byte list"

definition v4InV6Prefix :: "byte list" where
  "v4InV6Prefix = [0, 0, 0, 0, 0, 0, 0, 0, 0, 0, 255, 255]"

definition To4 :: "ip \<Rightarrow> ip option" where
  "To4 a =
     (if length a = 4 then Some a
      else if length a = 16 \<and> take 12 a = v4InV6Prefix then Some (drop 12 a)
      else None)"

text \<open>What \<open>copy\<close> of \<open>ip.To4()\<close> leaves in a zeroed slot of four bytes.\<close>

definition slot4 :: "ip \<Rightarrow> byte list" where
  "slot4 a = (case To4 a of Some b \<Rightarrow> b | None \<Rightarrow> [0, 0, 0, 0])"

definition IP_Equal :: "ip \<Rightarrow> ip \<Rightarrow> bool" where
  "IP_Equal a b =
     (if length a = length b then a = b
      else if length a = 4 \<and> length b = 16 then take 12 b = v4InV6Prefix \<and> drop 12 b = a
      else if length a = 16 \<and> length b = 4 then take 12 a = v4InV6Prefix \<and> drop 12 a = b
      else False)"

subsection \<open>Textual form\<close>

definition hex_digit :: "nat \<Rightarrow> char" where
  "hex_digit n = (if n < 10 then char_of (48 + n) else char_of (87 + n))"

fun FormatHex :: "nat \<Rightarrow> string" where
  "FormatHex n =
     (if n < 16 then [hex_digit n] else FormatHex (n div 16) @ [hex_digit (n mod 16)])"

declare FormatHex.simps [simp del]

definition hex_bytes :: "byte list \<Rightarrow> string" where
  "hex_bytes bs = concat (map (\<lambda>b. [hex_digit (unat b div 16), hex_digit (unat b mod 16)]) bs)"

definition v4_string :: "byte list \<Rightarrow> string" where
  "v4_string bs = Join CHR ''.'' (map (\<lambda>b. FormatUint (unat b)) bs)"

text \<open>IPv6: the first longest run of two or more zero groups becomes \<^verbatim>\<open>::\<close>.\<close>

fun best_run :: "nat \<Rightarrow> nat list \<Rightarrow> nat \<times> nat \<Rightarrow> nat \<times> nat" where
  "best_run i [] b = b"
| "best_run i (g # gs) (s, l) =
     (let r = length (takeWhile (\<lambda>x. x = 0) (g # gs))
      in best_run (Suc i) gs (if 2 \<le> r \<and> l < r then (i, r) else (s, l)))"

fun groups16 :: "byte list \<Rightarrow> nat list" where
  "groups16 (a # b # bs) = (256 * unat a + unat b) # groups16 bs"
| "groups16 _ = []"

definition v6_string :: "byte list \<Rightarrow> string" where
  "v6_string bs =
     (let gs = groups16 bs; (s, l) = best_run 0 gs (0, 0)
      in if l = 0 then Join CHR '':'' (map FormatHex gs)
         else Join CHR '':'' (map FormatHex (take s gs)) @ ''::'' @
              Join CHR '':'' (map FormatHex (drop (s + l) gs)))"

definition IP_String :: "ip \<Rightarrow> string" where
  "IP_String a =
     (if a = [] then ''<nil>''
      else if length a \<noteq> 4 \<and> length a \<noteq> 16 then CHR ''?'' # hex_bytes a
      else case To4 a of Some a4 \<Rightarrow> v4_string a4 | None \<Rightarrow> v6_string a)"

subsection \<open>Networks: net.IPNet\<close>

record ipnet =
  ipn_IP :: ip
  ipn_Mask :: "byte list"

definition CIDRMask :: "nat \<Rightarrow> nat \<Rightarrow> byte list" where
  "CIDRMask ones bits =
     map (\<lambda>i. if 8 * (i + 1) \<le> ones then 255
              else if ones \<le> 8 * i then 0
              else NOT (drop_bit (ones - 8 * i) (255 :: byte))) [0..<bits div 8]"

definition IP_Mask :: "ip \<Rightarrow> byte list \<Rightarrow> ip" where
  "IP_Mask a m =
     (let m' = (if length m = 16 \<and> length a = 4 \<and> take 12 m = replicate 12 255
                then drop 12 m else m);
          a' = (if length m' = 4 \<and> length a = 16 \<and> take 12 a = v4InV6Prefix
                then drop 12 a else a)
      in if length a' \<noteq> length m' then [] else map2 (AND) a' m')"

definition networkNumberAndMask :: "ipnet \<Rightarrow> (byte list \<times> byte list) option" where
  "networkNumberAndMask n =
     (let a = (case To4 (ipn_IP n) of Some a4 \<Rightarrow> a4 | None \<Rightarrow> ipn_IP n); m = ipn_Mask n
      in if To4 (ipn_IP n) = None \<and> length (ipn_IP n) \<noteq> 16 then None
         else if length m = 4 then (if length a \<noteq> 4 then None else Some (a, m))
         else if length m = 16 then Some (a, if length a = 4 then drop 12 m else m)
         else None)"

definition IPNet_Contains :: "ipnet \<Rightarrow> ip \<Rightarrow> bool" where
  "IPNet_Contains n a =
     (let (nn, m) = (case networkNumberAndMask n of Some x \<Rightarrow> x | None \<Rightarrow> ([], []));
          x = (case To4 a of Some a4 \<Rightarrow> a4 | None \<Rightarrow> a)
      in length x = length nn \<and>
         list_all (\<lambda>(b, c, k). b AND k = c AND k) (zip nn (zip x m)))"

fun lead_ones :: "nat \<Rightarrow> byte \<Rightarrow> nat" where
  "lead_ones 0 v = 0"
| "lead_ones (Suc n) v = (if bit v 7 then Suc (lead_ones n (push_bit 1 v)) else 0)"

fun simpleMaskLength :: "byte list \<Rightarrow> nat option" where
  "simpleMaskLength [] = Some 0"
| "simpleMaskLength (v # vs) =
     (if v = 255 then map_option (\<lambda>n. 8 + n) (simpleMaskLength vs)
      else let k = lead_ones 8 v
           in if push_bit k v = 0 \<and> list_all (\<lambda>w. w = 0) vs then Some k else None)"

definition IPNet_String :: "ipnet \<Rightarrow> string" where
  "IPNet_String n =
     (case networkNumberAndMask n of
        None \<Rightarrow> ''<nil>''
      | Some (nn, m) \<Rightarrow>
          (case simpleMaskLength m of
             None \<Rightarrow> IP_String nn @ CHR ''/'' # hex_bytes m
           | Some l \<Rightarrow> IP_String nn @ CHR ''/'' # FormatUint l))"

subsection \<open>Addresses: netip.Addr and netip.Prefix\<close>

datatype addr = AddrZero | Addr4 "byte list" | Addr6 "byte list" string

definition v4_field_ok :: "string \<Rightarrow> bool" where
  "v4_field_ok f \<longleftrightarrow> f \<noteq> [] \<and> list_all is_digit f \<and> dec_val f \<le> 255 \<and>
     (hd f = CHR ''0'' \<longrightarrow> length f = 1)"

definition parse_v4 :: "string \<Rightarrow> byte list option" where
  "parse_v4 s =
     (let fs = Split CHR ''.'' s
      in if length fs = 4 \<and> list_all v4_field_ok fs
         then Some (map (\<lambda>f. of_nat (dec_val f)) fs) else None)"

definition hex_val :: "char \<Rightarrow> nat option" where
  "hex_val c =
     (if is_digit c then Some (code c - 48)
      else if 97 \<le> code c \<and> code c \<le> 102 then Some (code c - 87)
      else if 65 \<le> code c \<and> code c \<le> 70 then Some (code c - 55)
      else None)"

definition hex_group :: "string \<Rightarrow> nat" where
  "hex_group h = foldl (\<lambda>a c. 16 * a + (case hex_val c of Some d \<Rightarrow> d | None \<Rightarrow> 0)) 0 h"

fun v6_loop :: "nat \<Rightarrow> string \<Rightarrow> byte list \<Rightarrow> nat option \<Rightarrow> (string \<times> byte list \<times> nat option) option" where
  "v6_loop 0 s acc ell = Some (s, acc, ell)"
| "v6_loop (Suc n) s acc ell =
     (let h = takeWhile (\<lambda>c. hex_val c \<noteq> None) s; rest = drop (length h) s
      in if h = [] \<or> 4 < length h then None
         else if rest \<noteq> [] \<and> hd rest = CHR ''.'' then
           (if ell = None \<and> length acc \<noteq> 12 \<or> 16 < length acc + 4 then None
            else case parse_v4 s of
                   None \<Rightarrow> None
                 | Some v \<Rightarrow> Some ([], acc @ v, ell))
         else
           let acc' = acc @ [of_nat (hex_group h div 256), of_nat (hex_group h)]
           in case rest of
                [] \<Rightarrow> Some ([], acc', ell)
              | c # r1 \<Rightarrow>
                  if c \<noteq> CHR '':'' then None
                  else (case r1 of
                          [] \<Rightarrow> None
                        | d # r2 \<Rightarrow>
                            if d = CHR '':'' then
                              (if ell \<noteq> None then None
                               else if r2 = [] then Some ([], acc', Some (length acc'))
                               else v6_loop n r2 acc' (Some (length acc')))
                            else v6_loop n r1 acc' ell))"

definition v6_finish :: "(string \<times> byte list \<times> nat option) option \<Rightarrow> byte list option" where
  "v6_finish r =
     (case r of
        None \<Rightarrow> None
      | Some (s, acc, ell) \<Rightarrow>
          if s \<noteq> [] then None
          else if length acc < 16 then
            (case ell of
               None \<Rightarrow> None
             | Some e \<Rightarrow> Some (take e acc @ replicate (16 - length acc) 0 @ drop e acc))
          else if ell \<noteq> None then None else Some acc)"

definition parse_v6 :: "string \<Rightarrow> addr option" where
  "parse_v6 inp =
     (let s = takeWhile (\<lambda>c. c \<noteq> CHR ''%'') inp; zoned = CHR ''%'' \<in> set inp;
          zone = drop (Suc (length s)) inp
      in if zoned \<and> zone = [] then None
         else map_option (\<lambda>bs. Addr6 bs zone)
           (if take 2 s = ''::'' then
              (if length s = 2 then Some (replicate 16 0)
               else v6_finish (v6_loop 8 (drop 2 s) [] (Some 0)))
            else v6_finish (v6_loop 8 s [] None)))"

definition ParseAddr :: "string \<Rightarrow> addr option" where
  "ParseAddr s =
     (case dropWhile (\<lambda>c. c \<noteq> CHR ''.'' \<and> c \<noteq> CHR '':'' \<and> c \<noteq> CHR ''%'') s of
        [] \<Rightarrow> None
      | c # _ \<Rightarrow>
          if c = CHR ''.'' then map_option Addr4 (parse_v4 s)
          else if c = CHR '':'' then parse_v6 s
          else None)"

fun addr_zone :: "addr \<Rightarrow> string" where
  "addr_zone (Addr6 _ z) = z"
| "addr_zone _ = []"

fun As16 :: "addr \<Rightarrow> byte list" where
  "As16 AddrZero = replicate 16 0"
| "As16 (Addr4 bs) = v4InV6Prefix @ bs"
| "As16 (Addr6 bs _) = bs"

fun addr_bits :: "addr \<Rightarrow> nat" where
  "addr_bits AddrZero = 0"
| "addr_bits (Addr4 _) = 32"
| "addr_bits (Addr6 _ _) = 128"

definition ParseIP :: "string \<Rightarrow> ip option" where
  "ParseIP s =
     (case ParseAddr s of
        None \<Rightarrow> None
      | Some a \<Rightarrow> if addr_zone a \<noteq> [] then None else Some (As16 a))"

definition ParseCIDR :: "string \<Rightarrow> (ip \<times> ipnet) option" where
  "ParseCIDR s =
     (if CHR ''/'' \<notin> set s then None
      else
        let a = takeWhile (\<lambda>c. c \<noteq> CHR ''/'') s; mask = drop (Suc (length a)) s
        in case ParseAddr a of
             None \<Rightarrow> None
           | Some ad \<Rightarrow>
               if addr_zone ad \<noteq> [] then None
               else if mask = [] \<or> \<not> list_all is_digit mask \<or> dec_val mask > addr_bits ad then None
               else let m = CIDRMask (dec_val mask) (addr_bits ad)
                    in Some (As16 ad, \<lparr>ipn_IP = IP_Mask (As16 ad) m, ipn_Mask = m\<rparr>))"

datatype netip_prefix = Prefix addr nat

definition ParsePrefix :: "string \<Rightarrow> netip_prefix option" where
  "ParsePrefix s =
     (if CHR ''/'' \<notin> set s then None
      else
        let b = rev (takeWhile (\<lambda>c. c \<noteq> CHR ''/'') (rev s));
            a = take (length s - Suc (length b)) s
        in case ParseAddr a of
             None \<Rightarrow> None
           | Some ad \<Rightarrow>
               if addr_zone ad \<noteq> [] then None
               else if b = [] \<or> \<not> list_all is_digit b \<or> (length b > 1 \<and> hd b = CHR ''0'') \<or>
                       dec_val b > addr_bits ad then None
               else Some (Prefix ad (dec_val b)))"

definition byte_bits :: "byte \<Rightarrow> bool list" where
  "byte_bits b = map (bit b) [7, 6, 5, 4, 3, 2, 1, 0]"

definition bits_of :: "byte list \<Rightarrow> bool list" where
  "bits_of bs = concat (map byte_bits bs)"

fun Prefix_Contains :: "netip_prefix \<Rightarrow> addr \<Rightarrow> bool" where
  "Prefix_Contains (Prefix (Addr4 p) n) (Addr4 a) = (take n (bits_of a) = take n (bits_of p))"
| "Prefix_Contains (Prefix (Addr6 p _) n) (Addr6 a z) =
     (z = [] \<and> take n (bits_of a) = take n (bits_of p))"
| "Prefix_Contains _ _ = False"

definition addr_IsValid :: "addr \<Rightarrow> bool" where
  "addr_IsValid a \<longleftrightarrow> a \<noteq> AddrZero"

definition addr_Is4 :: "addr \<Rightarrow> bool" where
  "addr_Is4 a \<longleftrightarrow> (case a of Addr4 _ \<Rightarrow> True | _ \<Rightarrow> False)"

subsection \<open>Facts\<close>

lemma hex_digit_code: "m < 16 \<Longrightarrow> code (hex_digit m) = (if m < 10 then 48 + m else 87 + m)"
  by (simp add: hex_digit_def)

lemma hex_digit_no_slash: "m < 16 \<Longrightarrow> hex_digit m \<noteq> CHR ''/''"
proof
  assume "m < 16" and "hex_digit m = CHR ''/''"
  then have "code (hex_digit m) = 47" by (simp add: code_def)
  with \<open>m < 16\<close> show False by (simp add: hex_digit_code split: if_splits)
qed

lemma FormatHex_no_slash: "CHR ''/'' \<notin> set (FormatHex n)"
proof (induction n rule: FormatHex.induct)
  case (1 n)
  then show ?case
    by (subst FormatHex.simps) (auto simp: hex_digit_no_slash hex_digit_no_slash [symmetric])
qed

lemma Join_mem: "x \<in> set (Join c ps) \<Longrightarrow> x = c \<or> (\<exists>p \<in> set ps. x \<in> set p)"
  by (induction c ps rule: Join.induct) auto

lemma Join_no_slash:
  "c \<noteq> CHR ''/'' \<Longrightarrow> (\<forall>p \<in> set ps. CHR ''/'' \<notin> set p) \<Longrightarrow> CHR ''/'' \<notin> set (Join c ps)"
  by (auto dest!: Join_mem)

lemma hex_bytes_no_slash: "CHR ''/'' \<notin> set (hex_bytes bs)"
proof -
  have "unat b div 16 < 16" and "unat b mod 16 < 16" for b :: byte
    using unsigned_less [of b, where ?'a = nat] by simp_all
  then show ?thesis
    by (auto simp: hex_bytes_def hex_digit_no_slash [symmetric])
qed

lemma v4_string_no_slash: "CHR ''/'' \<notin> set (v4_string bs)"
  unfolding v4_string_def by (rule Join_no_slash) (auto simp: FormatUint_no_sep)

lemma v6_string_no_slash: "CHR ''/'' \<notin> set (v6_string bs)"
proof -
  have "CHR ''/'' \<notin> set (Join CHR '':'' (map FormatHex gs))" for gs
    by (rule Join_no_slash) (auto simp: FormatHex_no_slash)
  then show ?thesis by (simp add: v6_string_def Let_def split: prod.split)
qed

lemma IP_String_no_slash: "CHR ''/'' \<notin> set (IP_String a)"
  by (simp add: IP_String_def hex_bytes_no_slash v4_string_no_slash v6_string_no_slash
      split: option.split)

definition ipnet_valid :: "ipnet \<Rightarrow> bool" where
  "ipnet_valid n \<longleftrightarrow> networkNumberAndMask n \<noteq> None"

lemma IPNet_String_slash: "ipnet_valid n \<Longrightarrow> CHR ''/'' \<in> set (IPNet_String n)"
  by (auto simp: ipnet_valid_def IPNet_String_def split: option.split prod.split)

lemma length_CIDRMask [simp]: "length (CIDRMask n bits) = bits div 8"
  by (simp add: CIDRMask_def)

lemma parse_v4_length: "parse_v4 s = Some bs \<Longrightarrow> length bs = 4"
  by (auto simp: parse_v4_def Let_def split: if_splits)

lemma v4InV6Prefix_length [simp]: "length v4InV6Prefix = 12"
  by (simp add: v4InV6Prefix_def)

lemma Join_nonempty: "p \<noteq> [] \<Longrightarrow> Join c (p # ps) \<noteq> []"
  by (cases ps) auto

lemma FormatHex_nonempty [simp]: "FormatHex n \<noteq> []"
  by (subst FormatHex.simps) simp

lemma To4_length: "To4 a = Some b \<Longrightarrow> length b = 4"
  by (auto simp: To4_def split: if_splits)

lemma length_slot4 [simp]: "length (slot4 a) = 4"
  by (auto simp: slot4_def To4_def split: option.splits if_splits)

lemma v4_string_nonempty: "length b = 4 \<Longrightarrow> v4_string b \<noteq> []"
  by (cases b) (simp_all add: v4_string_def Join_nonempty)

lemma groups16_nonempty: "length a = 16 \<Longrightarrow> \<exists>g gs. groups16 a = g # gs"
  by (cases a rule: groups16.cases) auto

lemma v6_string_nonempty: "length a = 16 \<Longrightarrow> v6_string a \<noteq> []"
  using groups16_nonempty [of a]
  by (auto simp: v6_string_def Let_def Join_nonempty split: prod.split)

lemma IP_String_nonempty [simp]: "IP_String a \<noteq> []"
proof (cases "To4 a")
  case None
  then have "length a \<noteq> 4" by (auto simp: To4_def)
  with None show ?thesis by (simp add: IP_String_def v6_string_nonempty)
next
  case (Some b)
  then show ?thesis by (simp add: IP_String_def v4_string_nonempty To4_length)
qed

subsection \<open>Parsed networks are well formed\<close>

lemma v6_loop_length:
  assumes "v6_loop n s acc ell = Some (s', acc', ell')" and "length acc + 2 * n \<le> 16"
  shows "length acc' \<le> 16"
  using assms
proof (induction n arbitrary: s acc ell)
  case 0
  then show ?case by simp
next
  case (Suc n)
  have IH: "length acc' \<le> 16"
    if "v6_loop n s1 (acc @ [x, y]) ell1 = Some (s', acc', ell')" for s1 x y ell1
    using Suc.IH [OF that] Suc.prems(2) by simp
  from Suc.prems show ?case
    by (auto simp: Let_def dest: IH dest!: parse_v4_length
        split: if_splits list.splits option.splits)
qed

lemma v6_finish_length:
  assumes "v6_finish (v6_loop 8 s [] ell) = Some bs"
  shows "length bs = 16"
proof -
  obtain s' acc ell' where r: "v6_loop 8 s [] ell = Some (s', acc, ell')"
    using assms by (auto simp: v6_finish_def split: option.splits)
  have "length acc \<le> 16" using v6_loop_length [OF r] by simp
  with assms r show ?thesis by (auto simp: v6_finish_def split: if_splits option.splits)
qed

definition addr_wf :: "addr \<Rightarrow> bool" where
  "addr_wf a \<longleftrightarrow> (case a of AddrZero \<Rightarrow> True | Addr4 bs \<Rightarrow> length bs = 4 | Addr6 bs _ \<Rightarrow> length bs = 16)"

lemma parse_v6_wf: "parse_v6 s = Some a \<Longrightarrow> \<exists>bs z. a = Addr6 bs z \<and> length bs = 16"
  by (auto simp: parse_v6_def Let_def dest: v6_finish_length split: if_splits)

lemma ParseAddr_wf: "ParseAddr s = Some a \<Longrightarrow> addr_wf a \<and> a \<noteq> AddrZero"
  by (auto simp: ParseAddr_def addr_wf_def dest!: parse_v6_wf dest: parse_v4_length
      split: list.splits if_splits)

lemma length_As16: "addr_wf a \<Longrightarrow> length (As16 a) = 16"
  by (cases a) (auto simp: addr_wf_def)

lemma IP_Mask_length:
  "length a = 16 \<Longrightarrow> length m = 16 \<Longrightarrow> length (IP_Mask a m) = 16"
  "length a = 4 \<Longrightarrow> length m = 4 \<Longrightarrow> length (IP_Mask (v4InV6Prefix @ a) m) = 4"
  by (simp_all add: IP_Mask_def Let_def)

lemma ParseCIDR_valid:
  assumes "ParseCIDR s = Some (a, n)"
  shows "ipnet_valid n"
proof -
  from assms obtain ad ones where ad: "ParseAddr (takeWhile (\<lambda>c. c \<noteq> CHR ''/'') s) = Some ad"
    and n: "n = \<lparr>ipn_IP = IP_Mask (As16 ad) (CIDRMask ones (addr_bits ad)), ipn_Mask = CIDRMask ones (addr_bits ad)\<rparr>"
    by (auto simp: ParseCIDR_def Let_def split: if_splits option.splits)
  from ParseAddr_wf [OF ad] show ?thesis
    by (cases ad) (auto simp: n addr_wf_def ipnet_valid_def networkNumberAndMask_def Let_def
        IP_Mask_length To4_def split: option.splits)
qed

subsection \<open>IPv4 addresses survive printing and parsing\<close>

lemma FormatUint_hd: "10 \<le> n \<Longrightarrow> hd (FormatUint n) \<noteq> CHR ''0''"
proof (induction n rule: FormatUint.induct)
  case (1 n)
  show ?case
  proof (cases "n div 10 < 10")
    case True
    have "char_of (48 + n div 10) \<noteq> CHR ''0''"
    proof
      assume "char_of (48 + n div 10) = CHR ''0''"
      then have "digit_val (char_of (48 + n div 10)) = 0" by (simp add: digit_val_def code_def)
      with True have "n div 10 = 0" by simp
      with 1(2) show False by simp
    qed
    then show ?thesis
      using 1(2) True by (subst FormatUint.simps, subst FormatUint.simps) simp
  next
    case False
    then show ?thesis using 1 by (subst FormatUint.simps) simp
  qed
qed

lemma v4_field_ok_FormatUint: "n < 256 \<Longrightarrow> v4_field_ok (FormatUint n)"
proof (cases "n < 10")
  case True
  then show "n < 256 \<Longrightarrow> ?thesis" by (subst FormatUint.simps) (simp add: v4_field_ok_def)
next
  case False
  then show "n < 256 \<Longrightarrow> ?thesis" using FormatUint_hd [of n] by (simp add: v4_field_ok_def FormatUint_digits)
qed

lemma is_digit_percent: "\<not> is_digit CHR ''%''"
  by (simp add: is_digit_def code_def)

lemma FormatUint_no_dot: "CHR ''.'' \<notin> set (FormatUint n)"
  using FormatUint_is_digit is_digit_dot by blast

lemma parse_v4_string:
  assumes "length bs = 4"
  shows "parse_v4 (v4_string bs) = Some bs"
proof -
  have "Split CHR ''.'' (v4_string bs) = map (\<lambda>b. FormatUint (unat b)) bs"
    unfolding v4_string_def using assms by (intro Split_Join) (auto simp: FormatUint_no_dot)
  moreover have "v4_field_ok (FormatUint (unat b))" for b :: byte
    using unsigned_less [of b, where ?'a = nat] by (simp add: v4_field_ok_FormatUint)
  ultimately show ?thesis
    using assms by (simp add: parse_v4_def Let_def list_all_iff comp_def)
qed

lemma ParseAddr_v4_string:
  assumes "length bs = 4"
  shows "ParseAddr (v4_string bs) = Some (Addr4 bs)"
proof -
  obtain a as where bs: "bs = a # as" "as \<noteq> []" using assms by (cases bs; cases "tl bs") auto
  have "v4_string bs = FormatUint (unat a) @ CHR ''.'' # Join CHR ''.'' (map (\<lambda>b. FormatUint (unat b)) as)"
    using bs by (cases as) (simp_all add: v4_string_def)
  moreover have "\<forall>c \<in> set (FormatUint (unat a)). c \<noteq> CHR ''.'' \<and> c \<noteq> CHR '':'' \<and> c \<noteq> CHR ''%''"
    using FormatUint_no_dot FormatUint_no_sep(4) FormatUint_is_digit is_digit_percent by metis
  ultimately have "dropWhile (\<lambda>c. c \<noteq> CHR ''.'' \<and> c \<noteq> CHR '':'' \<and> c \<noteq> CHR ''%'') (v4_string bs) =
      CHR ''.'' # Join CHR ''.'' (map (\<lambda>b. FormatUint (unat b)) as)"
    by (simp add: dropWhile_append2)
  then show ?thesis using parse_v4_string [OF assms] by (simp add: ParseAddr_def)
qed

lemma IP_String_v4: "To4 a = Some x \<Longrightarrow> IP_String a = v4_string x"
  by (auto simp: IP_String_def To4_def split: if_splits)

lemma brackets_no_digit: "\<not> is_digit CHR '':''" "\<not> is_digit CHR ''[''" "\<not> is_digit CHR '']''"
  by (simp_all add: is_digit_def code_def)

lemma v4_string_chars:
  assumes "c \<in> set (v4_string b)"
  shows "is_digit c \<or> c = CHR ''.''"
  using Join_mem [OF assms [unfolded v4_string_def]] FormatUint_is_digit by auto

lemma v4_string_no_brackets:
  "CHR '':'' \<notin> set (v4_string b)" "CHR ''['' \<notin> set (v4_string b)" "CHR '']'' \<notin> set (v4_string b)"
  by (auto dest!: v4_string_chars simp: brackets_no_digit)

lemma ParseIP_v4_string: "length b = 4 \<Longrightarrow> ParseIP (v4_string b) = Some (v4InV6Prefix @ b)"
  by (simp add: ParseIP_def ParseAddr_v4_string)

lemma v6_string_colon: "2 \<le> length (groups16 b) \<Longrightarrow> CHR '':'' \<in> set (v6_string b)"
proof -
  assume l: "2 \<le> length (groups16 b)"
  then obtain x y zs where "groups16 b = x # y # zs" by (metis Suc_le_length_iff numeral_2_eq_2)
  moreover obtain s r where "best_run 0 (groups16 b) (0, 0) = (s, r)" by fastforce
  ultimately show ?thesis by (cases "r = 0") (simp_all add: v6_string_def Let_def)
qed

end
