(* ===== verification/PortRange.thy ===== *)
theory PortRange
  imports GoStrings
begin

text \<open>
  Port specifications such as \<^verbatim>\<open>80,443,8000-9000\<close>: the range matcher of \<^verbatim>\<open>cfg/port_range.go\<close>, its
  validator, and the older parser of \<^verbatim>\<open>cfg/config.go\<close> that expands a specification to a set of ports.
\<close>

type_synonym u16 = "16 word"

record port_range =
  pr_Start :: u16
  pr_End :: u16

definition PortRange_Contains :: "port_range \<Rightarrow> u16 \<Rightarrow> bool" where
  "PortRange_Contains pr port \<longleftrightarrow> port \<ge> pr_Start pr \<and> port \<le> pr_End pr"

record port_matcher =
  pm_ranges :: "port_range list"

datatype port_error =
    InvalidRangeFormat string
  | InvalidRangeStart string
  | InvalidRangeEnd string
  | StartAfterEnd string
  | InvalidPort string
  | PortNotInRange nat nat

text \<open>One comma-separated part, already split off: a range or a single port.\<close>

definition parse_port_part :: "string \<Rightarrow> port_error + port_range" where
  "parse_port_part part0 =
     (let part = TrimSpace part0
      in if CHR ''-'' \<in> set part then
           let parts = Split CHR ''-'' part
           in if length parts \<noteq> 2 then Inl (InvalidRangeFormat part)
              else case ParseUint 16 (TrimSpace (parts ! 0)) of
                     None \<Rightarrow> Inl (InvalidRangeStart (parts ! 0))
                   | Some start \<Rightarrow>
                       (case ParseUint 16 (TrimSpace (parts ! 1)) of
                          None \<Rightarrow> Inl (InvalidRangeEnd (parts ! 1))
                        | Some end' \<Rightarrow>
                            if start > end' then Inl (StartAfterEnd part)
                            else Inr \<lparr>pr_Start = of_nat start, pr_End = of_nat end'\<rparr>)
         else case ParseUint 16 part of
                None \<Rightarrow> Inl (InvalidPort part)
              | Some port \<Rightarrow> Inr \<lparr>pr_Start = of_nat port, pr_End = of_nat port\<rparr>)"

fun parse_port_parts :: "string list \<Rightarrow> port_range list \<Rightarrow> port_error + port_range list" where
  "parse_port_parts [] ranges = Inr ranges"
| "parse_port_parts (p # ps) ranges =
     (case parse_port_part p of
        Inl e \<Rightarrow> Inl e
      | Inr r \<Rightarrow> parse_port_parts ps (ranges @ [r]))"

definition NewPortMatcher :: "string \<Rightarrow> port_error + port_matcher" where
  "NewPortMatcher spec =
     (if spec = [] then Inr \<lparr>pm_ranges = []\<rparr>
      else case parse_port_parts (Split CHR '','' spec) [] of
             Inl e \<Rightarrow> Inl e
           | Inr ranges \<Rightarrow> Inr \<lparr>pm_ranges = ranges\<rparr>)"

text \<open>The receiver is a pointer: \<^const>\<open>None\<close> is the nil matcher.\<close>

definition PortMatcher_Matches :: "port_matcher option \<Rightarrow> u16 \<Rightarrow> bool" where
  "PortMatcher_Matches pm port =
     (case pm of
        None \<Rightarrow> False
      | Some m \<Rightarrow> if length (pm_ranges m) = 0 then False
                  else list_ex (\<lambda>r. PortRange_Contains r port) (pm_ranges m))"

definition PortMatcher_IsEmpty :: "port_matcher option \<Rightarrow> bool" where
  "PortMatcher_IsEmpty pm =
     (case pm of None \<Rightarrow> True | Some m \<Rightarrow> length (pm_ranges m) = 0)"

definition check_port_part :: "string \<Rightarrow> port_error option" where
  "check_port_part part0 =
     (let part = TrimSpace part0
      in if CHR ''-'' \<in> set part then
           let parts = Split CHR ''-'' part
           in if length parts \<noteq> 2 then Some (InvalidRangeFormat part)
              else case ParseUint 16 (TrimSpace (parts ! 0)) of
                     None \<Rightarrow> Some (InvalidRangeStart (parts ! 0))
                   | Some start \<Rightarrow>
                       (case ParseUint 16 (TrimSpace (parts ! 1)) of
                          None \<Rightarrow> Some (InvalidRangeEnd (parts ! 1))
                        | Some end' \<Rightarrow>
                            if start > end' then Some (StartAfterEnd part)
                            else if start = 0 \<or> end' > 65535 then Some (PortNotInRange start end')
                            else None)
         else case ParseUint 16 part of
                None \<Rightarrow> Some (InvalidPort part)
              | Some port \<Rightarrow>
                  if port = 0 \<or> port > 65535 then Some (PortNotInRange port port) else None)"

fun check_port_parts :: "string list \<Rightarrow> port_error option" where
  "check_port_parts [] = None"
| "check_port_parts (p # ps) =
     (case check_port_part p of Some e \<Rightarrow> Some e | None \<Rightarrow> check_port_parts ps)"

text \<open>\<^const>\<open>None\<close> is the nil error.\<close>

definition ParsePortRange :: "string \<Rightarrow> port_error option" where
  "ParsePortRange spec =
     (if spec = [] then None else check_port_parts (Split CHR '','' spec))"

text \<open>The loop that enters every port of a range into the map; the counter is a 64-bit integer, so
  it never wraps at 65535.\<close>

function insert_ports :: "nat \<Rightarrow> nat \<Rightarrow> u16 set \<Rightarrow> u16 set" where
  "insert_ports i mmax m =
     (if i \<le> mmax then insert_ports (Suc i) mmax (insert (of_nat i) m) else m)"
  by pat_completeness auto
termination
  by (relation "measure (\<lambda>(i, mmax, m). Suc mmax - i)") auto

declare insert_ports.simps [simp del]

fun parse_ports_loop :: "string list \<Rightarrow> u16 set \<Rightarrow> port_error + u16 set" where
  "parse_ports_loop [] m = Inr m"
| "parse_ports_loop (port # ports) m =
     (if CHR ''-'' \<in> set port then
        let p = Split CHR ''-'' (TrimSpace port)
        in if length p \<noteq> 2 then Inl (InvalidRangeFormat port)
           else case ParseUint 16 (TrimSpace (p ! 0)) of
                  None \<Rightarrow> Inl (InvalidRangeStart (p ! 0))
                | Some mmin \<Rightarrow>
                    (case ParseUint 16 (TrimSpace (p ! 1)) of
                       None \<Rightarrow> Inl (InvalidRangeEnd (p ! 1))
                     | Some mmax \<Rightarrow>
                         if mmin > mmax then Inl (StartAfterEnd port)
                         else parse_ports_loop ports (insert_ports mmin mmax m))
      else case ParseUint 16 (TrimSpace port) of
             None \<Rightarrow> Inl (InvalidPort port)
           | Some portNum \<Rightarrow> parse_ports_loop ports (insert (of_nat portNum) m))"

definition parsePorts :: "string \<Rightarrow> port_error + u16 set" where
  "parsePorts ports = (if ports = [] then Inr {} else parse_ports_loop (Split CHR '','' ports) {})"

subsection \<open>Parts, and the ports they denote\<close>

lemma of_nat_u16_le:
  "m < 65536 \<Longrightarrow> n < 65536 \<Longrightarrow> (of_nat m :: u16) \<le> of_nat n \<longleftrightarrow> m \<le> n"
  by (simp add: word_le_nat_alt unat_of_nat take_bit_eq_mod)

lemma of_nat_u16_inj:
  "m < 65536 \<Longrightarrow> n < 65536 \<Longrightarrow> (of_nat m :: u16) = of_nat n \<longleftrightarrow> m = n"
  by (metis of_nat_u16_le order_antisym order_refl)

lemma u16_cases: obtains n where "p = (of_nat n :: u16)" and "n < 65536"
proof -
  have "unat p < 65536" using unsigned_less [of p, where ?'a = nat] by simp
  moreover have "p = of_nat (unat p)" by simp
  ultimately show thesis using that by blast
qed

lemma set_TrimSpace_mem:
  "\<not> is_space c \<Longrightarrow> c \<in> set (TrimSpace s) \<longleftrightarrow> c \<in> set s"
  unfolding TrimSpace_def
  by (metis set_rev set_dropWhileD takeWhile_dropWhile_id Un_iff set_append set_takeWhileD)

lemma dash_TrimSpace: "CHR ''-'' \<in> set (TrimSpace s) \<longleftrightarrow> CHR ''-'' \<in> set s"
  by (rule set_TrimSpace_mem) (simp add: is_space_def code_def)

lemma insert_ports_eq:
  "insert_ports i mmax m = m \<union> of_nat ` {i..mmax}"
proof (induction i mmax m rule: insert_ports.induct)
  case (1 i mmax m)
  show ?case
  proof (cases "i \<le> mmax")
    case True
    then have "{i..mmax} = insert i {Suc i..mmax}" by auto
    with True 1 show ?thesis by (subst insert_ports.simps) auto
  next
    case False
    then show ?thesis by (subst insert_ports.simps) auto
  qed
qed

definition range_ports :: "port_range \<Rightarrow> u16 set" where
  "range_ports r = {p. PortRange_Contains r p}"

lemma range_ports_of_nat:
  assumes "hi < 65536" and "lo \<le> hi"
  shows "range_ports \<lparr>pr_Start = of_nat lo, pr_End = of_nat hi\<rparr> = of_nat ` {lo..hi}"
proof (rule set_eqI)
  fix p :: u16
  obtain n where p: "p = of_nat n" and n: "n < 65536" by (rule u16_cases)
  have "p \<in> range_ports \<lparr>pr_Start = of_nat lo, pr_End = of_nat hi\<rparr> \<longleftrightarrow> lo \<le> n \<and> n \<le> hi"
    using assms n p by (simp add: range_ports_def PortRange_Contains_def of_nat_u16_le)
  also have "\<dots> \<longleftrightarrow> p \<in> of_nat ` {lo..hi}"
    using assms n p by (auto simp: image_iff of_nat_u16_inj)
  finally show "p \<in> range_ports \<lparr>pr_Start = of_nat lo, pr_End = of_nat hi\<rparr> \<longleftrightarrow> p \<in> of_nat ` {lo..hi}" .
qed

lemma ParseUint16_less: "ParseUint 16 s = Some n \<Longrightarrow> n < 65536"
  using ParseUint_bound [of 16 s n] by simp

text \<open>The two parsers treat one part alike: they fail together and denote the same ports.\<close>

lemma parse_ports_loop_part_ok:
  assumes "parse_port_part p = Inr r"
  shows "parse_ports_loop (p # ps) m = parse_ports_loop ps (m \<union> range_ports r)"
proof (cases "CHR ''-'' \<in> set p")
  case True
  with assms obtain lo hi where
    "length (Split CHR ''-'' (TrimSpace p)) = 2"
    "ParseUint 16 (TrimSpace (Split CHR ''-'' (TrimSpace p) ! 0)) = Some lo"
    "ParseUint 16 (TrimSpace (Split CHR ''-'' (TrimSpace p) ! 1)) = Some hi"
    "lo \<le> hi" "r = \<lparr>pr_Start = of_nat lo, pr_End = of_nat hi\<rparr>"
    by (auto simp: parse_port_part_def Let_def dash_TrimSpace split: option.splits if_splits)
  with True show ?thesis
    by (simp add: insert_ports_eq range_ports_of_nat ParseUint16_less)
next
  case False
  with assms obtain n where
    "ParseUint 16 (TrimSpace p) = Some n" "r = \<lparr>pr_Start = of_nat n, pr_End = of_nat n\<rparr>"
    by (auto simp: parse_port_part_def Let_def dash_TrimSpace split: option.splits)
  with False show ?thesis
    using range_ports_of_nat [of n n] by (simp add: ParseUint16_less)
qed

lemma parse_ports_loop_part_error:
  "parse_port_part p = Inl e \<Longrightarrow> \<exists>e'. parse_ports_loop (p # ps) m = Inl e'"
  by (auto simp: parse_port_part_def Let_def dash_TrimSpace split: option.splits if_splits)

declare parse_ports_loop.simps(2) [simp del]

lemma parse_port_parts_acc:
  "parse_port_parts ps acc =
     (case parse_port_parts ps [] of Inl e \<Rightarrow> Inl e | Inr rs \<Rightarrow> Inr (acc @ rs))"
proof (induction ps arbitrary: acc)
  case Nil
  then show ?case by simp
next
  case (Cons p ps)
  show ?case
  proof (cases "parse_port_part p")
    case (Inr r)
    then show ?thesis
      using Cons.IH [of "acc @ [r]"] Cons.IH [of "[r]"] by (simp split: sum.split)
  qed simp
qed

lemma parsers_agree:
  "case parse_port_parts ps [] of
     Inl e \<Rightarrow> \<exists>e'. parse_ports_loop ps m = Inl e'
   | Inr rs \<Rightarrow> parse_ports_loop ps m = Inr (m \<union> (\<Union>r \<in> set rs. range_ports r))"
proof (induction ps arbitrary: m)
  case Nil
  then show ?case by simp
next
  case (Cons p ps)
  show ?case
  proof (cases "parse_port_part p")
    case (Inl e)
    then show ?thesis using parse_ports_loop_part_error by simp
  next
    case (Inr r)
    then show ?thesis
      using Cons.IH [of "m \<union> range_ports r"] parse_port_parts_acc [of ps "[r]"]
      by (simp add: parse_ports_loop_part_ok Un_assoc split: sum.splits)
  qed
qed

lemma Matches_ranges:
  "PortMatcher_Matches (Some m) p \<longleftrightarrow> (\<exists>r \<in> set (pm_ranges m). p \<in> range_ports r)"
  by (auto simp: PortMatcher_Matches_def range_ports_def list_ex_iff)

subsection \<open>The validator\<close>

lemma check_port_part_iff:
  "check_port_part p = None \<longleftrightarrow> (\<exists>r. parse_port_part p = Inr r \<and> pr_Start r \<noteq> 0)"
proof -
  have z: "n < 65536 \<Longrightarrow> (of_nat n :: u16) = 0 \<longleftrightarrow> n = 0" for n
    using of_nat_u16_inj [of n 0] by simp
  show ?thesis
    by (auto simp: check_port_part_def parse_port_part_def Let_def z
        split: option.splits if_splits dest!: ParseUint16_less)
qed

lemma check_port_parts_iff:
  "check_port_parts ps = None \<longleftrightarrow>
     (\<exists>rs. parse_port_parts ps [] = Inr rs \<and> (\<forall>r \<in> set rs. pr_Start r \<noteq> 0))"
proof (induction ps)
  case Nil
  then show ?case by simp
next
  case (Cons p ps)
  show ?case
  proof (cases "parse_port_part p")
    case (Inl e)
    then show ?thesis
      using check_port_part_iff [of p] by (auto split: option.split)
  next
    case (Inr r)
    then show ?thesis
      using check_port_part_iff [of p] parse_port_parts_acc [of ps "[r]"] Cons.IH
      by (auto split: option.splits sum.splits)
  qed
qed

subsection \<open>Printing\<close>

text \<open>The documented format, as a printer: the inverse of the parser on well-formed ranges.\<close>

definition print_range :: "port_range \<Rightarrow> string" where
  "print_range r =
     (if pr_Start r = pr_End r then FormatUint (unat (pr_Start r))
      else FormatUint (unat (pr_Start r)) @ CHR ''-'' # FormatUint (unat (pr_End r)))"

definition print_matcher :: "port_matcher \<Rightarrow> string" where
  "print_matcher m = Join CHR '','' (map print_range (pm_ranges m))"

lemma ParseUint16_print: "ParseUint 16 (FormatUint (unat (p :: u16))) = Some (unat p)"
  by (rule ParseUint_FormatUint) (simp add: unat_u16_less)

lemma print_range_no_space: "TrimSpace (print_range r) = print_range r"
proof (rule TrimSpace_id)
  have "\<not> is_space CHR ''-''" by (simp add: is_space_def code_def)
  then show "\<forall>c \<in> set (print_range r). \<not> is_space c"
    by (auto simp: print_range_def dest: FormatUint_is_digit digit_not_sep(5))
qed

lemma parse_print_range: "pr_Start r \<le> pr_End r \<Longrightarrow> parse_port_part (print_range r) = Inr r"
  by (simp add: parse_port_part_def print_range_no_space Let_def)
    (simp add: print_range_def FormatUint_no_sep Split_append_sep Split_no_sep ParseUint16_print
      word_le_nat_alt)

lemma print_range_no_comma: "CHR '','' \<notin> set (print_range r)"
  by (simp add: print_range_def FormatUint_no_sep)

lemma print_range_nonempty: "print_range r \<noteq> []"
  by (simp add: print_range_def)

lemma parse_print_ranges:
  "(\<forall>r \<in> set rs. pr_Start r \<le> pr_End r) \<Longrightarrow>
     parse_port_parts (map print_range rs) acc = Inr (acc @ rs)"
  by (induction rs arbitrary: acc) (simp_all add: parse_print_range)

lemma Join_eq_Nil: "Join c ps = [] \<Longrightarrow> ps \<noteq> [] \<Longrightarrow> ps = [[]]"
  by (induction c ps rule: Join.induct) auto

subsection \<open>Properties\<close>


text \<open>\<open>ParsePortRange\<close> accepts a specification exactly when \<open>NewPortMatcher\<close> builds a matcher for
  it and no range of that matcher starts at port 0.\<close>

theorem port_validator_sound:
  "ParsePortRange spec = None \<longleftrightarrow>
     (\<exists>m. NewPortMatcher spec = Inr m \<and> (\<forall>r \<in> set (pm_ranges m). pr_Start r \<noteq> 0))"
  using check_port_parts_iff [of "Split CHR '','' spec"]
  by (auto simp: ParsePortRange_def NewPortMatcher_def split: sum.splits)

theorem port_validator_sound_witness:
  "ParsePortRange ''80,8000-9000'' = None \<and> (\<exists>m. NewPortMatcher ''80,8000-9000'' = Inr m)"
proof -
  have "ParsePortRange ''80,8000-9000'' = None"
    by (simp add: ParsePortRange_def check_port_part_def TrimSpace_def ParseUint_def dec_val_def
        digit_val_def is_digit_def is_space_def code_def)
  with port_validator_sound [of "''80,8000-9000''"] show ?thesis by blast
qed

text \<open>A list of well-formed ranges, written in the documented format, parses back to itself.\<close>

theorem port_matcher_roundtrip:
  assumes "pm_ranges m \<noteq> []" and "\<forall>r \<in> set (pm_ranges m). pr_Start r \<le> pr_End r"
  shows "NewPortMatcher (print_matcher m) = Inr m"
proof -
  have split: "Split CHR '','' (print_matcher m) = map print_range (pm_ranges m)"
    unfolding print_matcher_def
    using assms(1) by (intro Split_Join) (auto simp: print_range_no_comma)
  have "print_matcher m \<noteq> []"
    using Join_eq_Nil assms(1) print_range_nonempty unfolding print_matcher_def
    by (metis list.map_disc_iff list.set_intros(1) image_iff list.set_map)
  then show ?thesis
    using assms by (simp add: NewPortMatcher_def split parse_print_ranges)
qed

theorem port_matcher_roundtrip_witness:
  "NewPortMatcher (print_matcher \<lparr>pm_ranges = [\<lparr>pr_Start = 80, pr_End = 80\<rparr>, \<lparr>pr_Start = 8000, pr_End = 9000\<rparr>]\<rparr>) =
     Inr \<lparr>pm_ranges = [\<lparr>pr_Start = 80, pr_End = 80\<rparr>, \<lparr>pr_Start = 8000, pr_End = 9000\<rparr>]\<rparr>"
  by (rule port_matcher_roundtrip) simp_all

end
