(* ===== verification/Metadata.thy ===== *)
theory Metadata
  imports GoNet PortRange
begin

text \<open>
  Connection metadata, \<^verbatim>\<open>md/metadata.go\<close>, \<^verbatim>\<open>md/network.go\<close> and the object pool of \<^verbatim>\<open>md/pool.go\<close>.  The accessors
  cache the strings they build in the object, so each returns the updated object as well.
\<close>

type_synonym network = "8 word"

definition TCP :: network where
  "TCP = 0"

definition UDP :: network where
  "UDP = 1"

definition Network_String :: "network \<Rightarrow> string" where
  "Network_String n =
     (if n = TCP then ''tcp'' else if n = UDP then ''udp''
      else ''network('' @ FormatUint (unat n) @ '')'')"

record metadata =
  md_Network :: network
  SrcIP :: ip
  MidIP :: ip
  DstIP :: ip
  SrcPort :: u16
  MidPort :: u16
  DstPort :: u16
  dstAddr :: string
  srcAddr :: string
  srcIPStr :: string

definition new_metadata :: metadata where
  "new_metadata = \<lparr>md_Network = TCP, SrcIP = [], MidIP = [], DstIP = [], SrcPort = 0, MidPort = 0,
     DstPort = 0, dstAddr = [], srcAddr = [], srcIPStr = []\<rparr>"

definition JoinHostPort :: "string \<Rightarrow> string \<Rightarrow> string" where
  "JoinHostPort host port =
     (if CHR '':'' \<in> set host then CHR ''['' # host @ '']:'' @ port else host @ CHR '':'' # port)"

definition DestinationAddress :: "metadata \<Rightarrow> string \<times> metadata" where
  "DestinationAddress m =
     (let m' = (if dstAddr m = []
                then m\<lparr>dstAddr := JoinHostPort (IP_String (DstIP m)) (FormatUint (unat (DstPort m)))\<rparr>
                else m)
      in (dstAddr m', m'))"

definition SourceAddress :: "metadata \<Rightarrow> string \<times> metadata" where
  "SourceAddress m =
     (let m' = (if srcAddr m = []
                then m\<lparr>srcAddr := JoinHostPort (IP_String (SrcIP m)) (FormatUint (unat (SrcPort m)))\<rparr>
                else m)
      in (srcAddr m', m'))"

definition SrcIPString :: "metadata \<Rightarrow> string \<times> metadata" where
  "SrcIPString m =
     (let m' = (if srcIPStr m = [] then m\<lparr>srcIPStr := IP_String (SrcIP m)\<rparr> else m)
      in (srcIPStr m', m'))"

definition TCPAddr :: "metadata \<Rightarrow> (ip \<times> nat) option" where
  "TCPAddr m = (if md_Network m \<noteq> TCP \<or> DstIP m = [] then None else Some (DstIP m, unat (DstPort m)))"

definition UDPAddr :: "metadata \<Rightarrow> (ip \<times> nat) option" where
  "UDPAddr m = (if md_Network m \<noteq> UDP \<or> DstIP m = [] then None else Some (DstIP m, unat (DstPort m)))"

definition Metadata_Reset :: "metadata \<Rightarrow> metadata" where
  "Metadata_Reset m = m\<lparr>dstAddr := [], srcAddr := []\<rparr>"

datatype md_error = ErrInvalidNetwork | ErrNilIP

definition Metadata_Validate :: "metadata \<Rightarrow> md_error option" where
  "Metadata_Validate m =
     (if DstIP m = [] then Some ErrNilIP
      else if md_Network m \<noteq> TCP \<and> md_Network m \<noteq> UDP then Some ErrInvalidNetwork
      else None)"

text \<open>The pool hands out an arbitrary pooled object, or a new one: that object is the argument.\<close>

definition GetMetadata :: "metadata \<Rightarrow> metadata" where
  "GetMetadata m = m\<lparr>md_Network := TCP, SrcIP := [], MidIP := [], DstIP := [], SrcPort := 0,
     MidPort := 0, DstPort := 0, srcAddr := [], dstAddr := []\<rparr>"

definition PutMetadata :: "metadata \<Rightarrow> metadata" where
  "PutMetadata m = m\<lparr>SrcIP := [], MidIP := [], DstIP := [], SrcPort := 0, MidPort := 0,
     DstPort := 0, srcAddr := [], dstAddr := []\<rparr>"

subsection \<open>Coherence of the cached strings\<close>

definition md_coherent :: "metadata \<Rightarrow> bool" where
  "md_coherent m \<longleftrightarrow>
     (dstAddr m \<noteq> [] \<longrightarrow>
        dstAddr m = JoinHostPort (IP_String (DstIP m)) (FormatUint (unat (DstPort m)))) \<and>
     (srcAddr m \<noteq> [] \<longrightarrow>
        srcAddr m = JoinHostPort (IP_String (SrcIP m)) (FormatUint (unat (SrcPort m)))) \<and>
     (srcIPStr m \<noteq> [] \<longrightarrow> srcIPStr m = IP_String (SrcIP m))"

lemma md_accessors_frame [simp]:
  "SrcIP (snd (SrcIPString m)) = SrcIP m" "DstIP (snd (SrcIPString m)) = DstIP m"
  "SrcPort (snd (SrcIPString m)) = SrcPort m" "DstPort (snd (SrcIPString m)) = DstPort m"
  "SrcIP (snd (SourceAddress m)) = SrcIP m" "DstIP (snd (SourceAddress m)) = DstIP m"
  "SrcPort (snd (SourceAddress m)) = SrcPort m" "DstPort (snd (SourceAddress m)) = DstPort m"
  "srcIPStr (snd (SourceAddress m)) = srcIPStr m"
  "SrcIP (snd (DestinationAddress m)) = SrcIP m" "DstIP (snd (DestinationAddress m)) = DstIP m"
  "SrcPort (snd (DestinationAddress m)) = SrcPort m" "DstPort (snd (DestinationAddress m)) = DstPort m"
  "srcIPStr (snd (DestinationAddress m)) = srcIPStr m"
  by (simp_all add: SrcIPString_def SourceAddress_def DestinationAddress_def Let_def)

lemma SrcIPString_cached [simp]: "SrcIPString (snd (SrcIPString m)) = SrcIPString m"
  by (simp add: SrcIPString_def Let_def)

lemma md_coherent_accessors:
  assumes "md_coherent m"
  shows "md_coherent (snd (SrcIPString m))" "md_coherent (snd (SourceAddress m))"
    "md_coherent (snd (DestinationAddress m))"
  using assms unfolding md_coherent_def
  by (simp_all add: SrcIPString_def SourceAddress_def DestinationAddress_def Let_def del: not_imp)
    metis+

subsection \<open>Properties\<close>

text \<open>On an object whose cached strings agree with its fields, the accessors return the
  addresses of the fields and keep the caches in agreement.\<close>

theorem metadata_accessors_correct:
  assumes "md_coherent m"
  shows "fst (SrcIPString m) = IP_String (SrcIP m) \<and>
         fst (SourceAddress m) = JoinHostPort (IP_String (SrcIP m)) (FormatUint (unat (SrcPort m))) \<and>
         fst (DestinationAddress m) = JoinHostPort (IP_String (DstIP m)) (FormatUint (unat (DstPort m))) \<and>
         md_coherent (snd (SrcIPString m)) \<and> md_coherent (snd (SourceAddress m)) \<and>
         md_coherent (snd (DestinationAddress m))"
proof (intro conjI)
  show "fst (SrcIPString m) = IP_String (SrcIP m)"
    using assms by (simp add: md_coherent_def SrcIPString_def Let_def)
  show "fst (SourceAddress m) = JoinHostPort (IP_String (SrcIP m)) (FormatUint (unat (SrcPort m)))"
    using assms by (simp add: md_coherent_def SourceAddress_def Let_def)
  show "fst (DestinationAddress m) =
      JoinHostPort (IP_String (DstIP m)) (FormatUint (unat (DstPort m)))"
    using assms by (simp add: md_coherent_def DestinationAddress_def Let_def)
qed (rule md_coherent_accessors [OF assms])+

theorem metadata_accessors_correct_witness:
  "fst (SrcIPString (new_metadata\<lparr>SrcIP := [10, 0, 0, 1]\<rparr>)) = IP_String [10, 0, 0, 1]"
  using metadata_accessors_correct [of "new_metadata\<lparr>SrcIP := [10, 0, 0, 1]\<rparr>"]
  by (simp add: md_coherent_def new_metadata_def)

text \<open>Neither taking an object from the pool nor putting it back clears the cached source
  string: once a connection has asked for it, the object answers with that first address for every
  later connection that reuses it, whatever its source address is.\<close>

theorem pooled_source_string_stale:
  assumes "SrcIP m = a" and "srcIPStr m = []"
  defines "used \<equiv> snd (SrcIPString m)"
  shows "fst (SrcIPString ((GetMetadata (PutMetadata used))\<lparr>SrcIP := b\<rparr>)) = IP_String a"
  using assms by (simp add: SrcIPString_def GetMetadata_def PutMetadata_def Let_def)

theorem pooled_source_string_stale_witness:
  "fst (SrcIPString ((GetMetadata (PutMetadata (snd (SrcIPString
     (new_metadata\<lparr>SrcIP := [10, 0, 0, 1]\<rparr>)))))\<lparr>SrcIP := [10, 0, 0, 2]\<rparr>)) = IP_String [10, 0, 0, 1]"
  by (rule pooled_source_string_stale) (simp_all add: new_metadata_def)

end
