(* ===== verification/RoutingTable.thy ===== *)
theory RoutingTable
  imports Metadata
begin

text \<open>
  Routing rules, \<^verbatim>\<open>cfg/config.go\<close> (\<open>Rule\<close>, its normalisation, \<open>parseNetIPs\<close>) and the routing table of
  \<^verbatim>\<open>proxy/router.go\<close>: the stored rules, the radix tree keyed by the text of the networks, and \<open>Match\<close>.

  The radix tree comes from the go-radix package.  The table keeps the insertions it has made, in
  order, and \<open>LongestPrefix\<close> is a parameter: a function from the insertions and a string.  What go-radix
  documents of it is the locale \<open>radix_tree\<close>.
\<close>

subsection \<open>Rules\<close>

record rule =
  r_SrcPort :: string
  r_DstPort :: string
  r_SrcIP :: "string list"
  r_DstIP :: "string list"
  OutboundTag :: string
  SrcPortMatcher :: "port_matcher option"
  DstPortMatcher :: "port_matcher option"
  SrcIPs :: "ipnet list"
  DstIPs :: "ipnet list"
  SrcIPsIPv6 :: "ipnet list"
  DstIPsIPv6 :: "ipnet list"

text \<open>The suffix step and the version filter of one address; the result says whether to skip the
  address, to stop with an error, or to keep a network.\<close>

datatype net_outcome = NetSkip | NetBad string | NetKeep ipnet

definition parse_net_ip :: "bool \<Rightarrow> string \<Rightarrow> net_outcome" where
  "parse_net_ip ipv6Only addr0 =
     (let suffixed =
        (if CHR ''/'' \<in> set addr0 then Some addr0
         else case ParseIP addr0 of
                None \<Rightarrow> None
              | Some ip \<Rightarrow>
                  if To4 ip \<noteq> None then (if ipv6Only then None else Some (addr0 @ ''/32''))
                  else (if \<not> ipv6Only then None else Some (addr0 @ ''/128'')))
      in case suffixed of
           None \<Rightarrow> NetSkip
         | Some addr \<Rightarrow>
             (case ParseCIDR addr of
                None \<Rightarrow> NetBad addr
              | Some (_, ipNet) \<Rightarrow>
                  let isIPv4 = (To4 (ipn_IP ipNet) \<noteq> None)
                  in if ipv6Only \<and> isIPv4 then NetSkip
                     else if \<not> ipv6Only \<and> \<not> isIPv4 then NetSkip
                     else NetKeep ipNet))"

fun parseNetIPs :: "string list \<Rightarrow> bool \<Rightarrow> string + ipnet list" where
  "parseNetIPs [] ipv6Only = Inr []"
| "parseNetIPs (a # as) ipv6Only =
     (case parse_net_ip ipv6Only a of
        NetBad e \<Rightarrow> Inl e
      | NetSkip \<Rightarrow> parseNetIPs as ipv6Only
      | NetKeep n \<Rightarrow>
          (case parseNetIPs as ipv6Only of Inl e \<Rightarrow> Inl e | Inr ns \<Rightarrow> Inr (n # ns)))"

datatype rule_error =
    BadSrcPorts port_error
  | BadDstPorts port_error
  | BadSrcIPs string
  | BadDstIPs string
  | BadSrcIPv6 string
  | BadDstIPv6 string

definition Rule_Normalize :: "rule \<Rightarrow> rule_error + rule" where
  "Rule_Normalize r =
     (case NewPortMatcher (r_SrcPort r) of Inl e \<Rightarrow> Inl (BadSrcPorts e) | Inr sp \<Rightarrow>
      (case NewPortMatcher (r_DstPort r) of Inl e \<Rightarrow> Inl (BadDstPorts e) | Inr dp \<Rightarrow>
       (case parseNetIPs (r_SrcIP r) False of Inl e \<Rightarrow> Inl (BadSrcIPs e) | Inr s4 \<Rightarrow>
        (case parseNetIPs (r_DstIP r) False of Inl e \<Rightarrow> Inl (BadDstIPs e) | Inr d4 \<Rightarrow>
         (case parseNetIPs (r_SrcIP r) True of Inl e \<Rightarrow> Inl (BadSrcIPv6 e) | Inr s6 \<Rightarrow>
          (case parseNetIPs (r_DstIP r) True of Inl e \<Rightarrow> Inl (BadDstIPv6 e) | Inr d6 \<Rightarrow>
           Inr (r\<lparr>SrcPortMatcher := Some sp, DstPortMatcher := Some dp, SrcIPs := s4, DstIPs := d4,
                  SrcIPsIPv6 := s6, DstIPsIPv6 := d6\<rparr>)))))))"

fun Config_Normalize :: "nat \<Rightarrow> rule list \<Rightarrow> (nat \<times> rule_error) + rule list" where
  "Config_Normalize i [] = Inr []"
| "Config_Normalize i (r # rs) =
     (case Rule_Normalize r of
        Inl e \<Rightarrow> Inl (i, e)
      | Inr r' \<Rightarrow> (case Config_Normalize (Suc i) rs of Inl e \<Rightarrow> Inl e | Inr rs' \<Rightarrow> Inr (r' # rs')))"

subsection \<open>Matching one rule\<close>

definition matchRuleNoIP :: "metadata \<Rightarrow> rule \<Rightarrow> bool" where
  "matchRuleNoIP m r =
     (if SrcPortMatcher r \<noteq> None \<and> PortMatcher_Matches (SrcPortMatcher r) (SrcPort m) then True
      else if DstPortMatcher r \<noteq> None \<and> PortMatcher_Matches (DstPortMatcher r) (DstPort m) then True
      else False)"

definition matchRule :: "metadata \<Rightarrow> rule \<Rightarrow> bool" where
  "matchRule m r =
     (if SrcPortMatcher r \<noteq> None \<and> PortMatcher_Matches (SrcPortMatcher r) (SrcPort m) then True
      else if DstPortMatcher r \<noteq> None \<and> PortMatcher_Matches (DstPortMatcher r) (DstPort m) then True
      else if list_ex (\<lambda>n. IPNet_Contains n (SrcIP m)) (SrcIPs r) then True
      else if list_ex (\<lambda>n. IPNet_Contains n (DstIP m)) (DstIPs r) then True
      else False)"

subsection \<open>The table\<close>

type_synonym radix_content = "(string \<times> rule) list"

record routing_table =
  rt_rules :: "rule list option"
  rt_ipTree :: "radix_content option"

definition rule_inserts :: "rule \<Rightarrow> radix_content" where
  "rule_inserts r =
     map (\<lambda>n. (IPNet_String n, r)) (SrcIPs r) @ map (\<lambda>n. (IPNet_String n, r)) (DstIPs r)"

definition RoutingTable_Update :: "rule list \<Rightarrow> routing_table \<Rightarrow> routing_table" where
  "RoutingTable_Update rules rt =
     rt\<lparr>rt_rules := Some rules, rt_ipTree := Some (concat (map rule_inserts rules))\<rparr>"

definition NewRoutingTable :: "rule list \<Rightarrow> routing_table" where
  "NewRoutingTable rules = RoutingTable_Update rules \<lparr>rt_rules = None, rt_ipTree = None\<rparr>"

definition RoutingTable_Load :: "routing_table \<Rightarrow> rule list" where
  "RoutingTable_Load rt = (case rt_rules rt of None \<Rightarrow> [] | Some rs \<Rightarrow> rs)"

definition linear_match :: "metadata \<Rightarrow> rule list \<Rightarrow> string \<times> bool" where
  "linear_match m rules =
     (case find (matchRule m) rules of
        Some r \<Rightarrow> (OutboundTag r, True)
      | None \<Rightarrow> ([], False))"

definition RoutingTable_Match ::
  "(radix_content \<Rightarrow> string \<Rightarrow> (string \<times> rule) option) \<Rightarrow> routing_table \<Rightarrow> metadata
     \<Rightarrow> (string \<times> bool) \<times> metadata" where
  "RoutingTable_Match longestPrefix rt m =
     (let (srcStr, m1) = (if rt_ipTree rt = None then ([], m) else SrcIPString m);
          hit = (\<lambda>s. case rt_ipTree rt of
                   None \<Rightarrow> None
                 | Some tree \<Rightarrow>
                     (case longestPrefix tree s of
                        None \<Rightarrow> None
                      | Some (_, r) \<Rightarrow> if matchRuleNoIP m r then Some (OutboundTag r) else None))
      in case hit srcStr of
           Some tag \<Rightarrow> ((tag, True), m1)
         | None \<Rightarrow>
             (case hit (IP_String (DstIP m)) of
                Some tag \<Rightarrow> ((tag, True), m1)
              | None \<Rightarrow>
                  (case rt_rules rt of
                     None \<Rightarrow> (([], False), m1)
                   | Some rules \<Rightarrow> (linear_match m rules, m1))))"

subsection \<open>The radix tree\<close>

locale radix_tree =
  fixes lp :: "(string \<times> 'v) list \<Rightarrow> string \<Rightarrow> (string \<times> 'v) option"
  assumes found: "lp kvs s = Some (k, v) \<Longrightarrow>
      prefix k s \<and> map_of (rev kvs) k = Some v \<and>
      (\<forall>k' \<in> fst ` set kvs. prefix k' s \<longrightarrow> length k' \<le> length k)"
    and missed: "lp kvs s = None \<Longrightarrow> \<forall>k \<in> fst ` set kvs. \<not> prefix k s"
begin

lemma hit_is_entry: "lp kvs s = Some (k, v) \<Longrightarrow> (k, v) \<in> set kvs \<and> prefix k s"
  using found [of kvs s k v] by (auto dest!: map_of_SomeD)

lemma miss_if_char_absent:
  assumes "\<forall>(k, v) \<in> set kvs. c \<in> set k" and "c \<notin> set s"
  shows "lp kvs s = None"
proof (cases "lp kvs s")
  case (Some kv)
  then obtain k v where "(k, v) \<in> set kvs" and "prefix k s"
    using hit_is_entry by (cases kv) blast
  with assms have "c \<in> set k" and "set k \<subseteq> set s"
    by (auto dest: set_mono_prefix)
  with assms(2) show ?thesis by blast
qed

end

text \<open>A reference tree: the latest value of the longest inserted key that is a prefix.\<close>

definition ref_longest_prefix :: "(string \<times> 'v) list \<Rightarrow> string \<Rightarrow> (string \<times> 'v) option" where
  "ref_longest_prefix kvs s =
     (case filter (\<lambda>n. take n s \<in> fst ` set kvs) (rev [0..<Suc (length s)]) of
        [] \<Rightarrow> None
      | n # _ \<Rightarrow> map_option (Pair (take n s)) (map_of (rev kvs) (take n s)))"

lemma filter_rev_upt_Cons:
  assumes "filter P (rev [0..<m]) = n # ns"
  shows "P n \<and> n < m \<and> (\<forall>k < m. P k \<longrightarrow> k \<le> n)"
  using assms
proof (induction m arbitrary: n ns)
  case 0
  then show ?case by simp
next
  case (Suc m)
  show ?case
  proof (cases "P m")
    case True
    then show ?thesis using Suc.prems by auto
  next
    case False
    then have "filter P (rev [0..<m]) = n # ns" using Suc.prems by simp
    from Suc.IH [OF this] False show ?thesis by (metis less_SucE less_Suc_eq)
  qed
qed

lemma map_of_rev_mem: "k \<in> fst ` set kvs \<Longrightarrow> \<exists>v. map_of (rev kvs) k = Some v"
  by (metis map_of_eq_None_iff option.exhaust set_rev)

interpretation ref_radix: radix_tree ref_longest_prefix
proof unfold_locales
  fix kvs :: "(string \<times> 'a) list" and s k v
  let ?P = "\<lambda>n. take n s \<in> fst ` set kvs"
  assume "ref_longest_prefix kvs s = Some (k, v)"
  then obtain n ns where n: "filter ?P (rev [0..<Suc (length s)]) = n # ns"
    and k: "k = take n s" and v: "map_of (rev kvs) k = Some v"
    unfolding ref_longest_prefix_def by (auto split: list.splits)
  have best: "n \<le> length s \<and> (\<forall>j < Suc (length s). ?P j \<longrightarrow> j \<le> n)"
    using filter_rev_upt_Cons [OF n] by auto
  show "prefix k s \<and> map_of (rev kvs) k = Some v \<and>
      (\<forall>k' \<in> fst ` set kvs. prefix k' s \<longrightarrow> length k' \<le> length k)"
  proof (intro conjI ballI impI)
    show "prefix k s" using k take_is_prefix by blast
    show "map_of (rev kvs) k = Some v" by (rule v)
    fix k' assume "k' \<in> fst ` set kvs" and "prefix k' s"
    then have "?P (length k')" and "length k' \<le> length s"
      by (simp_all add: prefix_length_le) (metis append_eq_conv_conj prefix_def)
    with best show "length k' \<le> length k" using k by auto
  qed
next
  fix kvs :: "(string \<times> 'a) list" and s
  assume none: "ref_longest_prefix kvs s = None"
  have "filter (\<lambda>n. take n s \<in> fst ` set kvs) (rev [0..<Suc (length s)]) = []"
  proof (rule ccontr)
    assume "filter (\<lambda>n. take n s \<in> fst ` set kvs) (rev [0..<Suc (length s)]) \<noteq> []"
    then obtain n ns where n: "filter (\<lambda>n. take n s \<in> fst ` set kvs) (rev [0..<Suc (length s)]) = n # ns"
      by (meson neq_Nil_conv)
    then have "take n s \<in> fst ` set kvs" using filter_rev_upt_Cons [OF n] by simp
    then obtain v where "map_of (rev kvs) (take n s) = Some v" by (metis map_of_rev_mem)
    with none n show False by (simp add: ref_longest_prefix_def)
  qed
  then have none_at: "take n s \<notin> fst ` set kvs" if "n \<le> length s" for n
    using that by (simp add: filter_empty_conv del: upt_Suc)
  show "\<forall>k \<in> fst ` set kvs. \<not> prefix k s"
  proof (intro ballI notI)
    fix k assume "k \<in> fst ` set kvs" and "prefix k s"
    then obtain z where s: "s = k @ z" and "k \<in> fst ` set kvs" by (auto simp only: prefix_def)
    with none_at [of "length k"] show False by simp
  qed
qed

subsection \<open>Normalised rules\<close>

definition nets_v4 :: "ipnet list \<Rightarrow> bool" where
  "nets_v4 ns \<longleftrightarrow> list_all (\<lambda>n. ipnet_valid n \<and> To4 (ipn_IP n) \<noteq> None) ns"

lemma parse_net_ip_keep:
  "parse_net_ip v6 a = NetKeep n \<Longrightarrow> ipnet_valid n \<and> (v6 \<longleftrightarrow> To4 (ipn_IP n) = None)"
  by (auto simp: parse_net_ip_def Let_def dest: ParseCIDR_valid
      split: if_splits option.splits)

lemma parseNetIPs_v4: "parseNetIPs as False = Inr ns \<Longrightarrow> nets_v4 ns"
  by (induction as arbitrary: ns)
    (auto simp: nets_v4_def dest: parse_net_ip_keep split: net_outcome.splits sum.splits)

definition rule_nets_v4 :: "rule \<Rightarrow> bool" where
  "rule_nets_v4 r \<longleftrightarrow> nets_v4 (SrcIPs r) \<and> nets_v4 (DstIPs r)"

lemma Rule_Normalize_nets: "Rule_Normalize r = Inr r' \<Longrightarrow> rule_nets_v4 r'"
  by (auto simp: Rule_Normalize_def rule_nets_v4_def dest: parseNetIPs_v4 split: sum.splits)

lemma Config_Normalize_nets: "Config_Normalize i rs = Inr rules \<Longrightarrow> list_all rule_nets_v4 rules"
  by (induction i rs arbitrary: rules rule: Config_Normalize.induct)
    (auto dest: Rule_Normalize_nets split: sum.splits)

lemma rule_inserts_slash:
  "rule_nets_v4 r \<Longrightarrow> (k, v) \<in> set (rule_inserts r) \<Longrightarrow> CHR ''/'' \<in> set k"
  by (auto simp: rule_nets_v4_def nets_v4_def rule_inserts_def list_all_iff IPNet_String_slash)

lemma v4_net_rejects_v6:
  "ipnet_valid n \<Longrightarrow> To4 (ipn_IP n) \<noteq> None \<Longrightarrow> To4 a = None \<Longrightarrow> \<not> IPNet_Contains n a"
  by (auto simp: IPNet_Contains_def ipnet_valid_def networkNumberAndMask_def Let_def To4_def
      split: if_splits option.splits)

lemma Match_eq_linear:
  assumes "radix_tree lp" and "list_all rule_nets_v4 rules" and "md_coherent m"
  shows "RoutingTable_Match lp (NewRoutingTable rules) m = (linear_match m rules, snd (SrcIPString m))"
proof -
  have keys: "\<forall>(k, v) \<in> set (concat (map rule_inserts rules)). CHR ''/'' \<in> set k"
    using assms(2) rule_inserts_slash by (auto simp: list_all_iff)
  have src: "fst (SrcIPString m) = IP_String (SrcIP m)"
    using assms(3) by (simp add: SrcIPString_def md_coherent_def Let_def)
  have miss: "lp (concat (map rule_inserts rules)) (IP_String a) = None" for a
    by (rule radix_tree.miss_if_char_absent [OF assms(1) keys IP_String_no_slash])
  show ?thesis
    using src by (cases "SrcIPString m")
      (simp add: RoutingTable_Match_def NewRoutingTable_def RoutingTable_Update_def miss)
qed

lemma linear_match_filter:
  "linear_match m rules =
     (case filter (matchRule m) rules of r # _ \<Rightarrow> (OutboundTag r, True) | [] \<Rightarrow> ([], False))"
  by (induction rules) (simp_all add: linear_match_def)

lemma linear_match_cong:
  assumes "SrcIP m = SrcIP m'" "DstIP m = DstIP m'" "SrcPort m = SrcPort m'" "DstPort m = DstPort m'"
  shows "linear_match m rules = linear_match m' rules"
proof -
  have "matchRule m = matchRule m'" using assms by (simp add: matchRule_def fun_eq_iff)
  then show ?thesis by (simp add: linear_match_def)
qed

subsection \<open>Properties\<close>

text \<open>C6. On rules that went through the configuration's normalisation, \<open>Match\<close> returns the tag of the
  first rule in configuration order that matches the connection by a port or a network, and reports
  no match when there is none.  The radix tree never decides: its keys are networks with a prefix
  length, and the searched text is a bare address.\<close>

theorem match_is_first_matching_rule:
  assumes "radix_tree lp" and "Config_Normalize 0 configured = Inr rules" and "md_coherent m"
  shows "fst (RoutingTable_Match lp (NewRoutingTable rules) m) =
           (case filter (matchRule m) rules of r # _ \<Rightarrow> (OutboundTag r, True) | [] \<Rightarrow> ([], False))"
  using Match_eq_linear [OF assms(1) Config_Normalize_nets [OF assms(2)] assms(3)]
  by (simp add: linear_match_filter)

definition example_rule :: "string \<Rightarrow> string list \<Rightarrow> string \<Rightarrow> rule" where
  "example_rule dports dsts tag =
     \<lparr>r_SrcPort = [], r_DstPort = dports, r_SrcIP = [], r_DstIP = dsts, OutboundTag = tag,
      SrcPortMatcher = None, DstPortMatcher = None, SrcIPs = [], DstIPs = [],
      SrcIPsIPv6 = [], DstIPsIPv6 = []\<rparr>"

definition any6 :: ipnet where
  "any6 = \<lparr>ipn_IP = replicate 16 0, ipn_Mask = replicate 16 0\<rparr>"

definition example_rule_normal :: rule where
  "example_rule_normal = (example_rule ''443'' [''::/0''] ''proxy'')
     \<lparr>SrcPortMatcher := Some \<lparr>pm_ranges = []\<rparr>,
      DstPortMatcher := Some \<lparr>pm_ranges = [\<lparr>pr_Start = 443, pr_End = 443\<rparr>]\<rparr>,
      DstIPsIPv6 := [any6]\<rparr>"

lemma parse_443: "parse_port_part ''443'' = Inr \<lparr>pr_Start = 443, pr_End = 443\<rparr>"
  by (simp add: parse_port_part_def TrimSpace_def ParseUint_def dec_val_def
      digit_val_def is_digit_def is_space_def code_def)

lemma parse_any6: "parse_net_ip True ''::/0'' = NetKeep any6" "parse_net_ip False ''::/0'' = NetSkip"
  by code_simp+

lemma example_rule_normalizes:
  "Config_Normalize 0 [example_rule ''443'' [''::/0''] ''proxy''] = Inr [example_rule_normal]"
  by (simp add: Rule_Normalize_def NewPortMatcher_def parse_443 parse_any6 example_rule_def
      example_rule_normal_def)

theorem match_is_first_matching_rule_witness:
  "fst (RoutingTable_Match ref_longest_prefix (NewRoutingTable [example_rule_normal])
      (new_metadata\<lparr>DstPort := 443\<rparr>)) = (''proxy'', True)"
  using match_is_first_matching_rule
    [OF ref_radix.radix_tree_axioms example_rule_normalizes, of "new_metadata\<lparr>DstPort := 443\<rparr>"]
  by (simp add: md_coherent_def new_metadata_def matchRule_def PortMatcher_Matches_def
      example_rule_normal_def example_rule_def PortRange_Contains_def)

text \<open>Normalisation sorts the IPv6 networks of a rule into fields that matching never reads: for a
  connection between IPv6 addresses a rule matches by its ports only, whatever networks it names.\<close>

theorem ipv6_networks_never_match:
  assumes "Rule_Normalize r = Inr r'" and "To4 (SrcIP m) = None" and "To4 (DstIP m) = None"
  shows "matchRule m r' \<longleftrightarrow> matchRuleNoIP m r'"
proof -
  have "\<forall>n \<in> set (SrcIPs r'). \<not> IPNet_Contains n (SrcIP m)"
    and "\<forall>n \<in> set (DstIPs r'). \<not> IPNet_Contains n (DstIP m)"
    using Rule_Normalize_nets [OF assms(1)] assms(2,3) v4_net_rejects_v6
    by (auto simp: rule_nets_v4_def nets_v4_def list_all_iff)
  then show ?thesis by (auto simp: matchRule_def matchRuleNoIP_def list_ex_iff)
qed

theorem ipv6_networks_never_match_witness:
  "Rule_Normalize (example_rule ''443'' [''::/0''] ''proxy'') = Inr example_rule_normal \<and>
   IPNet_Contains any6 (replicate 16 0) \<and>
   \<not> matchRule (new_metadata\<lparr>SrcIP := replicate 16 0, DstIP := replicate 16 0\<rparr>) example_rule_normal"
proof -
  have r: "Rule_Normalize (example_rule ''443'' [''::/0''] ''proxy'') = Inr example_rule_normal"
    using example_rule_normalizes by (simp split: sum.splits)
  have "To4 (replicate 16 0) = None" by code_simp
  then have "\<not> matchRule (new_metadata\<lparr>SrcIP := replicate 16 0, DstIP := replicate 16 0\<rparr>) example_rule_normal"
    using ipv6_networks_never_match
      [OF r, of "new_metadata\<lparr>SrcIP := replicate 16 0, DstIP := replicate 16 0\<rparr>"]
    by (simp add: matchRuleNoIP_def PortMatcher_Matches_def new_metadata_def
        example_rule_normal_def PortRange_Contains_def)
  moreover have "IPNet_Contains any6 (replicate 16 0)" by code_simp
  ultimately show ?thesis using r by blast
qed

end
