(* ===== verification/TtlCache.thy ===== *)
theory TtlCache
  imports Prelude
begin

text \<open>
  The contract of the caches with expiring entries (\<^verbatim>\<open>proxy/router.go\<close> \<open>routeCache\<close>, \<^verbatim>\<open>cache/lru.go\<close>
  \<open>LRUCache\<close>, the caches of \<^verbatim>\<open>dns/resolver.go\<close> and \<^verbatim>\<open>proxy/dns_cache.go\<close>): a lookup answers from an entry that has not expired, a store makes the entry for its
  key, and an operation never changes another entry except by removing it.  What a client that
  memoises a function through such a cache may rely on follows from the contract alone.

  A store is a relation, because the entries it evicts depend on the order of a map range.  The
  clock argument of a lookup is abstract: \<open>clock\<close> reads the instant that decides.  The lifetime of an entry may
  depend on its value.
\<close>

locale ttl_cache =
  fixes clock :: "'c \<Rightarrow> instant"
    and entry :: "'s \<Rightarrow> 'k \<Rightarrow> ('v \<times> instant) option"
    and lookup :: "'c \<Rightarrow> 'k \<Rightarrow> 's \<Rightarrow> 'v option \<times> 's"
    and store :: "instant \<Rightarrow> 'k \<Rightarrow> 'v \<Rightarrow> 's \<Rightarrow> 's \<Rightarrow> bool"
    and ttl :: "'s \<Rightarrow> 'v \<Rightarrow> duration"
  assumes lookup_result: "fst (lookup c k s) =
      (case entry s k of None \<Rightarrow> None | Some (v, e) \<Rightarrow> if clock c > e then None else Some v)"
    and lookup_keeps: "entry (snd (lookup c k s)) k' = Some x \<Longrightarrow> entry s k' = Some x"
    and lookup_hit_keeps: "fst (lookup c k s) = Some v \<Longrightarrow> entry (snd (lookup c k s)) = entry s"
    and store_entry: "store t k v s s' \<Longrightarrow> entry s' k = Some (v, t + ttl s v)"
    and store_keeps: "store t k v s s' \<Longrightarrow> k' \<noteq> k \<Longrightarrow> entry s' k' = Some x \<Longrightarrow> entry s k' = Some x"
begin

lemma lookup_after_store:
  assumes "store t k v s s'"
  shows "fst (lookup c k s') = (if clock c > t + ttl s v then None else Some v)"
  by (simp add: lookup_result store_entry [OF assms])

lemma lookup_of_agreeing:
  assumes "\<forall>k v e. entry s k = Some (v, e) \<longrightarrow> ok k v" and "fst (lookup c k s) = Some v"
  shows "ok k v"
proof -
  obtain e where "entry s k = Some (v, e)"
    using assms(2) by (auto simp: lookup_result split: option.splits if_splits)
  with assms(1) show ?thesis by blast
qed

lemma lookup_keeps_agreeing:
  assumes "\<forall>k v e. entry s k = Some (v, e) \<longrightarrow> ok k v"
  shows "\<forall>k v e. entry (snd (lookup c k' s)) k = Some (v, e) \<longrightarrow> ok k v"
  using assms lookup_keeps by meson

lemma store_of_agreeing:
  assumes "\<forall>k v e. entry s k = Some (v, e) \<longrightarrow> ok k v" and "store t k v s s'" and "ok k v"
  shows "\<forall>k v e. entry s' k = Some (v, e) \<longrightarrow> ok k v"
proof (intro allI impI)
  fix k' v' e
  assume "entry s' k' = Some (v', e)"
  then show "ok k' v'"
    using assms store_entry [OF assms(2)] store_keeps [OF assms(2)]
    by (cases "k' = k") auto
qed

end

end
