(* ===== verification/GoBytes.thy ===== *)
theory GoBytes
  imports GoStrings
begin

text \<open>
  Byte buffers: the big-endian integers of \<^verbatim>\<open>encoding/binary\<close>, \<open>copy\<close> into a part of a buffer, a part of a
  buffer, the bytes of a string, and the numbers that bytes denote.
\<close>

unbundle bit_operations_syntax

definition put16 :: "16 word \<Rightarrow> byte list" where
  "put16 x = [ucast (drop_bit 8 x), ucast x]"

definition put32 :: "32 word \<Rightarrow> byte list" where
  "put32 x = [ucast (drop_bit 24 x), ucast (drop_bit 16 x), ucast (drop_bit 8 x), ucast x]"

definition get16 :: "byte list \<Rightarrow> 16 word" where
  "get16 bs = push_bit 8 (ucast (bs ! 0)) OR ucast (bs ! 1)"

definition get32 :: "byte list \<Rightarrow> 32 word" where
  "get32 bs = push_bit 24 (ucast (bs ! 0)) OR push_bit 16 (ucast (bs ! 1)) OR
     push_bit 8 (ucast (bs ! 2)) OR ucast (bs ! 3)"

text \<open>\<open>copy (buf[a:b], bs)\<close>.\<close>

definition copy_to :: "nat \<Rightarrow> nat \<Rightarrow> byte list \<Rightarrow> byte list \<Rightarrow> byte list" where
  "copy_to a b bs buf =
     (let n = min (length bs) (b - a) in take a buf @ take n bs @ drop (a + n) buf)"

definition ascii_bytes :: "string \<Rightarrow> byte list" where
  "ascii_bytes s = map (\<lambda>c. of_nat (code c)) s"

definition sub :: "nat \<Rightarrow> nat \<Rightarrow> byte list \<Rightarrow> byte list" where
  "sub a b bs = take (b - a) (drop a bs)"

definition string_of_bytes :: "byte list \<Rightarrow> string" where
  "string_of_bytes bs = map (\<lambda>b. char_of (unat b)) bs"

lemma string_of_ascii_bytes [simp]: "string_of_bytes (ascii_bytes s) = s"
proof -
  have "char_of (unat (of_nat (code c) :: byte)) = c" for c
    using code_bound [of c] by (simp add: unat_of_nat)
  then show ?thesis by (simp add: string_of_bytes_def ascii_bytes_def comp_def)
qed

lemma length_ascii_bytes [simp]: "length (ascii_bytes s) = length s"
  by (simp add: ascii_bytes_def)

lemma get16_put16 [simp]: "get16 (put16 x) = x"
  by (rule bit_word_eqI) (auto simp: get16_def put16_def bit_simps)

lemma get16_append: "get16 (put16 x @ rest) = x"
proof -
  have "get16 (put16 x @ rest) = get16 (put16 x)" by (simp add: get16_def put16_def)
  then show ?thesis by simp
qed

lemma get32_put32 [simp]: "get32 (put32 x) = x"
proof (rule bit_word_eqI)
  fix n :: nat
  assume "n < LENGTH(32)"
  then consider "n < 8" | "8 \<le> n" "n < 16" | "16 \<le> n" "n < 24" | "24 \<le> n" "n < 32"
    by fastforce
  then show "bit (get32 (put32 x)) n = bit x n"
    by cases (auto simp: get32_def put32_def bit_simps)
qed

lemma length_put [simp]: "length (put16 x) = 2" "length (put32 y) = 4"
  by (simp_all add: put16_def put32_def)

lemma length_copy_to [simp]: "b \<le> length buf \<Longrightarrow> a \<le> b \<Longrightarrow> length (copy_to a b bs buf) = length buf"
  by (auto simp: copy_to_def Let_def min_def)

lemma sub_copy_same:
  "length bs = b - a \<Longrightarrow> a \<le> b \<Longrightarrow> b \<le> length buf \<Longrightarrow> sub a b (copy_to a b bs buf) = bs"
  by (simp add: sub_def copy_to_def Let_def)

lemma sub_copy_other:
  assumes "b \<le> c" and "a \<le> b" and "c \<le> d" and "d \<le> length buf"
  shows "sub a b (copy_to c d bs buf) = sub a b buf"
proof -
  have "take b (copy_to c d bs buf) = take b buf"
    using assms by (simp add: copy_to_def Let_def min_def)
  then show ?thesis using assms(2) by (simp add: sub_def take_drop)
qed

lemma nth_sub: "i < b - a \<Longrightarrow> sub a b d ! i = d ! (a + i)" if "b \<le> length d" for a b d i
  using that by (simp add: sub_def)

lemma sub_append: "b \<le> length d \<Longrightarrow> sub a b (d @ e) = sub a b d"
  by (simp add: sub_def)

text \<open>The number that a list of bytes denotes, least significant byte first.\<close>

fun rval :: "byte list \<Rightarrow> nat" where
  "rval [] = 0"
| "rval (b # bs) = unat b + 256 * rval bs"

lemma rval_bound: "rval bs < 256 ^ length bs"
proof (induction bs)
  case Nil
  then show ?case by simp
next
  case (Cons b bs)
  then show ?case using unat_byte_less [of b] by simp
qed

lemma rval_inj: "length as = length bs \<Longrightarrow> rval as = rval bs \<Longrightarrow> as = bs"
proof (induction as bs rule: list_induct2)
  case Nil
  then show ?case by simp
next
  case (Cons a as b bs)
  have "unat a = rval (a # as) mod 256" "unat b = rval (b # bs) mod 256"
    "rval as = rval (a # as) div 256" "rval bs = rval (b # bs) div 256"
    using unat_byte_less [of a] unat_byte_less [of b] by simp_all
  then show ?case using Cons by (metis word_unat_eq_iff)
qed

lemma no_high_bit: "8 \<le> m \<Longrightarrow> \<not> bit (x :: byte) m"
  by (auto dest: bit_imp_le_length)

lemma put32_get32: "length bs = 4 \<Longrightarrow> put32 (get32 bs) = bs"
proof -
  assume "length bs = 4"
  then obtain a b c d where bs: "bs = [a, b, c, d]"
    by (auto simp: length_Suc_conv eval_nat_numeral)
  show ?thesis
    unfolding bs put32_def get32_def
    by (auto intro!: bit_word_eqI simp: bit_simps no_high_bit)
qed

lemma div_digits:
  assumes "(u :: nat) < 256 ^ 4"
  shows "u mod 256 + 256 * (u div 256 mod 256 + 256 * (u div 65536 mod 256 + 256 * (u div 16777216 mod 256))) = u"
proof -
  have eqs: "u div 65536 = u div 256 div 256" "u div 16777216 = u div 256 div 256 div 256"
    by (simp_all add: div_mult2_eq [symmetric])
  have "u div 256 div 256 div 256 < 256" using assms by (simp add: less_mult_imp_div_less)
  then have "u div 256 div 256 div 256 mod 256 = u div 256 div 256 div 256" by simp
  then show ?thesis unfolding eqs by (metis mod_mult_div_eq add.commute)
qed

lemma rval_put32: "rval (rev (put32 x)) = unat x"
proof -
  have less: "unat x < 256 ^ 4" using unsigned_less [of x, where ?'a = nat] by simp
  then have "unat x div 16777216 mod 256 = unat x div 16777216"
    by (simp add: less_mult_imp_div_less)
  with div_digits [OF less] show ?thesis
    by (simp add: put32_def unsigned_ucast_eq unsigned_drop_bit_eq take_bit_eq_mod drop_bit_eq_div [where ?'a = nat])
qed

lemma unat_get32: "length bs = 4 \<Longrightarrow> unat (get32 bs) = rval (rev bs)"
  by (metis put32_get32 rval_put32)

end
