(* ===== verification/RouteCache.thy ===== *)
theory RouteCache
  imports TtlCache PortRange GoNet GoBytes
begin

text \<open>
  The cache of routing decisions, \<^verbatim>\<open>proxy/router.go\<close> \<open>routeCache\<close>: lookup with lazy deletion, insertion
  with eviction of a quarter of the entries, the periodic cleanup, the statistics, and the
  construction of cache keys with the pooled buffer they share.
\<close>

record route_entry =
  re_outboundTag :: string
  re_expiresAt :: instant

record route_cache =
  rc_entries :: "string \<rightharpoonup> route_entry"
  rc_maxSize :: int
  rc_ttl :: duration
  rc_hits :: "64 word"
  rc_misses :: "64 word"
  rc_size :: int

definition newRouteCache :: "int \<Rightarrow> duration \<Rightarrow> route_cache" where
  "newRouteCache maxSize ttl = \<lparr>rc_entries = Map.empty, rc_maxSize = maxSize, rc_ttl = ttl,
     rc_hits = 0, rc_misses = 0, rc_size = 0\<rparr>"

definition rc_get :: "instant \<Rightarrow> string \<Rightarrow> route_cache \<Rightarrow> string option \<times> route_cache" where
  "rc_get now key c =
     (case rc_entries c key of
        None \<Rightarrow> (None, c\<lparr>rc_misses := rc_misses c + 1\<rparr>)
      | Some entry \<Rightarrow>
          if now > re_expiresAt entry then
            (None, c\<lparr>rc_entries := (rc_entries c)(key := None), rc_size := i32 (rc_size c - 1),
                     rc_misses := rc_misses c + 1\<rparr>)
          else (Some (re_outboundTag entry), c\<lparr>rc_hits := rc_hits c + 1\<rparr>))"

text \<open>The range of \<open>set\<close> deletes keys until it has evicted \<open>maxSize / 4\<close> of them.\<close>

definition rc_set :: "string list \<Rightarrow> instant \<Rightarrow> string \<Rightarrow> string \<Rightarrow> route_cache \<Rightarrow> route_cache" where
  "rc_set ord now key outboundTag c =
     (let exists = (rc_entries c key \<noteq> None);
          c1 = (if \<not> exists \<and> rc_size c \<ge> i32 (rc_maxSize c) then
                  let target = go_div (rc_maxSize c) 4; victims = take (nat target) ord
                  in c\<lparr>rc_entries := del_keys (rc_entries c) victims,
                       rc_size := i32 (rc_size c - int (length victims))\<rparr>
                else c);
          c2 = c1\<lparr>rc_entries := (rc_entries c1)
                    (key \<mapsto> \<lparr>re_outboundTag = outboundTag, re_expiresAt = now + rc_ttl c\<rparr>)\<rparr>
      in if exists then c2 else c2\<lparr>rc_size := i32 (rc_size c2 + 1)\<rparr>)"

text \<open>Each visited entry reads the clock again.\<close>

definition rc_expired :: "(string \<Rightarrow> instant) \<Rightarrow> route_cache \<Rightarrow> string \<Rightarrow> bool" where
  "rc_expired clock c k =
     (case rc_entries c k of None \<Rightarrow> False | Some entry \<Rightarrow> clock k > re_expiresAt entry)"

definition rc_cleanup :: "string list \<Rightarrow> (string \<Rightarrow> instant) \<Rightarrow> route_cache \<Rightarrow> route_cache" where
  "rc_cleanup ord clock c =
     (let victims = filter (rc_expired clock c) ord;
          c1 = c\<lparr>rc_entries := del_keys (rc_entries c) victims\<rparr>
      in if length victims > 0 then c1\<lparr>rc_size := i32 (rc_size c - int (length victims))\<rparr> else c1)"

text \<open>The ratio is a float in the code; here it is the exact rational.\<close>

definition rc_stats :: "route_cache \<Rightarrow> 64 word \<times> 64 word \<times> rat" where
  "rc_stats c =
     (let hits = rc_hits c; misses = rc_misses c; total = hits + misses
      in (hits, misses,
          if total > 0 then of_nat (unat hits) / of_nat (unat total) * 100 else 0))"

definition rc_GetStats :: "route_cache \<Rightarrow> 64 word \<times> 64 word \<times> rat \<times> int" where
  "rc_GetStats c = (let (hits, misses, ratio) = rc_stats c in (hits, misses, ratio, rc_size c))"

definition rc_len :: "route_cache \<Rightarrow> int" where
  "rc_len c = rc_size c"

subsection \<open>Keys\<close>

text \<open>The text that \<open>buildKey\<close> writes into its buffer.\<close>

definition key_text :: "string \<Rightarrow> ip \<Rightarrow> ip \<Rightarrow> u16 \<Rightarrow> u16 \<Rightarrow> string" where
  "key_text protocol srcIP dstIP srcPort dstPort =
     protocol @ '':'' @ string_of_bytes srcIP @ '':'' @ FormatUint (unat srcPort) @ '':'' @
     string_of_bytes dstIP @ '':'' @ FormatUint (unat dstPort)"

text \<open>
  The buffers behind the keys.  A string made by \<open>unsafe.String\<close> is a view of an array; \<open>kh_arrays\<close> holds
  the contents of each array up to its capacity and \<open>kh_pool\<close> the arrays in the pool.  \<open>pick\<close> is the
  array the pool hands out, None for a new one, and \<open>slack\<close> the spare room of an array that \<open>append\<close>
  allocates because the capacity is too small.
\<close>

record key_heap =
  kh_arrays :: "string list"
  kh_pool :: "nat list"

type_synonym key_ref = "nat \<times> nat"

definition key_read :: "key_heap \<Rightarrow> key_ref \<Rightarrow> string" where
  "key_read h k = take (snd k) (kh_arrays h ! fst k)"

definition pool_get :: "nat option \<Rightarrow> key_heap \<Rightarrow> nat \<times> key_heap" where
  "pool_get pick h =
     (case pick of
        Some i \<Rightarrow> (i, h\<lparr>kh_pool := remove1 i (kh_pool h)\<rparr>)
      | None \<Rightarrow> (length (kh_arrays h),
                 h\<lparr>kh_arrays := kh_arrays h @ [replicate 128 (CHR 0x00)]\<rparr>))"

definition buildKey :: "nat option \<Rightarrow> string \<Rightarrow> string \<Rightarrow> ip \<Rightarrow> ip \<Rightarrow> u16 \<Rightarrow> u16 \<Rightarrow> key_heap
    \<Rightarrow> key_ref \<times> key_heap" where
  "buildKey pick slack protocol srcIP dstIP srcPort dstPort h =
     (let (i, h1) = pool_get pick h;
          txt = key_text protocol srcIP dstIP srcPort dstPort; n = length txt;
          arr = kh_arrays h1 ! i
      in if n \<le> length arr
         then ((i, n), h1\<lparr>kh_arrays := (kh_arrays h1)[i := txt @ drop n arr],
                          kh_pool := i # kh_pool h1\<rparr>)
         else let j = length (kh_arrays h1)
              in ((j, n), h1\<lparr>kh_arrays := kh_arrays h1 @ [txt @ slack], kh_pool := j # kh_pool h1\<rparr>))"

subsection \<open>The contract of the cache\<close>

definition rc_entry :: "route_cache \<Rightarrow> string \<Rightarrow> (string \<times> instant) option" where
  "rc_entry c k = map_option (\<lambda>e. (re_outboundTag e, re_expiresAt e)) (rc_entries c k)"

definition rc_store :: "instant \<Rightarrow> string \<Rightarrow> string \<Rightarrow> route_cache \<Rightarrow> route_cache \<Rightarrow> bool" where
  "rc_store now key tag c c' \<longleftrightarrow> (\<exists>ord. c' = rc_set ord now key tag c)"

lemma rc_set_entries:
  "rc_entries (rc_set ord now key tag c) k =
     (if k = key then Some \<lparr>re_outboundTag = tag, re_expiresAt = now + rc_ttl c\<rparr>
      else if rc_entries c key = None \<and> rc_size c \<ge> i32 (rc_maxSize c) \<and>
              k \<in> set (take (nat (go_div (rc_maxSize c) 4)) ord) then None
      else rc_entries c k)"
  by (auto simp: rc_set_def Let_def)

interpretation route: ttl_cache id rc_entry rc_get rc_store "\<lambda>s _. rc_ttl s"
proof unfold_locales
  fix c k s
  show "fst (rc_get c k s) =
      (case rc_entry s k of None \<Rightarrow> None | Some (v, e) \<Rightarrow> if id c > e then None else Some v)"
    by (auto simp: rc_get_def rc_entry_def split: option.split)
next
  fix c k s k' x
  show "rc_entry (snd (rc_get c k s)) k' = Some x \<Longrightarrow> rc_entry s k' = Some x"
    by (auto simp: rc_get_def rc_entry_def split: option.splits if_splits)
next
  fix c k s v
  show "fst (rc_get c k s) = Some v \<Longrightarrow> rc_entry (snd (rc_get c k s)) = rc_entry s"
    by (auto simp: rc_get_def rc_entry_def fun_eq_iff split: option.splits if_splits)
next
  fix t k v s s'
  show "rc_store t k v s s' \<Longrightarrow> rc_entry s' k = Some (v, t + rc_ttl s)"
    by (auto simp: rc_store_def rc_entry_def rc_set_entries)
next
  fix t k v s s' k' x
  show "rc_store t k v s s' \<Longrightarrow> k' \<noteq> k \<Longrightarrow> rc_entry s' k' = Some x \<Longrightarrow> rc_entry s k' = Some x"
    by (auto simp: rc_store_def rc_entry_def rc_set_entries split: if_splits)
qed

subsection \<open>The size counter\<close>

lemma quarter_bounds: "4 \<le> (m :: int) \<Longrightarrow> 1 \<le> m div 4 \<and> m div 4 \<le> m"
  by presburger

definition rc_inv :: "route_cache \<Rightarrow> bool" where
  "rc_inv c \<longleftrightarrow> 4 \<le> rc_maxSize c \<and> rc_maxSize c < 2 ^ 31 \<and> finite (dom (rc_entries c)) \<and>
     rc_size c = int (card (dom (rc_entries c))) \<and> rc_size c \<le> rc_maxSize c"

inductive rc_step :: "route_cache \<Rightarrow> route_cache \<Rightarrow> bool" where
  get: "rc_step c (snd (rc_get now key c))"
| set: "range_of (rc_entries c) ord \<Longrightarrow> rc_step c (rc_set ord now key tag c)"
| cleanup: "range_of (rc_entries c) ord \<Longrightarrow> rc_step c (rc_cleanup ord clock c)"

lemma rc_inv_get: "rc_inv c \<Longrightarrow> rc_inv (snd (rc_get now key c))"
proof -
  assume inv: "rc_inv c"
  then have "card (dom (rc_entries c)) > 0" if "rc_entries c key = Some e" for e
    using that card_dom_pos by (auto simp: rc_inv_def)
  with inv show ?thesis
    by (auto simp: rc_inv_def rc_get_def card_dom_del of_nat_diff Suc_leI split: option.split
        simp del: fun_upd_apply dom_fun_upd)
qed

lemma rc_set_full:
  assumes "rc_entries c key = None" and "rc_size c = rc_maxSize c" and "0 \<le> rc_maxSize c"
    and "rc_maxSize c < 2 ^ 31" and "vs = take (nat (rc_maxSize c div 4)) ord"
  shows "rc_set ord now key tag c =
    c\<lparr>rc_entries := (del_keys (rc_entries c) vs)
        (key \<mapsto> \<lparr>re_outboundTag = tag, re_expiresAt = now + rc_ttl c\<rparr>),
      rc_size := i32 (i32 (rc_maxSize c - int (length vs)) + 1)\<rparr>"
  using assms by (simp add: rc_set_def Let_def)

lemma rc_inv_set:
  assumes inv: "rc_inv c" and ord: "range_of (rc_entries c) ord"
  shows "rc_inv (rc_set ord now key tag c)"
proof (cases "rc_entries c key = None \<and> rc_size c \<ge> rc_maxSize c")
  case False
  with inv show ?thesis
    by (cases "rc_entries c key")
      (simp_all add: rc_inv_def rc_set_def card_dom_upd del: dom_fun_upd)
next
  case True
  define vs where "vs = take (nat (rc_maxSize c div 4)) ord"
  have full: "rc_size c = rc_maxSize c" "4 \<le> rc_maxSize c" "rc_maxSize c < 2 ^ 31"
    and fin: "finite (dom (rc_entries c))"
    using True inv by (simp_all add: rc_inv_def)
  have len: "int (length ord) = rc_maxSize c" "int (card (dom (rc_entries c))) = rc_maxSize c"
    using full inv range_of_card [OF ord] by (simp_all add: rc_inv_def)
  have vs: "int (length vs) = rc_maxSize c div 4" "set vs \<subseteq> dom (rc_entries c)" "distinct vs"
    using len ord full by (auto simp: vs_def range_of_def dest: in_set_takeD)
  have card: "int (card (dom (del_keys (rc_entries c) vs))) = rc_maxSize c - rc_maxSize c div 4"
    using card_dom_del_keys [OF ord vs(2,3)] len vs(1) quarter_bounds [OF full(2)] by linarith
  have card': "card (dom ((del_keys (rc_entries c) vs)(key \<mapsto> x))) =
      Suc (card (dom (del_keys (rc_entries c) vs)))" for x
    using True fin by (subst card_dom_upd) auto
  have eq: "rc_set ord now key tag c =
      c\<lparr>rc_entries := (del_keys (rc_entries c) vs)
          (key \<mapsto> \<lparr>re_outboundTag = tag, re_expiresAt = now + rc_ttl c\<rparr>),
        rc_size := i32 (i32 (rc_maxSize c - int (length vs)) + 1)\<rparr>"
    using True full by (intro rc_set_full) (simp_all add: vs_def)
  have "i32 (i32 (rc_maxSize c - int (length vs)) + 1) = rc_maxSize c - rc_maxSize c div 4 + 1"
    using full quarter_bounds [OF full(2)] vs(1) by simp
  then show ?thesis
    unfolding eq rc_inv_def
    using full fin card card' quarter_bounds [OF full(2)]
    by (simp del: dom_fun_upd dom_del_keys) simp
qed

lemma rc_inv_cleanup:
  assumes inv: "rc_inv c" and ord: "range_of (rc_entries c) ord"
  shows "rc_inv (rc_cleanup ord clock c)"
proof -
  let ?vs = "filter (rc_expired clock c) ord"
  have vs: "set ?vs \<subseteq> dom (rc_entries c)" "distinct ?vs" "length ?vs \<le> card (dom (rc_entries c))"
    using ord range_of_card [OF ord] by (auto simp: range_of_def)
  from card_dom_del_keys [OF ord vs(1,2)] vs(3) inv show ?thesis
    by (auto simp: rc_inv_def rc_cleanup_def Let_def of_nat_diff)
qed

interpretation rcsys: invariant_system
  "\<lambda>c. \<exists>maxSize ttl. 4 \<le> maxSize \<and> maxSize < 2 ^ 31 \<and> c = newRouteCache maxSize ttl" rc_step rc_inv
proof unfold_locales
  fix c
  show "\<exists>maxSize ttl. 4 \<le> maxSize \<and> maxSize < 2 ^ 31 \<and> c = newRouteCache maxSize ttl \<Longrightarrow> rc_inv c"
    by (auto simp: rc_inv_def newRouteCache_def)
next
  fix c c'
  show "rc_inv c \<Longrightarrow> rc_step c c' \<Longrightarrow> rc_inv c'"
    by (auto elim!: rc_step.cases intro: rc_inv_get rc_inv_set rc_inv_cleanup)
qed

subsection \<open>Keys determine the connection\<close>

lemma char_of_byte_inj: "inj (\<lambda>b :: byte. char_of (unat b))"
proof (rule injI)
  fix a b :: byte
  assume "char_of (unat a) = (char_of (unat b) :: char)"
  then have "of_char (char_of (unat a)) = (of_char (char_of (unat b)) :: nat)" by (rule arg_cong)
  then show "a = b"
    using unsigned_less [of a, where ?'a = nat] unsigned_less [of b, where ?'a = nat]
    by (simp add: word_unat_eq_iff)
qed

lemma string_of_bytes_inj: "string_of_bytes as = string_of_bytes bs \<longleftrightarrow> as = bs"
  unfolding string_of_bytes_def by (rule inj_map_eq_map [OF char_of_byte_inj])

lemma length_string_of_bytes [simp]: "length (string_of_bytes bs) = length bs"
  by (simp add: string_of_bytes_def)

lemma key_text_inj:
  assumes "length p = length p'" and "length s = length s'"
  shows "key_text p s d sp dp = key_text p' s' d' sp' dp' \<longleftrightarrow>
           p = p' \<and> s = s' \<and> d = d' \<and> sp = sp' \<and> dp = dp'"
  using assms
  by (auto simp: key_text_def split_at_first split_at_last FormatUint_no_sep FormatUint_inj
      string_of_bytes_inj word_unat_eq_iff)

text \<open>A heap whose pool holds existing arrays, and a pick the pool can make.\<close>

definition kh_ok :: "nat option \<Rightarrow> key_heap \<Rightarrow> bool" where
  "kh_ok pick h \<longleftrightarrow> (\<forall>i \<in> set (kh_pool h). i < length (kh_arrays h)) \<and>
     (case pick of None \<Rightarrow> True | Some i \<Rightarrow> i \<in> set (kh_pool h))"

lemma pool_get_array: "kh_ok pick h \<Longrightarrow> fst (pool_get pick h) < length (kh_arrays (snd (pool_get pick h)))"
  by (auto simp: kh_ok_def pool_get_def split: option.splits)

lemma buildKey_text:
  assumes "kh_ok pick h" and "buildKey pick slack p s d sp dp h = (k, h')"
  shows "key_read h' k = key_text p s d sp dp" and "fst k < length (kh_arrays h')"
    and "fst k \<in> set (kh_pool h')" and "snd k = length (key_text p s d sp dp)"
    and "snd k \<le> length (kh_arrays h' ! fst k)"
  using assms pool_get_array [OF assms(1)]
  by (auto simp: buildKey_def key_read_def Let_def case_prod_unfold split: if_splits)

lemma buildKey_reuse:
  assumes "i < length (kh_arrays h)" and "length (key_text p s d sp dp) \<le> length (kh_arrays h ! i)"
    and "buildKey (Some i) slack p s d sp dp h = (k, h')"
  shows "k = (i, length (key_text p s d sp dp)) \<and>
         kh_arrays h' ! i = key_text p s d sp dp @ drop (length (key_text p s d sp dp)) (kh_arrays h ! i)"
  using assms by (auto simp: buildKey_def pool_get_def Let_def)

subsection \<open>Properties\<close>



text \<open>A stored decision is returned for its key until the time to live has passed and is a miss
  after that; any other key is answered as before the store, or has been evicted by it.\<close>

theorem route_cache_lookup:
  "fst (rc_get now key (rc_set ord t key tag c)) = (if now > t + rc_ttl c then None else Some tag) \<and>
         (\<forall>k. k \<noteq> key \<longrightarrow> fst (rc_get now k (rc_set ord t key tag c)) \<in> {None, fst (rc_get now k c)})"
proof (intro conjI allI impI)
  have st: "rc_store t key tag c (rc_set ord t key tag c)"
    unfolding rc_store_def by blast
  show "fst (rc_get now key (rc_set ord t key tag c)) = (if now > t + rc_ttl c then None else Some tag)"
    using route.lookup_after_store [OF st] by simp
  fix k assume "k \<noteq> key"
  then show "fst (rc_get now k (rc_set ord t key tag c)) \<in> {None, fst (rc_get now k c)}"
    using route.store_keeps [OF st] by (auto simp: route.lookup_result split: option.splits)
qed

theorem route_cache_lookup_witness:
  "fst (rc_get 50 ''k'' (rc_set [] 0 ''k'' ''t'' (newRouteCache 4 60))) = Some ''t'' \<and>
   fst (rc_get 61 ''k'' (rc_set [] 0 ''k'' ''t'' (newRouteCache 4 60))) = None"
  using route_cache_lookup [of _ "''k''" "[]" 0 "''t''" "newRouteCache 4 60"] by (simp add: newRouteCache_def)

text \<open>For source addresses of one length, two connections have the same cache key only when the
  protocol, both addresses and both ports agree, although the addresses are written as raw bytes
  that may contain the separator.\<close>

theorem route_key_injective:
  assumes "kh_ok pick h" and "kh_ok pick' g"
    and "buildKey pick slack p s d sp dp h = (k, h')" and "buildKey pick' slack' p' s' d' sp' dp' g = (k', g')"
    and "length p = length p'" and "length s = length s'"
  shows "key_read h' k = key_read g' k' \<longleftrightarrow> p = p' \<and> s = s' \<and> d = d' \<and> sp = sp' \<and> dp = dp'"
  using buildKey_text(1) [OF assms(1,3)] buildKey_text(1) [OF assms(2,4)] key_text_inj [OF assms(5,6)]
  by simp

definition no_arrays :: key_heap where
  "no_arrays = \<lparr>kh_arrays = [], kh_pool = []\<rparr>"

theorem route_key_injective_witness:
  "key_read (snd (buildKey None [] ''tcp:'' [1, 2] [3] 4 5 no_arrays))
     (fst (buildKey None [] ''tcp:'' [1, 2] [3] 4 5 no_arrays)) \<noteq>
   key_read (snd (buildKey None [] ''tcp:'' [1, 58] [3] 4 5 no_arrays))
     (fst (buildKey None [] ''tcp:'' [1, 58] [3] 4 5 no_arrays))"
  using route_key_injective [of None no_arrays None no_arrays "[]" "''tcp:''" "[1, 2]" "[3]" 4 5 _ _
      "[]" "''tcp:''" "[1, 58]" "[3]" 4 5, OF _ _ prod.collapse [symmetric] prod.collapse [symmetric]]
  by (simp add: kh_ok_def no_arrays_def)

text \<open>The key returned by \<open>buildKey\<close> is a view of a buffer that is already back in the pool: when a
  later call takes that buffer, the text of the earlier key becomes the text of the later one.\<close>

theorem pooled_key_overwritten:
  assumes "kh_ok pick h" and "buildKey pick slack p s d sp dp h = (k, h1)"
    and "buildKey (Some (fst k)) slack' p' s' d' sp' dp' h1 = (k', h2)"
    and "length (key_text p' s' d' sp' dp') = length (key_text p s d sp dp)"
  shows "key_read h1 k = key_text p s d sp dp \<and> fst k \<in> set (kh_pool h1) \<and>
         key_read h2 k = key_text p' s' d' sp' dp'"
  using buildKey_text [OF assms(1,2)] buildKey_reuse [OF _ _ assms(3)] assms(4)
  by (simp add: key_read_def)

theorem pooled_key_overwritten_witness:
  "let (k, h1) = buildKey None [] ''tcp:'' [10, 0, 0, 1] [10, 0, 0, 2] 4000 443 no_arrays;
       (k', h2) = buildKey (Some (fst k)) [] ''tcp:'' [10, 0, 0, 9] [10, 0, 0, 2] 4000 443 h1
   in key_read h1 k = key_text ''tcp:'' [10, 0, 0, 1] [10, 0, 0, 2] 4000 443 \<and>
      key_read h2 k = key_text ''tcp:'' [10, 0, 0, 9] [10, 0, 0, 2] 4000 443"
proof -
  obtain k h1 where 1: "buildKey None [] ''tcp:'' [10, 0, 0, 1] [10, 0, 0, 2] 4000 443 no_arrays = (k, h1)"
    by fastforce
  obtain k' h2 where 2: "buildKey (Some (fst k)) [] ''tcp:'' [10, 0, 0, 9] [10, 0, 0, 2] 4000 443 h1 = (k', h2)"
    by fastforce
  have "kh_ok None no_arrays" by (simp add: kh_ok_def no_arrays_def)
  from pooled_key_overwritten [OF this 1 2] show ?thesis
    using 1 2 by (simp add: key_text_def)
qed

end
