(* ===== verification/ProxyRouter.thy ===== *)
theory ProxyRouter
  imports CircuitBreaker RoutingTable RouteCache
begin

text \<open>
  The router of \<^verbatim>\<open>proxy/router.go\<close> with the source filter of \<^verbatim>\<open>cfg/config.go\<close> (\<open>MACFilter\<close>).  A dial checks the
  source filter, looks the route up in the cache or in the routing table, and calls the selected
  proxy under the circuit breaker.

  A proxy is an interface value: its dial is the parameter \<open>dial\<close>, a function of the proxy and the
  metadata.  The result of a dial lists the tags whose proxy was called.  Cache keys are the texts
  that \<open>buildKey\<close> writes, compared as Go strings.
\<close>

subsection \<open>The source filter\<close>

record mac_filter =
  mf_Mode :: string
  mf_List :: "string list"

definition mac_normalize :: "string \<Rightarrow> string" where
  "mac_normalize s = ToUpper (RemoveAll CHR ''-'' (RemoveAll CHR '':'' s))"

definition MACFilter_IsAllowed :: "mac_filter option \<Rightarrow> string \<Rightarrow> bool" where
  "MACFilter_IsAllowed f mac =
     (case f of
        None \<Rightarrow> True
      | Some f \<Rightarrow>
          if mf_Mode f = [] then True
          else
            let inList = list_ex (\<lambda>l. mac_normalize l = mac_normalize mac) (mf_List f)
            in if mf_Mode f = ''blacklist'' then \<not> inList
               else if mf_Mode f = ''whitelist'' then inList
               else True)"

subsection \<open>The router\<close>

record 'p router =
  routingTable :: routing_table
  Proxies :: "string \<rightharpoonup> 'p option"
  macFilter :: "mac_filter option"
  routeCache :: route_cache
  connErrors :: "64 word"
  connSuccess :: "64 word"
  circuitBreaker :: "circuit_breaker option"

text \<open>What the environment supplies to one dial: the clock readings of the cache lookup, the cache
  store, the breaker (\<open>Execute\<close> reads it up to three times) and the reports made on rejection, and
  the order in which an eviction ranges over the cache.\<close>

record dial_env =
  de_get :: instant
  de_ord :: "string list"
  de_set :: instant
  de_cb1 :: instant
  de_cb2 :: instant
  de_cb3 :: instant
  de_state :: instant
  de_stats :: instant

datatype ('e, 'c) dial_result =
    DialOk 'c
  | ErrBlockedByMACFilter
  | ErrProxyNotFound
  | DialCircuitOpen
  | UdpBlockedByBreaker cb_state
  | DialError 'e
  | DialPanic

definition router_breaker_config :: cb_config where
  "router_breaker_config = \<lparr>FailureThreshold = 5, SuccessThreshold = 3, cb_Timeout = 30 * second,
     cb_Name = ''proxy-router''\<rparr>"

definition NewRouter :: "rule list \<Rightarrow> (string \<rightharpoonup> 'p option) \<Rightarrow> instant \<Rightarrow> 'p router" where
  "NewRouter rules proxies now =
     \<lparr>routingTable = NewRoutingTable rules, Proxies = proxies, macFilter = None,
      routeCache = newRouteCache 10000 (60 * second), connErrors = 0, connSuccess = 0,
      circuitBreaker = Some (cb_New router_breaker_config now)\<rparr>"

definition UpdateRules :: "rule list \<Rightarrow> 'p router \<Rightarrow> 'p router" where
  "UpdateRules rules r = r\<lparr>routingTable := RoutingTable_Update rules (routingTable r)\<rparr>"

definition SetMACFilter :: "mac_filter option \<Rightarrow> 'p router \<Rightarrow> 'p router" where
  "SetMACFilter f r = r\<lparr>macFilter := f\<rparr>"

definition isSourceAllowed :: "'p router \<Rightarrow> string \<Rightarrow> bool" where
  "isSourceAllowed r srcIP =
     (if macFilter r = None then True else MACFilter_IsAllowed (macFilter r) srcIP)"

definition cleanup_tick :: "string list \<Rightarrow> (string \<Rightarrow> instant) \<Rightarrow> 'p router \<Rightarrow> 'p router" where
  "cleanup_tick ord clock r = r\<lparr>routeCache := rc_cleanup ord clock (routeCache r)\<rparr>"

definition GetConnectionStats :: "'p router \<Rightarrow> 64 word \<times> 64 word \<times> rat" where
  "GetConnectionStats r =
     (let total = connSuccess r + connErrors r
      in (connSuccess r, connErrors r,
          if total > 0 then of_nat (unat (connErrors r)) / of_nat (unat total) * 100 else 0))"

definition GetCacheStats :: "'p router \<Rightarrow> 64 word \<times> 64 word \<times> rat \<times> int" where
  "GetCacheStats r = rc_GetStats (routeCache r)"

definition ResetCircuitBreaker :: "instant \<Rightarrow> 'p router \<Rightarrow> 'p router" where
  "ResetCircuitBreaker now r = r\<lparr>circuitBreaker := map_option (cb_Reset now) (circuitBreaker r)\<rparr>"

record breaker_stats =
  bs_Available :: bool
  bs_State :: string
  bs_TotalRequests :: int
  bs_SuccessfulReqs :: int
  bs_FailedReqs :: int
  bs_RejectedReqs :: int

definition GetCircuitBreakerStats :: "instant \<Rightarrow> 'p router \<Rightarrow> breaker_stats \<times> 'p router" where
  "GetCircuitBreakerStats now r =
     (case circuitBreaker r of
        None \<Rightarrow> (\<lparr>bs_Available = False, bs_State = [], bs_TotalRequests = 0, bs_SuccessfulReqs = 0,
                 bs_FailedReqs = 0, bs_RejectedReqs = 0\<rparr>, r)
      | Some cb \<Rightarrow>
          let (st, cb1) = cb_State now cb
          in (\<lparr>bs_Available = True, bs_State = cb_state_string st, bs_TotalRequests = totalRequests cb1,
               bs_SuccessfulReqs = successfulReqs cb1, bs_FailedReqs = failedReqs cb1,
               bs_RejectedReqs = rejectedReqs cb1\<rparr>, r\<lparr>circuitBreaker := Some cb1\<rparr>))"

text \<open>\<open>route\<close>; its error result is always nil.\<close>

type_synonym longest_prefix = "radix_content \<Rightarrow> string \<Rightarrow> (string \<times> rule) option"

definition route_tag :: "longest_prefix \<Rightarrow> dial_env \<Rightarrow> string \<Rightarrow> metadata \<Rightarrow> 'p router
    \<Rightarrow> string \<times> metadata \<times> 'p router" where
  "route_tag lp env cacheKey m r =
     (case rc_get (de_get env) cacheKey (routeCache r) of
        (Some outboundTag, c1) \<Rightarrow> (outboundTag, m, r\<lparr>routeCache := c1\<rparr>)
      | (None, c1) \<Rightarrow>
          let ((tag, matched), m1) = RoutingTable_Match lp (routingTable r) m;
              selectedTag = (if \<not> matched then [] else tag)
          in (selectedTag, m1,
              r\<lparr>routeCache := rc_set (de_ord env) (de_set env) cacheKey selectedTag c1\<rparr>))"

definition the_proxy :: "'p router \<Rightarrow> string \<Rightarrow> 'p option" where
  "the_proxy r tag = (case Proxies r tag of Some p \<Rightarrow> p | None \<Rightarrow> None)"

text \<open>The state and the statistics that a rejected dial reports are reads that may move the breaker.\<close>

definition report_open :: "dial_env \<Rightarrow> circuit_breaker \<Rightarrow> cb_state \<times> circuit_breaker" where
  "report_open env cb =
     (let (st, cb1) = cb_State (de_state env) cb in (st, snd (cb_Stats (de_stats env) cb1)))"

definition conn_key :: "string \<Rightarrow> metadata \<Rightarrow> string" where
  "conn_key protocol m = key_text protocol (SrcIP m) (DstIP m) (SrcPort m) (DstPort m)"

definition Router_DialContext ::
  "longest_prefix \<Rightarrow> ('e \<Rightarrow> bool) \<Rightarrow> ('p \<Rightarrow> metadata \<Rightarrow> 'e + 'c) \<Rightarrow> dial_env \<Rightarrow> metadata \<Rightarrow> 'p router
     \<Rightarrow> ('e, 'c) dial_result \<times> string list \<times> metadata \<times> 'p router" where
  "Router_DialContext lp wrapsOpen dial env m r =
     (let (srcStr, m1) = SrcIPString m
      in if \<not> isSourceAllowed r srcStr then (ErrBlockedByMACFilter, [], m1, r)
         else
           let m2 = snd (DestinationAddress (snd (SourceAddress m1)));
               (selectedTag, m3, r1) = route_tag lp env (conn_key ''tcp:'' m2) m2 r
           in case the_proxy r1 selectedTag of
                None \<Rightarrow> (ErrProxyNotFound, [], m3, r1\<lparr>connErrors := connErrors r1 + 1\<rparr>)
              | Some p \<Rightarrow>
                  (case circuitBreaker r1 of
                     None \<Rightarrow> (DialPanic, [], m3, r1)
                   | Some cb \<Rightarrow>
                       (case cb_Execute (de_cb1 env) (de_cb2 env) (de_cb3 env)
                               (case dial p m3 of Inl e \<Rightarrow> Some e | Inr _ \<Rightarrow> None) cb of
                          (ErrCircuitOpen, cb1) \<Rightarrow>
                            (DialCircuitOpen, [], m3,
                             r1\<lparr>connErrors := connErrors r1 + 1,
                                circuitBreaker := Some (snd (report_open env cb1))\<rparr>)
                        | (FnResult (Some e), cb1) \<Rightarrow>
                            (DialError e, [selectedTag], m3,
                             r1\<lparr>connErrors := connErrors r1 + 1,
                                circuitBreaker :=
                                  Some (if wrapsOpen e then snd (report_open env cb1) else cb1)\<rparr>)
                        | (FnResult None, cb1) \<Rightarrow>
                            (case dial p m3 of
                               Inl e \<Rightarrow> DialError e
                             | Inr c \<Rightarrow> DialOk c,
                             [selectedTag], m3,
                             r1\<lparr>connSuccess := connSuccess r1 + 1, circuitBreaker := Some cb1\<rparr>))))"

text \<open>In \<open>DialUDP\<close> the missing proxy is an error inside the protected function.\<close>

datatype 'e udp_error = UdpNoProxy | UdpDialErr 'e

definition udp_call :: "('p \<Rightarrow> metadata \<Rightarrow> 'e + 'c) \<Rightarrow> 'p option \<Rightarrow> metadata \<Rightarrow> 'e udp_error + 'c" where
  "udp_call dial p m =
     (case p of
        None \<Rightarrow> Inl UdpNoProxy
      | Some p \<Rightarrow> (case dial p m of Inl e \<Rightarrow> Inl (UdpDialErr e) | Inr c \<Rightarrow> Inr c))"

definition udp_result :: "'e udp_error + 'c \<Rightarrow> ('e, 'c) dial_result" where
  "udp_result x =
     (case x of Inl UdpNoProxy \<Rightarrow> ErrProxyNotFound | Inl (UdpDialErr e) \<Rightarrow> DialError e | Inr c \<Rightarrow> DialOk c)"

definition udp_dialed :: "string \<Rightarrow> 'p option \<Rightarrow> string list" where
  "udp_dialed tag p = (if p = None then [] else [tag])"

definition Router_DialUDP ::
  "longest_prefix \<Rightarrow> ('e \<Rightarrow> bool) \<Rightarrow> ('p \<Rightarrow> metadata \<Rightarrow> 'e + 'c) \<Rightarrow> dial_env \<Rightarrow> metadata \<Rightarrow> 'p router
     \<Rightarrow> ('e, 'c) dial_result \<times> string list \<times> metadata \<times> 'p router" where
  "Router_DialUDP lp wrapsOpen dial env m r =
     (let (srcStr, m1) = SrcIPString m
      in if \<not> isSourceAllowed r srcStr then (ErrBlockedByMACFilter, [], m1, r)
         else
           let (selectedTag, m2, r1) = route_tag lp env (conn_key ''udp:'' m1) m1 r;
               p = the_proxy r1 selectedTag;
               outcome = udp_call dial p m2
           in case circuitBreaker r1 of
                None \<Rightarrow> (udp_result outcome, udp_dialed selectedTag p, m2, r1)
              | Some cb \<Rightarrow>
                  (case cb_Execute (de_cb1 env) (de_cb2 env) (de_cb3 env)
                          (case outcome of Inl e \<Rightarrow> Some e | Inr _ \<Rightarrow> None) cb of
                     (ErrCircuitOpen, cb1) \<Rightarrow>
                       (UdpBlockedByBreaker (fst (report_open env cb1)), [], m2,
                        r1\<lparr>circuitBreaker := Some (snd (report_open env cb1))\<rparr>)
                   | (FnResult (Some (UdpDialErr e)), cb1) \<Rightarrow>
                       if wrapsOpen e then
                         (UdpBlockedByBreaker (fst (report_open env cb1)), udp_dialed selectedTag p, m2,
                          r1\<lparr>circuitBreaker := Some (snd (report_open env cb1))\<rparr>)
                       else (DialError e, udp_dialed selectedTag p, m2, r1\<lparr>circuitBreaker := Some cb1\<rparr>)
                   | (FnResult (Some UdpNoProxy), cb1) \<Rightarrow>
                       (ErrProxyNotFound, [], m2, r1\<lparr>circuitBreaker := Some cb1\<rparr>)
                   | (FnResult None, cb1) \<Rightarrow>
                       (udp_result outcome, udp_dialed selectedTag p, m2, r1\<lparr>circuitBreaker := Some cb1\<rparr>)))"

subsection \<open>Cached routes agree with the rules\<close>

definition route_of :: "rule list \<Rightarrow> metadata \<Rightarrow> string" where
  "route_of rules m = fst (linear_match m rules)"

text \<open>Every cached tag is the route of each connection that has its key, for connections whose
  source address has \<open>n\<close> bytes.\<close>

definition tag_ok :: "nat \<Rightarrow> rule list \<Rightarrow> string \<Rightarrow> string \<Rightarrow> bool" where
  "tag_ok n rules key tag \<longleftrightarrow>
     (\<forall>p m. (p = ''tcp:'' \<or> p = ''udp:'') \<and> length (SrcIP m) = n \<and> key = conn_key p m \<longrightarrow>
        tag = route_of rules m)"

definition routes_agree :: "nat \<Rightarrow> rule list \<Rightarrow> 'p router \<Rightarrow> bool" where
  "routes_agree n rules r \<longleftrightarrow> routingTable r = NewRoutingTable rules \<and>
     (\<forall>k v e. rc_entry (routeCache r) k = Some (v, e) \<longrightarrow> tag_ok n rules k v)"

lemma tag_ok_route:
  assumes "p = ''tcp:'' \<or> p = ''udp:''" and "length (SrcIP m) = n"
  shows "tag_ok n rules (conn_key p m) tag \<longleftrightarrow> tag = route_of rules m"
proof
  show "tag = route_of rules m" if "tag_ok n rules (conn_key p m) tag"
    using that assms unfolding tag_ok_def by blast
next
  assume tag: "tag = route_of rules m"
  show "tag_ok n rules (conn_key p m) tag"
    unfolding tag_ok_def
  proof (intro allI impI, elim conjE)
    fix p' m'
    assume p': "p' = ''tcp:'' \<or> p' = ''udp:''" and n': "length (SrcIP m') = n"
      and key: "conn_key p m = conn_key p' m'"
    have "length p = length p'" and "length (SrcIP m) = length (SrcIP m')"
      using p' n' assms by auto
    from key_text_inj [OF this] key have "linear_match m rules = linear_match m' rules"
      unfolding conn_key_def by (intro linear_match_cong) blast+
    with tag show "tag = route_of rules m'" by (simp add: route_of_def)
  qed
qed

lemma linear_match_unmatched: "linear_match m rules = (tag, False) \<Longrightarrow> tag = []"
  by (auto simp: linear_match_def split: option.splits)

lemma route_tag_frame:
  assumes "route_tag lp env key m r = (tag, m', r')"
  shows "\<exists>c. r' = r\<lparr>routeCache := c\<rparr>"
  using assms by (auto simp: route_tag_def Let_def split: prod.splits option.splits)

lemma route_tag_agrees:
  assumes lp: "radix_tree lp" and nets: "list_all rule_nets_v4 rules" and m: "md_coherent m"
    and p: "p = ''tcp:'' \<or> p = ''udp:''" and n: "length (SrcIP m) = n"
    and ok: "routes_agree n rules r" and rt: "route_tag lp env (conn_key p m) m r = (tag, m', r')"
  shows "tag = route_of rules m \<and> routes_agree n rules r'"
proof (cases "rc_get (de_get env) (conn_key p m) (routeCache r)")
  case (Pair res c1)
  have agree: "\<forall>k v e. rc_entry (routeCache r) k = Some (v, e) \<longrightarrow> tag_ok n rules k v"
    using ok by (simp add: routes_agree_def)
  have agree1: "\<forall>k v e. rc_entry c1 k = Some (v, e) \<longrightarrow> tag_ok n rules k v"
    using route.lookup_keeps_agreeing [OF agree, of "de_get env" "conn_key p m"] Pair by simp
  show ?thesis
  proof (cases res)
    case (Some t)
    then have "tag_ok n rules (conn_key p m) t"
      using route.lookup_of_agreeing [OF agree] Pair by (metis fst_conv)
    then have "t = route_of rules m" using tag_ok_route [OF p n] by blast
    then show ?thesis
      using rt Some Pair ok agree1 by (auto simp: route_tag_def routes_agree_def)
  next
    case None
    have sel: "(if \<not> snd (linear_match m rules) then [] else fst (linear_match m rules)) = route_of rules m"
      using linear_match_unmatched [of m rules] by (cases "linear_match m rules") (auto simp: route_of_def)
    have "tag = route_of rules m"
      and r': "r' = r\<lparr>routeCache := rc_set (de_ord env) (de_set env) (conn_key p m) (route_of rules m) c1\<rparr>"
      using rt None Pair ok sel Match_eq_linear [OF lp nets m]
      by (auto simp: route_tag_def routes_agree_def case_prod_unfold Let_def)
    moreover have "\<forall>k v e. rc_entry (routeCache r') k = Some (v, e) \<longrightarrow> tag_ok n rules k v"
      using route.store_of_agreeing [OF agree1, of "de_set env" "conn_key p m" "route_of rules m"]
        tag_ok_route [OF p n] by (auto simp: r' rc_store_def)
    ultimately show ?thesis using ok by (simp add: routes_agree_def)
  qed
qed

lemma routes_agree_frame [simp]:
  "routes_agree n rules (r\<lparr>connErrors := a\<rparr>) = routes_agree n rules r"
  "routes_agree n rules (r\<lparr>connSuccess := a\<rparr>) = routes_agree n rules r"
  "routes_agree n rules (r\<lparr>circuitBreaker := b\<rparr>) = routes_agree n rules r"
  "routes_agree n rules (r\<lparr>macFilter := f\<rparr>) = routes_agree n rules r"
  by (simp_all add: routes_agree_def)

lemma md_coherent_dial:
  assumes "md_coherent m"
  shows "md_coherent (snd (DestinationAddress (snd (SourceAddress (snd (SrcIPString m))))))"
  using assms md_coherent_accessors by metis

lemma route_of_dial [simp]:
  "route_of rules (snd (DestinationAddress (snd (SourceAddress (snd (SrcIPString m)))))) = route_of rules m"
  "route_of rules (snd (SrcIPString m)) = route_of rules m"
  unfolding route_of_def by (auto intro!: arg_cong [of _ _ fst] linear_match_cong)

lemma DialContext_agrees:
  assumes lp: "radix_tree lp" and nets: "list_all rule_nets_v4 rules" and m: "md_coherent m"
    and n: "length (SrcIP m) = n" and ok: "routes_agree n rules r"
    and d: "Router_DialContext lp w dial env m r = (res, dialed, m', r')"
  shows "routes_agree n rules r' \<and> set dialed \<subseteq> {route_of rules m}"
proof (cases "isSourceAllowed r (fst (SrcIPString m))")
  case False
  then show ?thesis using d ok by (simp add: Router_DialContext_def case_prod_unfold)
next
  case True
  let ?m2 = "snd (DestinationAddress (snd (SourceAddress (snd (SrcIPString m)))))"
  obtain tag m3 r1 where rt: "route_tag lp env (conn_key ''tcp:'' ?m2) ?m2 r = (tag, m3, r1)"
    by (metis prod_cases3)
  have "tag = route_of rules m" "routes_agree n rules r1"
    using route_tag_agrees [OF lp nets md_coherent_dial [OF m] _ _ ok rt] n by simp_all
  then show ?thesis
    using d True rt
    by (auto simp: Router_DialContext_def case_prod_unfold Let_def
        split: option.splits cb_result.splits prod.splits)
qed

lemma DialUDP_agrees:
  assumes lp: "radix_tree lp" and nets: "list_all rule_nets_v4 rules" and m: "md_coherent m"
    and n: "length (SrcIP m) = n" and ok: "routes_agree n rules r"
    and d: "Router_DialUDP lp w dial env m r = (res, dialed, m', r')"
  shows "routes_agree n rules r' \<and> set dialed \<subseteq> {route_of rules m}"
proof (cases "isSourceAllowed r (fst (SrcIPString m))")
  case False
  then show ?thesis using d ok by (simp add: Router_DialUDP_def case_prod_unfold)
next
  case True
  let ?m1 = "snd (SrcIPString m)"
  obtain tag m3 r1 where rt: "route_tag lp env (conn_key ''udp:'' ?m1) ?m1 r = (tag, m3, r1)"
    by (metis prod_cases3)
  have "tag = route_of rules m" "routes_agree n rules r1"
    using route_tag_agrees [OF lp nets md_coherent_accessors(1) [OF m] _ _ ok rt] n by simp_all
  then show ?thesis
    using d True rt
    by (auto simp: Router_DialUDP_def udp_dialed_def case_prod_unfold Let_def
        split: option.splits cb_result.splits prod.splits udp_error.splits if_splits)
qed

subsection \<open>Runs of the router\<close>

text \<open>The operations on a running router, for one set of rules; \<^const>\<open>UpdateRules\<close> is not among them.\<close>

inductive router_step :: "longest_prefix \<Rightarrow> nat \<Rightarrow> 'p router \<Rightarrow> 'p router \<Rightarrow> bool" for lp n where
  tcp: "md_coherent m \<Longrightarrow> length (SrcIP m) = n \<Longrightarrow>
        Router_DialContext lp w (dial :: 'p \<Rightarrow> metadata \<Rightarrow> string + nat) env m r = (res, ds, m', r') \<Longrightarrow>
        router_step lp n r r'"
| udp: "md_coherent m \<Longrightarrow> length (SrcIP m) = n \<Longrightarrow>
        Router_DialUDP lp w (dial :: 'p \<Rightarrow> metadata \<Rightarrow> string + nat) env m r = (res, ds, m', r') \<Longrightarrow>
        router_step lp n r r'"
| cleanup: "router_step lp n r (cleanup_tick ord clock r)"
| set_filter: "router_step lp n r (SetMACFilter f r)"
| reset: "router_step lp n r (ResetCircuitBreaker now r)"
| read_stats: "router_step lp n r (snd (GetCircuitBreakerStats now r))"

lemma cleanup_agrees: "routes_agree n rules r \<Longrightarrow> routes_agree n rules (cleanup_tick ord clock r)"
  by (auto simp: routes_agree_def cleanup_tick_def rc_cleanup_def rc_entry_def Let_def
      split: if_splits)

lemma router_step_agrees:
  assumes "radix_tree lp" and "list_all rule_nets_v4 rules"
  shows "router_step lp n r r' \<Longrightarrow> routes_agree n rules r \<Longrightarrow> routes_agree n rules r'"
proof (induction rule: router_step.induct)
  case (tcp m w dial env r res ds m' r')
  then show ?case using DialContext_agrees [OF assms tcp(1,2)] by blast
next
  case (udp m w dial env r res ds m' r')
  then show ?case using DialUDP_agrees [OF assms udp(1,2)] by blast
next
  case (cleanup r ord clock)
  then show ?case by (rule cleanup_agrees)
next
  case (set_filter r f)
  then show ?case by (simp add: SetMACFilter_def)
next
  case (reset r now)
  then show ?case by (simp add: ResetCircuitBreaker_def)
next
  case (read_stats r now)
  then show ?case
    by (simp add: GetCircuitBreakerStats_def Let_def case_prod_unfold split: option.split)
qed

lemma routes_agree_New: "routes_agree n rules (NewRouter rules proxies now)"
  by (simp add: routes_agree_def NewRouter_def newRouteCache_def rc_entry_def)

lemma router_run_agrees:
  assumes "radix_tree lp" and "list_all rule_nets_v4 rules"
    and "(router_step lp n)\<^sup>*\<^sup>* (NewRouter rules proxies now) r"
  shows "routes_agree n rules r"
proof -
  have "invariant_system (\<lambda>r. \<exists>proxies now. r = NewRouter rules proxies now) (router_step lp n)
      (routes_agree n rules)"
    by unfold_locales (auto simp: routes_agree_New intro: router_step_agrees [OF assms(1,2)])
  from invariant_system.run_inv [OF this] assms(3) show ?thesis by blast
qed

lemma cb_Execute_fn: "fst (cb_Execute t1 t2 t3 e cb) = FnResult x \<Longrightarrow> x = e"
  by (auto simp: cb_Execute_def Let_def split: prod.splits if_splits option.splits)

lemma cb_Execute_open:
  assumes "cb_st cb = StateOpen" and "\<not> cb_timed_out t1 cb" and "\<not> cb_timed_out t2 cb"
  shows "fst (cb_Execute t1 t2 t3 e cb) = ErrCircuitOpen"
  using assms by (simp add: cb_defs)

subsection \<open>Properties\<close>


definition example_env :: dial_env where
  "example_env = \<lparr>de_get = 0, de_ord = [], de_set = 0, de_cb1 = 0, de_cb2 = 0, de_cb3 = 0,
     de_state = 0, de_stats = 0\<rparr>"

definition example_md :: metadata where
  "example_md = new_metadata\<lparr>SrcIP := [10, 0, 0, 1], DstIP := [8, 8, 8, 8], DstPort := 443\<rparr>"

definition example_router :: "unit router" where
  "example_router = NewRouter [example_rule_normal] [''proxy'' \<mapsto> Some ()] 0"

definition example_dial :: "unit \<Rightarrow> metadata \<Rightarrow> string + nat" where
  "example_dial p m = Inr 7"



lemma example_ip_string: "IP_String [10, 0, 0, 1] = ''10.0.0.1''"
  by code_simp


text \<open>All proxies share one breaker: while it is open and its timeout has not passed, no dial calls
  any proxy.  TCP reports the open breaker or a missing proxy, UDP always reports the breaker.\<close>

theorem open_breaker_stops_all_dials:
  assumes "circuitBreaker r = Some cb" and "cb_st cb = StateOpen"
    and "\<not> cb_timed_out (de_cb1 env) cb" and "\<not> cb_timed_out (de_cb2 env) cb"
    and "isSourceAllowed r (fst (SrcIPString m))"
  shows "fst (snd (Router_DialContext lp w dial env m r)) = [] \<and>
         fst (Router_DialContext lp w dial env m r) \<in> {DialCircuitOpen, ErrProxyNotFound} \<and>
         fst (snd (Router_DialUDP lp w dial' env m r)) = [] \<and>
         (\<exists>st. fst (Router_DialUDP lp w dial' env m r) = UdpBlockedByBreaker st)"
proof -
  have cb: "circuitBreaker (snd (snd (route_tag lp env key m' r))) = Some cb" for key m'
    using route_tag_frame [of lp env key m' r] assms(1)
    by (metis prod.collapse router.select_convs(7) router.surjective router.update_convs(4))
  show ?thesis
    using assms(5)
    by (simp add: Router_DialContext_def Router_DialUDP_def case_prod_unfold Let_def cb
        cb_Execute_open [OF assms(2,3,4)] split: option.split)
qed

theorem open_breaker_stops_all_dials_witness:
  "fst (Router_DialContext ref_longest_prefix (\<lambda>_. False) example_dial example_env example_md
     (example_router\<lparr>circuitBreaker := Some ((cb_New router_breaker_config 0)\<lparr>cb_st := StateOpen\<rparr>)\<rparr>))
   \<in> {DialCircuitOpen, ErrProxyNotFound}"
  by (rule open_breaker_stops_all_dials [THEN conjunct2, THEN conjunct1])
    (auto simp: cb_timed_out_def cb_New_def router_breaker_config_def example_env_def second_def
      isSourceAllowed_def example_router_def NewRouter_def)

text \<open>A TCP dial that passes the source filter is counted exactly once, as a success when it
  returns a connection and as an error otherwise; a blocked one is not counted.\<close>

theorem tcp_dial_counted_once:
  assumes "circuitBreaker r \<noteq> None"
    and "Router_DialContext lp w dial env m r = (res, dialed, m', r')"
  shows "connSuccess r' = connSuccess r + (case res of DialOk _ \<Rightarrow> 1 | _ \<Rightarrow> 0) \<and>
         connErrors r' = connErrors r + (case res of DialOk _ \<Rightarrow> 0 | ErrBlockedByMACFilter \<Rightarrow> 0 | _ \<Rightarrow> 1) \<and>
         (res = ErrBlockedByMACFilter \<longleftrightarrow> \<not> isSourceAllowed r (fst (SrcIPString m)))"
proof (cases "isSourceAllowed r (fst (SrcIPString m))")
  case False
  then show ?thesis using assms(2) by (auto simp: Router_DialContext_def case_prod_unfold)
next
  case True
  let ?m2 = "snd (DestinationAddress (snd (SourceAddress (snd (SrcIPString m)))))"
  obtain tag m3 c where rt: "route_tag lp env (conn_key ''tcp:'' ?m2) ?m2 r = (tag, m3, r\<lparr>routeCache := c\<rparr>)"
    using route_tag_frame by (metis prod_cases3)
  obtain cb where cb: "circuitBreaker r = Some cb" using assms(1) by blast
  show ?thesis
  proof (cases "the_proxy (r\<lparr>routeCache := c\<rparr>) tag")
    case None
    then show ?thesis
      using assms(2) True rt by (auto simp: Router_DialContext_def case_prod_unfold)
  next
    case (Some p)
    let ?e = "case dial p m3 of Inl e \<Rightarrow> Some e | Inr _ \<Rightarrow> None"
    obtain x cb1 where x: "cb_Execute (de_cb1 env) (de_cb2 env) (de_cb3 env) ?e cb = (x, cb1)"
      by fastforce
    have "x = ErrCircuitOpen \<or> x = FnResult ?e"
      using cb_Execute_fn [of _ _ _ ?e cb] x by (cases x) (metis fst_conv)+
    then show ?thesis
      using assms(2) True rt cb Some x
      by (auto simp: Router_DialContext_def case_prod_unfold split: sum.splits)
  qed
qed

theorem tcp_dial_counted_once_witness:
  "(let (res, dialed, m', r') = Router_DialContext ref_longest_prefix (\<lambda>_. False) example_dial example_env
        example_md example_router
    in connSuccess r' = connSuccess example_router + (case res of DialOk _ \<Rightarrow> 1 | _ \<Rightarrow> 0))"
proof -
  obtain res dialed m' r' where d: "Router_DialContext ref_longest_prefix (\<lambda>_. False) example_dial
      example_env example_md example_router = (res, dialed, m', r')"
    by (metis prod_cases4)
  have "circuitBreaker example_router \<noteq> None" by (simp add: example_router_def NewRouter_def)
  from tcp_dial_counted_once [OF this d] d show ?thesis by simp
qed

text \<open>Replacing the rules leaves the cache alone: a connection whose route is cached keeps its old
  outbound until the entry expires, whatever the new rules say.\<close>

theorem update_rules_keeps_cached_routes:
  assumes "rc_entry (routeCache r) (conn_key p m) = Some (tag, expiry)" and "de_get env \<le> expiry"
  shows "fst (route_tag lp env (conn_key p m) m (UpdateRules rules r)) = tag"
proof -
  have "fst (rc_get (de_get env) (conn_key p m) (routeCache r)) = Some tag"
    using assms by (simp add: route.lookup_result)
  then show ?thesis
    by (cases "rc_get (de_get env) (conn_key p m) (routeCache r)")
      (simp add: route_tag_def UpdateRules_def)
qed

theorem update_rules_keeps_cached_routes_witness:
  "fst (route_tag ref_longest_prefix example_env (conn_key ''tcp:'' example_md) example_md
     (UpdateRules [] (example_router\<lparr>routeCache :=
        rc_set [] 0 (conn_key ''tcp:'' example_md) ''old'' (newRouteCache 10000 (60 * second))\<rparr>))) = ''old''"
  by (rule update_rules_keeps_cached_routes [where expiry = "60 * second"])
    (simp_all add: rc_entry_def rc_set_entries newRouteCache_def example_env_def second_def)

text \<open>The source filter compares addresses after deleting their separators, so that it cannot tell
  the IPv6 addresses \<^verbatim>\<open>12::\<close> and \<^verbatim>\<open>::12\<close> apart: a whitelist of one admits the other.\<close>

theorem source_filter_conflates_ipv6:
  "IP_String ([0, 18] @ replicate 14 0) = ''12::'' \<and> IP_String (replicate 14 0 @ [0, 18]) = ''::12'' \<and>
   MACFilter_IsAllowed (Some \<lparr>mf_Mode = ''whitelist'', mf_List = [''::12'']\<rparr>) ''12::''"
proof (intro conjI)
  show "IP_String ([0, 18] @ replicate 14 0) = ''12::''" by code_simp
  show "IP_String (replicate 14 0 @ [0, 18]) = ''::12''" by code_simp
  show "MACFilter_IsAllowed (Some \<lparr>mf_Mode = ''whitelist'', mf_List = [''::12'']\<rparr>) ''12::''"
    by (simp add: MACFilter_IsAllowed_def mac_normalize_def RemoveAll_def)
qed

end
