(* ===== verification/ProxyGroup.thy ===== *)
theory ProxyGroup
  imports Prelude
begin

text \<open>
  Groups of proxies with load balancing, \<^verbatim>\<open>proxy/group.go\<close>: construction, the health check, the
  selection by each policy, the TCP dial with failover, the UDP dial, and the connection wrappers
  that keep the per-proxy counters.

  The atomics of a group are fields of its record.  A proxy is an interface value, None for nil; its
  dial is the parameter \<open>dial\<close>, which may depend on how many dials the call has made before it.  An
  index out of range is a panic of the Go program and a result of its own here.
\<close>

datatype lb_policy = Failover | RoundRobin | LeastLoad | OtherPolicy int

fun lb_policy_string :: "lb_policy \<Rightarrow> string" where
  "lb_policy_string Failover = ''failover''"
| "lb_policy_string RoundRobin = ''round-robin''"
| "lb_policy_string LeastLoad = ''least-load''"
| "lb_policy_string (OtherPolicy _) = ''unknown''"

record 'p proxy_group =
  pg_proxies :: "'p option list"
  pg_policy :: lb_policy
  pg_current :: int
  pg_name :: string
  pg_stopped :: bool
  pg_checkInterval :: duration
  pg_checkTimeout :: duration
  pg_checkURL :: string
  pg_health :: "bool list"
  pg_activeIndex :: int
  pg_activeConns :: "int list"

record 'p group_config =
  gc_Name :: string
  gc_Proxies :: "'p option list"
  gc_Policy :: lb_policy
  gc_CheckInterval :: duration
  gc_CheckTimeout :: duration
  gc_CheckURL :: string

definition NewProxyGroup :: "'p group_config \<Rightarrow> 'p proxy_group option" where
  "NewProxyGroup cfg =
     (let interval = (if gc_CheckInterval cfg = 0 then 30 * second else gc_CheckInterval cfg);
          timeout = (if gc_CheckTimeout cfg = 0 then 5 * second else gc_CheckTimeout cfg);
          valid = filter (\<lambda>p. p \<noteq> None) (gc_Proxies cfg)
      in if length valid = 0 then None
         else Some \<lparr>pg_proxies = valid, pg_policy = gc_Policy cfg, pg_current = 0,
                pg_name = gc_Name cfg, pg_stopped = False, pg_checkInterval = interval,
                pg_checkTimeout = timeout, pg_checkURL = gc_CheckURL cfg,
                pg_health = replicate (length valid) False, pg_activeIndex = 0,
                pg_activeConns = replicate (length valid) 0\<rparr>)"

definition pg_len :: "'p proxy_group \<Rightarrow> nat" where
  "pg_len g = length (pg_proxies g)"

definition updateActiveIndex :: "'p proxy_group \<Rightarrow> 'p proxy_group" where
  "updateActiveIndex g =
     (case find (\<lambda>i. pg_health g ! i) [0..<pg_len g] of
        Some i \<Rightarrow> g\<lparr>pg_activeIndex := i32 (int i)\<rparr>
      | None \<Rightarrow> g\<lparr>pg_activeIndex := 0\<rparr>)"

text \<open>\<open>checkAllProxies\<close>; \<open>probe i\<close> is the result of the health probe of proxy \<open>i\<close>.\<close>

definition checkAllProxies :: "(nat \<Rightarrow> bool) \<Rightarrow> 'p proxy_group \<Rightarrow> 'p proxy_group" where
  "checkAllProxies probe g =
     (let g1 = g\<lparr>pg_health := map probe [0..<pg_len g]\<rparr>
      in if pg_policy g = Failover then updateActiveIndex g1 else g1)"

subsection \<open>Selection\<close>

datatype 'p selection = Selected 'p int | NoProxies | NoValidProxies | SelectPanic

definition first_usable :: "'p proxy_group \<Rightarrow> nat option" where
  "first_usable g = find (\<lambda>i. pg_proxies g ! i \<noteq> None \<and> pg_health g ! i) [0..<pg_len g]"

definition first_valid :: "'p proxy_group \<Rightarrow> nat option" where
  "first_valid g = find (\<lambda>i. pg_proxies g ! i \<noteq> None) [0..<pg_len g]"

definition select_at :: "'p proxy_group \<Rightarrow> nat \<Rightarrow> 'p selection" where
  "select_at g i = (case pg_proxies g ! i of Some p \<Rightarrow> Selected p (int i) | None \<Rightarrow> SelectPanic)"

definition select_failover :: "'p proxy_group \<Rightarrow> 'p selection \<times> 'p proxy_group" where
  "select_failover g =
     (let idx = pg_activeIndex g
      in if idx < int (pg_len g) \<and> idx < 0 then (SelectPanic, g)
         else if idx \<ge> int (pg_len g) \<or> pg_proxies g ! nat idx = None then
           (case first_usable g of
              Some i \<Rightarrow> (select_at g i, g\<lparr>pg_activeIndex := i32 (int i)\<rparr>)
            | None \<Rightarrow> (NoValidProxies, g))
         else if pg_health g ! nat idx then (select_at g (nat idx), g)
         else
           (case first_usable g of
              Some i \<Rightarrow> (select_at g i, g\<lparr>pg_activeIndex := i32 (int i)\<rparr>)
            | None \<Rightarrow> (select_at g (nat idx), g)))"

text \<open>The attempts of the round robin; the index is a remainder of a 32-bit counter and may be
  negative.\<close>

fun rr_attempts :: "nat \<Rightarrow> 'p proxy_group \<Rightarrow> 'p selection option \<times> 'p proxy_group" where
  "rr_attempts 0 g = (None, g)"
| "rr_attempts (Suc k) g =
     (let g1 = g\<lparr>pg_current := i32 (pg_current g + 1)\<rparr>;
          idx = go_rem (i32 (pg_current g1 - 1)) (int (pg_len g))
      in if idx < 0 then (Some SelectPanic, g1)
         else if pg_proxies g ! nat idx \<noteq> None \<and> pg_health g ! nat idx
              then (Some (select_at g1 (nat idx)), g1)
         else rr_attempts k g1)"

definition select_round_robin :: "'p proxy_group \<Rightarrow> 'p selection \<times> 'p proxy_group" where
  "select_round_robin g =
     (case rr_attempts (pg_len g) g of
        (Some s, g1) \<Rightarrow> (s, g1)
      | (None, g1) \<Rightarrow>
          (case first_valid g1 of
             Some i \<Rightarrow> (case pg_proxies g1 ! i of
                          Some p \<Rightarrow> Selected p (go_rem (pg_current g1) (int (pg_len g1)))
                        | None \<Rightarrow> SelectPanic, g1)
           | None \<Rightarrow> (NoValidProxies, g1)))"

definition least_load_scan :: "'p proxy_group \<Rightarrow> int \<times> int" where
  "least_load_scan g =
     foldl (\<lambda>(minConns, selectedIdx) i.
              if pg_proxies g ! i = None \<or> \<not> pg_health g ! i then (minConns, selectedIdx)
              else
                let conns = pg_activeConns g ! i
                in if minConns < 0 \<or> conns < minConns then (conns, int i)
                   else (minConns, selectedIdx))
       (- 1, - 1) [0..<pg_len g]"

definition select_least_load :: "'p proxy_group \<Rightarrow> 'p selection \<times> 'p proxy_group" where
  "select_least_load g =
     (let selectedIdx = snd (least_load_scan g);
          idx = (if selectedIdx < 0
                 then (case first_valid g of Some i \<Rightarrow> int i | None \<Rightarrow> selectedIdx)
                 else selectedIdx)
      in if idx < 0 then (NoValidProxies, g) else (select_at g (nat idx), g))"

definition selectProxy :: "'p proxy_group \<Rightarrow> 'p selection \<times> 'p proxy_group" where
  "selectProxy g =
     (if pg_len g = 0 then (NoProxies, g)
      else case pg_policy g of
             Failover \<Rightarrow> select_failover g
           | RoundRobin \<Rightarrow> select_round_robin g
           | LeastLoad \<Rightarrow> select_least_load g
           | OtherPolicy _ \<Rightarrow>
               (case first_valid g of
                  Some i \<Rightarrow> (select_at g i, g)
                | None \<Rightarrow> (NoValidProxies, g)))"

subsection \<open>Connections\<close>

text \<open>A tracked connection: the wrapped connection (None for nil), the index of its counter, and its
  closed flag.\<close>

record 'c tracked_conn =
  tc_conn :: "'c option"
  tc_counter :: nat
  tc_closed :: bool

datatype ('e, 'c) group_result =
    GroupConn "'c tracked_conn"
  | GroupSelectError
  | GroupAllUnavailable
  | GroupDialError 'e
  | GroupPanic

definition add_conns :: "int \<Rightarrow> int \<Rightarrow> 'p proxy_group \<Rightarrow> 'p proxy_group option" where
  "add_conns idx d g =
     (if 0 \<le> idx \<and> idx < int (length (pg_activeConns g))
      then Some (g\<lparr>pg_activeConns := (pg_activeConns g)[nat idx := i32 (pg_activeConns g ! nat idx + d)]\<rparr>)
      else None)"

definition mark_unhealthy :: "int \<Rightarrow> 'p proxy_group \<Rightarrow> 'p proxy_group" where
  "mark_unhealthy idx g = g\<lparr>pg_health := (pg_health g)[nat idx := False]\<rparr>"

definition track :: "'c \<Rightarrow> int \<Rightarrow> 'c tracked_conn" where
  "track c idx = \<lparr>tc_conn = Some c, tc_counter = nat idx, tc_closed = False\<rparr>"

text \<open>\<open>trackedConn.Close\<close> and \<open>trackedPacketConn.Close\<close>; the flag says whether the wrapped connection is
  closed by this call.\<close>

definition tracked_Close ::
  "'c tracked_conn \<Rightarrow> 'p proxy_group \<Rightarrow> bool \<times> 'c tracked_conn \<times> 'p proxy_group" where
  "tracked_Close tc g =
     (if tc_closed tc then (False, tc, g)
      else
        let tc1 = tc\<lparr>tc_closed := True\<rparr>
        in if tc_conn tc = None then (False, tc1, g)
           else if \<not> pg_stopped g then
             (True, tc1, g\<lparr>pg_activeConns := (pg_activeConns g)
                [tc_counter tc := i32 (pg_activeConns g ! tc_counter tc - 1)]\<rparr>)
           else (True, tc1, g))"

text \<open>The fallback loop of the failover dial, over the remaining values of \<open>i\<close>; \<open>k\<close> counts dials.\<close>

fun failover_loop :: "(nat \<Rightarrow> 'p \<Rightarrow> 'e + 'c) \<Rightarrow> int \<Rightarrow> nat list \<Rightarrow> nat \<Rightarrow> 'p proxy_group
    \<Rightarrow> ('e, 'c) group_result \<times> 'p proxy_group" where
  "failover_loop dial idx [] k g = (GroupAllUnavailable, updateActiveIndex g)"
| "failover_loop dial idx (i # is) k g =
     (let fb = go_rem (idx + int i + 1) (int (pg_len g))
      in if \<not> pg_health g ! nat fb then failover_loop dial idx is k g
         else
           case pg_proxies g ! nat fb of
             None \<Rightarrow> (GroupPanic, g)
           | Some p \<Rightarrow>
               (case dial k p of
                  Inr c \<Rightarrow>
                    let g1 = g\<lparr>pg_activeIndex := i32 fb\<rparr>
                    in (case add_conns fb 1 g1 of
                          None \<Rightarrow> (GroupPanic, g1)
                        | Some g2 \<Rightarrow> (GroupConn (track c fb), g2))
                | Inl e \<Rightarrow> failover_loop dial idx is (Suc k) (mark_unhealthy fb g)))"

definition dial_counted :: "('p \<Rightarrow> 'e + 'c) \<Rightarrow> 'p \<Rightarrow> int \<Rightarrow> 'p proxy_group
    \<Rightarrow> ('e, 'c) group_result \<times> 'p proxy_group" where
  "dial_counted dial p idx g =
     (case add_conns idx 1 g of
        None \<Rightarrow> (GroupPanic, g)
      | Some g1 \<Rightarrow>
          (case dial p of
             Inr c \<Rightarrow> (GroupConn (track c idx), g1)
           | Inl e \<Rightarrow>
               (case add_conns idx (- 1) g1 of
                  None \<Rightarrow> (GroupPanic, g1)
                | Some g2 \<Rightarrow>
                    let g3 = mark_unhealthy idx g2
                    in (GroupDialError e,
                        if pg_policy g3 = Failover then updateActiveIndex g3 else g3))))"

definition Group_DialContext :: "(nat \<Rightarrow> 'p \<Rightarrow> 'e + 'c) \<Rightarrow> 'p proxy_group
    \<Rightarrow> ('e, 'c) group_result \<times> 'p proxy_group" where
  "Group_DialContext dial g =
     (case selectProxy g of
        (Selected p idx, g1) \<Rightarrow>
          if pg_policy g = Failover then
            (case dial 0 p of
               Inr c \<Rightarrow>
                 (case add_conns idx 1 g1 of
                    None \<Rightarrow> (GroupPanic, g1)
                  | Some g2 \<Rightarrow> (GroupConn (track c idx), g2))
             | Inl e \<Rightarrow>
                 failover_loop dial idx [0..<pg_len g1] 1 (mark_unhealthy idx g1))
          else dial_counted (dial 0) p idx g1
      | (SelectPanic, g1) \<Rightarrow> (GroupPanic, g1)
      | (_, g1) \<Rightarrow> (GroupSelectError, g1))"

definition Group_DialUDP :: "('p \<Rightarrow> 'e + 'c) \<Rightarrow> 'p proxy_group
    \<Rightarrow> ('e, 'c) group_result \<times> 'p proxy_group" where
  "Group_DialUDP dial g =
     (case selectProxy g of
        (Selected p idx, g1) \<Rightarrow> dial_counted dial p idx g1
      | (SelectPanic, g1) \<Rightarrow> (GroupPanic, g1)
      | (_, g1) \<Rightarrow> (GroupSelectError, g1))"

definition Group_Stop :: "'p proxy_group \<Rightarrow> 'p proxy_group" where
  "Group_Stop g = g\<lparr>pg_stopped := True\<rparr>"

definition Group_Addr :: "'p proxy_group \<Rightarrow> string" where
  "Group_Addr g = ''group:'' @ pg_name g"

definition GetHealthStatus :: "'p proxy_group \<Rightarrow> bool list" where
  "GetHealthStatus g = pg_health g"

definition GetActiveProxy :: "'p proxy_group \<Rightarrow> int" where
  "GetActiveProxy g = (if pg_policy g = Failover then pg_activeIndex g else - 1)"

definition GetProxyCount :: "'p proxy_group \<Rightarrow> nat" where
  "GetProxyCount g = pg_len g"

definition Group_GetStats :: "'p proxy_group \<Rightarrow> nat \<times> nat \<times> int list" where
  "Group_GetStats g = (pg_len g, length (filter id (pg_health g)), pg_activeConns g)"

subsection \<open>Well-formed groups\<close>

definition group_ok :: "'p proxy_group \<Rightarrow> bool" where
  "group_ok g \<longleftrightarrow> pg_proxies g \<noteq> [] \<and> list_all (\<lambda>p. p \<noteq> None) (pg_proxies g) \<and>
     length (pg_health g) = pg_len g \<and> length (pg_activeConns g) = pg_len g \<and>
     0 \<le> pg_activeIndex g \<and> pg_activeIndex g < int (pg_len g) \<and> pg_len g < 2 ^ 31"

text \<open>What selection leaves alone.\<close>

definition same_group :: "'p proxy_group \<Rightarrow> 'p proxy_group \<Rightarrow> bool" where
  "same_group g g' \<longleftrightarrow> pg_proxies g' = pg_proxies g \<and> pg_policy g' = pg_policy g \<and>
     pg_health g' = pg_health g \<and> pg_activeConns g' = pg_activeConns g \<and> pg_stopped g' = pg_stopped g"

lemma same_group_refl [simp]: "same_group g g"
  by (simp add: same_group_def)

lemma same_group_len: "same_group g g' \<Longrightarrow> pg_len g' = pg_len g"
  by (simp add: same_group_def pg_len_def)

lemma group_proxy: "group_ok g \<Longrightarrow> i < pg_len g \<Longrightarrow> \<exists>p. pg_proxies g ! i = Some p"
  by (auto simp: group_ok_def pg_len_def list_all_length)

lemma group_len_pos: "group_ok g \<Longrightarrow> 0 < pg_len g"
  by (simp add: group_ok_def pg_len_def)

lemma find_upt_Some: "find P [0..<n] = Some i \<Longrightarrow> i < n \<and> P i \<and> (\<forall>j < i. \<not> P j)"
  by (auto simp: find_Some_iff)

lemma first_usable_Some:
  assumes "first_usable g = Some i"
  shows "i < pg_len g" and "pg_proxies g ! i \<noteq> None" and "pg_health g ! i"
    and "\<forall>j < i. pg_proxies g ! j = None \<or> \<not> pg_health g ! j"
  using find_upt_Some [OF assms [unfolded first_usable_def]] by auto

lemma first_usable_None:
  "first_usable g = None \<Longrightarrow> \<forall>i < pg_len g. pg_proxies g ! i = None \<or> \<not> pg_health g ! i"
  by (auto simp: first_usable_def find_None_iff)

lemma first_valid_ok: "group_ok g \<Longrightarrow> first_valid g = Some 0"
  using group_len_pos [of g] group_proxy [of g 0]
  by (auto simp: first_valid_def upt_conv_Cons)

lemma select_at_ok: "group_ok g \<Longrightarrow> i < pg_len g \<Longrightarrow> \<exists>p. pg_proxies g ! i = Some p \<and> select_at g i = Selected p (int i)"
  using group_proxy [of g i] by (auto simp: select_at_def)

lemma i32_index [simp]: "group_ok g \<Longrightarrow> i < pg_len g \<Longrightarrow> i32 (int i) = int i"
  by (rule i32_id) (auto simp: group_ok_def)

lemma same_group_ok:
  assumes "group_ok g" and "same_group g g'" and "0 \<le> pg_activeIndex g'" and "pg_activeIndex g' < int (pg_len g)"
  shows "group_ok g'"
  using assms by (simp add: group_ok_def same_group_def pg_len_def)

lemma updateActiveIndex_ok:
  assumes g: "group_ok g"
  shows "group_ok (updateActiveIndex g)"
proof (cases "find (\<lambda>i. pg_health g ! i) [0..<pg_len g]")
  case None
  with g group_len_pos [OF g] show ?thesis
    by (simp add: updateActiveIndex_def group_ok_def pg_len_def)
next
  case (Some i)
  with find_upt_Some [OF Some] g show ?thesis
    by (simp add: updateActiveIndex_def) (simp add: group_ok_def pg_len_def)
qed

lemma updateActiveIndex_frame [simp]:
  "pg_activeConns (updateActiveIndex g) = pg_activeConns g" "pg_stopped (updateActiveIndex g) = pg_stopped g"
  "pg_len (updateActiveIndex g) = pg_len g" "pg_policy (updateActiveIndex g) = pg_policy g"
  by (simp_all add: updateActiveIndex_def pg_len_def split: option.split)

lemma rr_attempts_same: "rr_attempts k g = (s, g') \<Longrightarrow> same_group g g' \<and> pg_activeIndex g' = pg_activeIndex g"
proof (induction k arbitrary: g)
  case 0
  then show ?case by simp
next
  case (Suc k)
  let ?g1 = "g\<lparr>pg_current := i32 (pg_current g + 1)\<rparr>"
  have "same_group g ?g1" by (simp add: same_group_def)
  then show ?case
    using Suc.prems Suc.IH [of ?g1]
    by (auto simp: Let_def same_group_def split: if_splits)
qed

lemma selectProxy_same: "selectProxy g = (s, g') \<Longrightarrow> same_group g g'"
  by (auto simp: selectProxy_def select_failover_def select_round_robin_def select_least_load_def
      Let_def same_group_def dest: rr_attempts_same
      split: if_splits lb_policy.splits option.splits prod.splits)

lemma select_failover_cases:
  assumes "group_ok g" and "select_failover g = (s, g')"
  obtains i where "i < pg_len g" and "s = select_at g i" and "group_ok g'"
    and "pg_health g ! i \<or> (\<forall>j < pg_len g. \<not> pg_health g ! j)"
proof -
  let ?idx = "nat (pg_activeIndex g)"
  have idx: "?idx < pg_len g" "pg_activeIndex g = int ?idx" "pg_proxies g ! ?idx \<noteq> None"
    using assms(1) group_proxy [of g ?idx] by (auto simp: group_ok_def)
  show thesis
  proof (cases "pg_health g ! ?idx")
    case True
    then show thesis using that [of ?idx] assms idx by (auto simp: select_failover_def)
  next
    case False
    show thesis
    proof (cases "first_usable g")
      case None
      then have "\<forall>j < pg_len g. \<not> pg_health g ! j"
        using first_usable_None [OF None] group_proxy [OF assms(1)] by fastforce
      then show thesis
        using None that [of ?idx] assms idx False by (auto simp: select_failover_def)
    next
      case (Some i)
      note i = first_usable_Some(1,3) [OF Some]
      have "group_ok (g\<lparr>pg_activeIndex := int i\<rparr>)"
        using assms(1) i(1) by (simp add: group_ok_def pg_len_def)
      then show thesis
        using Some that [of i] assms idx False i by (auto simp: select_failover_def)
    qed
  qed
qed

lemma select_round_robin_ok:
  "group_ok g \<Longrightarrow> select_round_robin g = (s, g') \<Longrightarrow> group_ok g'"
  by (cases "rr_attempts (pg_len g) g")
    (auto simp: select_round_robin_def group_ok_def pg_len_def same_group_def dest!: rr_attempts_same
      split: option.splits)

lemma selectProxy_ok: "group_ok g \<Longrightarrow> selectProxy g = (s, g') \<Longrightarrow> group_ok g'"
  by (auto simp: selectProxy_def select_least_load_def Let_def
      elim: select_failover_cases dest: select_round_robin_ok
      split: if_splits lb_policy.splits option.splits)

subsection \<open>What a dial does to the counters\<close>

definition conns_below :: "int \<Rightarrow> 'p proxy_group \<Rightarrow> bool" where
  "conns_below b g \<longleftrightarrow> (\<forall>i < pg_len g. 0 \<le> pg_activeConns g ! i \<and> pg_activeConns g ! i < b)"

definition conn_effect :: "'p proxy_group \<Rightarrow> ('e, 'c) group_result \<Rightarrow> 'p proxy_group \<Rightarrow> bool" where
  "conn_effect g res g' \<longleftrightarrow> group_ok g' \<and> pg_len g' = pg_len g \<and> pg_stopped g' = pg_stopped g \<and>
     (case res of
        GroupConn tc \<Rightarrow>
          tc_counter tc < pg_len g \<and> \<not> tc_closed tc \<and> tc_conn tc \<noteq> None \<and>
          pg_activeConns g' =
            (pg_activeConns g)[tc_counter tc := pg_activeConns g ! tc_counter tc + 1]
      | _ \<Rightarrow> pg_activeConns g' = pg_activeConns g)"

lemma conn_effect_trans:
  assumes "same_group g g1" and "conn_effect g1 res g2"
  shows "conn_effect g res g2"
proof -
  have "pg_len g1 = pg_len g" "pg_stopped g1 = pg_stopped g" "pg_activeConns g1 = pg_activeConns g"
    using assms(1) by (simp_all add: same_group_def pg_len_def)
  with assms(2) show ?thesis by (auto simp: conn_effect_def split: group_result.splits)
qed

lemma mark_unhealthy_ok [simp]: "group_ok (mark_unhealthy i g) = group_ok g"
  by (simp add: group_ok_def mark_unhealthy_def pg_len_def)

lemma mark_unhealthy_frame [simp]:
  "pg_len (mark_unhealthy i g) = pg_len g" "pg_stopped (mark_unhealthy i g) = pg_stopped g"
  "pg_activeConns (mark_unhealthy i g) = pg_activeConns g" "pg_policy (mark_unhealthy i g) = pg_policy g"
  "pg_proxies (mark_unhealthy i g) = pg_proxies g"
  by (simp_all add: mark_unhealthy_def pg_len_def)

lemma conn_effect_mark [simp]: "conn_effect (mark_unhealthy i g) res g' = conn_effect g res g'"
  by (cases res) (simp_all add: conn_effect_def)

lemma add_conns_ok:
  assumes "group_ok g" and "conns_below (2 ^ 31 - 1) g" and "i < pg_len g"
  shows "add_conns (int i) 1 g = Some (g\<lparr>pg_activeConns := (pg_activeConns g)[i := pg_activeConns g ! i + 1]\<rparr>)"
  using assms by (simp add: add_conns_def group_ok_def conns_below_def)

lemma group_ok_conns [simp]:
  "length xs = length (pg_activeConns g) \<Longrightarrow> group_ok (g\<lparr>pg_activeConns := xs\<rparr>) = group_ok g"
  by (simp add: group_ok_def pg_len_def)

lemma pg_len_update [simp]: "pg_len (g\<lparr>pg_activeConns := x\<rparr>) = pg_len g"
  "pg_len (g\<lparr>pg_activeIndex := y\<rparr>) = pg_len g"
  by (simp_all add: pg_len_def)

lemma dial_counted_effect:
  assumes "group_ok g" and "conns_below (2 ^ 31 - 1) g" and "dial_counted dial p idx g = (res, g')"
  shows "conn_effect g res g'"
proof (cases "0 \<le> idx \<and> idx < int (pg_len g)")
  case False
  then have "add_conns idx 1 g = None" using assms(1) by (auto simp: add_conns_def group_ok_def)
  with assms show ?thesis by (auto simp: dial_counted_def conn_effect_def)
next
  case True
  then obtain i where i: "idx = int i" "i < pg_len g" by (metis nonneg_int_cases of_nat_less_iff)
  let ?g1 = "g\<lparr>pg_activeConns := (pg_activeConns g)[i := pg_activeConns g ! i + 1]\<rparr>"
  have len: "length (pg_activeConns g) = pg_len g" using assms(1) by (simp add: group_ok_def)
  have "i32 (pg_activeConns g ! i) = pg_activeConns g ! i"
    using assms(2) i(2) by (intro i32_id) (auto simp: conns_below_def intro: order_trans [of _ 0])
  then have restored: "add_conns (int i) (- 1) ?g1 = Some (?g1\<lparr>pg_activeConns := pg_activeConns g\<rparr>)"
    using i(2) len by (simp add: add_conns_def)
  have g2: "group_ok (?g1\<lparr>pg_activeConns := pg_activeConns g\<rparr>)"
    using assms(1) by (simp add: group_ok_def pg_len_def)
  show ?thesis
    using assms(1,3) add_conns_ok [OF assms(1,2) i(2)] restored g2 i len
    by (cases "dial p") (auto simp: dial_counted_def conn_effect_def track_def Let_def updateActiveIndex_ok
          split: if_splits)
qed

lemma fallback_index:
  assumes "group_ok g" and "0 \<le> idx"
  obtains j where "go_rem (idx + int i + 1) (int (pg_len g)) = int j" and "j < pg_len g"
    and "j = (nat idx + i + 1) mod pg_len g"
proof -
  have "go_rem (idx + int i + 1) (int (pg_len g)) = (idx + int i + 1) mod int (pg_len g)"
    using assms group_len_pos [OF assms(1)] by simp
  also have "\<dots> = int ((nat idx + i + 1) mod pg_len g)"
    using assms(2) by (simp add: zmod_int ac_simps)
  finally show thesis using that group_len_pos [OF assms(1)] by simp
qed

lemma failover_loop_effect:
  assumes "group_ok g" and "conns_below (2 ^ 31 - 1) g" and "0 \<le> idx"
    and "failover_loop dial idx is k g = (res, g')"
  shows "conn_effect g res g'"
  using assms
proof (induction dial idx "is" k g rule: failover_loop.induct)
  case (1 dial idx k g)
  then show ?case by (auto simp: conn_effect_def updateActiveIndex_ok)
next
  case (2 dial idx i "is" k g)
  obtain j where j: "go_rem (idx + int i + 1) (int (pg_len g)) = int j" "j < pg_len g"
    using fallback_index [OF "2.prems"(1,3)] by metis
  obtain p where p: "pg_proxies g ! j = Some p" using group_proxy [OF "2.prems"(1) j(2)] by blast
  show ?case
  proof (cases "pg_health g ! j")
    case False
    then show ?thesis using "2.IH"(1) [OF refl] "2.prems" j by simp
  next
    case True
    show ?thesis
    proof (cases "dial k p")
      case (Inl e)
      have "conn_effect (mark_unhealthy (int j) g) res g'"
        using "2.IH"(2) [OF refl _ _ Inl] "2.prems" j p True Inl
        by (simp add: conns_below_def)
      then show ?thesis by simp
    next
      case (Inr c)
      have act: "group_ok (g\<lparr>pg_activeIndex := int j\<rparr>)" "conns_below (2 ^ 31 - 1) (g\<lparr>pg_activeIndex := int j\<rparr>)"
        using "2.prems"(1,2) j(2) by (simp_all add: group_ok_def pg_len_def conns_below_def)
      show ?thesis
        using "2.prems"(1,4) j p True Inr add_conns_ok [OF act, of j] act(1)
        by (auto simp: conn_effect_def track_def)
    qed
  qed
qed

lemma DialContext_effect:
  assumes "group_ok g" and "conns_below (2 ^ 31 - 1) g" and "Group_DialContext dial g = (res, g')"
  shows "conn_effect g res g'"
proof (cases "selectProxy g")
  case (Pair s g1)
  have same: "same_group g g1" and ok: "group_ok g1"
    using selectProxy_same [OF Pair] selectProxy_ok [OF assms(1) Pair] by blast+
  have below: "conns_below (2 ^ 31 - 1) g1"
    using assms(2) same same_group_len [OF same] by (simp add: conns_below_def same_group_def)
  have "conn_effect g1 res g'"
  proof (cases s)
    case (Selected p idx)
    show ?thesis
    proof (cases "pg_policy g = Failover")
      case False
      with Selected Pair assms(3) have "dial_counted (dial 0) p idx g1 = (res, g')"
        by (simp add: Group_DialContext_def)
      then show ?thesis by (rule dial_counted_effect [OF ok below])
    next
      case True
      then have "select_failover g = (s, g1)"
        using Pair group_len_pos [OF assms(1)] by (simp add: selectProxy_def)
      then obtain i where i: "i < pg_len g" "idx = int i"
        using select_failover_cases [OF assms(1)] select_at_ok [OF assms(1)] Selected
        by (metis selection.inject(1))
      show ?thesis
      proof (cases "dial 0 p")
        case (Inr c)
        with add_conns_ok [OF ok below, of i] i same_group_len [OF same] assms(3) Pair Selected True ok
        show ?thesis by (auto simp: Group_DialContext_def conn_effect_def track_def)
      next
        case (Inl e)
        have "failover_loop dial idx [0..<pg_len g1] 1 (mark_unhealthy idx g1) = (res, g')"
          using Inl assms(3) Pair Selected True by (simp add: Group_DialContext_def)
        then have "conn_effect (mark_unhealthy idx g1) res g'"
          using ok below i(2) by (intro failover_loop_effect) (simp_all add: conns_below_def)
        then show ?thesis by simp
      qed
    qed
  qed (use assms(3) Pair ok in \<open>auto simp: Group_DialContext_def conn_effect_def\<close>)
  then show ?thesis by (rule conn_effect_trans [OF same])
qed

lemma DialUDP_effect:
  assumes "group_ok g" and "conns_below (2 ^ 31 - 1) g" and "Group_DialUDP dial g = (res, g')"
  shows "conn_effect g res g'"
proof (cases "selectProxy g")
  case (Pair s g1)
  have same: "same_group g g1" and ok: "group_ok g1"
    using selectProxy_same [OF Pair] selectProxy_ok [OF assms(1) Pair] by blast+
  have below: "conns_below (2 ^ 31 - 1) g1"
    using assms(2) same same_group_len [OF same] by (simp add: conns_below_def same_group_def)
  have "conn_effect g1 res g'"
  proof (cases s)
    case (Selected p idx)
    with assms(3) Pair show ?thesis
      by (intro dial_counted_effect [OF ok below]) (simp add: Group_DialUDP_def)
  qed (use assms(3) Pair ok in \<open>auto simp: Group_DialUDP_def conn_effect_def\<close>)
  then show ?thesis by (rule conn_effect_trans [OF same])
qed

subsection \<open>Runs of a group and its open connections\<close>

definition open_on :: "nat \<Rightarrow> 'c tracked_conn list \<Rightarrow> nat" where
  "open_on i cs = length (filter (\<lambda>tc. tc_counter tc = i \<and> \<not> tc_closed tc) cs)"

text \<open>The state of a run: the group and every connection it has handed out, open or closed.\<close>

inductive group_step :: "'p proxy_group \<times> 'c tracked_conn list \<Rightarrow> 'p proxy_group \<times> 'c tracked_conn list \<Rightarrow> bool"
  where
  tcp_ok: "length cs < 2 ^ 31 - 2 \<Longrightarrow> Group_DialContext (dial :: nat \<Rightarrow> 'p \<Rightarrow> string + 'c) g = (GroupConn tc, g')
     \<Longrightarrow> group_step (g, cs) (g', tc # cs)"
| tcp_fail: "length cs < 2 ^ 31 - 2 \<Longrightarrow> Group_DialContext (dial :: nat \<Rightarrow> 'p \<Rightarrow> string + 'c) g = (res, g')
     \<Longrightarrow> \<forall>tc. res \<noteq> GroupConn tc \<Longrightarrow> group_step (g, cs) (g', cs)"
| udp_ok: "length cs < 2 ^ 31 - 2 \<Longrightarrow> Group_DialUDP (udial :: 'p \<Rightarrow> string + 'c) g = (GroupConn tc, g')
     \<Longrightarrow> group_step (g, cs) (g', tc # cs)"
| udp_fail: "length cs < 2 ^ 31 - 2 \<Longrightarrow> Group_DialUDP (udial :: 'p \<Rightarrow> string + 'c) g = (res, g')
     \<Longrightarrow> \<forall>tc. res \<noteq> GroupConn tc \<Longrightarrow> group_step (g, cs) (g', cs)"
| close: "i < length cs \<Longrightarrow> tracked_Close (cs ! i) g = (b, tc', g') \<Longrightarrow> group_step (g, cs) (g', cs[i := tc'])"
| check: "group_step (g, cs) (checkAllProxies probe g, cs)"

definition counters_exact :: "'p proxy_group \<times> 'c tracked_conn list \<Rightarrow> bool" where
  "counters_exact s \<longleftrightarrow>
     (case s of (g, cs) \<Rightarrow> group_ok g \<and> \<not> pg_stopped g \<and> length cs < 2 ^ 31 - 1 \<and>
        list_all (\<lambda>tc. tc_counter tc < pg_len g \<and> tc_conn tc \<noteq> None) cs \<and>
        (\<forall>i < pg_len g. pg_activeConns g ! i = int (open_on i cs)))"

lemma open_on_le: "open_on i cs \<le> length cs"
  by (simp add: open_on_def)

lemma open_on_Cons: "open_on i (tc # cs) = (if tc_counter tc = i \<and> \<not> tc_closed tc then 1 else 0) + open_on i cs"
  by (simp add: open_on_def)

lemma open_on_close:
  assumes "i < length cs" and "\<not> tc_closed (cs ! i)"
  shows "open_on k cs = (if tc_counter (cs ! i) = k then 1 else 0) + open_on k (cs[i := (cs ! i)\<lparr>tc_closed := True\<rparr>])"
  using assms
proof (induction cs arbitrary: i)
  case Nil
  then show ?case by simp
next
  case (Cons c cs)
  then show ?case by (cases i) (auto simp: open_on_Cons)
qed

lemma counters_exact_below:
  assumes "counters_exact (g, cs)" and "length cs < 2 ^ 31 - 2"
  shows "group_ok g" and "conns_below (2 ^ 31 - 1) g"
proof -
  have "int (open_on i cs) < 2 ^ 31 - 1" for i using open_on_le [of i cs] assms(2) by simp
  then show "group_ok g" and "conns_below (2 ^ 31 - 1) g"
    using assms by (auto simp: counters_exact_def conns_below_def)
qed

lemma counters_exact_effect:
  assumes inv: "counters_exact (g, cs)" and few: "length cs < 2 ^ 31 - 2" and eff: "conn_effect g res g'"
  shows "case res of GroupConn tc \<Rightarrow> counters_exact (g', tc # cs) | _ \<Rightarrow> counters_exact (g', cs)"
  using assms
  by (auto simp: counters_exact_def conn_effect_def open_on_Cons nth_list_update group_ok_def
      split: group_result.split)

lemma counters_exact_close:
  assumes inv: "counters_exact (g, cs)" and i: "i < length cs" and c: "tracked_Close (cs ! i) g = (b, tc', g')"
  shows "counters_exact (g', cs[i := tc'])"
proof (cases "tc_closed (cs ! i)")
  case True
  then have "tc' = cs ! i" "g' = g" using c by (simp_all add: tracked_Close_def)
  then show ?thesis using inv by simp
next
  case False
  let ?j = "tc_counter (cs ! i)" and ?cs' = "cs[i := (cs ! i)\<lparr>tc_closed := True\<rparr>]"
  have tc: "tc_conn (cs ! i) \<noteq> None" "?j < pg_len g" and g: "group_ok g" "\<not> pg_stopped g"
    and n: "\<forall>k < pg_len g. pg_activeConns g ! k = int (open_on k cs)" "length cs < 2 ^ 31 - 1"
    using inv i by (auto simp: counters_exact_def list_all_length)
  have opens: "open_on k cs = (if ?j = k then 1 else 0) + open_on k ?cs'" for k
    by (rule open_on_close [OF i False])
  have "i32 (pg_activeConns g ! ?j - 1) = int (open_on ?j ?cs')"
    using n tc opens [of ?j] open_on_le [of ?j ?cs'] by simp
  moreover have "list_all (\<lambda>tc. tc_counter tc < pg_len g \<and> tc_conn tc \<noteq> None) ?cs'"
    using inv i by (auto simp: counters_exact_def list_all_length nth_list_update)
  ultimately show ?thesis
    using c False tc g n opens
    by (auto simp: tracked_Close_def Let_def counters_exact_def nth_list_update group_ok_def)
qed

lemma counters_exact_check:
  assumes "counters_exact (g, cs)"
  shows "counters_exact (checkAllProxies probe g, cs)"
proof -
  let ?g1 = "g\<lparr>pg_health := map probe [0..<pg_len g]\<rparr>"
  have "group_ok ?g1" "pg_len ?g1 = pg_len g"
    using assms by (simp_all add: counters_exact_def group_ok_def pg_len_def)
  with assms show ?thesis
    by (simp add: counters_exact_def checkAllProxies_def Let_def updateActiveIndex_ok)
qed

lemma NewProxyGroup_ok:
  "NewProxyGroup cfg = Some g \<Longrightarrow> length (gc_Proxies cfg) < 2 ^ 31 \<Longrightarrow> counters_exact (g, [])"
  by (auto simp: NewProxyGroup_def Let_def counters_exact_def group_ok_def pg_len_def open_on_def
      list_all_iff intro: le_less_trans [OF length_filter_le] split: if_splits)

lemma group_step_exact: "group_step s s' \<Longrightarrow> counters_exact s \<Longrightarrow> counters_exact s'"
proof (induction rule: group_step.induct)
  case (tcp_ok cs dial g tc g')
  note b = counters_exact_below [OF tcp_ok(3,1)]
  from counters_exact_effect [OF tcp_ok(3,1) DialContext_effect [OF b tcp_ok(2)]] show ?case by simp
next
  case (tcp_fail cs dial g res g')
  note b = counters_exact_below [OF tcp_fail(4,1)]
  from counters_exact_effect [OF tcp_fail(4,1) DialContext_effect [OF b tcp_fail(2)]] tcp_fail(3)
  show ?case by (simp split: group_result.splits)
next
  case (udp_ok cs udial g tc g')
  note b = counters_exact_below [OF udp_ok(3,1)]
  from counters_exact_effect [OF udp_ok(3,1) DialUDP_effect [OF b udp_ok(2)]] show ?case by simp
next
  case (udp_fail cs udial g res g')
  note b = counters_exact_below [OF udp_fail(4,1)]
  from counters_exact_effect [OF udp_fail(4,1) DialUDP_effect [OF b udp_fail(2)]] udp_fail(3)
  show ?case by (simp split: group_result.splits)
next
  case (close i cs g b tc' g')
  then show ?case using counters_exact_close by blast
next
  case (check g cs probe)
  then show ?case by (rule counters_exact_check)
qed

interpretation groupsys: invariant_system
  "\<lambda>s. \<exists>cfg g. NewProxyGroup cfg = Some g \<and> length (gc_Proxies cfg) < 2 ^ 31 \<and> s = (g, [])"
  group_step counters_exact
  by unfold_locales (auto intro: NewProxyGroup_ok group_step_exact)

subsection \<open>Selection by each policy\<close>

lemma failover_loop_succeeds:
  assumes "group_ok g" and "conns_below (2 ^ 31 - 1) g" and "0 \<le> idx"
    and "i \<in> set is" and "j = (nat idx + i + 1) mod pg_len g"
    and "pg_health g ! j" and "pg_proxies g ! j = Some p" and "d p = Inr c"
  shows "\<exists>q c' g' k'. failover_loop (\<lambda>_. d) idx is k g = (GroupConn (track c' (int k')), g') \<and>
           pg_proxies g ! k' = Some q \<and> d q = Inr c'"
  using assms
proof (induction "is" arbitrary: k g)
  case Nil
  then show ?case by simp
next
  case (Cons i0 "is")
  obtain j0 where j0: "go_rem (idx + int i0 + 1) (int (pg_len g)) = int j0" "j0 < pg_len g"
    "j0 = (nat idx + i0 + 1) mod pg_len g"
    using fallback_index [OF Cons.prems(1,3)] by metis
  obtain q where q: "pg_proxies g ! j0 = Some q" using group_proxy [OF Cons.prems(1) j0(2)] by blast
  have act: "group_ok (g\<lparr>pg_activeIndex := int j0\<rparr>)" "conns_below (2 ^ 31 - 1) (g\<lparr>pg_activeIndex := int j0\<rparr>)"
    using Cons.prems(1,2) j0(2) by (simp_all add: group_ok_def pg_len_def conns_below_def)
  show ?case
  proof (cases "pg_health g ! j0")
    case False
    then have "i \<in> set is" using Cons.prems(4-6) j0(3) by auto
    with Cons.IH [OF Cons.prems(1,2,3) this Cons.prems(5-8), of k] False j0 show ?thesis by simp
  next
    case healthy: True
    show ?thesis
    proof (cases "d q")
      case (Inr c')
      then show ?thesis
        using add_conns_ok [OF act, of j0] healthy j0 q Cons.prems(1)
        by (auto simp: track_def)
    next
      case (Inl e)
      let ?g = "mark_unhealthy (int j0) g"
      have "j \<noteq> j0" using Inl q Cons.prems(7,8) by auto
      then have "i \<in> set is" "pg_health ?g ! j"
        using Cons.prems(4-6) j0(3) by (auto simp: mark_unhealthy_def)
      then show ?thesis
        using Cons.IH [of ?g "Suc k"] Cons.prems healthy j0 q Inl
        by (simp add: conns_below_def)
    qed
  qed
qed

lemma mod_shift_hits:
  assumes "a < n" and "b < n"
  obtains k where "k < n" and "b = (a + k + 1) mod (n :: nat)"
proof (cases "a < b")
  case True
  with assms that [of "b - a - 1"] show thesis by simp
next
  case False
  with assms have "(a + (n - 1 - (a - b)) + 1) mod n = (n + b) mod n"
    by (simp add: Suc_diff_Suc)
  with assms False that [of "n - 1 - (a - b)"] show thesis by simp
qed

definition usable :: "'p proxy_group \<Rightarrow> nat \<Rightarrow> bool" where
  "usable g i \<longleftrightarrow> pg_proxies g ! i \<noteq> None \<and> pg_health g ! i"

lemma usable_healthy: "group_ok g \<Longrightarrow> i < pg_len g \<Longrightarrow> usable g i = pg_health g ! i"
  using group_proxy [of g i] by (auto simp: usable_def)

text \<open>The scan of the least-load policy over the first \<open>n\<close> proxies.\<close>

definition ll_scan :: "'p proxy_group \<Rightarrow> nat \<Rightarrow> int \<times> int" where
  "ll_scan g n =
     foldl (\<lambda>(minConns, selectedIdx) i.
              if pg_proxies g ! i = None \<or> \<not> pg_health g ! i then (minConns, selectedIdx)
              else
                let conns = pg_activeConns g ! i
                in if minConns < 0 \<or> conns < minConns then (conns, int i)
                   else (minConns, selectedIdx))
       (- 1, - 1) [0..<n]"

lemma ll_scan_spec:
  assumes "\<forall>i < n. 0 \<le> pg_activeConns g ! i"
  shows "(ll_scan g n = (- 1, - 1) \<and> (\<forall>i < n. \<not> usable g i)) \<or>
         (\<exists>i < n. ll_scan g n = (pg_activeConns g ! i, int i) \<and> usable g i \<and>
            (\<forall>j < n. usable g j \<longrightarrow> pg_activeConns g ! i \<le> pg_activeConns g ! j))"
  using assms
proof (induction n)
  case 0
  then show ?case by (simp add: ll_scan_def)
next
  case (Suc n)
  have step: "ll_scan g (Suc n) =
      (if \<not> usable g n then ll_scan g n
       else if fst (ll_scan g n) < 0 \<or> pg_activeConns g ! n < fst (ll_scan g n)
            then (pg_activeConns g ! n, int n) else ll_scan g n)"
    by (simp add: ll_scan_def usable_def case_prod_unfold Let_def)
  have pos: "0 \<le> pg_activeConns g ! i" if "i < n" for i using Suc.prems that by simp
  from Suc.IH Suc.prems consider
      (none) "ll_scan g n = (- 1, - 1)" "\<forall>i < n. \<not> usable g i"
    | (some) i where "i < n" "ll_scan g n = (pg_activeConns g ! i, int i)" "usable g i"
        "\<forall>j < n. usable g j \<longrightarrow> pg_activeConns g ! i \<le> pg_activeConns g ! j"
    by fastforce
  then show ?case
  proof cases
    case none
    then show ?thesis using step by (auto simp: less_Suc_eq)
  next
    case some
    show ?thesis
    proof (cases "usable g n \<and> pg_activeConns g ! n < pg_activeConns g ! i")
      case True
      then have "ll_scan g (Suc n) = (pg_activeConns g ! n, int n)" using step some by simp
      with True some show ?thesis by (intro disjI2 exI [of _ n]) (auto simp: less_Suc_eq)
    next
      case False
      then have "ll_scan g (Suc n) = (pg_activeConns g ! i, int i)"
        using step some pos [OF some(1)] by auto
      with False some show ?thesis by (intro disjI2 exI [of _ i]) (auto simp: less_Suc_eq)
    qed
  qed
qed

lemma rr_current [simp]: "0 \<le> c \<Longrightarrow> c + 1 < 2 ^ 31 \<Longrightarrow> i32 (i32 (c + 1) - 1) = c" "0 \<le> c \<Longrightarrow> c + 1 < 2 ^ 31 \<Longrightarrow> i32 (c + 1) = c + 1"
  by simp_all

lemma rr_attempts_unhealthy:
  assumes "group_ok g" and "\<forall>j < pg_len g. \<not> pg_health g ! j"
    and "0 \<le> pg_current g" and "pg_current g + int k < 2 ^ 31"
  shows "rr_attempts k g = (None, g\<lparr>pg_current := pg_current g + int k\<rparr>)"
  using assms
proof (induction k arbitrary: g)
  case 0
  then show ?case by simp
next
  case (Suc k)
  let ?g1 = "g\<lparr>pg_current := pg_current g + 1\<rparr>"
  have "nat (pg_current g mod int (pg_len g)) < pg_len g" "\<not> pg_current g mod int (pg_len g) < 0"
    using group_len_pos [OF Suc.prems(1)] by (simp_all add: nat_less_iff not_less)
  moreover have "group_ok ?g1" "pg_len ?g1 = pg_len g"
    using Suc.prems(1) by (simp_all add: group_ok_def pg_len_def)
  ultimately show ?case
    using Suc.IH [of ?g1] Suc.prems group_len_pos [OF Suc.prems(1)] by (simp add: Let_def ac_simps)
qed

lemma select_round_robin_healthy:
  assumes "group_ok g" and "list_all id (pg_health g)"
    and "0 \<le> pg_current g" and "pg_current g + 1 < 2 ^ 31"
  shows "select_round_robin g =
    (select_at g (nat (pg_current g mod int (pg_len g))), g\<lparr>pg_current := pg_current g + 1\<rparr>)"
proof -
  let ?i = "nat (pg_current g mod int (pg_len g))"
  have i: "?i < pg_len g" using group_len_pos [OF assms(1)] by (simp add: nat_less_iff)
  then have "pg_health g ! ?i" "pg_proxies g ! ?i \<noteq> None"
    using assms(1,2) group_proxy [OF assms(1) i] by (auto simp: group_ok_def list_all_length)
  moreover have "select_at (g\<lparr>pg_current := c\<rparr>) k = select_at g k" for c k
    by (simp add: select_at_def)
  moreover have "\<not> pg_current g mod int (pg_len g) < 0"
    using group_len_pos [OF assms(1)] by (simp add: not_less)
  moreover obtain n where "pg_len g = Suc n" using group_len_pos [OF assms(1)] gr0_implies_Suc by blast
  ultimately show ?thesis
    using assms(3,4) by (simp add: select_round_robin_def Let_def)
qed

text \<open>The indices chosen by \<open>k\<close> selections in a row.\<close>

fun select_run :: "nat \<Rightarrow> 'p proxy_group \<Rightarrow> int list" where
  "select_run 0 g = []"
| "select_run (Suc k) g =
     (case selectProxy g of
        (Selected p idx, g1) \<Rightarrow> idx # select_run k g1
      | (_, g1) \<Rightarrow> select_run k g1)"

lemma select_run_round_robin:
  assumes "group_ok g" and "pg_policy g = RoundRobin" and "list_all id (pg_health g)"
    and "0 \<le> pg_current g" and "pg_current g + int k < 2 ^ 31"
  shows "select_run k g = map (\<lambda>j. (pg_current g + int j) mod int (pg_len g)) [0..<k]"
  using assms
proof (induction k arbitrary: g)
  case 0
  then show ?case by simp
next
  case (Suc k)
  let ?g1 = "g\<lparr>pg_current := pg_current g + 1\<rparr>"
  let ?i = "pg_current g mod int (pg_len g)"
  have i: "nat ?i < pg_len g" "0 \<le> ?i"
    using group_len_pos [OF Suc.prems(1)] by (simp_all add: nat_less_iff)
  obtain p where "select_at g (nat ?i) = Selected p ?i"
    using select_at_ok [OF Suc.prems(1) i(1)] i(2) by auto
  then have sel: "selectProxy g = (Selected p ?i, ?g1)"
    using select_round_robin_healthy [OF Suc.prems(1,3,4)] Suc.prems group_len_pos [OF Suc.prems(1)]
    by (simp add: selectProxy_def)
  have "group_ok ?g1" "pg_len ?g1 = pg_len g"
    using Suc.prems(1) by (simp_all add: group_ok_def pg_len_def)
  then have "select_run k ?g1 = map (\<lambda>j. (pg_current g + int (Suc j)) mod int (pg_len g)) [0..<k]"
    using Suc.IH [of ?g1] Suc.prems by (simp add: ac_simps)
  then show ?case
    using sel by (simp add: upt_conv_Cons map_Suc_upt [symmetric] comp_def del: upt_Suc)
qed

subsection \<open>Properties\<close>


definition example_group_config :: "lb_policy \<Rightarrow> nat group_config" where
  "example_group_config pol = \<lparr>gc_Name = ''g'', gc_Proxies = [Some 1, None, Some 2, Some 3], gc_Policy = pol,
     gc_CheckInterval = 0, gc_CheckTimeout = 0, gc_CheckURL = []\<rparr>"

definition example_group :: "lb_policy \<Rightarrow> nat proxy_group" where
  "example_group pol = \<lparr>pg_proxies = [Some 1, Some 2, Some 3], pg_policy = pol, pg_current = 0,
     pg_name = ''g'', pg_stopped = False, pg_checkInterval = 30 * second, pg_checkTimeout = 5 * second,
     pg_checkURL = [], pg_health = [False, False, False], pg_activeIndex = 0, pg_activeConns = [0, 0, 0]\<rparr>"

lemma example_group_new: "NewProxyGroup (example_group_config pol) = Some (example_group pol)"
  by (simp add: NewProxyGroup_def example_group_config_def example_group_def)

lemma example_group_ok [simp]:
  "group_ok (example_group pol)" "pg_len (example_group pol) = 3"
  by (simp_all add: group_ok_def pg_len_def example_group_def)


text \<open>C20. Under the failover policy a dial fails only when every healthy proxy refuses: if some healthy
  proxy accepts, the dial returns a connection, and it is one that a proxy of the group accepted and
  whose counter is that proxy's.\<close>

theorem failover_finds_accepting_proxy:
  assumes "group_ok g" and "conns_below (2 ^ 31 - 1) g" and "pg_policy g = Failover"
    and "i < pg_len g" and "pg_health g ! i" and "pg_proxies g ! i = Some p" and "d p = Inr c"
  shows "\<exists>q c' k g'. Group_DialContext (\<lambda>_. d) g = (GroupConn (track c' (int k)), g') \<and>
           pg_proxies g ! k = Some q \<and> d q = Inr c'"
proof -
  obtain s g1 where sel: "selectProxy g = (s, g1)" by fastforce
  then have fo: "select_failover g = (s, g1)"
    using assms(3) group_len_pos [OF assms(1)] by (simp add: selectProxy_def)
  obtain i0 p0 where s: "i0 < pg_len g" "s = Selected p0 (int i0)" "pg_proxies g ! i0 = Some p0"
    using select_failover_cases [OF assms(1) fo] select_at_ok [OF assms(1)] by metis
  have same: "same_group g g1" and ok: "group_ok g1"
    using selectProxy_same [OF sel] selectProxy_ok [OF assms(1) sel] by blast+
  have below: "conns_below (2 ^ 31 - 1) g1" and len: "pg_len g1 = pg_len g"
    using assms(2) same same_group_len [OF same] by (simp_all add: conns_below_def same_group_def)
  show ?thesis
  proof (cases "d p0")
    case (Inr c0)
    with add_conns_ok [OF ok below, of i0] s len sel assms(3) show ?thesis
      by (auto simp: Group_DialContext_def)
  next
    case (Inl e)
    let ?g = "mark_unhealthy (int i0) g1"
    have "i \<noteq> i0" using Inl s(3) assms(6,7) by auto
    then have "pg_health ?g ! i" "pg_proxies ?g ! i = Some p"
      using assms(5,6) same by (simp_all add: mark_unhealthy_def same_group_def)
    moreover obtain k where "k < pg_len g" "i = (i0 + k + 1) mod pg_len g"
      using mod_shift_hits [OF s(1) assms(4)] by blast
    ultimately obtain q c' g' k' where
      "failover_loop (\<lambda>_. d) (int i0) [0..<pg_len g1] 1 ?g = (GroupConn (track c' (int k')), g')"
      "pg_proxies ?g ! k' = Some q" "d q = Inr c'"
      using failover_loop_succeeds [of ?g "int i0" k "[0..<pg_len g1]" i p d c 1] ok below len assms(7)
      by (auto simp: conns_below_def)
    then show ?thesis
      using Inl s sel assms(3) same by (auto simp: Group_DialContext_def same_group_def)
  qed
qed

theorem failover_finds_accepting_proxy_witness:
  "\<exists>q c' k g'. Group_DialContext (\<lambda>_ p. if p = 3 then Inr ''conn'' else Inl ''refused'')
      ((example_group Failover)\<lparr>pg_health := [True, True, True]\<rparr>) =
      (GroupConn (track c' (int k)) :: (string, string) group_result, g') \<and>
    pg_proxies ((example_group Failover)\<lparr>pg_health := [True, True, True]\<rparr>) ! k = Some q \<and>
    (if q = 3 then Inr ''conn'' else Inl ''refused'') = Inr c'"
  by (rule failover_finds_accepting_proxy [where i = 2 and p = 3])
    (auto simp: group_ok_def pg_len_def example_group_def conns_below_def less_Suc_eq numeral_3_eq_3)

text \<open>The least-load policy selects a healthy proxy, and none of the healthy ones has fewer active
  connections.\<close>

theorem least_load_is_minimal:
  assumes "group_ok g" and "pg_policy g = LeastLoad" and "conns_below (2 ^ 31) g"
    and "j < pg_len g" and "pg_health g ! j"
  shows "\<exists>i p. selectProxy g = (Selected p (int i), g) \<and> i < pg_len g \<and> pg_health g ! i \<and>
           pg_proxies g ! i = Some p \<and>
           (\<forall>k < pg_len g. pg_health g ! k \<longrightarrow> pg_activeConns g ! i \<le> pg_activeConns g ! k)"
proof -
  have "\<forall>i < pg_len g. 0 \<le> pg_activeConns g ! i" using assms(3) by (simp add: conns_below_def)
  from ll_scan_spec [OF this] assms(4,5) usable_healthy [OF assms(1)]
  obtain i where i: "i < pg_len g" "ll_scan g (pg_len g) = (pg_activeConns g ! i, int i)" "pg_health g ! i"
    "\<forall>k < pg_len g. pg_health g ! k \<longrightarrow> pg_activeConns g ! i \<le> pg_activeConns g ! k"
    by blast
  moreover have "least_load_scan g = ll_scan g (pg_len g)"
    by (simp add: least_load_scan_def ll_scan_def)
  moreover obtain p where "pg_proxies g ! i = Some p" "select_at g i = Selected p (int i)"
    using select_at_ok [OF assms(1) i(1)] by blast
  ultimately show ?thesis
    using assms(2) group_len_pos [OF assms(1)]
    by (auto simp: selectProxy_def select_least_load_def)
qed

theorem least_load_is_minimal_witness:
  "\<exists>i p. selectProxy ((example_group LeastLoad)\<lparr>pg_health := [True, True, True], pg_activeConns := [4, 2, 3]\<rparr>) =
     (Selected p (int i), (example_group LeastLoad)\<lparr>pg_health := [True, True, True], pg_activeConns := [4, 2, 3]\<rparr>)"
  using least_load_is_minimal [of "(example_group LeastLoad)\<lparr>pg_health := [True, True, True], pg_activeConns := [4, 2, 3]\<rparr>" 0]
  by (auto simp: group_ok_def pg_len_def example_group_def conns_below_def less_Suc_eq numeral_3_eq_3)

text \<open>While all proxies are healthy and the counter has not overflowed, as many round-robin
  selections in a row as there are proxies choose each proxy exactly once.\<close>

theorem round_robin_visits_each_once:
  assumes "group_ok g" and "pg_policy g = RoundRobin" and "list_all id (pg_health g)"
    and "0 \<le> pg_current g" and "pg_current g + int (pg_len g) < 2 ^ 31"
  shows "distinct (select_run (pg_len g) g) \<and> set (select_run (pg_len g) g) = {0..<int (pg_len g)}"
proof -
  let ?f = "\<lambda>j. (pg_current g + int j) mod int (pg_len g)"
  have run: "select_run (pg_len g) g = map ?f [0..<pg_len g]"
    by (rule select_run_round_robin [OF assms])
  have inj: "inj_on ?f {0..<pg_len g}"
    by (rule mod_window_inj_on [OF group_len_pos [OF assms(1)]])
  have "?f ` {0..<pg_len g} = {0..<int (pg_len g)}"
    by (rule mod_window_image [OF group_len_pos [OF assms(1)]])
  with run inj show ?thesis by (simp add: distinct_map)
qed

theorem round_robin_visits_each_once_witness:
  "set (select_run 3 ((example_group RoundRobin)\<lparr>pg_health := [True, True, True], pg_current := 7\<rparr>)) = {0..<3}"
proof -
  let ?g = "(example_group RoundRobin)\<lparr>pg_health := [True, True, True], pg_current := 7\<rparr>"
  have "group_ok ?g" "pg_policy ?g = RoundRobin" "list_all id (pg_health ?g)" "pg_len ?g = 3" "pg_current ?g = 7"
    by (simp_all add: group_ok_def pg_len_def example_group_def)
  with round_robin_visits_each_once [of ?g] show ?thesis by (simp del: select_run.simps)
qed

text \<open>The round-robin counter is a signed 32-bit integer.  The selection that follows its overflow
  takes the remainder of a negative number and indexes the proxies with it, which panics unless the
  number of proxies divides 2 to the 31.\<close>

theorem round_robin_overflow_panics:
  assumes "group_ok g" and "pg_policy g = RoundRobin" and "pg_current g = i32 (2 ^ 31 - 1 + 1)"
    and "\<not> int (pg_len g) dvd 2 ^ 31"
  shows "fst (selectProxy g) = SelectPanic"
proof -
  have cur: "pg_current g = - (2 ^ 31)"
    using assms(3) i32_wrap by simp
  have "go_rem (- (2 ^ 31)) (int (pg_len g)) = - ((2 ^ 31) mod int (pg_len g))"
    using go_rem_neg [of "- (2 ^ 31)" "int (pg_len g)"] group_len_pos [OF assms(1)] by simp
  moreover have "0 < (2 ^ 31) mod int (pg_len g)"
    using assms(4) group_len_pos [OF assms(1)]
    by (metis dvd_eq_mod_eq_0 of_nat_0_less_iff order_le_less pos_mod_sign)
  ultimately have "go_rem (- (2 ^ 31)) (int (pg_len g)) < 0" by simp
  moreover obtain n where "pg_len g = Suc n" using group_len_pos [OF assms(1)] gr0_implies_Suc by blast
  ultimately show ?thesis
    using assms(2) cur by (simp add: selectProxy_def select_round_robin_def Let_def)
qed

theorem round_robin_overflow_panics_witness:
  "fst (selectProxy ((example_group RoundRobin)\<lparr>pg_current := i32 (2 ^ 31 - 1 + 1)\<rparr>)) = SelectPanic"
  by (rule round_robin_overflow_panics)
    (auto simp: group_ok_def pg_len_def example_group_def)

text \<open>When no proxy is healthy the round robin returns the first proxy together with the index of
  another one: the dial then counts its connections, and its failures, against a proxy that was not
  called.\<close>

theorem round_robin_fallback_index:
  assumes "group_ok g" and "pg_policy g = RoundRobin" and "\<forall>j < pg_len g. \<not> pg_health g ! j"
    and "0 \<le> pg_current g" and "pg_current g + int (pg_len g) < 2 ^ 31"
  shows "fst (selectProxy g) = Selected (the (pg_proxies g ! 0)) (pg_current g mod int (pg_len g))"
proof -
  let ?g1 = "g\<lparr>pg_current := pg_current g + int (pg_len g)\<rparr>"
  have at: "rr_attempts (pg_len g) g = (None, ?g1)"
    by (rule rr_attempts_unhealthy [OF assms(1,3,4,5)])
  have ok: "group_ok ?g1" "pg_len ?g1 = pg_len g"
    using assms(1) by (simp_all add: group_ok_def pg_len_def)
  obtain p where "pg_proxies g ! 0 = Some p" using group_proxy [OF assms(1) group_len_pos [OF assms(1)]] ..
  then show ?thesis
    using at ok first_valid_ok [OF ok(1)] assms(2,4) group_len_pos [OF assms(1)]
    by (simp add: selectProxy_def select_round_robin_def)
qed

theorem round_robin_fallback_index_witness:
  "fst (selectProxy ((example_group RoundRobin)\<lparr>pg_current := 1\<rparr>)) = Selected 1 1"
  using round_robin_fallback_index [of "(example_group RoundRobin)\<lparr>pg_current := 1\<rparr>"]
  by (simp add: group_ok_def pg_len_def example_group_def less_Suc_eq numeral_3_eq_3)

end
