(* ===== verification/WanBalancer.thy ===== *)
theory WanBalancer
  imports Prelude "HOL-Library.Multiset"
begin

text \<open>
  Multi-WAN balancing: \<^verbatim>\<open>wanbalancer/balancer.go\<close> (uplinks, selection by each policy, health checks,
  changes of the uplink list), \<^verbatim>\<open>wanbalancer/proxy.go\<close> (the dialer) and \<^verbatim>\<open>wanbalancer/metrics.go\<close>.

  Uplinks are objects that the balancer, its callers and the connections share by pointer.  The
  model has an explicit store: \<open>bl_heap\<close> holds the objects, a pointer is a position in it, and
  \<open>bl_uplinks\<close> is the list of pointers.  The outcome of a health probe and the dial of a proxy are
  parameters, and so is the sort of the standard library, whose order of equal elements is open.
\<close>

subsection \<open>Uplinks\<close>

definition UplinkUp :: int where "UplinkUp = 1"
definition UplinkDown :: int where "UplinkDown = 0"
definition UplinkDegraded :: int where "UplinkDegraded = 2"

definition uplink_status_string :: "int \<Rightarrow> string" where
  "uplink_status_string s =
     (if s = UplinkUp then ''up'' else if s = UplinkDown then ''down''
      else if s = UplinkDegraded then ''degraded'' else ''unknown'')"

record health_check =
  hc_Enabled :: bool
  hc_Interval :: duration
  hc_Timeout :: duration
  hc_Target :: string
  hc_FailThreshold :: int
  hc_PassThreshold :: int

definition DefaultHealthCheckConfig :: health_check where
  "DefaultHealthCheckConfig = \<lparr>hc_Enabled = True, hc_Interval = 10 * second, hc_Timeout = 5 * second,
     hc_Target = ''8.8.8.8:53'', hc_FailThreshold = 3, hc_PassThreshold = 2\<rparr>"

record uplink =
  u_Tag :: string
  u_Weight :: int
  u_Priority :: int
  u_HealthCheck :: "health_check option"
  u_status :: int
  u_activeConns :: int
  u_totalConns :: int
  u_totalBytesRx :: int
  u_totalBytesTx :: int
  u_lastLatency :: int
  u_failCount :: int

definition SetStatus :: "int \<Rightarrow> uplink \<Rightarrow> uplink" where
  "SetStatus s u = u\<lparr>u_status := i32 s\<rparr>"

definition IsActive :: "uplink \<Rightarrow> bool" where
  "IsActive u \<longleftrightarrow> u_status u = UplinkUp \<or> u_status u = UplinkDegraded"

definition IncActiveConns :: "uplink \<Rightarrow> uplink" where
  "IncActiveConns u = u\<lparr>u_activeConns := i64 (u_activeConns u + 1), u_totalConns := i64 (u_totalConns u + 1)\<rparr>"

definition DecActiveConns :: "uplink \<Rightarrow> uplink" where
  "DecActiveConns u = u\<lparr>u_activeConns := i64 (u_activeConns u - 1)\<rparr>"

definition SetLastLatency :: "duration \<Rightarrow> uplink \<Rightarrow> uplink" where
  "SetLastLatency l u = u\<lparr>u_lastLatency := l\<rparr>"

definition AddBytesRx :: "int \<Rightarrow> uplink \<Rightarrow> uplink" where
  "AddBytesRx n u = u\<lparr>u_totalBytesRx := i64 (u_totalBytesRx u + n)\<rparr>"

definition AddBytesTx :: "int \<Rightarrow> uplink \<Rightarrow> uplink" where
  "AddBytesTx n u = u\<lparr>u_totalBytesTx := i64 (u_totalBytesTx u + n)\<rparr>"

subsection \<open>The balancer\<close>

record balancer =
  bl_heap :: "uplink list"
  bl_uplinks :: "nat list"
  bl_policy :: string
  bl_healthCheck :: health_check
  bl_currentIndex :: "32 word"

datatype wan_error = ErrNoUplinks | ErrAllUplinksDown | ErrUplinkNotFound

definition new_uplink :: "uplink \<Rightarrow> uplink" where
  "new_uplink u = SetStatus UplinkUp
     \<lparr>u_Tag = u_Tag u, u_Weight = u_Weight u, u_Priority = u_Priority u, u_HealthCheck = u_HealthCheck u,
      u_status = 0, u_activeConns = 0, u_totalConns = 0, u_totalBytesRx = 0, u_totalBytesTx = 0,
      u_lastLatency = 0, u_failCount = 0\<rparr>"

definition NewBalancer :: "uplink list \<Rightarrow> string \<Rightarrow> health_check option \<Rightarrow> wan_error + balancer" where
  "NewBalancer uplinks policy0 hc =
     (if length uplinks = 0 then Inl ErrNoUplinks
      else Inr \<lparr>bl_heap = map new_uplink uplinks, bl_uplinks = [0..<length uplinks],
             bl_policy = (if policy0 = [] then ''round-robin'' else policy0),
             bl_healthCheck = (case hc of None \<Rightarrow> DefaultHealthCheckConfig | Some h \<Rightarrow> h),
             bl_currentIndex = 0\<rparr>)"

definition upd :: "nat \<Rightarrow> (uplink \<Rightarrow> uplink) \<Rightarrow> balancer \<Rightarrow> balancer" where
  "upd p f b = b\<lparr>bl_heap := (bl_heap b)[p := f (bl_heap b ! p)]\<rparr>"

definition getActiveUplinks :: "balancer \<Rightarrow> nat list" where
  "getActiveUplinks b = filter (\<lambda>p. IsActive (bl_heap b ! p)) (bl_uplinks b)"

definition selectRoundRobin :: "nat list \<Rightarrow> balancer \<Rightarrow> nat \<times> balancer" where
  "selectRoundRobin ups b =
     (if length ups = 1 then (ups ! 0, b)
      else
        let b1 = b\<lparr>bl_currentIndex := bl_currentIndex b + 1\<rparr>;
            idx = bl_currentIndex b1 - 1
        in (ups ! unat (idx mod of_nat (length ups)), b1))"

definition eff_weight :: "uplink \<Rightarrow> int" where
  "eff_weight u = (if u_Weight u \<le> 0 then 1 else u_Weight u)"

fun pick_weighted :: "(nat \<Rightarrow> int) \<Rightarrow> int \<Rightarrow> int \<Rightarrow> nat \<Rightarrow> nat list \<Rightarrow> nat" where
  "pick_weighted w weightedIdx current dflt [] = dflt"
| "pick_weighted w weightedIdx current dflt (p # ps) =
     (let current1 = i64 (current + w p)
      in if weightedIdx < current1 then p else pick_weighted w weightedIdx current1 dflt ps)"

text \<open>A total weight of zero, possible only after an overflow of the sum, is a division by zero.\<close>

definition selectWeighted :: "nat list \<Rightarrow> balancer \<Rightarrow> nat option \<times> balancer" where
  "selectWeighted ups b =
     (if length ups = 1 then (Some (ups ! 0), b)
      else
        let w = (\<lambda>p. eff_weight (bl_heap b ! p));
            totalWeight = foldl (\<lambda>t p. i64 (t + w p)) 0 ups;
            b1 = b\<lparr>bl_currentIndex := bl_currentIndex b + 1\<rparr>;
            idx = bl_currentIndex b1 - 1
        in if totalWeight = 0 then (None, b1)
           else let weightedIdx = go_rem (uint idx) totalWeight
                in (Some (pick_weighted w weightedIdx 0 (ups ! 0) ups), b1))"

text \<open>Scan for the first element with the least key, the start value -1 meaning none yet.\<close>

definition min_scan :: "('a \<Rightarrow> int) \<Rightarrow> 'a list \<Rightarrow> int \<times> 'a option" where
  "min_scan f xs =
     foldl (\<lambda>(m, s) x. if m < 0 \<or> f x < m then (f x, Some x) else (m, s)) (- 1, None) xs"

definition selectLeastConn :: "nat list \<Rightarrow> balancer \<Rightarrow> nat option" where
  "selectLeastConn ups b =
     (if length ups = 1 then Some (ups ! 0)
      else snd (min_scan (\<lambda>p. u_activeConns (bl_heap b ! p)) ups))"

definition latency_scan :: "nat list \<Rightarrow> balancer \<Rightarrow> int \<times> nat option" where
  "latency_scan ups b =
     foldl (\<lambda>(m, s) p.
              let latency = u_lastLatency (bl_heap b ! p)
              in if m < 0 \<or> (latency > 0 \<and> latency < m) then (latency, Some p) else (m, s))
       (- 1, None) ups"

definition selectLeastLatency :: "nat list \<Rightarrow> balancer \<Rightarrow> nat option" where
  "selectLeastLatency ups b =
     (if length ups = 1 then Some (ups ! 0)
      else case snd (latency_scan ups b) of
             None \<Rightarrow> selectLeastConn ups b
           | Some p \<Rightarrow> Some p)"

definition selectFailover :: "((nat \<Rightarrow> int) \<Rightarrow> nat list \<Rightarrow> nat list) \<Rightarrow> nat list \<Rightarrow> balancer \<Rightarrow> nat" where
  "selectFailover sortSlice ups b =
     (if length ups = 1 then ups ! 0
      else sortSlice (\<lambda>p. u_Priority (bl_heap b ! p)) ups ! 0)"

text \<open>The result None is a nil uplink or a panic of the selection.\<close>

definition SelectUplink :: "((nat \<Rightarrow> int) \<Rightarrow> nat list \<Rightarrow> nat list) \<Rightarrow> balancer
    \<Rightarrow> (wan_error + nat option) \<times> balancer" where
  "SelectUplink sortSlice b =
     (let active = getActiveUplinks b
      in if length active = 0 then (Inl ErrAllUplinksDown, b)
         else if bl_policy b = ''round-robin'' then
           (case selectRoundRobin active b of (p, b1) \<Rightarrow> (Inr (Some p), b1))
         else if bl_policy b = ''weighted'' then
           (case selectWeighted active b of (p, b1) \<Rightarrow> (Inr p, b1))
         else if bl_policy b = ''least-conn'' then (Inr (selectLeastConn active b), b)
         else if bl_policy b = ''least-latency'' then (Inr (selectLeastLatency active b), b)
         else if bl_policy b = ''failover'' then (Inr (Some (selectFailover sortSlice active b)), b)
         else (case selectRoundRobin active b of (p, b1) \<Rightarrow> (Inr (Some p), b1)))"

definition GetUplinkByTag :: "string \<Rightarrow> balancer \<Rightarrow> wan_error + nat" where
  "GetUplinkByTag tag b =
     (case find (\<lambda>p. u_Tag (bl_heap b ! p) = tag) (bl_uplinks b) of
        Some p \<Rightarrow> Inr p
      | None \<Rightarrow> Inl ErrUplinkNotFound)"

definition check_uplink :: "bool \<Rightarrow> uplink \<Rightarrow> uplink" where
  "check_uplink failed u =
     (case u_HealthCheck u of
        None \<Rightarrow> u
      | Some hc \<Rightarrow>
          if \<not> hc_Enabled hc then u
          else if failed then
            let u1 = u\<lparr>u_failCount := i32 (u_failCount u + 1)\<rparr>
            in if u_failCount u1 \<ge> i32 (hc_FailThreshold hc) then SetStatus UplinkDown u1 else u1
          else SetStatus UplinkUp (u\<lparr>u_failCount := 0\<rparr>))"

text \<open>One round of health checks; \<open>failed p\<close> is the outcome of the probe of uplink \<open>p\<close>.\<close>

definition performHealthCheck :: "(nat \<Rightarrow> bool) \<Rightarrow> balancer \<Rightarrow> balancer" where
  "performHealthCheck failed b = fold (\<lambda>p. upd p (check_uplink (failed p))) (bl_uplinks b) b"

definition AddUplink :: "uplink \<Rightarrow> balancer \<Rightarrow> balancer" where
  "AddUplink u b = b\<lparr>bl_heap := bl_heap b @ [u], bl_uplinks := bl_uplinks b @ [length (bl_heap b)]\<rparr>"

definition RemoveUplink :: "string \<Rightarrow> balancer \<Rightarrow> wan_error option \<times> balancer" where
  "RemoveUplink tag b =
     (case GetUplinkByTag tag b of
        Inl e \<Rightarrow> (Some e, b)
      | Inr p \<Rightarrow> (None, b\<lparr>bl_uplinks := remove1 p (bl_uplinks b)\<rparr>))"

definition UpdateUplinkWeight :: "string \<Rightarrow> int \<Rightarrow> balancer \<Rightarrow> wan_error option \<times> balancer" where
  "UpdateUplinkWeight tag weight b =
     (case GetUplinkByTag tag b of
        Inl e \<Rightarrow> (Some e, b)
      | Inr p \<Rightarrow> (None, upd p (\<lambda>u. u\<lparr>u_Weight := weight\<rparr>) b))"

record balancer_stats =
  bst_Policy :: string
  bst_TotalUplinks :: nat
  bst_ActiveUplinks :: nat
  bst_Uplinks :: "uplink list"

definition Balancer_GetStats :: "balancer \<Rightarrow> balancer_stats" where
  "Balancer_GetStats b = \<lparr>bst_Policy = bl_policy b, bst_TotalUplinks = length (bl_uplinks b),
     bst_ActiveUplinks = length (filter (\<lambda>p. IsActive (bl_heap b ! p)) (bl_uplinks b)),
     bst_Uplinks = map (\<lambda>p. bl_heap b ! p) (bl_uplinks b)\<rparr>"

subsection \<open>Metrics\<close>

record wan_metrics =
  m_connSuccess :: "64 word"
  m_connFailure :: "64 word"
  m_connTimeout :: "64 word"
  m_bytesRx :: "64 word"
  m_bytesTx :: "64 word"
  m_latencySum :: "64 word"
  m_latencyCount :: "64 word"
  m_latencyMin :: "64 word"
  m_latencyMax :: "64 word"
  m_uplinkSwitches :: "64 word"
  m_healthChecksTotal :: "64 word"
  m_healthChecksFailed :: "64 word"
  m_startTime :: instant

definition NewMetricsCollector :: "instant \<Rightarrow> wan_metrics" where
  "NewMetricsCollector now = \<lparr>m_connSuccess = 0, m_connFailure = 0, m_connTimeout = 0, m_bytesRx = 0,
     m_bytesTx = 0, m_latencySum = 0, m_latencyCount = 0, m_latencyMin = 0, m_latencyMax = 0,
     m_uplinkSwitches = 0, m_healthChecksTotal = 0, m_healthChecksFailed = 0, m_startTime = now\<rparr>"

definition RecordConnection :: "bool \<Rightarrow> bool \<Rightarrow> wan_metrics \<Rightarrow> wan_metrics" where
  "RecordConnection success timeout m =
     (if success then m\<lparr>m_connSuccess := m_connSuccess m + 1\<rparr>
      else
        let m1 = m\<lparr>m_connFailure := m_connFailure m + 1\<rparr>
        in if timeout then m1\<lparr>m_connTimeout := m_connTimeout m1 + 1\<rparr> else m1)"

definition RecordTraffic :: "64 word \<Rightarrow> 64 word \<Rightarrow> wan_metrics \<Rightarrow> wan_metrics" where
  "RecordTraffic rx tx m = m\<lparr>m_bytesRx := m_bytesRx m + rx, m_bytesTx := m_bytesTx m + tx\<rparr>"

definition RecordLatency :: "duration \<Rightarrow> wan_metrics \<Rightarrow> wan_metrics" where
  "RecordLatency latency m =
     (let ns = (of_int latency :: 64 word);
          m1 = m\<lparr>m_latencySum := m_latencySum m + ns, m_latencyCount := m_latencyCount m + 1\<rparr>;
          m2 = (if m_latencyMin m1 \<noteq> 0 \<and> ns \<ge> m_latencyMin m1 then m1 else m1\<lparr>m_latencyMin := ns\<rparr>)
      in if ns \<le> m_latencyMax m2 then m2 else m2\<lparr>m_latencyMax := ns\<rparr>)"

definition RecordUplinkSwitch :: "wan_metrics \<Rightarrow> wan_metrics" where
  "RecordUplinkSwitch m = m\<lparr>m_uplinkSwitches := m_uplinkSwitches m + 1\<rparr>"

definition RecordHealthCheck :: "bool \<Rightarrow> wan_metrics \<Rightarrow> wan_metrics" where
  "RecordHealthCheck failed m =
     (let m1 = m\<lparr>m_healthChecksTotal := m_healthChecksTotal m + 1\<rparr>
      in if failed then m1\<lparr>m_healthChecksFailed := m_healthChecksFailed m1 + 1\<rparr> else m1)"

definition GetLatencyStats :: "wan_metrics \<Rightarrow> 64 word \<times> 64 word \<times> 64 word" where
  "GetLatencyStats m =
     (if m_latencyCount m = 0 then (0, 0, 0)
      else (m_latencySum m div m_latencyCount m, m_latencyMin m, m_latencyMax m))"

definition Metrics_Reset :: "wan_metrics \<Rightarrow> wan_metrics" where
  "Metrics_Reset m = m\<lparr>m_connSuccess := 0, m_connFailure := 0, m_connTimeout := 0, m_bytesRx := 0,
     m_bytesTx := 0, m_latencySum := 0, m_latencyCount := 0, m_latencyMin := 0, m_latencyMax := 0,
     m_uplinkSwitches := 0, m_healthChecksTotal := 0, m_healthChecksFailed := 0\<rparr>"

subsection \<open>The dialer\<close>

record 'p wan_dialer =
  wd_balancer :: balancer
  wd_proxies :: "string \<rightharpoonup> 'p option"
  wd_metrics :: wan_metrics

datatype ('e, 'c) wan_result =
    WanConn 'c
  | WanPacketConn 'c nat
  | WanSelectError wan_error
  | WanProxyNotFound
  | WanDialError 'e
  | WanPanic

definition failed_dial :: "balancer \<Rightarrow> 'p wan_dialer \<Rightarrow> 'p wan_dialer" where
  "failed_dial b w = w\<lparr>wd_balancer := b, wd_metrics := RecordConnection False False (wd_metrics w)\<rparr>"

definition wan_DialContext :: "((nat \<Rightarrow> int) \<Rightarrow> nat list \<Rightarrow> nat list) \<Rightarrow> ('p \<Rightarrow> 'e + 'c) \<Rightarrow> 'p wan_dialer
    \<Rightarrow> ('e, 'c) wan_result \<times> 'p wan_dialer" where
  "wan_DialContext sortSlice dial w =
     (case SelectUplink sortSlice (wd_balancer w) of
        (Inl e, b1) \<Rightarrow> (WanSelectError e, failed_dial b1 w)
      | (Inr None, b1) \<Rightarrow> (WanPanic, w\<lparr>wd_balancer := b1\<rparr>)
      | (Inr (Some u), b1) \<Rightarrow>
          (case wd_proxies w (u_Tag (bl_heap b1 ! u)) of
             Some (Some p) \<Rightarrow>
               let b2 = upd u IncActiveConns b1
               in (case dial p of
                     Inl e \<Rightarrow> (WanDialError e, failed_dial (upd u DecActiveConns b2) w)
                   | Inr c \<Rightarrow>
                       (WanConn c, w\<lparr>wd_balancer := upd u DecActiveConns b2,
                                     wd_metrics := RecordConnection True False (wd_metrics w)\<rparr>))
           | _ \<Rightarrow> (WanProxyNotFound, failed_dial b1 w)))"

definition wan_DialUDP :: "((nat \<Rightarrow> int) \<Rightarrow> nat list \<Rightarrow> nat list) \<Rightarrow> ('p \<Rightarrow> 'e + 'c) \<Rightarrow> 'p wan_dialer
    \<Rightarrow> ('e, 'c) wan_result \<times> 'p wan_dialer" where
  "wan_DialUDP sortSlice dial w =
     (case SelectUplink sortSlice (wd_balancer w) of
        (Inl e, b1) \<Rightarrow> (WanSelectError e, failed_dial b1 w)
      | (Inr None, b1) \<Rightarrow> (WanPanic, w\<lparr>wd_balancer := b1\<rparr>)
      | (Inr (Some u), b1) \<Rightarrow>
          (case wd_proxies w (u_Tag (bl_heap b1 ! u)) of
             Some (Some p) \<Rightarrow>
               let b2 = upd u IncActiveConns b1
               in (case dial p of
                     Inl e \<Rightarrow> (WanDialError e, failed_dial (upd u DecActiveConns b2) w)
                   | Inr c \<Rightarrow>
                       (WanPacketConn c u, w\<lparr>wd_balancer := b2,
                                             wd_metrics := RecordConnection True False (wd_metrics w)\<rparr>))
           | _ \<Rightarrow> (WanProxyNotFound, failed_dial b1 w)))"

text \<open>The wrapper of a UDP connection on uplink \<open>u\<close>: reads, writes and close.\<close>

definition wan_ReadFrom :: "nat \<Rightarrow> int \<Rightarrow> 'p wan_dialer \<Rightarrow> 'p wan_dialer" where
  "wan_ReadFrom u n w =
     (if n > 0 then w\<lparr>wd_balancer := upd u (AddBytesRx n) (wd_balancer w),
                      wd_metrics := RecordTraffic (of_int n) 0 (wd_metrics w)\<rparr>
      else w)"

definition wan_WriteTo :: "nat \<Rightarrow> int \<Rightarrow> 'p wan_dialer \<Rightarrow> 'p wan_dialer" where
  "wan_WriteTo u n w =
     (if n > 0 then w\<lparr>wd_balancer := upd u (AddBytesTx n) (wd_balancer w),
                      wd_metrics := RecordTraffic 0 (of_int n) (wd_metrics w)\<rparr>
      else w)"

definition wan_Close :: "nat \<Rightarrow> 'p wan_dialer \<Rightarrow> 'p wan_dialer" where
  "wan_Close u w = w\<lparr>wd_balancer := upd u DecActiveConns (wd_balancer w)\<rparr>"

subsection \<open>The sort of the standard library\<close>

locale slice_sort =
  fixes sorter :: "('a \<Rightarrow> int) \<Rightarrow> 'a list \<Rightarrow> 'a list"
  assumes sorter_perm: "mset (sorter key xs) = mset xs"
    and sorter_sorted: "sorted (map key (sorter key xs))"
begin

lemma sorter_set [simp]: "set (sorter key xs) = set xs"
  by (metis sorter_perm set_mset_mset)

lemma first_is_least:
  assumes "xs \<noteq> []"
  shows "sorter key xs ! 0 \<in> set xs" and "\<forall>y \<in> set xs. key (sorter key xs ! 0) \<le> key y"
proof -
  have "sorter key xs \<noteq> []" using assms by (metis set_empty sorter_set)
  then obtain z zs where zs: "sorter key xs = z # zs" by (meson neq_Nil_conv)
  then show "sorter key xs ! 0 \<in> set xs" using sorter_set [of key xs] by auto
  have "\<forall>y \<in> set (z # zs). key z \<le> key y" using sorter_sorted [of key xs] zs by auto
  moreover have "set xs = set (z # zs)" by (metis sorter_set zs)
  ultimately show "\<forall>y \<in> set xs. key (sorter key xs ! 0) \<le> key y" by (simp add: zs)
qed

end

interpretation sort_key_sorts: slice_sort "\<lambda>key xs. sort_key key xs"
  by unfold_locales simp_all

subsection \<open>Selection\<close>

lemma min_scan_snoc:
  "min_scan f (xs @ [x]) =
     (if fst (min_scan f xs) < 0 \<or> f x < fst (min_scan f xs) then (f x, Some x) else min_scan f xs)"
  by (simp add: min_scan_def case_prod_unfold)

lemma min_scan_least:
  assumes "xs \<noteq> []" and "\<forall>x \<in> set xs. 0 \<le> f x"
  shows "\<exists>x \<in> set xs. min_scan f xs = (f x, Some x) \<and> (\<forall>y \<in> set xs. f x \<le> f y)"
  using assms
proof (induction xs rule: rev_induct)
  case Nil
  then show ?case by simp
next
  case (snoc x xs)
  show ?case
  proof (cases "xs = []")
    case True
    then show ?thesis by (simp add: min_scan_def)
  next
    case False
    then obtain z where "z \<in> set xs" "min_scan f xs = (f z, Some z)" "\<forall>y \<in> set xs. f z \<le> f y"
      using snoc by auto
    then show ?thesis using snoc.prems by (auto simp: min_scan_snoc)
  qed
qed

lemma min_scan_some: "xs \<noteq> [] \<Longrightarrow> \<exists>x \<in> set xs. snd (min_scan f xs) = Some x"
proof (induction xs rule: rev_induct)
  case Nil
  then show ?case by simp
next
  case (snoc x xs)
  show ?case
  proof (cases "xs = []")
    case True
    then show ?thesis by (simp add: min_scan_def)
  next
    case False
    with snoc.IH show ?thesis by (auto simp: min_scan_snoc)
  qed
qed

lemma latency_scan_some: "ups \<noteq> [] \<Longrightarrow> \<exists>p \<in> set ups. snd (latency_scan ups b) = Some p"
proof (induction ups rule: rev_induct)
  case Nil
  then show ?case by simp
next
  case (snoc x xs)
  then show ?case by (cases "xs = []") (auto simp: latency_scan_def case_prod_unfold Let_def)
qed

lemma selectLeastConn_some: "ups \<noteq> [] \<Longrightarrow> \<exists>p \<in> set ups. selectLeastConn ups b = Some p"
  using min_scan_some by (auto simp: selectLeastConn_def)

lemma selectLeastLatency_some: "ups \<noteq> [] \<Longrightarrow> \<exists>p \<in> set ups. selectLeastLatency ups b = Some p"
  using latency_scan_some [of ups b] by (auto simp: selectLeastLatency_def)

lemma selectRoundRobin_mem:
  assumes "ups \<noteq> []" and "length ups < 2 ^ 32"
  shows "fst (selectRoundRobin ups b) \<in> set ups"
proof -
  have "unat (x mod of_nat (length ups) :: 32 word) < length ups" for x :: "32 word"
    using assms by (simp add: unat_mod_distrib unat_of_nat)
  then show ?thesis using assms(1) by (auto simp: selectRoundRobin_def Let_def)
qed

lemma pick_weighted_mem: "pick_weighted w x c d ps \<in> insert d (set ps)"
  by (induction ps arbitrary: c) (auto simp: Let_def)

lemma eff_weight_pos: "0 < eff_weight u"
  by (simp add: eff_weight_def)

abbreviation weight_at :: "balancer \<Rightarrow> nat \<Rightarrow> int" where
  "weight_at b p \<equiv> eff_weight (bl_heap b ! p)"

lemma total_weight:
  assumes "0 \<le> c" and "c + sum_list (map (weight_at b) ps) < 2 ^ 63"
  shows "foldl (\<lambda>t p. i64 (t + weight_at b p)) c ps = c + sum_list (map (weight_at b) ps)"
  using assms
proof (induction ps arbitrary: c)
  case Nil
  then show ?case by simp
next
  case (Cons p ps)
  have "0 \<le> sum_list (map (weight_at b) ps)"
    by (rule sum_list_nonneg) (auto intro: less_imp_le eff_weight_pos)
  then have "i64 (c + weight_at b p) = c + weight_at b p"
    using Cons.prems eff_weight_pos [of "bl_heap b ! p"] by (intro i64_id) auto
  then show ?case
    using Cons.IH [of "c + weight_at b p"] Cons.prems eff_weight_pos [of "bl_heap b ! p"] by simp
qed

lemma weights_pos: "ps \<noteq> [] \<Longrightarrow> 0 < sum_list (map (weight_at b) ps)"
proof (induction ps)
  case Nil
  then show ?case by simp
next
  case (Cons p ps)
  then show ?case using eff_weight_pos [of "bl_heap b ! p"] by (cases "ps = []") auto
qed

lemma selectWeighted_mem:
  assumes "ups \<noteq> []" and "sum_list (map (weight_at b) ups) < 2 ^ 63"
  shows "\<exists>p \<in> set ups. fst (selectWeighted ups b) = Some p"
proof -
  have "ups ! 0 \<in> set ups" using assms(1) by simp
  then have "pick_weighted (weight_at b) x 0 (ups ! 0) ups \<in> set ups" for x
    using pick_weighted_mem [of "weight_at b" x 0 "ups ! 0" ups] by auto
  then show ?thesis
    using total_weight [of 0 b ups] assms weights_pos [OF assms(1), of b]
    by (auto simp: selectWeighted_def Let_def)
qed

lemma weights_of_filter:
  "sum_list (map (weight_at b) (filter P ps)) \<le> sum_list (map (weight_at b) ps)"
  by (induction ps) (auto intro: add_increasing less_imp_le eff_weight_pos)

text \<open>The weighted index picks position \<open>p\<close> for exactly \<open>w p\<close> of its values.\<close>

lemma pick_weighted_range:
  assumes "\<forall>q \<in> set ps. 0 < w q" and "0 \<le> c" and "c + sum_list (map w ps) < 2 ^ 63"
    and "x < c + sum_list (map w ps)" and "ps \<noteq> []"
  shows "pick_weighted w x c d ps \<in> set ps"
  using assms
proof (induction ps arbitrary: c)
  case Nil
  then show ?case by simp
next
  case (Cons p ps)
  have "0 \<le> sum_list (map w ps)" by (rule sum_list_nonneg) (use Cons.prems(1) in \<open>auto intro: less_imp_le\<close>)
  then have c1: "i64 (c + w p) = c + w p" using Cons.prems by (intro i64_id) auto
  show ?case
  proof (cases "ps = []")
    case True
    then show ?thesis using Cons.prems c1 by simp
  next
    case False
    then show ?thesis using Cons.IH [of "c + w p"] Cons.prems c1 by (auto simp: Let_def)
  qed
qed

lemma pick_weighted_card:
  assumes "\<forall>q \<in> set ps. 0 < w q" and "0 \<le> c" and "c + sum_list (map w ps) < 2 ^ 63"
    and "distinct ps" and "p \<in> set ps"
  shows "card {x. c \<le> x \<and> x < c + sum_list (map w ps) \<and> pick_weighted w x c d ps = p} = nat (w p)"
  using assms
proof (induction ps arbitrary: c)
  case Nil
  then show ?case by simp
next
  case (Cons p0 ps)
  let ?s = "sum_list (map w ps)" and ?c = "c + w p0"
  have s: "0 \<le> ?s" by (rule sum_list_nonneg) (use Cons.prems(1) in \<open>auto intro: less_imp_le\<close>)
  then have c1: "i64 (c + w p0) = ?c" using Cons.prems by (intro i64_id) auto
  let ?here = "{x. c \<le> x \<and> x < ?c \<and> p0 = p}"
  let ?rest = "{x. ?c \<le> x \<and> x < ?c + ?s \<and> pick_weighted w x ?c d ps = p}"
  have split: "{x. c \<le> x \<and> x < c + sum_list (map w (p0 # ps)) \<and> pick_weighted w x c d (p0 # ps) = p} =
      ?here \<union> ?rest"
    using c1 s Cons.prems(1) by (auto simp: Let_def)
  have fin: "finite ?here" "finite ?rest"
    by (rule finite_subset [of _ "{c..<?c}"], auto) (rule finite_subset [of _ "{?c..<?c + ?s}"], auto)
  have card: "card (?here \<union> ?rest) = card ?here + card ?rest"
    by (rule card_Un_disjoint [OF fin]) auto
  show ?case
  proof (cases "p = p0")
    case True
    have "?rest = {}"
    proof (rule ccontr)
      assume "?rest \<noteq> {}"
      then obtain x where x: "?c \<le> x" "x < ?c + ?s" "pick_weighted w x ?c d ps = p" by auto
      then have "ps \<noteq> []" by auto
      then have "p \<in> set ps"
        using pick_weighted_range [of ps w ?c x d] x Cons.prems(1,2,3) by auto
      then show False using True Cons.prems(4) by simp
    qed
    then have rest: "card ?rest = 0" by (simp only: card.empty)
    have "?here = {c..<?c}" using True by auto
    then have "card ?here = nat (w p)" using True by (simp only: card_atLeastLessThan_int)
    then show ?thesis unfolding split card rest by simp
  next
    case False
    then have here: "card ?here = 0" by simp
    have rest: "card ?rest = nat (w p)"
      using False Cons.prems by (intro Cons.IH) (auto simp: less_imp_le add_nonneg_nonneg)
    show ?thesis unfolding split card here rest by simp
  qed
qed

text \<open>A run of \<open>k\<close> weighted selections.\<close>

fun weighted_run :: "nat \<Rightarrow> nat list \<Rightarrow> balancer \<Rightarrow> nat option list" where
  "weighted_run 0 ups b = []"
| "weighted_run (Suc k) ups b = (case selectWeighted ups b of (p, b1) \<Rightarrow> p # weighted_run k ups b1)"

lemma weighted_run_map:
  assumes "2 \<le> length ups" and "sum_list (map (weight_at b) ups) < 2 ^ 63"
    and "uint (bl_currentIndex b) + int k < 2 ^ 32"
  shows "weighted_run k ups b =
    map (\<lambda>j. Some (pick_weighted (weight_at b)
          ((uint (bl_currentIndex b) + int j) mod sum_list (map (weight_at b) ups)) 0 (ups ! 0) ups)) [0..<k]"
  using assms
proof (induction k arbitrary: b)
  case 0
  then show ?case by simp
next
  case (Suc k)
  let ?T = "sum_list (map (weight_at b) ups)" and ?c = "uint (bl_currentIndex b)"
  let ?b1 = "b\<lparr>bl_currentIndex := bl_currentIndex b + 1\<rparr>"
  have "ups \<noteq> []" using Suc.prems(1) by auto
  then have T: "0 < ?T" by (rule weights_pos)
  have sel: "selectWeighted ups b = (Some (pick_weighted (weight_at b) (?c mod ?T) 0 (ups ! 0) ups), ?b1)"
    using Suc.prems T total_weight [of 0 b ups] by (auto simp: selectWeighted_def Let_def)
  have c1: "uint (bl_currentIndex ?b1) = ?c + 1"
    using Suc.prems(3) by (simp add: uint_plus_if_size word_size)
  have "weighted_run k ups ?b1 = map (\<lambda>j. Some (pick_weighted (weight_at b)
          ((?c + int (Suc j)) mod ?T) 0 (ups ! 0) ups)) [0..<k]"
    using Suc.IH [of ?b1] Suc.prems c1 by (simp add: ac_simps)
  then show ?case
    using sel by (simp add: upt_conv_Cons map_Suc_upt [symmetric] comp_def del: upt_Suc)
qed

subsection \<open>Properties\<close>

definition example_uplink :: "string \<Rightarrow> int \<Rightarrow> int \<Rightarrow> uplink" where
  "example_uplink tag weight prio = \<lparr>u_Tag = tag, u_Weight = weight, u_Priority = prio,
     u_HealthCheck = Some DefaultHealthCheckConfig, u_status = 0, u_activeConns = 0, u_totalConns = 0,
     u_totalBytesRx = 0, u_totalBytesTx = 0, u_lastLatency = 0, u_failCount = 0\<rparr>"

definition example_balancer :: "string \<Rightarrow> balancer" where
  "example_balancer pol = \<lparr>bl_heap = map new_uplink [example_uplink ''a'' 3 20, example_uplink ''b'' 1 10],
     bl_uplinks = [0, 1], bl_policy = pol, bl_healthCheck = DefaultHealthCheckConfig, bl_currentIndex = 5\<rparr>"

lemmas example_wan = example_balancer_def example_uplink_def new_uplink_def SetStatus_def UplinkUp_def
  eff_weight_def IsActive_def

text \<open>\<open>SelectUplink\<close> reports an error exactly when no uplink is active, and otherwise returns an
  active uplink of the balancer, whatever the policy.\<close>

theorem selected_uplink_is_active:
  assumes "slice_sort sorter" and "length (bl_uplinks b) < 2 ^ 32"
    and "sum_list (map (weight_at b) (bl_uplinks b)) < 2 ^ 63"
  shows "(if \<exists>p \<in> set (bl_uplinks b). IsActive (bl_heap b ! p)
          then \<exists>p \<in> set (bl_uplinks b). fst (SelectUplink sorter b) = Inr (Some p) \<and> IsActive (bl_heap b ! p)
          else SelectUplink sorter b = (Inl ErrAllUplinksDown, b))"
proof (cases "getActiveUplinks b = []")
  case True
  then have "\<not> (\<exists>p \<in> set (bl_uplinks b). IsActive (bl_heap b ! p))"
    by (simp add: getActiveUplinks_def filter_empty_conv)
  then show ?thesis using True by (simp add: SelectUplink_def)
next
  case False
  let ?a = "getActiveUplinks b"
  have len: "length ?a < 2 ^ 32"
    using assms(2) le_less_trans [OF length_filter_le] unfolding getActiveUplinks_def by blast
  have wt: "sum_list (map (weight_at b) ?a) < 2 ^ 63"
    using assms(3) weights_of_filter le_less_trans unfolding getActiveUplinks_def by blast
  have fo: "selectFailover sorter ?a b \<in> set ?a"
    using slice_sort.first_is_least(1) [OF assms(1) False] False by (simp add: selectFailover_def)
  have "\<exists>p \<in> set ?a. fst (SelectUplink sorter b) = Inr (Some p)"
    using False selectRoundRobin_mem [OF False len, of b] selectWeighted_mem [OF False wt]
      selectLeastConn_some [OF False, of b] selectLeastLatency_some [OF False, of b] fo
    by (simp add: SelectUplink_def Let_def case_prod_unfold)
  moreover have "set ?a \<subseteq> {p \<in> set (bl_uplinks b). IsActive (bl_heap b ! p)}"
    by (auto simp: getActiveUplinks_def)
  ultimately show ?thesis by auto
qed

theorem selected_uplink_is_active_witness:
  "\<exists>p \<in> {0, 1}. fst (SelectUplink (\<lambda>key xs. sort_key key xs) (example_balancer ''failover'')) = Inr (Some p)"
  using selected_uplink_is_active [OF sort_key_sorts.slice_sort_axioms, of "example_balancer ''failover''"]
  by (auto simp: example_wan split: if_splits)

text \<open>C34. As many weighted selections in a row as the total weight choose each uplink exactly as often
  as its weight says, from any starting point of the counter short of its overflow.\<close>

theorem weighted_selection_is_proportional:
  assumes "2 \<le> length ups" and "distinct ups" and "p \<in> set ups"
    and "T = sum_list (map (weight_at b) ups)" and "uint (bl_currentIndex b) + T < 2 ^ 32"
  shows "count_list (weighted_run (nat T) ups b) (Some p) = nat (weight_at b p)"
proof -
  have "ups \<noteq> []" using assms(1) by auto
  then have T: "0 < T" unfolding assms(4) by (rule weights_pos)
  have "0 \<le> uint (bl_currentIndex b)" by (rule uint_nonnegative)
  then have "T < 2 ^ 32" using assms(5) by linarith
  then have small: "T < 2 ^ 63" by simp
  let ?pick = "\<lambda>x. Some (pick_weighted (weight_at b) x 0 (ups ! 0) ups)"
  have "weighted_run (nat T) ups b =
      map (\<lambda>j. ?pick ((uint (bl_currentIndex b) + int j) mod int (nat T))) [0..<nat T]"
    using weighted_run_map [OF assms(1), of b "nat T"] assms(4,5) small T by simp
  then have "count_list (weighted_run (nat T) ups b) (Some p) =
      card {x. 0 \<le> x \<and> x < int (nat T) \<and> ?pick x = Some p}"
    using count_mod_window [of "nat T" ?pick] T by simp
  also have "\<dots> = nat (weight_at b p)"
    using pick_weighted_card [of ups "weight_at b" 0 p "ups ! 0"] assms(2-4) small T
    by (simp add: eff_weight_pos)
  finally show ?thesis .
qed

theorem weighted_selection_is_proportional_witness:
  "count_list (weighted_run 4 [0, 1] (example_balancer ''weighted'')) (Some 0) = 3"
  using weighted_selection_is_proportional [of "[0, 1]" 0 4 "example_balancer ''weighted''"]
  by (simp add: example_wan)

text \<open>Under the least-connections policy no active uplink has fewer connections than the selected
  one, and under the failover policy none has a lower priority value.\<close>

theorem selection_is_optimal:
  assumes "slice_sort sorter" and "\<forall>p \<in> set (bl_uplinks b). 0 \<le> u_activeConns (bl_heap b ! p)"
    and "fst (SelectUplink sorter b) = Inr (Some p)"
    and "q \<in> set (bl_uplinks b)" and "IsActive (bl_heap b ! q)"
  shows "(bl_policy b = ''least-conn'' \<longrightarrow> u_activeConns (bl_heap b ! p) \<le> u_activeConns (bl_heap b ! q)) \<and>
         (bl_policy b = ''failover'' \<longrightarrow> u_Priority (bl_heap b ! p) \<le> u_Priority (bl_heap b ! q))"
proof -
  let ?a = "getActiveUplinks b"
  have q: "q \<in> set ?a" using assms(4,5) by (simp add: getActiveUplinks_def)
  then have ne: "?a \<noteq> []" by auto
  have one: "?a ! 0 = q" if "length ?a = 1" using q that by (cases ?a) auto
  show ?thesis
  proof (intro conjI impI)
    assume "bl_policy b = ''least-conn''"
    then have p: "selectLeastConn ?a b = Some p"
      using assms(3) ne by (simp add: SelectUplink_def Let_def)
    obtain x where "min_scan (\<lambda>p. u_activeConns (bl_heap b ! p)) ?a = (u_activeConns (bl_heap b ! x), Some x)"
      "\<forall>y \<in> set ?a. u_activeConns (bl_heap b ! x) \<le> u_activeConns (bl_heap b ! y)"
      using min_scan_least [OF ne, of "\<lambda>p. u_activeConns (bl_heap b ! p)"] assms(2)
      by (auto simp: getActiveUplinks_def)
    then show "u_activeConns (bl_heap b ! p) \<le> u_activeConns (bl_heap b ! q)"
      using p q one by (auto simp: selectLeastConn_def split: if_splits)
  next
    assume "bl_policy b = ''failover''"
    then have p: "p = selectFailover sorter ?a b"
      using assms(3) ne by (simp add: SelectUplink_def Let_def)
    then show "u_Priority (bl_heap b ! p) \<le> u_Priority (bl_heap b ! q)"
      using slice_sort.first_is_least(2) [OF assms(1) ne, of "\<lambda>p. u_Priority (bl_heap b ! p)"] q one
      by (simp add: selectFailover_def split: if_splits)
  qed
qed

theorem selection_is_optimal_witness:
  "\<exists>p. fst (SelectUplink (\<lambda>key xs. sort_key key xs) (example_balancer ''failover'')) = Inr (Some p) \<and>
     u_Priority (bl_heap (example_balancer ''failover'') ! p) \<le> 10"
proof -
  let ?b = "example_balancer ''failover''"
  have sel: "fst (SelectUplink (\<lambda>key xs. sort_key key xs) ?b) = Inr (Some 1)"
    by (simp add: SelectUplink_def getActiveUplinks_def selectFailover_def example_wan)
  have "u_Priority (bl_heap ?b ! 1) \<le> u_Priority (bl_heap ?b ! 1)"
    using selection_is_optimal [OF sort_key_sorts.slice_sort_axioms _ sel, of 1]
    by (simp add: example_wan)
  with sel show ?thesis by (auto simp: example_wan)
qed

text \<open>The least-latency policy starts its scan with the latency of the first active uplink.  While
  that uplink has not been measured its latency is zero, which no measured latency is below: it is
  selected whatever the others measure, and the fallback to least connections never happens.\<close>

theorem unmeasured_uplink_wins_latency:
  assumes "u_lastLatency (bl_heap b ! p) = 0"
  shows "selectLeastLatency (p # ps) b = Some p"
proof -
  have "latency_scan (p # qs) b = (0, Some p)" for qs
    using assms by (induction qs rule: rev_induct) (simp_all add: latency_scan_def Let_def)
  then show ?thesis by (simp add: selectLeastLatency_def)
qed

theorem unmeasured_uplink_wins_latency_witness:
  "selectLeastLatency [0, 1] (upd 1 (SetLastLatency 5) (example_balancer ''least-latency'')) = Some 0"
  by (rule unmeasured_uplink_wins_latency)
    (simp add: upd_def SetLastLatency_def example_wan)

text \<open>A sequence of probes of one uplink.\<close>

definition probes :: "bool list \<Rightarrow> uplink \<Rightarrow> uplink" where
  "probes fs u = fold check_uplink fs u"

lemma check_uplink_config [simp]: "u_HealthCheck (check_uplink f u) = u_HealthCheck u"
  by (auto simp: check_uplink_def SetStatus_def Let_def split: option.split)

lemma probes_fail_count:
  assumes "u_HealthCheck u = Some hc" and "hc_Enabled hc" and "0 \<le> u_failCount u"
    and "u_failCount u + int k < 2 ^ 31"
  shows "u_failCount (probes (replicate k True) u) = u_failCount u + int k \<and>
         u_HealthCheck (probes (replicate k True) u) = Some hc"
  using assms
proof (induction k arbitrary: u)
  case 0
  then show ?case by (simp add: probes_def)
next
  case (Suc k)
  have "u_failCount (check_uplink True u) = u_failCount u + 1"
    using Suc.prems by (simp add: check_uplink_def SetStatus_def Let_def)
  then show ?case
    using Suc.IH [of "check_uplink True u"] Suc.prems by (simp add: probes_def)
qed

text \<open>A healthy uplink is taken down by exactly as many consecutive failed probes as its failure
  threshold, not by fewer, and one successful probe brings it back: the pass threshold of the
  configuration is not used.\<close>

theorem health_check_thresholds:
  assumes "u_HealthCheck u = Some hc" and "hc_Enabled hc" and "u_failCount u = 0" and "IsActive u"
    and "0 < hc_FailThreshold hc" and "hc_FailThreshold hc < 2 ^ 31" and "k \<le> nat (hc_FailThreshold hc)"
  shows "(IsActive (probes (replicate k True) u) \<longleftrightarrow> k < nat (hc_FailThreshold hc)) \<and>
         IsActive (probes (replicate k True @ [False]) u) \<and>
         u_failCount (probes (replicate k True @ [False]) u) = 0"
  using assms(7)
proof (induction k)
  case 0
  then show ?case using assms by (simp add: probes_def check_uplink_def IsActive_def SetStatus_def UplinkUp_def)
next
  case (Suc k)
  let ?u = "probes (replicate k True) u"
  have u: "u_failCount ?u = int k" "u_HealthCheck ?u = Some hc"
    using probes_fail_count [OF assms(1,2), of k] assms(3,6) Suc.prems by simp_all
  have step: "probes (replicate (Suc k) True) u = check_uplink True ?u"
    by (simp add: probes_def replicate_append_same [symmetric] del: replicate_Suc)
  have "IsActive ?u" using Suc by simp
  then have "IsActive (check_uplink True ?u) \<longleftrightarrow> Suc k < nat (hc_FailThreshold hc)"
    using u assms(2,5,6) Suc.prems
    by (auto simp: check_uplink_def SetStatus_def IsActive_def UplinkDown_def UplinkUp_def
        UplinkDegraded_def Let_def)
  moreover have "check_uplink False v = SetStatus UplinkUp (v\<lparr>u_failCount := 0\<rparr>)"
    if "u_HealthCheck v = Some hc" for v using that assms(2) by (simp add: check_uplink_def)
  moreover have "probes (replicate (Suc k) True @ [False]) u = check_uplink False (check_uplink True ?u)"
    using step by (simp add: probes_def)
  ultimately show ?case
    using u(2) step by (simp add: SetStatus_def IsActive_def UplinkUp_def)
qed

theorem health_check_thresholds_witness:
  "\<not> IsActive (probes [True, True, True] (new_uplink (example_uplink ''a'' 1 1)))"
  using health_check_thresholds [of "new_uplink (example_uplink ''a'' 1 1)" DefaultHealthCheckConfig 3]
  by (simp add: example_wan DefaultHealthCheckConfig_def numeral_3_eq_3)

text \<open>A TCP dial through the balancer counts its connection only while the dial runs: when it
  returns a connection, every uplink has as many active connections as before, so that the
  least-connections policy never sees an open TCP connection.\<close>

theorem open_tcp_connections_not_counted:
  assumes "wan_DialContext sorter dial w = (WanConn c, w')"
    and "\<forall>u \<in> set (bl_heap (wd_balancer w)). - (2 ^ 62) < u_activeConns u \<and> u_activeConns u < 2 ^ 62"
  shows "map u_activeConns (bl_heap (wd_balancer w')) = map u_activeConns (bl_heap (wd_balancer w))"
proof -
  have heap: "bl_heap (snd (SelectUplink sorter (wd_balancer w))) = bl_heap (wd_balancer w)"
    by (simp add: SelectUplink_def selectRoundRobin_def selectWeighted_def Let_def)
  have same: "map u_activeConns (bl_heap (upd u DecActiveConns (upd u IncActiveConns b))) = map u_activeConns (bl_heap b)"
    if "bl_heap b = bl_heap (wd_balancer w)" for u b
  proof (rule nth_equalityI)
    fix i assume "i < length (map u_activeConns (bl_heap (upd u DecActiveConns (upd u IncActiveConns b))))"
    then have i: "i < length (bl_heap b)" by (simp add: upd_def)
    then have "- (2 ^ 62) < u_activeConns (bl_heap b ! i)" "u_activeConns (bl_heap b ! i) < 2 ^ 62"
      using assms(2) that by auto
    then show "map u_activeConns (bl_heap (upd u DecActiveConns (upd u IncActiveConns b))) ! i =
        map u_activeConns (bl_heap b) ! i"
      using i by (cases "i = u") (simp_all add: upd_def IncActiveConns_def DecActiveConns_def)
  qed (simp add: upd_def)
  show ?thesis
    using assms(1) heap same
    by (auto simp: wan_DialContext_def Let_def split: prod.splits sum.splits option.splits)
qed

theorem open_tcp_connections_not_counted_witness:
  "\<exists>w'. wan_DialContext (\<lambda>key xs. sort_key key xs) (\<lambda>_. Inr ''conn'' :: string + string)
        \<lparr>wd_balancer = example_balancer ''least-conn'', wd_proxies = (\<lambda>_. Some (Some ())), wd_metrics = NewMetricsCollector 0\<rparr>
      = (WanConn ''conn'', w') \<and> map u_activeConns (bl_heap (wd_balancer w')) = [0, 0]"
proof -
  let ?w = "\<lparr>wd_balancer = example_balancer ''least-conn'', wd_proxies = (\<lambda>_. Some (Some ())), wd_metrics = NewMetricsCollector 0\<rparr>"
  obtain w' where d: "wan_DialContext (\<lambda>key xs. sort_key key xs) (\<lambda>_. Inr ''conn'' :: string + string) ?w =
      (WanConn ''conn'', w')"
    by (simp add: wan_DialContext_def SelectUplink_def getActiveUplinks_def selectLeastConn_def
        min_scan_def example_wan Let_def)
  from open_tcp_connections_not_counted [OF d] d show ?thesis by (simp add: example_wan)
qed

end
