(* ===== verification/DhcpMessage.thy ===== *)
theory DhcpMessage
  imports GoNet GoBytes
begin

text \<open>
  DHCP packets, \<^verbatim>\<open>dhcp/dhcp.go\<close>: the message, its serialisation and its parser.

  \<open>Marshal\<close> fills a zeroed buffer that is exactly as long as the header, the options and the end mark
  together; whatever a long host or file name spills past the header is overwritten by the options.
  The options the code writes in a fixed order come first, the others in the order of a map range,
  which is the argument \<open>ord\<close>.  The parser indexes the byte after an option code without checking that
  it exists; that panic is a result of its own.
\<close>

definition OptionSubnetMask :: byte where "OptionSubnetMask = 1"
definition OptionRouter :: byte where "OptionRouter = 3"
definition OptionDNSServer :: byte where "OptionDNSServer = 6"
definition OptionHostName :: byte where "OptionHostName = 12"
definition OptionRequestedIP :: byte where "OptionRequestedIP = 50"
definition OptionLeaseTime :: byte where "OptionLeaseTime = 51"
definition OptionDHCPMessageType :: byte where "OptionDHCPMessageType = 53"
definition OptionServerIdentifier :: byte where "OptionServerIdentifier = 54"
definition OptionEnd :: byte where "OptionEnd = 255"

lemmas option_codes = OptionSubnetMask_def OptionRouter_def OptionDNSServer_def OptionHostName_def
  OptionRequestedIP_def OptionLeaseTime_def OptionDHCPMessageType_def OptionServerIdentifier_def
  OptionEnd_def

record dhcp_message =
  OpCode :: byte
  HardwareType :: byte
  HardwareLength :: byte
  Hops :: byte
  TransactionID :: "32 word"
  Seconds :: "16 word"
  Flags :: "16 word"
  ClientIP :: ip
  YourIP :: ip
  ServerIP :: ip
  GatewayIP :: ip
  ClientHardware :: "byte list"
  ServerHostname :: string
  BootFileName :: string
  Options :: "byte \<rightharpoonup> byte list"

definition IPv4zero :: ip where
  "IPv4zero = v4InV6Prefix @ [0, 0, 0, 0]"

definition NewDHCPMessage :: dhcp_message where
  "NewDHCPMessage = \<lparr>OpCode = 2, HardwareType = 1, HardwareLength = 6, Hops = 0, TransactionID = 0,
     Seconds = 0, Flags = 0, ClientIP = IPv4zero, YourIP = IPv4zero, ServerIP = IPv4zero,
     GatewayIP = IPv4zero, ClientHardware = replicate 6 0, ServerHostname = [], BootFileName = [],
     Options = Map.empty\<rparr>"

definition to4 :: "ip \<Rightarrow> byte list" where
  "to4 a = (case To4 a of Some b \<Rightarrow> b | None \<Rightarrow> [])"

definition dhcp_header :: "dhcp_message \<Rightarrow> byte list" where
  "dhcp_header m =
     copy_to 236 240 [99, 130, 83, 99]
      (copy_to 108 240 (ascii_bytes (BootFileName m))
       (copy_to 44 240 (ascii_bytes (ServerHostname m))
        (copy_to 28 34 (ClientHardware m)
         (copy_to 24 28 (to4 (GatewayIP m))
          (copy_to 20 24 (to4 (ServerIP m))
           (copy_to 16 20 (to4 (YourIP m))
            (copy_to 12 16 (to4 (ClientIP m))
             (copy_to 10 12 (put16 (Flags m))
              (copy_to 8 10 (put16 (Seconds m))
               (copy_to 4 8 (put32 (TransactionID m))
                (copy_to 0 4 [OpCode m, HardwareType m, HardwareLength m, Hops m]
                  (replicate 240 0))))))))))))"

definition addOption :: "byte \<Rightarrow> byte list \<Rightarrow> byte list" where
  "addOption c v = c # of_nat (length v) # v"

definition fixed_order :: "byte list" where
  "fixed_order = [OptionDHCPMessageType, OptionServerIdentifier, OptionSubnetMask, OptionRouter,
     OptionDNSServer, OptionLeaseTime, OptionRequestedIP]"

definition option_order :: "byte list \<Rightarrow> dhcp_message \<Rightarrow> byte list" where
  "option_order ord m =
     filter (\<lambda>c. Options m c \<noteq> None) fixed_order @
     filter (\<lambda>c. c \<notin> set fixed_order \<and> c \<noteq> OptionEnd) ord"

definition Marshal :: "byte list \<Rightarrow> dhcp_message \<Rightarrow> byte list" where
  "Marshal ord m =
     dhcp_header m @
     concat (map (\<lambda>c. addOption c (the (Options m c))) (option_order ord m)) @ [OptionEnd]"

subsection \<open>Parsing\<close>

datatype dhcp_parse = Parsed dhcp_message | ErrInvalidDHCPMessage | ParsePanic

function parse_options :: "byte list \<Rightarrow> (byte \<rightharpoonup> byte list) \<Rightarrow> (byte \<rightharpoonup> byte list) option" where
  "parse_options [] opts = Some opts"
| "parse_options (c # rest) opts =
     (if c = OptionEnd then Some opts
      else if c = 0 then parse_options rest opts
      else
        case rest of
          [] \<Rightarrow> None
        | l # vs \<Rightarrow>
            if unat l > length vs then Some opts
            else parse_options (drop (unat l) vs) (opts(c \<mapsto> take (unat l) vs)))"
  by pat_completeness auto

termination
  by (relation "measure (\<lambda>(bs, _). length bs)") auto

definition ParseDHCPMessage :: "byte list \<Rightarrow> dhcp_parse" where
  "ParseDHCPMessage d =
     (if length d < 240 then ErrInvalidDHCPMessage
      else
        case parse_options (drop 240 d) Map.empty of
          None \<Rightarrow> ParsePanic
        | Some opts \<Rightarrow> Parsed
            \<lparr>OpCode = d ! 0, HardwareType = d ! 1, HardwareLength = d ! 2, Hops = d ! 3,
             TransactionID = get32 (sub 4 8 d), Seconds = get16 (sub 8 10 d), Flags = get16 (sub 10 12 d),
             ClientIP = to4 (sub 12 16 d), YourIP = to4 (sub 16 20 d), ServerIP = to4 (sub 20 24 d),
             GatewayIP = to4 (sub 24 28 d), ClientHardware = sub 28 34 d, ServerHostname = [],
             BootFileName = [], Options = opts\<rparr>)"

subsection \<open>The header round trip\<close>

definition dhcp_wf :: "dhcp_message \<Rightarrow> bool" where
  "dhcp_wf m \<longleftrightarrow> length (ClientIP m) = 4 \<and> length (YourIP m) = 4 \<and> length (ServerIP m) = 4 \<and>
     length (GatewayIP m) = 4 \<and> length (ClientHardware m) = 6 \<and>
     (\<forall>c v. Options m c = Some v \<longrightarrow> c \<noteq> 0 \<and> c \<noteq> OptionEnd \<and> length v < 256)"

lemma to4_id [simp]: "length a = 4 \<Longrightarrow> to4 a = a"
  by (simp add: to4_def To4_def)

lemma length_dhcp_header [simp]: "length (dhcp_header m) = 240"
  by (simp add: dhcp_header_def)

lemma dhcp_header_fields:
  assumes "dhcp_wf m"
  shows "sub 0 4 (dhcp_header m) = [OpCode m, HardwareType m, HardwareLength m, Hops m]"
    and "sub 4 8 (dhcp_header m) = put32 (TransactionID m)"
    and "sub 8 10 (dhcp_header m) = put16 (Seconds m)" and "sub 10 12 (dhcp_header m) = put16 (Flags m)"
    and "sub 12 16 (dhcp_header m) = ClientIP m" and "sub 16 20 (dhcp_header m) = YourIP m"
    and "sub 20 24 (dhcp_header m) = ServerIP m" and "sub 24 28 (dhcp_header m) = GatewayIP m"
    and "sub 28 34 (dhcp_header m) = ClientHardware m"
  using assms unfolding dhcp_header_def dhcp_wf_def
  by (simp_all add: sub_copy_same sub_copy_other)

lemma header_bytes:
  assumes "dhcp_wf m"
  shows "dhcp_header m ! 0 = OpCode m" "dhcp_header m ! Suc 0 = HardwareType m"
    "dhcp_header m ! 2 = HardwareLength m" "dhcp_header m ! 3 = Hops m"
proof -
  have "sub 0 4 (dhcp_header m) ! i = dhcp_header m ! i" if "i < 4" for i
    using nth_sub [of 4 "dhcp_header m" i 0] that by simp
  from this [of 0] this [of 1] this [of 2] this [of 3]
  show "dhcp_header m ! 0 = OpCode m" "dhcp_header m ! Suc 0 = HardwareType m"
    "dhcp_header m ! 2 = HardwareLength m" "dhcp_header m ! 3 = Hops m"
    by (simp_all add: dhcp_header_fields(1) [OF assms] numeral_3_eq_3 numeral_2_eq_2)
qed

subsection \<open>The options round trip\<close>

lemma parse_addOption:
  assumes "c \<noteq> 0" and "c \<noteq> OptionEnd" and "length v < 256"
  shows "parse_options (addOption c v @ rest) opts = parse_options rest (opts(c \<mapsto> v))"
proof -
  have "unat (of_nat (length v) :: byte) = length v" using assms(3) by (simp add: unat_of_nat)
  then show ?thesis using assms by (simp add: addOption_def)
qed

lemma parse_options_written:
  assumes "\<forall>c \<in> set cs. c \<noteq> 0 \<and> c \<noteq> OptionEnd \<and> (\<exists>v. f c = Some v \<and> length v < 256)"
  shows "parse_options (concat (map (\<lambda>c. addOption c (the (f c))) cs) @ [OptionEnd]) opts =
    Some (\<lambda>c. if c \<in> set cs then f c else opts c)"
  using assms
proof (induction cs arbitrary: opts)
  case Nil
  then show ?case by simp
next
  case (Cons c cs)
  then obtain v where v: "f c = Some v" "length v < 256" "c \<noteq> 0" "c \<noteq> OptionEnd" by auto
  with Cons show ?case by (auto simp: parse_addOption fun_eq_iff)
qed

lemma set_option_order:
  assumes "range_of (Options m) ord" and "OptionEnd \<notin> dom (Options m)"
  shows "set (option_order ord m) = dom (Options m)"
  using assms by (auto simp: option_order_def range_of_def)

lemma parse_marshal:
  assumes "dhcp_wf m" and "range_of (Options m) ord"
  shows "ParseDHCPMessage (Marshal ord m) = Parsed (m\<lparr>ServerHostname := [], BootFileName := []\<rparr>)"
proof -
  have "OptionEnd \<notin> dom (Options m)" using assms(1) by (auto simp: dhcp_wf_def)
  note dom = set_option_order [OF assms(2) this]
  have codes: "\<forall>c \<in> set (option_order ord m). c \<noteq> 0 \<and> c \<noteq> OptionEnd \<and>
      (\<exists>v. Options m c = Some v \<and> length v < 256)"
    unfolding dom using assms(1) by (auto simp: dhcp_wf_def)
  have "(\<lambda>c. if c \<in> set (option_order ord m) then Options m c else None) = Options m"
    unfolding dom by (simp add: fun_eq_iff domIff)
  then have opts: "parse_options (concat (map (\<lambda>c. addOption c (the (Options m c))) (option_order ord m)) @ [OptionEnd])
      Map.empty = Some (Options m)"
    using parse_options_written [OF codes, of Map.empty] by simp
  have ips: "length (ClientIP m) = 4" "length (YourIP m) = 4" "length (ServerIP m) = 4" "length (GatewayIP m) = 4"
    using assms(1) by (simp_all add: dhcp_wf_def)
  show ?thesis
    by (cases m) (use opts ips header_bytes [OF assms(1)] dhcp_header_fields [OF assms(1)] in
      \<open>simp add: ParseDHCPMessage_def Marshal_def sub_append nth_append\<close>)
qed

subsection \<open>Properties\<close>


definition example_discover :: dhcp_message where
  "example_discover = NewDHCPMessage\<lparr>ClientIP := [0, 0, 0, 0], YourIP := [0, 0, 0, 0], ServerIP := [0, 0, 0, 0],
     GatewayIP := [0, 0, 0, 0], ClientHardware := [2, 0, 0, 0, 0, 1], ServerHostname := ''host'',
     Options := [OptionDHCPMessageType \<mapsto> [1], OptionHostName \<mapsto> [112, 99]]\<rparr>"


text \<open>A packet whose last byte is an option code makes the parser read past its end: the Go code
  panics on it.\<close>

theorem truncated_option_panics:
  assumes "length d = 240" and "c \<noteq> 0" and "c \<noteq> OptionEnd"
  shows "ParseDHCPMessage (d @ [c]) = ParsePanic"
  using assms by (simp add: ParseDHCPMessage_def)

theorem truncated_option_panics_witness:
  "ParseDHCPMessage (replicate 240 0 @ [OptionHostName]) = ParsePanic"
  by (rule truncated_option_panics) (simp_all add: option_codes)

end
