(* ===== verification/LeaseDb.thy ===== *)
theory LeaseDb
  imports GoNet
begin

text \<open>
  The in-memory part of the lease database, \<^verbatim>\<open>dhcp/lease_db.go\<close>: the map of leases, its counter, and the
  flags that request a save.  Reading and writing the file is not modelled; a loaded list of leases
  is an argument of \<open>db_Load\<close>.

  A lease is an object that the database and the server share by pointer; \<open>dl_obj\<close> is its identity.
\<close>

record dhcp_lease =
  dl_obj :: nat
  dl_IP :: ip
  dl_MAC :: "byte list"
  dl_Hostname :: string
  dl_ExpiresAt :: instant
  dl_Transaction :: "32 word"

definition hex2 :: "byte \<Rightarrow> string" where
  "hex2 b = [hex_digit (unat b div 16), hex_digit (unat b mod 16)]"

text \<open>\<open>net.HardwareAddr.String\<close>.\<close>

definition HardwareAddr_String :: "byte list \<Rightarrow> string" where
  "HardwareAddr_String m = Join CHR '':'' (map hex2 m)"

record lease_db =
  db_leases :: "string \<rightharpoonup> dhcp_lease"
  db_leaseCount :: int
  db_dirty :: bool
  db_savePending :: bool

definition NewLeaseDB :: lease_db where
  "NewLeaseDB = \<lparr>db_leases = Map.empty, db_leaseCount = 0, db_dirty = False, db_savePending = False\<rparr>"

definition SetLease :: "dhcp_lease \<Rightarrow> lease_db \<Rightarrow> lease_db" where
  "SetLease lease db =
     (let macStr = HardwareAddr_String (dl_MAC lease);
          exists = (db_leases db macStr \<noteq> None);
          db1 = db\<lparr>db_leases := (db_leases db)(macStr \<mapsto> lease)\<rparr>;
          db2 = (if \<not> exists then db1\<lparr>db_leaseCount := i32 (db_leaseCount db1 + 1)\<rparr> else db1)
      in db2\<lparr>db_dirty := True, db_savePending := True\<rparr>)"

definition DeleteLease :: "byte list \<Rightarrow> lease_db \<Rightarrow> lease_db" where
  "DeleteLease mac db = db\<lparr>db_leases := (db_leases db)(HardwareAddr_String mac := None),
     db_leaseCount := i32 (db_leaseCount db - 1), db_dirty := True, db_savePending := True\<rparr>"

definition GetLease :: "byte list \<Rightarrow> lease_db \<Rightarrow> dhcp_lease option" where
  "GetLease mac db = db_leases db (HardwareAddr_String mac)"

definition GetAllLeases :: "lease_db \<Rightarrow> (string \<rightharpoonup> dhcp_lease)" where
  "GetAllLeases db = db_leases db"

definition db_GetLeaseCount :: "lease_db \<Rightarrow> int" where
  "db_GetLeaseCount db = db_leaseCount db"

definition db_expired :: "instant \<Rightarrow> lease_db \<Rightarrow> string \<Rightarrow> bool" where
  "db_expired now db k = (case db_leases db k of None \<Rightarrow> False | Some l \<Rightarrow> now > dl_ExpiresAt l)"

definition CleanupExpired :: "string list \<Rightarrow> instant \<Rightarrow> lease_db \<Rightarrow> lease_db" where
  "CleanupExpired ord now db =
     (let gone = filter (db_expired now db) ord;
          db1 = db\<lparr>db_leases := del_keys (db_leases db) gone\<rparr>
      in if length gone > 0
         then db1\<lparr>db_leaseCount := i32 (db_leaseCount db - int (length gone)), db_dirty := True,
                  db_savePending := True\<rparr>
         else db1)"

text \<open>The leases read from the file, already parsed, with the key under which each is stored.\<close>

definition db_Load :: "instant \<Rightarrow> (string \<times> dhcp_lease) list \<Rightarrow> lease_db \<Rightarrow> lease_db" where
  "db_Load now entries db =
     (let live = filter (\<lambda>(_, l). dl_ExpiresAt l > now) entries
      in db\<lparr>db_leases := foldl (\<lambda>m (k, l). m(k \<mapsto> l)) (db_leases db) live,
            db_leaseCount := i32 (int (length live))\<rparr>)"

subsection \<open>The counter\<close>

definition db_exact :: "lease_db \<Rightarrow> bool" where
  "db_exact db \<longleftrightarrow> finite (dom (db_leases db)) \<and> card (dom (db_leases db)) < 2 ^ 31 - 1 \<and>
     db_leaseCount db = int (card (dom (db_leases db)))"

lemma SetLease_exact:
  assumes "db_exact db" and "card (dom (db_leases db)) < 2 ^ 31 - 2"
  shows "db_exact (SetLease l db)"
  using assms by (simp add: db_exact_def SetLease_def Let_def card_dom_upd del: dom_fun_upd)

lemma CleanupExpired_exact:
  assumes "db_exact db" and "range_of (db_leases db) ord"
  shows "db_exact (CleanupExpired ord now db)"
proof -
  let ?gone = "filter (db_expired now db) ord"
  have "set ?gone \<subseteq> dom (db_leases db)" "distinct ?gone" "length ?gone \<le> card (dom (db_leases db))"
    using assms(2) range_of_card [OF assms(2)] by (auto simp: range_of_def)
  with card_dom_del_keys [OF assms(2), of ?gone] assms(1) show ?thesis
    by (auto simp: db_exact_def CleanupExpired_def Let_def of_nat_diff)
qed

lemma DeleteLease_counts_missing:
  assumes "db_exact db" and "db_leases db (HardwareAddr_String mac) = None"
  shows "db_leaseCount (DeleteLease mac db) = int (card (dom (db_leases (DeleteLease mac db)))) - 1"
  using assms by (simp add: db_exact_def DeleteLease_def card_dom_del del: dom_fun_upd)

end
