(* ===== verification/DhcpServer.thy ===== *)
theory DhcpServer
  imports DhcpMessage LeaseDb
begin

text \<open>
  The DHCP server, \<^verbatim>\<open>dhcp/server.go\<close>: rate limiting, the message handlers, address allocation, the
  construction of replies and the cleanup of leases.

  The device-based allocator (\<^verbatim>\<open>auto.SmartDHCPManager\<close>) is the parameter \<open>smart\<close>: None when it is not
  configured, otherwise the address text it returns for a hardware address.  A lease has an object
  identity because the database holds the same objects.  Metrics and log lines are left out.  An
  address that is not IPv4 where the code reads four bytes of it is a panic.
\<close>

record server_config =
  sc_ServerIP :: ip
  sc_Network :: ipnet
  sc_LeaseDuration :: duration
  sc_FirstIP :: ip
  sc_LastIP :: ip
  sc_DNSServers :: "ip list"

record request_counter =
  rq_count :: int
  rq_resetTime :: instant

record dhcp_server =
  sv_config :: server_config
  sv_leases :: "string \<rightharpoonup> dhcp_lease"
  sv_ipIndex :: "string \<rightharpoonup> string"
  sv_nextIP :: ip
  sv_reserved :: "string set"
  sv_leaseDB :: "lease_db option"
  sv_leaseCount :: int
  sv_requestCount :: "string \<rightharpoonup> request_counter"
  sv_rateLimit :: int
  sv_rateLimitWindow :: duration
  sv_nextObj :: nat

definition defaultRateLimit :: int where "defaultRateLimit = 30"

definition restore_leases :: "string list \<Rightarrow> lease_db \<Rightarrow> dhcp_server \<Rightarrow> dhcp_server" where
  "restore_leases ord db s =
     fold (\<lambda>mac s. case db_leases db mac of
             None \<Rightarrow> s
           | Some l \<Rightarrow> s\<lparr>sv_leases := (sv_leases s)(mac \<mapsto> l), sv_leaseCount := i32 (sv_leaseCount s + 1)\<rparr>)
       ord s"

text \<open>\<open>NewServer\<close>; the database argument is the loaded database, \<open>ord\<close> the order of the range over it, and
  \<open>obj\<close> an object identity that no lease of the database has.\<close>

definition NewServer :: "server_config \<Rightarrow> lease_db option \<Rightarrow> string list \<Rightarrow> nat \<Rightarrow> dhcp_server" where
  "NewServer config db ord obj =
     (let s = \<lparr>sv_config = config, sv_leases = Map.empty, sv_ipIndex = Map.empty,
               sv_nextIP = sc_FirstIP config, sv_reserved = {IP_String (sc_ServerIP config)},
               sv_leaseDB = db, sv_leaseCount = 0, sv_requestCount = Map.empty,
               sv_rateLimit = defaultRateLimit, sv_rateLimitWindow = 60 * second, sv_nextObj = obj\<rparr>
      in case db of None \<Rightarrow> s | Some d \<Rightarrow> restore_leases ord d s)"

subsection \<open>Rate limiting\<close>

definition checkRateLimit :: "instant \<Rightarrow> string \<Rightarrow> dhcp_server \<Rightarrow> bool \<times> dhcp_server" where
  "checkRateLimit now mac s =
     (let counter = (case sv_requestCount s mac of
                       None \<Rightarrow> \<lparr>rq_count = 0, rq_resetTime = now\<rparr>
                     | Some c \<Rightarrow> c);
          counter1 = (if now - rq_resetTime counter > sv_rateLimitWindow s
                      then \<lparr>rq_count = 0, rq_resetTime = now\<rparr> else counter)
      in if rq_count counter1 \<ge> i32 (sv_rateLimit s)
         then (False, s\<lparr>sv_requestCount := (sv_requestCount s)(mac \<mapsto> counter1)\<rparr>)
         else (True, s\<lparr>sv_requestCount := (sv_requestCount s)
                        (mac \<mapsto> counter1\<lparr>rq_count := i32 (rq_count counter1 + 1)\<rparr>)\<rparr>))"

text \<open>One tick of the cleanup of the counters: the orders of its first and third range.\<close>

definition cleanupRateLimit :: "instant \<Rightarrow> string list \<Rightarrow> string list \<Rightarrow> dhcp_server \<Rightarrow> dhcp_server" where
  "cleanupRateLimit now ord1 ord2 s =
     (let stale = (\<lambda>k. case sv_requestCount s k of
                     None \<Rightarrow> False
                   | Some c \<Rightarrow> now - rq_resetTime c > 5 * sv_rateLimitWindow s);
          gone = filter stale ord1;
          s1 = s\<lparr>sv_requestCount := del_keys (sv_requestCount s) gone\<rparr>
      in if length gone = 0 \<and> length ord1 > 500
         then s1\<lparr>sv_requestCount := del_keys (sv_requestCount s1) (take (length ord1 - 500) ord2)\<rparr>
         else s1)"

subsection \<open>Allocation\<close>

fun inc_carry :: "byte list \<Rightarrow> byte list" where
  "inc_carry [] = []"
| "inc_carry (b # bs) = (if b + 1 \<noteq> 0 then (b + 1) # bs else (b + 1) # inc_carry bs)"

definition incrementIP :: "ip \<Rightarrow> ip" where
  "incrementIP a = rev (inc_carry (rev (case To4 a of Some b \<Rightarrow> b | None \<Rightarrow> [0, 0, 0, 0])))"

definition ip_u32 :: "ip \<Rightarrow> 32 word" where
  "ip_u32 a = get32 (to4 a)"

datatype alloc_result = AllocIP ip | ErrNoAvailableIPs | AllocPanic

definition next_pool_ip :: "server_config \<Rightarrow> ip \<Rightarrow> ip" where
  "next_pool_ip cfg cur =
     (let nextIP = incrementIP cur
      in if \<not> IPNet_Contains (sc_Network cfg) nextIP \<or> ip_u32 nextIP > ip_u32 (sc_LastIP cfg)
         then sc_FirstIP cfg else nextIP)"

definition add_lease :: "instant \<Rightarrow> byte list \<Rightarrow> ip \<Rightarrow> dhcp_server \<Rightarrow> dhcp_server" where
  "add_lease now mac ip s =
     (let lease = \<lparr>dl_obj = sv_nextObj s, dl_IP = ip, dl_MAC = mac, dl_Hostname = [],
                   dl_ExpiresAt = now + sc_LeaseDuration (sv_config s), dl_Transaction = 0\<rparr>
      in s\<lparr>sv_leases := (sv_leases s)(HardwareAddr_String mac \<mapsto> lease),
           sv_leaseCount := i32 (sv_leaseCount s + 1),
           sv_leaseDB := map_option (SetLease lease) (sv_leaseDB s),
           sv_nextObj := sv_nextObj s + 1\<rparr>)"

definition ip_free :: "dhcp_server \<Rightarrow> ip \<Rightarrow> bool" where
  "ip_free s ip \<longleftrightarrow> IP_String ip \<notin> sv_reserved s \<and> sv_ipIndex s (IP_String ip) = None"

fun alloc_loop :: "instant \<Rightarrow> byte list \<Rightarrow> ip \<Rightarrow> nat \<Rightarrow> dhcp_server \<Rightarrow> alloc_result \<times> dhcp_server" where
  "alloc_loop now mac startIP 0 s = (ErrNoAvailableIPs, s)"
| "alloc_loop now mac startIP (Suc k) s =
     (let cur = sv_nextIP s
      in if ip_free s cur then
           let s1 = add_lease now mac cur s;
               s2 = s1\<lparr>sv_ipIndex := (sv_ipIndex s1)(IP_String cur \<mapsto> HardwareAddr_String mac)\<rparr>
           in (AllocIP cur, s2\<lparr>sv_nextIP := next_pool_ip (sv_config s) cur\<rparr>)
         else
           let s1 = s\<lparr>sv_nextIP := next_pool_ip (sv_config s) cur\<rparr>
           in if IP_Equal (sv_nextIP s1) startIP then (ErrNoAvailableIPs, s1)
              else alloc_loop now mac startIP k s1)"

definition forget_index :: "byte list \<Rightarrow> dhcp_server \<Rightarrow> dhcp_server" where
  "forget_index mac s =
     (case sv_leases s (HardwareAddr_String mac) of
        None \<Rightarrow> s
      | Some l \<Rightarrow> s\<lparr>sv_ipIndex := (sv_ipIndex s)(IP_String (dl_IP l) := None)\<rparr>)"

definition legacyAllocateIP :: "instant \<Rightarrow> byte list \<Rightarrow> dhcp_server \<Rightarrow> alloc_result \<times> dhcp_server" where
  "legacyAllocateIP now mac s =
     (let s1 = forget_index mac s; cfg = sv_config s
      in if To4 (sc_FirstIP cfg) = None \<or> To4 (sc_LastIP cfg) = None then (AllocPanic, s1)
         else
           let maxAttempts = unat (ip_u32 (sc_LastIP cfg) - ip_u32 (sc_FirstIP cfg) + 1)
           in alloc_loop now mac (sv_nextIP s1) maxAttempts s1)"

definition allocateIP :: "(string \<Rightarrow> string) option \<Rightarrow> instant \<Rightarrow> instant \<Rightarrow> byte list \<Rightarrow> dhcp_server
    \<Rightarrow> alloc_result \<times> dhcp_server" where
  "allocateIP smart t1 t2 mac s =
     (let macStr = HardwareAddr_String mac;
          current = (case sv_leases s macStr of
                       None \<Rightarrow> None
                     | Some l \<Rightarrow> if t1 < dl_ExpiresAt l then Some (dl_IP l) else None)
      in case current of
           Some ip \<Rightarrow> (AllocIP ip, s)
         | None \<Rightarrow>
             (case (case smart of None \<Rightarrow> None | Some f \<Rightarrow> if f macStr = [] then None else ParseIP (f macStr)) of
                Some ip \<Rightarrow> (AllocIP ip, add_lease t2 mac ip (forget_index mac s))
              | None \<Rightarrow> legacyAllocateIP t2 mac s))"

subsection \<open>Replies\<close>

text \<open>The DNS option is assembled in a pooled buffer that is not cleared; \<open>stale\<close> is what it held.\<close>

definition build_reply :: "server_config \<Rightarrow> byte list \<Rightarrow> dhcp_message \<Rightarrow> byte \<Rightarrow> ip option \<Rightarrow> dhcp_message" where
  "build_reply cfg stale request messageType ip =
     (let r = NewDHCPMessage\<lparr>OpCode := 2, HardwareType := 1, HardwareLength := 6,
                TransactionID := TransactionID request, ClientHardware := ClientHardware request,
                ClientIP := ClientIP request,
                YourIP := (case ip of Some a \<Rightarrow> a | None \<Rightarrow> YourIP NewDHCPMessage),
                ServerIP := sc_ServerIP cfg, ServerHostname := ''go-pcap2socks'',
                Options := [OptionDHCPMessageType \<mapsto> [messageType],
                            OptionServerIdentifier \<mapsto> to4 (sc_ServerIP cfg)]\<rparr>;
          mask = ipn_Mask (sc_Network cfg);
          mask4 = (if length mask = 16 then sub 12 16 mask else mask);
          dns = fold (\<lambda>(i, d). copy_to (4 * i) (4 * i + 4) (to4 d))
                  (enumerate 0 (sc_DNSServers cfg)) (take (4 * length (sc_DNSServers cfg)) stale);
          opts = (Options r)(OptionSubnetMask \<mapsto> mask4, OptionRouter \<mapsto> to4 (sc_ServerIP cfg));
          opts1 = (if sc_DNSServers cfg = [] then opts else opts(OptionDNSServer \<mapsto> dns));
          opts2 = opts1(OptionLeaseTime \<mapsto> put32 (of_int (sc_LeaseDuration cfg div second)))
      in if ip = None then r else r\<lparr>Options := opts2\<rparr>)"

text \<open>All options of a reply are among those written in a fixed order.\<close>

definition buildResponse :: "server_config \<Rightarrow> byte list \<Rightarrow> dhcp_message \<Rightarrow> byte \<Rightarrow> ip option \<Rightarrow> byte list" where
  "buildResponse cfg stale request messageType ip = Marshal [] (build_reply cfg stale request messageType ip)"

datatype dhcp_error = InvalidMessage | InvalidMessageType | NoAvailableIPs

datatype dhcp_reply = Reply "byte list" | NoReply | DhcpErr dhcp_error | DhcpPanic

text \<open>What the environment supplies to one request: the clock readings of the rate limit, the lease
  check, a new lease and a renewal, and the contents of the pooled buffer.\<close>

record dhcp_env =
  dv_rate :: instant
  dv_check :: instant
  dv_lease :: instant
  dv_renew :: instant
  dv_stale :: "byte list"

definition handleDiscover :: "(string \<Rightarrow> string) option \<Rightarrow> dhcp_env \<Rightarrow> dhcp_message \<Rightarrow> dhcp_server
    \<Rightarrow> dhcp_reply \<times> dhcp_server" where
  "handleDiscover smart env msg s =
     (case allocateIP smart (dv_check env) (dv_lease env) (ClientHardware msg) s of
        (AllocIP ip, s1) \<Rightarrow> (Reply (buildResponse (sv_config s1) (dv_stale env) msg 2 (Some ip)), s1)
      | (ErrNoAvailableIPs, s1) \<Rightarrow> (DhcpErr NoAvailableIPs, s1)
      | (AllocPanic, s1) \<Rightarrow> (DhcpPanic, s1))"

definition requested_ip :: "dhcp_message \<Rightarrow> ip" where
  "requested_ip msg = (case Options msg OptionRequestedIP of Some v \<Rightarrow> v | None \<Rightarrow> YourIP msg)"

text \<open>A renewal writes to the lease object, which the database may share.\<close>

definition renew_lease :: "instant \<Rightarrow> string \<Rightarrow> dhcp_lease \<Rightarrow> dhcp_server \<Rightarrow> dhcp_server" where
  "renew_lease now macStr l s =
     (let l1 = l\<lparr>dl_ExpiresAt := now + sc_LeaseDuration (sv_config s)\<rparr>
      in s\<lparr>sv_leases := (sv_leases s)(macStr \<mapsto> l1),
           sv_leaseDB := map_option
             (\<lambda>db. db\<lparr>db_leases := (\<lambda>k. map_option (\<lambda>x. if dl_obj x = dl_obj l then l1 else x) (db_leases db k))\<rparr>)
             (sv_leaseDB s)\<rparr>)"

definition handleRequest :: "(string \<Rightarrow> string) option \<Rightarrow> dhcp_env \<Rightarrow> dhcp_message \<Rightarrow> dhcp_server
    \<Rightarrow> dhcp_reply \<times> dhcp_server" where
  "handleRequest smart env msg s =
     (let macStr = HardwareAddr_String (ClientHardware msg); requested = requested_ip msg
      in if \<not> IPNet_Contains (sc_Network (sv_config s)) requested then (NoReply, s)
         else
           let allocate =
             (case allocateIP smart (dv_check env) (dv_lease env) (ClientHardware msg) s of
                (AllocIP ip, s1) \<Rightarrow> (Reply (buildResponse (sv_config s1) (dv_stale env) msg 5 (Some ip)), s1)
              | (ErrNoAvailableIPs, s1) \<Rightarrow> (DhcpErr NoAvailableIPs, s1)
              | (AllocPanic, s1) \<Rightarrow> (DhcpPanic, s1))
           in case sv_leases s macStr of
                None \<Rightarrow> allocate
              | Some l \<Rightarrow>
                  if IP_Equal (dl_IP l) requested
                  then (Reply (buildResponse (sv_config s) (dv_stale env) msg 5 (Some requested)),
                        renew_lease (dv_renew env) macStr l s)
                  else allocate)"

definition handleRelease :: "dhcp_message \<Rightarrow> dhcp_server \<Rightarrow> dhcp_reply \<times> dhcp_server" where
  "handleRelease msg s =
     (let macStr = HardwareAddr_String (ClientHardware msg)
      in case sv_leases s macStr of
           None \<Rightarrow> (NoReply, s)
         | Some l \<Rightarrow>
             (NoReply,
              s\<lparr>sv_ipIndex := (sv_ipIndex s)(IP_String (dl_IP l) := None),
                sv_leases := (sv_leases s)(macStr := None),
                sv_leaseCount := i32 (sv_leaseCount s - 1),
                sv_leaseDB := map_option (DeleteLease (ClientHardware msg)) (sv_leaseDB s)\<rparr>))"

definition handleInform :: "dhcp_env \<Rightarrow> dhcp_message \<Rightarrow> dhcp_server \<Rightarrow> dhcp_reply \<times> dhcp_server" where
  "handleInform env msg s = (Reply (buildResponse (sv_config s) (dv_stale env) msg 5 None), s)"

definition processDHCPRequest :: "(string \<Rightarrow> string) option \<Rightarrow> dhcp_env \<Rightarrow> byte list \<Rightarrow> dhcp_server
    \<Rightarrow> dhcp_reply \<times> dhcp_server" where
  "processDHCPRequest smart env d s =
     (case ParseDHCPMessage d of
        ParsePanic \<Rightarrow> (DhcpPanic, s)
      | ErrInvalidDHCPMessage \<Rightarrow> (DhcpErr InvalidMessage, s)
      | Parsed msg \<Rightarrow>
          (case Options msg OptionDHCPMessageType of
             None \<Rightarrow> (DhcpErr InvalidMessageType, s)
           | Some [] \<Rightarrow> (DhcpErr InvalidMessageType, s)
           | Some (ty # _) \<Rightarrow>
               if ty = 1 then handleDiscover smart env msg s
               else if ty = 3 then handleRequest smart env msg s
               else if ty = 7 then handleRelease msg s
               else if ty = 8 then handleInform env msg s
               else (NoReply, s)))"

text \<open>How \<open>HandleRequest\<close> gets its answer: from a worker (whose error it does not see), not in time, or
  itself because the queue is full.\<close>

datatype queue_mode = Queued | QueuedTimeout | QueueFull

datatype handle_result = Handled dhcp_reply | DeadlineExceeded

definition HandleRequest :: "(string \<Rightarrow> string) option \<Rightarrow> queue_mode \<Rightarrow> dhcp_env \<Rightarrow> byte list \<Rightarrow> dhcp_server
    \<Rightarrow> handle_result \<times> dhcp_server" where
  "HandleRequest smart mode env d s =
     (case ParseDHCPMessage d of
        ParsePanic \<Rightarrow> (Handled DhcpPanic, s)
      | ErrInvalidDHCPMessage \<Rightarrow> (Handled (DhcpErr InvalidMessage), s)
      | Parsed msg \<Rightarrow>
          (case checkRateLimit (dv_rate env) (HardwareAddr_String (ClientHardware msg)) s of
             (False, s1) \<Rightarrow> (Handled NoReply, s1)
           | (True, s1) \<Rightarrow>
               let (r, s2) = processDHCPRequest smart env d s1
               in (case mode of
                     QueuedTimeout \<Rightarrow> (DeadlineExceeded, s2)
                   | Queued \<Rightarrow> (Handled (case r of DhcpErr _ \<Rightarrow> NoReply | x \<Rightarrow> x), s2)
                   | QueueFull \<Rightarrow> (Handled r, s2))))"

subsection \<open>Expiry\<close>

definition lease_expired :: "instant \<Rightarrow> dhcp_server \<Rightarrow> string \<Rightarrow> bool" where
  "lease_expired now s k = (case sv_leases s k of None \<Rightarrow> False | Some l \<Rightarrow> now > dl_ExpiresAt l)"

definition cleanupLeases :: "string list \<Rightarrow> instant \<Rightarrow> string list \<Rightarrow> instant \<Rightarrow> dhcp_server \<Rightarrow> dhcp_server" where
  "cleanupLeases ord now dbOrd dbNow s =
     (let gone = filter (lease_expired now s) ord;
          s1 = s\<lparr>sv_ipIndex := del_keys (sv_ipIndex s) (map (\<lambda>k. IP_String (dl_IP (the (sv_leases s k)))) gone),
                 sv_leases := del_keys (sv_leases s) gone\<rparr>
      in if length gone > 0
         then s1\<lparr>sv_leaseCount := i32 (sv_leaseCount s - int (length gone)),
                 sv_leaseDB := map_option (CleanupExpired dbOrd dbNow) (sv_leaseDB s)\<rparr>
         else s1)"

definition GetLeaseCount :: "dhcp_server \<Rightarrow> int" where
  "GetLeaseCount s = sv_leaseCount s"

subsection \<open>Addresses as numbers\<close>

text \<open>The number an IPv4 address denotes.\<close>

definition ipv :: "ip \<Rightarrow> nat" where
  "ipv a = rval (rev (to4 a))"

lemma length_inc_carry [simp]: "length (inc_carry bs) = length bs"
  by (induction bs) auto

lemma rval_inc: "rval bs + 1 < 256 ^ length bs \<Longrightarrow> rval (inc_carry bs) = rval bs + 1"
proof (induction bs)
  case Nil
  then show ?case by simp
next
  case (Cons b bs)
  show ?case
  proof (cases "b + 1 = 0")
    case True
    then have "b = - 1" by (simp add: eq_neg_iff_add_eq_0)
    then have b: "unat b = 255" by (simp add: unsigned_minus_1_eq_mask mask_eq_exp_minus_1)
    then have "rval bs + 1 < 256 ^ length bs" using Cons.prems by simp
    then show ?thesis using True b Cons.IH by simp
  next
    case False
    then have "unat (b + 1) = unat b + 1" by (simp add: unatSuc add.commute)
    with False show ?thesis by simp
  qed
qed

subsection \<open>The pool\<close>

definition in_pool :: "server_config \<Rightarrow> ip \<Rightarrow> bool" where
  "in_pool cfg a \<longleftrightarrow> To4 a \<noteq> None \<and> ipv (sc_FirstIP cfg) \<le> ipv a \<and> ipv a \<le> ipv (sc_LastIP cfg)"

text \<open>A pool of IPv4 addresses inside the network, below the last address of all.\<close>

definition pool_ok :: "server_config \<Rightarrow> bool" where
  "pool_ok cfg \<longleftrightarrow> To4 (sc_FirstIP cfg) \<noteq> None \<and> To4 (sc_LastIP cfg) \<noteq> None \<and>
     ipv (sc_FirstIP cfg) \<le> ipv (sc_LastIP cfg) \<and> ipv (sc_LastIP cfg) + 1 < 256 ^ 4 \<and>
     (\<forall>a. in_pool cfg a \<longrightarrow> IPNet_Contains (sc_Network cfg) a)"

lemma to4_length: "To4 a \<noteq> None \<Longrightarrow> length (to4 a) = 4"
  by (auto simp: to4_def dest: To4_length)

lemma ip_u32_ipv: "To4 a \<noteq> None \<Longrightarrow> unat (ip_u32 a) = ipv a"
  by (simp add: ip_u32_def ipv_def unat_get32 to4_length)

lemma incrementIP_ipv:
  assumes "To4 a \<noteq> None" and "ipv a + 1 < 256 ^ 4"
  shows "To4 (incrementIP a) \<noteq> None" and "ipv (incrementIP a) = ipv a + 1"
proof -
  have inc: "incrementIP a = rev (inc_carry (rev (to4 a)))"
    using assms(1) by (auto simp: incrementIP_def to4_def)
  have len: "length (incrementIP a) = 4" using to4_length [OF assms(1)] by (simp add: inc)
  then show "To4 (incrementIP a) \<noteq> None" by (simp add: To4_def)
  have "to4 (incrementIP a) = incrementIP a" using len by simp
  then show "ipv (incrementIP a) = ipv a + 1"
    using rval_inc [of "rev (to4 a)"] assms(2) to4_length [OF assms(1)] by (simp add: ipv_def inc)
qed

lemma next_pool_ip_spec:
  assumes "pool_ok cfg" and "in_pool cfg a"
  shows "in_pool cfg (next_pool_ip cfg a) \<and>
         ipv (next_pool_ip cfg a) = (if ipv a = ipv (sc_LastIP cfg) then ipv (sc_FirstIP cfg) else ipv a + 1)"
proof -
  have a: "To4 a \<noteq> None" "ipv a + 1 < 256 ^ 4" "ipv (sc_FirstIP cfg) \<le> ipv a" "ipv a \<le> ipv (sc_LastIP cfg)"
    using assms by (auto simp: pool_ok_def in_pool_def)
  note inc = incrementIP_ipv [OF a(1,2)]
  have last: "To4 (sc_LastIP cfg) \<noteq> None" "To4 (sc_FirstIP cfg) \<noteq> None"
    using assms(1) by (simp_all add: pool_ok_def)
  have past: "ip_u32 (incrementIP a) > ip_u32 (sc_LastIP cfg) \<longleftrightarrow> ipv a = ipv (sc_LastIP cfg)"
    using a(4) inc by (auto simp: word_less_nat_alt ip_u32_ipv last)
  show ?thesis
  proof (cases "ipv a = ipv (sc_LastIP cfg)")
    case True
    then show ?thesis using past assms(1) by (simp add: next_pool_ip_def in_pool_def pool_ok_def)
  next
    case False
    then have "in_pool cfg (incrementIP a)" using inc a by (simp add: in_pool_def)
    then show ?thesis
      using False past inc assms(1) by (simp add: next_pool_ip_def pool_ok_def)
  qed
qed

lemma v4_string_inj:
  assumes "length a = 4" and "length b = 4" and "v4_string a = v4_string b"
  shows "a = b"
proof -
  have split: "Split CHR ''.'' (v4_string c) = map (\<lambda>b. FormatUint (unat b)) c" if "length c = 4" for c
  proof -
    have "CHR ''.'' \<notin> set (FormatUint n)" for n
      by (metis FormatUint_is_digit is_digit_dot)
    then show ?thesis using that unfolding v4_string_def by (intro Split_Join) auto
  qed
  have "map (\<lambda>b. FormatUint (unat b)) a = map (\<lambda>b. FormatUint (unat b)) b"
    using split assms by metis
  moreover have "inj (\<lambda>b :: byte. FormatUint (unat b))"
    by (rule injI) (simp add: FormatUint_inj word_unat_eq_iff)
  ultimately show ?thesis by (metis inj_map_eq_map)
qed

lemma ipv_eq_iff:
  assumes "To4 a \<noteq> None" and "To4 b \<noteq> None"
  shows "IP_String a = IP_String b \<longleftrightarrow> ipv a = ipv b" and "IP_Equal a b \<longleftrightarrow> ipv a = ipv b"
proof -
  obtain x y where xy: "To4 a = Some x" "To4 b = Some y" using assms by auto
  note len = To4_length [OF xy(1)] To4_length [OF xy(2)]
  have v: "ipv a = ipv b \<longleftrightarrow> x = y"
    using rval_inj [of "rev x" "rev y"] len xy by (auto simp: ipv_def to4_def)
  show "IP_String a = IP_String b \<longleftrightarrow> ipv a = ipv b"
    using v v4_string_inj [OF len] xy by (auto simp: IP_String_v4)
  have "IP_Equal a b \<longleftrightarrow> x = y"
    using xy by (auto simp: IP_Equal_def To4_def split: if_splits) (metis append_take_drop_id)+
  then show "IP_Equal a b \<longleftrightarrow> ipv a = ipv b" using v by simp
qed

subsection \<open>Walking the pool\<close>

definition pool_size :: "server_config \<Rightarrow> nat" where
  "pool_size cfg = ipv (sc_LastIP cfg) - ipv (sc_FirstIP cfg) + 1"

lemma walk_pool:
  assumes "pool_ok cfg" and "in_pool cfg a"
  shows "in_pool cfg ((next_pool_ip cfg ^^ d) a) \<and>
         ipv ((next_pool_ip cfg ^^ d) a) =
           ipv (sc_FirstIP cfg) + (ipv a - ipv (sc_FirstIP cfg) + d) mod pool_size cfg"
proof (induction d)
  case 0
  then show ?case using assms by (auto simp: in_pool_def pool_size_def)
next
  case (Suc d)
  let ?F = "ipv (sc_FirstIP cfg)" and ?n = "pool_size cfg" and ?x = "(next_pool_ip cfg ^^ d) a"
  have ord: "?F \<le> ipv (sc_LastIP cfg)" using assms(1) by (simp add: pool_ok_def)
  have wrap: "ipv ?x = ipv (sc_LastIP cfg) \<longleftrightarrow> Suc ((ipv a - ?F + d) mod ?n) = ?n"
    using Suc ord by (auto simp: pool_size_def)
  show ?case
    using next_pool_ip_spec [OF assms(1), of ?x] Suc wrap
    by (auto simp: mod_Suc)
qed

lemma walk_reaches:
  assumes "pool_ok cfg" and "in_pool cfg a" and "in_pool cfg b"
  obtains d where "d < pool_size cfg" and "ipv ((next_pool_ip cfg ^^ d) a) = ipv b"
    and "\<forall>i. 1 \<le> i \<and> i \<le> d \<longrightarrow> ipv ((next_pool_ip cfg ^^ i) a) \<noteq> ipv a"
proof -
  let ?F = "ipv (sc_FirstIP cfg)" and ?n = "pool_size cfg"
  have n: "0 < ?n" by (simp add: pool_size_def)
  have off: "ipv a - ?F < ?n" "ipv b - ?F < ?n" using assms(2,3) by (auto simp: in_pool_def pool_size_def)
  have window: "(\<lambda>j. (int (ipv a - ?F) + int j) mod int ?n) ` {0..<?n} = {0..<int ?n}"
    by (rule mod_window_image [OF n])
  then have "int (ipv b - ?F) \<in> (\<lambda>j. (int (ipv a - ?F) + int j) mod int ?n) ` {0..<?n}" using off by simp
  then obtain d where d: "d < ?n" "(ipv a - ?F + d) mod ?n = ipv b - ?F"
    by (auto simp: zmod_int [symmetric] of_nat_add [symmetric] simp del: of_nat_add)
  have "ipv ((next_pool_ip cfg ^^ d) a) = ipv b"
    using walk_pool [OF assms(1,2), of d] d(2) assms(3) by (auto simp: in_pool_def)
  moreover have "ipv ((next_pool_ip cfg ^^ i) a) \<noteq> ipv a" if "1 \<le> i" "i \<le> d" for i
  proof
    assume "ipv ((next_pool_ip cfg ^^ i) a) = ipv a"
    then have "ipv a = ?F + (ipv a - ?F + i) mod ?n" using walk_pool [OF assms(1,2), of i] by metis
    then have "(ipv a - ?F + i) mod ?n = ipv a - ?F" by linarith
    then have "(int (ipv a - ?F) + int i) mod int ?n = (int (ipv a - ?F) + int 0) mod int ?n"
      using off by (metis add.right_neutral of_nat_0 of_nat_add of_nat_mod mod_less)
    then have "i = 0" using mod_window_inj [OF n, of "int (ipv a - ?F)" i 0] that d(1) n by auto
    then show False using that by simp
  qed
  ultimately show thesis using that [of d] d(1) by blast
qed

lemma ip_free_cong: "To4 a \<noteq> None \<Longrightarrow> To4 b \<noteq> None \<Longrightarrow> ipv a = ipv b \<Longrightarrow> ip_free s a = ip_free s b"
  using ipv_eq_iff(1) [of a b] by (simp add: ip_free_def)

lemma alloc_loop_finds:
  assumes "pool_ok (sv_config s)" and "in_pool (sv_config s) (sv_nextIP s)" and "in_pool (sv_config s) st"
    and "d < k" and "ip_free s ((next_pool_ip (sv_config s) ^^ d) (sv_nextIP s))"
    and "\<forall>i. 1 \<le> i \<and> i \<le> d \<longrightarrow> ipv ((next_pool_ip (sv_config s) ^^ i) (sv_nextIP s)) \<noteq> ipv st"
  shows "\<exists>ip s'. alloc_loop now mac st k s = (AllocIP ip, s')"
  using assms
proof (induction d arbitrary: s k)
  case 0
  then show ?case by (cases k) (auto simp: Let_def)
next
  case (Suc d)
  obtain k' where k: "k = Suc k'" using Suc.prems(4) by (cases k) auto
  let ?cfg = "sv_config s" and ?s1 = "s\<lparr>sv_nextIP := next_pool_ip (sv_config s) (sv_nextIP s)\<rparr>"
  have next1: "in_pool ?cfg (next_pool_ip ?cfg (sv_nextIP s))"
    using next_pool_ip_spec [OF Suc.prems(1,2)] by simp
  have neq: "\<not> IP_Equal (sv_nextIP ?s1) st"
    using Suc.prems(6) [rule_format, of 1] ipv_eq_iff(2) next1 Suc.prems(3) by (simp add: in_pool_def)
  have shift: "(next_pool_ip ?cfg ^^ i) (next_pool_ip ?cfg a) = (next_pool_ip ?cfg ^^ Suc i) a" for i a
    by (simp add: funpow_swap1)
  show ?case
  proof (cases "ip_free s (sv_nextIP s)")
    case True
    then show ?thesis by (simp add: k Let_def)
  next
    case False
    have "\<exists>ip s'. alloc_loop now mac st k' ?s1 = (AllocIP ip, s')"
    proof (rule Suc.IH)
      show "ip_free ?s1 ((next_pool_ip (sv_config ?s1) ^^ d) (sv_nextIP ?s1))"
        using Suc.prems(5) by (simp add: shift ip_free_def del: funpow.simps)
      show "\<forall>i. 1 \<le> i \<and> i \<le> d \<longrightarrow> ipv ((next_pool_ip (sv_config ?s1) ^^ i) (sv_nextIP ?s1)) \<noteq> ipv st"
        using Suc.prems(6) by (simp add: shift del: funpow.simps)
    qed (use Suc.prems next1 k in auto)
    then show ?thesis using False neq by (simp add: k Let_def)
  qed
qed

lemma maxAttempts:
  assumes "pool_ok cfg"
  shows "unat (ip_u32 (sc_LastIP cfg) - ip_u32 (sc_FirstIP cfg) + 1) = pool_size cfg"
proof -
  have v: "unat (ip_u32 (sc_LastIP cfg)) = ipv (sc_LastIP cfg)" "unat (ip_u32 (sc_FirstIP cfg)) = ipv (sc_FirstIP cfg)"
    "ipv (sc_FirstIP cfg) \<le> ipv (sc_LastIP cfg)" "ipv (sc_LastIP cfg) + 1 < 256 ^ 4"
    using assms by (simp_all add: pool_ok_def ip_u32_ipv)
  then have sub: "unat (ip_u32 (sc_LastIP cfg) - ip_u32 (sc_FirstIP cfg)) = ipv (sc_LastIP cfg) - ipv (sc_FirstIP cfg)"
    by (simp add: unat_sub word_le_nat_alt)
  then show ?thesis
    using v by (subst unat_add_lem [THEN iffD1]) (auto simp: pool_size_def)
qed

subsection \<open>Invariant of a server without restored or device-based leases\<close>

definition server_inv :: "dhcp_server \<Rightarrow> bool" where
  "server_inv s \<longleftrightarrow> pool_ok (sv_config s) \<and> in_pool (sv_config s) (sv_nextIP s) \<and>
     (\<forall>m l. sv_leases s m = Some l \<longrightarrow>
        sv_ipIndex s (IP_String (dl_IP l)) = Some m \<and> in_pool (sv_config s) (dl_IP l) \<and>
        IP_String (dl_IP l) \<notin> sv_reserved s)"

text \<open>The same while an allocation for one client has dropped the index of its old address.\<close>

definition alloc_inv :: "string \<Rightarrow> dhcp_server \<Rightarrow> bool" where
  "alloc_inv mac s \<longleftrightarrow> pool_ok (sv_config s) \<and> in_pool (sv_config s) (sv_nextIP s) \<and>
     (\<forall>m l. sv_leases s m = Some l \<longrightarrow> m \<noteq> mac \<longrightarrow>
        sv_ipIndex s (IP_String (dl_IP l)) = Some m \<and> in_pool (sv_config s) (dl_IP l) \<and>
        IP_String (dl_IP l) \<notin> sv_reserved s)"

lemma forget_index_inv:
  assumes "server_inv s"
  shows "alloc_inv (HardwareAddr_String mac) (forget_index mac s)"
proof (cases "sv_leases s (HardwareAddr_String mac)")
  case None
  then show ?thesis using assms by (simp add: forget_index_def server_inv_def alloc_inv_def)
next
  case (Some l)
  have other: "IP_String (dl_IP l') \<noteq> IP_String (dl_IP l)"
    if "sv_leases s m = Some l'" and "m \<noteq> HardwareAddr_String mac" for m l'
  proof -
    have "sv_ipIndex s (IP_String (dl_IP l')) = Some m"
      "sv_ipIndex s (IP_String (dl_IP l)) = Some (HardwareAddr_String mac)"
      using assms Some that(1) by (auto simp: server_inv_def)
    then show ?thesis using that(2) by auto
  qed
  have "forget_index mac s = s\<lparr>sv_ipIndex := (sv_ipIndex s)(IP_String (dl_IP l) := None)\<rparr>"
    using Some by (simp add: forget_index_def)
  then show ?thesis
    using assms other unfolding server_inv_def alloc_inv_def by simp
qed

lemma alloc_loop_inv:
  assumes "alloc_inv (HardwareAddr_String mac) s" and "alloc_loop now mac st k s = (AllocIP ip, s')"
  shows "server_inv s' \<and> in_pool (sv_config s) ip \<and> IP_String ip \<notin> sv_reserved s \<and>
         sv_reserved s' = sv_reserved s \<and> sv_config s' = sv_config s"
  using assms
proof (induction k arbitrary: s)
  case 0
  then show ?case by simp
next
  case (Suc k)
  have pool: "pool_ok (sv_config s)" "in_pool (sv_config s) (sv_nextIP s)"
    using Suc.prems(1) by (simp_all add: alloc_inv_def)
  have nxt: "in_pool (sv_config s) (next_pool_ip (sv_config s) (sv_nextIP s))"
    using next_pool_ip_spec [OF pool] by simp
  show ?case
  proof (cases "ip_free s (sv_nextIP s)")
    case True
    then have "ip = sv_nextIP s" and s': "s' = (add_lease now mac (sv_nextIP s) s)
        \<lparr>sv_ipIndex := (sv_ipIndex s)(IP_String (sv_nextIP s) \<mapsto> HardwareAddr_String mac),
         sv_nextIP := next_pool_ip (sv_config s) (sv_nextIP s)\<rparr>"
      using Suc.prems(2) by (auto simp: Let_def add_lease_def)
    moreover have "IP_String (dl_IP l) \<noteq> IP_String (sv_nextIP s)"
      if "sv_leases s m = Some l" and "m \<noteq> HardwareAddr_String mac" for m l
      using True Suc.prems(1) that unfolding ip_free_def alloc_inv_def by (metis option.distinct(1))
    ultimately show ?thesis
      using True Suc.prems(1) pool nxt
      by (auto simp: server_inv_def alloc_inv_def add_lease_def Let_def ip_free_def)
  next
    case False
    let ?s1 = "s\<lparr>sv_nextIP := next_pool_ip (sv_config s) (sv_nextIP s)\<rparr>"
    have "alloc_loop now mac st k ?s1 = (AllocIP ip, s')"
      using False Suc.prems(2) by (auto simp: Let_def split: if_splits)
    moreover have "alloc_inv (HardwareAddr_String mac) ?s1"
      using Suc.prems(1) nxt by (simp add: alloc_inv_def)
    ultimately show ?thesis using Suc.IH [of ?s1] by simp
  qed
qed

lemma alloc_loop_fail:
  assumes "alloc_inv mac s" and "fst (alloc_loop now m st k s) = ErrNoAvailableIPs"
  shows "\<exists>n. snd (alloc_loop now m st k s) = s\<lparr>sv_nextIP := n\<rparr> \<and> in_pool (sv_config s) n"
  using assms
proof (induction k arbitrary: s)
  case 0
  then show ?case by (auto simp: alloc_inv_def intro!: exI [of _ "sv_nextIP s"])
next
  case (Suc k)
  let ?n = "next_pool_ip (sv_config s) (sv_nextIP s)"
  have nxt: "in_pool (sv_config s) ?n"
    using next_pool_ip_spec Suc.prems(1) by (simp add: alloc_inv_def)
  have "alloc_inv mac (s\<lparr>sv_nextIP := ?n\<rparr>)" using Suc.prems(1) nxt by (simp add: alloc_inv_def)
  then show ?case
    using Suc.IH [of "s\<lparr>sv_nextIP := ?n\<rparr>"] Suc.prems(2) nxt
    by (auto simp: Let_def split: if_splits)
qed

lemma alloc_loop_no_panic: "fst (alloc_loop now m st k s) \<noteq> AllocPanic"
  by (induction k arbitrary: s) (auto simp: Let_def)

text \<open>Allocation succeeds when some address of the pool is free once the client's old address counts as
  free.\<close>

lemma legacyAllocateIP_finds:
  assumes "server_inv s" and "in_pool (sv_config s) a" and "ip_free (forget_index mac s) a"
  shows "\<exists>ip s'. legacyAllocateIP now mac s = (AllocIP ip, s') \<and> server_inv s' \<and>
           in_pool (sv_config s) ip \<and> IP_String ip \<notin> sv_reserved s \<and> sv_reserved s' = sv_reserved s \<and>
           sv_config s' = sv_config s"
proof -
  let ?s1 = "forget_index mac s" and ?cfg = "sv_config s"
  have same: "sv_config ?s1 = ?cfg" "sv_nextIP ?s1 = sv_nextIP s" "sv_reserved ?s1 = sv_reserved s"
    by (simp_all add: forget_index_def split: option.split)
  have inv: "alloc_inv (HardwareAddr_String mac) ?s1" by (rule forget_index_inv [OF assms(1)])
  have pool: "pool_ok ?cfg" "in_pool ?cfg (sv_nextIP s)" using assms(1) by (simp_all add: server_inv_def)
  obtain d where d: "d < pool_size ?cfg" "ipv ((next_pool_ip ?cfg ^^ d) (sv_nextIP s)) = ipv a"
    "\<forall>i. 1 \<le> i \<and> i \<le> d \<longrightarrow> ipv ((next_pool_ip ?cfg ^^ i) (sv_nextIP s)) \<noteq> ipv (sv_nextIP s)"
    using walk_reaches [OF pool assms(2)] by metis
  have "ip_free ?s1 ((next_pool_ip ?cfg ^^ d) (sv_nextIP s))"
    using walk_pool [OF pool, of d] d(2) assms(2,3)
      ip_free_cong [of "(next_pool_ip ?cfg ^^ d) (sv_nextIP s)" a ?s1]
    unfolding in_pool_def by blast
  then have "\<exists>ip s'. alloc_loop now mac (sv_nextIP s) (pool_size ?cfg) ?s1 = (AllocIP ip, s')"
    using pool d by (intro alloc_loop_finds [where d = d]) (simp_all add: same)
  then obtain ip s' where loop: "alloc_loop now mac (sv_nextIP s) (pool_size ?cfg) ?s1 = (AllocIP ip, s')"
    by blast
  moreover have "legacyAllocateIP now mac s = alloc_loop now mac (sv_nextIP s) (pool_size ?cfg) ?s1"
    using pool(1) maxAttempts [OF pool(1)] same by (auto simp: legacyAllocateIP_def Let_def pool_ok_def)
  ultimately show ?thesis using alloc_loop_inv [OF inv loop] same by simp
qed

definition grants_ok :: "dhcp_server \<Rightarrow> alloc_result \<Rightarrow> bool" where
  "grants_ok s r \<longleftrightarrow> (case r of
     AllocIP ip \<Rightarrow> in_pool (sv_config s) ip \<and> IP_String ip \<notin> sv_reserved s
   | ErrNoAvailableIPs \<Rightarrow> True
   | AllocPanic \<Rightarrow> False)"

lemma legacyAllocateIP_inv:
  assumes "server_inv s" and "legacyAllocateIP now mac s = (r, s')"
  shows "server_inv s' \<and> grants_ok s r"
proof (cases "\<exists>a. in_pool (sv_config s) a \<and> ip_free (forget_index mac s) a")
  case True
  then obtain a where "in_pool (sv_config s) a" "ip_free (forget_index mac s) a" by blast
  from legacyAllocateIP_finds [OF assms(1) this, of now] assms(2) show ?thesis
    by (auto simp: grants_ok_def)
next
  case False
  have "sv_leases s (HardwareAddr_String mac) = None"
  proof (rule ccontr)
    assume "sv_leases s (HardwareAddr_String mac) \<noteq> None"
    then obtain l where l: "sv_leases s (HardwareAddr_String mac) = Some l" by blast
    then have "in_pool (sv_config s) (dl_IP l)" "ip_free (forget_index mac s) (dl_IP l)"
      using assms(1) by (simp_all add: server_inv_def forget_index_def ip_free_def)
    with False show False by blast
  qed
  then have s1: "forget_index mac s = s" by (simp add: forget_index_def)
  have pool: "pool_ok (sv_config s)" using assms(1) by (simp add: server_inv_def)
  have loop: "alloc_loop now mac (sv_nextIP s) (pool_size (sv_config s)) s = (r, s')"
    using assms(2) pool maxAttempts [OF pool] s1 by (auto simp: legacyAllocateIP_def Let_def pool_ok_def)
  have inv: "alloc_inv (HardwareAddr_String mac) s" using assms(1) by (simp add: alloc_inv_def server_inv_def)
  show ?thesis
  proof (cases r)
    case (AllocIP ip)
    then show ?thesis using alloc_loop_inv [OF inv] loop by (simp add: grants_ok_def)
  next
    case ErrNoAvailableIPs
    then show ?thesis
      using alloc_loop_fail [OF inv, of now mac "sv_nextIP s" "pool_size (sv_config s)"] loop assms(1)
      by (auto simp: grants_ok_def server_inv_def)
  next
    case AllocPanic
    then show ?thesis using alloc_loop_no_panic [of now mac "sv_nextIP s" "pool_size (sv_config s)" s] loop by simp
  qed
qed

lemma allocateIP_inv:
  assumes "server_inv s" and "allocateIP None t1 t2 mac s = (r, s')"
  shows "server_inv s' \<and> grants_ok s r"
proof (cases "sv_leases s (HardwareAddr_String mac)")
  case None
  then show ?thesis using legacyAllocateIP_inv [OF assms(1)] assms(2) by (simp add: allocateIP_def)
next
  case (Some l)
  then show ?thesis
    using legacyAllocateIP_inv [OF assms(1)] assms
    by (auto simp: allocateIP_def Let_def grants_ok_def server_inv_def split: if_splits)
qed

lemma server_inv_frame [simp]:
  "server_inv (s\<lparr>sv_requestCount := x\<rparr>) = server_inv s"
  "server_inv (s\<lparr>sv_leaseDB := d\<rparr>) = server_inv s"
  "server_inv (s\<lparr>sv_leaseCount := c\<rparr>) = server_inv s"
  by (simp_all add: server_inv_def)

lemma checkRateLimit_inv: "checkRateLimit now mac s = (b, s') \<Longrightarrow> server_inv s \<Longrightarrow> server_inv s'"
  by (auto simp: checkRateLimit_def Let_def split: if_splits)

lemma renew_lease_inv:
  assumes "server_inv s" and "sv_leases s mac = Some l"
  shows "server_inv (renew_lease now mac l s)"
  using assms by (auto simp: server_inv_def renew_lease_def Let_def)

text \<open>Removing leases together with their index entries keeps the invariant.\<close>

lemma remove_leases_inv:
  assumes "server_inv s" and "set gone \<subseteq> dom (sv_leases s)"
  shows "server_inv (s\<lparr>sv_ipIndex := del_keys (sv_ipIndex s) (map (\<lambda>k. IP_String (dl_IP (the (sv_leases s k)))) gone),
                       sv_leases := del_keys (sv_leases s) gone\<rparr>)"
proof -
  have "IP_String (dl_IP l) \<notin> (\<lambda>k. IP_String (dl_IP (the (sv_leases s k)))) ` set gone"
    if "sv_leases s m = Some l" and "m \<notin> set gone" for m l
  proof
    assume "IP_String (dl_IP l) \<in> (\<lambda>k. IP_String (dl_IP (the (sv_leases s k)))) ` set gone"
    then obtain k l' where k: "k \<in> set gone" "sv_leases s k = Some l'" "IP_String (dl_IP l) = IP_String (dl_IP l')"
      using assms(2) by force
    have "sv_ipIndex s (IP_String (dl_IP l)) = Some m" "sv_ipIndex s (IP_String (dl_IP l')) = Some k"
      using assms(1) that(1) k(2) by (auto simp: server_inv_def)
    then show False using k that(2) by simp
  qed
  then show ?thesis using assms(1) by (simp add: server_inv_def)
qed

lemma handleRelease_inv:
  assumes "server_inv s"
  shows "server_inv (snd (handleRelease msg s))"
proof (cases "sv_leases s (HardwareAddr_String (ClientHardware msg))")
  case None
  then show ?thesis using assms by (simp add: handleRelease_def)
next
  case (Some l)
  have "(sv_ipIndex s)(IP_String (dl_IP l) := None) = del_keys (sv_ipIndex s) [IP_String (dl_IP l)]"
    "(sv_leases s)(HardwareAddr_String (ClientHardware msg) := None) =
      del_keys (sv_leases s) [HardwareAddr_String (ClientHardware msg)]"
    by (auto simp: fun_eq_iff)
  then show ?thesis
    using remove_leases_inv [OF assms, of "[HardwareAddr_String (ClientHardware msg)]"] Some
    by (simp add: handleRelease_def server_inv_def domIff)
qed

lemma cleanupLeases_inv:
  assumes "server_inv s" and "range_of (sv_leases s) ord"
  shows "server_inv (cleanupLeases ord now dbOrd dbNow s)"
proof -
  have "set (filter (lease_expired now s) ord) \<subseteq> dom (sv_leases s)"
    using assms(2) by (auto simp: range_of_def)
  from remove_leases_inv [OF assms(1) this] assms(1) show ?thesis
    by (simp add: cleanupLeases_def Let_def server_inv_def)
qed

lemma handlers_inv:
  assumes "server_inv s"
  shows "server_inv (snd (handleDiscover None env msg s))" and "server_inv (snd (handleRequest None env msg s))"
proof -
  obtain r s' where a: "allocateIP None (dv_check env) (dv_lease env) (ClientHardware msg) s = (r, s')" by fastforce
  note inv = allocateIP_inv [OF assms a]
  show "server_inv (snd (handleDiscover None env msg s))"
    using a inv by (cases r) (simp_all add: handleDiscover_def)
  show "server_inv (snd (handleRequest None env msg s))"
    using a inv assms renew_lease_inv [OF assms]
    by (cases r) (auto simp: handleRequest_def Let_def split: option.splits)
qed

lemma processDHCPRequest_inv: "server_inv s \<Longrightarrow> server_inv (snd (processDHCPRequest None env d s))"
  by (simp add: processDHCPRequest_def handlers_inv handleRelease_inv handleInform_def
      split: dhcp_parse.split option.split list.split)

lemma HandleRequest_inv:
  assumes "server_inv s"
  shows "server_inv (snd (HandleRequest None mode env d s))"
proof (cases "ParseDHCPMessage d")
  case (Parsed msg)
  obtain b s1 where c: "checkRateLimit (dv_rate env) (HardwareAddr_String (ClientHardware msg)) s = (b, s1)"
    by fastforce
  have "server_inv s1" by (rule checkRateLimit_inv [OF c assms])
  from processDHCPRequest_inv [OF this, of env d] show ?thesis
    using Parsed c \<open>server_inv s1\<close>
    by (cases b) (simp_all add: HandleRequest_def case_prod_unfold Let_def split: queue_mode.split)
qed (use assms in \<open>simp_all add: HandleRequest_def\<close>)

inductive dhcp_step :: "dhcp_server \<Rightarrow> dhcp_server \<Rightarrow> bool" where
  request: "dhcp_step s (snd (HandleRequest None mode env d s))"
| cleanup: "range_of (sv_leases s) ord \<Longrightarrow> dhcp_step s (cleanupLeases ord now dbOrd dbNow s)"
| limits: "dhcp_step s (cleanupRateLimit now ord1 ord2 s)"

interpretation dhcpsys: invariant_system
  "\<lambda>s. \<exists>cfg obj. pool_ok cfg \<and> s = NewServer cfg None [] obj" dhcp_step server_inv
proof unfold_locales
  fix s
  assume "\<exists>cfg obj. pool_ok cfg \<and> s = NewServer cfg None [] obj"
  then show "server_inv s"
    by (auto simp: NewServer_def server_inv_def in_pool_def pool_ok_def)
next
  fix s s'
  assume "server_inv s" and "dhcp_step s s'"
  then show "server_inv s'"
    by (auto elim!: dhcp_step.cases intro: HandleRequest_inv cleanupLeases_inv
        simp: cleanupRateLimit_def Let_def)
qed

subsection \<open>Properties\<close>

definition example_pool :: server_config where
  "example_pool = \<lparr>sc_ServerIP = [10, 0, 0, 254], sc_Network = \<lparr>ipn_IP = [0, 0, 0, 0], ipn_Mask = [0, 0, 0, 0]\<rparr>,
     sc_LeaseDuration = 3600 * second, sc_FirstIP = [10, 0, 0, 1], sc_LastIP = [10, 0, 0, 9], sc_DNSServers = []\<rparr>"

lemma example_pool_ok: "pool_ok example_pool"
proof -
  have "IPNet_Contains (sc_Network example_pool) a" if v4: "To4 a \<noteq> None" for a
  proof -
    obtain x where x: "To4 a = Some x" using v4 by (cases "To4 a") auto
    then obtain p q u v where "x = [p, q, u, v]"
      using To4_length [OF x] by (auto simp: length_Suc_conv eval_nat_numeral)
    moreover have "networkNumberAndMask (sc_Network example_pool) = Some ([0, 0, 0, 0], [0, 0, 0, 0])"
      by (simp add: example_pool_def networkNumberAndMask_def To4_def Let_def)
    ultimately show ?thesis using x by (simp add: IPNet_Contains_def)
  qed
  moreover have "To4 (sc_FirstIP example_pool) \<noteq> None" "To4 (sc_LastIP example_pool) \<noteq> None"
    "ipv (sc_FirstIP example_pool) = 167772161" "ipv (sc_LastIP example_pool) = 167772169"
    by (simp_all add: example_pool_def To4_def ipv_def to4_def)
  ultimately show ?thesis by (simp add: pool_ok_def in_pool_def)
qed


definition example_msg :: "byte \<Rightarrow> dhcp_message" where
  "example_msg n = example_discover\<lparr>ClientHardware := [2, 0, 0, 0, 0, n], Options := [OptionDHCPMessageType \<mapsto> [1]],
     ServerHostname := [], BootFileName := []\<rparr>"

definition example_packet :: "byte \<Rightarrow> byte list" where
  "example_packet n = Marshal [OptionDHCPMessageType] (example_msg n)"

definition example_dhcp_env :: dhcp_env where
  "example_dhcp_env = \<lparr>dv_rate = 0, dv_check = 0, dv_lease = 0, dv_renew = 0, dv_stale = []\<rparr>"

definition after_discovers :: dhcp_server where
  "after_discovers =
     snd (HandleRequest None Queued example_dhcp_env (example_packet 2)
       (snd (HandleRequest None Queued example_dhcp_env (example_packet 1) (NewServer example_pool None [] 0))))"

lemma example_packet_parse: "ParseDHCPMessage (example_packet n) = Parsed (example_msg n)"
proof -
  have "dhcp_wf (example_msg n)" "range_of (Options (example_msg n)) [OptionDHCPMessageType]"
    by (auto simp: dhcp_wf_def example_msg_def example_discover_def NewDHCPMessage_def range_of_def option_codes
        split: if_splits)
  from parse_marshal [OF this] show ?thesis by (simp add: example_packet_def example_msg_def)
qed

lemma example_discover_step:
  "snd (HandleRequest None Queued example_dhcp_env (example_packet n) s) =
     snd (allocateIP None 0 0 [2, 0, 0, 0, 0, n]
       (snd (checkRateLimit 0 (HardwareAddr_String [2, 0, 0, 0, 0, n]) s)))"
  if "fst (checkRateLimit 0 (HardwareAddr_String [2, 0, 0, 0, 0, n]) s)"
proof -
  have msg: "ClientHardware (example_msg n) = [2, 0, 0, 0, 0, n]" "Options (example_msg n) OptionDHCPMessageType = Some [1]"
    by (simp_all add: example_msg_def)
  show ?thesis
    using that
    by (simp add: HandleRequest_def example_packet_parse processDHCPRequest_def msg handleDiscover_def
        example_dhcp_env_def case_prod_unfold split: alloc_result.split)
qed

lemma example_strings:
  "IP_String [10, 0, 0, 1] \<noteq> IP_String [10, 0, 0, 254]" "IP_String [10, 0, 0, 2] \<noteq> IP_String [10, 0, 0, 254]"
  "IP_String [10, 0, 0, 2] \<noteq> IP_String [10, 0, 0, 1]"
  "HardwareAddr_String [2, 0, 0, 0, 0, 1] \<noteq> HardwareAddr_String [2, 0, 0, 0, 0, 2]"
  "next_pool_ip example_pool [10, 0, 0, 1] = [10, 0, 0, 2]"
  by code_simp+

lemma example_alloc:
  assumes "sv_config s = example_pool" and "sv_leases s (HardwareAddr_String mac) = None"
    and "ip_free s (sv_nextIP s)"
  shows "snd (allocateIP None 0 0 mac s) = (add_lease 0 mac (sv_nextIP s) s)
    \<lparr>sv_ipIndex := (sv_ipIndex s)(IP_String (sv_nextIP s) \<mapsto> HardwareAddr_String mac),
     sv_nextIP := next_pool_ip example_pool (sv_nextIP s)\<rparr>"
proof -
  obtain n where n: "pool_size example_pool = Suc n" by (simp add: pool_size_def)
  have "allocateIP None 0 0 mac s = alloc_loop 0 mac (sv_nextIP s) (Suc n) s"
    using assms(1,2) example_pool_ok maxAttempts [OF example_pool_ok] n
    by (auto simp: allocateIP_def legacyAllocateIP_def forget_index_def Let_def pool_ok_def)
  then show ?thesis using assms by (simp add: add_lease_def Let_def)
qed

lemma not_in_dom_singleton: "dom m = {a} \<Longrightarrow> a \<noteq> b \<Longrightarrow> m b = None"
  using domIff [of b m] by auto

lemma example_first_discover:
  fixes s defines "s \<equiv> snd (HandleRequest None Queued example_dhcp_env (example_packet 1) (NewServer example_pool None [] 0))"
  shows "sv_config s = example_pool" "sv_nextIP s = [10, 0, 0, 2]" "sv_reserved s = {IP_String [10, 0, 0, 254]}"
    "sv_ipIndex s = [IP_String [10, 0, 0, 1] \<mapsto> HardwareAddr_String [2, 0, 0, 0, 0, 1]]"
    "dom (sv_leases s) = {HardwareAddr_String [2, 0, 0, 0, 0, 1]}"
    "sv_requestCount s (HardwareAddr_String [2, 0, 0, 0, 0, 2]) = None"
    "sv_rateLimit s = 30" "sv_rateLimitWindow s = 60 * second"
proof -
  let ?m = "HardwareAddr_String [2, 0, 0, 0, 0, 1]" and ?s0 = "NewServer example_pool None [] 0"
  let ?s1 = "snd (checkRateLimit 0 ?m ?s0)"
  have ok: "fst (checkRateLimit 0 ?m ?s0)" and s1: "sv_config ?s1 = example_pool" "sv_leases ?s1 = Map.empty"
    "sv_ipIndex ?s1 = Map.empty" "sv_nextIP ?s1 = [10, 0, 0, 1]" "sv_reserved ?s1 = {IP_String [10, 0, 0, 254]}"
    "dom (sv_requestCount ?s1) = {?m}" "sv_rateLimit ?s1 = 30" "sv_rateLimitWindow ?s1 = 60 * second"
    by (simp_all add: checkRateLimit_def NewServer_def example_pool_def defaultRateLimit_def second_def)
  have s: "s = snd (allocateIP None 0 0 [2, 0, 0, 0, 0, 1] ?s1)"
    unfolding s_def by (rule example_discover_step [OF ok])
  have "ip_free ?s1 (sv_nextIP ?s1)" using s1 example_strings(1) by (simp add: ip_free_def)
  note a = example_alloc [OF s1(1) _ this, of "[2, 0, 0, 0, 0, 1]"]
  have r: "sv_requestCount s = sv_requestCount ?s1" unfolding s using a s1(2) by (simp add: add_lease_def Let_def)
  show "sv_requestCount s (HardwareAddr_String [2, 0, 0, 0, 0, 2]) = None"
    unfolding r by (rule not_in_dom_singleton [OF s1(6) example_strings(4)])
  show "sv_config s = example_pool" "sv_nextIP s = [10, 0, 0, 2]" "sv_reserved s = {IP_String [10, 0, 0, 254]}"
    "sv_ipIndex s = [IP_String [10, 0, 0, 1] \<mapsto> ?m]" "dom (sv_leases s) = {?m}"
    "sv_rateLimit s = 30" "sv_rateLimitWindow s = 60 * second"
    unfolding s using a s1 example_strings(5) by (simp_all add: add_lease_def Let_def)
qed

lemma example_second_discover:
  "dom (sv_leases after_discovers) =
     {HardwareAddr_String [2, 0, 0, 0, 0, 1], HardwareAddr_String [2, 0, 0, 0, 0, 2]}"
proof -
  let ?s = "snd (HandleRequest None Queued example_dhcp_env (example_packet 1) (NewServer example_pool None [] 0))"
  let ?m = "HardwareAddr_String [2, 0, 0, 0, 0, 2]"
  let ?s1 = "snd (checkRateLimit 0 ?m ?s)"
  note s = example_first_discover
  have ok: "fst (checkRateLimit 0 ?m ?s)" and s1: "sv_config ?s1 = example_pool" "sv_leases ?s1 = sv_leases ?s"
    "sv_ipIndex ?s1 = sv_ipIndex ?s" "sv_nextIP ?s1 = [10, 0, 0, 2]" "sv_reserved ?s1 = {IP_String [10, 0, 0, 254]}"
    using s by (simp_all add: checkRateLimit_def second_def)
  have "ip_free ?s1 (sv_nextIP ?s1)" using s1 s(4) example_strings(2,3) by (simp add: ip_free_def)
  moreover have "sv_leases ?s1 ?m = None" unfolding s1(2) by (rule not_in_dom_singleton [OF s(5) example_strings(4)])
  ultimately have "snd (allocateIP None 0 0 [2, 0, 0, 0, 0, 2] ?s1) = (add_lease 0 [2, 0, 0, 0, 0, 2] (sv_nextIP ?s1) ?s1)
    \<lparr>sv_ipIndex := (sv_ipIndex ?s1)(IP_String (sv_nextIP ?s1) \<mapsto> ?m),
     sv_nextIP := next_pool_ip example_pool (sv_nextIP ?s1)\<rparr>"
    by (intro example_alloc [OF s1(1)])
  then show ?thesis
    unfolding after_discovers_def example_discover_step [OF ok]
    using s1(2) s(5) by (simp add: add_lease_def Let_def insert_commute)
qed


text \<open>C11. An allocation fails only when the pool is exhausted: while some address of the pool is
  neither reserved nor leased, every client gets an address, and it is one of the pool.\<close>

theorem allocation_succeeds_while_pool_has_room:
  assumes "pool_ok cfg" and "dhcp_step\<^sup>*\<^sup>* (NewServer cfg None [] obj) s"
    and "in_pool (sv_config s) a" and "ip_free s a"
  shows "\<exists>ip. fst (allocateIP None t1 t2 mac s) = AllocIP ip \<and> in_pool (sv_config s) ip \<and>
              IP_String ip \<notin> sv_reserved s"
proof -
  have inv: "server_inv s" using dhcpsys.run_inv assms(1,2) by blast
  have "ip_free (forget_index mac s) a"
    using assms(4) by (auto simp: ip_free_def forget_index_def split: option.split)
  then obtain ip s' where "legacyAllocateIP t2 mac s = (AllocIP ip, s')" "in_pool (sv_config s) ip"
    "IP_String ip \<notin> sv_reserved s"
    using legacyAllocateIP_finds [OF inv assms(3)] by blast
  then show ?thesis
    using inv by (auto simp: allocateIP_def Let_def server_inv_def split: option.split)
qed

theorem allocation_succeeds_while_pool_has_room_witness:
  "\<exists>ip. fst (allocateIP None 0 0 [2, 0, 0, 0, 0, 1] (NewServer example_pool None [] 0)) = AllocIP ip"
proof -
  let ?s = "NewServer example_pool None [] 0"
  have "in_pool (sv_config ?s) [10, 0, 0, 5]"
    by (simp add: NewServer_def in_pool_def example_pool_def To4_def ipv_def to4_def)
  moreover have "IP_String [10, 0, 0, 5] \<noteq> IP_String [10, 0, 0, 254]" by code_simp
  then have "ip_free ?s [10, 0, 0, 5]" by (simp add: ip_free_def NewServer_def example_pool_def)
  ultimately show ?thesis
    using allocation_succeeds_while_pool_has_room [OF example_pool_ok rtranclp.rtrancl_refl] by blast
qed

text \<open>A sequence of rate limit checks of one client.\<close>

fun rate_run :: "instant list \<Rightarrow> string \<Rightarrow> dhcp_server \<Rightarrow> bool list" where
  "rate_run [] mac s = []"
| "rate_run (t # ts) mac s = (case checkRateLimit t mac s of (b, s1) \<Rightarrow> b # rate_run ts mac s1)"

lemma rate_run_window:
  assumes "sv_requestCount s mac = Some c" and "\<forall>t \<in> set ts. t - rq_resetTime c \<le> sv_rateLimitWindow s"
    and "0 \<le> rq_count c" and "rq_count c \<le> sv_rateLimit s" and "sv_rateLimit s < 2 ^ 31"
  shows "length (filter (\<lambda>b. b) (rate_run ts mac s)) = min (length ts) (nat (sv_rateLimit s - rq_count c))"
  using assms
proof (induction ts arbitrary: s c)
  case Nil
  then show ?case by simp
next
  case (Cons t ts)
  show ?case
  proof (cases "rq_count c = sv_rateLimit s")
    case True
    have "checkRateLimit t mac s = (False, s\<lparr>sv_requestCount := (sv_requestCount s)(mac \<mapsto> c)\<rparr>)"
      using True Cons.prems by (simp add: checkRateLimit_def)
    then show ?thesis
      using Cons.IH [of "s\<lparr>sv_requestCount := (sv_requestCount s)(mac \<mapsto> c)\<rparr>" c] Cons.prems True by simp
  next
    case False
    let ?c = "c\<lparr>rq_count := rq_count c + 1\<rparr>"
    have "checkRateLimit t mac s = (True, s\<lparr>sv_requestCount := (sv_requestCount s)(mac \<mapsto> ?c)\<rparr>)"
      using False Cons.prems by (simp add: checkRateLimit_def)
    moreover have "length (filter (\<lambda>b. b) (rate_run ts mac (s\<lparr>sv_requestCount := (sv_requestCount s)(mac \<mapsto> ?c)\<rparr>))) =
        min (length ts) (nat (sv_rateLimit s - (rq_count c + 1)))"
      using Cons.IH [of "s\<lparr>sv_requestCount := (sv_requestCount s)(mac \<mapsto> ?c)\<rparr>" ?c] Cons.prems False by simp
    ultimately show ?thesis using Cons.prems False by simp
  qed
qed

text \<open>Of the requests that a new client sends within one window exactly the first \<open>rateLimit\<close> are
  admitted, and all of them when they are fewer.\<close>

theorem rate_limit_per_window:
  assumes "sv_requestCount s mac = None" and "\<forall>t \<in> set ts. t - t0 \<le> sv_rateLimitWindow s"
    and "0 < sv_rateLimit s" and "sv_rateLimit s < 2 ^ 31" and "0 \<le> sv_rateLimitWindow s"
  shows "length (filter (\<lambda>b. b) (rate_run (t0 # ts) mac s)) = min (length (t0 # ts)) (nat (sv_rateLimit s))"
proof -
  let ?c = "\<lparr>rq_count = 1, rq_resetTime = t0\<rparr>"
  have "checkRateLimit t0 mac s = (True, s\<lparr>sv_requestCount := (sv_requestCount s)(mac \<mapsto> ?c)\<rparr>)"
    using assms by (simp add: checkRateLimit_def)
  moreover have "length (filter (\<lambda>b. b) (rate_run ts mac (s\<lparr>sv_requestCount := (sv_requestCount s)(mac \<mapsto> ?c)\<rparr>))) =
      min (length ts) (nat (sv_rateLimit s - 1))"
    using rate_run_window [of "s\<lparr>sv_requestCount := (sv_requestCount s)(mac \<mapsto> ?c)\<rparr>" mac ?c ts] assms by simp
  ultimately show ?thesis using assms(3) by simp
qed

theorem rate_limit_per_window_witness:
  "length (filter (\<lambda>b. b) (rate_run (0 # replicate 40 1) ''02'' (NewServer example_pool None [] 0))) = 30"
  using rate_limit_per_window [of "NewServer example_pool None [] 0" "''02''" "replicate 40 1" 0]
  by (simp add: NewServer_def defaultRateLimit_def second_def del: rate_run.simps)

text \<open>Leases restored from the database are not entered into the address index: the server offers
  the address of a restored, still valid lease to another client.\<close>

theorem restored_address_is_leased_again:
  assumes "pool_ok cfg" and "IP_String (sc_FirstIP cfg) \<noteq> IP_String (sc_ServerIP cfg)"
    and "db_leases db = [m1 \<mapsto> l1]" and "dl_IP l1 = sc_FirstIP cfg" and "HardwareAddr_String mac2 \<noteq> m1"
    and "allocateIP None t1 t2 mac2 (NewServer cfg (Some db) [m1] obj) = (r, s')"
  shows "r = AllocIP (dl_IP l1) \<and> sv_leases s' m1 = Some l1 \<and>
         (\<exists>l2. sv_leases s' (HardwareAddr_String mac2) = Some l2 \<and> dl_IP l2 = dl_IP l1)"
proof -
  let ?s = "NewServer cfg (Some db) [m1] obj"
  have s: "sv_leases ?s = [m1 \<mapsto> l1]" "sv_ipIndex ?s = Map.empty" "sv_nextIP ?s = sc_FirstIP cfg"
    "sv_config ?s = cfg" "sv_reserved ?s = {IP_String (sc_ServerIP cfg)}"
    using assms(3) by (simp_all add: NewServer_def restore_leases_def Let_def)
  obtain n where n: "pool_size cfg = Suc n" by (simp add: pool_size_def)
  have "allocateIP None t1 t2 mac2 ?s = alloc_loop t2 mac2 (sc_FirstIP cfg) (Suc n) ?s"
    using s assms(1,5) maxAttempts [OF assms(1)] n
    by (auto simp: allocateIP_def legacyAllocateIP_def forget_index_def Let_def pool_ok_def)
  then show ?thesis
    using assms(2,4,5,6) s by (auto simp: ip_free_def add_lease_def Let_def)
qed

definition example_lease :: dhcp_lease where
  "example_lease = \<lparr>dl_obj = 0, dl_IP = [10, 0, 0, 1], dl_MAC = [2, 0, 0, 0, 0, 1], dl_Hostname = [],
     dl_ExpiresAt = 3600 * second, dl_Transaction = 0\<rparr>"

theorem restored_address_is_leased_again_witness:
  "\<exists>r s' l1 l2. allocateIP None 0 0 [2, 0, 0, 0, 0, 2]
       (NewServer example_pool (Some (NewLeaseDB\<lparr>db_leases := [HardwareAddr_String [2, 0, 0, 0, 0, 1] \<mapsto> example_lease]\<rparr>))
          [HardwareAddr_String [2, 0, 0, 0, 0, 1]] 1) = (r, s') \<and>
     sv_leases s' (HardwareAddr_String [2, 0, 0, 0, 0, 1]) = Some l1 \<and>
     sv_leases s' (HardwareAddr_String [2, 0, 0, 0, 0, 2]) = Some l2 \<and> dl_IP l1 = dl_IP l2"
proof -
  let ?m = "HardwareAddr_String [2, 0, 0, 0, 0, 1]"
  let ?db = "NewLeaseDB\<lparr>db_leases := [?m \<mapsto> example_lease]\<rparr>"
  obtain r s' where e: "allocateIP None 0 0 [2, 0, 0, 0, 0, 2] (NewServer example_pool (Some ?db) [?m] 1) = (r, s')"
    by fastforce
  have "IP_String (sc_FirstIP example_pool) \<noteq> IP_String (sc_ServerIP example_pool)"
    using example_strings(1) by (simp add: example_pool_def)
  from restored_address_is_leased_again [OF example_pool_ok this _ _ _ e, of example_lease] example_strings(4) e
  show ?thesis by (auto simp: example_lease_def example_pool_def)
qed

end
