(* ===== verification/LruCache.thy ===== *)
theory LruCache
  imports TtlCache GoStrings
begin

text \<open>
  The sharded cache of \<^verbatim>\<open>cache/lru.go\<close>.  A key is hashed to a shard; a shard holds a map and the list of
  its keys in the order of their last write, and evicts the head of the list when the map has as
  many entries as the list has capacity.

  The capacity of the list is part of the state, because the code reads it with \<open>cap\<close>: cutting off
  the head of a slice lowers its capacity, and an append beyond the capacity allocates an array whose
  size the run-time system chooses, the argument \<open>grow\<close> (old capacity and needed length).  The text of a key
  (\<open>fmt.Sprintf\<close>) is the argument \<open>sprint\<close>.
\<close>

record 'v cache_entry =
  ce_value :: 'v
  ce_expiresAt :: instant

record ('k, 'v) cache_shard =
  sh_data :: "'k \<rightharpoonup> 'v cache_entry"
  sh_lru :: "'k list"
  sh_cap :: nat

record ('k, 'v) lru_cache =
  lc_shards :: "('k, 'v) cache_shard list"
  lc_shardMask :: "64 word"
  lc_maxSize :: int
  lc_ttl :: duration
  lc_hits :: "64 word"
  lc_misses :: "64 word"
  lc_evicts :: "64 word"

definition num_shards :: "int \<Rightarrow> int" where
  "num_shards maxSize = (if maxSize > 100000 then 64 else if maxSize > 10000 then 32 else 16)"

text \<open>None is the panic of \<open>make\<close> with a negative capacity.\<close>

definition NewLRUCache :: "int \<Rightarrow> duration \<Rightarrow> ('k, 'v) lru_cache option" where
  "NewLRUCache maxSize ttl =
     (let n = num_shards maxSize; c = go_div maxSize n
      in if c < 0 then None
         else Some \<lparr>lc_shards = replicate (nat n) \<lparr>sh_data = Map.empty, sh_lru = [], sh_cap = nat c\<rparr>,
                    lc_shardMask = of_int (n - 1), lc_maxSize = maxSize, lc_ttl = ttl,
                    lc_hits = 0, lc_misses = 0, lc_evicts = 0\<rparr>)"

definition hashString :: "string \<Rightarrow> 64 word" where
  "hashString s = foldl (\<lambda>h c. h * 31 + of_nat (code c)) 0 s"

definition getShard :: "('k \<Rightarrow> string) \<Rightarrow> 'k \<Rightarrow> ('k, 'v) lru_cache \<Rightarrow> nat" where
  "getShard sprint key c = unat (and (hashString (sprint key)) (lc_shardMask c))"

definition removeLRU :: "'k \<Rightarrow> ('k, 'v) cache_shard \<Rightarrow> ('k, 'v) cache_shard" where
  "removeLRU key sh = sh\<lparr>sh_lru := remove1 key (sh_lru sh)\<rparr>"

definition append_lru :: "(nat \<Rightarrow> nat \<Rightarrow> nat) \<Rightarrow> 'k \<Rightarrow> ('k, 'v) cache_shard \<Rightarrow> ('k, 'v) cache_shard" where
  "append_lru grow key sh =
     (let n = length (sh_lru sh) + 1
      in sh\<lparr>sh_lru := sh_lru sh @ [key], sh_cap := (if n \<le> sh_cap sh then sh_cap sh else grow (sh_cap sh) n)\<rparr>)"

definition moveToEnd :: "(nat \<Rightarrow> nat \<Rightarrow> nat) \<Rightarrow> 'k \<Rightarrow> ('k, 'v) cache_shard \<Rightarrow> ('k, 'v) cache_shard" where
  "moveToEnd grow key sh = append_lru grow key (removeLRU key sh)"

text \<open>The second component is the number of evictions.\<close>

definition evictOldest :: "('k, 'v) cache_shard \<Rightarrow> ('k, 'v) cache_shard \<times> nat" where
  "evictOldest sh =
     (case sh_lru sh of
        [] \<Rightarrow> (sh, 0)
      | oldest # rest \<Rightarrow>
          (sh\<lparr>sh_data := (sh_data sh)(oldest := None), sh_lru := rest, sh_cap := sh_cap sh - 1\<rparr>, 1))"

definition set_shard :: "(nat \<Rightarrow> nat \<Rightarrow> nat) \<Rightarrow> 'k \<Rightarrow> 'v cache_entry \<Rightarrow> ('k, 'v) cache_shard
    \<Rightarrow> ('k, 'v) cache_shard \<times> nat" where
  "set_shard grow key e sh =
     (if sh_data sh key \<noteq> None then (moveToEnd grow key (sh\<lparr>sh_data := (sh_data sh)(key \<mapsto> e)\<rparr>), 0)
      else
        let (sh1, n) = (if card (dom (sh_data sh)) \<ge> sh_cap sh then evictOldest sh else (sh, 0))
        in (append_lru grow key (sh1\<lparr>sh_data := (sh_data sh1)(key \<mapsto> e)\<rparr>), n))"

definition Cache_Set :: "('k \<Rightarrow> string) \<Rightarrow> (nat \<Rightarrow> nat \<Rightarrow> nat) \<Rightarrow> instant \<Rightarrow> 'k \<Rightarrow> 'v \<Rightarrow> ('k, 'v) lru_cache
    \<Rightarrow> ('k, 'v) lru_cache" where
  "Cache_Set sprint grow now key v c =
     (let i = getShard sprint key c;
          (sh, n) = set_shard grow key \<lparr>ce_value = v, ce_expiresAt = now + lc_ttl c\<rparr> (lc_shards c ! i)
      in c\<lparr>lc_shards := (lc_shards c)[i := sh], lc_evicts := lc_evicts c + of_nat n\<rparr>)"

definition drop_key :: "'k \<Rightarrow> ('k, 'v) cache_shard \<Rightarrow> ('k, 'v) cache_shard" where
  "drop_key key sh = removeLRU key (sh\<lparr>sh_data := (sh_data sh)(key := None)\<rparr>)"

text \<open>The clock is read before and after the write lock is taken.\<close>

definition Cache_Get :: "('k \<Rightarrow> string) \<Rightarrow> instant \<times> instant \<Rightarrow> 'k \<Rightarrow> ('k, 'v) lru_cache \<Rightarrow> 'v option \<times> ('k, 'v) lru_cache" where
  "Cache_Get sprint now key c =
     (let i = getShard sprint key c; sh = lc_shards c ! i
      in case sh_data sh key of
           None \<Rightarrow> (None, c\<lparr>lc_misses := lc_misses c + 1\<rparr>)
         | Some e \<Rightarrow>
             if fst now > ce_expiresAt e then
               let c1 = (if snd now > ce_expiresAt e
                         then c\<lparr>lc_shards := (lc_shards c)[i := drop_key key sh], lc_evicts := lc_evicts c + 1\<rparr>
                         else c)
               in (None, c1\<lparr>lc_misses := lc_misses c1 + 1\<rparr>)
             else (Some (ce_value e), c\<lparr>lc_hits := lc_hits c + 1\<rparr>))"

definition Cache_Delete :: "('k \<Rightarrow> string) \<Rightarrow> 'k \<Rightarrow> ('k, 'v) lru_cache \<Rightarrow> bool \<times> ('k, 'v) lru_cache" where
  "Cache_Delete sprint key c =
     (let i = getShard sprint key c; sh = lc_shards c ! i
      in if sh_data sh key \<noteq> None then (True, c\<lparr>lc_shards := (lc_shards c)[i := drop_key key sh]\<rparr>)
         else (False, c))"

definition Cache_Clear :: "('k, 'v) lru_cache \<Rightarrow> ('k, 'v) lru_cache" where
  "Cache_Clear c =
     c\<lparr>lc_shards := map (\<lambda>sh. \<lparr>sh_data = Map.empty, sh_lru = [], sh_cap = sh_cap sh\<rparr>) (lc_shards c)\<rparr>"

definition Cache_Count :: "('k, 'v) lru_cache \<Rightarrow> nat" where
  "Cache_Count c = sum_list (map (\<lambda>sh. card (dom (sh_data sh))) (lc_shards c))"

definition Cache_Stats :: "('k, 'v) lru_cache \<Rightarrow> 64 word \<times> 64 word \<times> 64 word \<times> nat" where
  "Cache_Stats c = (lc_hits c, lc_misses c, lc_evicts c, Cache_Count c)"

definition HitRatio :: "('k, 'v) lru_cache \<Rightarrow> rat" where
  "HitRatio c =
     (let total = lc_hits c + lc_misses c
      in if total = 0 then 0 else of_nat (unat (lc_hits c)) / of_nat (unat total) * 100)"

text \<open>\<open>ord i\<close> is the order of the range over the map of shard \<open>i\<close>.\<close>

definition cleanup_shard :: "instant \<Rightarrow> 'k list \<Rightarrow> ('k, 'v) cache_shard \<Rightarrow> ('k, 'v) cache_shard \<times> nat" where
  "cleanup_shard now ord sh =
     (let gone = filter (\<lambda>k. case sh_data sh k of None \<Rightarrow> False | Some e \<Rightarrow> now > ce_expiresAt e) ord
      in (fold drop_key gone sh, length gone))"

definition Cache_Cleanup :: "instant \<Rightarrow> (nat \<Rightarrow> 'k list) \<Rightarrow> ('k, 'v) lru_cache \<Rightarrow> ('k, 'v) lru_cache" where
  "Cache_Cleanup now ord c =
     (let rs = map (\<lambda>(i, sh). cleanup_shard now (ord i) sh) (enumerate 0 (lc_shards c));
          evicted = sum_list (map snd rs); c1 = c\<lparr>lc_shards := map fst rs\<rparr>
      in if evicted > 0 then c1\<lparr>lc_evicts := lc_evicts c1 + of_nat evicted\<rparr> else c1)"

subsection \<open>The invariant of a shard\<close>

definition shard_inv :: "('k \<Rightarrow> bool) \<Rightarrow> ('k, 'v) cache_shard \<Rightarrow> bool" where
  "shard_inv here sh \<longleftrightarrow> distinct (sh_lru sh) \<and> set (sh_lru sh) = dom (sh_data sh) \<and>
     length (sh_lru sh) \<le> sh_cap sh \<and> (\<forall>k \<in> dom (sh_data sh). here k)"

lemma shard_inv_size: "shard_inv here sh \<Longrightarrow> card (dom (sh_data sh)) = length (sh_lru sh)"
  unfolding shard_inv_def by (metis distinct_card)

lemma shard_inv_mem: "shard_inv here sh \<Longrightarrow> k \<in> set (sh_lru sh) \<longleftrightarrow> sh_data sh k \<noteq> None"
  unfolding shard_inv_def by blast

lemma drop_key_inv: "shard_inv here sh \<Longrightarrow> shard_inv here (drop_key k sh)"
  by (auto simp: shard_inv_def drop_key_def removeLRU_def length_remove1 set_remove1_eq split: if_splits)

lemma append_lru_inv:
  assumes "\<forall>old n. n \<le> grow old n" and "distinct (sh_lru sh)" and "k \<notin> set (sh_lru sh)"
    and "insert k (set (sh_lru sh)) = dom (sh_data sh)" and "\<forall>k \<in> dom (sh_data sh). here k"
  shows "shard_inv here (append_lru grow k sh)"
  using assms by (auto simp: shard_inv_def append_lru_def Let_def)

lemma evictOldest_inv: "shard_inv here sh \<Longrightarrow> shard_inv here (fst (evictOldest sh))"
  by (cases "sh_lru sh") (auto simp: shard_inv_def evictOldest_def)

lemma evictOldest_data: "sh_data (fst (evictOldest sh)) k = Some e \<Longrightarrow> sh_data sh k = Some e"
  by (auto simp: evictOldest_def split: list.splits if_splits)

lemma set_shard_inv:
  assumes g: "\<forall>old n. n \<le> grow old n" and inv: "shard_inv here sh" and "here k"
  shows "shard_inv here (fst (set_shard grow k e sh))"
proof (cases "sh_data sh k")
  case None
  let ?sh1 = "fst (if card (dom (sh_data sh)) \<ge> sh_cap sh then evictOldest sh else (sh, 0))"
  have i1: "shard_inv here ?sh1" using inv evictOldest_inv [OF inv] by simp
  have "sh_data ?sh1 k = None" using None evictOldest_data [of sh k] by (cases "sh_data ?sh1 k") (auto split: if_splits)
  then have "shard_inv here (append_lru grow k (?sh1\<lparr>sh_data := (sh_data ?sh1)(k \<mapsto> e)\<rparr>))"
    using i1 \<open>here k\<close> by (intro append_lru_inv [OF g]) (auto simp: shard_inv_def)
  then show ?thesis using None by (simp add: set_shard_def case_prod_unfold Let_def)
next
  case (Some x)
  let ?sh1 = "removeLRU k (sh\<lparr>sh_data := (sh_data sh)(k \<mapsto> e)\<rparr>)"
  have "k \<in> set (sh_lru sh)" using inv Some by (auto simp: shard_inv_def)
  then have "shard_inv here (append_lru grow k ?sh1)"
    using inv Some \<open>here k\<close>
    by (intro append_lru_inv [OF g]) (auto simp: shard_inv_def removeLRU_def set_remove1_eq)
  then show ?thesis using Some by (simp add: set_shard_def moveToEnd_def)
qed

lemma set_shard_data:
  "sh_data (fst (set_shard grow k e sh)) k = Some e"
  "k' \<noteq> k \<Longrightarrow> sh_data (fst (set_shard grow k e sh)) k' = Some x \<Longrightarrow> sh_data sh k' = Some x"
  by (auto simp: set_shard_def moveToEnd_def append_lru_def removeLRU_def Let_def case_prod_unfold
      dest: evictOldest_data split: if_splits)

subsection \<open>The contract of a cache with expiring entries\<close>

definition cache_wf :: "('k, 'v) lru_cache \<Rightarrow> bool" where
  "cache_wf c \<longleftrightarrow> length (lc_shards c) = Suc (unat (lc_shardMask c))"

lemma getShard_less: "cache_wf c \<Longrightarrow> getShard sprint k c < length (lc_shards c)"
proof -
  have "and (hashString (sprint k)) (lc_shardMask c) \<le> lc_shardMask c" by (rule word_and_le1)
  then show "cache_wf c \<Longrightarrow> ?thesis"
    unfolding getShard_def cache_wf_def by (simp add: word_le_nat_alt less_Suc_eq_le)
qed

lemma getShard_cong [simp]:
  "getShard sprint k (c\<lparr>lc_shards := x\<rparr>) = getShard sprint k c"
  "getShard sprint k (c\<lparr>lc_hits := y\<rparr>) = getShard sprint k c"
  "getShard sprint k (c\<lparr>lc_misses := y\<rparr>) = getShard sprint k c"
  "getShard sprint k (c\<lparr>lc_evicts := y\<rparr>) = getShard sprint k c"
  by (simp_all add: getShard_def)

definition cache_entry_of :: "('k \<Rightarrow> string) \<Rightarrow> ('k, 'v) lru_cache \<Rightarrow> 'k \<Rightarrow> ('v \<times> instant) option" where
  "cache_entry_of sprint c k =
     map_option (\<lambda>e. (ce_value e, ce_expiresAt e)) (sh_data (lc_shards c ! getShard sprint k c) k)"

definition cache_store :: "('k \<Rightarrow> string) \<Rightarrow> instant \<Rightarrow> 'k \<Rightarrow> 'v \<Rightarrow> ('k, 'v) lru_cache \<Rightarrow> ('k, 'v) lru_cache \<Rightarrow> bool" where
  "cache_store sprint t k v c c' \<longleftrightarrow> cache_wf c \<and> (\<exists>grow. c' = Cache_Set sprint grow t k v c)"

lemma drop_key_data [simp]: "sh_data (drop_key k sh) = (sh_data sh)(k := None)"
  by (simp add: drop_key_def removeLRU_def)

lemma Cache_Set_shard:
  assumes "cache_wf c"
  shows "lc_shards (Cache_Set sprint grow t k v c) ! i =
    (if i = getShard sprint k c
     then fst (set_shard grow k \<lparr>ce_value = v, ce_expiresAt = t + lc_ttl c\<rparr> (lc_shards c ! i))
     else lc_shards c ! i)"
  using getShard_less [OF assms, of sprint k] by (simp add: Cache_Set_def Let_def case_prod_unfold)

lemma getShard_Set [simp]: "getShard sprint k' (Cache_Set sprint grow t k v c) = getShard sprint k' c"
  by (simp add: Cache_Set_def Let_def case_prod_unfold)

lemma Cache_Get_shards:
  "lc_shards (snd (Cache_Get sprint now k c)) = lc_shards c \<or>
   lc_shards (snd (Cache_Get sprint now k c)) =
     (lc_shards c)[getShard sprint k c := drop_key k (lc_shards c ! getShard sprint k c)]"
  by (simp add: Cache_Get_def Let_def split: option.split)

lemma getShard_Get [simp]: "getShard sprint k' (snd (Cache_Get sprint now k c)) = getShard sprint k' c"
  by (simp add: Cache_Get_def Let_def split: option.split)

lemma Cache_Get_data:
  assumes "sh_data (lc_shards (snd (Cache_Get sprint now k c)) ! i) k' = Some e"
  shows "sh_data (lc_shards c ! i) k' = Some e"
proof -
  let ?j = "getShard sprint k c"
  let ?shs = "(lc_shards c)[?j := drop_key k (lc_shards c ! ?j)]"
  have "sh_data (?shs ! i) k' = Some e \<Longrightarrow> sh_data (lc_shards c ! i) k' = Some e"
  proof (cases "i = ?j \<and> ?j < length (lc_shards c)")
    case True
    then show "sh_data (?shs ! i) k' = Some e \<Longrightarrow> ?thesis" by (auto split: if_splits)
  next
    case False
    then have "?shs ! i = lc_shards c ! i" by (metis list_update_beyond not_less nth_list_update_neq)
    then show "sh_data (?shs ! i) k' = Some e \<Longrightarrow> ?thesis" by simp
  qed
  with Cache_Get_shards [of sprint now k c] assms show ?thesis by metis
qed

interpretation lru: ttl_cache fst "cache_entry_of sprint" "Cache_Get sprint" "cache_store sprint" "\<lambda>s _. lc_ttl s"
  for sprint :: "'k \<Rightarrow> string"
proof unfold_locales
  fix now k and c :: "('k, 'v) lru_cache"
  show "fst (Cache_Get sprint now k c) =
      (case cache_entry_of sprint c k of None \<Rightarrow> None | Some (v, e) \<Rightarrow> if fst now > e then None else Some v)"
    by (simp add: Cache_Get_def cache_entry_of_def Let_def split: option.split)
next
  fix now k k' x and c :: "('k, 'v) lru_cache"
  assume "cache_entry_of sprint (snd (Cache_Get sprint now k c)) k' = Some x"
  then show "cache_entry_of sprint c k' = Some x"
    unfolding cache_entry_of_def by (auto dest!: Cache_Get_data)
next
  fix now k v and c :: "('k, 'v) lru_cache"
  assume "fst (Cache_Get sprint now k c) = Some v"
  then have "lc_shards (snd (Cache_Get sprint now k c)) = lc_shards c"
    by (auto simp: Cache_Get_def Let_def split: option.splits if_splits)
  then show "cache_entry_of sprint (snd (Cache_Get sprint now k c)) = cache_entry_of sprint c"
    by (simp add: cache_entry_of_def fun_eq_iff)
next
  fix t k v and c c' :: "('k, 'v) lru_cache"
  assume "cache_store sprint t k v c c'"
  then show "cache_entry_of sprint c' k = Some (v, t + lc_ttl c)"
    by (auto simp: cache_store_def cache_entry_of_def Cache_Set_shard set_shard_data)
next
  fix t k v k' x and c c' :: "('k, 'v) lru_cache"
  assume "cache_store sprint t k v c c'" and ne: "k' \<noteq> k" and "cache_entry_of sprint c' k' = Some x"
  then show "cache_entry_of sprint c k' = Some x"
    by (auto simp: cache_store_def cache_entry_of_def Cache_Set_shard split: if_splits
        dest!: set_shard_data(2) [OF ne])
qed

subsection \<open>Runs\<close>

definition lru_inv :: "('k \<Rightarrow> string) \<Rightarrow> ('k, 'v) lru_cache \<Rightarrow> bool" where
  "lru_inv sprint c \<longleftrightarrow> cache_wf c \<and>
     (\<forall>i < length (lc_shards c). shard_inv (\<lambda>k. getShard sprint k c = i) (lc_shards c ! i))"

lemma lru_inv_frame [simp]:
  "lru_inv sprint (c\<lparr>lc_hits := y\<rparr>) = lru_inv sprint c"
  "lru_inv sprint (c\<lparr>lc_misses := y\<rparr>) = lru_inv sprint c"
  "lru_inv sprint (c\<lparr>lc_evicts := y\<rparr>) = lru_inv sprint c"
  by (simp_all add: lru_inv_def cache_wf_def)

lemma lru_inv_update:
  assumes "lru_inv sprint c" and "shard_inv (\<lambda>k. getShard sprint k c = i) sh"
  shows "lru_inv sprint (c\<lparr>lc_shards := (lc_shards c)[i := sh]\<rparr>)"
proof -
  have "shard_inv (\<lambda>k. getShard sprint k c = j) ((lc_shards c)[i := sh] ! j)" if "j < length (lc_shards c)" for j
    using assms that by (cases "j = i") (simp_all add: lru_inv_def)
  with assms(1) show ?thesis by (simp add: lru_inv_def cache_wf_def)
qed

lemma lru_inv_shard: "lru_inv sprint c \<Longrightarrow>
    shard_inv (\<lambda>k'. getShard sprint k' c = getShard sprint k c) (lc_shards c ! getShard sprint k c)"
  using getShard_less [of c sprint k] by (simp add: lru_inv_def)

inductive lru_step :: "('k \<Rightarrow> string) \<Rightarrow> ('k, 'v) lru_cache \<Rightarrow> ('k, 'v) lru_cache \<Rightarrow> bool" for sprint where
  set: "\<forall>old n. n \<le> grow old n \<Longrightarrow> lru_step sprint c (Cache_Set sprint grow now k v c)"
| get: "lru_step sprint c (snd (Cache_Get sprint now k c))"
| delete: "lru_step sprint c (snd (Cache_Delete sprint k c))"
| clear: "lru_step sprint c (Cache_Clear c)"
| cleanup: "lru_step sprint c (Cache_Cleanup now ord c)"

lemma cleanup_shard_inv: "shard_inv here sh \<Longrightarrow> shard_inv here (fst (cleanup_shard now ord sh))"
proof -
  have "shard_inv here sh \<Longrightarrow> shard_inv here (fold drop_key ks sh)" for ks
    by (induction ks arbitrary: sh) (auto intro: drop_key_inv)
  then show "shard_inv here sh \<Longrightarrow> ?thesis" by (simp add: cleanup_shard_def Let_def)
qed

lemma lru_step_inv: "lru_step sprint c c' \<Longrightarrow> lru_inv sprint c \<Longrightarrow> lru_inv sprint c'"
proof (induction rule: lru_step.induct)
  case (set grow c now k v)
  from set_shard_inv [OF set(1) lru_inv_shard [OF set(2), of k], of k] lru_inv_update [OF set(2)]
  show ?case by (simp add: Cache_Set_def Let_def case_prod_unfold)
next
  case (get c now k)
  have "lru_inv sprint (c\<lparr>lc_shards := (lc_shards c)[getShard sprint k c := drop_key k (lc_shards c ! getShard sprint k c)]\<rparr>)"
    by (rule lru_inv_update [OF get drop_key_inv [OF lru_inv_shard [OF get]]])
  with get show ?case by (simp add: Cache_Get_def Let_def split: option.split)
next
  case (delete c k)
  have "lru_inv sprint (c\<lparr>lc_shards := (lc_shards c)[getShard sprint k c := drop_key k (lc_shards c ! getShard sprint k c)]\<rparr>)"
    by (rule lru_inv_update [OF delete drop_key_inv [OF lru_inv_shard [OF delete]]])
  with delete show ?case by (simp add: Cache_Delete_def Let_def)
next
  case (clear c)
  then show ?case by (simp add: Cache_Clear_def lru_inv_def cache_wf_def shard_inv_def)
next
  case (cleanup c now ord)
  have "lc_shards (Cache_Cleanup now ord c) ! i = fst (cleanup_shard now (ord i) (lc_shards c ! i))"
    if "i < length (lc_shards c)" for i
    using that by (simp add: Cache_Cleanup_def Let_def nth_enumerate_eq)
  moreover have "length (lc_shards (Cache_Cleanup now ord c)) = length (lc_shards c)"
    "lc_shardMask (Cache_Cleanup now ord c) = lc_shardMask c"
    "getShard sprint k (Cache_Cleanup now ord c) = getShard sprint k c" for k
    by (simp_all add: Cache_Cleanup_def Let_def)
  moreover have "\<forall>i < length (lc_shards c).
      shard_inv (\<lambda>k. getShard sprint k c = i) (fst (cleanup_shard now (ord i) (lc_shards c ! i)))"
    using cleanup cleanup_shard_inv unfolding lru_inv_def by blast
  ultimately show ?case using cleanup by (simp add: lru_inv_def cache_wf_def)
qed

lemma lru_inv_New: "NewLRUCache maxSize ttl = Some c \<Longrightarrow> lru_inv sprint c"
  by (auto simp: NewLRUCache_def Let_def lru_inv_def cache_wf_def shard_inv_def num_shards_def
      split: if_splits)

interpretation lrusys: invariant_system "\<lambda>c. \<exists>maxSize ttl. NewLRUCache maxSize ttl = Some c" "lru_step sprint" "lru_inv sprint"
  for sprint
  by unfold_locales (auto intro: lru_step_inv lru_inv_New)

subsection \<open>Properties\<close>

text \<open>C18. Over every run of stores, lookups, deletions, clears and cleanups each shard's recency list
  holds exactly the keys of its map, each once and in the shard its hash selects, so that the count
  of entries is the total length of the lists.\<close>

theorem lru_cache_consistent:
  assumes "NewLRUCache maxSize ttl = Some c0" and "(lru_step sprint)\<^sup>*\<^sup>* c0 c"
  shows "Cache_Count c = sum_list (map (\<lambda>sh. length (sh_lru sh)) (lc_shards c)) \<and>
    (\<forall>i < length (lc_shards c). distinct (sh_lru (lc_shards c ! i)) \<and>
       set (sh_lru (lc_shards c ! i)) = dom (sh_data (lc_shards c ! i)) \<and>
       (\<forall>k \<in> dom (sh_data (lc_shards c ! i)). getShard sprint k c = i))"
proof -
  have inv: "lru_inv sprint c" using lrusys.run_inv assms by blast
  have "map (\<lambda>sh. card (dom (sh_data sh))) (lc_shards c) = map (\<lambda>sh. length (sh_lru sh)) (lc_shards c)"
    using inv shard_inv_size unfolding lru_inv_def by (intro nth_equalityI) auto
  then have "Cache_Count c = sum_list (map (\<lambda>sh. length (sh_lru sh)) (lc_shards c))"
    by (simp only: Cache_Count_def)
  with inv show ?thesis by (simp add: lru_inv_def shard_inv_def)
qed

definition example_cache :: "(string, nat) lru_cache" where
  "example_cache = the (NewLRUCache 64 (60 * second))"

lemma example_cache_New: "NewLRUCache 64 (60 * second) = Some example_cache"
  by (simp add: example_cache_def NewLRUCache_def num_shards_def)

theorem lru_cache_consistent_witness:
  "Cache_Count (Cache_Set id (\<lambda>c n. 2 * n) 0 ''a'' 7 example_cache) =
     sum_list (map (\<lambda>sh. length (sh_lru sh)) (lc_shards (Cache_Set id (\<lambda>c n. 2 * n) 0 ''a'' 7 example_cache)))"
  using lru_cache_consistent [OF example_cache_New, of id "Cache_Set id (\<lambda>c n. 2 * n) 0 ''a'' 7 example_cache"]
    r_into_rtranclp [of "lru_step id" example_cache, OF lru_step.set [of "\<lambda>c n. 2 * n"]]
  by simp

text \<open>A stored value is returned until its time to live has passed, and by no later lookup; storing
  it changes no other entry except by evicting it.\<close>

theorem lru_cache_lookup:
  assumes "NewLRUCache maxSize ttl = Some c0" and "(lru_step sprint)\<^sup>*\<^sup>* c0 c"
  shows "fst (Cache_Get sprint now k (Cache_Set sprint grow t k v c)) = (if fst now > t + lc_ttl c then None else Some v) \<and>
    (k' \<noteq> k \<longrightarrow> fst (Cache_Get sprint now k' (Cache_Set sprint grow t k v c)) \<in> {None, fst (Cache_Get sprint now k' c)})"
proof -
  have "lru_inv sprint c" using lrusys.run_inv assms by blast
  then have st: "cache_store sprint t k v c (Cache_Set sprint grow t k v c)"
    unfolding cache_store_def lru_inv_def by blast
  have "fst (Cache_Get sprint now k' (Cache_Set sprint grow t k v c)) \<in> {None, fst (Cache_Get sprint now k' c)}"
    if "k' \<noteq> k"
    using lru.store_keeps [OF st that]
    by (cases "cache_entry_of sprint (Cache_Set sprint grow t k v c) k'") (auto simp: lru.lookup_result)
  then show ?thesis by (simp add: lru.lookup_after_store [OF st])
qed

theorem lru_cache_lookup_witness:
  "fst (Cache_Get id (5, 5) ''a'' (Cache_Set id (\<lambda>c n. 2 * n) 0 ''a'' 7 example_cache)) = Some 7"
proof -
  have "lc_ttl example_cache = 60 * second" by (simp add: example_cache_def NewLRUCache_def num_shards_def)
  with lru_cache_lookup [OF example_cache_New rtranclp.rtrancl_refl, THEN conjunct1, of id "(5, 5)" "''a''" "\<lambda>c n. 2 * n" 0 7]
  show ?thesis by (simp add: second_def)
qed

lemma set_full_shard:
  assumes "shard_inv here sh" and "length (sh_lru sh) = sh_cap sh" and "sh_cap sh > 0" and "sh_data sh k = None"
  shows "sh_lru (fst (set_shard grow k e sh)) = tl (sh_lru sh) @ [k]"
    and "sh_cap (fst (set_shard grow k e sh)) = grow (sh_cap sh - 1) (sh_cap sh)"
  using assms shard_inv_size [OF assms(1)]
  by (auto simp: set_shard_def evictOldest_def append_lru_def Let_def neq_Nil_conv split: list.split)

lemma set_roomy_shard:
  "sh_data sh k = None \<Longrightarrow> card (dom (sh_data sh)) < sh_cap sh \<Longrightarrow>
     sh_lru (fst (set_shard grow k e sh)) = sh_lru sh @ [k]"
  by (simp add: set_shard_def append_lru_def Let_def)

text \<open>The size limit does not hold.  Evicting the head of a full shard's list lowers the list's
  capacity by one, the following append makes the run-time system allocate a larger array, and the
  next store takes the larger capacity for the limit: with an allocator that doubles, two new keys
  bring a full shard beyond the capacity it was created with.\<close>

theorem lru_shard_outgrows_capacity:
  assumes "shard_inv here sh" and "length (sh_lru sh) = sh_cap sh" and "3 \<le> sh_cap sh"
    and "here k1" and "here k2" and "k1 \<noteq> k2" and "sh_data sh k1 = None" and "sh_data sh k2 = None"
    and "\<forall>old n. n \<le> grow old n" and "2 * (sh_cap sh - 1) \<le> grow (sh_cap sh - 1) (sh_cap sh)"
  shows "card (dom (sh_data (fst (set_shard grow k2 e2 (fst (set_shard grow k1 e1 sh)))))) = sh_cap sh + 1"
proof -
  let ?s1 = "fst (set_shard grow k1 e1 sh)"
  let ?s2 = "fst (set_shard grow k2 e2 ?s1)"
  have i1: "shard_inv here ?s1" by (rule set_shard_inv [OF assms(9,1,4)])
  have i2: "shard_inv here ?s2" by (rule set_shard_inv [OF assms(9) i1 assms(5)])
  have l1: "length (sh_lru ?s1) = sh_cap sh" and c1: "2 * (sh_cap sh - 1) \<le> sh_cap ?s1"
    using set_full_shard [OF assms(1,2) _ assms(7), of grow e1] assms(2,3,10) by auto
  have n2: "sh_data ?s1 k2 = None"
    using set_shard_data(2) [of k2 k1 grow e1 sh] assms(6,8) by (cases "sh_data ?s1 k2") auto
  have "sh_lru ?s2 = sh_lru ?s1 @ [k2]"
    using n2 shard_inv_size [OF i1] l1 c1 assms(3) by (intro set_roomy_shard) simp_all
  then show ?thesis using shard_inv_size [OF i2] l1 by simp
qed

definition full_shard :: "(nat, nat) cache_shard" where
  "full_shard = \<lparr>sh_data = (\<lambda>k. if k < 3 then Some \<lparr>ce_value = k, ce_expiresAt = 0\<rparr> else None),
     sh_lru = [0, 1, 2], sh_cap = 3\<rparr>"

theorem lru_shard_outgrows_capacity_witness:
  "card (dom (sh_data (fst (set_shard (\<lambda>c n. max n (2 * c)) 4 \<lparr>ce_value = 4, ce_expiresAt = 0\<rparr>
     (fst (set_shard (\<lambda>c n. max n (2 * c)) 3 \<lparr>ce_value = 3, ce_expiresAt = 0\<rparr> full_shard)))))) = 4"
proof -
  have "shard_inv (\<lambda>_. True) full_shard"
    by (auto simp: shard_inv_def full_shard_def split: if_splits)
  from lru_shard_outgrows_capacity [OF this, of 3 4 "\<lambda>c n. max n (2 * c)"] show ?thesis
    by (simp add: full_shard_def)
qed

text \<open>A lookup does not move its key in the recency list: the least recently written key of a full shard
  is evicted by the next store even if it has just been read.\<close>

lemma read_key_is_evicted:
  assumes "lru_inv sprint c" and "getShard sprint k c = i" and "sh_lru (lc_shards c ! i) = k # ks"
    and "sh_cap (lc_shards c ! i) = Suc (length ks)" and "fst (Cache_Get sprint now k c) = Some v"
    and "getShard sprint k' c = i" and "sh_data (lc_shards c ! i) k' = None"
  shows "cache_entry_of sprint (Cache_Set sprint grow t k' v' (snd (Cache_Get sprint now k c))) k = None"
proof -
  let ?c = "snd (Cache_Get sprint now k c)"
  have same: "lc_shards ?c = lc_shards c" "lc_shardMask ?c = lc_shardMask c"
    using assms(5) by (auto simp: Cache_Get_def Let_def split: option.splits if_splits)
  have wf: "cache_wf ?c" using assms(1) same by (simp add: lru_inv_def cache_wf_def)
  have inv: "shard_inv (\<lambda>k'. getShard sprint k' c = i) (lc_shards c ! i)"
    using lru_inv_shard [OF assms(1), of k] assms(2) by simp
  have "k' \<noteq> k" using inv assms(3,7) by (auto simp: shard_inv_def)
  moreover have "sh_cap (lc_shards c ! i) \<le> card (dom (sh_data (lc_shards c ! i)))"
    using shard_inv_size [OF inv] assms(3,4) by simp
  ultimately have "sh_data (fst (set_shard grow k' e (lc_shards c ! i))) k = None" for e
    using assms(3,7) by (simp add: set_shard_def evictOldest_def append_lru_def Let_def)
  then show ?thesis
    using assms(2,6) by (simp add: cache_entry_of_def Cache_Set_shard [OF wf] same)
qed

end
