(* ===== verification/BufferPools.thy ===== *)
theory BufferPools
  imports Prelude "HOL-Library.Log_Nat"
begin

text \<open>
  The two pools of byte buffers: the power-of-two allocator of \<^verbatim>\<open>common/pool/alloc.go\<close> and the three size
  classes of \<^verbatim>\<open>buffer/pool.go\<close>.

  A buffer is a slice with its contents, length and capacity: a list of bytes for the underlying
  array and the visible length.  A \<open>sync.Pool\<close> is the list of the buffers put back; \<open>Get\<close> hands out any
  of them or makes a new one, and the choice is an argument.  Slicing beyond the capacity is a panic,
  the result None.
\<close>

record slice =
  sl_array :: "byte list"
  sl_len :: nat

definition sl_cap :: "slice \<Rightarrow> nat" where
  "sl_cap b = length (sl_array b)"

definition reslice :: "nat \<Rightarrow> slice \<Rightarrow> slice option" where
  "reslice n b = (if n \<le> sl_cap b then Some (b\<lparr>sl_len := n\<rparr>) else None)"

text \<open>\<open>pool_take pick mk bs\<close>: the buffer handed out and the buffers that stay.\<close>

definition pool_take :: "nat option \<Rightarrow> slice \<Rightarrow> slice list \<Rightarrow> slice \<times> slice list" where
  "pool_take pick mk bs =
     (case pick of
        Some i \<Rightarrow> if i < length bs then (bs ! i, take i bs @ drop (Suc i) bs) else (mk, bs)
      | None \<Rightarrow> (mk, bs))"

definition new_slice :: "nat \<Rightarrow> nat \<Rightarrow> slice" where
  "new_slice len cap = \<lparr>sl_array = replicate cap 0, sl_len = len\<rparr>"

lemma pool_take_mem: "pool_take pick mk bs = (b, rest) \<Longrightarrow> (b = mk \<or> b \<in> set bs) \<and> set rest \<subseteq> set bs"
  by (auto simp: pool_take_def split: option.splits if_splits dest: in_set_takeD in_set_dropD)

subsection \<open>The power-of-two allocator\<close>

definition maxBufferSize :: nat where "maxBufferSize = 65536"

record allocator =
  al_buffers :: "slice list list"

definition NewAllocator :: allocator where
  "NewAllocator = \<lparr>al_buffers = replicate 17 []\<rparr>"

text \<open>\<open>bits.Len32(uint32(size)) - 1\<close> for positive sizes below \<open>2\<^sup>3\<^sup>2\<close>; for zero the code's subtraction gives 65535
  after the conversion to 16 bits.\<close>

definition msb :: "nat \<Rightarrow> nat" where
  "msb sz = (if sz = 0 then 65535 else floorlog 2 sz - 1)"

definition class_of :: "nat \<Rightarrow> nat" where
  "class_of sz = (let b = msb sz in if sz = 2 ^ b then b else b + 1)"

definition Alloc_Get :: "nat option \<Rightarrow> int \<Rightarrow> allocator \<Rightarrow> slice option \<times> allocator" where
  "Alloc_Get pick sz a =
     (if sz \<le> 0 then (Some (new_slice 0 0), a)
      else
        let n = nat sz
        in if n > maxBufferSize then (Some (new_slice n n), a)
           else
             let c = class_of n; (b, rest) = pool_take pick (new_slice (2 ^ c) (2 ^ c)) (al_buffers a ! c)
             in (reslice n b, a\<lparr>al_buffers := (al_buffers a)[c := rest]\<rparr>))"

text \<open>False is the error result.\<close>

definition Alloc_Put :: "slice \<Rightarrow> allocator \<Rightarrow> bool \<times> allocator" where
  "Alloc_Put buf a =
     (let b = msb (sl_cap buf)
      in if sl_cap buf = 0 \<or> sl_cap buf > maxBufferSize \<or> sl_cap buf \<noteq> 2 ^ b then (False, a)
         else (True, a\<lparr>al_buffers := (al_buffers a)[b := buf # (al_buffers a ! b)]\<rparr>))"

lemma msb_bounds: "0 < n \<Longrightarrow> 2 ^ msb n \<le> n \<and> n < 2 ^ (msb n + 1)"
proof -
  assume n: "0 < n"
  then have f: "0 < floorlog 2 n" by (simp add: floorlog_def)
  have "2 ^ (floorlog 2 n - 1) \<le> n" "n < 2 ^ floorlog 2 n"
    using floorlog_bounds [of n 2] n by auto
  with n f show ?thesis by (simp add: msb_def)
qed

lemma msb_power: "msb (2 ^ k) = k"
proof -
  have "2 ^ msb (2 ^ k) \<le> (2 :: nat) ^ k" "(2 :: nat) ^ k < 2 ^ (msb (2 ^ k) + 1)"
    using msb_bounds [of "2 ^ k"] by simp_all
  then have "msb (2 ^ k) \<le> k" "k < msb (2 ^ k) + 1"
    by (meson one_less_numeral_iff power_le_imp_le_exp semiring_norm(76), meson one_less_numeral_iff power_less_imp_less_exp semiring_norm(76))
  then show ?thesis by simp
qed

lemma class_bounds:
  assumes "0 < n"
  shows "n \<le> 2 ^ class_of n" "2 ^ class_of n < 2 * n"
  using msb_bounds [OF assms] by (auto simp: class_of_def Let_def)

lemma class_small:
  assumes "0 < n" and "n \<le> maxBufferSize"
  shows "class_of n < 17"
proof (rule ccontr)
  assume "\<not> class_of n < 17"
  then have "(2 :: nat) ^ 17 \<le> 2 ^ class_of n" by (intro power_increasing) auto
  also have "\<dots> < 2 * n" by (rule class_bounds [OF assms(1)])
  finally show False using assms(2) by (simp add: maxBufferSize_def)
qed

text \<open>Class \<open>c\<close> holds only buffers of capacity \<open>2\<^sup>c\<close>.\<close>

definition allocator_inv :: "allocator \<Rightarrow> bool" where
  "allocator_inv a \<longleftrightarrow> length (al_buffers a) = 17 \<and> (\<forall>c < 17. \<forall>b \<in> set (al_buffers a ! c). sl_cap b = 2 ^ c)"

inductive alloc_step :: "allocator \<Rightarrow> allocator \<Rightarrow> bool" where
  get: "alloc_step a (snd (Alloc_Get pick sz a))"
| put: "alloc_step a (snd (Alloc_Put buf a))"

lemma Alloc_Get_ok:
  assumes "allocator_inv a" and "Alloc_Get pick sz a = (res, a')"
  shows "allocator_inv a' \<and> (\<exists>b. res = Some b \<and> sl_len b = nat sz \<and>
    (0 < sz \<and> sz \<le> 65536 \<longrightarrow> sl_cap b = 2 ^ class_of (nat sz)))"
proof (cases "0 < sz \<and> nat sz \<le> maxBufferSize")
  case False
  then show ?thesis
    using assms by (auto simp: Alloc_Get_def Let_def new_slice_def maxBufferSize_def split: if_splits)
next
  case True
  let ?n = "nat sz"
  let ?c = "class_of ?n"
  have c: "?c < 17" using class_small True by simp
  obtain b rest where t: "pool_take pick (new_slice (2 ^ ?c) (2 ^ ?c)) (al_buffers a ! ?c) = (b, rest)" by fastforce
  have cap: "sl_cap b = 2 ^ ?c" and rest: "\<forall>b \<in> set rest. sl_cap b = 2 ^ ?c"
    using pool_take_mem [OF t] assms(1) c by (auto simp: allocator_inv_def new_slice_def sl_cap_def)
  have "?n \<le> sl_cap b" using class_bounds(1) [of ?n] True cap by simp
  then have "res = Some (b\<lparr>sl_len := ?n\<rparr>)" "a' = a\<lparr>al_buffers := (al_buffers a)[?c := rest]\<rparr>"
    using assms(2) True t by (auto simp: Alloc_Get_def Let_def reslice_def)
  moreover have "allocator_inv (a\<lparr>al_buffers := (al_buffers a)[?c := rest]\<rparr>)"
  proof -
    have "\<forall>b \<in> set ((al_buffers a)[?c := rest] ! j). sl_cap b = 2 ^ j" if "j < 17" for j
      using assms(1) rest that by (cases "j = ?c") (simp_all add: allocator_inv_def)
    with assms(1) show ?thesis by (simp add: allocator_inv_def)
  qed
  ultimately show ?thesis using cap by (simp add: sl_cap_def)
qed

lemma Alloc_Put_inv:
  assumes "allocator_inv a"
  shows "allocator_inv (snd (Alloc_Put buf a))"
proof (cases "sl_cap buf = 0 \<or> sl_cap buf > maxBufferSize \<or> sl_cap buf \<noteq> 2 ^ msb (sl_cap buf)")
  case True
  then show ?thesis using assms by (simp add: Alloc_Put_def Let_def)
next
  case False
  define m where "m = msb (sl_cap buf)"
  have cap: "sl_cap buf = 2 ^ m" using False by (simp add: m_def)
  have "\<forall>b \<in> set ((al_buffers a)[m := buf # (al_buffers a ! m)] ! j). sl_cap b = 2 ^ j" if "j < 17" for j
    using assms cap that by (cases "j = m") (simp_all add: allocator_inv_def)
  moreover have "snd (Alloc_Put buf a) = a\<lparr>al_buffers := (al_buffers a)[m := buf # (al_buffers a ! m)]\<rparr>"
    using False by (simp add: Alloc_Put_def Let_def m_def)
  ultimately show ?thesis using assms by (simp add: allocator_inv_def)
qed

interpretation allocsys: invariant_system "\<lambda>a. a = NewAllocator" alloc_step allocator_inv
proof unfold_locales
  fix a :: allocator
  show "a = NewAllocator \<Longrightarrow> allocator_inv a"
    by (auto simp: allocator_inv_def NewAllocator_def)
next
  fix a a'
  assume "allocator_inv a" and "alloc_step a a'"
  then show "allocator_inv a'"
    by (auto elim!: alloc_step.cases intro: Alloc_Put_inv) (metis Alloc_Get_ok prod.collapse)
qed

text \<open>Whatever buffers were put into the allocator before, \<open>Get\<close> never slices out of bounds: it returns a
  buffer of the requested length, from the pool one whose capacity is a power of two below twice that
  length, and \<open>Put\<close> accepts the buffer back.\<close>

theorem allocator_get_fits:
  assumes "alloc_step\<^sup>*\<^sup>* NewAllocator a" and "Alloc_Get pick sz a = (res, a')" and "0 < sz"
  shows "\<exists>b. res = Some b \<and> sl_len b = nat sz \<and> nat sz \<le> sl_cap b \<and> sl_cap b < 2 * nat sz \<and>
    (sz \<le> 65536 \<longrightarrow> fst (Alloc_Put b a'))"
proof -
  have "allocator_inv a" using allocsys.run_inv assms(1) by blast
  then obtain b where b: "res = Some b" "sl_len b = nat sz"
    "0 < sz \<and> sz \<le> 65536 \<longrightarrow> sl_cap b = 2 ^ class_of (nat sz)"
    using Alloc_Get_ok assms(2) by blast
  show ?thesis
  proof (cases "sz \<le> 65536")
    case True
    have n: "0 < nat sz" "nat sz \<le> maxBufferSize" using assms(3) True by (auto simp: maxBufferSize_def)
    have cap: "sl_cap b = 2 ^ class_of (nat sz)" using b(3) assms(3) True by simp
    have "class_of (nat sz) \<le> 16" using class_small [OF n] by simp
    then have "sl_cap b \<le> 2 ^ 16" unfolding cap by (intro power_increasing) auto
    then have "fst (Alloc_Put b a')" by (simp add: Alloc_Put_def cap msb_power maxBufferSize_def Let_def)
    with b cap class_bounds [OF n(1)] show ?thesis by auto
  next
    case False
    then have "b = new_slice (nat sz) (nat sz)"
      using assms(2,3) b(1) by (auto simp: Alloc_Get_def maxBufferSize_def Let_def split: if_splits)
    with b(1,2) False show ?thesis by (simp add: new_slice_def sl_cap_def)
  qed
qed

theorem allocator_get_fits_witness:
  "\<exists>b. fst (Alloc_Get None 300 NewAllocator) = Some b \<and> sl_len b = 300 \<and> sl_cap b < 600"
  using allocator_get_fits [OF rtranclp.rtrancl_refl, of None 300] by (cases "Alloc_Get None 300 NewAllocator") auto

subsection \<open>The pool with three size classes\<close>

definition SmallBufferSize :: nat where "SmallBufferSize = 512"
definition MediumBufferSize :: nat where "MediumBufferSize = 2048"
definition LargeBufferSize :: nat where "LargeBufferSize = 9000"

record buffer_pool =
  bp_small :: "slice list"
  bp_medium :: "slice list"
  bp_large :: "slice list"
  bp_smallGets :: "64 word"
  bp_mediumGets :: "64 word"
  bp_largeGets :: "64 word"
  bp_smallPuts :: "64 word"
  bp_mediumPuts :: "64 word"
  bp_largePuts :: "64 word"

definition New_pool :: buffer_pool where
  "New_pool = \<lparr>bp_small = [], bp_medium = [], bp_large = [], bp_smallGets = 0, bp_mediumGets = 0, bp_largeGets = 0,
     bp_smallPuts = 0, bp_mediumPuts = 0, bp_largePuts = 0\<rparr>"

definition PreWarmPool :: "nat \<Rightarrow> nat \<Rightarrow> nat \<Rightarrow> buffer_pool \<Rightarrow> buffer_pool" where
  "PreWarmPool small medium large p =
     p\<lparr>bp_small := replicate small (new_slice 0 SmallBufferSize) @ bp_small p,
       bp_smallPuts := bp_smallPuts p + of_nat small,
       bp_medium := replicate medium (new_slice 0 MediumBufferSize) @ bp_medium p,
       bp_mediumPuts := bp_mediumPuts p + of_nat medium,
       bp_large := replicate large (new_slice 0 LargeBufferSize) @ bp_large p,
       bp_largePuts := bp_largePuts p + of_nat large\<rparr>"

text \<open>A negative size is served like zero.\<close>

definition Buf_Get :: "nat option \<Rightarrow> nat \<Rightarrow> buffer_pool \<Rightarrow> slice \<times> buffer_pool" where
  "Buf_Get pick n p =
     (if n \<le> SmallBufferSize then
        let (b, rest) = pool_take pick (new_slice 0 SmallBufferSize) (bp_small p)
        in (b\<lparr>sl_len := 0\<rparr>, p\<lparr>bp_small := rest, bp_smallGets := bp_smallGets p + 1\<rparr>)
      else if n \<le> MediumBufferSize then
        let (b, rest) = pool_take pick (new_slice 0 MediumBufferSize) (bp_medium p)
        in (b\<lparr>sl_len := 0\<rparr>, p\<lparr>bp_medium := rest, bp_mediumGets := bp_mediumGets p + 1\<rparr>)
      else
        let (b, rest) = pool_take pick (new_slice 0 LargeBufferSize) (bp_large p)
        in (b\<lparr>sl_len := 0\<rparr>, p\<lparr>bp_large := rest, bp_largeGets := bp_largeGets p + 1\<rparr>))"

text \<open>None is the nil slice; the length of a slice never exceeds its capacity, so that the code's test for
  a corrupted buffer never applies.\<close>

definition Buf_Put :: "slice option \<Rightarrow> buffer_pool \<Rightarrow> buffer_pool" where
  "Buf_Put buf p =
     (case buf of
        None \<Rightarrow> p
      | Some b \<Rightarrow>
          let c = sl_cap b
          in if c < SmallBufferSize \<or> c > LargeBufferSize then p
             else if sl_len b > c then p
             else if c \<le> SmallBufferSize then p\<lparr>bp_small := b # bp_small p, bp_smallPuts := bp_smallPuts p + 1\<rparr>
             else if c \<le> MediumBufferSize then p\<lparr>bp_medium := b # bp_medium p, bp_mediumPuts := bp_mediumPuts p + 1\<rparr>
             else p\<lparr>bp_large := b # bp_large p, bp_largePuts := bp_largePuts p + 1\<rparr>)"

definition Clone :: "nat option \<Rightarrow> byte list \<Rightarrow> buffer_pool \<Rightarrow> slice option \<times> buffer_pool" where
  "Clone pick src p =
     (if length src = 0 then (case Buf_Get pick 0 p of (b, p1) \<Rightarrow> (Some b, p1))
      else
        let (b, p1) = Buf_Get pick (length src) p
        in (map_option (\<lambda>b1. b1\<lparr>sl_array := src @ drop (length src) (sl_array b1)\<rparr>) (reslice (length src) b), p1))"

record buffer_stats =
  bs_TotalGets :: "64 word"
  bs_TotalPuts :: "64 word"
  bs_SmallInUse :: "64 word"
  bs_MediumInUse :: "64 word"
  bs_LargeInUse :: "64 word"
  bs_TotalInUse :: "64 word"
  bs_ReuseRatio :: rat

text \<open>The ratio is a float in the code.\<close>

definition Buf_GetStats :: "buffer_pool \<Rightarrow> buffer_stats" where
  "Buf_GetStats p =
     (let totalGets = bp_smallGets p + bp_mediumGets p + bp_largeGets p;
          totalPuts = bp_smallPuts p + bp_mediumPuts p + bp_largePuts p
      in \<lparr>bs_TotalGets = totalGets, bs_TotalPuts = totalPuts,
          bs_SmallInUse = bp_smallGets p - bp_smallPuts p, bs_MediumInUse = bp_mediumGets p - bp_mediumPuts p,
          bs_LargeInUse = bp_largeGets p - bp_largePuts p, bs_TotalInUse = totalGets - totalPuts,
          bs_ReuseRatio = (if totalGets > 0 then of_nat (unat totalPuts) / of_nat (unat totalGets) else 0)\<rparr>)"

lemmas size_defs = SmallBufferSize_def MediumBufferSize_def LargeBufferSize_def

text \<open>The runs in which every buffer put back satisfies \<open>ok\<close>.\<close>

inductive pool_step :: "(slice \<Rightarrow> bool) \<Rightarrow> buffer_pool \<Rightarrow> buffer_pool \<Rightarrow> bool" for ok where
  get: "pool_step ok p (snd (Buf_Get pick n p))"
| put: "(\<And>b. buf = Some b \<Longrightarrow> ok b) \<Longrightarrow> pool_step ok p (Buf_Put buf p)"
| clone: "pool_step ok p (snd (Clone pick src p))"
| warm: "pool_step ok p (PreWarmPool i j k p)"

definition pool_inv :: "(slice \<Rightarrow> bool) \<Rightarrow> buffer_pool \<Rightarrow> bool" where
  "pool_inv ok p \<longleftrightarrow>
     (\<forall>b \<in> set (bp_small p). sl_cap b = 512) \<and>
     (\<forall>b \<in> set (bp_medium p). 512 < sl_cap b \<and> sl_cap b \<le> 2048 \<and> (sl_cap b = 2048 \<or> ok b)) \<and>
     (\<forall>b \<in> set (bp_large p). 2048 < sl_cap b \<and> sl_cap b \<le> 9000 \<and> (sl_cap b = 9000 \<or> ok b))"

lemma new_slice_cap [simp]: "sl_cap (new_slice n c) = c"
  by (simp add: sl_cap_def new_slice_def)

lemma len_cap [simp]: "sl_cap (b\<lparr>sl_len := n\<rparr>) = sl_cap b"
  by (simp add: sl_cap_def)

lemma Buf_Get_inv:
  assumes "pool_inv ok p" and "Buf_Get pick n p = (b, p')"
  shows "pool_inv ok p' \<and> sl_len b = 0 \<and>
    (n \<le> 512 \<longrightarrow> sl_cap b = 512) \<and>
    (512 < n \<and> n \<le> 2048 \<longrightarrow> 512 < sl_cap b \<and> sl_cap b \<le> 2048 \<and> (sl_cap b = 2048 \<or> (\<exists>b'. ok b' \<and> sl_cap b' = sl_cap b))) \<and>
    (2048 < n \<longrightarrow> 2048 < sl_cap b \<and> sl_cap b \<le> 9000 \<and> (sl_cap b = 9000 \<or> (\<exists>b'. ok b' \<and> sl_cap b' = sl_cap b)))"
proof -
  consider "n \<le> 512" | "512 < n" "n \<le> 2048" | "2048 < n" by linarith
  then show ?thesis
  proof cases
    case 1
    obtain x rest where t: "pool_take pick (new_slice 0 SmallBufferSize) (bp_small p) = (x, rest)" by fastforce
    then show ?thesis
      using assms 1 pool_take_mem [OF t] by (auto simp: Buf_Get_def size_defs pool_inv_def)
  next
    case 2
    obtain x rest where t: "pool_take pick (new_slice 0 MediumBufferSize) (bp_medium p) = (x, rest)" by fastforce
    then show ?thesis
      using assms 2 pool_take_mem [OF t] by (auto simp: Buf_Get_def size_defs pool_inv_def; metis)
  next
    case 3
    obtain x rest where t: "pool_take pick (new_slice 0 LargeBufferSize) (bp_large p) = (x, rest)" by fastforce
    then show ?thesis
      using assms 3 pool_take_mem [OF t] by (auto simp: Buf_Get_def size_defs pool_inv_def; metis)
  qed
qed

lemma Clone_snd: "snd (Clone pick src p) = snd (Buf_Get pick (length src) p)"
  by (simp add: Clone_def case_prod_unfold Let_def)

lemma pool_step_inv: "pool_step ok p p' \<Longrightarrow> pool_inv ok p \<Longrightarrow> pool_inv ok p'"
proof (induction rule: pool_step.induct)
  case (get p pick n)
  then show ?case using Buf_Get_inv [OF get] by (metis prod.collapse)
next
  case (put buf p)
  then show ?case
    by (cases buf) (auto simp: Buf_Put_def pool_inv_def size_defs Let_def)
next
  case (clone p pick src)
  then show ?case unfolding Clone_snd using Buf_Get_inv [OF clone] by (metis prod.collapse)
next
  case (warm p i j k)
  then show ?case by (auto simp: PreWarmPool_def pool_inv_def size_defs)
qed

interpretation bufsys: invariant_system "\<lambda>p. p = New_pool" "pool_step ok" "pool_inv ok" for ok
proof unfold_locales
  show "p = New_pool \<Longrightarrow> pool_inv ok p" for p by (simp add: New_pool_def pool_inv_def)
  show "pool_inv ok p \<Longrightarrow> pool_step ok p p' \<Longrightarrow> pool_inv ok p'" for p p' by (rule pool_step_inv)
qed

definition own_buffer :: "slice \<Rightarrow> bool" where
  "own_buffer b \<longleftrightarrow> sl_cap b = 512 \<or> sl_cap b = 2048 \<or> sl_cap b = 9000"

text \<open>As long as only buffers of the pool's own three capacities are put back, \<open>Clone\<close> of up to 9000 bytes
  returns a buffer that holds exactly those bytes.\<close>

theorem clone_copies_own_buffers:
  assumes "(pool_step own_buffer)\<^sup>*\<^sup>* New_pool p" and "length src \<le> 9000"
  shows "\<exists>b. fst (Clone pick src p) = Some b \<and> sl_len b = length src \<and> take (sl_len b) (sl_array b) = src"
proof -
  have inv: "pool_inv own_buffer p" using bufsys.run_inv assms(1) by blast
  obtain b p1 where g: "Buf_Get pick (length src) p = (b, p1)" by fastforce
  have "length src \<le> sl_cap b" and "sl_len b = 0"
    using Buf_Get_inv [OF inv g] assms(2) by (auto simp: own_buffer_def not_le)
  then show ?thesis using g by (cases "src = []") (auto simp: Clone_def reslice_def)
qed

theorem clone_copies_own_buffers_witness:
  "\<exists>b. fst (Clone None [1, 2, 3] New_pool) = Some b \<and> take (sl_len b) (sl_array b) = [1, 2, 3]"
  using clone_copies_own_buffers [OF rtranclp.rtrancl_refl, of "[1, 2, 3]" None] by auto

text \<open>\<open>Clone\<close> panics on every source longer than the largest class.  A buffer of an odd capacity that was
  put into the pool is enough for it to panic on shorter ones: the medium class then holds a buffer too
  small for what it promises.\<close>

theorem clone_can_panic:
  assumes "(pool_step (\<lambda>_. True))\<^sup>*\<^sup>* New_pool p"
  shows "(length src > 9000 \<longrightarrow> fst (Clone pick src p) = None) \<and>
    (512 < sl_cap b \<and> sl_cap b < length src' \<and> length src' \<le> 2048 \<and> sl_len b \<le> sl_cap b \<longrightarrow>
       fst (Clone (Some 0) src' (Buf_Put (Some b) p)) = None)"
proof (intro conjI impI)
  assume "length src > 9000"
  moreover have inv: "pool_inv (\<lambda>_. True) p" using bufsys.run_inv assms by blast
  obtain x p1 where g: "Buf_Get pick (length src) p = (x, p1)" by fastforce
  ultimately have "sl_cap x < length src" using Buf_Get_inv [OF inv g] by auto
  with g \<open>length src > 9000\<close> show "fst (Clone pick src p) = None" by (auto simp: Clone_def reslice_def)
next
  assume b: "512 < sl_cap b \<and> sl_cap b < length src' \<and> length src' \<le> 2048 \<and> sl_len b \<le> sl_cap b"
  then have "bp_medium (Buf_Put (Some b) p) = b # bp_medium p" by (auto simp: Buf_Put_def size_defs Let_def)
  with b show "fst (Clone (Some 0) src' (Buf_Put (Some b) p)) = None"
    by (auto simp: Clone_def Buf_Get_def pool_take_def size_defs reslice_def)
qed

theorem clone_can_panic_witness:
  "fst (Clone (Some 0) (replicate 1000 0) (Buf_Put (Some (new_slice 0 600)) New_pool)) = None"
  using clone_can_panic [OF rtranclp.rtrancl_refl, THEN conjunct2, of "new_slice 0 600" "replicate 1000 0"]
  by (simp add: new_slice_def sl_cap_def)

end
