(* ===== verification/TcpSession.thy ===== *)
theory TcpSession
  imports GoNet BufferPools
begin

text \<open>
  One tracked TCP session of core/conntrack.go together with the goroutines that work on it: the two
  relays that \<open>CreateTCP\<close> starts, the two pumps that \<open>HandleTCP\<close> of core/proxy_handler.go starts, and
  the callers of \<open>RemoveTCP\<close>.  A goroutine is a program counter; each step function runs one of them up
  to its next synchronisation point (a channel operation, an atomic load, a mutex section, a call that
  blocks) and returns \<open>None\<close> where it would block.  What the network answers and which ready case a
  \<open>select\<close> takes are arguments.

  The last fields of the record are ghosts: the payloads accepted from the client, written to the
  proxy, read from the proxy and delivered to the client, and the proxy connections opened and closed.
\<close>

subsection \<open>Channels\<close>

type_synonym payload = "byte list"
type_synonym conn_id = nat

record chan =
  ch_buf :: "payload list"
  ch_cap :: nat
  ch_closed :: bool

definition make_chan :: "nat \<Rightarrow> chan" where
  "make_chan n = \<lparr>ch_buf = [], ch_cap = n, ch_closed = False\<rparr>"

text \<open>A send is ready when there is room or the channel is closed; on a closed channel it panics.\<close>

datatype send_result = SendBlocks | SendPanics | Sent chan

definition chan_send :: "payload \<Rightarrow> chan \<Rightarrow> send_result" where
  "chan_send d c =
     (if ch_closed c then SendPanics
      else if length (ch_buf c) < ch_cap c then Sent (c\<lparr>ch_buf := ch_buf c @ [d]\<rparr>)
      else SendBlocks)"

datatype recv_result = RecvBlocks | RecvClosed | Received payload chan

definition chan_recv :: "chan \<Rightarrow> recv_result" where
  "chan_recv c =
     (case ch_buf c of
        d # ds \<Rightarrow> Received d (c\<lparr>ch_buf := ds\<rparr>)
      | [] \<Rightarrow> if ch_closed c then RecvClosed else RecvBlocks)"

definition drainChannel :: "chan \<Rightarrow> chan" where
  "drainChannel c = c\<lparr>ch_buf := []\<rparr>"

definition close_chan :: "chan \<Rightarrow> chan" where
  "close_chan c = c\<lparr>ch_closed := True\<rparr>"

subsection \<open>The session\<close>

record conn_meta =
  SourceIP :: addr
  SourcePort :: "16 word"
  DestIP :: addr
  DestPort :: "16 word"
  Protocol :: byte
  Domain :: string

text \<open>The body of \<open>closeOnce.Do\<close> in \<open>RemoveTCP\<close>, by the action that comes next.\<close>

datatype once_stage = OncePending | OnceCancel | OnceProxy | OnceDrainTo | OnceDrainFrom
  | OnceCloseTo | OnceCloseFrom | OnceDelete | OnceCount | OnceDone

datatype sender_pc = S_Off | S_Recv | S_Check payload | S_Peek payload | S_DialCheck payload | S_Dial payload nat
  | S_Backoff payload nat | S_Store payload conn_id | S_Load payload | S_Write payload "conn_id option"
  | S_Remove | S_InOnce | S_Done

datatype receiver_pc = R_Off | R_Loop | R_Read conn_id | R_Send payload | R_Done

datatype uplink_pc = U_Off | U_Read | U_Send payload | U_Done

datatype downlink_pc = D_Off | D_Recv | D_Write payload | D_Remove | D_InOnce | D_Done

record tcp_session =
  tc_Meta :: conn_meta
  tc_ProxyConn :: "conn_id option"
  tc_ctxDone :: bool
  tc_ToProxy :: chan
  tc_FromProxy :: chan
  tc_once :: once_stage
  tc_closed :: bool
  tc_relayWG :: int
  tc_bytesSent :: "64 word"
  tc_bytesReceived :: "64 word"
  tc_lastActivity :: instant
  tc_sender :: sender_pc
  tc_receiver :: receiver_pc
  tc_uplink :: uplink_pc
  tc_downlink :: downlink_pc
  tc_accepted :: "payload list"
  tc_written :: "payload list"
  tc_read :: "payload list"
  tc_delivered :: "payload list"
  tc_opened :: "conn_id list"
  tc_shut :: "conn_id list"

definition new_TCPConn :: "instant \<Rightarrow> conn_meta \<Rightarrow> tcp_session" where
  "new_TCPConn now meta =
     \<lparr>tc_Meta = meta, tc_ProxyConn = None, tc_ctxDone = False, tc_ToProxy = make_chan 128, tc_FromProxy = make_chan 128,
      tc_once = OncePending, tc_closed = False, tc_relayWG = 0, tc_bytesSent = 0, tc_bytesReceived = 0,
      tc_lastActivity = now, tc_sender = S_Off, tc_receiver = R_Off, tc_uplink = U_Off, tc_downlink = D_Off,
      tc_accepted = [], tc_written = [], tc_read = [], tc_delivered = [], tc_opened = [], tc_shut = []\<rparr>"

text \<open>The session that \<open>CreateTCP\<close> throws away because its key is taken.\<close>

definition discard_TCPConn :: "tcp_session \<Rightarrow> tcp_session" where
  "discard_TCPConn s =
     s\<lparr>tc_once := OnceDone, tc_closed := True, tc_ctxDone := True,
       tc_ToProxy := close_chan (tc_ToProxy s), tc_FromProxy := close_chan (tc_FromProxy s)\<rparr>"

text \<open>The end of \<open>CreateTCP\<close>: the wait group is raised and the relays start.\<close>

definition spawn_relays :: "tcp_session \<Rightarrow> tcp_session option" where
  "spawn_relays s =
     (if tc_sender s = S_Off
      then Some (s\<lparr>tc_relayWG := tc_relayWG s + 2, tc_sender := S_Recv, tc_receiver := R_Loop\<rparr>) else None)"

definition start_pumps :: "tcp_session \<Rightarrow> tcp_session option" where
  "start_pumps s =
     (if tc_uplink s = U_Off \<and> tc_downlink s = D_Off then Some (s\<lparr>tc_uplink := U_Read, tc_downlink := D_Recv\<rparr>) else None)"

subsection \<open>RemoveTCP\<close>

text \<open>A caller of \<open>RemoveTCP\<close>: \<open>None\<close> is the early return, otherwise it enters \<open>closeOnce.Do\<close>, runs the body
  if it is the first and has to wait until the body is finished.\<close>

definition RemoveTCP_enter :: "tcp_session \<Rightarrow> tcp_session option" where
  "RemoveTCP_enter s =
     (if tc_closed s then None
      else Some (if tc_once s = OncePending then s\<lparr>tc_once := OnceCancel, tc_closed := True\<rparr> else s))"

definition close_proxy_conn :: "tcp_session \<Rightarrow> tcp_session" where
  "close_proxy_conn s =
     (case tc_ProxyConn s of None \<Rightarrow> s | Some c \<Rightarrow> s\<lparr>tc_ProxyConn := None, tc_shut := tc_shut s @ [c]\<rparr>)"

text \<open>The actions of the body on the session.  The last two, the removal from the table and the
  counter of active sessions, belong to the tracker; here they only move on.\<close>

fun RemoveTCP_body :: "tcp_session \<Rightarrow> tcp_session option" where
  "RemoveTCP_body s =
     (case tc_once s of
        OncePending \<Rightarrow> None
      | OnceCancel \<Rightarrow> Some (s\<lparr>tc_ctxDone := True, tc_once := OnceProxy\<rparr>)
      | OnceProxy \<Rightarrow> Some ((close_proxy_conn s)\<lparr>tc_once := OnceDrainTo\<rparr>)
      | OnceDrainTo \<Rightarrow> Some (s\<lparr>tc_ToProxy := drainChannel (tc_ToProxy s), tc_once := OnceDrainFrom\<rparr>)
      | OnceDrainFrom \<Rightarrow> Some (s\<lparr>tc_FromProxy := drainChannel (tc_FromProxy s), tc_once := OnceCloseTo\<rparr>)
      | OnceCloseTo \<Rightarrow> Some (s\<lparr>tc_ToProxy := close_chan (tc_ToProxy s), tc_once := OnceCloseFrom\<rparr>)
      | OnceCloseFrom \<Rightarrow> Some (s\<lparr>tc_FromProxy := close_chan (tc_FromProxy s), tc_once := OnceDelete\<rparr>)
      | OnceDelete \<Rightarrow> Some (s\<lparr>tc_once := OnceCount\<rparr>)
      | OnceCount \<Rightarrow> Some (s\<lparr>tc_once := OnceDone\<rparr>)
      | OnceDone \<Rightarrow> None)"

subsection \<open>The relays\<close>

text \<open>What a step may need from outside: the clock, whether a \<open>select\<close> takes the case of the cancelled
  context, the answer of the dialer, of a write and of a read, and the buffer pool from which the
  goroutine took its buffer, with the pool's choice.\<close>

record io_env =
  io_now :: instant
  io_done :: bool
  io_dial :: "string + conn_id"
  io_write :: "string + nat"
  io_read :: "string + payload"
  io_pick :: "nat option"
  io_pool :: buffer_pool

text \<open>A read stores at most as many bytes as the slice is long: the slice that \<open>buffer.Get\<close> returned, of
  length \<open>len(buf)\<close>, not of its capacity.\<close>

definition read_into :: "nat \<Rightarrow> io_env \<Rightarrow> payload \<Rightarrow> payload" where
  "read_into n e d = take (sl_len (fst (Buf_Get (io_pick e) n (io_pool e)))) d"

definition maxRetries :: nat where "maxRetries = 3"

text \<open>\<open>dialProxy\<close>: at most three attempts with a pause between them, abandoned when the context is
  cancelled.  The sender is inside it from \<open>S_DialCheck\<close> to \<open>S_Store\<close>.\<close>

definition dial_attempt :: "io_env \<Rightarrow> payload \<Rightarrow> nat \<Rightarrow> tcp_session \<Rightarrow> tcp_session" where
  "dial_attempt e d n s =
     (case io_dial e of
        Inr c \<Rightarrow> s\<lparr>tc_sender := S_Store d c, tc_opened := tc_opened s @ [c]\<rparr>
      | Inl _ \<Rightarrow> if tc_ctxDone s then s\<lparr>tc_sender := S_Remove\<rparr>
                 else if n < maxRetries - 1 then s\<lparr>tc_sender := S_Backoff d n\<rparr>
                 else s\<lparr>tc_sender := S_Remove\<rparr>)"

definition dialProxy :: "io_env \<Rightarrow> tcp_session \<Rightarrow> tcp_session option" where
  "dialProxy e s =
     (case tc_sender s of
        S_DialCheck d \<Rightarrow>
          Some (if tc_ProxyConn s \<noteq> None then s\<lparr>tc_sender := S_Load d\<rparr> else s\<lparr>tc_sender := S_Dial d 0\<rparr>)
      | S_Dial d n \<Rightarrow> Some (dial_attempt e d n s)
      | S_Backoff d n \<Rightarrow>
          if io_done e then (if tc_ctxDone s then Some (s\<lparr>tc_sender := S_Remove\<rparr>) else None)
          else Some (s\<lparr>tc_sender := S_Dial d (n + 1)\<rparr>)
      | S_Store d c \<Rightarrow> Some (s\<lparr>tc_ProxyConn := Some c, tc_sender := S_Load d\<rparr>)
      | _ \<Rightarrow> None)"

definition relayToProxy :: "io_env \<Rightarrow> tcp_session \<Rightarrow> tcp_session option" where
  "relayToProxy e s =
     (case tc_sender s of
        S_Off \<Rightarrow> None
      | S_Recv \<Rightarrow>
          if io_done e then (if tc_ctxDone s then Some (s\<lparr>tc_sender := S_Remove\<rparr>) else None)
          else (case chan_recv (tc_ToProxy s) of
                  RecvBlocks \<Rightarrow> None
                | RecvClosed \<Rightarrow> Some (s\<lparr>tc_sender := S_Remove\<rparr>)
                | Received d ch \<Rightarrow> Some (s\<lparr>tc_ToProxy := ch, tc_sender := S_Check d\<rparr>))
      | S_Check d \<Rightarrow>
          Some (if tc_closed s then s\<lparr>tc_sender := S_Remove\<rparr>
                else s\<lparr>tc_lastActivity := io_now e, tc_sender := S_Peek d\<rparr>)
      | S_Peek d \<Rightarrow>
          Some (case tc_ProxyConn s of
                  None \<Rightarrow> s\<lparr>tc_sender := S_DialCheck d\<rparr>
                | Some c \<Rightarrow> s\<lparr>tc_sender := S_Write d (Some c)\<rparr>)
      | S_DialCheck d \<Rightarrow> dialProxy e s
      | S_Dial d n \<Rightarrow> dialProxy e s
      | S_Backoff d n \<Rightarrow> dialProxy e s
      | S_Store d c \<Rightarrow> dialProxy e s
      | S_Load d \<Rightarrow> Some (s\<lparr>tc_sender := S_Write d (tc_ProxyConn s)\<rparr>)
      | S_Write d None \<Rightarrow> Some (s\<lparr>tc_sender := S_Remove\<rparr>)
      | S_Write d (Some c) \<Rightarrow>
          Some (case io_write e of
                  Inl _ \<Rightarrow> s\<lparr>tc_sender := S_Remove\<rparr>
                | Inr n \<Rightarrow> s\<lparr>tc_bytesSent := tc_bytesSent s + of_nat n, tc_written := tc_written s @ [d], tc_sender := S_Recv\<rparr>)
      | S_Remove \<Rightarrow>
          Some (case RemoveTCP_enter s of
                  None \<Rightarrow> s\<lparr>tc_sender := S_Done, tc_relayWG := tc_relayWG s - 1\<rparr>
                | Some s' \<Rightarrow> s'\<lparr>tc_sender := S_InOnce\<rparr>)
      | S_InOnce \<Rightarrow>
          if tc_once s = OnceDone then Some (s\<lparr>tc_sender := S_Done, tc_relayWG := tc_relayWG s - 1\<rparr>) else None
      | S_Done \<Rightarrow> None)"

definition relayFromProxy :: "io_env \<Rightarrow> tcp_session \<Rightarrow> tcp_session option" where
  "relayFromProxy e s =
     (let exit = s\<lparr>tc_receiver := R_Done, tc_relayWG := tc_relayWG s - 1\<rparr>
      in case tc_receiver s of
           R_Off \<Rightarrow> None
         | R_Loop \<Rightarrow>
             (case tc_ProxyConn s of
                None \<Rightarrow> if io_done e then (if tc_ctxDone s then Some exit else None) else Some s
              | Some c \<Rightarrow> Some (s\<lparr>tc_receiver := R_Read c\<rparr>))
         | R_Read c \<Rightarrow>
             Some (case io_read e of
                     Inl _ \<Rightarrow> exit
                   | Inr avail \<Rightarrow>
                       let d = read_into LargeBufferSize e avail
                       in s\<lparr>tc_lastActivity := io_now e, tc_bytesReceived := tc_bytesReceived s + of_nat (length d),
                            tc_read := tc_read s @ [d], tc_receiver := R_Send d\<rparr>)
         | R_Send d \<Rightarrow>
             if io_done e then (if tc_ctxDone s then Some exit else None)
             else (case chan_send d (tc_FromProxy s) of
                     SendBlocks \<Rightarrow> None
                   | SendPanics \<Rightarrow> Some exit
                   | Sent ch \<Rightarrow> Some (s\<lparr>tc_FromProxy := ch, tc_receiver := R_Loop\<rparr>))
         | R_Done \<Rightarrow> None)"

subsection \<open>The pumps of HandleTCP\<close>

text \<open>Client to proxy; a panic of the send is caught by \<open>SafeGo\<close>.\<close>

definition HandleTCP_uplink :: "io_env \<Rightarrow> tcp_session \<Rightarrow> tcp_session option" where
  "HandleTCP_uplink e s =
     (case tc_uplink s of
        U_Off \<Rightarrow> None
      | U_Read \<Rightarrow>
          Some (case io_read e of
                  Inl _ \<Rightarrow> s\<lparr>tc_uplink := U_Done\<rparr>
                | Inr avail \<Rightarrow> s\<lparr>tc_uplink := U_Send (read_into LargeBufferSize e avail)\<rparr>)
      | U_Send d \<Rightarrow>
          if io_done e then (if tc_ctxDone s then Some (s\<lparr>tc_uplink := U_Done\<rparr>) else None)
          else (case chan_send d (tc_ToProxy s) of
                  SendBlocks \<Rightarrow> None
                | SendPanics \<Rightarrow> Some (s\<lparr>tc_uplink := U_Done\<rparr>)
                | Sent ch \<Rightarrow> Some (s\<lparr>tc_ToProxy := ch, tc_accepted := tc_accepted s @ [d], tc_uplink := U_Read\<rparr>))
      | U_Done \<Rightarrow> None)"

text \<open>Proxy to client; this goroutine removes the session when it ends.\<close>

definition HandleTCP_downlink :: "io_env \<Rightarrow> tcp_session \<Rightarrow> tcp_session option" where
  "HandleTCP_downlink e s =
     (case tc_downlink s of
        D_Off \<Rightarrow> None
      | D_Recv \<Rightarrow>
          if io_done e then (if tc_ctxDone s then Some (s\<lparr>tc_downlink := D_Remove\<rparr>) else None)
          else (case chan_recv (tc_FromProxy s) of
                  RecvBlocks \<Rightarrow> None
                | RecvClosed \<Rightarrow> Some (s\<lparr>tc_downlink := D_Remove\<rparr>)
                | Received d ch \<Rightarrow> Some (s\<lparr>tc_FromProxy := ch, tc_downlink := D_Write d\<rparr>))
      | D_Write d \<Rightarrow>
          Some (case io_write e of
                  Inl _ \<Rightarrow> s\<lparr>tc_downlink := D_Remove\<rparr>
                | Inr _ \<Rightarrow> s\<lparr>tc_delivered := tc_delivered s @ [d], tc_downlink := D_Recv\<rparr>)
      | D_Remove \<Rightarrow>
          Some (case RemoveTCP_enter s of
                  None \<Rightarrow> s\<lparr>tc_downlink := D_Done\<rparr>
                | Some s' \<Rightarrow> s'\<lparr>tc_downlink := D_InOnce\<rparr>)
      | D_InOnce \<Rightarrow> if tc_once s = OnceDone then Some (s\<lparr>tc_downlink := D_Done\<rparr>) else None
      | D_Done \<Rightarrow> None)"

text \<open>The \<open>select\<close> of \<open>TCPSend\<close> once the session has been looked up.  With a closed channel and a cancelled
  context both cases are ready and either may be taken.\<close>

datatype send_outcome = SendOk | SendClosed | SendFull | SendPanic

definition TCPSend_select :: "io_env \<Rightarrow> payload \<Rightarrow> tcp_session \<Rightarrow> send_outcome \<times> tcp_session" where
  "TCPSend_select e d s =
     (if io_done e \<and> tc_ctxDone s then (SendClosed, s)
      else case chan_send d (tc_ToProxy s) of
             SendPanics \<Rightarrow> (SendPanic, s)
           | Sent ch \<Rightarrow> (SendOk, s\<lparr>tc_ToProxy := ch, tc_accepted := tc_accepted s @ [d]\<rparr>)
           | SendBlocks \<Rightarrow> if tc_ctxDone s then (SendClosed, s) else (SendFull, s))"

subsection \<open>Interleavings\<close>

inductive tcp_step :: "tcp_session \<Rightarrow> tcp_session \<Rightarrow> bool" where
  spawn: "spawn_relays s = Some t \<Longrightarrow> tcp_step s t"
| pumps: "start_pumps s = Some t \<Longrightarrow> tcp_step s t"
| sender: "relayToProxy e s = Some t \<Longrightarrow> tcp_step s t"
| receiver: "relayFromProxy e s = Some t \<Longrightarrow> tcp_step s t"
| uplink: "HandleTCP_uplink e s = Some t \<Longrightarrow> tcp_step s t"
| downlink: "HandleTCP_downlink e s = Some t \<Longrightarrow> tcp_step s t"
| tsend: "TCPSend_select e d s = (r, t) \<Longrightarrow> tcp_step s t"
| remove: "RemoveTCP_enter s = Some t \<Longrightarrow> tcp_step s t"
| body: "RemoveTCP_body s = Some t \<Longrightarrow> tcp_step s t"

subsection \<open>Stages of the removal\<close>

fun sender_live :: "sender_pc \<Rightarrow> int" where
  "sender_live S_Off = 0" | "sender_live S_Done = 0" | "sender_live _ = 1"

fun receiver_live :: "receiver_pc \<Rightarrow> int" where
  "receiver_live R_Off = 0" | "receiver_live R_Done = 0" | "receiver_live _ = 1"

text \<open>\<open>after_cancel\<close>, \<open>after_drain\<close>: the body of \<open>closeOnce\<close> has passed the cancellation, the drain of \<open>ToProxy\<close>,
  the drain of \<open>FromProxy\<close>.\<close>

fun after_cancel :: "once_stage \<Rightarrow> bool" where
  "after_cancel OncePending = False" | "after_cancel OnceCancel = False" | "after_cancel _ = True"

fun drained_to :: "once_stage \<Rightarrow> bool" where
  "drained_to OnceProxy = False" | "drained_to OnceDrainTo = False" | "drained_to st = after_cancel st"

fun drained_from :: "once_stage \<Rightarrow> bool" where
  "drained_from OnceDrainFrom = False" | "drained_from st = drained_to st"

fun closed_to :: "once_stage \<Rightarrow> bool" where
  "closed_to OnceCloseTo = False" | "closed_to st = drained_from st"

fun closed_from :: "once_stage \<Rightarrow> bool" where
  "closed_from OnceCloseFrom = False" | "closed_from st = closed_to st"

definition flags_ok :: "once_stage \<Rightarrow> bool \<Rightarrow> bool \<Rightarrow> bool \<Rightarrow> bool \<Rightarrow> bool" where
  "flags_ok st cl ctx cto cfrom \<longleftrightarrow>
     cl = (st \<noteq> OncePending) \<and> ctx = after_cancel st \<and> cto = closed_to st \<and> cfrom = closed_from st"

definition chan_fits :: "chan \<Rightarrow> bool" where
  "chan_fits c \<longleftrightarrow> length (ch_buf c) \<le> ch_cap c"

definition tcp_flags :: "tcp_session \<Rightarrow> bool" where
  "tcp_flags s \<longleftrightarrow> flags_ok (tc_once s) (tc_closed s) (tc_ctxDone s) (ch_closed (tc_ToProxy s)) (ch_closed (tc_FromProxy s))"

definition tcp_group :: "tcp_session \<Rightarrow> bool" where
  "tcp_group s \<longleftrightarrow> tc_relayWG s = sender_live (tc_sender s) + receiver_live (tc_receiver s) \<and>
     (tc_sender s = S_Off \<longleftrightarrow> tc_receiver s = R_Off)"

definition tcp_room :: "tcp_session \<Rightarrow> bool" where
  "tcp_room s \<longleftrightarrow> chan_fits (tc_ToProxy s) \<and> chan_fits (tc_FromProxy s)"

lemma chan_send_Sent [simp]:
  "chan_send d c = Sent c' \<longleftrightarrow> \<not> ch_closed c \<and> length (ch_buf c) < ch_cap c \<and> c' = c\<lparr>ch_buf := ch_buf c @ [d]\<rparr>"
  by (auto simp: chan_send_def)

lemma chan_send_Panics [simp]: "chan_send d c = SendPanics \<longleftrightarrow> ch_closed c"
  by (auto simp: chan_send_def)

lemma chan_recv_Received [simp]:
  "chan_recv c = Received d c' \<longleftrightarrow> (\<exists>ds. ch_buf c = d # ds \<and> c' = c\<lparr>ch_buf := ds\<rparr>)"
  by (auto simp: chan_recv_def split: list.splits)

lemma chan_recv_Closed [simp]: "chan_recv c = RecvClosed \<longleftrightarrow> ch_buf c = [] \<and> ch_closed c"
  by (auto simp: chan_recv_def split: list.splits)

lemma chan_fields [simp]:
  "ch_closed (close_chan c)" "ch_buf (close_chan c) = ch_buf c" "chan_fits (close_chan c) = chan_fits c"
  "ch_closed (drainChannel c) = ch_closed c" "ch_buf (drainChannel c) = []" "chan_fits (drainChannel c)"
  by (simp_all add: close_chan_def drainChannel_def chan_fits_def)

lemma close_proxy_conn_fields [simp]:
  "tc_Meta (close_proxy_conn s) = tc_Meta s" "tc_ctxDone (close_proxy_conn s) = tc_ctxDone s"
  "tc_ToProxy (close_proxy_conn s) = tc_ToProxy s" "tc_FromProxy (close_proxy_conn s) = tc_FromProxy s"
  "tc_once (close_proxy_conn s) = tc_once s" "tc_closed (close_proxy_conn s) = tc_closed s"
  "tc_relayWG (close_proxy_conn s) = tc_relayWG s" "tc_sender (close_proxy_conn s) = tc_sender s"
  "tc_receiver (close_proxy_conn s) = tc_receiver s" "tc_uplink (close_proxy_conn s) = tc_uplink s"
  "tc_downlink (close_proxy_conn s) = tc_downlink s" "tc_accepted (close_proxy_conn s) = tc_accepted s"
  "tc_written (close_proxy_conn s) = tc_written s" "tc_read (close_proxy_conn s) = tc_read s"
  "tc_delivered (close_proxy_conn s) = tc_delivered s" "tc_opened (close_proxy_conn s) = tc_opened s"
  "tc_ProxyConn (close_proxy_conn s) = None" "tc_bytesReceived (close_proxy_conn s) = tc_bytesReceived s"
  by (simp_all add: close_proxy_conn_def split: option.splits)

fun sender_holds :: "sender_pc \<Rightarrow> payload list" where
  "sender_holds (S_Check d) = [d]" | "sender_holds (S_Peek d) = [d]" | "sender_holds (S_DialCheck d) = [d]"
| "sender_holds (S_Dial d n) = [d]" | "sender_holds (S_Backoff d n) = [d]" | "sender_holds (S_Store d c) = [d]"
| "sender_holds (S_Load d) = [d]" | "sender_holds (S_Write d c) = [d]" | "sender_holds _ = []"

fun sender_commits :: "sender_pc \<Rightarrow> payload list" where
  "sender_commits (S_Check d) = []" | "sender_commits p = sender_holds p"

subsection \<open>The cases of each goroutine\<close>

lemma relayToProxy_cases:
  assumes "relayToProxy e s = Some t"
  obtains
    (finish) "t = s\<lparr>tc_sender := S_Remove\<rparr>" "sender_live (tc_sender s) = 1"
  | (recv) d ds where "tc_sender s = S_Recv" "ch_buf (tc_ToProxy s) = d # ds"
      "t = s\<lparr>tc_ToProxy := tc_ToProxy s\<lparr>ch_buf := ds\<rparr>, tc_sender := S_Check d\<rparr>"
  | (check) d where "tc_sender s = S_Check d" "\<not> tc_closed s" "t = s\<lparr>tc_lastActivity := io_now e, tc_sender := S_Peek d\<rparr>"
  | (moved) p d where "t = s\<lparr>tc_sender := p\<rparr>" "sender_holds p = [d]" "sender_commits (tc_sender s) = [d]"
  | (dialled) d n c where "tc_sender s = S_Dial d n" "t = s\<lparr>tc_sender := S_Store d c, tc_opened := tc_opened s @ [c]\<rparr>"
  | (store) d c where "tc_sender s = S_Store d c" "t = s\<lparr>tc_ProxyConn := Some c, tc_sender := S_Load d\<rparr>"
  | (written) d c n where "tc_sender s = S_Write d (Some c)"
      "t = s\<lparr>tc_bytesSent := tc_bytesSent s + of_nat n, tc_written := tc_written s @ [d], tc_sender := S_Recv\<rparr>"
  | (enter) s' where "tc_sender s = S_Remove" "RemoveTCP_enter s = Some s'" "t = s'\<lparr>tc_sender := S_InOnce\<rparr>"
  | (exit) "tc_sender s = S_Remove \<or> tc_sender s = S_InOnce" "t = s\<lparr>tc_sender := S_Done, tc_relayWG := tc_relayWG s - 1\<rparr>"
proof (cases "tc_sender s")
  case S_Recv
  have "(\<exists>d ds. ch_buf (tc_ToProxy s) = d # ds \<and> t = s\<lparr>tc_ToProxy := tc_ToProxy s\<lparr>ch_buf := ds\<rparr>, tc_sender := S_Check d\<rparr>) \<or>
      t = s\<lparr>tc_sender := S_Remove\<rparr>"
    using assms(1) S_Recv by (simp add: relayToProxy_def dialProxy_def split: if_split_asm recv_result.split_asm) blast
  moreover have "sender_live (tc_sender s) = 1" using S_Recv by simp
  ultimately show ?thesis using S_Recv finish recv by blast
next
  case (S_Check d)
  have "t = s\<lparr>tc_sender := S_Remove\<rparr> \<or> \<not> tc_closed s \<and> t = s\<lparr>tc_lastActivity := io_now e, tc_sender := S_Peek d\<rparr>"
    using assms(1) S_Check by (simp add: relayToProxy_def dialProxy_def split: if_split_asm)
  moreover have "sender_live (tc_sender s) = 1" using S_Check by simp
  ultimately show ?thesis using S_Check finish check by blast
next
  case (S_Peek d)
  have "\<exists>p. t = s\<lparr>tc_sender := p\<rparr> \<and> sender_holds p = [d]"
    using assms(1) S_Peek by (cases "tc_ProxyConn s") (simp_all add: relayToProxy_def dialProxy_def, (metis sender_holds.simps)+)
  moreover have "sender_commits (tc_sender s) = [d]" using S_Peek by simp
  ultimately show ?thesis using moved by blast
next
  case (S_DialCheck d)
  have "\<exists>p. t = s\<lparr>tc_sender := p\<rparr> \<and> sender_holds p = [d]"
    using assms(1) S_DialCheck by (simp add: relayToProxy_def dialProxy_def split: if_split_asm) (metis sender_holds.simps)+
  moreover have "sender_commits (tc_sender s) = [d]" using S_DialCheck by simp
  ultimately show ?thesis using moved by blast
next
  case (S_Dial d n)
  have "(\<exists>c. t = s\<lparr>tc_sender := S_Store d c, tc_opened := tc_opened s @ [c]\<rparr>) \<or> t = s\<lparr>tc_sender := S_Remove\<rparr> \<or>
      t = s\<lparr>tc_sender := S_Backoff d n\<rparr>"
    using assms(1) S_Dial by (simp add: relayToProxy_def dialProxy_def dial_attempt_def split: if_split_asm sum.split_asm) blast+
  moreover have "sender_live (tc_sender s) = 1" "sender_holds (S_Backoff d n) = [d]" "sender_commits (tc_sender s) = [d]"
    using S_Dial by simp_all
  ultimately show ?thesis using S_Dial finish moved dialled by blast
next
  case (S_Backoff d n)
  have "t = s\<lparr>tc_sender := S_Dial d (n + 1)\<rparr> \<or> t = s\<lparr>tc_sender := S_Remove\<rparr>"
    using assms(1) S_Backoff by (simp add: relayToProxy_def dialProxy_def split: if_split_asm)
  moreover have "sender_live (tc_sender s) = 1" "sender_holds (S_Dial d (n + 1)) = [d]" "sender_commits (tc_sender s) = [d]"
    using S_Backoff by simp_all
  ultimately show ?thesis using finish moved by blast
next
  case (S_Store d c)
  then have "t = s\<lparr>tc_ProxyConn := Some c, tc_sender := S_Load d\<rparr>" using assms(1) by (simp add: relayToProxy_def dialProxy_def)
  with S_Store show ?thesis by (rule store)
next
  case (S_Load d)
  then have "t = s\<lparr>tc_sender := S_Write d (tc_ProxyConn s)\<rparr>" using assms(1) by (simp add: relayToProxy_def dialProxy_def)
  then show ?thesis by (rule moved) (simp_all add: S_Load)
next
  case (S_Write d c)
  have "t = s\<lparr>tc_sender := S_Remove\<rparr> \<or> (\<exists>c' n. c = Some c' \<and>
      t = s\<lparr>tc_bytesSent := tc_bytesSent s + of_nat n, tc_written := tc_written s @ [d], tc_sender := S_Recv\<rparr>)"
    using assms(1) S_Write by (cases c) (simp_all add: relayToProxy_def dialProxy_def split: sum.split_asm, blast?)
  moreover have "sender_live (tc_sender s) = 1" using S_Write by simp
  ultimately show ?thesis using S_Write finish written by blast
next
  case S_Remove
  show ?thesis
  proof (cases "RemoveTCP_enter s")
    case None
    then show ?thesis using assms(1) S_Remove by (intro exit) (simp_all add: relayToProxy_def dialProxy_def)
  next
    case (Some s')
    then show ?thesis using assms(1) S_Remove by (intro enter [of s']) (simp_all add: relayToProxy_def dialProxy_def)
  qed
next
  case S_InOnce
  then show ?thesis using assms(1) by (intro exit) (simp_all add: relayToProxy_def dialProxy_def split: if_split_asm)
next
  case S_Off
  then have "relayToProxy e s = None" by (simp add: relayToProxy_def dialProxy_def)
  with assms(1) show ?thesis by simp
next
  case S_Done
  then have "relayToProxy e s = None" by (simp add: relayToProxy_def dialProxy_def)
  with assms(1) show ?thesis by simp
qed

lemma relayFromProxy_cases:
  assumes "relayFromProxy e s = Some t"
  obtains
    (exit) "receiver_live (tc_receiver s) = 1" "t = s\<lparr>tc_receiver := R_Done, tc_relayWG := tc_relayWG s - 1\<rparr>"
  | (idle) "t = s"
  | (found) c where "tc_receiver s = R_Loop" "tc_ProxyConn s = Some c" "t = s\<lparr>tc_receiver := R_Read c\<rparr>"
  | (got) c d where "tc_receiver s = R_Read c" "\<exists>avail. d = read_into LargeBufferSize e avail"
      "t = s\<lparr>tc_lastActivity := io_now e, tc_bytesReceived := tc_bytesReceived s + of_nat (length d),
             tc_read := tc_read s @ [d], tc_receiver := R_Send d\<rparr>"
  | (passed) d where "tc_receiver s = R_Send d" "\<not> ch_closed (tc_FromProxy s)"
      "length (ch_buf (tc_FromProxy s)) < ch_cap (tc_FromProxy s)"
      "t = s\<lparr>tc_FromProxy := tc_FromProxy s\<lparr>ch_buf := ch_buf (tc_FromProxy s) @ [d]\<rparr>, tc_receiver := R_Loop\<rparr>"
proof -
  let ?exit = "s\<lparr>tc_receiver := R_Done, tc_relayWG := tc_relayWG s - 1\<rparr>"
  have "t = s \<or> receiver_live (tc_receiver s) = 1 \<and> t = ?exit \<or>
    (\<exists>c. tc_receiver s = R_Loop \<and> tc_ProxyConn s = Some c \<and> t = s\<lparr>tc_receiver := R_Read c\<rparr>) \<or>
    (\<exists>c d. tc_receiver s = R_Read c \<and> (\<exists>avail. d = read_into LargeBufferSize e avail) \<and> t = s\<lparr>tc_lastActivity := io_now e, tc_bytesReceived := tc_bytesReceived s + of_nat (length d),
             tc_read := tc_read s @ [d], tc_receiver := R_Send d\<rparr>) \<or>
    (\<exists>d. tc_receiver s = R_Send d \<and> chan_send d (tc_FromProxy s) = Sent (tc_FromProxy s\<lparr>ch_buf := ch_buf (tc_FromProxy s) @ [d]\<rparr>) \<and>
       t = s\<lparr>tc_FromProxy := tc_FromProxy s\<lparr>ch_buf := ch_buf (tc_FromProxy s) @ [d]\<rparr>, tc_receiver := R_Loop\<rparr>)"
    using assms(1)
    by (cases "tc_receiver s")
      (simp_all add: relayFromProxy_def Let_def split: if_split_asm option.split_asm sum.split_asm send_result.split_asm, blast+)
  then show ?thesis using that unfolding chan_send_Sent by blast
qed

lemma HandleTCP_uplink_cases:
  assumes "HandleTCP_uplink e s = Some t"
  obtains (moved) p where "t = s\<lparr>tc_uplink := p\<rparr>" "\<forall>d. p = U_Send d \<longrightarrow> (\<exists>avail. d = read_into LargeBufferSize e avail)"
  | (passed) d where "tc_uplink s = U_Send d" "\<not> ch_closed (tc_ToProxy s)" "length (ch_buf (tc_ToProxy s)) < ch_cap (tc_ToProxy s)"
      "t = s\<lparr>tc_ToProxy := tc_ToProxy s\<lparr>ch_buf := ch_buf (tc_ToProxy s) @ [d]\<rparr>,
             tc_accepted := tc_accepted s @ [d], tc_uplink := U_Read\<rparr>"
proof -
  have "(\<exists>p. t = s\<lparr>tc_uplink := p\<rparr> \<and> (\<forall>d. p = U_Send d \<longrightarrow> (\<exists>avail. d = read_into LargeBufferSize e avail))) \<or>
    (\<exists>d. tc_uplink s = U_Send d \<and> chan_send d (tc_ToProxy s) = Sent (tc_ToProxy s\<lparr>ch_buf := ch_buf (tc_ToProxy s) @ [d]\<rparr>) \<and>
       t = s\<lparr>tc_ToProxy := tc_ToProxy s\<lparr>ch_buf := ch_buf (tc_ToProxy s) @ [d]\<rparr>,
             tc_accepted := tc_accepted s @ [d], tc_uplink := U_Read\<rparr>)"
    using assms(1)
    by (cases "tc_uplink s")
      (simp_all add: HandleTCP_uplink_def split: if_split_asm sum.split_asm send_result.split_asm, blast+)
  then show ?thesis using that unfolding chan_send_Sent by blast
qed

lemma TCPSend_cases:
  assumes "TCPSend_select e d s = (r, t)"
  obtains (same) "t = s"
  | (passed) "\<not> ch_closed (tc_ToProxy s)" "length (ch_buf (tc_ToProxy s)) < ch_cap (tc_ToProxy s)" "r = SendOk"
      "t = s\<lparr>tc_ToProxy := tc_ToProxy s\<lparr>ch_buf := ch_buf (tc_ToProxy s) @ [d]\<rparr>, tc_accepted := tc_accepted s @ [d]\<rparr>"
proof -
  have "t = s \<or> chan_send d (tc_ToProxy s) = Sent (tc_ToProxy s\<lparr>ch_buf := ch_buf (tc_ToProxy s) @ [d]\<rparr>) \<and> r = SendOk \<and>
    t = s\<lparr>tc_ToProxy := tc_ToProxy s\<lparr>ch_buf := ch_buf (tc_ToProxy s) @ [d]\<rparr>, tc_accepted := tc_accepted s @ [d]\<rparr>"
    using assms(1) by (simp add: TCPSend_select_def split: if_split_asm send_result.split_asm) blast?
  then show ?thesis using that unfolding chan_send_Sent by blast
qed

lemma HandleTCP_downlink_cases:
  assumes "HandleTCP_downlink e s = Some t"
  obtains (finish) "t = s\<lparr>tc_downlink := D_Remove\<rparr>"
  | (recv) d ds where "tc_downlink s = D_Recv" "ch_buf (tc_FromProxy s) = d # ds"
      "t = s\<lparr>tc_FromProxy := tc_FromProxy s\<lparr>ch_buf := ds\<rparr>, tc_downlink := D_Write d\<rparr>"
  | (delivered) d where "tc_downlink s = D_Write d" "t = s\<lparr>tc_delivered := tc_delivered s @ [d], tc_downlink := D_Recv\<rparr>"
  | (enter) s' where "tc_downlink s = D_Remove" "RemoveTCP_enter s = Some s'" "t = s'\<lparr>tc_downlink := D_InOnce\<rparr>"
  | (exit) "t = s\<lparr>tc_downlink := D_Done\<rparr>" "tc_downlink s = D_Remove \<or> tc_downlink s = D_InOnce"
proof (cases "tc_downlink s = D_Remove")
  case True
  show ?thesis
  proof (cases "RemoveTCP_enter s")
    case None
    then show ?thesis using assms(1) True by (intro exit) (simp_all add: HandleTCP_downlink_def)
  next
    case (Some s')
    then show ?thesis using assms(1) True by (intro enter [of s']) (simp_all add: HandleTCP_downlink_def)
  qed
next
  case False
  then have "t = s\<lparr>tc_downlink := D_Remove\<rparr> \<or>
    (\<exists>d ds. tc_downlink s = D_Recv \<and> ch_buf (tc_FromProxy s) = d # ds \<and>
      t = s\<lparr>tc_FromProxy := tc_FromProxy s\<lparr>ch_buf := ds\<rparr>, tc_downlink := D_Write d\<rparr>) \<or>
    (\<exists>d. tc_downlink s = D_Write d \<and> t = s\<lparr>tc_delivered := tc_delivered s @ [d], tc_downlink := D_Recv\<rparr>) \<or>
    t = s\<lparr>tc_downlink := D_Done\<rparr> \<and> tc_downlink s = D_InOnce"
    using assms(1)
    by (cases "tc_downlink s")
      (simp_all add: HandleTCP_downlink_def split: if_split_asm sum.split_asm recv_result.split_asm, blast+)
  then show ?thesis using that by blast
qed

lemma RemoveTCP_enter_cases:
  assumes "RemoveTCP_enter s = Some t"
  obtains (first) "\<not> tc_closed s" "tc_once s = OncePending" "t = s\<lparr>tc_once := OnceCancel, tc_closed := True\<rparr>"
  | (later) "\<not> tc_closed s" "tc_once s \<noteq> OncePending" "t = s"
proof -
  have "\<not> tc_closed s \<and> (if tc_once s = OncePending then t = s\<lparr>tc_once := OnceCancel, tc_closed := True\<rparr> else t = s)"
    using assms(1) by (simp add: RemoveTCP_enter_def split: if_split_asm)
  then show ?thesis using that by presburger
qed

lemma tcp_step_cases:
  assumes "tcp_step s t"
  obtains (spawn) "tc_sender s = S_Off" "t = s\<lparr>tc_relayWG := tc_relayWG s + 2, tc_sender := S_Recv, tc_receiver := R_Loop\<rparr>"
  | (pumps) "tc_uplink s = U_Off" "tc_downlink s = D_Off" "t = s\<lparr>tc_uplink := U_Read, tc_downlink := D_Recv\<rparr>"
  | (sender) e where "relayToProxy e s = Some t"
  | (receiver) e where "relayFromProxy e s = Some t"
  | (uplink) e where "HandleTCP_uplink e s = Some t"
  | (downlink) e where "HandleTCP_downlink e s = Some t"
  | (tsend) e d r where "TCPSend_select e d s = (r, t)"
  | (remove) "RemoveTCP_enter s = Some t"
  | (body) "RemoveTCP_body s = Some t"
  using assms(1)
proof (cases rule: tcp_step.cases)
  case spawn
  then show ?thesis using that(1) by (simp add: spawn_relays_def split: if_split_asm)
next
  case pumps
  then show ?thesis using that(2) by (simp add: start_pumps_def split: if_split_asm)
qed (use that(3-9) in blast)+

subsection \<open>The state of the removal and of the wait group\<close>

lemma tcp_flags_enter: "RemoveTCP_enter s = Some t \<Longrightarrow> tcp_flags s \<Longrightarrow> tcp_flags t"
  by (erule RemoveTCP_enter_cases) (simp_all add: tcp_flags_def flags_ok_def)

lemma tcp_flags_step:
  assumes "tcp_step s t" and "tcp_flags s"
  shows "tcp_flags t"
  using assms(1)
proof (cases rule: tcp_step_cases)
  case (sender e)
  then show ?thesis
  proof (cases rule: relayToProxy_cases)
    case (enter s')
    then show ?thesis using tcp_flags_enter [of s s'] assms(2) by (simp add: tcp_flags_def)
  qed (use assms(2) in \<open>simp_all add: tcp_flags_def\<close>)
next
  case (receiver e)
  then show ?thesis by (cases rule: relayFromProxy_cases) (use assms(2) in \<open>simp_all add: tcp_flags_def\<close>)
next
  case (uplink e)
  then show ?thesis by (cases rule: HandleTCP_uplink_cases) (use assms(2) in \<open>simp_all add: tcp_flags_def\<close>)
next
  case (downlink e)
  then show ?thesis
  proof (cases rule: HandleTCP_downlink_cases)
    case (enter s')
    then show ?thesis using tcp_flags_enter [of s s'] assms(2) by (simp add: tcp_flags_def)
  qed (use assms(2) in \<open>simp_all add: tcp_flags_def\<close>)
next
  case (tsend e d r)
  then show ?thesis by (cases rule: TCPSend_cases) (use assms(2) in \<open>simp_all add: tcp_flags_def\<close>)
next
  case remove
  then show ?thesis using assms(2) by (rule tcp_flags_enter)
next
  case body
  then show ?thesis
    using assms(2) by (cases "tc_once s") (simp_all add: tcp_flags_def flags_ok_def, auto)
qed (use assms(2) in \<open>simp_all add: tcp_flags_def\<close>)

subsection \<open>The order of the relayed data\<close>

definition sender_loops :: "sender_pc \<Rightarrow> bool" where
  "sender_loops p \<longleftrightarrow> p \<noteq> S_Remove \<and> p \<noteq> S_InOnce \<and> p \<noteq> S_Done"

fun receiver_holds :: "receiver_pc \<Rightarrow> payload list" where
  "receiver_holds (R_Send d) = [d]" | "receiver_holds _ = []"

fun downlink_holds :: "downlink_pc \<Rightarrow> payload list" where
  "downlink_holds (D_Write d) = [d]" | "downlink_holds _ = []"

definition downlink_loops :: "downlink_pc \<Rightarrow> bool" where
  "downlink_loops p \<longleftrightarrow> p \<noteq> D_Remove \<and> p \<noteq> D_InOnce \<and> p \<noteq> D_Done"

definition up_ok :: "once_stage \<Rightarrow> sender_pc \<Rightarrow> payload list \<Rightarrow> payload list \<Rightarrow> payload list \<Rightarrow> bool" where
  "up_ok st p written accepted buf \<longleftrightarrow>
     prefix (written @ sender_commits p) accepted \<and>
     (\<not> drained_to st \<and> sender_loops p \<longrightarrow> accepted = written @ sender_holds p @ buf)"

definition down_ok :: "once_stage \<Rightarrow> receiver_pc \<Rightarrow> downlink_pc \<Rightarrow> payload list \<Rightarrow> payload list \<Rightarrow> payload list \<Rightarrow> bool" where
  "down_ok st r d readlog delivered buf \<longleftrightarrow>
     (\<not> drained_from st \<longrightarrow>
        prefix (delivered @ downlink_holds d) readlog \<and>
        (downlink_loops d \<longrightarrow>
           (r = R_Done \<longrightarrow> prefix (delivered @ downlink_holds d @ buf) readlog) \<and>
           (r \<noteq> R_Done \<longrightarrow> readlog = delivered @ downlink_holds d @ buf @ receiver_holds r)))"

definition tcp_inv :: "tcp_session \<Rightarrow> bool" where
  "tcp_inv s \<longleftrightarrow> tcp_flags s \<and> tcp_group s \<and> tcp_room s \<and>
     up_ok (tc_once s) (tc_sender s) (tc_written s) (tc_accepted s) (ch_buf (tc_ToProxy s)) \<and>
     down_ok (tc_once s) (tc_receiver s) (tc_downlink s) (tc_read s) (tc_delivered s) (ch_buf (tc_FromProxy s))"

lemmas tcp_group_defs = tcp_group_def tcp_room_def chan_fits_def

lemma prefix_grow: "prefix xs ys \<Longrightarrow> prefix xs (ys @ zs)"
  by (rule prefix_prefix)

lemma up_ok_append: "up_ok st p w a b \<Longrightarrow> up_ok st p w (a @ [d]) (b @ [d])"
  by (simp add: up_ok_def prefix_grow)

lemma up_ok_leave: "up_ok st p w a b \<Longrightarrow> \<not> sender_loops q \<Longrightarrow> sender_commits q = [] \<Longrightarrow> up_ok st q w a b"
  by (auto simp: up_ok_def dest: append_prefixD)

lemma up_ok_stage: "up_ok st p w a b \<Longrightarrow> drained_to st' \<or> (\<not> drained_to st \<and> b' = b) \<Longrightarrow> up_ok st' p w a b'"
  by (auto simp: up_ok_def)

lemma down_ok_stage: "down_ok st r d l x b \<Longrightarrow> drained_from st' \<or> (\<not> drained_from st \<and> b' = b) \<Longrightarrow> down_ok st' r d l x b'"
  by (erule disjE) (simp_all add: down_ok_def)

lemma tcp_inv_enter: "RemoveTCP_enter s = Some t \<Longrightarrow> tcp_inv s \<Longrightarrow> tcp_inv t"
  apply (frule (1) tcp_flags_enter [OF _ conjunct1 [OF tcp_inv_def [THEN iffD1]]])
  by (erule RemoveTCP_enter_cases) (simp_all add: tcp_inv_def tcp_group_defs up_ok_def down_ok_def)

lemma up_ok_commit: "up_ok st p w a b \<Longrightarrow> sender_commits p = [d] \<Longrightarrow> sender_holds q = [d] \<Longrightarrow> sender_commits q = [d] \<or> sender_commits q = [] \<Longrightarrow> sender_loops q \<Longrightarrow> up_ok st q w a b"
  by (cases p) (auto simp: up_ok_def sender_loops_def append_prefixD)

lemma sender_commits_holds: "sender_commits p = [d] \<Longrightarrow> sender_holds p = [d] \<and> sender_loops p \<and> sender_live p = 1 \<and> p \<noteq> S_Off"
  by (cases p) (simp_all add: sender_loops_def)

lemma sender_holds_some: "sender_holds p = [d] \<Longrightarrow> sender_loops p \<and> sender_live p = 1 \<and> p \<noteq> S_Off \<and> (sender_commits p = [d] \<or> sender_commits p = [])"
  by (cases p) (simp_all add: sender_loops_def)

lemma tcp_inv_sender:
  assumes "relayToProxy e s = Some t" and inv: "tcp_inv s"
  shows "tcp_inv t"
proof -
  have fl: "tcp_flags t" using assms tcp_flags_step tcp_step.sender unfolding tcp_inv_def by blast
  from assms(1) show ?thesis
  proof (cases rule: relayToProxy_cases)
    case finish
    then show ?thesis
      using inv fl up_ok_leave [of _ "tc_sender s" _ _ _ S_Remove]
      by (cases "tc_sender s") (simp_all add: tcp_inv_def tcp_group_defs sender_loops_def)
  next
    case (recv d ds)
    then show ?thesis using inv fl by (simp add: tcp_inv_def tcp_group_defs up_ok_def sender_loops_def)
  next
    case (check d)
    then have "tc_once s = OncePending" using inv by (simp add: tcp_inv_def tcp_flags_def flags_ok_def)
    with check show ?thesis using inv fl by (simp add: tcp_inv_def tcp_group_defs up_ok_def sender_loops_def)
  next
    case (moved p d)
    then show ?thesis
      using inv fl sender_commits_holds [OF moved(3)] sender_holds_some [OF moved(2)]
      by (auto simp: tcp_inv_def tcp_group_defs intro: up_ok_commit)
  next
    case (dialled d n c)
    then show ?thesis using inv fl by (simp add: tcp_inv_def tcp_group_defs up_ok_def sender_loops_def)
  next
    case (store d c)
    then show ?thesis using inv fl by (simp add: tcp_inv_def tcp_group_defs up_ok_def sender_loops_def)
  next
    case (written d c n)
    then show ?thesis using inv fl by (simp add: tcp_inv_def tcp_group_defs up_ok_def sender_loops_def)
  next
    case (enter s')
    with tcp_inv_enter [OF enter(2) inv] have "tcp_inv s'" "tc_sender s' = S_Remove"
      by (auto elim: RemoveTCP_enter_cases)
    with enter fl show ?thesis by (simp add: tcp_inv_def tcp_group_defs up_ok_def sender_loops_def)
  next
    case exit
    then show ?thesis
      using inv fl by (auto simp: tcp_inv_def tcp_group_defs up_ok_def sender_loops_def)
  qed
qed

lemma tcp_inv_receiver:
  assumes "relayFromProxy e s = Some t" and inv: "tcp_inv s"
  shows "tcp_inv t"
proof -
  have fl: "tcp_flags t" using assms tcp_flags_step tcp_step.receiver unfolding tcp_inv_def by blast
  from assms(1) show ?thesis
  proof (cases rule: relayFromProxy_cases)
    case exit
    then show ?thesis
      using inv fl by (cases "tc_receiver s") (simp_all add: tcp_inv_def tcp_group_defs down_ok_def)
  qed (use inv fl in \<open>simp_all add: tcp_inv_def tcp_group_defs down_ok_def prefix_grow\<close>)
qed

lemma tcp_inv_downlink:
  assumes "HandleTCP_downlink e s = Some t" and inv: "tcp_inv s"
  shows "tcp_inv t"
proof -
  have fl: "tcp_flags t" using assms tcp_flags_step tcp_step.downlink unfolding tcp_inv_def by blast
  from assms(1) show ?thesis
  proof (cases rule: HandleTCP_downlink_cases)
    case finish
    then show ?thesis
      using inv fl by (auto simp: tcp_inv_def tcp_group_defs down_ok_def downlink_loops_def dest: append_prefixD)
  next
    case (recv d ds)
    then show ?thesis
      using inv fl append_prefixD [of "tc_delivered s @ [d]" ds "tc_read s"]
      by (auto simp: tcp_inv_def tcp_group_defs down_ok_def downlink_loops_def)
  next
    case (delivered d)
    then show ?thesis
      using inv fl by (auto simp: tcp_inv_def tcp_group_defs down_ok_def downlink_loops_def)
  next
    case (enter s')
    with tcp_inv_enter [OF enter(2) inv] have "tcp_inv s'" "tc_downlink s' = D_Remove"
      by (auto elim: RemoveTCP_enter_cases)
    with enter fl show ?thesis by (simp add: tcp_inv_def tcp_group_defs down_ok_def downlink_loops_def)
  next
    case exit
    then show ?thesis
      using inv fl by (auto simp: tcp_inv_def tcp_group_defs down_ok_def downlink_loops_def)
  qed
qed

lemma tcp_inv_step:
  assumes "tcp_step s t" and inv: "tcp_inv s"
  shows "tcp_inv t"
proof -
  have fl: "tcp_flags t" using assms tcp_flags_step unfolding tcp_inv_def by blast
  from assms(1) show ?thesis
  proof (cases rule: tcp_step_cases)
    case spawn
    then show ?thesis using inv fl by (auto simp: tcp_inv_def tcp_group_defs up_ok_def down_ok_def sender_loops_def)
  next
    case pumps
    then show ?thesis using inv fl by (simp add: tcp_inv_def tcp_group_defs down_ok_def downlink_loops_def)
  next
    case (uplink e)
    then show ?thesis
      by (cases rule: HandleTCP_uplink_cases) (use inv fl in \<open>simp_all add: tcp_inv_def tcp_group_defs up_ok_append\<close>)
  next
    case (tsend e d r)
    then show ?thesis
      by (cases rule: TCPSend_cases) (use inv fl in \<open>simp_all add: tcp_inv_def tcp_group_defs up_ok_append\<close>)
  next
    case body
    then show ?thesis
      using inv fl by (cases "tc_once s") (auto simp: tcp_inv_def tcp_group_def tcp_room_def intro: up_ok_stage down_ok_stage)
  qed (use inv tcp_inv_sender tcp_inv_receiver tcp_inv_downlink tcp_inv_enter in blast)+
qed
lemma tcp_inv_new: "tcp_inv (new_TCPConn now meta)"
  by (simp add: tcp_inv_def tcp_flags_def flags_ok_def tcp_group_defs up_ok_def down_ok_def new_TCPConn_def make_chan_def)

interpretation tcpsys: invariant_system "\<lambda>s. \<exists>now meta. s = new_TCPConn now meta" tcp_step tcp_inv
  by unfold_locales (auto intro: tcp_inv_new tcp_inv_step)

lemmas tcp_run_inv = tcpsys.steps_inv [OF _ tcp_inv_new]

subsection \<open>Runs as lists of actions\<close>

datatype tcp_action = ASpawn | APumps | ASender io_env | AReceiver io_env | AUplink io_env | ADownlink io_env
  | ASend io_env payload | ARemove | ABody

fun tcp_exec1 :: "tcp_action \<Rightarrow> tcp_session \<Rightarrow> tcp_session option" where
  "tcp_exec1 ASpawn s = spawn_relays s"
| "tcp_exec1 APumps s = start_pumps s"
| "tcp_exec1 (ASender e) s = relayToProxy e s"
| "tcp_exec1 (AReceiver e) s = relayFromProxy e s"
| "tcp_exec1 (AUplink e) s = HandleTCP_uplink e s"
| "tcp_exec1 (ADownlink e) s = HandleTCP_downlink e s"
| "tcp_exec1 (ASend e d) s = Some (snd (TCPSend_select e d s))"
| "tcp_exec1 ARemove s = RemoveTCP_enter s"
| "tcp_exec1 ABody s = RemoveTCP_body s"

fun tcp_exec :: "tcp_action list \<Rightarrow> tcp_session \<Rightarrow> tcp_session option" where
  "tcp_exec [] s = Some s"
| "tcp_exec (a # as) s = (case tcp_exec1 a s of None \<Rightarrow> None | Some t \<Rightarrow> tcp_exec as t)"

lemma tcp_exec1_step: "tcp_exec1 a s = Some t \<Longrightarrow> tcp_step s t"
  by (cases a) (auto intro: tcp_step.intros simp del: RemoveTCP_body.simps, metis prod.collapse tcp_step.tsend)

lemma tcp_exec_steps: "tcp_exec as s = Some t \<Longrightarrow> tcp_step\<^sup>*\<^sup>* s t"
proof (induction as arbitrary: s)
  case Nil
  then show ?case by simp
next
  case (Cons a as)
  then obtain s' where "tcp_exec1 a s = Some s'" "tcp_exec as s' = Some t" by (auto split: option.splits)
  then show ?case using Cons.IH tcp_exec1_step converse_rtranclp_into_rtranclp by metis
qed

subsection \<open>Properties\<close>

text \<open>C3. Uploads keep their order: whatever the interleaving of the relays, the pumps, other senders and the
  removal of the session, what has been written to the proxy is a prefix of what the session accepted,
  and while the session is open nothing is lost: the accepted payloads are those written, the one the
  relay holds and those in the channel.  Downloads keep their order until the removal has drained the channel.\<close>

theorem tcp_relay_in_order:
  assumes "tcp_step\<^sup>*\<^sup>* (new_TCPConn now meta) s"
  shows "prefix (tc_written s) (tc_accepted s) \<and>
    (\<not> tc_closed s \<and> sender_loops (tc_sender s) \<longrightarrow>
       tc_accepted s = tc_written s @ sender_holds (tc_sender s) @ ch_buf (tc_ToProxy s)) \<and>
    (\<not> drained_from (tc_once s) \<longrightarrow> prefix (tc_delivered s) (tc_read s))"
  using tcp_run_inv [OF assms]
  by (auto simp: tcp_inv_def up_ok_def down_ok_def tcp_flags_def flags_ok_def dest: append_prefixD)

subsection \<open>Shutdown\<close>

fun once_left :: "once_stage \<Rightarrow> nat" where
  "once_left OncePending = 9" | "once_left OnceCancel = 8" | "once_left OnceProxy = 7" | "once_left OnceDrainTo = 6"
| "once_left OnceDrainFrom = 5" | "once_left OnceCloseTo = 4" | "once_left OnceCloseFrom = 3" | "once_left OnceDelete = 2"
| "once_left OnceCount = 1" | "once_left OnceDone = 0"

definition same_relays :: "tcp_session \<Rightarrow> tcp_session \<Rightarrow> bool" where
  "same_relays s t \<longleftrightarrow> tc_sender t = tc_sender s \<and> tc_receiver t = tc_receiver s"

lemma body_next:
  assumes "tc_once s \<noteq> OncePending" and "tc_once s \<noteq> OnceDone"
  shows "\<exists>t. tcp_step s t \<and> same_relays s t \<and> tc_once t \<noteq> OncePending \<and> once_left (tc_once t) < once_left (tc_once s)"
proof -
  obtain t where t: "RemoveTCP_body s = Some t" using assms by (cases "tc_once s") simp_all
  then have "same_relays s t \<and> tc_once t \<noteq> OncePending \<and> once_left (tc_once t) < once_left (tc_once s)"
    using assms by (cases "tc_once s") (auto simp: same_relays_def)
  with t tcp_step.body show ?thesis by blast
qed

lemma body_completes:
  assumes "tc_once s \<noteq> OncePending"
  shows "\<exists>t. tcp_step\<^sup>*\<^sup>* s t \<and> tc_once t = OnceDone \<and> same_relays s t"
  using assms
proof (induction "once_left (tc_once s)" arbitrary: s rule: less_induct)
  case less
  show ?case
  proof (cases "tc_once s = OnceDone")
    case True
    then show ?thesis by (auto simp: same_relays_def)
  next
    case False
    with body_next [OF less.prems] obtain s' where s': "tcp_step s s'" "same_relays s s'" "tc_once s' \<noteq> OncePending"
      "once_left (tc_once s') < once_left (tc_once s)" by blast
    from less.hyps [OF s'(4,3)] obtain t where "tcp_step\<^sup>*\<^sup>* s' t" "tc_once t = OnceDone" "same_relays s' t" by blast
    with s' show ?thesis unfolding same_relays_def by (metis converse_rtranclp_into_rtranclp)
  qed
qed

lemma one_step: "tcp_step s t \<Longrightarrow> P t \<Longrightarrow> \<exists>t. tcp_step\<^sup>*\<^sup>* s t \<and> P t"
  by blast

text \<open>Answers under which every goroutine leaves its loop: the network fails and a \<open>select\<close> takes the
  cancelled context.\<close>

definition io_stop :: io_env where
  "io_stop = \<lparr>io_now = 0, io_done = True, io_dial = Inl [], io_write = Inl [], io_read = Inl [],
     io_pick = None, io_pool = New_pool\<rparr>"

fun sender_rank :: "sender_pc \<Rightarrow> nat" where
  "sender_rank S_Off = 0" | "sender_rank S_Done = 0" | "sender_rank S_Remove = 1" | "sender_rank S_InOnce = 1"
| "sender_rank (S_Load d) = 3" | "sender_rank (S_Store d c) = 4" | "sender_rank (S_DialCheck d) = 4"
| "sender_rank (S_Peek d) = 5" | "sender_rank _ = 2"

definition removed :: "tcp_session \<Rightarrow> bool" where
  "removed s \<longleftrightarrow> tc_once s = OnceDone \<and> tc_closed s \<and> tc_ctxDone s"

lemma sender_next:
  assumes "removed s" and "sender_live (tc_sender s) = 1"
  shows "\<exists>t. relayToProxy io_stop s = Some t \<and> removed t \<and> tc_receiver t = tc_receiver s \<and> tc_sender t \<noteq> S_Off \<and>
    sender_rank (tc_sender t) < sender_rank (tc_sender s)"
proof (cases "tc_sender s")
  case (S_Write d c)
  then show ?thesis using assms by (cases c) (simp_all add: relayToProxy_def dialProxy_def io_stop_def removed_def)
qed (use assms in \<open>simp_all add: relayToProxy_def dialProxy_def io_stop_def removed_def dial_attempt_def RemoveTCP_enter_def split: option.split\<close>)

lemma sender_finishes:
  assumes "removed s" and "tc_sender s \<noteq> S_Off"
  shows "\<exists>t. tcp_step\<^sup>*\<^sup>* s t \<and> removed t \<and> tc_sender t = S_Done \<and> tc_receiver t = tc_receiver s"
  using assms
proof (induction "sender_rank (tc_sender s)" arbitrary: s rule: less_induct)
  case less
  show ?case
  proof (cases "tc_sender s = S_Done")
    case True
    then show ?thesis using less.prems by blast
  next
    case False
    then have "sender_live (tc_sender s) = 1" using less.prems(2) by (cases "tc_sender s") simp_all
    from sender_next [OF less.prems(1) this] obtain s' where s': "relayToProxy io_stop s = Some s'" "removed s'"
      "tc_receiver s' = tc_receiver s" "tc_sender s' \<noteq> S_Off" "sender_rank (tc_sender s') < sender_rank (tc_sender s)" by blast
    from less.hyps [OF s'(5,2,4)] s'(3) tcp_step.sender [OF s'(1)] show ?thesis by (metis converse_rtranclp_into_rtranclp)
  qed
qed

lemma receiver_finishes:
  assumes "removed s" and "tc_receiver s \<noteq> R_Off" and "tc_sender s = S_Done"
  shows "\<exists>t. tcp_step\<^sup>*\<^sup>* s t \<and> removed t \<and> tc_sender t = S_Done \<and> tc_receiver t = R_Done"
proof -
  have rd: "\<exists>t. tcp_step s t \<and> removed t \<and> tc_sender t = S_Done \<and> tc_receiver t = R_Done"
    if "removed s" "tc_sender s = S_Done" "tc_receiver s = R_Read c" for s c
    using that tcp_step.receiver [of io_stop s]
    by (simp add: relayFromProxy_def Let_def io_stop_def removed_def) fastforce
  show ?thesis
  proof (cases "tc_receiver s")
    case R_Loop
    show ?thesis
    proof (cases "tc_ProxyConn s")
      case None
      then have "relayFromProxy io_stop s = Some (s\<lparr>tc_receiver := R_Done, tc_relayWG := tc_relayWG s - 1\<rparr>)"
        using R_Loop assms by (simp add: relayFromProxy_def Let_def io_stop_def removed_def)
      then show ?thesis by (rule one_step [OF tcp_step.receiver]) (use assms in \<open>simp add: removed_def\<close>)
    next
      case (Some c)
      then have "relayFromProxy io_stop s = Some (s\<lparr>tc_receiver := R_Read c\<rparr>)"
        using R_Loop by (simp add: relayFromProxy_def Let_def)
      from tcp_step.receiver [OF this] rd [of "s\<lparr>tc_receiver := R_Read c\<rparr>" c] assms show ?thesis
        by (auto simp: removed_def dest: converse_rtranclp_into_rtranclp)
    qed
  next
    case (R_Read c)
    then show ?thesis using rd assms by blast
  next
    case (R_Send d)
    then have "relayFromProxy io_stop s = Some (s\<lparr>tc_receiver := R_Done, tc_relayWG := tc_relayWG s - 1\<rparr>)"
      using assms by (simp add: relayFromProxy_def Let_def io_stop_def removed_def)
    then show ?thesis by (rule one_step [OF tcp_step.receiver]) (use assms in \<open>simp add: removed_def\<close>)
  qed (use assms in auto)
qed

text \<open>C13. Shutdown of a TCP session: the wait group counts exactly the live relays in every reachable state,
  and from every reachable state in which the relays run the session can be brought to the end, removed,
  with both relays finished and the wait group at zero, so that the \<open>Wait\<close> in \<open>CloseAll\<close> returns.\<close>

theorem tcp_shutdown_completes:
  assumes "tcp_step\<^sup>*\<^sup>* (new_TCPConn now meta) s" and "tc_sender s \<noteq> S_Off"
  shows "tc_relayWG s = sender_live (tc_sender s) + receiver_live (tc_receiver s) \<and>
    (\<exists>t. tcp_step\<^sup>*\<^sup>* s t \<and> tc_once t = OnceDone \<and> tc_sender t = S_Done \<and> tc_receiver t = R_Done \<and> tc_relayWG t = 0)"
proof -
  have inv: "tcp_inv s" by (rule tcp_run_inv [OF assms(1)])
  have "\<exists>s1. tcp_step\<^sup>*\<^sup>* s s1 \<and> tc_once s1 \<noteq> OncePending \<and> same_relays s s1"
  proof (cases "tc_once s = OncePending")
    case True
    then have "RemoveTCP_enter s = Some (s\<lparr>tc_once := OnceCancel, tc_closed := True\<rparr>)"
      using inv by (simp add: RemoveTCP_enter_def tcp_inv_def tcp_flags_def flags_ok_def)
    then show ?thesis by (rule one_step [OF tcp_step.remove]) (simp add: same_relays_def)
  qed (auto simp: same_relays_def)
  then obtain s1 s2 where s2: "tcp_step\<^sup>*\<^sup>* s s2" "tc_once s2 = OnceDone" "same_relays s s2"
    using body_completes unfolding same_relays_def by (metis rtranclp_trans)
  have "tcp_inv s2" by (rule tcpsys.steps_inv [OF s2(1) inv])
  then have "removed s2" "tc_sender s2 \<noteq> S_Off" "tc_receiver s2 \<noteq> R_Off"
    using s2 assms(2) inv by (simp_all add: removed_def tcp_inv_def tcp_flags_def flags_ok_def tcp_group_def same_relays_def)
  with sender_finishes obtain s3 where s3: "tcp_step\<^sup>*\<^sup>* s2 s3" "removed s3" "tc_sender s3 = S_Done" "tc_receiver s3 \<noteq> R_Off" by metis
  from receiver_finishes [OF s3(2,4,3)] obtain t where t: "tcp_step\<^sup>*\<^sup>* s3 t" "removed t" "tc_sender t = S_Done" "tc_receiver t = R_Done"
    by blast
  have "tcp_step\<^sup>*\<^sup>* s t" using s2(1) s3(1) t(1) by (meson rtranclp_trans)
  moreover have "tcp_inv t" by (rule tcpsys.steps_inv [OF calculation inv])
  ultimately show ?thesis using t inv by (auto simp: tcp_inv_def tcp_group_def removed_def)
qed

subsection \<open>A dial that races with the removal\<close>

definition io_data :: "payload \<Rightarrow> io_env" where
  "io_data d = \<lparr>io_now = 0, io_done = False, io_dial = Inr 1, io_write = Inr (length d), io_read = Inr d,
     io_pick = None, io_pool = New_pool\<rparr>"

lemmas tcp_run_simps = eval_nat_numeral new_TCPConn_def make_chan_def spawn_relays_def start_pumps_def TCPSend_select_def
  chan_send_def chan_recv_def relayToProxy_def dialProxy_def relayFromProxy_def dial_attempt_def maxRetries_def HandleTCP_uplink_def HandleTCP_downlink_def
  RemoveTCP_enter_def close_proxy_conn_def drainChannel_def close_chan_def io_data_def io_stop_def

lemma shut_final:
  assumes "tcp_step s t" and "tc_once s = OnceDone" and "tcp_inv s"
  shows "tc_once t = OnceDone \<and> tc_shut t = tc_shut s"
proof -
  have cl: "tc_closed s" using assms by (simp add: tcp_inv_def tcp_flags_def flags_ok_def)
  then have en: "RemoveTCP_enter s = None" by (simp add: RemoveTCP_enter_def)
  from assms(1) show ?thesis
  proof (cases rule: tcp_step_cases)
    case (sender e)
    then show ?thesis by (cases rule: relayToProxy_cases) (use assms(2) en in simp_all)
  next
    case (receiver e)
    then show ?thesis by (cases rule: relayFromProxy_cases) (use assms(2) in simp_all)
  next
    case (uplink e)
    then show ?thesis by (cases rule: HandleTCP_uplink_cases) (use assms(2) in simp_all)
  next
    case (downlink e)
    then show ?thesis by (cases rule: HandleTCP_downlink_cases) (use assms(2) en in simp_all)
  next
    case (tsend e d r)
    then show ?thesis by (cases rule: TCPSend_cases) (use assms(2) in simp_all)
  qed (use assms(2) en in simp_all)
qed

lemma shut_final_run:
  assumes "tcp_step\<^sup>*\<^sup>* s t" and "tc_once s = OnceDone" and "tcp_inv s"
  shows "tc_once t = OnceDone \<and> tc_shut t = tc_shut s"
  using assms
proof (induction rule: rtranclp_induct)
  case (step y z)
  then show ?case using shut_final [of y z] tcpsys.steps_inv [of s y] by simp
qed simp

definition leak_run :: "tcp_action list" where
  "leak_run =
     [ASpawn, APumps, AUplink (io_data [1]), AUplink (io_data [1])] @ replicate 5 (ASender (io_data [1])) @ [ARemove] @ replicate 8 ABody @
     [ASender io_stop, ASender io_stop, ASender io_stop, ASender io_stop, AReceiver io_stop, AReceiver io_stop]"

text \<open>A dial that succeeds while the session is being removed leaks its connection: the relay stores the
  connection after the removal has looked for it, both relays end, and in no later state is it closed.\<close>

theorem late_dial_leaks_connection:
  "\<exists>s c. tcp_step\<^sup>*\<^sup>* (new_TCPConn now meta) s \<and> tc_once s = OnceDone \<and> tc_sender s = S_Done \<and> tc_receiver s = R_Done \<and>
     c \<in> set (tc_opened s) \<and> \<not> (\<exists>t. tcp_step\<^sup>*\<^sup>* s t \<and> c \<in> set (tc_shut t))"
proof -
  have "\<exists>s. tcp_exec leak_run (new_TCPConn now meta) = Some s \<and> tc_once s = OnceDone \<and> tc_sender s = S_Done \<and>
      tc_receiver s = R_Done \<and> tc_opened s = [1] \<and> tc_shut s = []"
    by (simp add: leak_run_def tcp_run_simps)
  then obtain s where s: "tcp_step\<^sup>*\<^sup>* (new_TCPConn now meta) s" "tc_once s = OnceDone" "tc_sender s = S_Done"
    "tc_receiver s = R_Done" "tc_opened s = [1]" "tc_shut s = []" using tcp_exec_steps by blast
  have "\<not> (\<exists>t. tcp_step\<^sup>*\<^sup>* s t \<and> 1 \<in> set (tc_shut t))"
    using shut_final_run [OF _ s(2) tcp_run_inv [OF s(1)]] s(6) by force
  with s show ?thesis by (metis list.set_intros(1))
qed

subsection \<open>Witnesses\<close>

definition example_meta :: conn_meta where
  "example_meta = \<lparr>SourceIP = Addr4 [192, 168, 1, 2], SourcePort = 40000, DestIP = Addr4 [1, 1, 1, 1], DestPort = 443,
     Protocol = 6, Domain = []\<rparr>"

definition relay_run :: "tcp_action list" where
  "relay_run = [ASpawn, ASend (io_data [1]) [1], ASend (io_data [2]) [2]] @ replicate 8 (ASender (io_data [1])) @ [ASender (io_data [2])]"

lemma relay_run_result:
  obtains s where "tcp_step\<^sup>*\<^sup>* (new_TCPConn 0 example_meta) s" "\<not> tc_closed s" "tc_sender s = S_Check [2]"
    "tc_written s = [[1]]" "tc_accepted s = [[1], [2]]" "ch_buf (tc_ToProxy s) = []"
proof -
  have "\<exists>s. tcp_exec relay_run (new_TCPConn 0 example_meta) = Some s \<and> \<not> tc_closed s \<and> tc_sender s = S_Check [2] \<and>
    tc_written s = [[1]] \<and> tc_accepted s = [[1], [2]] \<and> ch_buf (tc_ToProxy s) = []"
    by (simp add: relay_run_def tcp_run_simps)
  then show ?thesis using that tcp_exec_steps by blast
qed

theorem tcp_relay_in_order_witness:
  "\<exists>s. tcp_step\<^sup>*\<^sup>* (new_TCPConn 0 example_meta) s \<and> tc_written s = [[1]] \<and> prefix (tc_written s) (tc_accepted s) \<and>
     tc_accepted s = tc_written s @ sender_holds (tc_sender s) @ ch_buf (tc_ToProxy s)"
proof -
  obtain s where s: "tcp_step\<^sup>*\<^sup>* (new_TCPConn 0 example_meta) s" "\<not> tc_closed s" "tc_sender s = S_Check [2]"
    "tc_written s = [[1]]" "tc_accepted s = [[1], [2]]" "ch_buf (tc_ToProxy s) = []" by (rule relay_run_result)
  with tcp_relay_in_order [OF s(1)] show ?thesis by (auto simp: sender_loops_def)
qed

theorem tcp_shutdown_completes_witness:
  "\<exists>s t. tcp_step\<^sup>*\<^sup>* (new_TCPConn 0 example_meta) s \<and> tc_written s = [[1]] \<and> tcp_step\<^sup>*\<^sup>* s t \<and> tc_once t = OnceDone \<and> tc_relayWG t = 0"
proof -
  obtain s where s: "tcp_step\<^sup>*\<^sup>* (new_TCPConn 0 example_meta) s" "\<not> tc_closed s" "tc_sender s = S_Check [2]"
    "tc_written s = [[1]]" "tc_accepted s = [[1], [2]]" "ch_buf (tc_ToProxy s) = []" by (rule relay_run_result)
  with tcp_shutdown_completes [OF s(1)] show ?thesis by auto
qed

subsection \<open>What the relays move\<close>

lemma Buf_Get_len: "sl_len (fst (Buf_Get pick n p)) = 0"
  by (simp add: Buf_Get_def case_prod_unfold Let_def)

lemma read_into_empty [simp]: "read_into n e d = []"
  by (simp add: read_into_def Buf_Get_len)

fun uplink_holds :: "uplink_pc \<Rightarrow> payload list" where
  "uplink_holds (U_Send d) = [d]" | "uplink_holds _ = []"

text \<open>No payload of the session has a byte.\<close>

definition no_bytes :: "tcp_session \<Rightarrow> bool" where
  "no_bytes s \<longleftrightarrow>
     set (uplink_holds (tc_uplink s) @ ch_buf (tc_ToProxy s) @ sender_holds (tc_sender s) @ tc_written s) \<subseteq> {[]} \<and>
     set (receiver_holds (tc_receiver s) @ ch_buf (tc_FromProxy s) @ downlink_holds (tc_downlink s) @ tc_delivered s) \<subseteq> {[]} \<and>
     tc_bytesReceived s = 0"

lemma no_bytes_enter: "RemoveTCP_enter s = Some t \<Longrightarrow> no_bytes s \<Longrightarrow> no_bytes t"
  by (erule RemoveTCP_enter_cases) (simp_all add: no_bytes_def)

lemma no_bytes_body: "RemoveTCP_body s = Some t \<Longrightarrow> no_bytes s \<Longrightarrow> no_bytes t"
  by (cases "tc_once s") (auto simp: no_bytes_def)

lemma no_bytes_sender:
  assumes "relayToProxy e s = Some t" and inv: "no_bytes s"
  shows "no_bytes t"
  using assms(1)
proof (cases rule: relayToProxy_cases)
  case (enter s')
  then show ?thesis using no_bytes_enter [OF enter(2) inv] by (auto simp: no_bytes_def elim: RemoveTCP_enter_cases)
next
  case (moved p d)
  then have "sender_holds p = sender_holds (tc_sender s)" by (cases "tc_sender s") simp_all
  then show ?thesis using moved(1) inv by (simp add: no_bytes_def)
next
  case exit
  then show ?thesis using inv by (auto simp: no_bytes_def)
qed (use inv in \<open>simp_all add: no_bytes_def\<close>)

lemma no_bytes_exec1:
  assumes "tcp_exec1 a s = Some t" and inv: "no_bytes s" and "\<not> (\<exists>e d. a = ASend e d)"
  shows "no_bytes t"
proof (cases a)
  case (ASender e)
  then show ?thesis using assms(1) no_bytes_sender [OF _ inv] by simp
next
  case (AReceiver e)
  then have "relayFromProxy e s = Some t" using assms(1) by simp
  then show ?thesis by (cases rule: relayFromProxy_cases) (use inv in \<open>auto simp: no_bytes_def\<close>)
next
  case (AUplink e)
  then have "HandleTCP_uplink e s = Some t" using assms(1) by simp
  then show ?thesis
  proof (cases rule: HandleTCP_uplink_cases)
    case (moved p)
    then show ?thesis using inv by (cases p) (simp_all add: no_bytes_def)
  next
    case (passed d)
    then show ?thesis using inv by (simp add: no_bytes_def)
  qed
next
  case (ADownlink e)
  then have "HandleTCP_downlink e s = Some t" using assms(1) by simp
  then show ?thesis
  proof (cases rule: HandleTCP_downlink_cases)
    case (enter s')
    then show ?thesis using no_bytes_enter [OF enter(2) inv] by (auto simp: no_bytes_def elim: RemoveTCP_enter_cases)
  qed (use inv in \<open>auto simp: no_bytes_def\<close>)
next
  case ARemove
  then show ?thesis using assms(1) no_bytes_enter [OF _ inv] by simp
next
  case ABody
  then show ?thesis using assms(1) no_bytes_body [OF _ inv] by (simp del: RemoveTCP_body.simps)
qed (use assms in \<open>auto simp: spawn_relays_def start_pumps_def no_bytes_def split: if_split_asm\<close>)

lemma no_bytes_exec:
  assumes "tcp_exec as s = Some t" and "no_bytes s" and "\<not> (\<exists>e d. ASend e d \<in> set as)"
  shows "no_bytes t"
  using assms
proof (induction as arbitrary: s)
  case Nil
  then show ?case by simp
next
  case (Cons a as)
  then obtain s' where s': "tcp_exec1 a s = Some s'" "tcp_exec as s' = Some t" by (auto split: option.splits)
  have "no_bytes s'" by (rule no_bytes_exec1 [OF s'(1) Cons.prems(2)]) (use Cons.prems(3) in auto)
  with Cons.IH [OF s'(2)] Cons.prems(3) show ?case by auto
qed

text \<open>C7. The relays move no data: the goroutines read into the slice that \<open>buffer.Get\<close> returns, whose length
  is zero, so that in every run of the handler's and the tracker's goroutines (no call of \<open>TCPSend\<close>, which
  the program never makes) every payload written to the proxy and every payload delivered to the client
  is empty, whatever the client and the proxy send.\<close>

theorem relays_move_no_bytes:
  assumes "tcp_exec as (new_TCPConn now meta) = Some s" and "\<not> (\<exists>e d. ASend e d \<in> set as)"
  shows "concat (tc_written s) = [] \<and> concat (tc_delivered s) = [] \<and> tc_bytesReceived s = 0"
proof -
  have "no_bytes (new_TCPConn now meta)" by (simp add: no_bytes_def new_TCPConn_def make_chan_def)
  from no_bytes_exec [OF assms(1) this assms(2)] show ?thesis by (auto simp: no_bytes_def)
qed

definition echo_run :: "tcp_action list" where
  "echo_run = [ASpawn, APumps] @ replicate 2 (AUplink (io_data [1, 2, 3])) @ replicate 8 (ASender (io_data [1, 2, 3])) @
     replicate 3 (AReceiver (io_data [4, 5])) @ replicate 2 (ADownlink (io_data [4, 5]))"

theorem relays_move_no_bytes_witness:
  "\<exists>s. tcp_exec echo_run (new_TCPConn 0 example_meta) = Some s \<and> length (tc_written s) = 1 \<and> length (tc_delivered s) = 1 \<and>
     concat (tc_written s) = [] \<and> concat (tc_delivered s) = []"
proof -
  have "\<exists>s. tcp_exec echo_run (new_TCPConn 0 example_meta) = Some s \<and> length (tc_written s) = 1 \<and> length (tc_delivered s) = 1"
    by (simp add: echo_run_def tcp_run_simps)
  then obtain s where s: "tcp_exec echo_run (new_TCPConn 0 example_meta) = Some s" "length (tc_written s) = 1"
    "length (tc_delivered s) = 1" by blast
  have "\<not> (\<exists>e d. ASend e d \<in> set echo_run)" by (simp add: echo_run_def)
  from relays_move_no_bytes [OF s(1) this] s show ?thesis by simp
qed

end
