(* ===== verification/UdpSession.thy ===== *)
theory UdpSession
  imports TcpSession
begin

text \<open>
  One tracked UDP session of core/conntrack.go with its goroutines, in the style of the TCP session: the
  relay that \<open>CreateUDP\<close> starts, the reader that \<open>dialUDPProxy\<close> starts, the pairs of pumps that \<open>HandleUDP\<close>
  of core/proxy_handler.go starts (one pair for each call, and several calls may share a session), and the
  callers of \<open>RemoveUDP\<close>.
\<close>

datatype udp_sender = US_Off | US_Recv | US_Check payload | US_Peek payload | US_DialCheck payload | US_Dial payload
  | US_Store payload conn_id | US_Spawn payload | US_Load payload | US_Write payload "conn_id option"
  | US_Remove | US_InOnce | US_Done

datatype udp_reader = UR_Off | UR_Loop | UR_Peek | UR_Read conn_id | UR_Send payload | UR_Remove | UR_InOnce | UR_Done

datatype udp_uplink = UU_Loop | UU_Read | UU_Send payload | UU_Done

datatype udp_downlink = UD_Recv | UD_Check payload | UD_Write payload | UD_Wait | UD_Remove | UD_InOnce | UD_Done

record udp_session =
  uc_Meta :: conn_meta
  uc_ProxyConn :: "conn_id option"
  uc_ctxDone :: bool
  uc_ToProxy :: chan
  uc_FromProxy :: chan
  uc_once :: once_stage
  uc_closed :: bool
  uc_relayWG :: int
  uc_packetsSent :: "64 word"
  uc_packetsReceived :: "64 word"
  uc_bytesSent :: "64 word"
  uc_bytesReceived :: "64 word"
  uc_lastActivity :: instant
  uc_sender :: udp_sender
  uc_reader :: udp_reader
  uc_pumps :: "(udp_uplink \<times> udp_downlink) list"

definition new_UDPConn :: "instant \<Rightarrow> conn_meta \<Rightarrow> udp_session" where
  "new_UDPConn now meta =
     \<lparr>uc_Meta = meta, uc_ProxyConn = None, uc_ctxDone = False, uc_ToProxy = make_chan 256, uc_FromProxy = make_chan 256,
      uc_once = OncePending, uc_closed = False, uc_relayWG = 0, uc_packetsSent = 0, uc_packetsReceived = 0,
      uc_bytesSent = 0, uc_bytesReceived = 0, uc_lastActivity = now, uc_sender = US_Off, uc_reader = UR_Off, uc_pumps = []\<rparr>"

definition discard_UDPConn :: "udp_session \<Rightarrow> udp_session" where
  "discard_UDPConn s =
     s\<lparr>uc_once := OnceDone, uc_closed := True, uc_ctxDone := True,
       uc_ToProxy := close_chan (uc_ToProxy s), uc_FromProxy := close_chan (uc_FromProxy s)\<rparr>"

definition spawn_udp_relay :: "udp_session \<Rightarrow> udp_session option" where
  "spawn_udp_relay s =
     (if uc_sender s = US_Off then Some (s\<lparr>uc_relayWG := uc_relayWG s + 1, uc_sender := US_Recv\<rparr>) else None)"

definition start_udp_pumps :: "udp_session \<Rightarrow> udp_session" where
  "start_udp_pumps s = s\<lparr>uc_pumps := uc_pumps s @ [(UU_Loop, UD_Recv)]\<rparr>"

subsection \<open>RemoveUDP\<close>

text \<open>Unlike \<open>RemoveTCP\<close> there is no early return: every caller enters \<open>closeOnce.Do\<close> and waits for its end.\<close>

definition RemoveUDP_enter :: "udp_session \<Rightarrow> udp_session" where
  "RemoveUDP_enter s = (if uc_once s = OncePending then s\<lparr>uc_once := OnceCancel, uc_closed := True\<rparr> else s)"

fun RemoveUDP_body :: "udp_session \<Rightarrow> udp_session option" where
  "RemoveUDP_body s =
     (case uc_once s of
        OncePending \<Rightarrow> None
      | OnceCancel \<Rightarrow> Some (s\<lparr>uc_ctxDone := True, uc_once := OnceProxy\<rparr>)
      | OnceProxy \<Rightarrow> Some (s\<lparr>uc_ProxyConn := None, uc_once := OnceDrainTo\<rparr>)
      | OnceDrainTo \<Rightarrow> Some (s\<lparr>uc_ToProxy := drainChannel (uc_ToProxy s), uc_once := OnceDrainFrom\<rparr>)
      | OnceDrainFrom \<Rightarrow> Some (s\<lparr>uc_FromProxy := drainChannel (uc_FromProxy s), uc_once := OnceCloseTo\<rparr>)
      | OnceCloseTo \<Rightarrow> Some (s\<lparr>uc_ToProxy := close_chan (uc_ToProxy s), uc_once := OnceCloseFrom\<rparr>)
      | OnceCloseFrom \<Rightarrow> Some (s\<lparr>uc_FromProxy := close_chan (uc_FromProxy s), uc_once := OnceDelete\<rparr>)
      | OnceDelete \<Rightarrow> Some (s\<lparr>uc_once := OnceCount\<rparr>)
      | OnceCount \<Rightarrow> Some (s\<lparr>uc_once := OnceDone\<rparr>)
      | OnceDone \<Rightarrow> None)"

subsection \<open>The relay and the reader\<close>

text \<open>The sender is inside \<open>dialUDPProxy\<close> from \<open>US_DialCheck\<close> to \<open>US_Spawn\<close>, where it raises the wait group and starts
  the reader.\<close>

definition dialUDPProxy :: "io_env \<Rightarrow> udp_session \<Rightarrow> udp_session option" where
  "dialUDPProxy e s =
     (case uc_sender s of
        US_DialCheck d \<Rightarrow>
          Some (if uc_ProxyConn s \<noteq> None then s\<lparr>uc_sender := US_Load d\<rparr> else s\<lparr>uc_sender := US_Dial d\<rparr>)
      | US_Dial d \<Rightarrow>
          Some (case io_dial e of Inl _ \<Rightarrow> s\<lparr>uc_sender := US_Remove\<rparr> | Inr c \<Rightarrow> s\<lparr>uc_sender := US_Store d c\<rparr>)
      | US_Store d c \<Rightarrow> Some (s\<lparr>uc_ProxyConn := Some c, uc_sender := US_Spawn d\<rparr>)
      | US_Spawn d \<Rightarrow> Some (s\<lparr>uc_relayWG := uc_relayWG s + 1, uc_reader := UR_Loop, uc_sender := US_Load d\<rparr>)
      | _ \<Rightarrow> None)"

definition relayUDPPackets :: "io_env \<Rightarrow> udp_session \<Rightarrow> udp_session option" where
  "relayUDPPackets e s =
     (case uc_sender s of
        US_Off \<Rightarrow> None
      | US_Recv \<Rightarrow>
          if io_done e then (if uc_ctxDone s then Some (s\<lparr>uc_sender := US_Remove\<rparr>) else None)
          else (case chan_recv (uc_ToProxy s) of
                  RecvBlocks \<Rightarrow> None
                | RecvClosed \<Rightarrow> Some (s\<lparr>uc_sender := US_Remove\<rparr>)
                | Received d ch \<Rightarrow> Some (s\<lparr>uc_ToProxy := ch, uc_sender := US_Check d\<rparr>))
      | US_Check d \<Rightarrow>
          Some (if uc_closed s then s\<lparr>uc_sender := US_Remove\<rparr>
                else s\<lparr>uc_lastActivity := io_now e, uc_packetsSent := uc_packetsSent s + 1,
                       uc_bytesSent := uc_bytesSent s + of_nat (length d), uc_sender := US_Peek d\<rparr>)
      | US_Peek d \<Rightarrow>
          Some (case uc_ProxyConn s of
                  None \<Rightarrow> if uc_closed s then s\<lparr>uc_sender := US_Remove\<rparr> else s\<lparr>uc_sender := US_DialCheck d\<rparr>
                | Some c \<Rightarrow> s\<lparr>uc_sender := US_Write d (Some c)\<rparr>)
      | US_DialCheck d \<Rightarrow> dialUDPProxy e s
      | US_Dial d \<Rightarrow> dialUDPProxy e s
      | US_Store d c \<Rightarrow> dialUDPProxy e s
      | US_Spawn d \<Rightarrow> dialUDPProxy e s
      | US_Load d \<Rightarrow> Some (s\<lparr>uc_sender := US_Write d (uc_ProxyConn s)\<rparr>)
      | US_Write d None \<Rightarrow> Some (s\<lparr>uc_sender := US_Remove\<rparr>)
      | US_Write d (Some c) \<Rightarrow>
          Some (case io_write e of Inl _ \<Rightarrow> s\<lparr>uc_sender := US_Remove\<rparr> | Inr _ \<Rightarrow> s\<lparr>uc_sender := US_Recv\<rparr>)
      | US_Remove \<Rightarrow> Some ((RemoveUDP_enter s)\<lparr>uc_sender := US_InOnce\<rparr>)
      | US_InOnce \<Rightarrow>
          if uc_once s = OnceDone then Some (s\<lparr>uc_sender := US_Done, uc_relayWG := uc_relayWG s - 1\<rparr>) else None
      | US_Done \<Rightarrow> None)"

text \<open>The reader has no \<open>relayWG.Done\<close>.\<close>

definition readUDPFromProxy :: "io_env \<Rightarrow> udp_session \<Rightarrow> udp_session option" where
  "readUDPFromProxy e s =
     (case uc_reader s of
        UR_Off \<Rightarrow> None
      | UR_Loop \<Rightarrow> Some (if uc_closed s then s\<lparr>uc_reader := UR_Remove\<rparr> else s\<lparr>uc_reader := UR_Peek\<rparr>)
      | UR_Peek \<Rightarrow>
          (case uc_ProxyConn s of
             None \<Rightarrow> if io_done e then (if uc_ctxDone s then Some (s\<lparr>uc_reader := UR_Remove\<rparr>) else None)
                     else Some (s\<lparr>uc_reader := UR_Loop\<rparr>)
           | Some c \<Rightarrow> Some (s\<lparr>uc_reader := UR_Read c\<rparr>))
      | UR_Read c \<Rightarrow>
          Some (case io_read e of
                  Inl _ \<Rightarrow> s\<lparr>uc_reader := UR_Remove\<rparr>
                | Inr avail \<Rightarrow>
                    let d = read_into MediumBufferSize e avail
                    in s\<lparr>uc_lastActivity := io_now e, uc_packetsReceived := uc_packetsReceived s + 1,
                         uc_bytesReceived := uc_bytesReceived s + of_nat (length d), uc_reader := UR_Send d\<rparr>)
      | UR_Send d \<Rightarrow>
          if io_done e then (if uc_ctxDone s then Some (s\<lparr>uc_reader := UR_Remove\<rparr>) else None)
          else (case chan_send d (uc_FromProxy s) of
                  SendBlocks \<Rightarrow> None
                | SendPanics \<Rightarrow> Some (s\<lparr>uc_reader := UR_Remove\<rparr>)
                | Sent ch \<Rightarrow> Some (s\<lparr>uc_FromProxy := ch, uc_reader := UR_Loop\<rparr>))
      | UR_Remove \<Rightarrow> Some ((RemoveUDP_enter s)\<lparr>uc_reader := UR_InOnce\<rparr>)
      | UR_InOnce \<Rightarrow> if uc_once s = OnceDone then Some (s\<lparr>uc_reader := UR_Done\<rparr>) else None
      | UR_Done \<Rightarrow> None)"

subsection \<open>The pumps of HandleUDP\<close>

text \<open>\<open>hijack d\<close>: the DNS hijacker is installed, the session goes to port 53 and the hijacker answers the query \<open>d\<close>.\<close>

definition HandleUDP_uplink :: "(payload \<Rightarrow> bool) \<Rightarrow> io_env \<Rightarrow> udp_uplink \<Rightarrow> udp_session \<Rightarrow> (udp_uplink \<times> udp_session) option" where
  "HandleUDP_uplink hijack e p s =
     (case p of
        UU_Loop \<Rightarrow> Some (if uc_closed s then (UU_Done, s) else (UU_Read, s))
      | UU_Read \<Rightarrow>
          Some (case io_read e of
                  Inl _ \<Rightarrow> (UU_Done, s)
                | Inr avail \<Rightarrow>
                    let d = read_into MediumBufferSize e avail
                    in if DestPort (uc_Meta s) = 53 \<and> hijack d then (UU_Loop, s) else (UU_Send d, s))
      | UU_Send d \<Rightarrow>
          if io_done e then (if uc_ctxDone s then Some (UU_Done, s) else None)
          else (case chan_send d (uc_ToProxy s) of
                  SendBlocks \<Rightarrow> None
                | SendPanics \<Rightarrow> Some (UU_Done, s)
                | Sent ch \<Rightarrow> Some (UU_Loop, s\<lparr>uc_ToProxy := ch\<rparr>))
      | UU_Done \<Rightarrow> None)"

text \<open>The deferred cleanup first waits for the wait group and then removes the session.\<close>

definition HandleUDP_downlink :: "io_env \<Rightarrow> udp_downlink \<Rightarrow> udp_session \<Rightarrow> (udp_downlink \<times> udp_session) option" where
  "HandleUDP_downlink e p s =
     (case p of
        UD_Recv \<Rightarrow>
          if io_done e then (if uc_ctxDone s then Some (UD_Wait, s) else None)
          else (case chan_recv (uc_FromProxy s) of
                  RecvBlocks \<Rightarrow> None
                | RecvClosed \<Rightarrow> Some (UD_Wait, s)
                | Received d ch \<Rightarrow> Some (UD_Check d, s\<lparr>uc_FromProxy := ch\<rparr>))
      | UD_Check d \<Rightarrow> Some (if uc_closed s then (UD_Wait, s) else (UD_Write d, s))
      | UD_Write d \<Rightarrow> Some (case io_write e of Inl _ \<Rightarrow> (UD_Wait, s) | Inr _ \<Rightarrow> (UD_Recv, s))
      | UD_Wait \<Rightarrow> if uc_relayWG s = 0 then Some (UD_Remove, s) else None
      | UD_Remove \<Rightarrow> Some (UD_InOnce, RemoveUDP_enter s)
      | UD_InOnce \<Rightarrow> if uc_once s = OnceDone then Some (UD_Done, s) else None
      | UD_Done \<Rightarrow> None)"

definition UDPSend_select :: "io_env \<Rightarrow> payload \<Rightarrow> udp_session \<Rightarrow> send_outcome \<times> udp_session" where
  "UDPSend_select e d s =
     (if io_done e \<and> uc_ctxDone s then (SendClosed, s)
      else case chan_send d (uc_ToProxy s) of
             SendPanics \<Rightarrow> (SendPanic, s)
           | Sent ch \<Rightarrow> (SendOk, s\<lparr>uc_ToProxy := ch\<rparr>)
           | SendBlocks \<Rightarrow> if uc_ctxDone s then (SendClosed, s) else (SendFull, s))"

inductive udp_step :: "udp_session \<Rightarrow> udp_session \<Rightarrow> bool" where
  spawn: "spawn_udp_relay s = Some t \<Longrightarrow> udp_step s t"
| pumps: "udp_step s (start_udp_pumps s)"
| sender: "relayUDPPackets e s = Some t \<Longrightarrow> udp_step s t"
| reader: "readUDPFromProxy e s = Some t \<Longrightarrow> udp_step s t"
| uplink: "j < length (uc_pumps s) \<Longrightarrow> HandleUDP_uplink hijack e (fst (uc_pumps s ! j)) s = Some (p, t) \<Longrightarrow>
    udp_step s (t\<lparr>uc_pumps := (uc_pumps s)[j := (p, snd (uc_pumps s ! j))]\<rparr>)"
| downlink: "j < length (uc_pumps s) \<Longrightarrow> HandleUDP_downlink e (snd (uc_pumps s ! j)) s = Some (p, t) \<Longrightarrow>
    udp_step s (t\<lparr>uc_pumps := (uc_pumps s)[j := (fst (uc_pumps s ! j), p)]\<rparr>)"
| usend: "UDPSend_select e d s = (r, t) \<Longrightarrow> udp_step s t"
| remove: "udp_step s (RemoveUDP_enter s)"
| body: "RemoveUDP_body s = Some t \<Longrightarrow> udp_step s t"

subsection \<open>The wait group\<close>

fun us_live :: "udp_sender \<Rightarrow> int" where
  "us_live US_Off = 0" | "us_live US_Done = 0" | "us_live _ = 1"

definition ur_started :: "udp_reader \<Rightarrow> int" where
  "ur_started p = (if p = UR_Off then 0 else 1)"

definition udp_group :: "udp_session \<Rightarrow> bool" where
  "udp_group s \<longleftrightarrow> us_live (uc_sender s) + ur_started (uc_reader s) \<le> uc_relayWG s"

lemma RemoveUDP_enter_fields [simp]:
  "uc_sender (RemoveUDP_enter s) = uc_sender s" "uc_reader (RemoveUDP_enter s) = uc_reader s"
  "uc_relayWG (RemoveUDP_enter s) = uc_relayWG s" "uc_pumps (RemoveUDP_enter s) = uc_pumps s"
  "uc_Meta (RemoveUDP_enter s) = uc_Meta s"
  by (simp_all add: RemoveUDP_enter_def)

text \<open>What a step does to the wait group, the relay and the reader.\<close>

definition udp_frame :: "udp_session \<Rightarrow> udp_session \<Rightarrow> bool" where
  "udp_frame s t \<longleftrightarrow> uc_relayWG t = uc_relayWG s \<and> uc_sender t = uc_sender s \<and> uc_reader t = uc_reader s"

lemma udp_sender_group:
  assumes "relayUDPPackets e s = Some t" and "udp_group s"
  shows "udp_group t \<and> (uc_reader s \<noteq> UR_Off \<longrightarrow> uc_reader t \<noteq> UR_Off) \<and> uc_pumps t = uc_pumps s"
proof (cases "uc_sender s")
  case US_Off
  then have "relayUDPPackets e s = None" by (simp add: relayUDPPackets_def dialUDPProxy_def)
  with assms(1) show ?thesis by simp
next
  case (US_Write d c)
  then show ?thesis
    using assms by (cases c) (auto simp: relayUDPPackets_def dialUDPProxy_def udp_group_def split: sum.split_asm)
qed (use assms in \<open>auto simp: relayUDPPackets_def dialUDPProxy_def udp_group_def ur_started_def
      split: if_split_asm sum.split_asm option.split_asm recv_result.split_asm\<close>)

lemma udp_reader_group:
  assumes "readUDPFromProxy e s = Some t" and "udp_group s"
  shows "udp_group t \<and> (uc_reader s \<noteq> UR_Off \<longrightarrow> uc_reader t \<noteq> UR_Off) \<and> uc_pumps t = uc_pumps s"
  by (cases "uc_reader s") (use assms in \<open>auto simp: readUDPFromProxy_def udp_group_def ur_started_def Let_def
      split: if_split_asm sum.split_asm option.split_asm send_result.split_asm\<close>)

lemma HandleUDP_uplink_frame: "HandleUDP_uplink h e p s = Some (q, t) \<Longrightarrow> udp_frame s t"
  by (cases p) (auto simp: HandleUDP_uplink_def udp_frame_def Let_def split: if_split_asm sum.split_asm send_result.split_asm)

lemma HandleUDP_downlink_frame: "HandleUDP_downlink e p s = Some (q, t) \<Longrightarrow> udp_frame s t"
  by (cases p) (auto simp: HandleUDP_downlink_def udp_frame_def split: if_split_asm sum.split_asm recv_result.split_asm)

lemma UDPSend_frame: "UDPSend_select e d s = (r, t) \<Longrightarrow> udp_frame s t \<and> uc_pumps t = uc_pumps s"
  by (auto simp: UDPSend_select_def udp_frame_def split: if_split_asm send_result.split_asm)

lemma RemoveUDP_body_frame: "RemoveUDP_body s = Some t \<Longrightarrow> udp_frame s t \<and> uc_pumps t = uc_pumps s"
  by (cases "uc_once s") (auto simp: udp_frame_def)

definition waits_at :: "nat \<Rightarrow> udp_session \<Rightarrow> bool" where
  "waits_at j s \<longleftrightarrow> j < length (uc_pumps s) \<and> snd (uc_pumps s ! j) = UD_Wait"

definition udp_stuck :: "nat set \<Rightarrow> udp_session \<Rightarrow> bool" where
  "udp_stuck J s \<longleftrightarrow> udp_group s \<and> uc_reader s \<noteq> UR_Off \<and> (\<forall>j \<in> J. waits_at j s)"

lemma udp_group_step:
  assumes "udp_step s t" and "udp_group s"
  shows "udp_group t \<and> (uc_reader s \<noteq> UR_Off \<longrightarrow> uc_reader t \<noteq> UR_Off)"
  using assms
proof (induction rule: udp_step.induct)
  case (spawn s t)
  then show ?case by (auto simp: spawn_udp_relay_def udp_group_def split: if_split_asm)
next
  case (pumps s)
  then show ?case by (simp add: start_udp_pumps_def udp_group_def)
next
  case (sender e s t)
  then show ?case using udp_sender_group by blast
next
  case (reader e s t)
  then show ?case using udp_reader_group by blast
next
  case (uplink j s hijack e p t)
  then show ?case using HandleUDP_uplink_frame [OF uplink(2)] by (simp add: udp_frame_def udp_group_def)
next
  case (downlink j s e p t)
  then show ?case using HandleUDP_downlink_frame [OF downlink(2)] by (simp add: udp_frame_def udp_group_def)
next
  case (usend e d s r t)
  then show ?case using UDPSend_frame [OF usend(1)] by (simp add: udp_frame_def udp_group_def)
next
  case (remove s)
  then show ?case by (simp add: udp_group_def)
next
  case (body s t)
  then show ?case using RemoveUDP_body_frame [OF body(1)] by (simp add: udp_frame_def udp_group_def)
qed

lemma us_live_nonneg: "0 \<le> us_live p"
  by (cases p) simp_all

lemma waiting_pump_blocked:
  assumes "udp_step s t" and "udp_group s" and "uc_reader s \<noteq> UR_Off" and "waits_at j s"
  shows "waits_at j t"
  using assms
proof (induction rule: udp_step.induct)
  case (spawn s t)
  then show ?case by (auto simp: spawn_udp_relay_def waits_at_def split: if_split_asm)
next
  case (pumps s)
  then show ?case by (auto simp: start_udp_pumps_def waits_at_def nth_append)
next
  case (sender e s t)
  then show ?case using udp_sender_group [OF sender(1,2)] by (simp add: waits_at_def)
next
  case (reader e s t)
  then show ?case using udp_reader_group [OF reader(1,2)] by (simp add: waits_at_def)
next
  case (uplink i s hijack e p t)
  then show ?case by (auto simp: waits_at_def nth_list_update)
next
  case (downlink i s e p t)
  have "uc_relayWG s \<noteq> 0" using downlink us_live_nonneg [of "uc_sender s"] by (auto simp: udp_group_def ur_started_def)
  then have "i \<noteq> j" using downlink by (auto simp: waits_at_def HandleUDP_downlink_def)
  then show ?case using downlink by (auto simp: waits_at_def nth_list_update)
next
  case (usend e d s r t)
  then show ?case using UDPSend_frame [OF usend(1)] by (simp add: waits_at_def)
next
  case (remove s)
  then show ?case by (simp add: waits_at_def)
next
  case (body s t)
  then show ?case using RemoveUDP_body_frame [OF body(1)] by (simp add: waits_at_def)
qed

interpretation udpsys: invariant_system "\<lambda>s. \<exists>now meta. s = new_UDPConn now meta" udp_step udp_group
proof unfold_locales
  show "udp_group s" if "\<exists>now meta. s = new_UDPConn now meta" for s
    using that by (auto simp: udp_group_def new_UDPConn_def ur_started_def)
qed (use udp_group_step in blast)

interpretation udpstuck: invariant_system "udp_stuck J" udp_step "udp_stuck J" for J
  by unfold_locales (auto simp: udp_stuck_def dest: udp_group_step waiting_pump_blocked)

text \<open>Once the association with the proxy has been opened, no \<open>Wait\<close> on the session returns again: the
  wait group is raised for the reader, which never lowers it.  \<open>CloseAll\<close> and \<open>Stop\<close> wait for ever, and so does
  the cleanup of every pump that has reached its \<open>Wait\<close>.\<close>

theorem udp_wait_never_returns:
  assumes "udp_step\<^sup>*\<^sup>* (new_UDPConn now meta) s" and "uc_reader s \<noteq> UR_Off" and "udp_step\<^sup>*\<^sup>* s t"
  shows "1 \<le> uc_relayWG t \<and>
    (\<forall>j < length (uc_pumps s). snd (uc_pumps s ! j) = UD_Wait \<longrightarrow> snd (uc_pumps t ! j) = UD_Wait)"
proof -
  let ?J = "{j. waits_at j s}"
  have "udp_group s" using udpsys.run_inv assms(1) by blast
  then have "udp_stuck ?J s" using assms(2) by (simp add: udp_stuck_def)
  then have "udp_stuck ?J t" by (rule udpstuck.steps_inv [OF assms(3)])
  then show ?thesis
    using us_live_nonneg [of "uc_sender t"] by (auto simp: udp_stuck_def waits_at_def udp_group_def ur_started_def)
qed

subsection \<open>Runs as lists of actions\<close>

datatype udp_action = UASpawn | UAPumps | UASender io_env | UAReader io_env | UADownlink nat io_env | UASend io_env payload
  | UARemove | UABody

fun udp_exec1 :: "udp_action \<Rightarrow> udp_session \<Rightarrow> udp_session option" where
  "udp_exec1 UASpawn s = spawn_udp_relay s"
| "udp_exec1 UAPumps s = Some (start_udp_pumps s)"
| "udp_exec1 (UASender e) s = relayUDPPackets e s"
| "udp_exec1 (UAReader e) s = readUDPFromProxy e s"
| "udp_exec1 (UADownlink j e) s =
     (if j < length (uc_pumps s) then
        map_option (\<lambda>(p, t). t\<lparr>uc_pumps := (uc_pumps s)[j := (fst (uc_pumps s ! j), p)]\<rparr>)
          (HandleUDP_downlink e (snd (uc_pumps s ! j)) s)
      else None)"
| "udp_exec1 (UASend e d) s = Some (snd (UDPSend_select e d s))"
| "udp_exec1 UARemove s = Some (RemoveUDP_enter s)"
| "udp_exec1 UABody s = RemoveUDP_body s"

fun udp_exec :: "udp_action list \<Rightarrow> udp_session \<Rightarrow> udp_session option" where
  "udp_exec [] s = Some s"
| "udp_exec (a # as) s = (case udp_exec1 a s of None \<Rightarrow> None | Some t \<Rightarrow> udp_exec as t)"

lemma udp_exec1_step:
  assumes "udp_exec1 a s = Some t"
  shows "udp_step s t"
proof (cases a)
  case (UASend e d)
  then show ?thesis using assms udp_step.usend [of e d s "fst (UDPSend_select e d s)" t] by auto
next
  case (UADownlink j e)
  then show ?thesis using assms by (auto intro: udp_step.intros split: if_split_asm)
qed (use assms in \<open>auto intro: udp_step.intros simp del: RemoveUDP_body.simps\<close>)

lemma udp_exec_steps: "udp_exec as s = Some t \<Longrightarrow> udp_step\<^sup>*\<^sup>* s t"
proof (induction as arbitrary: s)
  case Nil
  then show ?case by simp
next
  case (Cons a as)
  then obtain s' where "udp_exec1 a s = Some s'" "udp_exec as s' = Some t" by (auto split: option.splits)
  then show ?case using Cons.IH udp_exec1_step converse_rtranclp_into_rtranclp by metis
qed

lemmas udp_run_simps = eval_nat_numeral new_UDPConn_def make_chan_def spawn_udp_relay_def start_udp_pumps_def UDPSend_select_def
  chan_send_def chan_recv_def relayUDPPackets_def dialUDPProxy_def readUDPFromProxy_def HandleUDP_downlink_def RemoveUDP_enter_def io_data_def io_stop_def

definition stuck_run :: "udp_action list" where
  "stuck_run = [UASpawn, UAPumps, UASend (io_data [1]) [1]] @ replicate 8 (UASender (io_data [1])) @
     [UARemove, UABody, UADownlink 0 io_stop]"

theorem udp_wait_never_returns_witness:
  "\<exists>s. udp_step\<^sup>*\<^sup>* (new_UDPConn 0 example_meta) s \<and> uc_once s = OnceProxy \<and> snd (uc_pumps s ! 0) = UD_Wait \<and>
     (\<forall>t. udp_step\<^sup>*\<^sup>* s t \<longrightarrow> 1 \<le> uc_relayWG t \<and> snd (uc_pumps t ! 0) = UD_Wait)"
proof -
  have "\<exists>s. udp_exec stuck_run (new_UDPConn 0 example_meta) = Some s \<and> uc_once s = OnceProxy \<and> uc_reader s = UR_Loop \<and>
      uc_pumps s = [(UU_Loop, UD_Wait)]"
    by (simp add: stuck_run_def udp_run_simps)
  then obtain s where s: "udp_step\<^sup>*\<^sup>* (new_UDPConn 0 example_meta) s" "uc_once s = OnceProxy" "uc_reader s = UR_Loop"
    "uc_pumps s = [(UU_Loop, UD_Wait)]" using udp_exec_steps by blast
  have "1 \<le> uc_relayWG t \<and> snd (uc_pumps t ! 0) = UD_Wait" if "udp_step\<^sup>*\<^sup>* s t" for t
    using udp_wait_never_returns [OF s(1) _ that] s(3,4) by simp
  with s show ?thesis by auto
qed

end
