(* ===== verification/ConnTrack.thy ===== *)
theory ConnTrack
  imports UdpSession
begin

text \<open>
  The connection tracker of core/conntrack.go: the two tables of sessions by key, the counters, and the
  operations on them.  The sessions live on two heaps, lists that only grow; the tables map keys to
  indices.  The steps of a session are those of the session theories, except that here the last two
  actions of a removal change the table and the counter of active sessions.
\<close>

record conn_key =
  ck_srcIP :: "byte list"
  ck_dstIP :: "byte list"
  ck_srcPort :: "16 word"
  ck_dstPort :: "16 word"
  ck_proto :: byte

definition newConnKey :: "addr \<Rightarrow> 16 word \<Rightarrow> addr \<Rightarrow> 16 word \<Rightarrow> byte \<Rightarrow> conn_key" where
  "newConnKey srcIP srcPort dstIP dstPort proto =
     \<lparr>ck_srcIP = As16 srcIP, ck_dstIP = As16 dstIP, ck_srcPort = srcPort, ck_dstPort = dstPort, ck_proto = proto\<rparr>"

definition tcpKey :: "addr \<Rightarrow> 16 word \<Rightarrow> addr \<Rightarrow> 16 word \<Rightarrow> conn_key" where
  "tcpKey srcIP srcPort dstIP dstPort = newConnKey srcIP srcPort dstIP dstPort 6"

definition udpKey :: "addr \<Rightarrow> 16 word \<Rightarrow> addr \<Rightarrow> 16 word \<Rightarrow> conn_key" where
  "udpKey srcIP srcPort dstIP dstPort = newConnKey srcIP srcPort dstIP dstPort 17"

record conn_tracker =
  ct_tcpConns :: "conn_key \<rightharpoonup> nat"
  ct_udpConns :: "conn_key \<rightharpoonup> nat"
  ct_tcpHeap :: "tcp_session list"
  ct_udpHeap :: "udp_session list"
  ct_activeTCP :: int
  ct_activeUDP :: int
  ct_totalTCP :: "64 word"
  ct_totalUDP :: "64 word"
  ct_droppedTCP :: "64 word"
  ct_droppedUDP :: "64 word"

definition NewConnTracker :: conn_tracker where
  "NewConnTracker = \<lparr>ct_tcpConns = Map.empty, ct_udpConns = Map.empty, ct_tcpHeap = [], ct_udpHeap = [],
     ct_activeTCP = 0, ct_activeUDP = 0, ct_totalTCP = 0, ct_totalUDP = 0, ct_droppedTCP = 0, ct_droppedUDP = 0\<rparr>"

definition tcp_key_of :: "tcp_session \<Rightarrow> conn_key" where
  "tcp_key_of s = (let m = tc_Meta s in tcpKey (SourceIP m) (SourcePort m) (DestIP m) (DestPort m))"

definition udp_key_of :: "udp_session \<Rightarrow> conn_key" where
  "udp_key_of s = (let m = uc_Meta s in udpKey (SourceIP m) (SourcePort m) (DestIP m) (DestPort m))"

subsection \<open>Operations\<close>

text \<open>\<open>CreateTCP\<close> up to the release of the lock; the relays are started by \<open>spawn_relays\<close> of the new session.
  The result None is the error.\<close>

definition CreateTCP_insert :: "instant \<Rightarrow> conn_meta \<Rightarrow> conn_tracker \<Rightarrow> nat option \<times> conn_tracker" where
  "CreateTCP_insert now meta ct =
     (let k = tcpKey (SourceIP meta) (SourcePort meta) (DestIP meta) (DestPort meta);
          tc = new_TCPConn now meta;
          i = length (ct_tcpHeap ct)
      in if ct_tcpConns ct k \<noteq> None then
           (None, ct\<lparr>ct_tcpHeap := ct_tcpHeap ct @ [discard_TCPConn tc], ct_droppedTCP := ct_droppedTCP ct + 1\<rparr>)
         else
           (Some i, ct\<lparr>ct_tcpConns := (ct_tcpConns ct)(k \<mapsto> i), ct_tcpHeap := ct_tcpHeap ct @ [tc],
                       ct_activeTCP := i32 (ct_activeTCP ct + 1), ct_totalTCP := ct_totalTCP ct + 1\<rparr>))"

definition CreateTCP :: "instant \<Rightarrow> conn_meta \<Rightarrow> conn_tracker \<Rightarrow> nat option \<times> conn_tracker" where
  "CreateTCP now meta ct =
     (case CreateTCP_insert now meta ct of
        (None, ct1) \<Rightarrow> (None, ct1)
      | (Some i, ct1) \<Rightarrow>
          (Some i, case spawn_relays (ct_tcpHeap ct1 ! i) of
                     None \<Rightarrow> ct1
                   | Some tc \<Rightarrow> ct1\<lparr>ct_tcpHeap := (ct_tcpHeap ct1)[i := tc]\<rparr>))"

definition CreateUDP_insert :: "instant \<Rightarrow> conn_meta \<Rightarrow> conn_tracker \<Rightarrow> nat option \<times> conn_tracker" where
  "CreateUDP_insert now meta ct =
     (let k = udpKey (SourceIP meta) (SourcePort meta) (DestIP meta) (DestPort meta);
          uc = new_UDPConn now meta;
          i = length (ct_udpHeap ct)
      in if ct_udpConns ct k \<noteq> None then
           (None, ct\<lparr>ct_udpHeap := ct_udpHeap ct @ [discard_UDPConn uc], ct_droppedUDP := ct_droppedUDP ct + 1\<rparr>)
         else
           (Some i, ct\<lparr>ct_udpConns := (ct_udpConns ct)(k \<mapsto> i), ct_udpHeap := ct_udpHeap ct @ [uc],
                       ct_activeUDP := i32 (ct_activeUDP ct + 1), ct_totalUDP := ct_totalUDP ct + 1\<rparr>))"

definition GetTCP :: "addr \<Rightarrow> 16 word \<Rightarrow> addr \<Rightarrow> 16 word \<Rightarrow> conn_tracker \<Rightarrow> nat option" where
  "GetTCP srcIP srcPort dstIP dstPort ct = ct_tcpConns ct (tcpKey srcIP srcPort dstIP dstPort)"

definition GetUDP :: "addr \<Rightarrow> 16 word \<Rightarrow> addr \<Rightarrow> 16 word \<Rightarrow> conn_tracker \<Rightarrow> nat option" where
  "GetUDP srcIP srcPort dstIP dstPort ct = ct_udpConns ct (udpKey srcIP srcPort dstIP dstPort)"

text \<open>The last two actions of \<open>RemoveTCP\<close> and \<open>RemoveUDP\<close>.\<close>

definition RemoveTCP_delete :: "nat \<Rightarrow> conn_tracker \<Rightarrow> conn_tracker" where
  "RemoveTCP_delete i ct =
     (let tc = ct_tcpHeap ct ! i
      in ct\<lparr>ct_tcpConns := (ct_tcpConns ct)(tcp_key_of tc := None), ct_tcpHeap := (ct_tcpHeap ct)[i := tc\<lparr>tc_once := OnceCount\<rparr>]\<rparr>)"

definition RemoveTCP_count :: "nat \<Rightarrow> conn_tracker \<Rightarrow> conn_tracker" where
  "RemoveTCP_count i ct =
     (let tc = ct_tcpHeap ct ! i
      in ct\<lparr>ct_activeTCP := i32 (ct_activeTCP ct - 1), ct_tcpHeap := (ct_tcpHeap ct)[i := tc\<lparr>tc_once := OnceDone\<rparr>]\<rparr>)"

definition RemoveUDP_delete :: "nat \<Rightarrow> conn_tracker \<Rightarrow> conn_tracker" where
  "RemoveUDP_delete i ct =
     (let uc = ct_udpHeap ct ! i
      in ct\<lparr>ct_udpConns := (ct_udpConns ct)(udp_key_of uc := None), ct_udpHeap := (ct_udpHeap ct)[i := uc\<lparr>uc_once := OnceCount\<rparr>]\<rparr>)"

definition RemoveUDP_count :: "nat \<Rightarrow> conn_tracker \<Rightarrow> conn_tracker" where
  "RemoveUDP_count i ct =
     (let uc = ct_udpHeap ct ! i
      in ct\<lparr>ct_activeUDP := i32 (ct_activeUDP ct - 1), ct_udpHeap := (ct_udpHeap ct)[i := uc\<lparr>uc_once := OnceDone\<rparr>]\<rparr>)"

text \<open>\<open>TCPSend\<close> and \<open>UDPSend\<close>: the result None says that there is no session.\<close>

definition TCPSend :: "io_env \<Rightarrow> addr \<Rightarrow> 16 word \<Rightarrow> addr \<Rightarrow> 16 word \<Rightarrow> payload \<Rightarrow> conn_tracker \<Rightarrow> send_outcome option \<times> conn_tracker" where
  "TCPSend e srcIP srcPort dstIP dstPort d ct =
     (case GetTCP srcIP srcPort dstIP dstPort ct of
        None \<Rightarrow> (None, ct)
      | Some i \<Rightarrow>
          let (r, tc) = TCPSend_select e d (ct_tcpHeap ct ! i);
              ct1 = ct\<lparr>ct_tcpHeap := (ct_tcpHeap ct)[i := tc]\<rparr>
          in (Some r, if r = SendFull then ct1\<lparr>ct_droppedTCP := ct_droppedTCP ct1 + 1\<rparr> else ct1))"

definition UDPSend :: "io_env \<Rightarrow> addr \<Rightarrow> 16 word \<Rightarrow> addr \<Rightarrow> 16 word \<Rightarrow> payload \<Rightarrow> conn_tracker \<Rightarrow> send_outcome option \<times> conn_tracker" where
  "UDPSend e srcIP srcPort dstIP dstPort d ct =
     (case GetUDP srcIP srcPort dstIP dstPort ct of
        None \<Rightarrow> (None, ct)
      | Some i \<Rightarrow>
          let (r, uc) = UDPSend_select e d (ct_udpHeap ct ! i);
              ct1 = ct\<lparr>ct_udpHeap := (ct_udpHeap ct)[i := uc]\<rparr>
          in (Some r, if r = SendFull then ct1\<lparr>ct_droppedUDP := ct_droppedUDP ct1 + 1\<rparr> else ct1))"

text \<open>\<open>tord\<close> and \<open>uord\<close> are the orders of the ranges over the tables.\<close>

definition GetActiveConnections :: "conn_key list \<Rightarrow> conn_key list \<Rightarrow> conn_tracker \<Rightarrow> conn_meta list" where
  "GetActiveConnections tord uord ct =
     map (\<lambda>k. tc_Meta (ct_tcpHeap ct ! the (ct_tcpConns ct k))) tord @
     map (\<lambda>k. uc_Meta (ct_udpHeap ct ! the (ct_udpConns ct k))) uord"

definition GetTCPStats :: "conn_tracker \<Rightarrow> int \<times> 64 word \<times> 64 word" where
  "GetTCPStats ct = (ct_activeTCP ct, ct_totalTCP ct, ct_droppedTCP ct)"

definition GetUDPStats :: "conn_tracker \<Rightarrow> int \<times> 64 word \<times> 64 word" where
  "GetUDPStats ct = (ct_activeUDP ct, ct_totalUDP ct, ct_droppedUDP ct)"

text \<open>\<open>CloseAll\<close> takes a snapshot of the tables and then removes each session and waits for its relays.  The
  goroutine is the list of what it still has to do; a step returns None where it blocks.\<close>

datatype close_task = RemT nat | OnceT nat | WaitT nat | RemU nat | OnceU nat | WaitU nat

definition CloseAll :: "conn_key list \<Rightarrow> conn_key list \<Rightarrow> conn_tracker \<Rightarrow> close_task list" where
  "CloseAll tord uord ct =
     concat (map (\<lambda>k. case ct_tcpConns ct k of None \<Rightarrow> [] | Some i \<Rightarrow> [RemT i, WaitT i]) tord) @
     concat (map (\<lambda>k. case ct_udpConns ct k of None \<Rightarrow> [] | Some i \<Rightarrow> [RemU i, WaitU i]) uord)"

fun CloseAll_step :: "close_task list \<Rightarrow> conn_tracker \<Rightarrow> (close_task list \<times> conn_tracker) option" where
  "CloseAll_step [] ct = None"
| "CloseAll_step (RemT i # ts) ct =
     (case RemoveTCP_enter (ct_tcpHeap ct ! i) of
        None \<Rightarrow> Some (ts, ct)
      | Some tc \<Rightarrow> Some (OnceT i # ts, ct\<lparr>ct_tcpHeap := (ct_tcpHeap ct)[i := tc]\<rparr>))"
| "CloseAll_step (OnceT i # ts) ct = (if tc_once (ct_tcpHeap ct ! i) = OnceDone then Some (ts, ct) else None)"
| "CloseAll_step (WaitT i # ts) ct = (if tc_relayWG (ct_tcpHeap ct ! i) = 0 then Some (ts, ct) else None)"
| "CloseAll_step (RemU i # ts) ct =
     Some (OnceU i # ts, ct\<lparr>ct_udpHeap := (ct_udpHeap ct)[i := RemoveUDP_enter (ct_udpHeap ct ! i)]\<rparr>)"
| "CloseAll_step (OnceU i # ts) ct = (if uc_once (ct_udpHeap ct ! i) = OnceDone then Some (ts, ct) else None)"
| "CloseAll_step (WaitU i # ts) ct = (if uc_relayWG (ct_udpHeap ct ! i) = 0 then Some (ts, ct) else None)"

text \<open>\<open>Stop\<close> is the same loop, except that before each removal it looks at its context and leaves the loops when
  that is done.  It waits like \<open>CloseAll\<close>, without looking at the context.\<close>

definition Stop_step :: "bool \<Rightarrow> close_task list \<Rightarrow> conn_tracker \<Rightarrow> (close_task list \<times> conn_tracker) option" where
  "Stop_step ctxDone ts ct =
     (case ts of
        RemT i # _ \<Rightarrow> if ctxDone then Some ([], ct) else CloseAll_step ts ct
      | RemU i # _ \<Rightarrow> if ctxDone then Some ([], ct) else CloseAll_step ts ct
      | _ \<Rightarrow> CloseAll_step ts ct)"

text \<open>The score is a float in the code; its arguments are 64-bit integers whose sums wrap.\<close>

definition calculateHealthScore :: "int \<Rightarrow> int \<Rightarrow> int \<Rightarrow> int \<Rightarrow> int \<Rightarrow> int \<Rightarrow> rat" where
  "calculateHealthScore tcpActive tcpTotal tcpDropped udpActive udpTotal udpDropped =
     (let totalSessions = i64 (tcpTotal + udpTotal);
          totalDropped = i64 (tcpDropped + udpDropped)
      in if totalSessions = 0 then 1
         else let health = 1 - of_int totalDropped / of_int totalSessions in if health < 0 then 0 else health)"

definition max64 :: "64 word \<Rightarrow> 64 word \<Rightarrow> 64 word" where
  "max64 a b = (if a > b then a else b)"

record conn_metrics =
  cm_tcp_active :: int
  cm_tcp_total :: "64 word"
  cm_tcp_dropped :: "64 word"
  cm_udp_active :: int
  cm_udp_total :: "64 word"
  cm_udp_dropped :: "64 word"
  cm_total_active :: int
  cm_tcp_dropped_rate :: rat
  cm_udp_dropped_rate :: rat
  cm_health_score :: rat

definition ExportMetrics :: "conn_tracker \<Rightarrow> conn_metrics" where
  "ExportMetrics ct =
     (let (ta, tt, td) = GetTCPStats ct; (ua, ut, ud) = GetUDPStats ct
      in \<lparr>cm_tcp_active = ta, cm_tcp_total = tt, cm_tcp_dropped = td, cm_udp_active = ua, cm_udp_total = ut, cm_udp_dropped = ud,
          cm_total_active = ta + ua,
          cm_tcp_dropped_rate = of_nat (unat td) / of_nat (unat (max64 tt 1)),
          cm_udp_dropped_rate = of_nat (unat ud) / of_nat (unat (max64 ut 1)),
          cm_health_score = calculateHealthScore ta (sint tt) (sint td) ua (sint ut) (sint ud)\<rparr>)"

subsection \<open>Steps of the tracker\<close>

text \<open>A step of a session that leaves the table and the counters alone.\<close>

definition stays :: "once_stage \<Rightarrow> once_stage \<Rightarrow> bool" where
  "stays st st' \<longleftrightarrow> (st = OnceDelete \<or> st = OnceCount \<longrightarrow> st' = st)"

inductive ct_step :: "conn_tracker \<Rightarrow> conn_tracker \<Rightarrow> bool" where
  create_tcp: "ct_step ct (snd (CreateTCP_insert now meta ct))"
| create_udp: "ct_step ct (snd (CreateUDP_insert now meta ct))"
| local_tcp: "i < length (ct_tcpHeap ct) \<Longrightarrow> tcp_step (ct_tcpHeap ct ! i) t \<Longrightarrow> stays (tc_once (ct_tcpHeap ct ! i)) (tc_once t) \<Longrightarrow>
    ct_step ct (ct\<lparr>ct_tcpHeap := (ct_tcpHeap ct)[i := t]\<rparr>)"
| local_udp: "i < length (ct_udpHeap ct) \<Longrightarrow> udp_step (ct_udpHeap ct ! i) t \<Longrightarrow> stays (uc_once (ct_udpHeap ct ! i)) (uc_once t) \<Longrightarrow>
    ct_step ct (ct\<lparr>ct_udpHeap := (ct_udpHeap ct)[i := t]\<rparr>)"
| delete_tcp: "i < length (ct_tcpHeap ct) \<Longrightarrow> tc_once (ct_tcpHeap ct ! i) = OnceDelete \<Longrightarrow> ct_step ct (RemoveTCP_delete i ct)"
| count_tcp: "i < length (ct_tcpHeap ct) \<Longrightarrow> tc_once (ct_tcpHeap ct ! i) = OnceCount \<Longrightarrow> ct_step ct (RemoveTCP_count i ct)"
| delete_udp: "i < length (ct_udpHeap ct) \<Longrightarrow> uc_once (ct_udpHeap ct ! i) = OnceDelete \<Longrightarrow> ct_step ct (RemoveUDP_delete i ct)"
| count_udp: "i < length (ct_udpHeap ct) \<Longrightarrow> uc_once (ct_udpHeap ct ! i) = OnceCount \<Longrightarrow> ct_step ct (RemoveUDP_count i ct)"
| send_tcp: "ct_step ct (snd (TCPSend e srcIP srcPort dstIP dstPort d ct))"
| send_udp: "ct_step ct (snd (UDPSend e srcIP srcPort dstIP dstPort d ct))"

subsection \<open>A table over a heap of sessions\<close>

definition before_delete :: "once_stage \<Rightarrow> bool" where
  "before_delete st \<longleftrightarrow> st \<noteq> OnceCount \<and> st \<noteq> OnceDone"

definition counting :: "('s \<Rightarrow> once_stage) \<Rightarrow> 's list \<Rightarrow> nat" where
  "counting stage heap = length (filter (\<lambda>s. stage s = OnceCount) heap)"

text \<open>The table has exactly the sessions that have not been deleted, each under its own key, and the counter
  is the number of entries and of sessions that have been deleted but not yet counted.\<close>

definition table_ok :: "('s \<Rightarrow> 'k) \<Rightarrow> ('s \<Rightarrow> once_stage) \<Rightarrow> ('k \<rightharpoonup> nat) \<Rightarrow> 's list \<Rightarrow> int \<Rightarrow> bool" where
  "table_ok key stage conns heap active \<longleftrightarrow>
     finite (dom conns) \<and>
     (\<forall>k i. conns k = Some i \<longleftrightarrow> i < length heap \<and> key (heap ! i) = k \<and> before_delete (stage (heap ! i))) \<and>
     active = i32 (int (card (dom conns)) + int (counting stage heap))"

lemma i32_mod: "i32 x = (x + 2 ^ 31) mod 2 ^ 32 - 2 ^ 31"
  by (simp add: i32_def signed_take_bit_eq_take_bit_shift take_bit_eq_mod)

lemma i32_add: "i32 (i32 x + y) = i32 (x + y)"
  by (simp add: i32_mod mod_simps add.assoc add.commute [of y])

lemma i32_diff: "i32 (i32 x - y) = i32 (x - y)"
  using i32_add [of x "- y"] by simp

lemma counting_append [simp]: "counting stage (heap @ [s]) = counting stage heap + (if stage s = OnceCount then 1 else 0)"
  by (simp add: counting_def)

lemma counting_update:
  assumes "i < length heap"
  shows "int (counting stage (heap[i := t])) =
    int (counting stage heap) - (if stage (heap ! i) = OnceCount then 1 else 0) + (if stage t = OnceCount then 1 else 0)"
  using assms
proof (induction heap arbitrary: i)
  case Nil
  then show ?case by simp
next
  case (Cons a heap)
  show ?case
  proof (cases i)
    case 0
    then show ?thesis by (simp add: counting_def)
  next
    case (Suc j)
    then have "int (counting stage (heap[j := t])) =
        int (counting stage heap) - (if stage (heap ! j) = OnceCount then 1 else 0) + (if stage t = OnceCount then 1 else 0)"
      using Cons by simp
    then show ?thesis using Suc by (auto simp: counting_def split: if_split_asm)
  qed
qed

text \<open>The contract of a session towards its table: its steps keep the key and move the removal at most one
  action on.\<close>

locale session_heap =
  fixes key :: "'s \<Rightarrow> 'k"
    and stage :: "'s \<Rightarrow> once_stage"
    and sstep :: "'s \<Rightarrow> 's \<Rightarrow> bool"
  assumes step_key: "sstep s t \<Longrightarrow> key t = key s"
    and step_stage: "sstep s t \<Longrightarrow> stage t = stage s \<or> Suc (once_left (stage t)) = once_left (stage s)"
begin

lemma table_insert:
  assumes "table_ok key stage conns heap active" and "conns (key s) = None" and "stage s = OncePending"
  shows "table_ok key stage (conns(key s \<mapsto> length heap)) (heap @ [s]) (i32 (active + 1))"
proof -
  have fin: "finite (dom conns)" and act: "active = i32 (int (card (dom conns)) + int (counting stage heap))"
    and ix: "conns k = Some i \<longleftrightarrow> i < length heap \<and> key (heap ! i) = k \<and> before_delete (stage (heap ! i))" for k i
    using assms(1) by (simp_all add: table_ok_def)
  have "card (dom (conns(key s \<mapsto> length heap))) = Suc (card (dom conns))"
    using fin assms(2) card_dom_upd [of conns "key s" "length heap"] by simp
  then have "i32 (active + 1) = i32 (int (card (dom (conns(key s \<mapsto> length heap)))) + int (counting stage (heap @ [s])))"
    using assms(3) i32_add [of _ 1] by (simp add: act ac_simps)
  moreover have "(conns(key s \<mapsto> length heap)) k = Some i \<longleftrightarrow>
      i < length (heap @ [s]) \<and> key ((heap @ [s]) ! i) = k \<and> before_delete (stage ((heap @ [s]) ! i))" for k i
    using ix [of "key s" i] ix [of k i] assms(2,3) by (auto simp: nth_append before_delete_def less_Suc_eq)
  ultimately show ?thesis using fin by (simp add: table_ok_def)
qed

lemma table_reject:
  assumes "table_ok key stage conns heap active" and "stage s = OnceDone"
  shows "table_ok key stage conns (heap @ [s]) active"
  using assms by (auto simp: table_ok_def before_delete_def nth_append less_Suc_eq)

lemma table_change:
  assumes "table_ok key stage conns heap active" and "i < length heap" and "key t = key (heap ! i)"
    and "before_delete (stage t) = before_delete (stage (heap ! i))" and "stage t = OnceCount \<longleftrightarrow> stage (heap ! i) = OnceCount"
  shows "table_ok key stage conns (heap[i := t]) active"
  using assms counting_update [OF assms(2), of stage t]
  by (auto simp: table_ok_def nth_list_update)

lemma table_local:
  assumes "table_ok key stage conns heap active" and "i < length heap" and "sstep (heap ! i) t"
    and "stays (stage (heap ! i)) (stage t)"
  shows "table_ok key stage conns (heap[i := t]) active"
proof (rule table_change [OF assms(1,2) step_key [OF assms(3)]])
  have "stage t = stage (heap ! i) \<or> before_delete (stage t) \<and> before_delete (stage (heap ! i))"
    using step_stage [OF assms(3)] assms(4)
    by (cases "stage (heap ! i)"; cases "stage t") (simp_all add: stays_def before_delete_def)
  then show "before_delete (stage t) = before_delete (stage (heap ! i))" "stage t = OnceCount \<longleftrightarrow> stage (heap ! i) = OnceCount"
    by (auto simp: before_delete_def)
qed

lemma table_delete:
  assumes "table_ok key stage conns heap active" and "i < length heap" and "stage (heap ! i) = OnceDelete"
    and "key t = key (heap ! i)" and "stage t = OnceCount"
  shows "table_ok key stage (conns(key (heap ! i) := None)) (heap[i := t]) active"
proof -
  have fin: "finite (dom conns)" and act: "active = i32 (int (card (dom conns)) + int (counting stage heap))"
    and ix: "conns k = Some j \<longleftrightarrow> j < length heap \<and> key (heap ! j) = k \<and> before_delete (stage (heap ! j))" for k j
    using assms(1) by (simp_all add: table_ok_def)
  let ?k = "key (heap ! i)"
  have i: "conns ?k = Some i" using ix assms(2,3) by (simp add: before_delete_def)
  have "card (dom (conns(?k := None))) = card (dom conns) - 1" "0 < card (dom conns)"
    using fin card_dom_pos [OF fin i] card_dom_del [OF fin, of ?k] by (simp_all only: i option.distinct if_False)
  moreover have "int (counting stage (heap[i := t])) = int (counting stage heap) + 1"
    using counting_update [OF assms(2), of stage t] assms(3,5) by simp
  ultimately have "active = i32 (int (card (dom (conns(?k := None)))) + int (counting stage (heap[i := t])))"
    by (simp only: act) (simp add: of_nat_diff)
  moreover have "(conns(?k := None)) k = Some j \<longleftrightarrow>
      j < length (heap[i := t]) \<and> key (heap[i := t] ! j) = k \<and> before_delete (stage (heap[i := t] ! j))" for k j
    using ix [of k j] i assms(2,4,5) by (auto simp: nth_list_update before_delete_def)
  ultimately show ?thesis using fin by (simp add: table_ok_def)
qed

lemma table_count:
  assumes "table_ok key stage conns heap active" and "i < length heap" and "stage (heap ! i) = OnceCount"
    and "key t = key (heap ! i)" and "stage t = OnceDone"
  shows "table_ok key stage conns (heap[i := t]) (i32 (active - 1))"
proof -
  have "int (counting stage (heap[i := t])) = int (counting stage heap) - 1"
    using counting_update [OF assms(2), of stage t] assms(3,5) by simp
  then show ?thesis
    using assms by (auto simp: table_ok_def before_delete_def nth_list_update i32_diff add_diff_eq)
qed

end

subsection \<open>Both kinds of sessions keep the contract\<close>

definition once_moves :: "once_stage \<Rightarrow> once_stage \<Rightarrow> bool" where
  "once_moves st st' \<longleftrightarrow> st' = st \<or> Suc (once_left st') = once_left st"

lemma once_moves_refl [simp]: "once_moves st st"
  by (simp add: once_moves_def)

lemma RemoveTCP_enter_moves: "RemoveTCP_enter s = Some t \<Longrightarrow> tc_Meta t = tc_Meta s \<and> once_moves (tc_once s) (tc_once t)"
  by (erule RemoveTCP_enter_cases) (simp_all add: once_moves_def)

lemma tcp_step_moves:
  assumes "tcp_step s t"
  shows "tc_Meta t = tc_Meta s \<and> once_moves (tc_once s) (tc_once t)"
  using assms
proof (cases rule: tcp_step_cases)
  case (sender e)
  then show ?thesis by (cases rule: relayToProxy_cases) (simp_all add: RemoveTCP_enter_moves)
next
  case (receiver e)
  then show ?thesis by (cases rule: relayFromProxy_cases) simp_all
next
  case (uplink e)
  then show ?thesis by (cases rule: HandleTCP_uplink_cases) simp_all
next
  case (downlink e)
  then show ?thesis by (cases rule: HandleTCP_downlink_cases) (simp_all add: RemoveTCP_enter_moves)
next
  case (tsend e d r)
  then show ?thesis by (cases rule: TCPSend_cases) simp_all
next
  case remove
  then show ?thesis by (rule RemoveTCP_enter_moves)
next
  case body
  then show ?thesis by (cases "tc_once s") (auto simp: once_moves_def)
qed simp_all

definition udp_moves :: "udp_session \<Rightarrow> udp_session \<Rightarrow> bool" where
  "udp_moves s t \<longleftrightarrow> uc_Meta t = uc_Meta s \<and> once_moves (uc_once s) (uc_once t)"

lemma udp_moves_enter: "udp_moves s (RemoveUDP_enter s)"
  by (simp add: udp_moves_def RemoveUDP_enter_def once_moves_def)

lemma udp_moves_sender:
  assumes "relayUDPPackets e s = Some t"
  shows "udp_moves s t"
proof (cases "uc_sender s")
  case US_Off
  then have "relayUDPPackets e s = None" by (simp add: relayUDPPackets_def dialUDPProxy_def)
  with assms show ?thesis by simp
next
  case (US_Write d c)
  then show ?thesis
    using assms by (cases c) (auto simp: relayUDPPackets_def dialUDPProxy_def udp_moves_def split: sum.split_asm)
next
  case US_Remove
  then show ?thesis using assms udp_moves_enter [of s] by (auto simp: relayUDPPackets_def dialUDPProxy_def udp_moves_def)
qed (use assms in \<open>auto simp: relayUDPPackets_def dialUDPProxy_def udp_moves_def
      split: if_split_asm sum.split_asm option.split_asm recv_result.split_asm\<close>)

lemma udp_moves_reader:
  assumes "readUDPFromProxy e s = Some t"
  shows "udp_moves s t"
  using assms udp_moves_enter [of s]
  by (cases "uc_reader s")
    (auto simp: readUDPFromProxy_def udp_moves_def Let_def split: if_split_asm sum.split_asm option.split_asm send_result.split_asm)

lemma udp_moves_uplink: "HandleUDP_uplink h e p s = Some (q, t) \<Longrightarrow> udp_moves s t"
  by (cases p) (auto simp: HandleUDP_uplink_def udp_moves_def Let_def split: if_split_asm sum.split_asm send_result.split_asm)

lemma udp_moves_downlink: "HandleUDP_downlink e p s = Some (q, t) \<Longrightarrow> udp_moves s t"
  using udp_moves_enter [of s]
  by (cases p) (auto simp: HandleUDP_downlink_def udp_moves_def split: if_split_asm sum.split_asm recv_result.split_asm)

lemma udp_moves_body: "RemoveUDP_body s = Some t \<Longrightarrow> udp_moves s t"
  by (cases "uc_once s") (auto simp: udp_moves_def once_moves_def)

lemma udp_moves_send: "UDPSend_select e d s = (r, t) \<Longrightarrow> udp_moves s t"
  by (auto simp: UDPSend_select_def udp_moves_def split: if_split_asm send_result.split_asm)

lemma udp_step_moves: "udp_step s t \<Longrightarrow> udp_moves s t"
proof (induction rule: udp_step.induct)
  case (spawn s t)
  then show ?case by (auto simp: spawn_udp_relay_def udp_moves_def split: if_split_asm)
next
  case (pumps s)
  then show ?case by (simp add: start_udp_pumps_def udp_moves_def)
next
  case (uplink j s hijack e p t)
  then show ?case using udp_moves_uplink [OF uplink(2)] by (simp add: udp_moves_def)
next
  case (downlink j s e p t)
  then show ?case using udp_moves_downlink [OF downlink(2)] by (simp add: udp_moves_def)
qed (auto intro: udp_moves_sender udp_moves_reader udp_moves_send udp_moves_enter udp_moves_body simp del: RemoveUDP_body.simps)

interpretation tcpheap: session_heap tcp_key_of tc_once tcp_step
  by unfold_locales (auto simp: tcp_key_of_def once_moves_def dest: tcp_step_moves)

interpretation udpheap: session_heap udp_key_of uc_once udp_step
  by unfold_locales (auto simp: udp_key_of_def once_moves_def udp_moves_def dest: udp_step_moves)

subsection \<open>The invariant of the tracker\<close>

definition ct_inv :: "conn_tracker \<Rightarrow> bool" where
  "ct_inv ct \<longleftrightarrow>
     table_ok tcp_key_of tc_once (ct_tcpConns ct) (ct_tcpHeap ct) (ct_activeTCP ct) \<and>
     table_ok udp_key_of uc_once (ct_udpConns ct) (ct_udpHeap ct) (ct_activeUDP ct)"

lemma key_of_once [simp]:
  "tcp_key_of (s\<lparr>tc_once := st\<rparr>) = tcp_key_of s" "udp_key_of (u\<lparr>uc_once := st\<rparr>) = udp_key_of u"
  by (simp_all add: tcp_key_of_def udp_key_of_def)

lemma new_TCP_fields [simp]:
  "tc_once (new_TCPConn now meta) = OncePending" "tc_once (discard_TCPConn s) = OnceDone"
  "tcp_key_of (new_TCPConn now meta) = tcpKey (SourceIP meta) (SourcePort meta) (DestIP meta) (DestPort meta)"
  by (simp_all add: new_TCPConn_def discard_TCPConn_def tcp_key_of_def)

lemma new_UDP_fields [simp]:
  "uc_once (new_UDPConn now meta) = OncePending" "uc_once (discard_UDPConn s) = OnceDone"
  "udp_key_of (new_UDPConn now meta) = udpKey (SourceIP meta) (SourcePort meta) (DestIP meta) (DestPort meta)"
  by (simp_all add: new_UDPConn_def discard_UDPConn_def udp_key_of_def)

lemma ct_inv_CreateTCP: "ct_inv ct \<Longrightarrow> ct_inv (snd (CreateTCP_insert now meta ct))"
  using tcpheap.table_insert [of "ct_tcpConns ct" "ct_tcpHeap ct" "ct_activeTCP ct" "new_TCPConn now meta"]
    tcpheap.table_reject [of "ct_tcpConns ct" "ct_tcpHeap ct" "ct_activeTCP ct" "discard_TCPConn (new_TCPConn now meta)"]
  by (simp add: ct_inv_def CreateTCP_insert_def Let_def)

lemma ct_inv_CreateUDP: "ct_inv ct \<Longrightarrow> ct_inv (snd (CreateUDP_insert now meta ct))"
  using udpheap.table_insert [of "ct_udpConns ct" "ct_udpHeap ct" "ct_activeUDP ct" "new_UDPConn now meta"]
    udpheap.table_reject [of "ct_udpConns ct" "ct_udpHeap ct" "ct_activeUDP ct" "discard_UDPConn (new_UDPConn now meta)"]
  by (simp add: ct_inv_def CreateUDP_insert_def Let_def)

lemma ct_inv_TCPSend:
  assumes "ct_inv ct"
  shows "ct_inv (snd (TCPSend e srcIP srcPort dstIP dstPort d ct))"
proof (cases "GetTCP srcIP srcPort dstIP dstPort ct")
  case None
  then show ?thesis using assms by (simp add: TCPSend_def)
next
  case (Some i)
  obtain r tc where r: "TCPSend_select e d (ct_tcpHeap ct ! i) = (r, tc)" by fastforce
  have i: "i < length (ct_tcpHeap ct)" using assms Some by (auto simp: ct_inv_def table_ok_def GetTCP_def)
  have "tc_once tc = tc_once (ct_tcpHeap ct ! i)" using r by (cases rule: TCPSend_cases) simp_all
  then have "table_ok tcp_key_of tc_once (ct_tcpConns ct) ((ct_tcpHeap ct)[i := tc]) (ct_activeTCP ct)"
    using assms i tcpheap.table_local [OF _ i tcp_step.tsend [OF r]] by (simp add: ct_inv_def stays_def)
  then show ?thesis using assms Some r by (simp add: TCPSend_def ct_inv_def Let_def)
qed

lemma ct_inv_UDPSend:
  assumes "ct_inv ct"
  shows "ct_inv (snd (UDPSend e srcIP srcPort dstIP dstPort d ct))"
proof (cases "GetUDP srcIP srcPort dstIP dstPort ct")
  case None
  then show ?thesis using assms by (simp add: UDPSend_def)
next
  case (Some i)
  obtain r uc where r: "UDPSend_select e d (ct_udpHeap ct ! i) = (r, uc)" by fastforce
  have i: "i < length (ct_udpHeap ct)" using assms Some by (auto simp: ct_inv_def table_ok_def GetUDP_def)
  have "uc_once uc = uc_once (ct_udpHeap ct ! i)"
    using r by (auto simp: UDPSend_select_def split: if_split_asm send_result.split_asm)
  then have "table_ok udp_key_of uc_once (ct_udpConns ct) ((ct_udpHeap ct)[i := uc]) (ct_activeUDP ct)"
    using assms i udpheap.table_local [OF _ i udp_step.usend [OF r]] by (simp add: ct_inv_def stays_def)
  then show ?thesis using assms Some r by (simp add: UDPSend_def ct_inv_def Let_def)
qed

lemma ct_step_inv: "ct_step ct ct' \<Longrightarrow> ct_inv ct \<Longrightarrow> ct_inv ct'"
proof (induction rule: ct_step.induct)
  case (local_tcp i ct t)
  then show ?case by (simp add: ct_inv_def tcpheap.table_local)
next
  case (local_udp i ct t)
  then show ?case by (simp add: ct_inv_def udpheap.table_local)
next
  case (delete_tcp i ct)
  then show ?case
    by (simp add: ct_inv_def RemoveTCP_delete_def Let_def tcpheap.table_delete)
next
  case (count_tcp i ct)
  then show ?case
    by (simp add: ct_inv_def RemoveTCP_count_def Let_def tcpheap.table_count)
next
  case (delete_udp i ct)
  then show ?case
    by (simp add: ct_inv_def RemoveUDP_delete_def Let_def udpheap.table_delete)
next
  case (count_udp i ct)
  then show ?case
    by (simp add: ct_inv_def RemoveUDP_count_def Let_def udpheap.table_count)
qed (simp_all add: ct_inv_CreateTCP ct_inv_CreateUDP ct_inv_TCPSend ct_inv_UDPSend)

interpretation ctsys: invariant_system "\<lambda>ct. ct = NewConnTracker" ct_step ct_inv
proof unfold_locales
  show "ct_inv ct" if "ct = NewConnTracker" for ct
    using that by (simp add: NewConnTracker_def ct_inv_def table_ok_def counting_def)
qed (rule ct_step_inv)

subsection \<open>Properties\<close>

text \<open>C4. The tables are exact in every reachable state, over all interleavings of creations, sends, relays and
  removals: a key is mapped to a session exactly when the session has that key and has not been deleted,
  so that no removal ever deletes the entry of another session; and when no removal is between its last
  two actions, the counters of active sessions are the numbers of entries (as 32-bit integers).\<close>

theorem tracker_tables_exact:
  assumes "ct_step\<^sup>*\<^sup>* NewConnTracker ct"
  shows "(\<forall>k i. ct_tcpConns ct k = Some i \<longleftrightarrow>
      i < length (ct_tcpHeap ct) \<and> tcp_key_of (ct_tcpHeap ct ! i) = k \<and> before_delete (tc_once (ct_tcpHeap ct ! i))) \<and>
    (\<forall>k i. ct_udpConns ct k = Some i \<longleftrightarrow>
      i < length (ct_udpHeap ct) \<and> udp_key_of (ct_udpHeap ct ! i) = k \<and> before_delete (uc_once (ct_udpHeap ct ! i))) \<and>
    (counting tc_once (ct_tcpHeap ct) = 0 \<longrightarrow> ct_activeTCP ct = i32 (int (card (dom (ct_tcpConns ct))))) \<and>
    (counting uc_once (ct_udpHeap ct) = 0 \<longrightarrow> ct_activeUDP ct = i32 (int (card (dom (ct_udpConns ct)))))"
proof -
  have "ct_inv ct" using ctsys.run_inv assms by blast
  then show ?thesis by (simp add: ct_inv_def table_ok_def)
qed

theorem tracker_tables_exact_witness:
  "\<exists>ct. ct_step\<^sup>*\<^sup>* NewConnTracker ct \<and> ct_activeTCP ct = 1 \<and>
     (\<forall>k i. ct_tcpConns ct k = Some i \<longrightarrow> tcp_key_of (ct_tcpHeap ct ! i) = k)"
proof -
  let ?ct = "snd (CreateTCP_insert 0 example_meta NewConnTracker)"
  have r: "ct_step\<^sup>*\<^sup>* NewConnTracker ?ct" using ct_step.create_tcp by (rule r_into_rtranclp)
  have "counting tc_once (ct_tcpHeap ?ct) = 0" "card (dom (ct_tcpConns ?ct)) = 1"
    by (simp_all add: CreateTCP_insert_def NewConnTracker_def Let_def counting_def)
  with tracker_tables_exact [OF r] have "ct_activeTCP ?ct = 1" by simp
  with tracker_tables_exact [OF r] r show ?thesis by blast
qed

text \<open>Steps of one session as steps of the tracker.\<close>

lemma once_left_mono: "once_moves st st' \<Longrightarrow> once_left st' \<le> once_left st"
  by (auto simp: once_moves_def)

lemma tcp_steps_left: "tcp_step\<^sup>*\<^sup>* s t \<Longrightarrow> once_left (tc_once t) \<le> once_left (tc_once s)"
proof (induction rule: rtranclp_induct)
  case (step y z)
  then show ?case using tcp_step_moves [of y z] once_left_mono le_trans by blast
qed simp

lemma stays_early:
  assumes "once_moves st st'" and "2 \<le> once_left st'"
  shows "stays st st'"
  using assms by (cases st; cases st') (simp_all add: stays_def once_moves_def)

lemma lift_tcp_steps:
  assumes "tcp_step\<^sup>*\<^sup>* s t" and "2 \<le> once_left (tc_once t)" and "i < length (ct_tcpHeap ct)" and "ct_tcpHeap ct ! i = s"
  shows "ct_step\<^sup>*\<^sup>* ct (ct\<lparr>ct_tcpHeap := (ct_tcpHeap ct)[i := t]\<rparr>)"
  using assms
proof (induction arbitrary: ct rule: converse_rtranclp_induct)
  case base
  then have "(ct_tcpHeap ct)[i := t] = ct_tcpHeap ct" by (metis list_update_id)
  then show ?case by simp
next
  case (step s s1)
  have "stays (tc_once s) (tc_once s1)"
    using tcp_step_moves [OF step(1)] tcp_steps_left [OF step(2)] step.prems(1) by (intro stays_early) auto
  then have first: "ct_step ct (ct\<lparr>ct_tcpHeap := (ct_tcpHeap ct)[i := s1]\<rparr>)"
    using step(1) step.prems by (intro ct_step.local_tcp) simp_all
  let ?ct1 = "ct\<lparr>ct_tcpHeap := (ct_tcpHeap ct)[i := s1]\<rparr>"
  have "ct_step\<^sup>*\<^sup>* ?ct1 (?ct1\<lparr>ct_tcpHeap := (ct_tcpHeap ?ct1)[i := t]\<rparr>)" using step.IH [of ?ct1] step.prems by simp
  with first show ?case by (simp add: converse_rtranclp_into_rtranclp)
qed

text \<open>C40. A send can panic: the removal closes the channel before it takes the session out of the table, so that
  there are reachable states in which \<open>TCPSend\<close> finds the session, takes the send case of its \<open>select\<close> and
  sends on a closed channel.\<close>

theorem send_during_removal_panics:
  fixes meta :: conn_meta
  shows "\<exists>ct. ct_step\<^sup>*\<^sup>* NewConnTracker ct \<and>
     GetTCP (SourceIP meta) (SourcePort meta) (DestIP meta) (DestPort meta) ct = Some 0 \<and>
     fst (TCPSend (io_data d) (SourceIP meta) (SourcePort meta) (DestIP meta) (DestPort meta) d ct) = Some SendPanic"
proof -
  let ?s = "new_TCPConn now meta" and ?k = "tcpKey (SourceIP meta) (SourcePort meta) (DestIP meta) (DestPort meta)"
  have "\<exists>t. tcp_exec (ARemove # replicate 6 ABody) ?s = Some t \<and> tc_once t = OnceDelete \<and> ch_closed (tc_ToProxy t)"
    by (simp add: tcp_run_simps)
  then obtain t where t: "tcp_step\<^sup>*\<^sup>* ?s t" "tc_once t = OnceDelete" "ch_closed (tc_ToProxy t)"
    using tcp_exec_steps by blast
  let ?ct = "snd (CreateTCP_insert now meta NewConnTracker)"
  have ct: "ct_tcpHeap ?ct = [?s]" "ct_tcpConns ?ct = [?k \<mapsto> 0]"
    by (simp_all add: CreateTCP_insert_def NewConnTracker_def Let_def)
  have "ct_step\<^sup>*\<^sup>* ?ct (?ct\<lparr>ct_tcpHeap := (ct_tcpHeap ?ct)[0 := t]\<rparr>)"
    by (rule lift_tcp_steps [OF t(1)]) (simp_all add: t(2) ct)
  then have "ct_step\<^sup>*\<^sup>* NewConnTracker (?ct\<lparr>ct_tcpHeap := [t]\<rparr>)"
    using ct_step.create_tcp [of NewConnTracker now meta] ct(1) by (simp add: converse_rtranclp_into_rtranclp)
  moreover have "TCPSend_select (io_data d) d t = (SendPanic, t)"
    using t(3) by (simp add: TCPSend_select_def io_data_def chan_send_def)
  ultimately show ?thesis
    using ct by (intro exI [of _ "?ct\<lparr>ct_tcpHeap := [t]\<rparr>"])
      (simp add: TCPSend_def GetTCP_def Let_def)
qed

text \<open>Addresses that differ only in being written as IPv4 or as IPv4-mapped IPv6 share a key: the second session is
  refused.\<close>

lemma mapped_address_collides:
  assumes "ct_tcpConns ct (tcpKey (Addr4 bs) p dst q) \<noteq> None" and "SourceIP meta = Addr6 (v4InV6Prefix @ bs) z"
    and "SourcePort meta = p" and "DestIP meta = dst" and "DestPort meta = q"
  shows "fst (CreateTCP now meta ct) = None"
  using assms by (auto simp: CreateTCP_def CreateTCP_insert_def tcpKey_def newConnKey_def Let_def)

subsection \<open>Shutdown\<close>

text \<open>\<open>CloseAll\<close> together with everything else that runs.\<close>

inductive closing_step :: "close_task list \<times> conn_tracker \<Rightarrow> close_task list \<times> conn_tracker \<Rightarrow> bool" where
  others: "ct_step ct ct' \<Longrightarrow> closing_step (ts, ct) (ts, ct')"
| closer: "CloseAll_step ts ct = Some (ts', ct') \<Longrightarrow> closing_step (ts, ct) (ts', ct')"

text \<open>What the rest of the tracker may do to a UDP session.\<close>

definition udp_evolves :: "udp_session \<Rightarrow> udp_session \<Rightarrow> bool" where
  "udp_evolves s t \<longleftrightarrow> (udp_group s \<longrightarrow> udp_group t) \<and> (uc_reader s \<noteq> UR_Off \<longrightarrow> uc_reader t \<noteq> UR_Off)"

lemma udp_evolves_refl [simp]: "udp_evolves s s"
  by (simp add: udp_evolves_def)

lemma udp_evolves_step: "udp_step s t \<Longrightarrow> udp_group s \<Longrightarrow> udp_evolves s t"
  using udp_group_step by (auto simp: udp_evolves_def)

lemma udp_evolves_once [simp]: "udp_evolves s (s\<lparr>uc_once := st\<rparr>)"
  by (simp add: udp_evolves_def udp_group_def)

lemma udp_group_new [simp]: "udp_group (new_UDPConn now meta)" "udp_group (discard_UDPConn (new_UDPConn now meta))"
  by (simp_all add: udp_group_def new_UDPConn_def discard_UDPConn_def ur_started_def)

definition groups_ok :: "conn_tracker \<Rightarrow> bool" where
  "groups_ok ct \<longleftrightarrow> (\<forall>s \<in> set (ct_udpHeap ct). udp_group s)"

definition heap_evolves :: "conn_tracker \<Rightarrow> conn_tracker \<Rightarrow> bool" where
  "heap_evolves ct ct' \<longleftrightarrow> groups_ok ct' \<and> length (ct_udpHeap ct) \<le> length (ct_udpHeap ct') \<and>
     (\<forall>j < length (ct_udpHeap ct). udp_evolves (ct_udpHeap ct ! j) (ct_udpHeap ct' ! j))"

lemma heap_evolves_same: "groups_ok ct \<Longrightarrow> ct_udpHeap ct' = ct_udpHeap ct \<Longrightarrow> heap_evolves ct ct'"
  by (simp add: heap_evolves_def groups_ok_def)

lemma heap_evolves_append:
  "groups_ok ct \<Longrightarrow> udp_group s \<Longrightarrow> ct_udpHeap ct' = ct_udpHeap ct @ [s] \<Longrightarrow> heap_evolves ct ct'"
  by (auto simp: heap_evolves_def groups_ok_def nth_append)

lemma heap_evolves_update:
  assumes "groups_ok ct" and "i < length (ct_udpHeap ct)" and "udp_evolves (ct_udpHeap ct ! i) t"
    and "ct_udpHeap ct' = (ct_udpHeap ct)[i := t]"
  shows "heap_evolves ct ct'"
proof -
  have "udp_group t" using assms by (auto simp: groups_ok_def udp_evolves_def)
  then show ?thesis
    using assms set_update_subset_insert [of "ct_udpHeap ct" i t] by (auto simp: heap_evolves_def groups_ok_def nth_list_update)
qed

lemma udp_index: "ct_inv ct \<Longrightarrow> ct_udpConns ct k = Some i \<Longrightarrow> i < length (ct_udpHeap ct)"
  by (auto simp: ct_inv_def table_ok_def)

lemma ct_step_evolves: "ct_step ct ct' \<Longrightarrow> ct_inv ct \<Longrightarrow> groups_ok ct \<Longrightarrow> heap_evolves ct ct'"
proof (induction rule: ct_step.induct)
  case (create_udp ct now meta)
  have "\<exists>s. udp_group s \<and> ct_udpHeap (snd (CreateUDP_insert now meta ct)) = ct_udpHeap ct @ [s]"
    by (simp add: CreateUDP_insert_def Let_def)
  then show ?case using create_udp heap_evolves_append by blast
next
  case (local_udp i ct t)
  have "udp_group (ct_udpHeap ct ! i)" using local_udp by (simp add: groups_ok_def)
  then show ?case using local_udp udp_evolves_step by (intro heap_evolves_update [of ct i t]) simp_all
next
  case (delete_udp i ct)
  then show ?case by (intro heap_evolves_update [of ct i]) (simp_all add: RemoveUDP_delete_def Let_def)
next
  case (count_udp i ct)
  then show ?case by (intro heap_evolves_update [of ct i]) (simp_all add: RemoveUDP_count_def Let_def)
next
  case (send_udp ct e srcIP srcPort dstIP dstPort d)
  show ?case
  proof (cases "GetUDP srcIP srcPort dstIP dstPort ct")
    case None
    then show ?thesis using send_udp by (intro heap_evolves_same) (simp_all add: UDPSend_def)
  next
    case (Some i)
    obtain r uc where r: "UDPSend_select e d (ct_udpHeap ct ! i) = (r, uc)" by fastforce
    have i: "i < length (ct_udpHeap ct)" using udp_index [OF send_udp(1)] Some by (simp add: GetUDP_def)
    then have "udp_evolves (ct_udpHeap ct ! i) uc"
      using udp_evolves_step [OF udp_step.usend [OF r]] send_udp(2) by (simp add: groups_ok_def)
    then show ?thesis using i Some r send_udp(2) by (intro heap_evolves_update [of ct i uc]) (simp_all add: UDPSend_def Let_def)
  qed
qed (auto intro!: heap_evolves_same simp: CreateTCP_insert_def RemoveTCP_delete_def RemoveTCP_count_def TCPSend_def Let_def
      split: option.split prod.split)

definition hangs :: "nat \<Rightarrow> close_task list \<times> conn_tracker \<Rightarrow> bool" where
  "hangs j c \<longleftrightarrow> WaitU j \<in> set (fst c) \<and> ct_inv (snd c) \<and> groups_ok (snd c) \<and> j < length (ct_udpHeap (snd c)) \<and>
     uc_reader (ct_udpHeap (snd c) ! j) \<noteq> UR_Off"

lemma closer_is_step:
  assumes "CloseAll_step ts ct = Some (ts', ct')"
  shows "ct' = ct \<or> ct_step ct ct'"
  using assms
proof (cases rule: CloseAll_step.elims)
  case (2 i us)
  show ?thesis
  proof (cases "RemoveTCP_enter (ct_tcpHeap ct ! i)")
    case None
    then show ?thesis using 2 by simp
  next
    case (Some tc)
    have "stays (tc_once (ct_tcpHeap ct ! i)) (tc_once tc)"
      using Some by (cases rule: RemoveTCP_enter_cases) (simp_all add: stays_def)
    then show ?thesis
      using 2 Some ct_step.local_tcp [OF _ tcp_step.remove [OF Some]] by (cases "i < length (ct_tcpHeap ct)") (simp_all add: list_update_beyond)
  qed
next
  case (5 i us)
  have "stays (uc_once (ct_udpHeap ct ! i)) (uc_once (RemoveUDP_enter (ct_udpHeap ct ! i)))"
    by (simp add: stays_def RemoveUDP_enter_def)
  then show ?thesis
    using 5 ct_step.local_udp [OF _ udp_step.remove] by (cases "i < length (ct_udpHeap ct)") (simp_all add: list_update_beyond)
qed (simp_all split: if_split_asm)

lemma closer_keeps_task:
  assumes "CloseAll_step ts ct = Some (ts', ct')" and "WaitU j \<in> set ts" and "uc_relayWG (ct_udpHeap ct ! j) \<noteq> 0"
  shows "WaitU j \<in> set ts'"
  using assms by (cases rule: CloseAll_step.elims) (auto split: if_split_asm option.split_asm)

lemma hangs_ct_step:
  assumes "hangs j (ts, ct)" and "ct' = ct \<or> ct_step ct ct'" and "WaitU j \<in> set ts'"
  shows "hangs j (ts', ct')"
proof (cases "ct' = ct")
  case False
  then have st: "ct_step ct ct'" using assms(2) by simp
  have "heap_evolves ct ct'" "ct_inv ct'" using assms(1) ct_step_evolves [OF st] ct_step_inv [OF st] by (simp_all add: hangs_def)
  then show ?thesis using assms(1,3) by (auto simp: hangs_def heap_evolves_def udp_evolves_def)
qed (use assms in \<open>simp add: hangs_def\<close>)

lemma hangs_step: "closing_step c c' \<Longrightarrow> hangs j c \<Longrightarrow> hangs j c'"
proof (induction rule: closing_step.induct)
  case (others ct ct' ts)
  then show ?case using hangs_ct_step [OF others(2), of ct' ts] by (simp add: hangs_def)
next
  case (closer ts ct ts' ct')
  have "udp_group (ct_udpHeap ct ! j)" using closer(2) by (simp add: hangs_def groups_ok_def)
  then have "uc_relayWG (ct_udpHeap ct ! j) \<noteq> 0"
    using closer(2) us_live_nonneg [of "uc_sender (ct_udpHeap ct ! j)"] by (auto simp: hangs_def udp_group_def ur_started_def)
  with closer have "WaitU j \<in> set ts'" using closer_keeps_task by (simp add: hangs_def)
  then show ?case using hangs_ct_step [OF closer(2) closer_is_step [OF closer(1)]] by simp
qed

interpretation hangsys: invariant_system "hangs j" closing_step "hangs j" for j
  by unfold_locales (auto intro: hangs_step)

definition ct_inv2 :: "conn_tracker \<Rightarrow> bool" where
  "ct_inv2 ct \<longleftrightarrow> ct_inv ct \<and> groups_ok ct"

interpretation ctgroups: invariant_system "\<lambda>ct. ct = NewConnTracker" ct_step ct_inv2
proof unfold_locales
  show "ct_inv2 ct" if "ct = NewConnTracker" for ct
    using that ctsys.init_inv by (simp add: ct_inv2_def groups_ok_def NewConnTracker_def)
  show "ct_inv2 t" if "ct_inv2 s" "ct_step s t" for s t
    using that ct_step_inv ct_step_evolves by (auto simp: ct_inv2_def heap_evolves_def)
qed

text \<open>C10. \<open>CloseAll\<close> never returns when a tracked UDP session has reached its proxy: whatever the relays, the
  pumps and the other goroutines do meanwhile, its wait for that session is never over.\<close>

theorem close_all_never_returns:
  assumes "ct_step\<^sup>*\<^sup>* NewConnTracker ct" and "ct_udpConns ct k = Some j" and "k \<in> set uord"
    and "uc_reader (ct_udpHeap ct ! j) \<noteq> UR_Off"
    and "closing_step\<^sup>*\<^sup>* (CloseAll tord uord ct, ct) (ts, ct')"
  shows "ts \<noteq> [] \<and> WaitU j \<in> set ts"
proof -
  have inv: "ct_inv2 ct" using ctgroups.run_inv assms(1) by blast
  have "WaitU j \<in> set (CloseAll tord uord ct)" using assms(2,3) by (force simp: CloseAll_def)
  then have "hangs j (CloseAll tord uord ct, ct)"
    using inv assms(2,4) udp_index by (auto simp: hangs_def ct_inv2_def)
  then have "hangs j (ts, ct')" by (rule hangsys.steps_inv [OF assms(5)])
  then show ?thesis by (auto simp: hangs_def)
qed

lemma udp_steps_left: "udp_step\<^sup>*\<^sup>* s t \<Longrightarrow> once_left (uc_once t) \<le> once_left (uc_once s)"
proof (induction rule: rtranclp_induct)
  case (step y z)
  then show ?case using udp_step_moves [of y z] once_left_mono le_trans unfolding udp_moves_def by blast
qed simp

lemma lift_udp_steps:
  assumes "udp_step\<^sup>*\<^sup>* s t" and "2 \<le> once_left (uc_once t)" and "i < length (ct_udpHeap ct)" and "ct_udpHeap ct ! i = s"
  shows "ct_step\<^sup>*\<^sup>* ct (ct\<lparr>ct_udpHeap := (ct_udpHeap ct)[i := t]\<rparr>)"
  using assms
proof (induction arbitrary: ct rule: converse_rtranclp_induct)
  case base
  then have "(ct_udpHeap ct)[i := t] = ct_udpHeap ct" by (metis list_update_id)
  then show ?case by simp
next
  case (step s s1)
  have "stays (uc_once s) (uc_once s1)"
    using udp_step_moves [OF step(1)] udp_steps_left [OF step(2)] step.prems(1) unfolding udp_moves_def by (intro stays_early) auto
  then have first: "ct_step ct (ct\<lparr>ct_udpHeap := (ct_udpHeap ct)[i := s1]\<rparr>)"
    using step(1) step.prems by (intro ct_step.local_udp) simp_all
  let ?ct1 = "ct\<lparr>ct_udpHeap := (ct_udpHeap ct)[i := s1]\<rparr>"
  have "ct_step\<^sup>*\<^sup>* ?ct1 (?ct1\<lparr>ct_udpHeap := (ct_udpHeap ?ct1)[i := t]\<rparr>)" using step.IH [of ?ct1] step.prems by simp
  with first show ?case by (simp add: converse_rtranclp_into_rtranclp)
qed

definition dialled_run :: "udp_action list" where
  "dialled_run = [UASpawn, UASend (io_data [1]) [1]] @ replicate 8 (UASender (io_data [1]))"

theorem close_all_never_returns_witness:
  "\<exists>ct k. ct_step\<^sup>*\<^sup>* NewConnTracker ct \<and> ct_udpConns ct k = Some 0 \<and>
     (\<forall>ts ct'. closing_step\<^sup>*\<^sup>* (CloseAll [] [k] ct, ct) (ts, ct') \<longrightarrow> ts \<noteq> [])"
proof -
  let ?m = example_meta
  let ?s = "new_UDPConn 0 ?m" and ?k = "udpKey (SourceIP ?m) (SourcePort ?m) (DestIP ?m) (DestPort ?m)"
  have "\<exists>t. udp_exec dialled_run ?s = Some t \<and> uc_once t = OncePending \<and> uc_reader t = UR_Loop"
    by (simp add: dialled_run_def udp_run_simps)
  then obtain t where t: "udp_step\<^sup>*\<^sup>* ?s t" "uc_once t = OncePending" "uc_reader t = UR_Loop" using udp_exec_steps by blast
  let ?ct = "snd (CreateUDP_insert 0 ?m NewConnTracker)"
  have ct: "ct_udpHeap ?ct = [?s]" "ct_udpConns ?ct = [?k \<mapsto> 0]"
    by (simp_all add: CreateUDP_insert_def NewConnTracker_def Let_def)
  let ?ct1 = "?ct\<lparr>ct_udpHeap := [t]\<rparr>"
  have "ct_step\<^sup>*\<^sup>* ?ct (?ct\<lparr>ct_udpHeap := (ct_udpHeap ?ct)[0 := t]\<rparr>)"
    by (rule lift_udp_steps [OF t(1)]) (simp_all add: t(2) ct)
  then have run: "ct_step\<^sup>*\<^sup>* NewConnTracker ?ct1"
    using ct_step.create_udp [of NewConnTracker 0 ?m] ct(1) by (simp add: converse_rtranclp_into_rtranclp)
  have "ts \<noteq> []" if "closing_step\<^sup>*\<^sup>* (CloseAll [] [?k] ?ct1, ?ct1) (ts, ct')" for ts ct'
    using close_all_never_returns [OF run, of ?k 0 "[?k]" "[]" ts ct'] that ct t(3) by simp
  with run ct show ?thesis by (intro exI [of _ ?ct1] exI [of _ ?k]) simp
qed

end
