(* ===== verification/DnsHijacker.thy ===== *)
theory DnsHijacker
  imports GoNet
begin

text \<open>
  The DNS hijacker, \<^verbatim>\<open>dns/hijacker.go\<close>: it answers address queries with addresses of a small reserved
  network and remembers which name each of them stands for, so that a later connection to the fake
  address can be routed by name.

  Messages are packed and unpacked by the package miekg/dns: \<open>unpack\<close> and \<open>pack\<close> are arguments.  The
  lookup of a name and the allocation of a new address are two critical sections of
  \<open>InterceptDNS\<close>; they are separate definitions, so that other calls can be interleaved between them.
\<close>

type_synonym qtype = "16 word"

definition TypeA :: qtype where "TypeA = 1"
definition TypeAAAA :: qtype where "TypeAAAA = 28"

record dns_question =
  qs_Name :: string
  qs_Qtype :: qtype

record dns_answer =
  an_Name :: string
  an_Rrtype :: qtype
  an_Ttl :: "32 word"
  an_Address :: "byte list"

record fake_mapping =
  fm_ip :: addr
  fm_createdAt :: instant

record hijacker =
  hj_domainToFake :: "string \<rightharpoonup> fake_mapping"
  hj_fakeToDomain :: "addr \<rightharpoonup> string"
  hj_ipCounter :: byte
  hj_timeout :: duration
  hj_maxMappings :: int
  hj_upstreamServers :: "string list"
  hj_queriesIntercepted :: "64 word"
  hj_fakeIPsIssued :: "64 word"
  hj_cacheHits :: "64 word"
  hj_cacheMisses :: "64 word"
  hj_mappingsExpired :: "64 word"

definition FakeIPBase :: string where "FakeIPBase = ''198.51.100.''"
definition FakeIPRangeSize :: nat where "FakeIPRangeSize = 254"
definition DefaultFakeIPTimeout :: duration where "DefaultFakeIPTimeout = 5 * 60 * second"

definition NewHijacker :: "string list \<Rightarrow> duration \<Rightarrow> int \<Rightarrow> hijacker" where
  "NewHijacker upstream timeout maxMappings =
     \<lparr>hj_domainToFake = Map.empty, hj_fakeToDomain = Map.empty, hj_ipCounter = 0,
      hj_timeout = (if timeout = 0 then DefaultFakeIPTimeout else timeout), hj_maxMappings = maxMappings,
      hj_upstreamServers = upstream, hj_queriesIntercepted = 0, hj_fakeIPsIssued = 0, hj_cacheHits = 0,
      hj_cacheMisses = 0, hj_mappingsExpired = 0\<rparr>"

definition fake_text :: "hijacker \<Rightarrow> string" where
  "fake_text h = FakeIPBase @ FormatUint (unat (hj_ipCounter h + 1))"

definition next_counter :: "hijacker \<Rightarrow> hijacker" where
  "next_counter h = h\<lparr>hj_ipCounter := (hj_ipCounter h + 1) mod of_nat FakeIPRangeSize\<rparr>"

text \<open>The loop of \<open>allocateFakeIPLocked\<close> with its remaining attempts; a failed parse of the last resort
  is the zero address.\<close>

fun alloc_fake :: "nat \<Rightarrow> hijacker \<Rightarrow> addr \<times> hijacker" where
  "alloc_fake 0 h =
     (case ParseAddr (fake_text h) of None \<Rightarrow> AddrZero | Some ip \<Rightarrow> ip, next_counter h)"
| "alloc_fake (Suc n) h =
     (case ParseAddr (fake_text h) of
        None \<Rightarrow> alloc_fake n (next_counter h)
      | Some ip \<Rightarrow>
          if hj_fakeToDomain h ip = None then (ip, next_counter h)
          else alloc_fake n (next_counter h))"

definition allocateFakeIPLocked :: "hijacker \<Rightarrow> addr \<times> hijacker" where
  "allocateFakeIPLocked h = alloc_fake FakeIPRangeSize h"

definition drop_mapping :: "string \<Rightarrow> hijacker \<Rightarrow> hijacker" where
  "drop_mapping d h =
     (case hj_domainToFake h d of
        None \<Rightarrow> h\<lparr>hj_fakeToDomain := (hj_fakeToDomain h)(AddrZero := None),
                  hj_mappingsExpired := hj_mappingsExpired h + 1\<rparr>
      | Some m \<Rightarrow> h\<lparr>hj_domainToFake := (hj_domainToFake h)(d := None),
                    hj_fakeToDomain := (hj_fakeToDomain h)(fm_ip m := None),
                    hj_mappingsExpired := hj_mappingsExpired h + 1\<rparr>)"

text \<open>The range over the mappings: the empty name means that none has been chosen yet.\<close>

definition oldest_domain :: "string list \<Rightarrow> hijacker \<Rightarrow> string" where
  "oldest_domain ord h =
     fst (foldl (\<lambda>(od, ot) d. let t = fm_createdAt (the (hj_domainToFake h d))
                              in if od = [] \<or> t < ot then (d, t) else (od, ot)) ([], 0) ord)"

definition evictOldestMappingLocked :: "string list \<Rightarrow> hijacker \<Rightarrow> hijacker" where
  "evictOldestMappingLocked ord h =
     (let d = oldest_domain ord h in if d \<noteq> [] then drop_mapping d h else h)"

fun pick_question :: "string \<times> qtype \<Rightarrow> dns_question list \<Rightarrow> string \<times> qtype" where
  "pick_question dq [] = dq"
| "pick_question dq (q # qs) =
     (if qs_Qtype q = TypeA \<or> qs_Qtype q = TypeAAAA then (qs_Name q, qs_Qtype q)
      else pick_question (qs_Name q, qs_Qtype q) qs)"

definition createDNSResponse :: "(dns_question list \<Rightarrow> dns_answer \<Rightarrow> byte list option) \<Rightarrow> dns_question list \<Rightarrow> addr
    \<Rightarrow> qtype \<Rightarrow> hijacker \<Rightarrow> byte list option" where
  "createDNSResponse pack msg ip qt h =
     pack msg
       \<lparr>an_Name = qs_Name (msg ! 0), an_Rrtype = (if qt = TypeA then TypeA else TypeAAAA),
        an_Ttl = of_int (hj_timeout h div second),
        an_Address = (if qt = TypeA then (case ip of AddrZero \<Rightarrow> [] | Addr4 bs \<Rightarrow> bs | Addr6 bs _ \<Rightarrow> bs)
                      else As16 ip)\<rparr>"

text \<open>The critical section that reads.\<close>

definition intercept_lookup :: "string \<Rightarrow> hijacker \<Rightarrow> addr option \<times> hijacker" where
  "intercept_lookup domain h =
     (case hj_domainToFake h domain of
        Some m \<Rightarrow> (Some (fm_ip m), h\<lparr>hj_cacheHits := hj_cacheHits h + 1,
                                  hj_queriesIntercepted := hj_queriesIntercepted h + 1\<rparr>)
      | None \<Rightarrow> (None, h\<lparr>hj_cacheMisses := hj_cacheMisses h + 1,
                         hj_queriesIntercepted := hj_queriesIntercepted h + 1\<rparr>))"

text \<open>The critical section that writes, with the counter of issued addresses.\<close>

definition intercept_alloc :: "string list \<Rightarrow> instant \<Rightarrow> string \<Rightarrow> hijacker \<Rightarrow> addr \<times> hijacker" where
  "intercept_alloc ord now domain h =
     (let h1 = (if hj_maxMappings h > 0 \<and> int (card (dom (hj_domainToFake h))) \<ge> hj_maxMappings h
                then evictOldestMappingLocked ord h else h);
          (ip, h2) = allocateFakeIPLocked h1
      in (ip, h2\<lparr>hj_domainToFake := (hj_domainToFake h2)(domain \<mapsto> \<lparr>fm_ip = ip, fm_createdAt = now\<rparr>),
                 hj_fakeToDomain := (hj_fakeToDomain h2)(ip \<mapsto> domain),
                 hj_fakeIPsIssued := hj_fakeIPsIssued h2 + 1\<rparr>))"

definition InterceptDNS :: "(byte list \<Rightarrow> dns_question list option) \<Rightarrow> (dns_question list \<Rightarrow> dns_answer \<Rightarrow> byte list option)
    \<Rightarrow> string list \<Rightarrow> instant \<Rightarrow> byte list \<Rightarrow> hijacker \<Rightarrow> byte list option \<times> bool \<times> hijacker" where
  "InterceptDNS unpack pack ord now query h =
     (case unpack query of
        None \<Rightarrow> (None, False, h)
      | Some msg \<Rightarrow>
          let (domain, qt) = pick_question ([], 0) msg
          in if qt \<noteq> TypeA \<and> qt \<noteq> TypeAAAA then (None, False, h)
             else
               (case intercept_lookup domain h of
                  (Some ip, h1) \<Rightarrow> (createDNSResponse pack msg ip qt h1, True, h1)
                | (None, h1) \<Rightarrow>
                    let (ip, h2) = intercept_alloc ord now domain h1
                    in (createDNSResponse pack msg ip qt h2, True, h2)))"

definition GetDomainByFakeIP :: "addr \<Rightarrow> hijacker \<Rightarrow> string option" where
  "GetDomainByFakeIP ip h = hj_fakeToDomain h ip"

definition GetFakeIPByDomain :: "string \<Rightarrow> hijacker \<Rightarrow> addr option" where
  "GetFakeIPByDomain d h = map_option fm_ip (hj_domainToFake h d)"

definition mapping_expired :: "instant \<Rightarrow> hijacker \<Rightarrow> string \<Rightarrow> bool" where
  "mapping_expired now h d =
     (case hj_domainToFake h d of None \<Rightarrow> False | Some m \<Rightarrow> now - fm_createdAt m > hj_timeout h)"

text \<open>One tick of the cleanup loop.\<close>

definition cleanupExpired :: "string list \<Rightarrow> instant \<Rightarrow> hijacker \<Rightarrow> hijacker" where
  "cleanupExpired ord now h = fold drop_mapping (filter (mapping_expired now h) ord) h"

record hijacker_stats =
  hs_queries_intercepted :: "64 word"
  hs_fake_ips_issued :: "64 word"
  hs_cache_hits :: "64 word"
  hs_cache_misses :: "64 word"
  hs_mappings_expired :: "64 word"
  hs_active_mappings :: nat
  hs_cache_hit_ratio :: rat

text \<open>The ratio is a float in the code; its divisor wraps to zero only after \<open>2\<^sup>6\<^sup>4 - 1\<close> queries.\<close>

definition Hijacker_GetStats :: "hijacker \<Rightarrow> hijacker_stats" where
  "Hijacker_GetStats h =
     \<lparr>hs_queries_intercepted = hj_queriesIntercepted h, hs_fake_ips_issued = hj_fakeIPsIssued h,
      hs_cache_hits = hj_cacheHits h, hs_cache_misses = hj_cacheMisses h,
      hs_mappings_expired = hj_mappingsExpired h, hs_active_mappings = card (dom (hj_domainToFake h)),
      hs_cache_hit_ratio = of_nat (unat (hj_cacheHits h)) / of_nat (unat (hj_queriesIntercepted h + 1))\<rparr>"

text \<open>\<open>exchange\<close> is the query to the upstream server: an error or the address of the first answer, if
  that is an A record.\<close>

definition ResolveFakeIP :: "(string \<Rightarrow> string \<Rightarrow> 'e + ip option) \<Rightarrow> addr \<Rightarrow> hijacker \<Rightarrow> string \<times> ip option \<times> 'e option" where
  "ResolveFakeIP exchange a h =
     (case GetDomainByFakeIP a h of
        None \<Rightarrow> ([], None, None)
      | Some domain \<Rightarrow>
          (case hj_upstreamServers h of
             [] \<Rightarrow> (domain, None, None)
           | server # _ \<Rightarrow>
               (case exchange domain (server @ '':53'') of
                  Inl e \<Rightarrow> (domain, None, Some e)
                | Inr r \<Rightarrow> (domain, r, None))))"

definition IsFakeIP :: "addr \<Rightarrow> bool" where
  "IsFakeIP a =
     (case a of
        Addr4 bs \<Rightarrow> length bs \<ge> 3 \<and> bs ! 0 = 198 \<and> bs ! 1 = 51 \<and> bs ! 2 = 100
      | _ \<Rightarrow> False)"

definition ParseDNSQuery :: "(byte list \<Rightarrow> dns_question list option) \<Rightarrow> byte list \<Rightarrow> (string \<times> qtype) option" where
  "ParseDNSQuery unpack d =
     (case unpack d of
        None \<Rightarrow> None
      | Some [] \<Rightarrow> Some ([], 0)
      | Some (q # _) \<Rightarrow> Some (qs_Name q, qs_Qtype q))"

definition IsDNSQuery :: "16 word \<Rightarrow> byte \<Rightarrow> bool" where
  "IsDNSQuery dstPort protocol \<longleftrightarrow> protocol = 17 \<and> dstPort = 53"

subsection \<open>Allocation\<close>

definition fake_ip :: "nat \<Rightarrow> addr" where
  "fake_ip k = Addr4 [198, 51, 100, of_nat (k + 1)]"

lemma fake_ip_inj: "inj_on fake_ip {0..<254}"
proof (rule inj_onI)
  fix x y
  assume "x \<in> {0..<254}" and "y \<in> {0..<254}" and "fake_ip x = fake_ip y"
  then have "unat (of_nat (x + 1) :: byte) = unat (of_nat (y + 1) :: byte)" by (simp add: fake_ip_def)
  with \<open>x \<in> _\<close> \<open>y \<in> _\<close> show "x = y" by (simp add: unat_of_nat del: of_nat_add of_nat_Suc)
qed

lemma IsFakeIP_fake_ip [simp]: "IsFakeIP (fake_ip k)"
  by (simp add: IsFakeIP_def fake_ip_def)

lemma parse_fake_text:
  assumes "unat (hj_ipCounter h) < 254"
  shows "ParseAddr (fake_text h) = Some (fake_ip (unat (hj_ipCounter h)))"
proof -
  let ?b = "hj_ipCounter h + 1"
  have "FormatUint 198 = ''198''" "FormatUint 51 = ''51''" "FormatUint 100 = ''100''" by code_simp+
  then have "fake_text h = v4_string [198, 51, 100, ?b]"
    by (simp add: fake_text_def FakeIPBase_def v4_string_def)
  then have "ParseAddr (fake_text h) = Some (Addr4 [198, 51, 100, ?b])"
    using ParseAddr_v4_string [of "[198, 51, 100, ?b]"] by simp
  then show ?thesis by (simp add: fake_ip_def)
qed

lemma unat_next_counter:
  assumes "unat (hj_ipCounter h) < 254"
  shows "unat (hj_ipCounter (next_counter h)) = (unat (hj_ipCounter h) + 1) mod 254"
proof -
  have "unat (hj_ipCounter h + 1) = unat (hj_ipCounter h) + 1"
    using assms by (simp add: unat_word_ariths)
  then show ?thesis by (simp add: next_counter_def FakeIPRangeSize_def unat_mod)
qed

lemma next_counter_frame [simp]:
  "hj_fakeToDomain (next_counter h) = hj_fakeToDomain h" "hj_domainToFake (next_counter h) = hj_domainToFake h"
  "hj_maxMappings (next_counter h) = hj_maxMappings h" "hj_timeout (next_counter h) = hj_timeout h"
  by (simp_all add: next_counter_def)

text \<open>The scan meets the addresses in the order of the counter.\<close>

lemma alloc_fake_scan:
  assumes "unat (hj_ipCounter h) < 254" and "alloc_fake n h = (ip, h')"
  shows "(\<exists>c. h' = h\<lparr>hj_ipCounter := c\<rparr> \<and> unat c < 254) \<and> (\<exists>k < 254. ip = fake_ip k) \<and>
    (hj_fakeToDomain h ip = None \<or>
     (\<forall>j < n. hj_fakeToDomain h (fake_ip ((unat (hj_ipCounter h) + j) mod 254)) \<noteq> None))"
  using assms
proof (induction n arbitrary: h)
  case 0
  let ?c = "hj_ipCounter (next_counter h)"
  have "unat ?c < 254" using unat_next_counter [OF 0(1)] by simp
  moreover have "next_counter h = h\<lparr>hj_ipCounter := ?c\<rparr>" by (simp add: next_counter_def)
  ultimately show ?case using 0 parse_fake_text [OF 0(1)] by auto
next
  case (Suc n)
  let ?c = "unat (hj_ipCounter h)" and ?h1 = "next_counter h"
  have c1: "unat (hj_ipCounter ?h1) = (?c + 1) mod 254" by (rule unat_next_counter [OF Suc.prems(1)])
  then have lt: "unat (hj_ipCounter ?h1) < 254" by simp
  have h1: "?h1 = h\<lparr>hj_ipCounter := hj_ipCounter ?h1\<rparr>" by (simp add: next_counter_def)
  show ?case
  proof (cases "hj_fakeToDomain h (fake_ip ?c) = None")
    case True
    then have "ip = fake_ip ?c" "h' = ?h1"
      using Suc.prems parse_fake_text [OF Suc.prems(1)] by auto
    with True Suc.prems(1) lt h1 show ?thesis by blast
  next
    case False
    then obtain d where "hj_fakeToDomain h (fake_ip ?c) = Some d" by blast
    then have r: "alloc_fake n ?h1 = (ip, h')"
      using Suc.prems parse_fake_text [OF Suc.prems(1)] by simp
    note ih = Suc.IH [OF lt r]
    have all: "hj_fakeToDomain h (fake_ip ((?c + j) mod 254)) \<noteq> None"
      if "\<forall>j < n. hj_fakeToDomain h (fake_ip ((unat (hj_ipCounter ?h1) + j) mod 254)) \<noteq> None" and "j < Suc n" for j
    proof (cases j)
      case 0
      then show ?thesis using False Suc.prems(1) by simp
    next
      case (Suc i)
      with that show ?thesis by (simp add: c1 mod_simps)
    qed
    have "\<exists>c. h' = h\<lparr>hj_ipCounter := c\<rparr> \<and> unat c < 254" using ih h1 by (auto simp: next_counter_def)
    with ih all show ?thesis by auto
  qed
qed

lemma allocateFakeIP_free:
  assumes "unat (hj_ipCounter h) < 254" and "finite (dom (hj_fakeToDomain h))"
    and "card (dom (hj_fakeToDomain h)) < 254" and "allocateFakeIPLocked h = (ip, h')"
  shows "hj_fakeToDomain h ip = None"
proof (rule ccontr)
  assume "hj_fakeToDomain h ip \<noteq> None"
  moreover have "alloc_fake 254 h = (ip, h')"
    using assms(4) by (simp add: allocateFakeIPLocked_def FakeIPRangeSize_def)
  note alloc_fake_scan [OF assms(1) this]
  ultimately have used: "\<forall>j < 254. hj_fakeToDomain h (fake_ip ((unat (hj_ipCounter h) + j) mod 254)) \<noteq> None"
    by (elim conjE disjE) simp_all
  have "fake_ip k \<in> dom (hj_fakeToDomain h)" if "k < 254" for k
    using mod_window_onto [OF that, of "unat (hj_ipCounter h)"] used by blast
  then have "fake_ip ` {0..<254} \<subseteq> dom (hj_fakeToDomain h)" by (intro image_subsetI) simp
  from card_mono [OF assms(2) this] show False
    using assms(3) card_image [OF fake_ip_inj] by simp
qed

subsection \<open>The two maps are inverse to each other\<close>

definition hj_inv :: "hijacker \<Rightarrow> bool" where
  "hj_inv h \<longleftrightarrow> unat (hj_ipCounter h) < 254 \<and> finite (dom (hj_domainToFake h)) \<and>
     0 < hj_maxMappings h \<and> hj_maxMappings h \<le> 254 \<and>
     int (card (dom (hj_domainToFake h))) \<le> hj_maxMappings h \<and>
     (\<forall>d m. hj_domainToFake h d = Some m \<longrightarrow>
        hj_fakeToDomain h (fm_ip m) = Some d \<and> IsFakeIP (fm_ip m) \<and> d \<noteq> []) \<and>
     (\<forall>a d. hj_fakeToDomain h a = Some d \<longrightarrow> (\<exists>m. hj_domainToFake h d = Some m \<and> fm_ip m = a))"

lemma hj_invD:
  "hj_inv h \<Longrightarrow> hj_domainToFake h d = Some m \<Longrightarrow> hj_fakeToDomain h (fm_ip m) = Some d \<and> IsFakeIP (fm_ip m) \<and> d \<noteq> []"
  "hj_inv h \<Longrightarrow> hj_fakeToDomain h a = Some d \<Longrightarrow> \<exists>m. hj_domainToFake h d = Some m \<and> fm_ip m = a"
  by (simp_all add: hj_inv_def)

lemma fakeToDomain_image:
  assumes "hj_inv h"
  shows "dom (hj_fakeToDomain h) = (\<lambda>d. fm_ip (the (hj_domainToFake h d))) ` dom (hj_domainToFake h)"
proof
  show "dom (hj_fakeToDomain h) \<subseteq> (\<lambda>d. fm_ip (the (hj_domainToFake h d))) ` dom (hj_domainToFake h)"
  proof
    fix a
    assume "a \<in> dom (hj_fakeToDomain h)"
    then obtain d m where "hj_domainToFake h d = Some m" "fm_ip m = a"
      using assms unfolding hj_inv_def by blast
    then show "a \<in> (\<lambda>d. fm_ip (the (hj_domainToFake h d))) ` dom (hj_domainToFake h)"
      by (intro image_eqI [of _ _ d]) auto
  qed
  show "(\<lambda>d. fm_ip (the (hj_domainToFake h d))) ` dom (hj_domainToFake h) \<subseteq> dom (hj_fakeToDomain h)"
    using assms unfolding hj_inv_def by auto
qed

lemma fakeToDomain_small:
  assumes "hj_inv h"
  shows "finite (dom (hj_fakeToDomain h))" "card (dom (hj_fakeToDomain h)) \<le> card (dom (hj_domainToFake h))"
  using assms card_image_le [of "dom (hj_domainToFake h)"]
  by (simp_all add: fakeToDomain_image [OF assms] hj_inv_def)

lemma drop_mapping_inv:
  assumes "hj_inv h" and "hj_domainToFake h d = Some m"
  shows "hj_inv (drop_mapping d h)" "card (dom (hj_domainToFake (drop_mapping d h))) = card (dom (hj_domainToFake h)) - 1"
proof -
  have fin: "finite (dom (hj_domainToFake h))" and inverse: "hj_fakeToDomain h (fm_ip m) = Some d"
    using assms by (auto simp: hj_inv_def)
  show card: "card (dom (hj_domainToFake (drop_mapping d h))) = card (dom (hj_domainToFake h)) - 1"
    using assms(2) card_dom_del [OF fin, of d] by (simp add: drop_mapping_def del: dom_fun_upd)
  have ne: "fm_ip m' \<noteq> fm_ip m" if "hj_domainToFake h e = Some m'" "e \<noteq> d" for e m'
    using hj_invD(1) [OF assms(1) that(1)] inverse that(2) by auto
  have upd: "hj_domainToFake (drop_mapping d h) = (hj_domainToFake h)(d := None)"
    "hj_fakeToDomain (drop_mapping d h) = (hj_fakeToDomain h)(fm_ip m := None)"
    "hj_ipCounter (drop_mapping d h) = hj_ipCounter h" "hj_maxMappings (drop_mapping d h) = hj_maxMappings h"
    using assms(2) by (simp_all add: drop_mapping_def)
  have "\<exists>m'. ((hj_domainToFake h)(d := None)) e = Some m' \<and> fm_ip m' = a"
    if "((hj_fakeToDomain h)(fm_ip m := None)) a = Some e" for a e
  proof -
    from that have "a \<noteq> fm_ip m" "hj_fakeToDomain h a = Some e" by (auto split: if_splits)
    moreover obtain m' where "hj_domainToFake h e = Some m'" "fm_ip m' = a"
      using hj_invD(2) [OF assms(1) calculation(2)] by blast
    ultimately show ?thesis using assms(2) by auto
  qed
  moreover have "((hj_fakeToDomain h)(fm_ip m := None)) (fm_ip m') = Some e \<and> IsFakeIP (fm_ip m') \<and> e \<noteq> []"
    if "((hj_domainToFake h)(d := None)) e = Some m'" for e m'
    using that ne assms(1) by (auto simp: hj_inv_def split: if_splits)
  moreover have "int (card (dom (hj_domainToFake (drop_mapping d h)))) \<le> hj_maxMappings h"
    using card assms(1) unfolding hj_inv_def by linarith
  ultimately show "hj_inv (drop_mapping d h)"
    using assms(1) unfolding hj_inv_def upd by simp
qed

lemma oldest_domain_mem: "ord \<noteq> [] \<Longrightarrow> [] \<notin> set ord \<Longrightarrow> oldest_domain ord h \<in> set ord"
proof -
  let ?f = "\<lambda>(od, ot) d. let t = fm_createdAt (the (hj_domainToFake h d)) in if od = [] \<or> t < ot then (d, t) else (od, ot)"
  have step: "fst (foldl ?f (od, ot) ds) \<in> insert od (set ds)" for ds od ot
    by (induction ds arbitrary: od ot) (auto simp: Let_def)
  assume "ord \<noteq> []" and "[] \<notin> set ord"
  then obtain d ds where "ord = d # ds" by (cases ord) auto
  then show ?thesis
    using step [of d "fm_createdAt (the (hj_domainToFake h d))" ds] by (simp add: oldest_domain_def Let_def)
qed

lemma evict_mapping_inv:
  assumes "hj_inv h" and "range_of (hj_domainToFake h) ord"
  shows "hj_inv (evictOldestMappingLocked ord h)"
    and "int (card (dom (hj_domainToFake h))) = hj_maxMappings h \<Longrightarrow>
      int (card (dom (hj_domainToFake (evictOldestMappingLocked ord h)))) = hj_maxMappings h - 1"
    and "hj_maxMappings (evictOldestMappingLocked ord h) = hj_maxMappings h"
proof -
  have keys: "set ord = dom (hj_domainToFake h)" using assms(2) by (simp add: range_of_def)
  have nonempty: "[] \<notin> set ord"
    using hj_invD(1) [OF assms(1)] unfolding keys by blast
  have main: "\<exists>m. hj_domainToFake h (oldest_domain ord h) = Some m" "oldest_domain ord h \<noteq> []" if "ord \<noteq> []"
    using oldest_domain_mem [OF that nonempty, of h] nonempty unfolding keys by auto
  have empty: "evictOldestMappingLocked [] h = h"
    by (simp add: evictOldestMappingLocked_def oldest_domain_def)
  show "hj_inv (evictOldestMappingLocked ord h)"
    using main drop_mapping_inv(1) [OF assms(1)] empty assms(1)
    by (cases "ord = []") (auto simp: evictOldestMappingLocked_def Let_def)
  show "hj_maxMappings (evictOldestMappingLocked ord h) = hj_maxMappings h"
    by (simp add: evictOldestMappingLocked_def drop_mapping_def Let_def split: option.split)
  assume full: "int (card (dom (hj_domainToFake h))) = hj_maxMappings h"
  have "0 < hj_maxMappings h" using assms(1) by (simp add: hj_inv_def)
  then have "ord \<noteq> []" using full range_of_card [OF assms(2)] by auto
  then show "int (card (dom (hj_domainToFake (evictOldestMappingLocked ord h)))) = hj_maxMappings h - 1"
    using main drop_mapping_inv(2) [OF assms(1)] full \<open>0 < hj_maxMappings h\<close>
    by (auto simp: evictOldestMappingLocked_def Let_def)
qed

lemma add_mapping_inv:
  assumes "hj_inv h" and "int (card (dom (hj_domainToFake h))) < hj_maxMappings h" and "d \<noteq> []"
    and "hj_domainToFake h d = None" and "allocateFakeIPLocked h = (ip, h2)"
  shows "hj_inv (h2\<lparr>hj_domainToFake := (hj_domainToFake h2)(d \<mapsto> \<lparr>fm_ip = ip, fm_createdAt = now\<rparr>),
                    hj_fakeToDomain := (hj_fakeToDomain h2)(ip \<mapsto> d), hj_fakeIPsIssued := n\<rparr>)"
proof -
  have c: "unat (hj_ipCounter h) < 254" and fin: "finite (dom (hj_domainToFake h))" and "hj_maxMappings h \<le> 254"
    using assms(1) by (simp_all add: hj_inv_def)
  with fakeToDomain_small [OF assms(1)] assms(2) have free: "hj_fakeToDomain h ip = None"
    using allocateFakeIP_free [OF c _ _ assms(5)] by simp
  have a: "alloc_fake 254 h = (ip, h2)" using assms(5) by (simp add: allocateFakeIPLocked_def FakeIPRangeSize_def)
  obtain c' k where h2: "h2 = h\<lparr>hj_ipCounter := c'\<rparr>" "unat c' < 254" and ip: "ip = fake_ip k"
    using alloc_fake_scan [OF c a] by blast
  have "((hj_fakeToDomain h)(ip \<mapsto> d)) (fm_ip m) = Some e \<and> IsFakeIP (fm_ip m) \<and> e \<noteq> []"
    if "((hj_domainToFake h)(d \<mapsto> \<lparr>fm_ip = ip, fm_createdAt = now\<rparr>)) e = Some m" for e m
    using that hj_invD(1) [OF assms(1), of e m] free assms(3) ip by (auto split: if_splits)
  moreover have "\<exists>m. ((hj_domainToFake h)(d \<mapsto> \<lparr>fm_ip = ip, fm_createdAt = now\<rparr>)) e = Some m \<and> fm_ip m = a"
    if "((hj_fakeToDomain h)(ip \<mapsto> d)) a = Some e" for a e
    using that hj_invD(2) [OF assms(1), of a e] assms(4) by (auto split: if_splits)
  moreover have "int (card (dom ((hj_domainToFake h)(d \<mapsto> \<lparr>fm_ip = ip, fm_createdAt = now\<rparr>)))) \<le> hj_maxMappings h"
    using card_dom_upd [OF fin, of d] assms(2,4) by (simp del: dom_fun_upd)
  ultimately show ?thesis
    using assms(1) h2 unfolding hj_inv_def by (simp del: fun_upd_apply dom_fun_upd)
qed

lemma hj_inv_counters [simp]:
  "hj_inv (h\<lparr>hj_cacheHits := a\<rparr>) = hj_inv h" "hj_inv (h\<lparr>hj_cacheMisses := a\<rparr>) = hj_inv h"
  "hj_inv (h\<lparr>hj_queriesIntercepted := a\<rparr>) = hj_inv h"
  by (simp_all add: hj_inv_def)

lemma drop_mapping_sub: "hj_domainToFake (drop_mapping d h) e = Some m \<Longrightarrow> hj_domainToFake h e = Some m"
  by (auto simp: drop_mapping_def split: option.splits if_splits)

lemma intercept_alloc_inv:
  assumes "hj_inv h" and "range_of (hj_domainToFake h) ord" and "d \<noteq> []" and "hj_domainToFake h d = None"
  shows "hj_inv (snd (intercept_alloc ord now d h))"
proof -
  let ?h1 = "if hj_maxMappings h > 0 \<and> int (card (dom (hj_domainToFake h))) \<ge> hj_maxMappings h
             then evictOldestMappingLocked ord h else h"
  obtain ip h2 where al: "allocateFakeIPLocked ?h1 = (ip, h2)" by fastforce
  have full: "hj_maxMappings h \<le> int (card (dom (hj_domainToFake h))) \<longleftrightarrow>
      int (card (dom (hj_domainToFake h))) = hj_maxMappings h" "0 < hj_maxMappings h"
    using assms(1) by (auto simp: hj_inv_def)
  have "hj_domainToFake (evictOldestMappingLocked ord h) d = None"
    using assms(4) drop_mapping_sub [of _ h d]
    by (cases "hj_domainToFake (evictOldestMappingLocked ord h) d")
      (auto simp: evictOldestMappingLocked_def Let_def split: if_splits)
  then have "hj_inv ?h1" "int (card (dom (hj_domainToFake ?h1))) < hj_maxMappings ?h1" "hj_domainToFake ?h1 d = None"
    using evict_mapping_inv [OF assms(1,2)] assms(1,4) full by auto
  from add_mapping_inv [OF this(1,2) assms(3) this(3) al] show ?thesis
    unfolding intercept_alloc_def Let_def al by simp
qed

text \<open>Names in messages are never empty; the root is a single dot.\<close>

definition names_ok :: "(byte list \<Rightarrow> dns_question list option) \<Rightarrow> bool" where
  "names_ok unpack \<longleftrightarrow> (\<forall>d qs. unpack d = Some qs \<longrightarrow> (\<forall>q \<in> set qs. qs_Name q \<noteq> []))"

lemma pick_question_mem: "qs \<noteq> [] \<Longrightarrow> \<exists>q \<in> set qs. pick_question dq qs = (qs_Name q, qs_Qtype q)"
proof (induction qs arbitrary: dq)
  case (Cons q qs)
  then show ?case by (cases "qs = []") auto
qed simp

lemma pick_question_name:
  assumes "names_ok unpack" and "unpack query = Some qs" and "pick_question ([], 0) qs = (d, qt)"
    and "qt = TypeA \<or> qt = TypeAAAA"
  shows "d \<noteq> []"
proof -
  have "qs \<noteq> []" using assms(3,4) by (auto simp: TypeA_def TypeAAAA_def)
  then obtain q where "q \<in> set qs" "d = qs_Name q" using pick_question_mem assms(3) by (metis prod.inject)
  with assms(1,2) show ?thesis by (simp add: names_ok_def)
qed

lemma InterceptDNS_inv:
  assumes "hj_inv h" and "names_ok unpack" and "range_of (hj_domainToFake h) ord"
  shows "hj_inv (snd (snd (InterceptDNS unpack pack ord now query h)))"
proof (cases "unpack query")
  case (Some qs)
  obtain d qt where p: "pick_question ([], 0) qs = (d, qt)" by fastforce
  show ?thesis
  proof (cases "qt = TypeA \<or> qt = TypeAAAA")
    case True
    have d: "d \<noteq> []" by (rule pick_question_name [OF assms(2) Some p True])
    let ?h1 = "h\<lparr>hj_cacheMisses := hj_cacheMisses h + 1, hj_queriesIntercepted := hj_queriesIntercepted h + 1\<rparr>"
    have "hj_inv (snd (intercept_alloc ord now d ?h1))" if "hj_domainToFake h d = None"
      by (rule intercept_alloc_inv) (use assms that d in simp_all)
    then show ?thesis
      using assms(1) True Some p
      by (cases "hj_domainToFake h d") (auto simp: InterceptDNS_def intercept_lookup_def Let_def case_prod_unfold)
  qed (use assms(1) Some p in \<open>auto simp: InterceptDNS_def Let_def\<close>)
qed (use assms(1) in \<open>simp add: InterceptDNS_def\<close>)

lemma cleanupExpired_inv:
  assumes "hj_inv h" and "range_of (hj_domainToFake h) ord"
  shows "hj_inv (cleanupExpired ord now h)"
proof -
  have "hj_inv (fold drop_mapping ds g)" if "hj_inv g" and "distinct ds" and "set ds \<subseteq> dom (hj_domainToFake g)" for ds g
    using that
  proof (induction ds arbitrary: g)
    case (Cons d ds)
    then obtain m where m: "hj_domainToFake g d = Some m" by auto
    then have "hj_domainToFake (drop_mapping d g) = (hj_domainToFake g)(d := None)" by (simp add: drop_mapping_def)
    then have "set ds \<subseteq> dom (hj_domainToFake (drop_mapping d g))" using Cons.prems(2,3) by auto
    with Cons.IH [OF drop_mapping_inv(1) [OF Cons.prems(1) m]] Cons.prems(2) show ?case by simp
  qed simp
  moreover have "set (filter (mapping_expired now h) ord) \<subseteq> dom (hj_domainToFake h)"
    using assms(2) by (auto simp: range_of_def)
  ultimately show ?thesis
    using assms by (simp add: cleanupExpired_def range_of_def)
qed

inductive hj_step :: "(byte list \<Rightarrow> dns_question list option) \<Rightarrow> hijacker \<Rightarrow> hijacker \<Rightarrow> bool" for unpack where
  query: "range_of (hj_domainToFake h) ord \<Longrightarrow>
    hj_step unpack h (snd (snd (InterceptDNS unpack pack ord now q h)))"
| tick: "range_of (hj_domainToFake h) ord \<Longrightarrow> hj_step unpack h (cleanupExpired ord now h)"

lemma hj_step_inv: "hj_step unpack h h' \<Longrightarrow> names_ok unpack \<Longrightarrow> hj_inv h \<Longrightarrow> hj_inv h'"
  by (induction rule: hj_step.induct) (auto intro: InterceptDNS_inv cleanupExpired_inv)

interpretation hjsys: invariant_system
  "\<lambda>h. \<exists>up t maxMappings. 0 < maxMappings \<and> maxMappings \<le> 254 \<and> h = NewHijacker up t maxMappings"
  "\<lambda>h h'. \<exists>unpack. names_ok unpack \<and> hj_step unpack h h'" hj_inv
proof unfold_locales
  fix h
  show "\<exists>up t maxMappings. 0 < maxMappings \<and> maxMappings \<le> 254 \<and> h = NewHijacker up t maxMappings \<Longrightarrow> hj_inv h"
    by (auto simp: NewHijacker_def hj_inv_def)
qed (auto intro: hj_step_inv)

subsection \<open>Properties\<close>

lemma hj_run_inv:
  assumes "names_ok unpack" and "0 < maxMappings" and "maxMappings \<le> 254"
    and "(hj_step unpack)\<^sup>*\<^sup>* (NewHijacker up t maxMappings) h"
  shows "hj_inv h"
proof -
  have "(\<lambda>h h'. \<exists>unpack. names_ok unpack \<and> hj_step unpack h h')\<^sup>*\<^sup>* (NewHijacker up t maxMappings) h"
    using assms(4) by (rule mono_rtranclp [rule_format, rotated]) (use assms(1) in blast)
  then show ?thesis using hjsys.run_inv assms(2,3) by blast
qed


definition example_unpack :: "byte list \<Rightarrow> dns_question list option" where
  "example_unpack d = (if d = [] then None else Some [\<lparr>qs_Name = ''a.'', qs_Qtype = TypeA\<rparr>])"

lemma example_names_ok: "names_ok example_unpack"
  by (auto simp: names_ok_def example_unpack_def split: if_splits)

definition hijacked :: hijacker where
  "hijacked = snd (snd (InterceptDNS example_unpack (\<lambda>_ _. None) [] 0 [1] (NewHijacker [] 0 100)))"

lemma hijacked_run: "(hj_step example_unpack)\<^sup>*\<^sup>* (NewHijacker [] 0 100) hijacked"
  unfolding hijacked_def
  by (intro r_into_rtranclp hj_step.query) (simp add: NewHijacker_def)

lemma hijacked_domain: "GetFakeIPByDomain ''a.'' hijacked = Some (fake_ip 0)"
proof -
  let ?h = "(NewHijacker [] 0 100)\<lparr>hj_cacheMisses := 1, hj_queriesIntercepted := 1\<rparr>"
  have "alloc_fake (Suc n) ?h = (fake_ip 0, next_counter ?h)" for n
    using parse_fake_text [of ?h] by (simp add: NewHijacker_def)
  then have "allocateFakeIPLocked ?h = (fake_ip 0, next_counter ?h)"
    unfolding allocateFakeIPLocked_def FakeIPRangeSize_def by (metis Suc_numeral numeral_eq_Suc)
  then show ?thesis
    by (simp add: hijacked_def InterceptDNS_def example_unpack_def TypeA_def TypeAAAA_def intercept_lookup_def
        intercept_alloc_def NewHijacker_def GetFakeIPByDomain_def)
qed


lemma alloc_frame:
  assumes "unat (hj_ipCounter h) < 254" and "allocateFakeIPLocked h = (ip, h')"
  shows "hj_domainToFake h' = hj_domainToFake h" "hj_fakeToDomain h' = hj_fakeToDomain h"
    "unat (hj_ipCounter h') < 254" "\<exists>k < 254. ip = fake_ip k" "hj_maxMappings h' = hj_maxMappings h"
  using alloc_fake_scan [OF assms(1), of 254 ip h'] assms(2)
  by (auto simp: allocateFakeIPLocked_def FakeIPRangeSize_def)

lemma drop_other_mapping:
  assumes "\<forall>e m. hj_domainToFake h e = Some m \<longrightarrow> fm_ip m \<noteq> fake_ip k" and "hj_fakeToDomain h (fake_ip k) = x"
  shows "hj_fakeToDomain (fold drop_mapping ds h) (fake_ip k) = x"
  using assms
proof (induction ds arbitrary: h)
  case (Cons d ds)
  have "\<forall>e m. hj_domainToFake (drop_mapping d h) e = Some m \<longrightarrow> fm_ip m \<noteq> fake_ip k"
    using Cons.prems(1) drop_mapping_sub by blast
  moreover have "hj_fakeToDomain (drop_mapping d h) (fake_ip k) = x"
  proof (cases "hj_domainToFake h d")
    case None
    then show ?thesis using Cons.prems(2) by (simp add: drop_mapping_def fake_ip_def)
  next
    case (Some m)
    then have "fm_ip m \<noteq> fake_ip k" using Cons.prems(1) by blast
    with Some Cons.prems(2) show ?thesis by (auto simp: drop_mapping_def)
  qed
  ultimately show ?case using Cons.IH by simp
qed simp

lemma race_leaks:
  assumes inv: "hj_inv h" and new: "hj_domainToFake h d = None"
    and room: "int (card (dom (hj_domainToFake h))) + 1 < hj_maxMappings h"
    and a1: "intercept_alloc ord1 now1 d h = (ip1, h1)" and a2: "intercept_alloc ord2 now2 d h1 = (ip2, h2)"
  shows "ip1 \<noteq> ip2 \<and> GetFakeIPByDomain d h2 = Some ip2 \<and>
    (\<forall>ord now. GetDomainByFakeIP ip1 (cleanupExpired ord now h2) = Some d)"
proof -
  have c: "unat (hj_ipCounter h) < 254" and fin: "finite (dom (hj_domainToFake h))" and "hj_maxMappings h \<le> 254"
    using inv by (simp_all add: hj_inv_def)
  obtain g1 where g1: "allocateFakeIPLocked h = (ip1, g1)"
    and h1: "h1 = g1\<lparr>hj_domainToFake := (hj_domainToFake g1)(d \<mapsto> \<lparr>fm_ip = ip1, fm_createdAt = now1\<rparr>),
                 hj_fakeToDomain := (hj_fakeToDomain g1)(ip1 \<mapsto> d), hj_fakeIPsIssued := hj_fakeIPsIssued g1 + 1\<rparr>"
    using a1 room by (auto simp: intercept_alloc_def Let_def split: prod.splits)
  note f1 = alloc_frame [OF c g1]
  have free1: "hj_fakeToDomain h ip1 = None"
    using allocateFakeIP_free [OF c fakeToDomain_small(1) [OF inv] _ g1] fakeToDomain_small(2) [OF inv] room
      \<open>hj_maxMappings h \<le> 254\<close> by simp
  have c1: "unat (hj_ipCounter h1) < 254" and f: "hj_fakeToDomain h1 = (hj_fakeToDomain h)(ip1 \<mapsto> d)"
    and dm: "hj_domainToFake h1 = (hj_domainToFake h)(d \<mapsto> \<lparr>fm_ip = ip1, fm_createdAt = now1\<rparr>)"
    and mx: "hj_maxMappings h1 = hj_maxMappings h"
    using f1 by (simp_all add: h1)
  have card1: "int (card (dom (hj_domainToFake h1))) < hj_maxMappings h1"
    using card_dom_upd [OF fin, of d] new room by (simp add: dm mx del: dom_fun_upd)
  obtain g2 where g2: "allocateFakeIPLocked h1 = (ip2, g2)"
    and h2: "h2 = g2\<lparr>hj_domainToFake := (hj_domainToFake g2)(d \<mapsto> \<lparr>fm_ip = ip2, fm_createdAt = now2\<rparr>),
                 hj_fakeToDomain := (hj_fakeToDomain g2)(ip2 \<mapsto> d), hj_fakeIPsIssued := hj_fakeIPsIssued g2 + 1\<rparr>"
    using a2 card1 by (auto simp: intercept_alloc_def Let_def split: prod.splits)
  note f2 = alloc_frame [OF c1 g2]
  have "finite (dom (hj_fakeToDomain h1))" "card (dom (hj_fakeToDomain h1)) < 254"
    using fakeToDomain_small [OF inv] room free1 card_dom_upd [of "hj_fakeToDomain h" ip1] \<open>hj_maxMappings h \<le> 254\<close>
    by (simp_all add: f del: dom_fun_upd)
  from allocateFakeIP_free [OF c1 this g2] have ne: "ip1 \<noteq> ip2" by (auto simp: f)
  obtain k where k: "ip1 = fake_ip k" using f1(4) by blast
  have "hj_domainToFake h2 e = Some m \<Longrightarrow> fm_ip m \<noteq> ip1" for e m
    using hj_invD(1) [OF inv, of e m] free1 ne by (auto simp: h2 f2 dm split: if_splits)
  moreover have "hj_fakeToDomain h2 ip1 = Some d" using ne by (simp add: h2 f2 f)
  ultimately have "GetDomainByFakeIP ip1 (cleanupExpired ord now h2) = Some d" for ord now
    using drop_other_mapping [of h2 k "Some d"] unfolding k GetDomainByFakeIP_def cleanupExpired_def by blast
  moreover have "GetFakeIPByDomain d h2 = Some ip2" by (simp add: GetFakeIPByDomain_def h2)
  ultimately show ?thesis using ne by blast
qed

text \<open>The lookup and the allocation of \<open>InterceptDNS\<close> are separate critical sections.  When two queries
  for the same new name both miss before either allocates, two addresses are issued, the name keeps
  only the second, and the first stays assigned after every later cleanup: the address is lost.\<close>

theorem concurrent_queries_leak_an_address:
  assumes "names_ok unpack" and "0 < maxMappings" and "maxMappings \<le> 254"
    and "(hj_step unpack)\<^sup>*\<^sup>* (NewHijacker up t maxMappings) h"
    and "intercept_lookup d h = (None, h1)" and "intercept_lookup d h1 = (None, h2)"
    and "int (card (dom (hj_domainToFake h))) + 1 < hj_maxMappings h"
    and "intercept_alloc ord1 now1 d h2 = (ip1, h3)" and "intercept_alloc ord2 now2 d h3 = (ip2, h4)"
  shows "ip1 \<noteq> ip2 \<and> GetFakeIPByDomain d h4 = Some ip2 \<and>
    (\<forall>ord now. GetDomainByFakeIP ip1 (cleanupExpired ord now h4) = Some d)"
proof (rule race_leaks [OF _ _ _ assms(8,9)])
  have inv: "hj_inv h" by (rule hj_run_inv [OF assms(1-4)])
  then show "hj_inv h2" using assms(5,6) by (auto simp: intercept_lookup_def split: option.splits)
  show "hj_domainToFake h2 d = None" "int (card (dom (hj_domainToFake h2))) + 1 < hj_maxMappings h2"
    using assms(5-7) by (auto simp: intercept_lookup_def split: option.splits)
qed

theorem concurrent_queries_leak_an_address_witness:
  "\<exists>h ip1 ip2. ip1 \<noteq> ip2 \<and> GetFakeIPByDomain ''a.'' h = Some ip2 \<and> GetDomainByFakeIP ip1 (cleanupExpired [''a.''] 0 h) = Some ''a.''"
proof -
  let ?h = "NewHijacker [] 0 100"
  obtain h1 h2 where l: "intercept_lookup ''a.'' ?h = (None, h1)" "intercept_lookup ''a.'' h1 = (None, h2)"
    by (simp add: intercept_lookup_def NewHijacker_def)
  obtain ip1 h3 ip2 h4 where "intercept_alloc [] 0 ''a.'' h2 = (ip1, h3)" "intercept_alloc [''a.''] 0 ''a.'' h3 = (ip2, h4)"
    by fastforce
  moreover have "int (card (dom (hj_domainToFake ?h))) + 1 < hj_maxMappings ?h" by (simp add: NewHijacker_def)
  ultimately show ?thesis
    using concurrent_queries_leak_an_address [OF example_names_ok _ _ rtranclp.rtrancl_refl l] by fastforce
qed

text \<open>Without a limit on the mappings the pool can be exhausted; then a new name takes over an address
  that another name still holds, and connections to the older name's address go to the new one.\<close>

lemma exhausted_pool_takes_over:
  assumes "unat (hj_ipCounter h) < 254" and "\<forall>k < 254. hj_fakeToDomain h (fake_ip k) \<noteq> None"
    and "hj_maxMappings h \<le> 0" and "intercept_alloc ord now d h = (ip, h')"
  shows "hj_fakeToDomain h ip \<noteq> None \<and> GetDomainByFakeIP ip h' = Some d"
proof -
  obtain g where "allocateFakeIPLocked h = (ip, g)"
    using assms(3,4) by (auto simp: intercept_alloc_def Let_def split: prod.splits)
  with alloc_frame(4) [OF assms(1) this] assms(2-4) show ?thesis
    by (auto simp: intercept_alloc_def Let_def GetDomainByFakeIP_def)
qed

end
