(* ===== verification/ProxyHandler.thy ===== *)
theory ProxyHandler
  imports ConnTrack DnsHijacker Metadata
begin

text \<open>
  The entry points of core/proxy_handler.go, which turn a connection of the network stack into a tracked
  session, the metadata with which the relays of core/conntrack.go dial the proxy, and the reports of
  core/conntrack_metrics.go.  The goroutines that the handlers start are those of the session theories.
\<close>

subsection \<open>Addresses\<close>

text \<open>\<open>Addr.AsSlice\<close>; the zero address gives nil.\<close>

fun AsSlice :: "addr \<Rightarrow> ip" where
  "AsSlice AddrZero = []"
| "AsSlice (Addr4 bs) = bs"
| "AsSlice (Addr6 bs _) = bs"

text \<open>The bytes of a \<open>tcpip.Address\<close>.\<close>

definition parseIP :: "byte list \<Rightarrow> addr" where
  "parseIP bs = (if length bs = 4 then Addr4 bs else if length bs = 16 then Addr6 bs [] else AddrZero)"

text \<open>None is the nil slice.\<close>

definition ipFromBytes :: "byte list option \<Rightarrow> addr" where
  "ipFromBytes ip =
     (case ip of
        None \<Rightarrow> AddrZero
      | Some bs \<Rightarrow> if length bs = 4 then Addr4 bs else if length bs = 16 then Addr6 bs [] else AddrZero)"

subsection \<open>The handler\<close>

record proxy_handler =
  ph_connTracker :: conn_tracker
  ph_dnsHijacker :: "hijacker option"

definition NewProxyHandler :: "hijacker option \<Rightarrow> proxy_handler" where
  "NewProxyHandler hj = \<lparr>ph_connTracker = NewConnTracker, ph_dnsHijacker = hj\<rparr>"

text \<open>The identity of an endpoint: the remote side is the client, the local side the destination.\<close>

record endpoint_id =
  ei_RemoteAddress :: "byte list"
  ei_RemotePort :: "16 word"
  ei_LocalAddress :: "byte list"
  ei_LocalPort :: "16 word"

definition tcp_meta :: "hijacker option \<Rightarrow> endpoint_id \<Rightarrow> conn_meta" where
  "tcp_meta hj ep =
     (let dst = parseIP (ei_LocalAddress ep);
          domain = (case hj of
                   None \<Rightarrow> []
                 | Some h \<Rightarrow> if IsFakeIP dst then (case GetDomainByFakeIP dst h of None \<Rightarrow> [] | Some d \<Rightarrow> d) else [])
      in \<lparr>SourceIP = parseIP (ei_RemoteAddress ep), SourcePort = ei_RemotePort ep, DestIP = dst, DestPort = ei_LocalPort ep,
          Protocol = 6, Domain = domain\<rparr>)"

text \<open>\<open>HandleTCP\<close> up to the start of its pumps; the result says whether the session was created, otherwise the
  connection is closed.\<close>

definition HandleTCP :: "instant \<Rightarrow> endpoint_id option \<Rightarrow> proxy_handler \<Rightarrow> nat option \<times> proxy_handler" where
  "HandleTCP now ep ph =
     (case ep of
        None \<Rightarrow> (None, ph)
      | Some ident \<Rightarrow>
          case CreateTCP now (tcp_meta (ph_dnsHijacker ph) ident) (ph_connTracker ph) of
            (None, ct) \<Rightarrow> (None, ph\<lparr>ph_connTracker := ct\<rparr>)
          | (Some i, ct) \<Rightarrow>
              (Some i, case start_pumps (ct_tcpHeap ct ! i) of
                         None \<Rightarrow> ph\<lparr>ph_connTracker := ct\<rparr>
                       | Some tc \<Rightarrow> ph\<lparr>ph_connTracker := ct\<lparr>ct_tcpHeap := (ct_tcpHeap ct)[i := tc]\<rparr>\<rparr>))"

definition udp_meta :: "metadata \<Rightarrow> conn_meta" where
  "udp_meta m = \<lparr>SourceIP = ipFromBytes (Some (SrcIP m)), SourcePort = SrcPort m, DestIP = ipFromBytes (Some (DstIP m)), DestPort = DstPort m,
     Protocol = 17, Domain = []\<rparr>"

text \<open>\<open>HandleUDP\<close> looks the session up and creates it when there is none; either way a pair of pumps starts on it.\<close>

definition HandleUDP :: "instant \<Rightarrow> metadata option \<Rightarrow> proxy_handler \<Rightarrow> nat option \<times> proxy_handler" where
  "HandleUDP now md ph =
     (case md of
        None \<Rightarrow> (None, ph)
      | Some m \<Rightarrow>
          let meta = udp_meta m; ct = ph_connTracker ph;
              (found, ct1) = (case GetUDP (SourceIP meta) (SourcePort meta) (DestIP meta) (DestPort meta) ct of
                                Some i \<Rightarrow> (Some i, ct)
                              | None \<Rightarrow>
                                  (case CreateUDP_insert now meta ct of
                                     (None, ct') \<Rightarrow> (None, ct')
                                   | (Some i, ct') \<Rightarrow>
                                       (Some i, case spawn_udp_relay (ct_udpHeap ct' ! i) of
                                                  None \<Rightarrow> ct'
                                                | Some uc \<Rightarrow> ct'\<lparr>ct_udpHeap := (ct_udpHeap ct')[i := uc]\<rparr>)))
          in case found of
               None \<Rightarrow> (None, ph\<lparr>ph_connTracker := ct1\<rparr>)
             | Some i \<Rightarrow>
                 (Some i, ph\<lparr>ph_connTracker := ct1\<lparr>ct_udpHeap := (ct_udpHeap ct1)[i := start_udp_pumps (ct_udpHeap ct1 ! i)]\<rparr>\<rparr>))"

subsection \<open>What the relays dial\<close>

definition tcp_dial_metadata :: "conn_meta \<Rightarrow> metadata" where
  "tcp_dial_metadata m =
     new_metadata\<lparr>md_Network := TCP, SrcIP := AsSlice (SourceIP m), SrcPort := SourcePort m,
                  DstIP := AsSlice (DestIP m), DstPort := DestPort m\<rparr>"

definition udp_dial_metadata :: "conn_meta \<Rightarrow> metadata" where
  "udp_dial_metadata m =
     new_metadata\<lparr>md_Network := UDP, SrcIP := AsSlice (SourceIP m), SrcPort := SourcePort m,
                  DstIP := AsSlice (DestIP m), DstPort := DestPort m\<rparr>"

lemma AsSlice_parseIP: "length bs = 4 \<or> length bs = 16 \<Longrightarrow> AsSlice (parseIP bs) = bs"
  by (auto simp: parseIP_def)

text \<open>A connection to an address that the DNS hijacker made up is recognised, its domain is stored in the
  session, and then the proxy is asked for the made-up address: the metadata of the dial names the
  address and nothing of the domain reaches the proxy.\<close>

theorem hijacked_connection_dials_fake_address:
  assumes "ei_LocalAddress ep = bs" and "length bs = 4" and "IsFakeIP (Addr4 bs)"
    and "GetDomainByFakeIP (Addr4 bs) h = Some name"
  shows "Domain (tcp_meta (Some h) ep) = name \<and>
    fst (DestinationAddress (tcp_dial_metadata (tcp_meta (Some h) ep))) =
      JoinHostPort (IP_String bs) (FormatUint (unat (ei_LocalPort ep))) \<and>
    tcp_dial_metadata (tcp_meta (Some h) ep) = tcp_dial_metadata (tcp_meta None ep)"
  using assms
  by (simp add: tcp_meta_def parseIP_def tcp_dial_metadata_def DestinationAddress_def new_metadata_def Let_def)

definition example_ep :: endpoint_id where
  "example_ep = \<lparr>ei_RemoteAddress = [192, 168, 1, 2], ei_RemotePort = 40000, ei_LocalAddress = [198, 51, 100, 7], ei_LocalPort = 443\<rparr>"

definition example_hijacker :: hijacker where
  "example_hijacker = (NewHijacker [] 0 0)\<lparr>hj_fakeToDomain := [Addr4 [198, 51, 100, 7] \<mapsto> ''example.com'']\<rparr>"

theorem hijacked_connection_dials_fake_address_witness:
  "Domain (tcp_meta (Some example_hijacker) example_ep) = ''example.com'' \<and>
   fst (DestinationAddress (tcp_dial_metadata (tcp_meta (Some example_hijacker) example_ep))) = ''198.51.100.7:443''"
proof -
  have j: "JoinHostPort (IP_String [198, 51, 100, 7]) (FormatUint (unat (443 :: 16 word))) = ''198.51.100.7:443''" by code_simp
  have h: "ei_LocalAddress example_ep = [198, 51, 100, 7]" "length [198, 51, 100, 7 :: byte] = 4" "IsFakeIP (Addr4 [198, 51, 100, 7])"
    "GetDomainByFakeIP (Addr4 [198, 51, 100, 7]) example_hijacker = Some ''example.com''"
    by (simp_all add: example_ep_def example_hijacker_def IsFakeIP_def GetDomainByFakeIP_def)
  have p: "ei_LocalPort example_ep = 443" by (simp add: example_ep_def)
  show ?thesis using hijacked_connection_dials_fake_address [OF h] unfolding p j by (elim conjE, intro conjI)
qed

subsection \<open>Flows\<close>

definition same_flow :: "endpoint_id \<Rightarrow> endpoint_id \<Rightarrow> bool" where
  "same_flow a b \<longleftrightarrow> ei_RemoteAddress a = ei_RemoteAddress b \<and> ei_RemotePort a = ei_RemotePort b \<and>
     ei_LocalAddress a = ei_LocalAddress b \<and> ei_LocalPort a = ei_LocalPort b"

definition flow_key :: "endpoint_id \<Rightarrow> conn_key" where
  "flow_key ep = tcpKey (parseIP (ei_RemoteAddress ep)) (ei_RemotePort ep) (parseIP (ei_LocalAddress ep)) (ei_LocalPort ep)"

lemma tcp_meta_key: "tcpKey (SourceIP (tcp_meta hj ep)) (SourcePort (tcp_meta hj ep)) (DestIP (tcp_meta hj ep)) (DestPort (tcp_meta hj ep)) = flow_key ep"
  by (simp add: tcp_meta_def flow_key_def Let_def)

lemma HandleTCP_tracked:
  assumes "ct_tcpConns (ph_connTracker ph) (flow_key ep) = Some i"
  shows "fst (HandleTCP now (Some ep) ph) = None \<and>
    ct_tcpConns (ph_connTracker (snd (HandleTCP now (Some ep) ph))) = ct_tcpConns (ph_connTracker ph)"
  using assms by (simp add: HandleTCP_def CreateTCP_def CreateTCP_insert_def tcp_meta_key Let_def)

lemma HandleTCP_new:
  assumes "ct_tcpConns (ph_connTracker ph) (flow_key ep) = None"
  shows "fst (HandleTCP now (Some ep) ph) = Some (length (ct_tcpHeap (ph_connTracker ph))) \<and>
    ct_tcpConns (ph_connTracker (snd (HandleTCP now (Some ep) ph))) =
      (ct_tcpConns (ph_connTracker ph))(flow_key ep \<mapsto> length (ct_tcpHeap (ph_connTracker ph)))"
  using assms
  by (simp add: HandleTCP_def CreateTCP_def CreateTCP_insert_def tcp_meta_key Let_def spawn_relays_def start_pumps_def new_TCPConn_def)

text \<open>A flow is tracked once: after \<open>HandleTCP\<close> the session of the flow is in the table, under its index if it
  was created and under the earlier one if not, and as long as nothing is removed every further connection
  of the same flow is refused and changes no entry.\<close>

theorem flow_tracked_once:
  assumes "HandleTCP now (Some ep) ph = (r, ph1)" and "same_flow ep ep'" and "HandleTCP now' (Some ep') ph1 = (r', ph2)"
  shows "(\<exists>i. ct_tcpConns (ph_connTracker ph1) (flow_key ep) = Some i \<and> (r = None \<or> r = Some i)) \<and> r' = None \<and>
    ct_tcpConns (ph_connTracker ph2) = ct_tcpConns (ph_connTracker ph1)"
proof -
  have k: "flow_key ep' = flow_key ep" using assms(2) by (simp add: same_flow_def flow_key_def)
  obtain i where i: "ct_tcpConns (ph_connTracker ph1) (flow_key ep) = Some i" "r = None \<or> r = Some i"
    using HandleTCP_new [of ph ep now] HandleTCP_tracked [of ph ep _ now] assms(1)
    by (cases "ct_tcpConns (ph_connTracker ph) (flow_key ep)") auto
  then show ?thesis using HandleTCP_tracked [of ph1 ep' i now'] assms(3) k by auto
qed

theorem flow_tracked_once_witness:
  "\<exists>ph1 ph2. HandleTCP 0 (Some example_ep) (NewProxyHandler None) = (Some 0, ph1) \<and> HandleTCP 1 (Some example_ep) ph1 = (None, ph2)"
proof -
  obtain r ph1 where h1: "HandleTCP 0 (Some example_ep) (NewProxyHandler None) = (r, ph1)" by fastforce
  obtain r' ph2 where h2: "HandleTCP 1 (Some example_ep) ph1 = (r', ph2)" by fastforce
  have "r = Some 0"
    using HandleTCP_new [of "NewProxyHandler None" example_ep 0] h1 by (simp add: NewProxyHandler_def NewConnTracker_def)
  then show ?thesis using flow_tracked_once [OF h1 _ h2] h1 h2 by (simp add: same_flow_def)
qed

subsection \<open>Reports\<close>

record metrics_snapshot =
  ms_ActiveTCP :: int
  ms_ActiveUDP :: int
  ms_TotalTCP :: "64 word"
  ms_TotalUDP :: "64 word"
  ms_DroppedTCP :: "64 word"
  ms_DroppedUDP :: "64 word"
  ms_BytesSent :: "64 word"
  ms_BytesReceived :: "64 word"
  ms_DialErrors :: "64 word"
  ms_WriteErrors :: "64 word"
  ms_ReadErrors :: "64 word"
  ms_AvgLatencyMs :: "64 word"
  ms_LastUpdate :: instant

text \<open>\<open>ConnMetrics\<close> has the same fields; its timestamp is in seconds.\<close>

definition NewConnMetrics :: metrics_snapshot where
  "NewConnMetrics = \<lparr>ms_ActiveTCP = 0, ms_ActiveUDP = 0, ms_TotalTCP = 0, ms_TotalUDP = 0, ms_DroppedTCP = 0, ms_DroppedUDP = 0,
     ms_BytesSent = 0, ms_BytesReceived = 0, ms_DialErrors = 0, ms_WriteErrors = 0, ms_ReadErrors = 0, ms_AvgLatencyMs = 0, ms_LastUpdate = 0\<rparr>"

definition RecordDialError :: "instant \<Rightarrow> metrics_snapshot \<Rightarrow> metrics_snapshot" where
  "RecordDialError now m = m\<lparr>ms_DialErrors := ms_DialErrors m + 1, ms_LastUpdate := now\<rparr>"

definition RecordWriteError :: "instant \<Rightarrow> metrics_snapshot \<Rightarrow> metrics_snapshot" where
  "RecordWriteError now m = m\<lparr>ms_WriteErrors := ms_WriteErrors m + 1, ms_LastUpdate := now\<rparr>"

definition RecordReadError :: "instant \<Rightarrow> metrics_snapshot \<Rightarrow> metrics_snapshot" where
  "RecordReadError now m = m\<lparr>ms_ReadErrors := ms_ReadErrors m + 1, ms_LastUpdate := now\<rparr>"

definition RecordTraffic :: "instant \<Rightarrow> 64 word \<Rightarrow> 64 word \<Rightarrow> metrics_snapshot \<Rightarrow> metrics_snapshot" where
  "RecordTraffic now sent received m =
     m\<lparr>ms_BytesSent := ms_BytesSent m + sent, ms_BytesReceived := ms_BytesReceived m + received, ms_LastUpdate := now\<rparr>"

definition RecordLatency :: "instant \<Rightarrow> 64 word \<Rightarrow> metrics_snapshot \<Rightarrow> metrics_snapshot" where
  "RecordLatency now latencyMs m = m\<lparr>ms_AvgLatencyMs := (ms_AvgLatencyMs m + latencyMs) div 2, ms_LastUpdate := now\<rparr>"

definition ct_GetMetrics :: "instant \<Rightarrow> conn_tracker \<Rightarrow> metrics_snapshot" where
  "ct_GetMetrics now ct =
     (let (ta, tt, td) = GetTCPStats ct; (ua, ut, ud) = GetUDPStats ct
      in NewConnMetrics\<lparr>ms_ActiveTCP := ta, ms_ActiveUDP := ua, ms_TotalTCP := tt, ms_TotalUDP := ut,
           ms_DroppedTCP := td, ms_DroppedUDP := ud, ms_LastUpdate := now\<rparr>)"

datatype health_status = HealthUnknown | HealthHealthy | HealthDegraded | HealthUnhealthy

definition HealthStatus_String :: "health_status \<Rightarrow> string" where
  "HealthStatus_String st =
     (case st of HealthHealthy \<Rightarrow> ''healthy'' | HealthDegraded \<Rightarrow> ''degraded'' | HealthUnhealthy \<Rightarrow> ''unhealthy'' | HealthUnknown \<Rightarrow> ''unknown'')"

record health_check =
  hc_Status :: health_status
  hc_ActiveConns :: int
  hc_ErrorRate :: rat
  hc_AvgLatencyMs :: "64 word"
  hc_Message :: string

definition CheckHealth :: "instant \<Rightarrow> conn_tracker \<Rightarrow> health_check" where
  "CheckHealth now ct =
     (let m = ct_GetMetrics now ct;
          totalConns = i32 (ms_ActiveTCP m + ms_ActiveUDP m);
          totalErrors = sint (ms_DialErrors m + ms_WriteErrors m + ms_ReadErrors m);
          errorRate = (if totalConns > 0 then of_int totalErrors / of_int totalConns else 0);
          (status, message) =
            (if errorRate > 1 / 10 then (HealthUnhealthy, ''High error rate detected'')
             else if errorRate > 5 / 100 then (HealthDegraded, ''Elevated error rate'')
             else if ms_AvgLatencyMs m > 1000 then (HealthDegraded, ''High latency detected'')
             else (HealthHealthy, ''All systems operational''))
      in \<lparr>hc_Status = status, hc_ActiveConns = totalConns, hc_ErrorRate = errorRate, hc_AvgLatencyMs = ms_AvgLatencyMs m, hc_Message = message\<rparr>)"

text \<open>The health check of the tracker has one answer: it reads error and latency counters that the snapshot
  never fills, so that every tracker in every state is healthy.\<close>

theorem check_health_always_healthy:
  "hc_Status (CheckHealth now ct) = HealthHealthy \<and> hc_ErrorRate (CheckHealth now ct) = 0"
  by (simp add: CheckHealth_def ct_GetMetrics_def NewConnMetrics_def GetTCPStats_def GetUDPStats_def Let_def)

text \<open>\<open>formatUint64\<close> appends the digits, the last one first, to a buffer of the pool and reverses the whole slice.\<close>

fun format_digits :: "nat \<Rightarrow> string" where
  "format_digits v = (if v \<ge> 10 then char_of (48 + v - v div 10 * 10) # format_digits (v div 10) else [char_of (48 + v)])"

declare format_digits.simps [simp del]

definition formatUint64 :: "nat option \<Rightarrow> buffer_pool \<Rightarrow> 64 word \<Rightarrow> string" where
  "formatUint64 pick p v =
     (let b = fst (Buf_Get pick SmallBufferSize p)
      in rev (map (\<lambda>x. char_of (unat x)) (take (sl_len b) (sl_array b)) @ format_digits (unat v)))"

lemma rev_format_digits: "rev (format_digits n) = FormatUint n"
proof (induction n rule: format_digits.induct)
  case (1 n)
  have m: "48 + n - n div 10 * 10 = 48 + n mod 10" using div_mult_mod_eq [of n 10] by linarith
  show ?case
  proof (cases "n \<ge> 10")
    case True
    then show ?thesis using 1 m by (subst format_digits.simps, subst FormatUint.simps) simp
  next
    case False
    then show ?thesis by (subst format_digits.simps, subst FormatUint.simps) simp
  qed
qed

text \<open>The number formatter of the metrics agrees with the library's, whatever buffer the pool hands out.\<close>

theorem formatUint64_correct: "formatUint64 pick p v = FormatUint (unat v)"
  by (simp add: formatUint64_def Buf_Get_len rev_format_digits Let_def)

end
