(* ===== verification/FilterRouter.thy ===== *)
theory FilterRouter
  imports GoNet "HOL-Library.Multiset"
begin

text \<open>
  The destination filter of \<^verbatim>\<open>router/filter.go\<close>: networks, single addresses and domain names with
  wildcards, used as a whitelist or a blacklist.
\<close>

datatype filter_type = FilterTypeNone | FilterTypeWhitelist | FilterTypeBlacklist

record filter_router =
  fr_filterType :: filter_type
  fr_networks :: "netip_prefix list"
  fr_domains :: "string set"
  fr_ipSet :: "addr set"

record filter_config =
  fc_FilterType :: filter_type
  fc_Networks :: "string list"
  fc_Domains :: "string list"
  fc_IPs :: "string list"

definition FilterType_String :: "filter_type \<Rightarrow> string" where
  "FilterType_String f =
     (case f of FilterTypeWhitelist \<Rightarrow> ''whitelist'' | FilterTypeBlacklist \<Rightarrow> ''blacklist'' | FilterTypeNone \<Rightarrow> ''none'')"

definition New_filter :: "filter_config \<Rightarrow> filter_router" where
  "New_filter cfg =
     \<lparr>fr_filterType = fc_FilterType cfg,
      fr_networks = List.map_filter ParsePrefix (fc_Networks cfg),
      fr_domains = ToLower ` set (fc_Domains cfg),
      fr_ipSet = set (List.map_filter ParseAddr (fc_IPs cfg))\<rparr>"

definition matchesFilter :: "addr \<Rightarrow> string \<Rightarrow> filter_router \<Rightarrow> bool" where
  "matchesFilter ip domain0 r =
     (let domain = ToLower domain0
      in if domain0 \<noteq> [] \<and> domain \<in> fr_domains r then True
         else if domain0 \<noteq> [] \<and> (\<exists>d \<in> fr_domains r. HasPrefix d ''*.'' \<and> HasSuffix domain (drop 1 d)) then True
         else if addr_IsValid ip \<and> ip \<in> fr_ipSet r then True
         else addr_IsValid ip \<and> list_ex (\<lambda>n. Prefix_Contains n ip) (fr_networks r))"

definition ShouldProxy :: "addr \<Rightarrow> string \<Rightarrow> filter_router \<Rightarrow> bool" where
  "ShouldProxy ip domain r =
     (case fr_filterType r of
        FilterTypeNone \<Rightarrow> True
      | FilterTypeWhitelist \<Rightarrow> matchesFilter ip domain r
      | FilterTypeBlacklist \<Rightarrow> \<not> matchesFilter ip domain r)"

definition privateRanges :: "string list" where
  "privateRanges = [''10.0.0.0/8'', ''172.16.0.0/12'', ''192.168.0.0/16'', ''127.0.0.0/8'', ''169.254.0.0/16'',
     ''192.0.2.0/24'', ''198.51.100.0/24'', ''203.0.113.0/24'']"

text \<open>The literal ranges all parse, so that \<open>mustParsePrefix\<close> never panics.\<close>

definition mustParsePrefix :: "string \<Rightarrow> netip_prefix" where
  "mustParsePrefix s = the (ParsePrefix s)"

definition IsPrivateIP :: "addr \<Rightarrow> bool" where
  "IsPrivateIP ip \<longleftrightarrow> addr_IsValid ip \<and> list_ex (\<lambda>s. Prefix_Contains (mustParsePrefix s) ip) privateRanges"

definition IsMulticastIP :: "addr \<Rightarrow> bool" where
  "IsMulticastIP ip =
     (case ip of Addr4 bs \<Rightarrow> and (bs ! 0) 0xF0 = 0xE0 | _ \<Rightarrow> False)"

text \<open>False is the parse error.\<close>

definition AddNetwork :: "string \<Rightarrow> filter_router \<Rightarrow> bool \<times> filter_router" where
  "AddNetwork cidr r =
     (case ParsePrefix cidr of
        None \<Rightarrow> (False, r)
      | Some p \<Rightarrow> (True, r\<lparr>fr_networks := fr_networks r @ [p]\<rparr>))"

definition RemoveNetwork :: "string \<Rightarrow> filter_router \<Rightarrow> bool \<times> filter_router" where
  "RemoveNetwork cidr r =
     (case ParsePrefix cidr of
        None \<Rightarrow> (False, r)
      | Some p \<Rightarrow> (True, r\<lparr>fr_networks := remove1 p (fr_networks r)\<rparr>))"

definition AddDomain :: "string \<Rightarrow> filter_router \<Rightarrow> filter_router" where
  "AddDomain d r = r\<lparr>fr_domains := insert (ToLower d) (fr_domains r)\<rparr>"

definition RemoveDomain :: "string \<Rightarrow> filter_router \<Rightarrow> filter_router" where
  "RemoveDomain d r = r\<lparr>fr_domains := fr_domains r - {ToLower d}\<rparr>"

definition AddIP :: "string \<Rightarrow> filter_router \<Rightarrow> bool \<times> filter_router" where
  "AddIP s r =
     (case ParseAddr s of None \<Rightarrow> (False, r) | Some a \<Rightarrow> (True, r\<lparr>fr_ipSet := insert a (fr_ipSet r)\<rparr>))"

definition RemoveIP :: "string \<Rightarrow> filter_router \<Rightarrow> bool \<times> filter_router" where
  "RemoveIP s r =
     (case ParseAddr s of None \<Rightarrow> (False, r) | Some a \<Rightarrow> (True, r\<lparr>fr_ipSet := fr_ipSet r - {a}\<rparr>))"

definition SetFilterType :: "filter_type \<Rightarrow> filter_router \<Rightarrow> filter_router" where
  "SetFilterType f r = r\<lparr>fr_filterType := f\<rparr>"

definition Filter_GetStats :: "filter_router \<Rightarrow> string \<times> nat \<times> nat \<times> nat" where
  "Filter_GetStats r =
     (FilterType_String (fr_filterType r), length (fr_networks r), card (fr_domains r), card (fr_ipSet r))"

definition DefaultBlacklist :: filter_router where
  "DefaultBlacklist = New_filter
     \<lparr>fc_FilterType = FilterTypeBlacklist,
      fc_Networks = [''10.0.0.0/8'', ''172.16.0.0/12'', ''192.168.0.0/16'', ''127.0.0.0/8'', ''169.254.0.0/16'',
        ''224.0.0.0/4'', ''240.0.0.0/4''],
      fc_Domains = [], fc_IPs = []\<rparr>"

definition DefaultWhitelist :: filter_router where
  "DefaultWhitelist = New_filter
     \<lparr>fc_FilterType = FilterTypeWhitelist, fc_Networks = [], fc_Domains = [], fc_IPs = []\<rparr>"

subsection \<open>Prefixes as ranges\<close>

lemma byte_bits_inj: "byte_bits a = byte_bits b \<longleftrightarrow> a = b"
proof
  assume "byte_bits a = byte_bits b"
  then have "bit a n = bit b n" if "n < 8" for n
    using that by (auto simp: byte_bits_def less_Suc_eq eval_nat_numeral)
  then show "a = b" by (intro bit_word_eqI) simp
qed simp

lemma length_byte_bits [simp]: "length (byte_bits b) = 8"
  by (simp add: byte_bits_def)

lemma bits_of_Cons: "bits_of (b # bs) = byte_bits b @ bits_of bs"
  by (simp add: bits_of_def)

lemma take_byte_bits:
  assumes "k \<le> 8"
  shows "take k (byte_bits a) = take k (byte_bits b) \<longleftrightarrow> drop_bit (8 - k) a = drop_bit (8 - k) b"
proof -
  have e: "take k (byte_bits a) ! i = bit a (7 - i)" if "i < k" for i and a :: byte
  proof -
    have "i = 0 \<or> i = 1 \<or> i = 2 \<or> i = 3 \<or> i = 4 \<or> i = 5 \<or> i = 6 \<or> i = 7" using that assms by linarith
    then show ?thesis using that by (auto simp: byte_bits_def)
  qed
  have "take k (byte_bits a) = take k (byte_bits b) \<longleftrightarrow> (\<forall>i < k. bit a (7 - i) = bit b (7 - i))"
    using assms e by (simp add: list_eq_iff_nth_eq)
  also have "\<dots> \<longleftrightarrow> (\<forall>n. bit (drop_bit (8 - k) a) n = bit (drop_bit (8 - k) b) n)"
  proof
    assume *: "\<forall>i < k. bit a (7 - i) = bit b (7 - i)"
    show "\<forall>n. bit (drop_bit (8 - k) a) n = bit (drop_bit (8 - k) b) n"
    proof
      fix n
      show "bit (drop_bit (8 - k) a) n = bit (drop_bit (8 - k) b) n"
      proof (cases "n < k")
        case True
        with *[rule_format, of "k - 1 - n"] assms show ?thesis by (simp add: bit_drop_bit_eq)
      next
        case False
        then have "\<not> bit c (8 - k + n)" for c :: byte using assms bit_imp_le_length [of c "8 - k + n"] by auto
        then show ?thesis by (simp add: bit_drop_bit_eq)
      qed
    qed
  next
    assume *: "\<forall>n. bit (drop_bit (8 - k) a) n = bit (drop_bit (8 - k) b) n"
    show "\<forall>i < k. bit a (7 - i) = bit b (7 - i)"
    proof (intro allI impI)
      fix i
      assume "i < k"
      with *[rule_format, of "k - 1 - i"] assms show "bit a (7 - i) = bit b (7 - i)" by (simp add: bit_drop_bit_eq)
    qed
  qed
  also have "\<dots> \<longleftrightarrow> drop_bit (8 - k) a = drop_bit (8 - k) b" by (metis bit_word_eqI)
  finally show ?thesis .
qed

text \<open>An IPv4 prefix of 8, 16 or 24 bits fixes leading bytes, one of up to 8 or 16 bits the leading bits
  of the last byte it reaches.\<close>

lemma Prefix_4:
  "k \<le> 8 \<Longrightarrow> Prefix_Contains (Prefix (Addr4 [p, q, u, v]) k) (Addr4 [a, b, c, d]) \<longleftrightarrow>
     drop_bit (8 - k) a = drop_bit (8 - k) p"
  "8 \<le> k \<Longrightarrow> k \<le> 16 \<Longrightarrow> Prefix_Contains (Prefix (Addr4 [p, q, u, v]) k) (Addr4 [a, b, c, d]) \<longleftrightarrow>
     a = p \<and> drop_bit (16 - k) b = drop_bit (16 - k) q"
  "Prefix_Contains (Prefix (Addr4 [p, q, u, v]) 24) (Addr4 [a, b, c, d]) \<longleftrightarrow> a = p \<and> b = q \<and> c = u"
proof -
  show "k \<le> 8 \<Longrightarrow> Prefix_Contains (Prefix (Addr4 [p, q, u, v]) k) (Addr4 [a, b, c, d]) \<longleftrightarrow>
      drop_bit (8 - k) a = drop_bit (8 - k) p"
    by (simp add: bits_of_Cons take_byte_bits)
  have "(xs @ take m ys = xs' @ take m ys') \<longleftrightarrow> xs = xs' \<and> take m ys = take m ys'"
    if "length xs = length xs'" for xs xs' ys ys' :: "bool list" and m
    using that by simp
  then show "8 \<le> k \<Longrightarrow> k \<le> 16 \<Longrightarrow> Prefix_Contains (Prefix (Addr4 [p, q, u, v]) k) (Addr4 [a, b, c, d]) \<longleftrightarrow>
      a = p \<and> drop_bit (16 - k) b = drop_bit (16 - k) q"
    using take_byte_bits [of "k - 8" b q] by (auto simp: bits_of_Cons byte_bits_inj)
  show "Prefix_Contains (Prefix (Addr4 [p, q, u, v]) 24) (Addr4 [a, b, c, d]) \<longleftrightarrow> a = p \<and> b = q \<and> c = u"
    by (simp add: bits_of_Cons byte_bits_inj)
qed

subsection \<open>Properties\<close>

lemma parse_default_networks:
  "List.map_filter ParsePrefix [''10.0.0.0/8'', ''172.16.0.0/12'', ''192.168.0.0/16'', ''127.0.0.0/8'', ''169.254.0.0/16'',
        ''224.0.0.0/4'', ''240.0.0.0/4''] =
   [Prefix (Addr4 [10, 0, 0, 0]) 8, Prefix (Addr4 [172, 16, 0, 0]) 12, Prefix (Addr4 [192, 168, 0, 0]) 16,
    Prefix (Addr4 [127, 0, 0, 0]) 8, Prefix (Addr4 [169, 254, 0, 0]) 16, Prefix (Addr4 [224, 0, 0, 0]) 4,
    Prefix (Addr4 [240, 0, 0, 0]) 4]"
  by code_simp

lemma drop_bit_byte_eq: "drop_bit n (x :: byte) = y \<longleftrightarrow> unat x div 2 ^ n = unat y"
  by (simp add: word_unat_eq_iff unat_drop_bit_eq drop_bit_eq_div [where ?'a = nat])

text \<open>The default blacklist, parsed from its texts, keeps from the proxy exactly the private, loopback,
  link-local, multicast and reserved IPv4 addresses.\<close>

theorem default_blacklist_ranges:
  "ShouldProxy (Addr4 [a, b, c, d]) [] DefaultBlacklist \<longleftrightarrow>
     \<not> (a = 10 \<or> a = 172 \<and> 16 \<le> b \<and> b < 32 \<or> a = 192 \<and> b = 168 \<or> a = 127 \<or> a = 169 \<and> b = 254 \<or> 224 \<le> a)"
proof -
  have nets: "fr_networks DefaultBlacklist = [Prefix (Addr4 [10, 0, 0, 0]) 8, Prefix (Addr4 [172, 16, 0, 0]) 12,
      Prefix (Addr4 [192, 168, 0, 0]) 16, Prefix (Addr4 [127, 0, 0, 0]) 8, Prefix (Addr4 [169, 254, 0, 0]) 16,
      Prefix (Addr4 [224, 0, 0, 0]) 4, Prefix (Addr4 [240, 0, 0, 0]) 4]"
    unfolding DefaultBlacklist_def New_filter_def by (simp only: parse_default_networks filter_config.simps filter_router.simps)
  have rest: "fr_filterType DefaultBlacklist = FilterTypeBlacklist" "fr_ipSet DefaultBlacklist = {}"
    by (simp_all add: DefaultBlacklist_def New_filter_def)
  have lt: "unat a < 256" "unat b < 256" using unsigned_less [of a, where ?'a = nat] unsigned_less [of b, where ?'a = nat] by simp_all
  have "unat b div 16 = 1 \<longleftrightarrow> 16 \<le> unat b \<and> unat b < 32" by linarith
  then have "drop_bit 4 b = drop_bit 4 16 \<longleftrightarrow> 16 \<le> b \<and> b < 32"
    unfolding drop_bit_byte_eq word_le_nat_alt word_less_nat_alt by simp
  moreover have "unat a div 16 = 14 \<or> unat a div 16 = 15 \<longleftrightarrow> 224 \<le> unat a" using lt(1) by linarith
  then have "drop_bit 4 a = drop_bit 4 224 \<or> drop_bit 4 a = drop_bit 4 240 \<longleftrightarrow> 224 \<le> a"
    unfolding drop_bit_byte_eq word_le_nat_alt by simp
  ultimately show ?thesis
    by (simp add: ShouldProxy_def matchesFilter_def rest nets addr_IsValid_def Prefix_4 del: Prefix_Contains.simps)
qed

text \<open>An IPv4 address written in IPv6 form escapes a filter of IPv4 entries: whatever addresses and
  networks a blacklist names, as long as all of them are IPv4, it lets every IPv4-mapped address
  through to the proxy, and a whitelist rejects it.\<close>

theorem mapped_addresses_escape_filter:
  assumes "\<forall>p \<in> set (fr_networks r). \<exists>bs n. p = Prefix (Addr4 bs) n" and "\<forall>a \<in> fr_ipSet r. \<exists>bs. a = Addr4 bs"
  shows "ShouldProxy (Addr6 (v4InV6Prefix @ bs) z) [] r \<longleftrightarrow> fr_filterType r \<noteq> FilterTypeWhitelist"
proof -
  have "\<not> list_ex (\<lambda>n. Prefix_Contains n (Addr6 (v4InV6Prefix @ bs) z)) (fr_networks r)"
    using assms(1) by (fastforce simp: list_ex_iff)
  moreover have "Addr6 (v4InV6Prefix @ bs) z \<notin> fr_ipSet r" using assms(2) by blast
  ultimately show ?thesis
    by (auto simp: ShouldProxy_def matchesFilter_def split: filter_type.split)
qed

theorem mapped_addresses_escape_filter_witness:
  "ShouldProxy (Addr6 (v4InV6Prefix @ [10, 0, 0, 1]) []) [] DefaultBlacklist"
proof -
  have "fr_ipSet DefaultBlacklist = {}" "fr_filterType DefaultBlacklist = FilterTypeBlacklist"
    by (simp_all add: DefaultBlacklist_def New_filter_def)
  moreover have "\<forall>p \<in> set (fr_networks DefaultBlacklist). \<exists>bs n. p = Prefix (Addr4 bs) n"
    unfolding DefaultBlacklist_def New_filter_def
    by (simp only: parse_default_networks filter_config.simps filter_router.simps) simp
  ultimately show ?thesis using mapped_addresses_escape_filter [of DefaultBlacklist] by simp
qed

lemma matchesFilter_cong:
  assumes "set (fr_networks r) = set (fr_networks r')" and "fr_domains r = fr_domains r'" and "fr_ipSet r = fr_ipSet r'"
  shows "matchesFilter ip d r = matchesFilter ip d r'"
  unfolding matchesFilter_def list_ex_iff assms by (rule refl)

text \<open>Adding a network and removing it again leaves every decision as it was.\<close>

lemma add_remove_network:
  assumes "AddNetwork cidr r = (True, r1)" and "RemoveNetwork cidr r1 = (ok, r2)"
  shows "ok \<and> ShouldProxy ip d r2 = ShouldProxy ip d r"
proof -
  obtain p where p: "ParsePrefix cidr = Some p" "r1 = r\<lparr>fr_networks := fr_networks r @ [p]\<rparr>"
    using assms(1) by (auto simp: AddNetwork_def split: option.splits)
  have "set (remove1 p (fr_networks r @ [p])) = set (fr_networks r)"
  proof -
    have "mset (remove1 p (fr_networks r @ [p])) = mset (fr_networks r)" by simp
    then show ?thesis by (metis set_mset_mset)
  qed
  moreover have "ok" "r2 = r\<lparr>fr_networks := remove1 p (fr_networks r @ [p])\<rparr>"
    using assms(2) p by (auto simp: RemoveNetwork_def)
  ultimately have "ok" and "matchesFilter ip d r2 = matchesFilter ip d r" and "fr_filterType r2 = fr_filterType r"
    by (simp, intro matchesFilter_cong, simp_all)
  then show ?thesis by (simp only: ShouldProxy_def)
qed

end
