(* ===== verification/DnsRateLimit.thy ===== *)
theory DnsRateLimit
  imports Prelude
begin

text \<open>
  The token bucket of \<^verbatim>\<open>dns/rate_limiter.go\<close> and the resolver that waits on it.  Every reading of the
  clock is an argument; a waiting loop takes the list of its readings and has no result when the
  list ends before the loop does.
\<close>

record rate_limiter =
  rl_tokens :: int
  rl_maxTokens :: int
  rl_refillRate :: duration
  rl_lastRefill :: instant

definition NewRateLimiter :: "int \<Rightarrow> duration \<Rightarrow> instant \<Rightarrow> rate_limiter" where
  "NewRateLimiter maxTokens refillRate now =
     \<lparr>rl_tokens = maxTokens, rl_maxTokens = maxTokens, rl_refillRate = refillRate, rl_lastRefill = now\<rparr>"

definition rl_refill :: "instant \<Rightarrow> rate_limiter \<Rightarrow> rate_limiter" where
  "rl_refill now r =
     (let elapsed = now - rl_lastRefill r; tokensToAdd = go_div elapsed (rl_refillRate r)
      in if tokensToAdd > 0 then
           let remainder = elapsed - tokensToAdd * rl_refillRate r
           in r\<lparr>rl_tokens := min (rl_maxTokens r) (i64 (rl_tokens r + tokensToAdd)),
                rl_lastRefill := now - remainder\<rparr>
         else r)"

text \<open>None is the panic of a division by a zero refill rate.\<close>

definition rl_Allow :: "instant \<Rightarrow> rate_limiter \<Rightarrow> (bool \<times> rate_limiter) option" where
  "rl_Allow now r =
     (if rl_refillRate r = 0 then None
      else
        let r1 = rl_refill now r
        in if rl_tokens r1 > 0 then Some (True, r1\<lparr>rl_tokens := rl_tokens r1 - 1\<rparr>)
           else Some (False, r1))"

definition rl_Tokens :: "rate_limiter \<Rightarrow> int" where
  "rl_Tokens r = rl_tokens r"

definition rl_Reset :: "instant \<Rightarrow> rate_limiter \<Rightarrow> rate_limiter" where
  "rl_Reset now r = r\<lparr>rl_tokens := rl_maxTokens r, rl_lastRefill := now\<rparr>"

datatype 'a waited = Finished 'a | StillWaiting | WaitPanic

fun rl_Wait :: "instant list \<Rightarrow> rate_limiter \<Rightarrow> rate_limiter waited" where
  "rl_Wait [] r = StillWaiting"
| "rl_Wait (t # ts) r =
     (case rl_Allow t r of
        None \<Rightarrow> WaitPanic
      | Some (True, r1) \<Rightarrow> Finished r1
      | Some (False, r1) \<Rightarrow> rl_Wait ts r1)"

text \<open>Each round of the loop reads the clock for the deadline and, in \<open>Allow\<close>, for the refill.\<close>

fun wait_until :: "instant \<Rightarrow> (instant \<times> instant) list \<Rightarrow> rate_limiter \<Rightarrow> (bool \<times> rate_limiter) waited" where
  "wait_until deadline [] r = StillWaiting"
| "wait_until deadline ((t, ta) # ts) r =
     (if t < deadline then
        (case rl_Allow ta r of
           None \<Rightarrow> WaitPanic
         | Some (True, r1) \<Rightarrow> Finished (True, r1)
         | Some (False, r1) \<Rightarrow> wait_until deadline ts r1)
      else Finished (False, r))"

definition rl_WaitTimeout :: "duration \<Rightarrow> instant \<Rightarrow> (instant \<times> instant) list \<Rightarrow> rate_limiter
    \<Rightarrow> (bool \<times> rate_limiter) waited" where
  "rl_WaitTimeout timeout now readings r = wait_until (now + timeout) readings r"

subsection \<open>The rate-limited resolver\<close>

record limited_config =
  lcf_MaxRPS :: int
  lcf_BurstSize :: int
  lcf_MaxRetries :: int
  lcf_RetryDelay :: duration

record limited_resolver =
  lr_rateLimiter :: rate_limiter
  lr_maxRetries :: int
  lr_retryDelay :: duration

definition NewRateLimitedResolver :: "limited_config \<Rightarrow> instant \<Rightarrow> limited_resolver" where
  "NewRateLimitedResolver cfg now =
     (let maxRPS = (if lcf_MaxRPS cfg \<le> 0 then 10 else lcf_MaxRPS cfg);
          burst = (if lcf_BurstSize cfg \<le> 0 then i64 (maxRPS * 2) else lcf_BurstSize cfg);
          retries = (if lcf_MaxRetries cfg \<le> 0 then 3 else lcf_MaxRetries cfg);
          delay = (if lcf_RetryDelay cfg \<le> 0 then 100 * millisecond else lcf_RetryDelay cfg);
          refillRate = go_div second maxRPS
      in \<lparr>lr_rateLimiter = NewRateLimiter burst refillRate now, lr_maxRetries = retries, lr_retryDelay = delay\<rparr>)"

text \<open>The attempts of \<open>Query\<close>, each with the readings of its wait; \<open>lookup\<close> is the resolver.\<close>

datatype 'a limited_result = QueryResult 'a | ErrRateLimitExceeded | QueryWaiting | QueryPanic

fun query_attempts :: "(string \<Rightarrow> 'a) \<Rightarrow> string \<Rightarrow> (instant \<times> (instant \<times> instant) list) list \<Rightarrow> nat \<Rightarrow> rate_limiter
    \<Rightarrow> 'a limited_result \<times> rate_limiter" where
  "query_attempts lookup domain ws 0 r = (ErrRateLimitExceeded, r)"
| "query_attempts lookup domain [] (Suc n) r = (QueryWaiting, r)"
| "query_attempts lookup domain ((now, readings) # ws) (Suc n) r =
     (case rl_WaitTimeout (5 * second) now readings r of
        WaitPanic \<Rightarrow> (QueryPanic, r)
      | StillWaiting \<Rightarrow> (QueryWaiting, r)
      | Finished (True, r1) \<Rightarrow> (QueryResult (lookup domain), r1)
      | Finished (False, r1) \<Rightarrow> query_attempts lookup domain ws n r1)"

definition limited_Query :: "(string \<Rightarrow> 'a) \<Rightarrow> string \<Rightarrow> (instant \<times> (instant \<times> instant) list) list \<Rightarrow> limited_resolver
    \<Rightarrow> 'a limited_result \<times> limited_resolver" where
  "limited_Query lookup domain ws q =
     (let (res, r) = query_attempts lookup domain ws (nat (lr_maxRetries q)) (lr_rateLimiter q)
      in (res, q\<lparr>lr_rateLimiter := r\<rparr>))"

subsection \<open>How much the bucket admits\<close>

fun allow_run :: "instant list \<Rightarrow> rate_limiter \<Rightarrow> (nat \<times> rate_limiter) option" where
  "allow_run [] r = Some (0, r)"
| "allow_run (t # ts) r =
     (case rl_Allow t r of
        None \<Rightarrow> None
      | Some (b, r1) \<Rightarrow> map_option (\<lambda>(n, r2). ((if b then 1 else 0) + n, r2)) (allow_run ts r1))"

definition rl_ok :: "rate_limiter \<Rightarrow> bool" where
  "rl_ok r \<longleftrightarrow> 0 < rl_refillRate r \<and> 0 \<le> rl_tokens r \<and> rl_tokens r \<le> rl_maxTokens r \<and> rl_maxTokens r < 2 ^ 62"

lemma rl_Allow_step:
  assumes "rl_ok r" and "rl_lastRefill r \<le> t" and "t - rl_lastRefill r < 2 ^ 62"
  shows "\<exists>b r1. rl_Allow t r = Some (b, r1) \<and> rl_ok r1 \<and> rl_refillRate r1 = rl_refillRate r \<and>
    rl_maxTokens r1 = rl_maxTokens r \<and>
    rl_lastRefill r1 = rl_lastRefill r + (t - rl_lastRefill r) div rl_refillRate r * rl_refillRate r \<and>
    rl_tokens r1 + (if b then 1 else 0) = min (rl_maxTokens r) (rl_tokens r + (t - rl_lastRefill r) div rl_refillRate r) \<and>
    (b \<longleftrightarrow> 0 < min (rl_maxTokens r) (rl_tokens r + (t - rl_lastRefill r) div rl_refillRate r))"
proof -
  let ?q = "(t - rl_lastRefill r) div rl_refillRate r"
  have pos: "0 < rl_refillRate r" using assms(1) by (simp add: rl_ok_def)
  have q: "go_div (t - rl_lastRefill r) (rl_refillRate r) = ?q" using assms(2) pos by simp
  have q0: "0 \<le> ?q" using assms(2) pos by (simp add: pos_imp_zdiv_nonneg_iff)
  have "?q \<le> t - rl_lastRefill r"
    using assms(2) pos zdiv_mono2 [of "t - rl_lastRefill r" 1 "rl_refillRate r"] by simp
  then have "rl_tokens r + ?q < 2 ^ 63" using assms(1,3) by (simp add: rl_ok_def)
  then have i: "i64 (rl_tokens r + ?q) = rl_tokens r + ?q" using assms(1) q0 by (simp add: rl_ok_def)
  let ?r1 = "rl_refill t r"
  have r1: "rl_refillRate ?r1 = rl_refillRate r" "rl_maxTokens ?r1 = rl_maxTokens r"
    "rl_lastRefill ?r1 = rl_lastRefill r + ?q * rl_refillRate r" "rl_tokens ?r1 = min (rl_maxTokens r) (rl_tokens r + ?q)"
    using q q0 i assms(1) by (auto simp: rl_refill_def Let_def rl_ok_def)
  then have "rl_ok ?r1" using assms(1) q0 by (simp add: rl_ok_def)
  then show ?thesis
    using pos r1 by (auto simp: rl_Allow_def rl_ok_def Let_def)
qed

lemma allow_run_bound:
  assumes "rl_ok r" and "sorted (rl_lastRefill r # ts)" and "\<forall>t \<in> set ts. t - rl_lastRefill r < 2 ^ 62"
    and "allow_run ts r = Some (n, r')" and "ts \<noteq> []"
  shows "int n \<le> rl_tokens r + (last ts - rl_lastRefill r) div rl_refillRate r"
  using assms
proof (induction ts arbitrary: r n)
  case Nil
  then show ?case by simp
next
  case (Cons t ts)
  let ?f = "rl_refillRate r" and ?l = "rl_lastRefill r"
  let ?q = "(t - ?l) div ?f"
  have le: "?l \<le> t" and pos: "0 < ?f" using Cons.prems by (auto simp: rl_ok_def)
  obtain b r1 where a: "rl_Allow t r = Some (b, r1)" and ok: "rl_ok r1" and f: "rl_refillRate r1 = ?f"
    and l1: "rl_lastRefill r1 = ?l + ?q * ?f"
    and tok: "rl_tokens r1 + (if b then 1 else 0) = min (rl_maxTokens r) (rl_tokens r + ?q)"
    using rl_Allow_step [OF Cons.prems(1) le] Cons.prems(3) by auto
  obtain m where m: "allow_run ts r1 = Some (m, r')" "n = (if b then 1 else 0) + m"
    using Cons.prems(4) a by auto
  have l1t: "rl_lastRefill r1 \<le> t" "?l \<le> rl_lastRefill r1"
  proof -
    have "?q * ?f \<le> t - ?l"
      using pos_mod_sign [OF pos, of "t - ?l"] minus_mod_eq_div_mult [of "t - ?l" ?f] by linarith
    then show "rl_lastRefill r1 \<le> t" by (simp add: l1)
    have "0 \<le> ?q * ?f" using le pos by (simp add: pos_imp_zdiv_nonneg_iff)
    then show "?l \<le> rl_lastRefill r1" by (simp add: l1)
  qed
  have t1: "rl_tokens r1 + (if b then 1 else 0) \<le> rl_tokens r + ?q" using tok by simp
  show ?case
  proof (cases "ts = []")
    case True
    then show ?thesis using m t1 ok by (auto simp: rl_ok_def)
  next
    case False
    have "\<forall>u \<in> set ts. u - rl_lastRefill r1 < 2 ^ 62"
      using Cons.prems(3) l1t(2) by fastforce
    moreover have "sorted (rl_lastRefill r1 # ts)" using Cons.prems(2) l1t(1) by auto
    ultimately have "int m \<le> rl_tokens r1 + (last ts - rl_lastRefill r1) div ?f"
      using Cons.IH [OF ok _ _ m(1) False] f by simp
    moreover have "(last ts - rl_lastRefill r1) div ?f = (last ts - ?l) div ?f - ?q"
    proof -
      have "last ts - rl_lastRefill r1 = (last ts - ?l) + (- ?q) * ?f" by (simp add: l1)
      also have "\<dots> div ?f = (last ts - ?l) div ?f - ?q" using pos by (subst div_mult_self1) simp_all
      finally show ?thesis .
    qed
    ultimately show ?thesis using m t1 False by (cases b) simp_all
  qed
qed

text \<open>C36. Over any run the bucket admits at most its burst size plus one request per refill interval that
  has passed, and it loses no time: the fraction of an interval left after a refill counts for the
  next one.\<close>

theorem rate_limiter_bound:
  assumes "0 < rate" and "0 \<le> burst" and "burst < 2 ^ 62" and "sorted (t0 # ts)" and "ts \<noteq> []"
    and "last ts - t0 < 2 ^ 62" and "allow_run ts (NewRateLimiter burst rate t0) = Some (n, r)"
  shows "int n \<le> burst + (last ts - t0) div rate"
proof -
  let ?r = "NewRateLimiter burst rate t0"
  have "rl_ok ?r" using assms(1-3) by (simp add: rl_ok_def NewRateLimiter_def)
  moreover have "sorted ts \<Longrightarrow> t \<in> set ts \<Longrightarrow> t \<le> last ts" for t
    by (induction ts) (auto split: if_splits)
  then have "\<forall>t \<in> set ts. t - t0 < 2 ^ 62" using assms(4,6) by force
  ultimately show ?thesis
    using allow_run_bound [of ?r ts n r] assms(4,5,7) by (simp add: NewRateLimiter_def)
qed

theorem rate_limiter_bound_witness:
  "\<exists>n r. allow_run [0, 1, 2, 10] (NewRateLimiter 2 5 0) = Some (n, r) \<and> int n \<le> 4"
proof -
  obtain n r where e: "allow_run [0, 1, 2, 10] (NewRateLimiter 2 5 0) = Some (n, r)"
    by (simp add: NewRateLimiter_def rl_Allow_def rl_refill_def)
  with rate_limiter_bound [OF _ _ _ _ _ _ e] show ?thesis by simp
qed

text \<open>A wait with a timeout returns: once the clock has reached the deadline in some round, the loop
  has ended in that round or before, with a token or without.\<close>

theorem wait_timeout_returns:
  assumes "rl_refillRate r \<noteq> 0" and "(t, ta) \<in> set readings" and "now + timeout \<le> t"
  shows "\<exists>b r'. rl_WaitTimeout timeout now readings r = Finished (b, r')"
proof -
  have keeps: "rl_refillRate r1 = rl_refillRate r" if "rl_Allow u r = Some (b, r1)" for u b r r1
    using that by (auto simp: rl_Allow_def rl_refill_def Let_def split: if_splits)
  have "\<exists>b r'. wait_until (now + timeout) readings r = Finished (b, r')"
    using assms(1,2)
  proof (induction readings arbitrary: r)
    case Nil
    then show ?case by simp
  next
    case (Cons x xs)
    obtain u ua where x: "x = (u, ua)" by fastforce
    obtain b r1 where a: "rl_Allow ua r = Some (b, r1)"
      using Cons.prems(1) by (cases "rl_tokens (rl_refill ua r) > 0") (auto simp: rl_Allow_def Let_def)
    show ?case
    proof (cases "u < now + timeout")
      case True
      then have "(t, ta) \<in> set xs" using Cons.prems(2) x assms(3) by auto
      with Cons.IH [of r1] keeps [OF a] Cons.prems(1) show ?thesis using True x a by (cases b) auto
    qed (auto simp: x)
  qed
  then show ?thesis by (simp add: rl_WaitTimeout_def)
qed

theorem wait_timeout_returns_witness:
  "\<exists>b r'. rl_WaitTimeout 10 0 [(0, 1), (6, 7), (12, 13)] (NewRateLimiter 0 100 0) = Finished (b, r')"
  by (rule wait_timeout_returns [of _ 12 13]) (simp_all add: NewRateLimiter_def)

text \<open>A rate above one query per nanosecond makes the refill interval zero: the first query panics.\<close>

lemma excessive_rate_panics:
  assumes "lcf_MaxRPS cfg > second"
  shows "rl_Allow t (lr_rateLimiter (NewRateLimitedResolver cfg now)) = None"
  using assms by (simp add: NewRateLimitedResolver_def NewRateLimiter_def rl_Allow_def Let_def second_def)

end
