(* ===== verification/Socks5.thy ===== *)
theory Socks5
  imports Metadata GoBytes BufferPools
begin

text \<open>
  The SOCKS5 protocol, \<^verbatim>\<open>transport/socks5.go\<close>: addresses, the client side of the handshake, and the header of
  UDP packets, with the buffer pools of \<^verbatim>\<open>common/pool/pool.go\<close> that it takes its buffers from.

  A connection is the list of bytes that the peer will have sent, the error that ends them, the results of
  the writes to come, and the messages written.  The handshake runs over a slice (its array and its
  length), because it reads into \<open>buf[:2]\<close> and indexes \<open>buf\<close>; an index beyond the length is a panic.  A nil
  address is None.
\<close>

datatype sock_error = IoEOF | IoUnexpectedEOF | IoError string | ErrShortBuffer
  | ErrVersionMismatch | ErrAuthRequired | ErrAuthTooLong | ErrAuthRejected | ErrUnsupportedMethod
  | ErrInvalidAddressType | ErrInsufficientBuffer | ErrFragmentedPayload | ErrAddressNil | ReplyError string

definition MethodNoAuth :: byte where "MethodNoAuth = 0"
definition MethodUserPass :: byte where "MethodUserPass = 2"
definition Version :: byte where "Version = 5"
definition CmdConnect :: byte where "CmdConnect = 1"
definition CmdBind :: byte where "CmdBind = 2"
definition CmdUDPAssociate :: byte where "CmdUDPAssociate = 3"
definition AtypIPv4 :: byte where "AtypIPv4 = 1"
definition AtypDomainName :: byte where "AtypDomainName = 3"
definition AtypIPv6 :: byte where "AtypIPv6 = 4"
definition MaxAddrLen :: nat where "MaxAddrLen = 259"
definition MaxAuthLen :: nat where "MaxAuthLen = 255"

lemmas socks_consts = MethodNoAuth_def MethodUserPass_def Version_def CmdConnect_def CmdBind_def
  CmdUDPAssociate_def AtypIPv4_def AtypDomainName_def AtypIPv6_def MaxAddrLen_def MaxAuthLen_def

definition Command_String :: "byte \<Rightarrow> string" where
  "Command_String c =
     (if c = CmdConnect then ''CONNECT'' else if c = CmdBind then ''BIND''
      else if c = CmdUDPAssociate then ''UDP ASSOCIATE'' else ''UNDEFINED'')"

definition Reply_String :: "byte \<Rightarrow> string" where
  "Reply_String r =
     (if r = 0 then ''succeeded''
      else if r = 1 then ''general SOCKS server failure''
      else if r = 2 then ''connection not allowed by ruleset''
      else if r = 3 then ''network unreachable''
      else if r = 4 then ''host unreachable''
      else if r = 5 then ''connection refused''
      else if r = 6 then ''TTL expired''
      else if r = 7 then ''command not supported''
      else if r = 8 then ''address type not supported''
      else ''unassigned <0x'' @ hex_bytes [r] @ ''>'')"

subsection \<open>Addresses\<close>

definition Addr_Valid :: "byte list \<Rightarrow> bool" where
  "Addr_Valid a =
     (if length a < 4 then False
      else if a ! 0 = AtypDomainName then \<not> length a < 1 + 1 + unat (a ! 1) + 2
      else if a ! 0 = AtypIPv4 then \<not> length a < 1 + 4 + 2
      else if a ! 0 = AtypIPv6 then \<not> length a < 1 + 16 + 2
      else True)"

definition port_at :: "nat \<Rightarrow> byte list \<Rightarrow> nat" where
  "port_at i a = unat (get16 (drop i a))"

definition Addr_String :: "byte list \<Rightarrow> string" where
  "Addr_String a =
     (if \<not> Addr_Valid a then []
      else if a ! 0 = AtypDomainName then
        let hostLen = unat (a ! 1)
        in JoinHostPort (string_of_bytes (sub 2 (2 + hostLen) a)) (FormatUint (port_at (2 + hostLen) a))
      else if a ! 0 = AtypIPv4 then JoinHostPort (IP_String (sub 1 5 a)) (FormatUint (port_at 5 a))
      else if a ! 0 = AtypIPv6 then JoinHostPort (IP_String (sub 1 17 a)) (FormatUint (port_at 17 a))
      else JoinHostPort [] [])"

definition Addr_UDPAddr :: "byte list \<Rightarrow> (ip \<times> nat) option" where
  "Addr_UDPAddr a =
     (if \<not> Addr_Valid a then None
      else if a ! 0 = AtypDomainName then None
      else if a ! 0 = AtypIPv4 then Some (sub 1 5 a, port_at 5 a)
      else if a ! 0 = AtypIPv6 then Some (sub 1 17 a, port_at 17 a)
      else None)"

definition SplitAddr :: "byte list \<Rightarrow> byte list option" where
  "SplitAddr b =
     (if length b < 1 then None
      else
        let addrLen =
          (if b ! 0 = AtypDomainName then
             if length b < 2 then None else Some (1 + 1 + unat (b ! 1) + 2)
           else if b ! 0 = AtypIPv4 then Some (1 + 4 + 2)
           else if b ! 0 = AtypIPv6 then Some (1 + 16 + 2)
           else None)
        in case addrLen of
             None \<Rightarrow> None
           | Some n \<Rightarrow> if length b < n then None else Some (take n b))"

definition To16 :: "ip \<Rightarrow> byte list" where
  "To16 a = (if length a = 4 then v4InV6Prefix @ a else if length a = 16 then a else [])"

text \<open>\<open>SerializeAddr\<close> writes into a zeroed slice of the exact length; the length byte of a name is \<open>uint8(length)\<close>.\<close>

definition SerializeAddr :: "string \<Rightarrow> ip \<Rightarrow> 16 word \<Rightarrow> byte list" where
  "SerializeAddr domainName dstIP dstPort =
     (let portBuf = put16 dstPort
      in if domainName \<noteq> [] then
           let len = length domainName; n = 1 + 1 + len + 2
           in copy_to (2 + len) n portBuf
                (copy_to 2 n (ascii_bytes domainName) ((replicate n 0)[0 := AtypDomainName, 1 := of_nat len]))
         else case To4 dstIP of
           Some ip4 \<Rightarrow> copy_to 5 7 portBuf (copy_to 1 7 ip4 ((replicate 7 0)[0 := AtypIPv4]))
         | None \<Rightarrow> copy_to 17 19 portBuf (copy_to 1 19 (To16 dstIP) ((replicate 19 0)[0 := AtypIPv6])))"

text \<open>\<open>net.SplitHostPort\<close>.\<close>

definition last_index :: "char \<Rightarrow> string \<Rightarrow> nat option" where
  "last_index c s = (if c \<in> set s then Some (length s - Suc (length (takeWhile (\<lambda>x. x \<noteq> c) (rev s)))) else None)"

definition first_index :: "char \<Rightarrow> string \<Rightarrow> nat option" where
  "first_index c s = (if c \<in> set s then Some (length (takeWhile (\<lambda>x. x \<noteq> c) s)) else None)"

definition SplitHostPort :: "string \<Rightarrow> (string \<times> string) option" where
  "SplitHostPort s =
     (case last_index CHR '':'' s of
        None \<Rightarrow> None
      | Some i \<Rightarrow>
          let parts =
            (if s ! 0 = CHR ''['' then
               case first_index CHR '']'' s of
                 None \<Rightarrow> None
               | Some e \<Rightarrow> if e + 1 \<noteq> i then None else Some (drop 1 (take e s), 1, e + 1)
             else if CHR '':'' \<in> set (take i s) then None else Some (take i s, 0, 0))
          in case parts of
               None \<Rightarrow> None
             | Some (host, j, k) \<Rightarrow>
                 if CHR ''['' \<in> set (drop j s) \<or> CHR '']'' \<in> set (drop k s) then None
                 else Some (host, drop (i + 1) s))"

definition ParseAddrString :: "string \<Rightarrow> byte list option" where
  "ParseAddrString s =
     (case SplitHostPort s of
        None \<Rightarrow> None
      | Some (host, port) \<Rightarrow>
          (case ParseUint 16 port of
             None \<Rightarrow> None
           | Some dstPort \<Rightarrow>
               (case ParseIP host of
                  Some a \<Rightarrow> Some (SerializeAddr [] a (of_nat dstPort))
                | None \<Rightarrow> Some (SerializeAddr host [] (of_nat dstPort)))))"

datatype net_addr = TCPAddrOf ip int | UDPAddrOf ip int | OtherAddr string

text \<open>The port of a net address is an int, truncated to 16 bits.\<close>

fun Socks_ParseAddr :: "net_addr \<Rightarrow> byte list option" where
  "Socks_ParseAddr (TCPAddrOf a p) = Some (SerializeAddr [] a (of_int p))"
| "Socks_ParseAddr (UDPAddrOf a p) = Some (SerializeAddr [] a (of_int p))"
| "Socks_ParseAddr (OtherAddr s) = ParseAddrString s"

subsection \<open>The pools of buffers\<close>

definition udpBufferSize :: nat where "udpBufferSize = 65535"
definition dnsBufferSize :: nat where "dnsBufferSize = 512"

definition GetAddr :: "nat option \<Rightarrow> slice list \<Rightarrow> slice \<times> slice list" where
  "GetAddr pick bs = pool_take pick (new_slice 0 MaxAddrLen) bs"

definition PutAddr :: "slice \<Rightarrow> slice list \<Rightarrow> slice list" where
  "PutAddr b bs = bs @ [b\<lparr>sl_len := 0\<rparr>]"

definition GetUDP :: "nat option \<Rightarrow> slice list \<Rightarrow> slice \<times> slice list" where
  "GetUDP pick bs = pool_take pick (new_slice udpBufferSize udpBufferSize) bs"

definition PutUDP :: "slice \<Rightarrow> slice list \<Rightarrow> slice list" where
  "PutUDP b bs = bs @ [b]"

definition GetDNS :: "nat option \<Rightarrow> slice list \<Rightarrow> slice \<times> slice list" where
  "GetDNS pick bs = pool_take pick (new_slice 0 dnsBufferSize) bs"

definition PutDNS :: "slice \<Rightarrow> slice list \<Rightarrow> slice list" where
  "PutDNS b bs = bs @ [b\<lparr>sl_len := 0\<rparr>]"

subsection \<open>Reading and writing a connection\<close>

record sock =
  sk_in :: "byte list"
  sk_end :: sock_error
  sk_werr :: "sock_error option list"
  sk_out :: "byte list list"

datatype 'a outcome = Done 'a | Failed sock_error | Panicked

type_synonym 'a proto = "slice \<Rightarrow> sock \<Rightarrow> 'a outcome \<times> slice \<times> sock"

definition andThen :: "'a proto \<Rightarrow> ('a \<Rightarrow> 'b proto) \<Rightarrow> 'b proto" where
  "andThen m f b s =
     (case m b s of
        (Done x, b1, s1) \<Rightarrow> f x b1 s1
      | (Failed e, b1, s1) \<Rightarrow> (Failed e, b1, s1)
      | (Panicked, b1, s1) \<Rightarrow> (Panicked, b1, s1))"

definition fails :: "sock_error \<Rightarrow> 'a proto" where
  "fails e b s = (Failed e, b, s)"

definition finish :: "'a \<Rightarrow> 'a proto" where
  "finish x b s = (Done x, b, s)"

definition sends :: "byte list \<Rightarrow> unit proto" where
  "sends bs b s =
     (case sk_werr s of
        Some e # es \<Rightarrow> (Failed e, b, s\<lparr>sk_werr := es\<rparr>)
      | None # es \<Rightarrow> (Done (), b, s\<lparr>sk_werr := es, sk_out := sk_out s @ [bs]\<rparr>)
      | [] \<Rightarrow> (Done (), b, s\<lparr>sk_out := sk_out s @ [bs]\<rparr>))"

text \<open>\<open>io.ReadFull(rw, buf[i:j])\<close>: slicing is limited by the capacity.\<close>

definition ReadFull :: "nat \<Rightarrow> nat \<Rightarrow> unit proto" where
  "ReadFull i j b s =
     (if sl_cap b < j then (Panicked, b, s)
      else
        let b1 = b\<lparr>sl_array := copy_to i j (sk_in s) (sl_array b)\<rparr>;
            s1 = s\<lparr>sk_in := drop (j - i) (sk_in s)\<rparr>
        in if j - i \<le> length (sk_in s) then (Done (), b1, s1)
           else (Failed (if sk_in s \<noteq> [] \<and> sk_end s = IoEOF then IoUnexpectedEOF else sk_end s), b1, s1))"

text \<open>\<open>buf[i]\<close>: indexing is limited by the length.\<close>

definition index :: "nat \<Rightarrow> byte proto" where
  "index i b s = (if i < sl_len b then (Done (sl_array b ! i), b, s) else (Panicked, b, s))"

text \<open>\<open>ReadAddr\<close>.  The code returns the part of the buffer also when the last read fails; here an error comes
  without it, as every caller looks at the error first.\<close>

definition ReadAddr_switch :: "byte \<Rightarrow> byte list proto" where
  "ReadAddr_switch atyp =
     (if atyp = AtypDomainName then
        andThen (ReadFull 1 2) (\<lambda>_.
        andThen (index 1) (\<lambda>domainLength.
        andThen (ReadFull 2 (2 + unat domainLength + 2)) (\<lambda>_ b.
        finish (take (1 + 1 + unat domainLength + 2) (sl_array b)) b)))
      else if atyp = AtypIPv4 then andThen (ReadFull 1 7) (\<lambda>_ b. finish (take 7 (sl_array b)) b)
      else if atyp = AtypIPv6 then andThen (ReadFull 1 19) (\<lambda>_ b. finish (take 19 (sl_array b)) b)
      else fails ErrInvalidAddressType)"

definition ReadAddr :: "byte list proto" where
  "ReadAddr b =
     (if sl_len b < MaxAddrLen then fails ErrShortBuffer b
      else andThen (ReadFull 0 1) (\<lambda>_. andThen (index 0) ReadAddr_switch) b)"

subsection \<open>The handshake\<close>

record sock_user =
  su_Username :: string
  su_Password :: string

definition auth_msg :: "sock_user \<Rightarrow> byte list" where
  "auth_msg u =
     [1, of_nat (length (su_Username u))] @ ascii_bytes (su_Username u) @
     [of_nat (length (su_Password u))] @ ascii_bytes (su_Password u)"

definition authenticate :: "sock_user option \<Rightarrow> unit proto" where
  "authenticate user =
     (case user of
        None \<Rightarrow> fails ErrAuthRequired
      | Some u \<Rightarrow>
          let uLen = length (su_Username u); pLen = length (su_Password u)
          in if uLen = 0 \<or> pLen = 0 then fails ErrAuthTooLong
             else if MaxAuthLen < uLen \<or> MaxAuthLen < pLen then fails ErrAuthTooLong
             else
               andThen (sends (auth_msg u)) (\<lambda>_.
               andThen (ReadFull 0 2) (\<lambda>_.
               andThen (index 1) (\<lambda>status.
               if status \<noteq> 0 then fails ErrAuthRejected else finish ()))))"

definition request_reply :: "byte list \<Rightarrow> byte \<Rightarrow> byte list proto" where
  "request_reply addr command =
     andThen (sends (Version # command # 0 # addr)) (\<lambda>_.
     andThen (ReadFull 0 3) (\<lambda>_.
     andThen (index 1) (\<lambda>rep.
     if rep \<noteq> 0 then fails (ReplyError (Command_String command @ '': '' @ Reply_String rep)) else ReadAddr)))"

definition handshake_over :: "byte list \<Rightarrow> byte \<Rightarrow> sock_user option \<Rightarrow> byte list proto" where
  "handshake_over addr command user =
     andThen (sends [Version, 1, if user = None then MethodNoAuth else MethodUserPass]) (\<lambda>_.
     andThen (ReadFull 0 2) (\<lambda>_.
     andThen (index 0) (\<lambda>ver.
     if ver \<noteq> Version then fails ErrVersionMismatch
     else
       andThen (index 1) (\<lambda>method.
       andThen (if method = MethodUserPass then authenticate user
                else if method \<noteq> MethodNoAuth then fails ErrUnsupportedMethod else finish ()) (\<lambda>_.
       request_reply addr command)))))"

text \<open>\<open>ClientHandshake\<close> takes its buffer from the pool and, by \<open>defer\<close>, puts it back however it ends.\<close>

definition ClientHandshake ::
  "nat option \<Rightarrow> slice list \<Rightarrow> byte list \<Rightarrow> byte \<Rightarrow> sock_user option \<Rightarrow> sock \<Rightarrow> byte list outcome \<times> sock \<times> slice list" where
  "ClientHandshake pick pool addr command user s =
     (let (buf, rest) = GetAddr pick pool;
          (r, buf1, s1) = handshake_over addr command user buf s
      in (r, s1, PutAddr buf1 rest))"

subsection \<open>UDP packets\<close>

definition DecodeUDPPacket :: "byte list \<Rightarrow> sock_error option \<times> byte list option \<times> byte list" where
  "DecodeUDPPacket packet =
     (if length packet < 5 then (Some ErrInsufficientBuffer, None, [])
      else if take 2 packet \<noteq> [0, 0] then (Some ErrVersionMismatch, None, [])
      else if packet ! 2 \<noteq> 0 then (Some ErrFragmentedPayload, None, [])
      else
        case SplitAddr (drop 3 packet) of
          None \<Rightarrow> (Some ErrAddressNil, None, drop 3 packet)
        | Some addr \<Rightarrow> (None, Some addr, drop (3 + length addr) packet))"

definition DecodeUDPPacketInPlace :: "byte list \<Rightarrow> sock_error + byte list \<times> nat" where
  "DecodeUDPPacketInPlace packet =
     (if length packet < 5 then Inl ErrInsufficientBuffer
      else if take 2 packet \<noteq> [0, 0] then Inl ErrVersionMismatch
      else if packet ! 2 \<noteq> 0 then Inl ErrFragmentedPayload
      else
        case SplitAddr (drop 3 packet) of
          None \<Rightarrow> Inl ErrAddressNil
        | Some addr \<Rightarrow> Inr (addr, length packet - (3 + length addr)))"

text \<open>A packet of more than 1024 bytes is built in a buffer of the pool, whose first three bytes are what
  the buffer held; None is the panic of slicing beyond its capacity.\<close>

definition EncodeUDPPacket ::
  "nat option \<Rightarrow> slice list \<Rightarrow> byte list option \<Rightarrow> byte list \<Rightarrow> (sock_error + byte list) option \<times> slice list" where
  "EncodeUDPPacket pick pool addr payload =
     (case addr of
        None \<Rightarrow> (Some (Inl ErrAddressNil), pool)
      | Some a \<Rightarrow>
          let headerLen = 3 + length a; n = headerLen + length payload
          in if n > 1024 then
               let (b, rest) = GetUDP pick pool
               in case reslice n b of
                    None \<Rightarrow> (None, rest)
                  | Some b1 \<Rightarrow>
                      (Some (Inr (copy_to headerLen n payload (copy_to 3 n a (take n (sl_array b1))))), rest)
             else (Some (Inr (copy_to headerLen n payload (copy_to 3 n a (replicate n 0)))), pool))"

subsection \<open>The layout of an address\<close>

lemma SerializeAddr_domain:
  assumes "d \<noteq> []"
  shows "SerializeAddr d a p = AtypDomainName # of_nat (length d) # ascii_bytes d @ put16 p"
proof -
  have "replicate (Suc (Suc (Suc (Suc n)))) (0::byte) = 0 # 0 # replicate (n + 2) 0" for n
    by simp
  with assms show ?thesis
    by (simp add: SerializeAddr_def copy_to_def Let_def)
qed

lemma SerializeAddr_v4: "To4 a = Some b \<Longrightarrow> SerializeAddr [] a p = AtypIPv4 # b @ put16 p"
  by (frule To4_length) (simp add: SerializeAddr_def copy_to_def Let_def numeral_eq_Suc)

lemma SerializeAddr_v6: "To4 a = None \<Longrightarrow> length a = 16 \<Longrightarrow> SerializeAddr [] a p = AtypIPv6 # a @ put16 p"
  by (simp add: SerializeAddr_def copy_to_def Let_def To16_def numeral_eq_Suc)

text \<open>What the code can serialise without loss: a name of at most 255 bytes, or an address.\<close>

definition addr_encodable :: "string \<Rightarrow> ip \<Rightarrow> bool" where
  "addr_encodable d a \<longleftrightarrow> (if d = [] then length a = 4 \<or> length a = 16 else length d < 256)"

lemma unat_len [simp]: "n < 256 \<Longrightarrow> unat (of_nat n :: byte) = n"
  by (simp add: unat_of_nat)

lemma To4_cases:
  assumes "length a = 4 \<or> length a = 16"
  obtains b where "To4 a = Some b" "length b = 4" | "To4 a = None" "length a = 16"
  using assms by (cases "To4 a") (auto dest: To4_length simp: To4_def split: if_splits)

lemma serialized_cases:
  assumes "addr_encodable d a"
  obtains (dom) "d \<noteq> []" "length d < 256"
      "SerializeAddr d a p = AtypDomainName # of_nat (length d) # ascii_bytes d @ put16 p"
  | (v4) b where "d = []" "To4 a = Some b" "length b = 4" "SerializeAddr d a p = AtypIPv4 # b @ put16 p"
  | (v6) "d = []" "To4 a = None" "length a = 16" "SerializeAddr d a p = AtypIPv6 # a @ put16 p"
proof (cases "d = []")
  case True
  then have len: "length a = 4 \<or> length a = 16" using assms by (simp add: addr_encodable_def)
  from len show ?thesis by (rule To4_cases) (use True SerializeAddr_v4 SerializeAddr_v6 that(2,3) in auto)
next
  case False
  then show ?thesis using assms SerializeAddr_domain that(1) by (simp add: addr_encodable_def)
qed

lemma SplitAddr_serialized:
  assumes "addr_encodable d a"
  shows "SplitAddr (SerializeAddr d a p @ rest) = Some (SerializeAddr d a p)"
  using assms
  by (cases rule: serialized_cases [of d a p]) (simp_all add: SplitAddr_def socks_consts)

lemma Addr_Valid_serialized:
  assumes "addr_encodable d a"
  shows "Addr_Valid (SerializeAddr d a p)"
  using assms
  by (cases rule: serialized_cases [of d a p]) (simp_all add: Addr_Valid_def socks_consts)

lemma port_at_serialized: "port_at (length pre) (pre @ put16 p) = unat p"
  by (simp add: port_at_def)

lemma SplitAddr_prefix: "SplitAddr b = Some a \<Longrightarrow> \<exists>rest. b = a @ rest \<and> 4 \<le> length a"
  by (auto simp: SplitAddr_def Let_def min_def split: option.splits if_splits intro: exI [of _ "drop (length a) b"])

lemma UDPAddr_serialized:
  assumes "length a = 4 \<or> length a = 16"
  shows "Addr_UDPAddr (SerializeAddr [] a p) = Some (case To4 a of Some b \<Rightarrow> b | None \<Rightarrow> a, unat p)"
proof -
  have enc: "addr_encodable [] a" using assms by (simp add: addr_encodable_def)
  note v = Addr_Valid_serialized [OF enc, of p]
  from enc show ?thesis
  proof (cases rule: serialized_cases [of "[]" a p])
    case (v4 b)
    then show ?thesis using v port_at_serialized [of "AtypIPv4 # b" p]
      by (simp add: Addr_UDPAddr_def sub_def) (simp add: socks_consts)
  next
    case v6
    then show ?thesis using v port_at_serialized [of "AtypIPv6 # a" p]
      by (simp add: Addr_UDPAddr_def sub_def) (simp add: socks_consts)
  qed simp
qed

lemma String_serialized_domain:
  assumes "d \<noteq> []" and "length d < 256"
  shows "Addr_String (SerializeAddr d a p) = JoinHostPort d (FormatUint (unat p))"
proof -
  have "Addr_Valid (SerializeAddr d a p)" using assms by (intro Addr_Valid_serialized) (simp add: addr_encodable_def)
  then show ?thesis
    using assms port_at_serialized [of "AtypDomainName # of_nat (length d) # ascii_bytes d" p]
    by (simp add: Addr_String_def SerializeAddr_domain sub_def)
qed

lemma String_serialized_v4:
  assumes "To4 a = Some b"
  shows "Addr_String (SerializeAddr [] a p) = JoinHostPort (v4_string b) (FormatUint (unat p))"
proof -
  have len: "length b = 4" using assms by (rule To4_length)
  then have "IP_String b = v4_string b" by (simp add: IP_String_v4 To4_def)
  moreover have "Addr_Valid (SerializeAddr [] a p)"
    using assms by (intro Addr_Valid_serialized) (auto simp: addr_encodable_def To4_def split: if_splits)
  ultimately show ?thesis
    using len port_at_serialized [of "AtypIPv4 # b" p]
    by (simp add: Addr_String_def SerializeAddr_v4 [OF assms] sub_def) (simp add: socks_consts)
qed

subsection \<open>Text of an address\<close>

lemma last_index_colon: "c \<notin> set t \<Longrightarrow> last_index c (s @ c # t) = Some (length s)"
  by (simp add: last_index_def takeWhile_append2 takeWhile_append)

lemma SplitHostPort_plain:
  assumes "CHR '':'' \<notin> set h" and "CHR ''['' \<notin> set h" and "CHR '']'' \<notin> set h"
    and "CHR '':'' \<notin> set p" and "CHR ''['' \<notin> set p" and "CHR '']'' \<notin> set p"
  shows "SplitHostPort (JoinHostPort h p) = Some (h, p)"
proof -
  have "(h @ CHR '':'' # p) ! 0 \<noteq> CHR ''[''" using assms(2) by (cases h) auto
  then show ?thesis
    using assms by (simp add: SplitHostPort_def JoinHostPort_def last_index_colon)
qed

lemma FormatUint_no_brackets: "CHR '':'' \<notin> set (FormatUint n)" "CHR ''['' \<notin> set (FormatUint n)" "CHR '']'' \<notin> set (FormatUint n)"
  using FormatUint_is_digit brackets_no_digit by blast+

lemma ParseUint_port: "ParseUint 16 (FormatUint (unat (p :: 16 word))) = Some (unat p)"
  using ParseUint_FormatUint [of "unat p" 16] unsigned_less [of p, where ?'a = nat] by simp

lemma ParseAddrString_v4:
  assumes "To4 a = Some b"
  shows "ParseAddrString (Addr_String (SerializeAddr [] a p)) = Some (SerializeAddr [] a p)"
proof -
  have len: "length b = 4" using assms by (rule To4_length)
  then have b: "To4 (v4InV6Prefix @ b) = Some b" by (simp add: To4_def)
  have "SplitHostPort (JoinHostPort (v4_string b) (FormatUint (unat p))) = Some (v4_string b, FormatUint (unat p))"
    by (rule SplitHostPort_plain) (rule v4_string_no_brackets FormatUint_no_brackets)+
  then show ?thesis
    unfolding String_serialized_v4 [OF assms] ParseAddrString_def
    by (simp add: ParseUint_port ParseIP_v4_string [OF len] SerializeAddr_v4 [OF assms] SerializeAddr_v4 [OF b])
qed

lemma ParseAddrString_domain:
  assumes "d \<noteq> []" and "length d < 256" and "set d \<inter> {CHR '':'', CHR ''['', CHR '']''} = {}" and "ParseIP d = None"
  shows "ParseAddrString (Addr_String (SerializeAddr d a p)) = Some (SerializeAddr d a p)"
proof -
  have "SplitHostPort (JoinHostPort d (FormatUint (unat p))) = Some (d, FormatUint (unat p))"
    by (rule SplitHostPort_plain) (use assms(3) FormatUint_no_brackets in auto)
  then show ?thesis
    unfolding String_serialized_domain [OF assms(1,2)] ParseAddrString_def
    using assms(1,4) by (simp add: ParseUint_port SerializeAddr_domain)
qed

subsection \<open>The handshake\<close>

lemma andThen_simps:
  "m b s = (Done x, b1, s1) \<Longrightarrow> andThen m f b s = f x b1 s1"
  "m b s = (Failed e, b1, s1) \<Longrightarrow> andThen m f b s = (Failed e, b1, s1)"
  "m b s = (Panicked, b1, s1) \<Longrightarrow> andThen m f b s = (Panicked, b1, s1)"
  by (simp_all add: andThen_def)

lemma ReadFull_ok:
  assumes "sk_in s = bs @ rest" and "length bs = j - i" and "i \<le> j" and "j \<le> sl_cap b"
  shows "ReadFull i j b s =
    (Done (), b\<lparr>sl_array := take i (sl_array b) @ bs @ drop j (sl_array b)\<rparr>, s\<lparr>sk_in := rest\<rparr>)"
  using assms by (simp add: ReadFull_def copy_to_def Let_def sl_cap_def)

text \<open>A buffer of the pool has length zero, and the code only ever slices it up.\<close>

definition addr_pool_ok :: "slice list \<Rightarrow> bool" where
  "addr_pool_ok pool \<longleftrightarrow> (\<forall>b \<in> set pool. sl_len b = 0 \<and> sl_cap b = MaxAddrLen)"

lemma GetAddr_ok:
  assumes "addr_pool_ok pool" and "GetAddr pick pool = (b, rest)"
  shows "sl_len b = 0" "sl_cap b = MaxAddrLen" "addr_pool_ok rest"
  using assms pool_take_mem [of pick "new_slice 0 MaxAddrLen" pool b rest]
  by (auto simp: GetAddr_def addr_pool_ok_def new_slice_def sl_cap_def)

lemma sends_cases:
  obtains s1 where "sends m b s = (Done (), b, s1)" "sk_in s1 = sk_in s"
  | e s1 where "sends m b s = (Failed e, b, s1)" "\<exists>es. sk_werr s = Some e # es"
  by (cases "sk_werr s" rule: list.exhaust; cases "hd (sk_werr s)") (auto simp: sends_def split: option.splits)

lemma index_empty: "sl_len b = 0 \<Longrightarrow> index i b s = (Panicked, b, s)"
  by (simp add: index_def)

lemma ReadFull_frame:
  "ReadFull i j b s = (r, b1, s1) \<Longrightarrow> i \<le> j \<Longrightarrow> sl_len b1 = sl_len b \<and> sl_cap b1 = sl_cap b"
  by (auto simp: ReadFull_def Let_def sl_cap_def split: if_splits)

lemma handshake_over_empty:
  assumes "sl_len b = 0" and "2 \<le> sl_cap b"
  obtains (panic) b1 s1 where "handshake_over addr cmd user b s = (Panicked, b1, s1)"
      "sl_cap b1 = sl_cap b" "2 \<le> length (sk_in s)"
  | (err) e b1 s1 where "handshake_over addr cmd user b s = (Failed e, b1, s1)" "sl_cap b1 = sl_cap b"
      "length (sk_in s) < 2 \<or> (\<exists>es. sk_werr s = Some e # es)"
proof (cases rule: sends_cases [of "[Version, 1, if user = None then MethodNoAuth else MethodUserPass]" b s])
  case (1 s1)
  obtain r b2 s2 where rd: "ReadFull 0 2 b s1 = (r, b2, s2)" by (metis prod_cases3)
  note fr = ReadFull_frame [OF rd]
  show ?thesis
  proof (cases "2 \<le> length (sk_in s)")
    case True
    then have "r = Done ()" using rd 1 assms(2) by (auto simp: ReadFull_def Let_def split: if_splits)
    then show ?thesis
      using panic 1 rd fr True assms(1) by (simp add: handshake_over_def andThen_simps index_empty)
  next
    case False
    then obtain e where "r = Failed e" using rd 1 assms(2) by (auto simp: ReadFull_def Let_def split: if_splits)
    then show ?thesis
      using err 1 rd fr False by (simp add: handshake_over_def andThen_simps)
  qed
next
  case (2 e s1)
  then show ?thesis using err by (simp add: handshake_over_def andThen_simps)
qed

lemma handshake_outcome:
  assumes "addr_pool_ok pool" and "ClientHandshake pick pool addr cmd user s = (r, s1, pool1)"
  shows "addr_pool_ok pool1 \<and> (r = Panicked \<or> (\<exists>e. r = Failed e)) \<and>
     (2 \<le> length (sk_in s) \<and> sk_werr s = [] \<longrightarrow> r = Panicked)"
proof -
  obtain b rest where g: "GetAddr pick pool = (b, rest)" by fastforce
  note ok = GetAddr_ok [OF assms(1) g]
  have "2 \<le> sl_cap b" using ok by (simp add: socks_consts)
  from ok(1) this show ?thesis
    by (cases rule: handshake_over_empty [where addr = addr and cmd = cmd and user = user and s = s])
      (use assms(2) g ok in \<open>auto simp: ClientHandshake_def PutAddr_def addr_pool_ok_def sl_cap_def\<close>)
qed

subsection \<open>The handshake over a buffer of full length\<close>

definition full_buffer :: "slice \<Rightarrow> bool" where
  "full_buffer b \<longleftrightarrow> MaxAddrLen \<le> sl_len b \<and> sl_len b \<le> sl_cap b"

lemma step_read:
  assumes "sk_in s = bs @ rest" and "length bs = j - i" and "i \<le> j" and "j \<le> MaxAddrLen" and "full_buffer b"
  shows "andThen (ReadFull i j) f b s =
    f () (b\<lparr>sl_array := take i (sl_array b) @ bs @ drop j (sl_array b)\<rparr>) (s\<lparr>sk_in := rest\<rparr>)"
  using ReadFull_ok [of s bs rest j i b] assms by (simp add: andThen_def full_buffer_def)

lemma step_index:
  assumes "i < MaxAddrLen" and "full_buffer b"
  shows "andThen (index i) f b s = f (sl_array b ! i) b s"
  using assms by (simp add: andThen_def index_def full_buffer_def)

lemma step_sends: "sk_werr s = [] \<Longrightarrow> andThen (sends m) f b s = f () b (s\<lparr>sk_out := sk_out s @ [m]\<rparr>)"
  by (simp add: andThen_def sends_def)

lemma full_buffer_upd:
  "full_buffer b \<Longrightarrow> length bs = j - i \<Longrightarrow> i \<le> j \<Longrightarrow> j \<le> MaxAddrLen \<Longrightarrow>
     full_buffer (b\<lparr>sl_array := take i (sl_array b) @ bs @ drop j (sl_array b)\<rparr>)"
  by (auto simp: full_buffer_def sl_cap_def)

lemma ReadAddr_first:
  assumes "full_buffer b" and "sk_in s = t # rest"
  obtains b1 where "ReadAddr b s = ReadAddr_switch t b1 (s\<lparr>sk_in := rest\<rparr>)" "full_buffer b1" "take 1 (sl_array b1) = [t]"
proof
  let ?b = "b\<lparr>sl_array := t # drop 1 (sl_array b)\<rparr>"
  show b: "full_buffer ?b" using full_buffer_upd [OF assms(1), of "[t]" 1 0] by (simp add: MaxAddrLen_def)
  have "\<not> sl_len b < MaxAddrLen" using assms(1) by (simp add: full_buffer_def)
  then show "ReadAddr b s = ReadAddr_switch t ?b (s\<lparr>sk_in := rest\<rparr>)"
    using assms b by (simp add: ReadAddr_def MaxAddrLen_def step_read [of s "[t]" rest] step_index)
qed simp

lemma read_rest:
  assumes "full_buffer b" and "take i (sl_array b) = pre" and "i \<le> sl_cap b" and "sk_in s = x @ rest"
    and "length x = j - i" and "i \<le> j" and "j \<le> MaxAddrLen"
  shows "\<exists>b1. andThen (ReadFull i j) (\<lambda>_ b. finish (take j (sl_array b)) b) b s = (Done (pre @ x), b1, s\<lparr>sk_in := rest\<rparr>)"
proof -
  have "length pre = i" using assms(2,3) by (auto simp: sl_cap_def)
  then show ?thesis
    using step_read [of s x rest j i b "\<lambda>_ b. finish (take j (sl_array b)) b"] assms by (simp add: finish_def)
qed

lemma full_buffer_cap: "full_buffer b \<Longrightarrow> MaxAddrLen \<le> sl_cap b"
  by (simp add: full_buffer_def)

lemma ReadAddr_ip:
  assumes "full_buffer b" and "sk_in s = t # x @ rest" and "t = AtypIPv4 \<and> length x = 6 \<or> t = AtypIPv6 \<and> length x = 18"
  shows "\<exists>b1. ReadAddr b s = (Done (t # x), b1, s\<lparr>sk_in := rest\<rparr>)"
proof -
  obtain b1 where b1: "ReadAddr b s = ReadAddr_switch t b1 (s\<lparr>sk_in := x @ rest\<rparr>)" "full_buffer b1" "take 1 (sl_array b1) = [t]"
    using ReadAddr_first [OF assms(1,2)] by blast
  note rd = read_rest [OF b1(2,3), of "s\<lparr>sk_in := x @ rest\<rparr>" x rest]
  have "1 \<le> sl_cap b1" using full_buffer_cap [OF b1(2)] by (simp add: MaxAddrLen_def)
  with assms(3) rd [of 7] rd [of 19] show ?thesis
    by (auto simp: b1(1) ReadAddr_switch_def socks_consts)
qed

lemma ReadAddr_domain:
  assumes "full_buffer b" and "sk_in s = AtypDomainName # n # x @ rest" and "length x = unat n + 2"
  shows "\<exists>b1. ReadAddr b s = (Done (AtypDomainName # n # x), b1, s\<lparr>sk_in := rest\<rparr>)"
proof -
  have n: "unat n < 256" using unsigned_less [of n, where ?'a = nat] by simp
  obtain b1 where b1: "ReadAddr b s = ReadAddr_switch AtypDomainName b1 (s\<lparr>sk_in := n # x @ rest\<rparr>)" "full_buffer b1"
      "take 1 (sl_array b1) = [AtypDomainName]"
    using ReadAddr_first [OF assms(1,2)] by blast
  let ?b2 = "b1\<lparr>sl_array := take 1 (sl_array b1) @ [n] @ drop 2 (sl_array b1)\<rparr>"
  have b2: "full_buffer ?b2" using full_buffer_upd [OF b1(2), of "[n]" 2 1] by (simp add: MaxAddrLen_def)
  have "ReadAddr b s = andThen (ReadFull 2 (2 + unat n + 2))
      (\<lambda>_ b. finish (take (2 + unat n + 2) (sl_array b)) b) ?b2 (s\<lparr>sk_in := x @ rest\<rparr>)"
    using b1 b2 by (simp add: ReadAddr_switch_def MaxAddrLen_def step_index
        step_read [of "s\<lparr>sk_in := n # x @ rest\<rparr>" "[n]" "x @ rest"])
  moreover have "take 2 (sl_array ?b2) = [AtypDomainName, n]" using b1(3) by simp
  ultimately show ?thesis
    using read_rest [OF b2, of 2 "[AtypDomainName, n]" "s\<lparr>sk_in := x @ rest\<rparr>" x rest "2 + unat n + 2"]
      n assms(3) full_buffer_cap [OF b2]
    by (simp add: MaxAddrLen_def)
qed

lemma ReadAddr_serialized:
  assumes "full_buffer b" and "addr_encodable d a" and "sk_in s = SerializeAddr d a p @ rest"
  shows "\<exists>b1. ReadAddr b s = (Done (SerializeAddr d a p), b1, s\<lparr>sk_in := rest\<rparr>)"
  using assms(2)
proof (cases rule: serialized_cases [of d a p])
  case dom
  then show ?thesis
    using ReadAddr_domain [OF assms(1), of s "of_nat (length d)" "ascii_bytes d @ put16 p" rest] assms(3) by simp
next
  case (v4 b)
  then show ?thesis using ReadAddr_ip [OF assms(1), of s AtypIPv4 "b @ put16 p" rest] assms(3) by simp
next
  case v6
  then show ?thesis using ReadAddr_ip [OF assms(1), of s AtypIPv6 "a @ put16 p" rest] assms(3) by simp
qed

definition credentials_ok :: "sock_user \<Rightarrow> bool" where
  "credentials_ok u \<longleftrightarrow> 0 < length (su_Username u) \<and> length (su_Username u) < 256 \<and>
     0 < length (su_Password u) \<and> length (su_Password u) < 256"

text \<open>The bytes a conforming server sends, and the messages it then gets.\<close>

definition server_replies :: "sock_user option \<Rightarrow> byte list \<Rightarrow> byte list" where
  "server_replies user bnd =
     (case user of None \<Rightarrow> [Version, MethodNoAuth] | Some _ \<Rightarrow> [Version, MethodUserPass, 1, 0]) @ [Version, 0, 0] @ bnd"

definition client_messages :: "byte list \<Rightarrow> byte \<Rightarrow> sock_user option \<Rightarrow> byte list list" where
  "client_messages addr cmd user =
     [[Version, 1, if user = None then MethodNoAuth else MethodUserPass]] @
     (case user of None \<Rightarrow> [] | Some u \<Rightarrow> [auth_msg u]) @ [Version # cmd # 0 # addr]"

lemma full_buffer_read2: "full_buffer b \<Longrightarrow> full_buffer (b\<lparr>sl_array := x # y # drop 2 (sl_array b)\<rparr>)"
  using full_buffer_upd [of b "[x, y]" 2 0] by (simp add: MaxAddrLen_def)

lemma full_buffer_read3: "full_buffer b \<Longrightarrow> full_buffer (b\<lparr>sl_array := x # y # z # drop 3 (sl_array b)\<rparr>)"
  using full_buffer_upd [of b "[x, y, z]" 3 0] by (simp add: MaxAddrLen_def)

lemma authenticate_ok:
  assumes "credentials_ok u" and "full_buffer b" and "sk_werr s = []" and "sk_in s = v # 0 # rest"
  shows "authenticate (Some u) b s = (Done (), b\<lparr>sl_array := v # 0 # drop 2 (sl_array b)\<rparr>,
    s\<lparr>sk_in := rest, sk_out := sk_out s @ [auth_msg u]\<rparr>)"
  using assms
  by (simp add: authenticate_def credentials_ok_def Let_def socks_consts step_sends step_index full_buffer_read2
      step_read [of "s\<lparr>sk_out := sk_out s @ [auth_msg u]\<rparr>" "[v, 0]" rest] finish_def)

lemma request_reply_ok:
  assumes "full_buffer b" and "sk_werr s = []" and "addr_encodable d a"
    and "sk_in s = [Version, 0, 0] @ SerializeAddr d a p @ rest"
  shows "\<exists>b1. request_reply addr cmd b s =
    (Done (SerializeAddr d a p), b1, s\<lparr>sk_out := sk_out s @ [Version # cmd # 0 # addr], sk_in := rest\<rparr>)"
proof -
  let ?s = "s\<lparr>sk_out := sk_out s @ [Version # cmd # 0 # addr]\<rparr>"
  let ?s1 = "?s\<lparr>sk_in := SerializeAddr d a p @ rest\<rparr>"
  let ?b = "b\<lparr>sl_array := Version # 0 # 0 # drop 3 (sl_array b)\<rparr>"
  have "request_reply addr cmd b s = ReadAddr ?b ?s1"
    using assms full_buffer_read3 [OF assms(1), of Version 0 0]
    by (simp add: request_reply_def step_sends step_index MaxAddrLen_def
        step_read [of ?s "[Version, 0, 0]" "SerializeAddr d a p @ rest"])
  moreover have "\<exists>b1. ReadAddr ?b ?s1 = (Done (SerializeAddr d a p), b1, ?s1\<lparr>sk_in := rest\<rparr>)"
    by (rule ReadAddr_serialized) (use assms full_buffer_read3 in simp_all)
  ultimately show ?thesis by simp
qed

lemma handshake_full:
  assumes "full_buffer b" and "sk_werr s = []" and "sk_out s = []" and "addr_encodable d a"
    and "\<forall>u. user = Some u \<longrightarrow> credentials_ok u"
    and "sk_in s = server_replies user (SerializeAddr d a p) @ rest"
  shows "\<exists>b1. handshake_over addr cmd user b s =
    (Done (SerializeAddr d a p), b1, s\<lparr>sk_out := client_messages addr cmd user, sk_in := rest\<rparr>)"
proof (cases user)
  case None
  let ?s = "s\<lparr>sk_out := [[Version, 1, MethodNoAuth]]\<rparr>"
  let ?s1 = "?s\<lparr>sk_in := [Version, 0, 0] @ SerializeAddr d a p @ rest\<rparr>"
  let ?b = "b\<lparr>sl_array := Version # MethodNoAuth # drop 2 (sl_array b)\<rparr>"
  have b: "full_buffer ?b" by (rule full_buffer_read2 [OF assms(1)])
  have "handshake_over addr cmd user b s = request_reply addr cmd ?b ?s1"
    using assms b None
    by (simp add: handshake_over_def step_sends step_index server_replies_def MaxAddrLen_def
        step_read [of ?s "[Version, MethodNoAuth]" "Version # 0 # 0 # SerializeAddr d a p @ rest"])
      (simp add: andThen_def finish_def socks_consts)
  then show ?thesis
    using request_reply_ok [OF b, of ?s1 d a p rest addr cmd] assms None by (simp add: client_messages_def)
next
  case (Some u)
  let ?s = "s\<lparr>sk_out := [[Version, 1, MethodUserPass]]\<rparr>"
  let ?s1 = "?s\<lparr>sk_in := [1, 0] @ [Version, 0, 0] @ SerializeAddr d a p @ rest\<rparr>"
  let ?s2 = "?s\<lparr>sk_in := [Version, 0, 0] @ SerializeAddr d a p @ rest, sk_out := [[Version, 1, MethodUserPass], auth_msg u]\<rparr>"
  let ?b = "b\<lparr>sl_array := Version # MethodUserPass # drop 2 (sl_array b)\<rparr>"
  let ?b2 = "?b\<lparr>sl_array := 1 # 0 # drop 2 (sl_array ?b)\<rparr>"
  have b: "full_buffer ?b" by (rule full_buffer_read2 [OF assms(1)])
  have b2: "full_buffer ?b2" by (rule full_buffer_read2 [OF b])
  have au: "authenticate (Some u) ?b ?s1 = (Done (), ?b2, ?s2)"
    using authenticate_ok [OF _ b, of u ?s1 1 "[Version, 0, 0] @ SerializeAddr d a p @ rest"] assms Some by simp
  have "handshake_over addr cmd user b s = andThen (authenticate (Some u)) (\<lambda>_. request_reply addr cmd) ?b ?s1"
    using assms b Some
    by (simp add: handshake_over_def step_sends step_index server_replies_def MaxAddrLen_def
        step_read [of ?s "[Version, MethodUserPass]" "1 # 0 # Version # 0 # 0 # SerializeAddr d a p @ rest"])
  also have "\<dots> = request_reply addr cmd ?b2 ?s2" by (rule andThen_simps(1) [where m = "authenticate (Some u)", OF au])
  finally show ?thesis
    using request_reply_ok [OF b2, of ?s2 d a p rest addr cmd] assms Some by (simp add: client_messages_def)
qed

subsection \<open>UDP packets\<close>

lemma packet_layout:
  "length h = 3 \<Longrightarrow> n = 3 + length a + length payload \<Longrightarrow> length buf = n \<Longrightarrow> take 3 buf = h \<Longrightarrow>
     copy_to (3 + length a) n payload (copy_to 3 n a buf) = h @ a @ payload"
  by (auto simp: copy_to_def Let_def min_def)

lemma Encode_small:
  assumes "3 + length a + length payload \<le> 1024"
  shows "EncodeUDPPacket pick pool (Some a) payload = (Some (Inr ([0, 0, 0] @ a @ payload)), pool)"
proof -
  have "take 3 (replicate (3 + length a + length payload) 0) = [0, 0, 0 :: byte]" by (simp add: numeral_3_eq_3)
  then show ?thesis
    using assms packet_layout [of "[0, 0, 0]" "3 + length a + length payload" a payload "replicate (3 + length a + length payload) 0"]
    by (simp add: EncodeUDPPacket_def Let_def)
qed

lemma Encode_large:
  assumes "1024 < 3 + length a + length payload" and "GetUDP pick pool = (b, rest)"
    and "3 + length a + length payload \<le> sl_cap b"
  shows "EncodeUDPPacket pick pool (Some a) payload = (Some (Inr (take 3 (sl_array b) @ a @ payload)), rest)"
proof -
  let ?n = "3 + length a + length payload"
  have "copy_to (3 + length a) ?n payload (copy_to 3 ?n a (take ?n (sl_array b))) = take 3 (sl_array b) @ a @ payload"
    by (rule packet_layout) (use assms(3) in \<open>auto simp: sl_cap_def min_def\<close>)
  then show ?thesis
    using assms by (simp add: EncodeUDPPacket_def Let_def reslice_def)
qed

lemma Encode_too_long:
  assumes "1024 < 3 + length a + length payload" and "GetUDP pick pool = (b, rest)"
    and "sl_cap b < 3 + length a + length payload"
  shows "EncodeUDPPacket pick pool (Some a) payload = (None, rest)"
  using assms by (simp add: EncodeUDPPacket_def Let_def reslice_def)

lemma decode_packet:
  assumes "addr_encodable d a"
  shows "DecodeUDPPacket ([0, 0, 0] @ SerializeAddr d a p @ payload) = (None, Some (SerializeAddr d a p), payload)"
    and "DecodeUDPPacketInPlace ([0, 0, 0] @ SerializeAddr d a p @ payload) = Inr (SerializeAddr d a p, length payload)"
proof -
  have "4 \<le> length (SerializeAddr d a p)"
    using SplitAddr_prefix [OF SplitAddr_serialized [OF assms, of p "[]"]] by simp
  then show "DecodeUDPPacket ([0, 0, 0] @ SerializeAddr d a p @ payload) = (None, Some (SerializeAddr d a p), payload)"
    "DecodeUDPPacketInPlace ([0, 0, 0] @ SerializeAddr d a p @ payload) = Inr (SerializeAddr d a p, length payload)"
    using SplitAddr_serialized [OF assms, of p payload]
    by (simp_all add: DecodeUDPPacket_def DecodeUDPPacketInPlace_def numeral_3_eq_3)
qed

lemma decode_in_place_agrees:
  "DecodeUDPPacketInPlace packet =
     (case DecodeUDPPacket packet of
        (Some e, _, _) \<Rightarrow> Inl e
      | (None, Some a, payload) \<Rightarrow> Inr (a, length payload)
      | (None, None, _) \<Rightarrow> undefined)"
  by (auto simp: DecodeUDPPacket_def DecodeUDPPacketInPlace_def split: option.splits)

subsection \<open>Properties\<close>



text \<open>Printing and parsing: the text of an IPv4 address with its port, and of a host name that is neither an
  address nor contains a colon or a bracket, parses to the same bytes.\<close>

theorem socks_address_text_roundtrip:
  assumes "length d < 256" and "set d \<inter> {CHR '':'', CHR ''['', CHR '']''} = {}"
    and "if d = [] then To4 a \<noteq> None else ParseIP d = None"
  shows "ParseAddrString (Addr_String (SerializeAddr d a p)) = Some (SerializeAddr d a p)"
  using assms ParseAddrString_v4 ParseAddrString_domain by (cases "d = []") auto

theorem socks_address_text_roundtrip_witness:
  "ParseAddrString (Addr_String (SerializeAddr [] [10, 0, 0, 1] 80)) = Some (SerializeAddr [] [10, 0, 0, 1] 80)"
  by (rule socks_address_text_roundtrip) (simp_all add: To4_def)

text \<open>A datagram that is encoded and then decoded gives the address and the payload back, provided the
  packet has at most 1024 bytes or the pooled buffer it is built in starts with three zeros.\<close>

theorem socks_udp_roundtrip:
  assumes "addr_encodable d a" and "GetUDP pick pool = (b, rest)"
    and "3 + length (SerializeAddr d a p) + length payload \<le>
      (if take 3 (sl_array b) = [0, 0, 0] then sl_cap b else 1024)"
  shows "\<exists>packet pool1. EncodeUDPPacket pick pool (Some (SerializeAddr d a p)) payload = (Some (Inr packet), pool1) \<and>
    DecodeUDPPacket packet = (None, Some (SerializeAddr d a p), payload) \<and>
    DecodeUDPPacketInPlace packet = Inr (SerializeAddr d a p, length payload)"
proof (cases "3 + length (SerializeAddr d a p) + length payload \<le> 1024")
  case True
  then show ?thesis using Encode_small decode_packet [OF assms(1)] by simp
next
  case False
  then show ?thesis
    using Encode_large [of "SerializeAddr d a p" payload pick pool b rest] decode_packet [OF assms(1)] assms(2,3)
    by (simp split: if_splits)
qed

theorem socks_udp_roundtrip_witness:
  "\<exists>packet pool1. EncodeUDPPacket None [] (Some (SerializeAddr [] [8, 8, 8, 8] 53)) (replicate 2000 1) = (Some (Inr packet), pool1) \<and>
    DecodeUDPPacket packet = (None, Some (SerializeAddr [] [8, 8, 8, 8] 53), replicate 2000 1) \<and>
    DecodeUDPPacketInPlace packet = Inr (SerializeAddr [] [8, 8, 8, 8] 53, length (replicate 2000 (1 :: byte)))"
proof (rule socks_udp_roundtrip)
  show "GetUDP None [] = (new_slice udpBufferSize udpBufferSize, [])" by (simp add: GetUDP_def pool_take_def)
  have "udpBufferSize = Suc (Suc (Suc 65532))" by (simp add: udpBufferSize_def)
  then have "take 3 (sl_array (new_slice udpBufferSize udpBufferSize)) = [0, 0, 0]"
    by (simp add: new_slice_def numeral_3_eq_3)
  then show "3 + length (SerializeAddr [] [8, 8, 8, 8] 53) + length (replicate 2000 (1 :: byte)) \<le>
      (if take 3 (sl_array (new_slice udpBufferSize udpBufferSize)) = [0, 0, 0]
       then sl_cap (new_slice udpBufferSize udpBufferSize) else 1024)"
    by (simp add: SerializeAddr_v4 To4_def sl_cap_def new_slice_def udpBufferSize_def)
qed (simp add: addr_encodable_def)

text \<open>A pooled buffer keeps what its last user wrote.  A large packet built in one whose first two bytes are
  not zero is rejected by every receiver that follows the format, the code's own decoder included.\<close>

theorem pooled_packet_header_stale:
  assumes "GetUDP pick pool = (b, rest)" and "take 2 (sl_array b) \<noteq> [0, 0]"
    and "1024 < 3 + length a + length payload" and "3 + length a + length payload \<le> sl_cap b"
  shows "\<exists>packet. EncodeUDPPacket pick pool (Some a) payload = (Some (Inr packet), rest) \<and>
    DecodeUDPPacket packet = (Some ErrVersionMismatch, None, [])"
proof -
  have "take 2 (take 3 (sl_array b) @ a @ payload) = take 2 (sl_array b)"
    using assms(3,4) by (simp add: sl_cap_def min_def)
  then show ?thesis
    using Encode_large [OF assms(3,1,4)] assms(2,3,4) by (simp add: DecodeUDPPacket_def sl_cap_def min_def)
qed

theorem pooled_packet_header_stale_witness:
  "\<exists>packet. EncodeUDPPacket (Some 0) [\<lparr>sl_array = 255 # replicate 65534 0, sl_len = 65535\<rparr>]
      (Some [1, 8, 8, 8, 8, 0, 53]) (replicate 1200 1) = (Some (Inr packet), []) \<and>
    DecodeUDPPacket packet = (Some ErrVersionMismatch, None, [])"
  by (rule pooled_packet_header_stale [where b = "\<lparr>sl_array = 255 # replicate 65534 0, sl_len = 65535\<rparr>"])
    (simp_all add: GetUDP_def pool_take_def sl_cap_def)



text \<open>C8. The buffer that \<open>ClientHandshake\<close> takes from its pool has length zero, so no handshake ever completes:
  it fails, or panics as soon as the server has answered the greeting.\<close>

theorem handshake_never_completes:
  assumes "addr_pool_ok pool" and "ClientHandshake pick pool addr cmd user s = (r, s1, pool1)"
  shows "addr_pool_ok pool1 \<and> (r = Panicked \<or> (\<exists>e. r = Failed e)) \<and>
     (2 \<le> length (sk_in s) \<and> sk_werr s = [] \<longrightarrow> r = Panicked)"
  by (rule handshake_outcome [OF assms])

theorem handshake_never_completes_witness:
  "\<exists>s1 pool1. ClientHandshake None [] [1, 1, 2, 3, 4, 0, 80] CmdConnect None
     \<lparr>sk_in = server_replies None (SerializeAddr [] [10, 0, 0, 1] 80), sk_end = IoEOF, sk_werr = [], sk_out = []\<rparr> =
     (Panicked, s1, pool1)"
proof -
  let ?s = "\<lparr>sk_in = server_replies None (SerializeAddr [] [10, 0, 0, 1] 80), sk_end = IoEOF, sk_werr = [], sk_out = []\<rparr>"
  obtain r s1 pool1 where h: "ClientHandshake None [] [1, 1, 2, 3, 4, 0, 80] CmdConnect None ?s = (r, s1, pool1)"
    by (metis prod_cases3)
  with handshake_never_completes [OF _ h] show ?thesis by (simp add: addr_pool_ok_def server_replies_def)
qed

end
