(* ===== verification/ConnPool.thy ===== *)
theory ConnPool
  imports Prelude
begin

text \<open>
  The pool of proxy connections, connpool/pool.go.  The buffered channel is a list with a flag for
  \<open>close\<close>.  \<open>Get\<close>, \<open>Put\<close> and \<open>Close\<close> each read or set the atomic flag first and touch the channel
  afterwards; these two halves are separate steps, and the public operations compose them.  The probe
  of a connection and the dialer are arguments; connections are identified by a type variable.
\<close>

record 'c pooled_conn =
  wc_conn :: 'c
  wc_createdAt :: instant

record 'c conn_pool =
  cp_connections :: "'c pooled_conn list"
  cp_chanClosed :: bool
  cp_addr :: string
  cp_maxSize :: nat
  cp_idleTimeout :: duration
  cp_maxLifetime :: duration
  cp_closed :: bool
  cp_hits :: "64 word"
  cp_misses :: "64 word"
  cp_putCnt :: "64 word"
  cp_dropCnt :: "64 word"

definition NewPoolWithLifetime :: "string \<Rightarrow> int \<Rightarrow> duration \<Rightarrow> duration \<Rightarrow> 'c conn_pool" where
  "NewPoolWithLifetime addr maxSize idleTimeout maxLifetime =
     \<lparr>cp_connections = [], cp_chanClosed = False, cp_addr = addr,
      cp_maxSize = (if maxSize \<le> 0 then 10 else nat maxSize),
      cp_idleTimeout = (if idleTimeout \<le> 0 then 300 * second else idleTimeout),
      cp_maxLifetime = (if maxLifetime \<le> 0 then 1800 * second else maxLifetime),
      cp_closed = False, cp_hits = 0, cp_misses = 0, cp_putCnt = 0, cp_dropCnt = 0\<rparr>"

definition NewPool :: "string \<Rightarrow> int \<Rightarrow> duration \<Rightarrow> 'c conn_pool" where
  "NewPool addr maxSize idleTimeout =
     \<lparr>cp_connections = [], cp_chanClosed = False, cp_addr = addr,
      cp_maxSize = (if maxSize \<le> 0 then 10 else nat maxSize),
      cp_idleTimeout = (if idleTimeout \<le> 0 then 300 * second else idleTimeout),
      cp_maxLifetime = 1800 * second,
      cp_closed = False, cp_hits = 0, cp_misses = 0, cp_putCnt = 0, cp_dropCnt = 0\<rparr>"

text \<open>What the probing read of a connection finds.\<close>

datatype probe_result = ProbeData | ProbeTimeout | ProbeError

definition isConnectionAlive :: "probe_result \<Rightarrow> bool \<times> bool" where
  "isConnectionAlive r = (case r of ProbeData \<Rightarrow> (True, True) | ProbeTimeout \<Rightarrow> (True, False) | ProbeError \<Rightarrow> (False, False))"

definition isConnectionExpired :: "instant \<Rightarrow> instant \<Rightarrow> 'c conn_pool \<Rightarrow> bool" where
  "isConnectionExpired now createdAt p = (if cp_maxLifetime p \<le> 0 then False else now - createdAt > cp_maxLifetime p)"

datatype 'c pool_get = ErrPoolClosed | FromPool 'c | FromDialer

text \<open>\<open>Get\<close> after its test of the flag: what the client gets and the connections closed.\<close>

definition Get_recv :: "instant \<Rightarrow> ('c \<Rightarrow> probe_result) \<Rightarrow> 'c conn_pool \<Rightarrow> 'c pool_get \<times> 'c list \<times> 'c conn_pool" where
  "Get_recv now probe p =
     (case cp_connections p of
        w # ws \<Rightarrow>
          let p1 = p\<lparr>cp_connections := ws\<rparr>;
              (alive, hasData) = isConnectionAlive (probe (wc_conn w))
          in if alive \<and> \<not> hasData \<and> \<not> isConnectionExpired now (wc_createdAt w) p1
             then (FromPool (wc_conn w), [], p1\<lparr>cp_hits := cp_hits p1 + 1\<rparr>)
             else (FromDialer, [wc_conn w], p1\<lparr>cp_dropCnt := cp_dropCnt p1 + 1, cp_misses := cp_misses p1 + 1\<rparr>)
      | [] \<Rightarrow> (FromDialer, [], p\<lparr>cp_misses := cp_misses p + 1\<rparr>))"

definition Pool_Get :: "instant \<Rightarrow> ('c \<Rightarrow> probe_result) \<Rightarrow> 'c conn_pool \<Rightarrow> 'c pool_get \<times> 'c list \<times> 'c conn_pool" where
  "Pool_Get now probe p = (if cp_closed p then (ErrPoolClosed, [], p) else Get_recv now probe p)"

text \<open>The two halves of \<open>Put\<close>: the test, which closes the connection when the pool is closed, and the send,
  which panics on a closed channel (None).\<close>

definition Put_check :: "'c \<Rightarrow> 'c conn_pool \<Rightarrow> bool \<times> 'c list \<times> 'c conn_pool" where
  "Put_check c p =
     (if cp_closed p then (False, [c], p\<lparr>cp_dropCnt := cp_dropCnt p + 1\<rparr>)
      else (True, [], p\<lparr>cp_putCnt := cp_putCnt p + 1\<rparr>))"

definition Put_send :: "instant \<Rightarrow> 'c \<Rightarrow> 'c conn_pool \<Rightarrow> ('c list \<times> 'c conn_pool) option" where
  "Put_send now c p =
     (if cp_chanClosed p then None
      else if length (cp_connections p) < cp_maxSize p
           then Some ([], p\<lparr>cp_connections := cp_connections p @ [\<lparr>wc_conn = c, wc_createdAt = now\<rparr>]\<rparr>)
           else Some ([c], p\<lparr>cp_dropCnt := cp_dropCnt p + 1\<rparr>))"

definition Pool_Put :: "instant \<Rightarrow> 'c option \<Rightarrow> 'c conn_pool \<Rightarrow> ('c list \<times> 'c conn_pool) option" where
  "Pool_Put now conn p =
     (case conn of
        None \<Rightarrow> Some ([], p)
      | Some c \<Rightarrow> (case Put_check c p of (False, cl, p1) \<Rightarrow> Some (cl, p1) | (True, _, p1) \<Rightarrow> Put_send now c p1))"

text \<open>\<open>Close\<close>: the exchange of the flag, \<open>close\<close> of the channel, and the loop that empties it.\<close>

definition Close_swap :: "'c conn_pool \<Rightarrow> bool \<times> 'c conn_pool" where
  "Close_swap p = (cp_closed p, p\<lparr>cp_closed := True\<rparr>)"

definition Close_channel :: "'c conn_pool \<Rightarrow> 'c conn_pool" where
  "Close_channel p = p\<lparr>cp_chanClosed := True\<rparr>"

definition Close_drain :: "'c conn_pool \<Rightarrow> 'c list \<times> 'c conn_pool" where
  "Close_drain p = (map wc_conn (cp_connections p), p\<lparr>cp_connections := []\<rparr>)"

definition Pool_Close :: "'c conn_pool \<Rightarrow> 'c list \<times> 'c conn_pool" where
  "Pool_Close p =
     (case Close_swap p of (True, p1) \<Rightarrow> ([], p1) | (False, p1) \<Rightarrow> Close_drain (Close_channel p1))"

record pool_stats =
  ps_Available :: nat
  ps_MaxSize :: nat
  ps_Closed :: bool
  ps_Hits :: "64 word"
  ps_Misses :: "64 word"
  ps_HitRatio :: rat
  ps_PutCount :: "64 word"
  ps_DropCount :: "64 word"

text \<open>The ratio is a float in the code.\<close>

definition Pool_Stats :: "'c conn_pool \<Rightarrow> pool_stats" where
  "Pool_Stats p =
     (let total = cp_hits p + cp_misses p
      in \<lparr>ps_Available = length (cp_connections p), ps_MaxSize = cp_maxSize p, ps_Closed = cp_closed p,
          ps_Hits = cp_hits p, ps_Misses = cp_misses p,
          ps_HitRatio = (if total > 0 then of_nat (unat (cp_hits p)) / of_nat (unat total) * 100 else 0),
          ps_PutCount = cp_putCnt p, ps_DropCount = cp_dropCnt p\<rparr>)"

subsection \<open>The pool and its clients\<close>

text \<open>A connection is in the pool, with a client, with a client inside \<open>Put\<close>, or closed.  Clients put back
  only what they hold, and the dialer makes new connections.  \<open>sy_getting\<close> and \<open>sy_closing\<close> count the
  goroutines inside \<open>Get\<close> after its test and inside the first \<open>Close\<close>.\<close>

record 'c pool_system =
  sy_pool :: "'c conn_pool"
  sy_held :: "'c set"
  sy_putting :: "'c set"
  sy_shut :: "'c set"
  sy_getting :: nat
  sy_closing :: bool

definition in_pool :: "'c conn_pool \<Rightarrow> 'c set" where
  "in_pool p = set (map wc_conn (cp_connections p))"

definition known :: "'c pool_system \<Rightarrow> 'c set" where
  "known s = in_pool (sy_pool s) \<union> sy_held s \<union> sy_putting s \<union> sy_shut s"

inductive pool_sys_step :: "'c pool_system \<Rightarrow> 'c pool_system \<Rightarrow> bool" where
  get_enter: "\<not> cp_closed (sy_pool s) \<Longrightarrow> pool_sys_step s (s\<lparr>sy_getting := Suc (sy_getting s)\<rparr>)"
| get_hit: "sy_getting s > 0 \<Longrightarrow> Get_recv now probe (sy_pool s) = (FromPool c, cl, p) \<Longrightarrow>
    pool_sys_step s (s\<lparr>sy_pool := p, sy_getting := sy_getting s - 1, sy_held := insert c (sy_held s), sy_shut := sy_shut s \<union> set cl\<rparr>)"
| get_dial: "sy_getting s > 0 \<Longrightarrow> Get_recv now probe (sy_pool s) = (FromDialer, cl, p) \<Longrightarrow> c \<notin> known s \<Longrightarrow>
    pool_sys_step s (s\<lparr>sy_pool := p, sy_getting := sy_getting s - 1, sy_held := insert c (sy_held s), sy_shut := sy_shut s \<union> set cl\<rparr>)"
| put_enter: "c \<in> sy_held s \<Longrightarrow> Put_check c (sy_pool s) = (True, cl, p) \<Longrightarrow>
    pool_sys_step s (s\<lparr>sy_pool := p, sy_held := sy_held s - {c}, sy_putting := insert c (sy_putting s)\<rparr>)"
| put_closed: "c \<in> sy_held s \<Longrightarrow> Put_check c (sy_pool s) = (False, cl, p) \<Longrightarrow>
    pool_sys_step s (s\<lparr>sy_pool := p, sy_held := sy_held s - {c}, sy_shut := sy_shut s \<union> set cl\<rparr>)"
| put_send: "c \<in> sy_putting s \<Longrightarrow> Put_send now c (sy_pool s) = Some (cl, p) \<Longrightarrow>
    pool_sys_step s (s\<lparr>sy_pool := p, sy_putting := sy_putting s - {c}, sy_shut := sy_shut s \<union> set cl\<rparr>)"
| close_swap: "Close_swap (sy_pool s) = (False, p) \<Longrightarrow> pool_sys_step s (s\<lparr>sy_pool := p, sy_closing := True\<rparr>)"
| close_chan: "sy_closing s \<Longrightarrow> \<not> cp_chanClosed (sy_pool s) \<Longrightarrow> pool_sys_step s (s\<lparr>sy_pool := Close_channel (sy_pool s)\<rparr>)"
| close_drain: "sy_closing s \<Longrightarrow> cp_chanClosed (sy_pool s) \<Longrightarrow> Close_drain (sy_pool s) = (cl, p) \<Longrightarrow>
    pool_sys_step s (s\<lparr>sy_pool := p, sy_shut := sy_shut s \<union> set cl, sy_closing := False\<rparr>)"

definition fresh_system :: "'c conn_pool \<Rightarrow> 'c pool_system" where
  "fresh_system p = \<lparr>sy_pool = p, sy_held = {}, sy_putting = {}, sy_shut = {}, sy_getting = 0, sy_closing = False\<rparr>"

definition pool_sys_inv :: "'c pool_system \<Rightarrow> bool" where
  "pool_sys_inv s \<longleftrightarrow>
     distinct (map wc_conn (cp_connections (sy_pool s))) \<and> length (cp_connections (sy_pool s)) \<le> cp_maxSize (sy_pool s) \<and>
     in_pool (sy_pool s) \<inter> sy_held s = {} \<and> in_pool (sy_pool s) \<inter> sy_putting s = {} \<and> in_pool (sy_pool s) \<inter> sy_shut s = {} \<and>
     sy_held s \<inter> sy_putting s = {} \<and> sy_held s \<inter> sy_shut s = {} \<and> sy_putting s \<inter> sy_shut s = {}"

lemma Get_recv_hit:
  assumes "Get_recv now probe p = (FromPool c, cl, p')"
  obtains w ws where "cp_connections p = w # ws" "c = wc_conn w" "cl = []" "cp_connections p' = ws" "cp_maxSize p' = cp_maxSize p"
  using assms by (auto simp: Get_recv_def Let_def split: list.splits prod.splits if_splits)

lemma Get_recv_dial:
  assumes "Get_recv now probe p = (FromDialer, cl, p')"
  obtains (none) "cp_connections p = []" "cl = []" "cp_connections p' = []" "cp_maxSize p' = cp_maxSize p"
  | (dropped) w ws where "cp_connections p = w # ws" "cl = [wc_conn w]" "cp_connections p' = ws" "cp_maxSize p' = cp_maxSize p"
  using assms by (auto simp: Get_recv_def Let_def split: list.splits prod.splits if_splits)

lemma pool_sys_step_inv: "pool_sys_step s t \<Longrightarrow> pool_sys_inv s \<Longrightarrow> pool_sys_inv t"
proof (induction rule: pool_sys_step.induct)
  case (get_hit s now probe c cl p)
  from get_hit(2) obtain w ws where "cp_connections (sy_pool s) = w # ws" "c = wc_conn w" "cl = []"
    "cp_connections p = ws" "cp_maxSize p = cp_maxSize (sy_pool s)" by (rule Get_recv_hit)
  then show ?case using get_hit(3) by (simp add: pool_sys_inv_def in_pool_def)
next
  case (get_dial s now probe cl p c)
  from get_dial(2) show ?case
  proof (cases rule: Get_recv_dial)
    case none
    then show ?thesis using get_dial(3,4) by (simp add: pool_sys_inv_def in_pool_def known_def)
  next
    case (dropped w ws)
    then show ?thesis using get_dial(3,4) by (simp add: pool_sys_inv_def in_pool_def known_def)
  qed
next
  case (put_enter c s cl p)
  have "cp_connections p = cp_connections (sy_pool s)" "cp_maxSize p = cp_maxSize (sy_pool s)"
    using put_enter(2) by (auto simp: Put_check_def split: if_splits)
  then have "in_pool p = in_pool (sy_pool s)" "length (cp_connections p) \<le> cp_maxSize p" "distinct (map wc_conn (cp_connections p))"
    using put_enter(3) by (simp_all add: pool_sys_inv_def in_pool_def)
  then show ?case using put_enter(1,3) unfolding pool_sys_inv_def by simp blast
next
  case (put_closed c s cl p)
  have "cp_connections p = cp_connections (sy_pool s)" "cp_maxSize p = cp_maxSize (sy_pool s)" "cl = [c]"
    using put_closed(2) by (auto simp: Put_check_def split: if_splits)
  then have "in_pool p = in_pool (sy_pool s)" "length (cp_connections p) \<le> cp_maxSize p" "distinct (map wc_conn (cp_connections p))" "cl = [c]"
    using put_closed(3) by (simp_all add: pool_sys_inv_def in_pool_def)
  then show ?case using put_closed(1,3) unfolding pool_sys_inv_def by simp blast
next
  case (put_send c s now cl p)
  have c: "c \<notin> in_pool (sy_pool s)" using put_send(1,3) unfolding pool_sys_inv_def by blast
  have "in_pool p = insert c (in_pool (sy_pool s)) \<and> cl = [] \<or> in_pool p = in_pool (sy_pool s) \<and> cl = [c]"
    using put_send(2) by (auto simp: Put_send_def in_pool_def split: if_splits)
  moreover have "length (cp_connections p) \<le> cp_maxSize p \<and> distinct (map wc_conn (cp_connections p))"
    using put_send(2,3) c by (auto simp: Put_send_def pool_sys_inv_def in_pool_def split: if_splits)
  ultimately show ?case using put_send(1,3) c unfolding pool_sys_inv_def by (elim disjE) (simp, blast)+
next
  case (close_drain s cl p)
  then have "in_pool p = {}" "cp_connections p = []" "set cl = in_pool (sy_pool s)"
    by (auto simp: Close_drain_def in_pool_def)
  then show ?case using close_drain(4) unfolding pool_sys_inv_def by simp blast
qed (simp_all add: pool_sys_inv_def Close_swap_def Close_channel_def in_pool_def)

interpretation poolsys: invariant_system
  "\<lambda>s. \<exists>addr n idle life. s = fresh_system (NewPoolWithLifetime addr n idle life)" pool_sys_step pool_sys_inv
proof unfold_locales
  show "pool_sys_inv s" if "\<exists>addr n idle life. s = fresh_system (NewPoolWithLifetime addr n idle life)" for s :: "'a pool_system"
    using that by (auto simp: pool_sys_inv_def fresh_system_def NewPoolWithLifetime_def in_pool_def)
qed (rule pool_sys_step_inv)

subsection \<open>Properties\<close>

text \<open>C15. The pool shares no connection: in every reachable state, over all interleavings of \<open>Get\<close>, \<open>Put\<close> and
  \<open>Close\<close>, the pool holds at most \<open>maxSize\<close> connections, no connection twice, none that a client holds and none
  that has been closed; so a connection that \<open>Get\<close> takes from the pool belongs to its client alone.\<close>

theorem pool_connections_exclusive:
  assumes "pool_sys_step\<^sup>*\<^sup>* (fresh_system (NewPoolWithLifetime addr n idle life)) s"
  shows "length (cp_connections (sy_pool s)) \<le> cp_maxSize (sy_pool s) \<and> distinct (map wc_conn (cp_connections (sy_pool s))) \<and>
    in_pool (sy_pool s) \<inter> (sy_held s \<union> sy_putting s \<union> sy_shut s) = {} \<and> sy_held s \<inter> sy_shut s = {} \<and>
    \<not> (\<exists>now probe c cl p. Get_recv now probe (sy_pool s) = (FromPool c, cl, p) \<and> (c \<in> sy_held s \<or> c \<in> sy_shut s))"
proof -
  have inv: "pool_sys_inv s" using poolsys.run_inv assms by blast
  have "c \<in> in_pool (sy_pool s)" if "Get_recv now probe (sy_pool s) = (FromPool c, cl, p)" for now probe c cl p
    using that by (rule Get_recv_hit) (simp add: in_pool_def)
  with inv show ?thesis unfolding pool_sys_inv_def by blast
qed

lemma example_pool_run:
  obtains s :: "nat pool_system" where "pool_sys_step\<^sup>*\<^sup>* (fresh_system (NewPoolWithLifetime ''proxy:1080'' 2 0 0)) s"
    "sy_held s = {}" "sy_putting s = {7}" "cp_closed (sy_pool s)" "cp_chanClosed (sy_pool s)"
proof -
  let ?s0 = "fresh_system (NewPoolWithLifetime ''proxy:1080'' 2 0 0) :: nat pool_system"
  let ?s1 = "?s0\<lparr>sy_getting := 1\<rparr>"
  let ?s2 = "?s1\<lparr>sy_pool := (sy_pool ?s1)\<lparr>cp_misses := 1\<rparr>, sy_getting := 0, sy_held := {7}, sy_shut := {}\<rparr>"
  let ?s3 = "?s2\<lparr>sy_pool := (sy_pool ?s2)\<lparr>cp_putCnt := 1\<rparr>, sy_held := {}, sy_putting := {7}\<rparr>"
  let ?s4 = "?s3\<lparr>sy_pool := (sy_pool ?s3)\<lparr>cp_closed := True\<rparr>, sy_closing := True\<rparr>"
  let ?s5 = "?s4\<lparr>sy_pool := (sy_pool ?s4)\<lparr>cp_chanClosed := True\<rparr>\<rparr>"
  have 1: "pool_sys_step ?s0 ?s1" using pool_sys_step.get_enter [of ?s0] by (simp add: fresh_system_def NewPoolWithLifetime_def)
  have 2: "pool_sys_step ?s1 ?s2"
    using pool_sys_step.get_dial [of ?s1 0 "\<lambda>_. ProbeError" "[]" "(sy_pool ?s1)\<lparr>cp_misses := 1\<rparr>" 7]
    by (simp add: fresh_system_def NewPoolWithLifetime_def Get_recv_def known_def in_pool_def)
  have 3: "pool_sys_step ?s2 ?s3"
    using pool_sys_step.put_enter [of 7 ?s2 "[]" "(sy_pool ?s2)\<lparr>cp_putCnt := 1\<rparr>"]
    by (simp add: fresh_system_def NewPoolWithLifetime_def Put_check_def)
  have 4: "pool_sys_step ?s3 ?s4"
    using pool_sys_step.close_swap [of ?s3 "(sy_pool ?s3)\<lparr>cp_closed := True\<rparr>"]
    by (simp add: fresh_system_def NewPoolWithLifetime_def Close_swap_def)
  have 5: "pool_sys_step ?s4 ?s5"
    using pool_sys_step.close_chan [of ?s4] by (simp add: fresh_system_def NewPoolWithLifetime_def Close_channel_def)
  have "pool_sys_step\<^sup>*\<^sup>* ?s0 ?s5" using 1 2 3 4 5 by (meson converse_rtranclp_into_rtranclp rtranclp.rtrancl_refl)
  then show ?thesis by (rule that) (simp_all add: fresh_system_def)
qed

theorem pool_connections_exclusive_witness:
  "\<exists>s :: nat pool_system. pool_sys_step\<^sup>*\<^sup>* (fresh_system (NewPoolWithLifetime ''proxy:1080'' 2 0 0)) s \<and> sy_putting s = {7} \<and>
     length (cp_connections (sy_pool s)) \<le> cp_maxSize (sy_pool s)"
proof -
  obtain s :: "nat pool_system" where s: "pool_sys_step\<^sup>*\<^sup>* (fresh_system (NewPoolWithLifetime ''proxy:1080'' 2 0 0)) s"
    "sy_held s = {}" "sy_putting s = {7}" "cp_closed (sy_pool s)" "cp_chanClosed (sy_pool s)" by (rule example_pool_run)
  with pool_connections_exclusive [OF s(1)] show ?thesis by blast
qed

text \<open>\<open>Put\<close> can panic: there are reachable states in which a client is past the test of the flag and its send
  meets a channel that \<open>Close\<close> has closed.\<close>

theorem put_racing_close_panics:
  "\<exists>(s :: nat pool_system) c. pool_sys_step\<^sup>*\<^sup>* (fresh_system (NewPoolWithLifetime ''proxy:1080'' 2 0 0)) s \<and> c \<in> sy_putting s \<and>
     Put_send now c (sy_pool s) = None"
proof -
  obtain s :: "nat pool_system" where s: "pool_sys_step\<^sup>*\<^sup>* (fresh_system (NewPoolWithLifetime ''proxy:1080'' 2 0 0)) s"
    "sy_held s = {}" "sy_putting s = {7}" "cp_closed (sy_pool s)" "cp_chanClosed (sy_pool s)" by (rule example_pool_run)
  then have "Put_send now 7 (sy_pool s) = None" by (simp add: Put_send_def)
  with s show ?thesis by blast
qed

text \<open>The maximal lifetime bounds a stay in the pool and not the age of a connection: a connection that is put
  back at most \<open>maxLifetime\<close> before the next \<open>Get\<close> is handed out again, however long ago it was dialled, and
  the idle timeout plays no part.\<close>

lemma returned_connection_counts_as_new:
  assumes "\<not> cp_closed p" and "\<not> cp_chanClosed p" and "cp_connections p = []" and "0 < cp_maxSize p"
    and "t2 - t1 \<le> cp_maxLifetime p" and "probe c = ProbeTimeout"
  shows "\<exists>p1 p2. Pool_Put t1 (Some c) p = Some ([], p1) \<and> Pool_Get t2 probe p1 = (FromPool c, [], p2) \<and> cp_connections p2 = []"
  using assms
  by (simp add: Pool_Put_def Put_check_def Put_send_def Pool_Get_def Get_recv_def isConnectionAlive_def isConnectionExpired_def Let_def)

end
