(* ===== verification/Socks5Client.thy ===== *)
theory Socks5Client
  imports Socks5 ConnPool
begin

text \<open>
  The SOCKS5 proxy of \<^verbatim>\<open>proxy/socks5.go\<close>, its variant with a fallback to direct connections
  (\<^verbatim>\<open>proxy/socks5_fallback.go\<close>) and the pool of \<^verbatim>\<open>proxy/socks5_pool.go\<close>.

  Connections are values of a type variable; \<open>stream c\<close> is what connection \<open>c\<close> will read and how its writes
  end.  The dialer, the opening of a local UDP socket and the resolution of the proxy's own name are arguments.
  Each operation lists the connections that it closes.  The named result \<open>err\<close> of a function that panics is
  still nil when its deferred calls run, so they close nothing.
\<close>

record 'c socks5 =
  s5_addr :: string
  s5_user :: string
  s5_pass :: string
  s5_unix :: bool
  s5_lastHealthCheck :: instant
  s5_lastHealthStatus :: bool
  s5_connPool :: "'c conn_pool"

definition NewSocks5 :: "string \<Rightarrow> string \<Rightarrow> string \<Rightarrow> 'c socks5" where
  "NewSocks5 addr user pass =
     \<lparr>s5_addr = addr, s5_user = user, s5_pass = pass, s5_unix = (addr \<noteq> [] \<and> hd addr = CHR ''/''),
      s5_lastHealthCheck = 0, s5_lastHealthStatus = False, s5_connPool = NewPool addr 10 (300 * second)\<rparr>"

definition HealthStatus :: "'c socks5 \<Rightarrow> bool \<times> instant" where
  "HealthStatus ss = (s5_lastHealthStatus ss, s5_lastHealthCheck ss)"

definition S5_CheckHealth :: "instant \<Rightarrow> string + 'c \<Rightarrow> 'c socks5 \<Rightarrow> bool \<times> 'c list \<times> 'c socks5" where
  "S5_CheckHealth start dialed ss =
     (case dialed of
        Inl _ \<Rightarrow> (False, [], ss\<lparr>s5_lastHealthStatus := False, s5_lastHealthCheck := start\<rparr>)
      | Inr c \<Rightarrow> (True, [c], ss\<lparr>s5_lastHealthStatus := True, s5_lastHealthCheck := start\<rparr>))"

definition S5_Close :: "'c socks5 \<Rightarrow> 'c list \<times> 'c socks5" where
  "S5_Close ss = (let (cl, p) = Pool_Close (s5_connPool ss) in (cl, ss\<lparr>s5_connPool := p\<rparr>))"

definition ConnPoolStats :: "'c socks5 \<Rightarrow> pool_stats" where
  "ConnPoolStats ss = Pool_Stats (s5_connPool ss)"

definition socks_user_of :: "'c socks5 \<Rightarrow> sock_user option" where
  "socks_user_of ss =
     (if s5_user ss \<noteq> [] then Some \<lparr>su_Username = s5_user ss, su_Password = s5_pass ss\<rparr> else None)"

definition serializeSocksAddr :: "metadata \<Rightarrow> byte list" where
  "serializeSocksAddr m = SerializeAddr [] (DstIP m) (DstPort m)"

subsection \<open>TCP\<close>

record 'c closing_conn =
  pc_conn :: 'c
  pc_once :: bool
  pc_isErr :: bool

datatype 'c s5_dial =
    S5Conn "'c closing_conn"
  | S5DialError string string string
  | S5HandshakeError string sock_error
  | S5Panic

text \<open>The arguments: the choice of the address buffer, the clock and the probe for the connection pool, what the
  dialer answers, and the streams.\<close>

definition S5_DialContext ::
  "nat option \<Rightarrow> slice list \<Rightarrow> instant \<Rightarrow> ('c \<Rightarrow> probe_result) \<Rightarrow> string + 'c \<Rightarrow> ('c \<Rightarrow> sock) \<Rightarrow> metadata option \<Rightarrow> 'c socks5 \<Rightarrow>
     'c s5_dial \<times> 'c list \<times> slice list \<times> 'c socks5" where
  "S5_DialContext pick bufs now probe dialed stream md ss =
     (case md of
        None \<Rightarrow> (S5DialError (s5_addr ss) ''unknown'' ''metadata is nil'', [], bufs, ss)
      | Some m \<Rightarrow>
          let (g, dropped, p) = Pool_Get now probe (s5_connPool ss);
              ss1 = ss\<lparr>s5_connPool := p\<rparr>;
              got = (case g of ErrPoolClosed \<Rightarrow> Inl ''connection pool is closed'' | FromPool c \<Rightarrow> Inr c | FromDialer \<Rightarrow> dialed)
          in case got of
               Inl e \<Rightarrow> (S5DialError (s5_addr ss) (fst (DestinationAddress m)) (''connect: '' @ e), dropped, bufs, ss1)
             | Inr c \<Rightarrow>
                 (case ClientHandshake pick bufs (serializeSocksAddr m) CmdConnect (socks_user_of ss) (stream c) of
                    (Done _, _, bufs1) \<Rightarrow> (S5Conn \<lparr>pc_conn = c, pc_once = False, pc_isErr = False\<rparr>, dropped, bufs1, ss1)
                  | (Failed e, _, bufs1) \<Rightarrow> (S5HandshakeError (s5_addr ss) e, dropped @ [c], bufs1, ss1)
                  | (Panicked, _, bufs1) \<Rightarrow> (S5Panic, dropped, bufs1, ss1)))"

text \<open>\<open>pooledConn.Close\<close>: the connections closed and the pool, or None when the pool's channel is closed.\<close>

definition pooledConn_Close :: "instant \<Rightarrow> 'c closing_conn \<Rightarrow> 'c conn_pool \<Rightarrow> ('c list \<times> 'c closing_conn \<times> 'c conn_pool) option" where
  "pooledConn_Close now pc p =
     (if pc_once pc then Some ([], pc, p)
      else
        let pc1 = pc\<lparr>pc_once := True\<rparr>
        in if pc_isErr pc then Some ([pc_conn pc], pc1, p)
           else case Pool_Put now (Some (pc_conn pc)) p of None \<Rightarrow> None | Some (cl, p1) \<Rightarrow> Some (cl, pc1, p1))"

definition CloseWithError :: "instant \<Rightarrow> 'c closing_conn \<Rightarrow> 'c conn_pool \<Rightarrow> ('c list \<times> 'c closing_conn \<times> 'c conn_pool) option" where
  "CloseWithError now pc p = pooledConn_Close now (pc\<lparr>pc_isErr := True\<rparr>) p"

subsection \<open>UDP\<close>

record ('c, 'u) socks_packet_conn =
  sp_PacketConn :: 'u
  sp_rAddr :: "ip \<times> nat"
  sp_tcpConn :: 'c

datatype ('c, 'u) s5_udp =
    S5Packet "('c, 'u) socks_packet_conn"
  | S5UDPError string string
  | S5UDPDialError string
  | S5UDPPanic

definition IsUnspecified :: "ip \<Rightarrow> bool" where
  "IsUnspecified a \<longleftrightarrow> IP_Equal a (v4InV6Prefix @ [0, 0, 0, 0]) \<or> IP_Equal a (replicate 16 0)"

text \<open>The result, the connections closed by the call, and the association that the background goroutine watches
  and closes when the control connection ends.\<close>

definition S5_DialUDP ::
  "nat option \<Rightarrow> slice list \<Rightarrow> string + 'c \<Rightarrow> ('c \<Rightarrow> sock) \<Rightarrow> string + 'u \<Rightarrow> string + ip \<Rightarrow> 'c socks5 \<Rightarrow>
     ('c, 'u) s5_udp \<times> 'c list \<times> ('c \<times> 'u) option \<times> slice list" where
  "S5_DialUDP pick bufs dialed stream listen resolve ss =
     (if s5_unix ss then (S5UDPError ''associate'' ''unsupported operation'', [], None, bufs)
      else case dialed of
        Inl e \<Rightarrow> (S5UDPDialError (''connect: '' @ e), [], None, bufs)
      | Inr c \<Rightarrow>
          (case ClientHandshake pick bufs [AtypIPv4, 0, 0, 0, 0, 0, 0] CmdUDPAssociate (socks_user_of ss) (stream c) of
             (Panicked, _, bufs1) \<Rightarrow> (S5UDPPanic, [], None, bufs1)
           | (Failed e, _, bufs1) \<Rightarrow> (S5UDPError ''associate'' ''handshake'', [c, c], None, bufs1)
           | (Done addr, _, bufs1) \<Rightarrow>
               (case listen of
                  Inl e \<Rightarrow> (S5UDPError ''listen'' e, [c, c], None, bufs1)
                | Inr u \<Rightarrow>
                    (case Addr_UDPAddr addr of
                       None \<Rightarrow> (S5UDPError ''associate'' ''invalid UDP binding address'', [c], Some (c, u), bufs1)
                     | Some (a, port) \<Rightarrow>
                         if IsUnspecified a then
                           (case resolve of
                              Inl e \<Rightarrow> (S5UDPError ''resolve'' e, [c], Some (c, u), bufs1)
                            | Inr b \<Rightarrow> (S5Packet \<lparr>sp_PacketConn = u, sp_rAddr = (b, port), sp_tcpConn = c\<rparr>, [], Some (c, u), bufs1))
                         else (S5Packet \<lparr>sp_PacketConn = u, sp_rAddr = (a, port), sp_tcpConn = c\<rparr>, [], Some (c, u), bufs1)))))"

datatype sp_dest = MetaAddr metadata | NetAddr net_addr

text \<open>\<open>WriteTo\<close>: the packet handed to the socket with its destination.\<close>

definition sp_WriteTo ::
  "nat option \<Rightarrow> slice list \<Rightarrow> byte list \<Rightarrow> sp_dest \<Rightarrow> ('c, 'u) socks_packet_conn \<Rightarrow>
     (sock_error + byte list \<times> (ip \<times> nat)) option \<times> slice list" where
  "sp_WriteTo pick pool b dest pc =
     (let a = (case dest of MetaAddr m \<Rightarrow> Some (serializeSocksAddr m) | NetAddr n \<Rightarrow> Socks_ParseAddr n)
      in case EncodeUDPPacket pick pool a b of
           (None, pool1) \<Rightarrow> (None, pool1)
         | (Some (Inl e), pool1) \<Rightarrow> (Some (Inl e), pool1)
         | (Some (Inr packet), pool1) \<Rightarrow> (Some (Inr (packet, sp_rAddr pc)), pool1))"

text \<open>\<open>ReadFrom\<close>: \<open>data\<close> is the datagram that arrives, cut to the buffer.  The header is decoded from the whole
  buffer.  The result is the number of bytes, the endpoint, and the buffer.\<close>

datatype sp_read = ReadError | ReadOk nat "ip \<times> nat"

definition sp_ReadFrom :: "byte list option \<Rightarrow> byte list \<Rightarrow> sp_read \<times> byte list" where
  "sp_ReadFrom data b =
     (case data of
        None \<Rightarrow> (ReadError, b)
      | Some d \<Rightarrow>
          let n = min (length d) (length b); b1 = copy_to 0 (length b) d b
          in case DecodeUDPPacketInPlace b1 of
               Inl e \<Rightarrow> (ReadError, b1)
             | Inr (addr, payloadLen) \<Rightarrow>
                 (case Addr_UDPAddr addr of
                    None \<Rightarrow> (ReadError, b1)
                  | Some ep \<Rightarrow>
                      let headerLen = int n - int payloadLen
                      in (ReadOk payloadLen ep,
                          if payloadLen > 0 \<and> headerLen > 0 \<and> headerLen < int n
                          then copy_to 0 payloadLen (sub (nat headerLen) n b1) b1 else b1)))"

definition sp_Close :: "('c, 'u) socks_packet_conn \<Rightarrow> 'c \<times> 'u" where
  "sp_Close pc = (sp_tcpConn pc, sp_PacketConn pc)"

subsection \<open>Fallback to direct connections\<close>

record 'c fallback =
  fb_Socks5 :: "'c socks5"
  fb_socksAvailable :: bool
  fb_lastCheckTime :: instant
  fb_counter :: "64 word"
  fb_stopped :: bool

definition NewSocks5WithFallback :: "string \<Rightarrow> string \<Rightarrow> string \<Rightarrow> 'c fallback" where
  "NewSocks5WithFallback addr user pass =
     \<lparr>fb_Socks5 = NewSocks5 addr user pass, fb_socksAvailable = True, fb_lastCheckTime = 0, fb_counter = 0, fb_stopped = False\<rparr>"

definition setAvailable :: "instant \<Rightarrow> bool \<Rightarrow> 'c fallback \<Rightarrow> 'c fallback" where
  "setAvailable now available sf =
     (let sf1 = sf\<lparr>fb_socksAvailable := available, fb_lastCheckTime := now\<rparr>
      in if available then sf1 else sf1\<lparr>fb_counter := fb_counter sf1 + 1\<rparr>)"

datatype 'c fb_dial = FbSocks "'c closing_conn" | FbDirect string | FbPanic

definition dialDirect :: "metadata \<Rightarrow> string" where
  "dialDirect m = JoinHostPort (IP_String (DstIP m)) (FormatUint (unat (DstPort m)))"

text \<open>A dial through the proxy is the argument \<open>d\<close>: the result of \<open>S5_DialContext\<close> and the proxy after it.  A fallback
  dials \<open>dialDirect m\<close>.\<close>

definition Fb_DialContext :: "instant \<Rightarrow> 'c s5_dial \<times> 'c socks5 \<Rightarrow> metadata \<Rightarrow> 'c fallback \<Rightarrow> 'c fb_dial \<times> 'c fallback" where
  "Fb_DialContext now d m sf =
     (if fb_socksAvailable sf then
        (let sf1 = sf\<lparr>fb_Socks5 := snd d\<rparr>
         in case fst d of
              S5Conn c \<Rightarrow> (FbSocks c, sf1)
            | S5Panic \<Rightarrow> (FbPanic, sf1)
            | S5DialError _ _ _ \<Rightarrow> (FbDirect (dialDirect m), setAvailable now False sf1)
            | S5HandshakeError _ _ \<Rightarrow> (FbDirect (dialDirect m), setAvailable now False sf1))
      else (FbDirect (dialDirect m), sf))"

datatype ('c, 'u) fb_udp = FbPacket "('c, 'u) socks_packet_conn" | FbListen | FbUDPPanic

definition Fb_DialUDP :: "instant \<Rightarrow> ('c, 'u) s5_udp \<Rightarrow> 'c fallback \<Rightarrow> ('c, 'u) fb_udp \<times> 'c fallback" where
  "Fb_DialUDP now d sf =
     (if fb_socksAvailable sf then
        (case d of
           S5Packet p \<Rightarrow> (FbPacket p, sf)
         | S5UDPPanic \<Rightarrow> (FbUDPPanic, sf)
         | S5UDPError _ _ \<Rightarrow> (FbListen, setAvailable now False sf)
         | S5UDPDialError _ \<Rightarrow> (FbListen, setAvailable now False sf))
      else (FbListen, sf))"

text \<open>One tick of the health check: nothing while the proxy is available, otherwise a dial; None when the dial or
  the return of its connection to the pool panics.\<close>

definition healthCheck_tick :: "instant \<Rightarrow> 'c s5_dial \<times> 'c socks5 \<Rightarrow> 'c fallback \<Rightarrow> 'c fallback option" where
  "healthCheck_tick now d sf =
     (if fb_socksAvailable sf then Some sf
      else
        let sf1 = sf\<lparr>fb_Socks5 := snd d\<rparr>
        in case fst d of
             S5Conn c \<Rightarrow>
               (case pooledConn_Close now c (s5_connPool (fb_Socks5 sf1)) of
                  None \<Rightarrow> None
                | Some (_, _, p) \<Rightarrow> Some (setAvailable now True (sf1\<lparr>fb_Socks5 := (fb_Socks5 sf1)\<lparr>s5_connPool := p\<rparr>\<rparr>)))
           | S5Panic \<Rightarrow> None
           | S5DialError _ _ _ \<Rightarrow> Some sf1
           | S5HandshakeError _ _ \<Rightarrow> Some sf1)"

definition Fb_Stop :: "'c fallback \<Rightarrow> 'c fallback" where
  "Fb_Stop sf = (if fb_stopped sf then sf else sf\<lparr>fb_stopped := True\<rparr>)"

subsection \<open>The pool of idle SOCKS5 connections\<close>

record 'c pooled_socks5 =
  p5_conn :: 'c
  p5_createdAt :: instant
  p5_lastUsed :: instant

definition p5_maxRetries :: nat where "p5_maxRetries = 5"
definition p5_maxIdleTime :: duration where "p5_maxIdleTime = 30 * second"

text \<open>\<open>GetConnection\<close>: in each attempt the run-time system hands out some pooled connection or nil, the argument
  \<open>picks\<close>; \<open>rd c\<close> is what the probing read of \<open>c\<close> returns, a number of bytes and an error flag.  A result None
  stands for a new connection from the dialer; the second component lists the connections closed.\<close>

fun GetConnection_loop ::
  "nat \<Rightarrow> nat option list \<Rightarrow> instant \<Rightarrow> ('c \<Rightarrow> nat \<times> bool) \<Rightarrow> 'c pooled_socks5 list \<Rightarrow> 'c option \<times> 'c list \<times> 'c pooled_socks5 list" where
  "GetConnection_loop 0 picks now rd pool = (None, [], pool)"
| "GetConnection_loop (Suc k) [] now rd pool = (None, [], pool)"
| "GetConnection_loop (Suc k) (None # picks) now rd pool = (None, [], pool)"
| "GetConnection_loop (Suc k) (Some i # picks) now rd pool =
     (if length pool \<le> i then (None, [], pool)
      else
        let pc = pool ! i; rest = take i pool @ drop (Suc i) pool;
            again = (let (r, cl, p) = GetConnection_loop k picks now rd rest in (r, p5_conn pc # cl, p))
        in if now - p5_lastUsed pc > p5_maxIdleTime then again
           else let (n, err) = rd (p5_conn pc)
                in if \<not> err \<and> n = 0 then (Some (p5_conn pc), [], rest) else again)"

definition GetConnection where
  "GetConnection = GetConnection_loop p5_maxRetries"

definition PutConnection :: "instant \<Rightarrow> 'c option \<Rightarrow> 'c pooled_socks5 list \<Rightarrow> 'c pooled_socks5 list" where
  "PutConnection now conn pool =
     (case conn of None \<Rightarrow> pool | Some c \<Rightarrow> pool @ [\<lparr>p5_conn = c, p5_createdAt = now, p5_lastUsed = now\<rparr>])"

subsection \<open>Dials\<close>

lemma dial_cases:
  assumes "addr_pool_ok bufs" and "S5_DialContext pick bufs now probe dialed stream md ss = (r, cl, bufs1, ss1)"
  shows "addr_pool_ok bufs1 \<and> (\<forall>c. r \<noteq> S5Conn c)"
proof (cases "md")
  case None
  with assms show ?thesis by (auto simp: S5_DialContext_def)
next
  case (Some m)
  obtain g dr p where g: "Pool_Get now probe (s5_connPool ss) = (g, dr, p)" by (metis prod_cases3)
  let ?got = "case g of ErrPoolClosed \<Rightarrow> Inl ''connection pool is closed'' | FromPool c \<Rightarrow> Inr c | FromDialer \<Rightarrow> dialed"
  show ?thesis
  proof (cases ?got)
    case (Inl e)
    then show ?thesis using assms Some g by (auto simp: S5_DialContext_def)
  next
    case (Inr c)
    obtain h s1 b1 where h: "ClientHandshake pick bufs (serializeSocksAddr m) CmdConnect (socks_user_of ss) (stream c) = (h, s1, b1)"
      by (metis prod_cases3)
    from handshake_outcome [OF assms(1) h] show ?thesis
      using assms(2) Some g Inr h by (auto simp: S5_DialContext_def)
  qed
qed

lemma udp_dial_cases:
  assumes "addr_pool_ok bufs" and "S5_DialUDP pick bufs dialed stream listen resolve ss = (r, cl, mon, bufs1)"
  shows "addr_pool_ok bufs1 \<and> (\<forall>p. r \<noteq> S5Packet p)"
proof (cases "s5_unix ss \<or> (\<exists>e. dialed = Inl e)")
  case True
  with assms show ?thesis by (auto simp: S5_DialUDP_def split: if_splits)
next
  case False
  then obtain c where c: "dialed = Inr c" "\<not> s5_unix ss" by (cases dialed) auto
  obtain h s1 b1 where h: "ClientHandshake pick bufs [AtypIPv4, 0, 0, 0, 0, 0, 0] CmdUDPAssociate (socks_user_of ss) (stream c) = (h, s1, b1)"
    by (metis prod_cases3)
  from handshake_outcome [OF assms(1) h] show ?thesis
    using assms(2) c h by (auto simp: S5_DialUDP_def)
qed

subsection \<open>The fallback over time\<close>

inductive fb_step :: "'c fallback \<times> slice list \<Rightarrow> 'c fallback \<times> slice list \<Rightarrow> bool" where
  dial: "S5_DialContext pick bufs t probe dialed stream (Some m) (fb_Socks5 sf) = (r, cl, bufs1, ss1) \<Longrightarrow>
    Fb_DialContext now (r, ss1) m sf = (out, sf1) \<Longrightarrow> fb_step (sf, bufs) (sf1, bufs1)"
| udp: "S5_DialUDP pick bufs dialed stream (listen :: string + 'c) resolve (fb_Socks5 sf) = (r, cl, mon, bufs1) \<Longrightarrow>
    Fb_DialUDP now r sf = (out, sf1) \<Longrightarrow> fb_step (sf, bufs) (sf1, bufs1)"
| tick: "S5_DialContext pick bufs t probe dialed stream (Some m) (fb_Socks5 sf) = (r, cl, bufs1, ss1) \<Longrightarrow>
    healthCheck_tick now (r, ss1) sf = Some sf1 \<Longrightarrow> fb_step (sf, bufs) (sf1, bufs1)"
| stop: "fb_step (sf, bufs) (Fb_Stop sf, bufs)"

definition unavailable :: "'c fallback \<times> slice list \<Rightarrow> bool" where
  "unavailable st \<longleftrightarrow> addr_pool_ok (snd st) \<and> \<not> fb_socksAvailable (fst st)"

lemma unavailable_step:
  assumes "fb_step st st1" and "unavailable st"
  shows "unavailable st1"
  using assms
proof cases
  case (dial pick bufs t probe dialed stream m sf r cl bufs1 ss1 now out sf1)
  then show ?thesis using assms(2) dial_cases [OF _ dial(3)] by (auto simp: unavailable_def Fb_DialContext_def)
next
  case (udp pick bufs dialed stream listen resolve sf r cl mon bufs1 now out sf1)
  then show ?thesis using assms(2) udp_dial_cases [OF _ udp(3)] by (auto simp: unavailable_def Fb_DialUDP_def)
next
  case (tick pick bufs t probe dialed stream m sf r cl bufs1 ss1 now sf1)
  then show ?thesis using assms(2) dial_cases [OF _ tick(3)]
    by (auto simp: unavailable_def healthCheck_tick_def Let_def split: s5_dial.splits)
next
  case (stop sf bufs)
  then show ?thesis using assms(2) by (auto simp: unavailable_def Fb_Stop_def)
qed

interpretation fbsys: invariant_system unavailable fb_step unavailable
  by unfold_locales (auto intro: unavailable_step)

subsection \<open>Reading datagrams\<close>

lemma decode_in_place_padded:
  assumes "addr_encodable [] a" and "d = [0, 0, 0] @ SerializeAddr [] a p @ payload"
  shows "DecodeUDPPacketInPlace (d @ pad) = Inr (SerializeAddr [] a p, length payload + length pad)"
  using decode_packet(2) [OF assms(1), of p "payload @ pad"] assms(2) by simp

lemma ReadFrom_general:
  assumes "length a = 4 \<or> length a = 16" and "d = [0, 0, 0] @ SerializeAddr [] a p @ payload" and "length d \<le> length b"
    and "k = length payload + (length b - length d)" and "h = int (length d) - int k"
  shows "sp_ReadFrom (Some d) b =
    (ReadOk k (case To4 a of Some a4 \<Rightarrow> a4 | None \<Rightarrow> a, unat p),
     if k > 0 \<and> h > 0 \<and> h < int (length d)
     then copy_to 0 k (sub (nat h) (length d) (d @ drop (length d) b)) (d @ drop (length d) b)
     else d @ drop (length d) b)"
proof -
  have enc: "addr_encodable [] a" using assms(1) by (simp add: addr_encodable_def)
  have "copy_to 0 (length b) d b = d @ drop (length d) b" using assms(3) by (simp add: copy_to_def Let_def min_def)
  moreover have "DecodeUDPPacketInPlace (d @ drop (length d) b) = Inr (SerializeAddr [] a p, k)"
    using decode_in_place_padded [OF enc assms(2), of "drop (length d) b"] assms(3,4) by simp
  moreover have "min (length d) (length b) = length d" using assms(3) by simp
  ultimately show ?thesis
    using UDPAddr_serialized [OF assms(1), of p] by (simp add: sp_ReadFrom_def Let_def assms(5) del: nat_diff_distrib)
qed

subsection \<open>Properties\<close>

text \<open>A dial on a fresh connection whose server has answered the greeting panics, and the connection is then
  neither closed nor back in the pool.\<close>

theorem socks_dial_panics:
  assumes "addr_pool_ok bufs" and "S5_DialContext pick bufs now probe dialed stream (Some m) ss = (r, cl, bufs1, ss1)"
    and "cp_connections (s5_connPool ss) = []" and "\<not> cp_closed (s5_connPool ss)" and "dialed = Inr c"
    and "2 \<le> length (sk_in (stream c))" and "sk_werr (stream c) = []"
  shows "r = S5Panic \<and> cl = [] \<and> cp_connections (s5_connPool ss1) = []"
proof -
  obtain h s1 b1 where h: "ClientHandshake pick bufs (serializeSocksAddr m) CmdConnect (socks_user_of ss) (stream c) = (h, s1, b1)"
    by (metis prod_cases3)
  have "h = Panicked" using handshake_outcome [OF assms(1) h] assms(6,7) by blast
  then show ?thesis
    using assms(2-5) h by (auto simp: S5_DialContext_def Pool_Get_def Get_recv_def Let_def)
qed

definition greeting_server :: sock where
  "greeting_server = \<lparr>sk_in = server_replies None (SerializeAddr [] [10, 0, 0, 1] 80), sk_end = IoEOF, sk_werr = [], sk_out = []\<rparr>"

theorem socks_dial_panics_witness:
  "\<exists>cl bufs1 ss1. S5_DialContext None [] 0 (\<lambda>_. ProbeTimeout) (Inr (0::nat)) (\<lambda>_. greeting_server) (Some new_metadata)
     (NewSocks5 ''127.0.0.1:1080'' [] []) = (S5Panic, cl, bufs1, ss1)"
proof -
  let ?ss = "NewSocks5 ''127.0.0.1:1080'' [] [] :: nat socks5"
  obtain r cl bufs1 ss1 where d: "S5_DialContext None [] 0 (\<lambda>_. ProbeTimeout) (Inr 0) (\<lambda>_. greeting_server) (Some new_metadata) ?ss =
      (r, cl, bufs1, ss1)" by (metis prod_cases4)
  have "r = S5Panic \<and> cl = [] \<and> cp_connections (s5_connPool ss1) = []"
    by (rule socks_dial_panics [OF _ d])
      (simp_all add: addr_pool_ok_def NewSocks5_def NewPool_def greeting_server_def server_replies_def)
  with d show ?thesis by simp
qed



text \<open>A datagram written through the association carries the destination of its metadata and its payload: the
  proxy that decodes the packet gets both, and the packet goes to the association's address.\<close>

theorem socks_datagram_addressed:
  assumes "length (DstIP m) = 4 \<or> length (DstIP m) = 16" and "3 + length (serializeSocksAddr m) + length payload \<le> 1024"
  shows "\<exists>packet addr. sp_WriteTo pick pool payload (MetaAddr m) pc = (Some (Inr (packet, sp_rAddr pc)), pool) \<and>
    DecodeUDPPacket packet = (None, Some addr, payload) \<and>
    Addr_UDPAddr addr = Some (case To4 (DstIP m) of Some a4 \<Rightarrow> a4 | None \<Rightarrow> DstIP m, unat (DstPort m))"
proof -
  have enc: "addr_encodable [] (DstIP m)" using assms(1) by (simp add: addr_encodable_def)
  show ?thesis
    using Encode_small [OF assms(2)] decode_packet(1) [OF enc, of "DstPort m" payload] UDPAddr_serialized [OF assms(1)]
    by (simp add: sp_WriteTo_def serializeSocksAddr_def)
qed

theorem socks_datagram_addressed_witness:
  "\<exists>packet addr. sp_WriteTo None [] [1, 2] (MetaAddr (new_metadata\<lparr>DstIP := [8, 8, 8, 8], DstPort := 53\<rparr>))
       (\<lparr>sp_PacketConn = 0, sp_rAddr = ([10, 0, 0, 1], 4000), sp_tcpConn = 1\<rparr> :: (nat, nat) socks_packet_conn) =
     (Some (Inr (packet, ([10, 0, 0, 1], 4000))), []) \<and>
     DecodeUDPPacket packet = (None, Some addr, [1, 2]) \<and> Addr_UDPAddr addr = Some ([8, 8, 8, 8], 53)"
  using socks_datagram_addressed [of "new_metadata\<lparr>DstIP := [8, 8, 8, 8], DstPort := 53\<rparr>" "[1, 2]" None "[]"
      "\<lparr>sp_PacketConn = 0, sp_rAddr = ([10, 0, 0, 1], 4000), sp_tcpConn = 1\<rparr> :: (nat, nat) socks_packet_conn"]
  by (simp add: serializeSocksAddr_def SerializeAddr_v4 To4_def)

text \<open>A datagram read into a buffer that is larger than it: the header is decoded from the whole buffer, so the
  reported length includes what lies behind the datagram, and when the buffer exceeds the datagram by its header or
  more, the buffer still starts with the SOCKS header instead of the payload.\<close>

theorem socks_read_keeps_header:
  assumes "length a = 4 \<or> length a = 16" and "d = [0, 0, 0] @ SerializeAddr [] a p @ payload"
    and "length d + 3 + length (SerializeAddr [] a p) \<le> length b"
  shows "\<exists>n ep b1. sp_ReadFrom (Some d) b = (ReadOk n ep, b1) \<and> n > length payload \<and> take (length d) b1 = d \<and>
    n = length b - (3 + length (SerializeAddr [] a p))"
proof -
  let ?k = "length payload + (length b - length d)"
  have "int (length d) - int ?k \<le> 0" using assms(2,3) by simp
  then have "sp_ReadFrom (Some d) b = (ReadOk ?k (case To4 a of Some a4 \<Rightarrow> a4 | None \<Rightarrow> a, unat p), d @ drop (length d) b)"
    using ReadFrom_general [OF assms(1,2) _ refl refl, of b] assms(3) by simp
  then show ?thesis using assms(2,3) by auto
qed

theorem socks_read_keeps_header_witness:
  "\<exists>n ep b1. sp_ReadFrom (Some ([0, 0, 0] @ SerializeAddr [] [8, 8, 8, 8] 53 @ [7])) (replicate 2048 0) = (ReadOk n ep, b1) \<and>
     n > length [7 :: byte] \<and>
     take (length ([0, 0, 0] @ SerializeAddr [] [8, 8, 8, 8] 53 @ [7])) b1 = [0, 0, 0] @ SerializeAddr [] [8, 8, 8, 8] 53 @ [7] \<and>
     n = length (replicate 2048 (0 :: byte)) - (3 + length (SerializeAddr [] [8, 8, 8, 8] 53))"
  by (rule socks_read_keeps_header) (simp_all add: SerializeAddr_v4 To4_def)

text \<open>Read into a buffer of exactly its length, a datagram gives its payload.\<close>

theorem socks_read_exact:
  assumes "length a = 4 \<or> length a = 16" and "d = [0, 0, 0] @ SerializeAddr [] a p @ payload" and "length b = length d"
  shows "\<exists>b1. sp_ReadFrom (Some d) b =
    (ReadOk (length payload) (case To4 a of Some a4 \<Rightarrow> a4 | None \<Rightarrow> a, unat p), b1) \<and> take (length payload) b1 = payload"
proof -
  have "nat (int (length d) - int (length payload)) = length d - length payload" by simp
  moreover have "sub (length d - length payload) (length d) d = payload" using assms(2) by (simp add: sub_def numeral_3_eq_3)
  ultimately show ?thesis
    using ReadFrom_general [OF assms(1,2) _ refl refl, of b] assms(2,3) by (auto simp: copy_to_def Let_def min_def)
qed

theorem socks_read_exact_witness:
  "\<exists>b1. sp_ReadFrom (Some ([0, 0, 0] @ SerializeAddr [] [8, 8, 8, 8] 53 @ [7])) (replicate 11 0) =
    (ReadOk (length [7 :: byte]) (case To4 [8, 8, 8, 8] of Some a4 \<Rightarrow> a4 | None \<Rightarrow> [8, 8, 8, 8], unat (53 :: 16 word)), b1) \<and>
    take (length [7 :: byte]) b1 = [7]"
  by (rule socks_read_exact) (simp_all add: SerializeAddr_v4 To4_def)

text \<open>The pool of idle connections hands a connection out again only if the probing read of one byte returned
  no byte and no error.  An idle connection makes that read time out, so it is closed.\<close>

theorem idle_socks_connections_closed:
  assumes "\<forall>c. rd c \<noteq> (0, False)" and "GetConnection picks now rd pool = (r, cl, pool1)"
  shows "r = None \<and> length cl \<le> p5_maxRetries \<and> set cl \<subseteq> p5_conn ` set pool \<and> length pool = length cl + length pool1"
proof -
  have "GetConnection_loop k picks now rd pool = (r, cl, pool1) \<Longrightarrow>
      r = None \<and> length cl \<le> k \<and> set cl \<subseteq> p5_conn ` set pool \<and> length pool = length cl + length pool1" for k
    using assms(1)
  proof (induction k picks now rd pool arbitrary: r cl pool1 rule: GetConnection_loop.induct)
    case (4 k i picks now rd pool)
    show ?case
    proof (cases "length pool \<le> i")
      case True
      then show ?thesis using "4.prems" by auto
    next
      case False
      let ?rest = "take i pool @ drop (Suc i) pool"
      obtain r' cl' p' where rec: "GetConnection_loop k picks now rd ?rest = (r', cl', p')" by (metis prod_cases3)
      obtain n e where ne: "rd (p5_conn (pool ! i)) = (n, e)" by fastforce
      have "\<not> (\<not> e \<and> n = 0)" using "4.prems"(2) ne by metis
      then have eq: "r = r'" "cl = p5_conn (pool ! i) # cl'" "pool1 = p'"
        using "4.prems"(1) False rec ne by (auto simp: Let_def split: if_splits)
      have "r' = None \<and> length cl' \<le> k \<and> set cl' \<subseteq> p5_conn ` set ?rest \<and> length ?rest = length cl' + length p'"
        using "4.IH" [OF False refl refl rec "4.prems"(2)] .
      moreover have "p5_conn ` set ?rest \<subseteq> p5_conn ` set pool" by (auto dest: in_set_takeD in_set_dropD)
      ultimately have "set cl' \<subseteq> p5_conn ` set pool" "r' = None" "length cl' \<le> k" "length ?rest = length cl' + length p'"
        by blast+
      then show ?thesis using eq False by auto
    qed
  qed auto
  then show ?thesis using assms(2) by (simp add: GetConnection_def)
qed

theorem idle_socks_connections_closed_witness:
  "fst (GetConnection [Some 0] 5 (\<lambda>_. (0, True)) [\<lparr>p5_conn = 1 :: nat, p5_createdAt = 0, p5_lastUsed = 0\<rparr>]) = None"
  using idle_socks_connections_closed [of "\<lambda>_. (0, True)" "[Some 0]" 5 "[\<lparr>p5_conn = 1 :: nat, p5_createdAt = 0, p5_lastUsed = 0\<rparr>]"]
  by (metis fst_conv prod.inject prod_cases3)

end
