(* ===== verification/DhcpV6.thy ===== *)
theory DhcpV6
  imports GoNet GoBytes
begin

text \<open>
  The DHCPv6 server, \<^verbatim>\<open>dhcp/dhcpv6.go\<close>: the message codec, the handlers, the allocation of addresses and the
  statistics.

  The order of a range over the options of a message, and over the leases, is an argument.  A handler holds
  the mutex \<open>mu\<close> from its first to its last line: it is one step, its readings of the clock are one instant, and a
  second \<open>Lock\<close> by the same goroutine blocks for ever.  A panic releases the mutex, because the unlock is deferred.
  The four bytes of an identity association are read by \<open>iana[0:4]\<close>, which panics on a shorter option.
\<close>

definition DHCPv6Solicit :: byte where "DHCPv6Solicit = 1"
definition DHCPv6Advertise :: byte where "DHCPv6Advertise = 2"
definition DHCPv6Request :: byte where "DHCPv6Request = 3"
definition DHCPv6Renew :: byte where "DHCPv6Renew = 5"
definition DHCPv6Reply :: byte where "DHCPv6Reply = 7"
definition DHCPv6Release :: byte where "DHCPv6Release = 8"
definition DHCPv6InformationReq :: byte where "DHCPv6InformationReq = 11"

definition V6OptionClientID :: "16 word" where "V6OptionClientID = 1"
definition V6OptionServerID :: "16 word" where "V6OptionServerID = 2"
definition V6OptionIANA :: "16 word" where "V6OptionIANA = 3"
definition V6OptionPreference :: "16 word" where "V6OptionPreference = 7"
definition V6OptionStatusCode :: "16 word" where "V6OptionStatusCode = 13"
definition V6OptionDNS :: "16 word" where "V6OptionDNS = 23"
definition V6OptionNTPServer :: "16 word" where "V6OptionNTPServer = 56"

definition V6StatusSuccess :: "16 word" where "V6StatusSuccess = 0"
definition V6StatusNoAddrsAvail :: "16 word" where "V6StatusNoAddrsAvail = 2"

lemmas v6_consts = DHCPv6Solicit_def DHCPv6Advertise_def DHCPv6Request_def DHCPv6Renew_def DHCPv6Reply_def
  DHCPv6Release_def DHCPv6InformationReq_def V6OptionClientID_def V6OptionServerID_def V6OptionIANA_def
  V6OptionPreference_def V6OptionStatusCode_def V6OptionDNS_def V6OptionNTPServer_def V6StatusSuccess_def
  V6StatusNoAddrsAvail_def

record dhcpv6_message =
  v6_MsgType :: byte
  v6_TransactionID :: "32 word"
  v6_Options :: "16 word \<rightharpoonup> byte list"
  v6_PeerAddr :: ip

definition NewDHCPv6Message :: dhcpv6_message where
  "NewDHCPv6Message = \<lparr>v6_MsgType = 0, v6_TransactionID = 0, v6_Options = Map.empty, v6_PeerAddr = []\<rparr>"

subsection \<open>The codec\<close>

text \<open>The options loop writes into a buffer of 1500 bytes at a position.  Its test leaves out the two bytes of the
  length: an option can reach two bytes beyond the buffer, and then writing it or cutting the result panics
  (None).\<close>

fun marshal_options :: "(16 word \<rightharpoonup> byte list) \<Rightarrow> 16 word list \<Rightarrow> nat \<times> byte list \<Rightarrow> (nat \<times> byte list) option" where
  "marshal_options opts [] (pos, buf) = Some (pos, buf)"
| "marshal_options opts (c # cs) (pos, buf) =
     (let v = the (opts c)
      in if pos + 2 + length v > length buf then Some (pos, buf)
         else if length buf < pos + 4 then None
         else marshal_options opts cs
                (pos + 4 + length v,
                 copy_to (pos + 4) (length buf) v
                   (copy_to (pos + 2) (length buf) (put16 (of_nat (length v)))
                     (copy_to pos (length buf) (put16 c) buf))))"

definition v6_Marshal :: "byte list \<Rightarrow> 16 word list \<Rightarrow> dhcpv6_message \<Rightarrow> byte list option" where
  "v6_Marshal buf ord m =
     (let txid = v6_TransactionID m;
          buf1 = copy_to 0 4 [v6_MsgType m, ucast (drop_bit 16 txid), ucast (drop_bit 8 txid), ucast txid] buf
      in case marshal_options (v6_Options m) ord (4, buf1) of
           None \<Rightarrow> None
         | Some (pos, buf2) \<Rightarrow> if length buf2 < pos then None else Some (take pos buf2))"

function parse_v6_options :: "byte list \<Rightarrow> (16 word \<rightharpoonup> byte list) \<Rightarrow> (16 word \<rightharpoonup> byte list)" where
  "parse_v6_options d opts =
     (if length d < 4 then opts
      else
        let n = unat (get16 (drop 2 d)); rest = drop 4 d
        in if length rest < n then opts
           else parse_v6_options (drop n rest) (opts(get16 d \<mapsto> take n rest)))"
  by pat_completeness auto

termination
  by (relation "measure (\<lambda>(d, _). length d)") auto

declare parse_v6_options.simps [simp del]

definition ParseDHCPv6Message :: "byte list \<Rightarrow> dhcpv6_message option" where
  "ParseDHCPv6Message data =
     (if length data < 4 then None
      else Some \<lparr>v6_MsgType = data ! 0,
             v6_TransactionID = push_bit 16 (ucast (data ! 1)) OR push_bit 8 (ucast (data ! 2)) OR ucast (data ! 3),
             v6_Options = parse_v6_options (drop 4 data) Map.empty, v6_PeerAddr = []\<rparr>)"

subsection \<open>The server\<close>

record dhcpv6_lease =
  l6_IPv6 :: ip
  l6_DUID :: "byte list"
  l6_IAID :: "32 word"
  l6_ExpiresAt :: instant
  l6_PreferredAt :: instant
  l6_ValidTime :: "32 word"
  l6_PreferredTime :: "32 word"

record serverv6_config =
  c6_ServerMAC :: "byte list"
  c6_ServerDUID :: "byte list option"
  c6_LeaseDuration :: duration
  c6_PreferredTime :: duration
  c6_PoolStart :: ip
  c6_PoolEnd :: ip
  c6_DNSServers :: "ip list"
  c6_NTPServers :: "string list"

record dhcpv6_stats =
  st_Solicits :: int
  st_Advertises :: int
  st_Requests :: int
  st_Replies :: int
  st_Renews :: int
  st_Releases :: int
  st_ActiveLeases :: int
  st_Errors :: int

record server_v6 =
  s6_config :: serverv6_config
  s6_leases :: "string \<rightharpoonup> dhcpv6_lease"
  s6_locked :: bool
  s6_stats :: dhcpv6_stats

definition generateDUIDLL :: "byte list \<Rightarrow> byte list" where
  "generateDUIDLL mac = copy_to 4 10 mac (copy_to 2 10 (put16 1) (copy_to 0 10 (put16 1) (replicate 10 0)))"

definition NewServerV6 :: "serverv6_config \<Rightarrow> server_v6" where
  "NewServerV6 cfg =
     \<lparr>s6_config = (case c6_ServerDUID cfg of
                     None \<Rightarrow> cfg\<lparr>c6_ServerDUID := Some (generateDUIDLL (c6_ServerMAC cfg))\<rparr>
                   | Some _ \<Rightarrow> cfg),
      s6_leases = Map.empty, s6_locked = False,
      s6_stats = \<lparr>st_Solicits = 0, st_Advertises = 0, st_Requests = 0, st_Replies = 0, st_Renews = 0,
        st_Releases = 0, st_ActiveLeases = 0, st_Errors = 0\<rparr>\<rparr>"

definition updateStats :: "string \<Rightarrow> string \<Rightarrow> server_v6 \<Rightarrow> server_v6" where
  "updateStats received sent s =
     (let t = s6_stats s;
          t1 = (if received = ''solicit'' then t\<lparr>st_Solicits := st_Solicits t + 1\<rparr>
                else if received = ''request'' then t\<lparr>st_Requests := st_Requests t + 1\<rparr>
                else if received = ''renew'' then t\<lparr>st_Renews := st_Renews t + 1\<rparr>
                else if received = ''error'' then t\<lparr>st_Errors := st_Errors t + 1\<rparr> else t);
          t2 = (if sent = ''reply'' then t1\<lparr>st_Replies := st_Replies t1 + 1\<rparr>
                else if sent = ''advertise'' then t1\<lparr>st_Advertises := st_Advertises t1 + 1\<rparr>
                else if sent = ''error'' then t1\<lparr>st_Errors := st_Errors t1 + 1\<rparr> else t1)
      in s\<lparr>s6_stats := t2\<rparr>)"

definition leaseKey :: "byte list \<Rightarrow> 32 word \<Rightarrow> string" where
  "leaseKey clientID iaid = hex_bytes clientID @ CHR ''-'' # FormatUint (unat iaid)"

definition v6_To16 :: "ip \<Rightarrow> byte list" where
  "v6_To16 a = (if length a = 4 then v4InV6Prefix @ a else if length a = 16 then a else [])"

fun inc_bytes :: "byte list \<Rightarrow> byte list" where
  "inc_bytes [] = []"
| "inc_bytes (b # bs) = (if b + 1 \<noteq> 0 then (b + 1) # bs else 0 # inc_bytes bs)"

definition nextIPv6 :: "ip \<Rightarrow> ip" where
  "nextIPv6 a = rev (inc_bytes (rev a))"

fun bytes_Compare :: "byte list \<Rightarrow> byte list \<Rightarrow> int" where
  "bytes_Compare [] [] = 0"
| "bytes_Compare [] (_ # _) = -1"
| "bytes_Compare (_ # _) [] = 1"
| "bytes_Compare (a # as) (b # bs) = (if a < b then -1 else if b < a then 1 else bytes_Compare as bs)"

definition v6_available :: "string list \<Rightarrow> instant \<Rightarrow> (string \<rightharpoonup> dhcpv6_lease) \<Rightarrow> ip \<Rightarrow> bool" where
  "v6_available ord now leases a =
     list_all (\<lambda>k. case leases k of None \<Rightarrow> True | Some l \<Rightarrow> \<not> (IP_Equal (l6_IPv6 l) a \<and> now < l6_ExpiresAt l)) ord"

partial_function (option) v6_search :: "(ip \<Rightarrow> bool) \<Rightarrow> ip \<Rightarrow> ip \<Rightarrow> ip option option" where
  "v6_search free poolEnd cur =
     (if bytes_Compare cur poolEnd > 0 then Some None
      else if free cur then Some (Some cur)
      else v6_search free poolEnd (nextIPv6 cur))"

definition new_lease :: "instant \<Rightarrow> byte list \<Rightarrow> 32 word \<Rightarrow> serverv6_config \<Rightarrow> ip \<Rightarrow> dhcpv6_lease" where
  "new_lease now clientID iaid cfg a =
     \<lparr>l6_IPv6 = a, l6_DUID = clientID, l6_IAID = iaid, l6_ExpiresAt = now + c6_LeaseDuration cfg,
      l6_PreferredAt = now + c6_PreferredTime cfg, l6_ValidTime = of_int (go_div (c6_LeaseDuration cfg) second),
      l6_PreferredTime = of_int (go_div (c6_PreferredTime cfg) second)\<rparr>"

text \<open>\<open>allocateIPv6\<close> after the test for a lease of the same client: None when the loop does not end, Some None for an
  error.\<close>

definition allocate_new ::
  "string list \<Rightarrow> instant \<Rightarrow> byte list \<Rightarrow> 32 word \<Rightarrow> server_v6 \<Rightarrow> (ip option \<times> server_v6) option" where
  "allocate_new ord now clientID iaid s =
     (let cfg = s6_config s; poolEnd = v6_To16 (c6_PoolEnd cfg); poolStart = v6_To16 (c6_PoolStart cfg)
      in if poolStart = [] \<or> poolEnd = [] then Some (None, s)
         else case v6_search (v6_available ord now (s6_leases s)) poolEnd poolStart of
                None \<Rightarrow> None
              | Some None \<Rightarrow> Some (None, s)
              | Some (Some a) \<Rightarrow>
                  Some (Some a, s\<lparr>s6_leases := (s6_leases s)(leaseKey clientID iaid \<mapsto> new_lease now clientID iaid cfg a),
                    s6_stats := (s6_stats s)\<lparr>st_ActiveLeases := st_ActiveLeases (s6_stats s) + 1\<rparr>\<rparr>))"

definition allocateIPv6 ::
  "string list \<Rightarrow> instant \<Rightarrow> byte list \<Rightarrow> 32 word \<Rightarrow> server_v6 \<Rightarrow> (ip option \<times> server_v6) option" where
  "allocateIPv6 ord now clientID iaid s =
     (let key = leaseKey clientID iaid
      in case s6_leases s key of
           Some l \<Rightarrow>
             if now < l6_ExpiresAt l then Some (Some (l6_IPv6 l), s)
             else allocate_new ord now clientID iaid (s\<lparr>s6_leases := (s6_leases s)(key := None)\<rparr>)
         | None \<Rightarrow> allocate_new ord now clientID iaid s)"

subsection \<open>Replies\<close>

definition ia_addr :: "serverv6_config \<Rightarrow> byte list \<Rightarrow> ip \<Rightarrow> byte list" where
  "ia_addr cfg iana a =
     copy_to 24 28 (put32 (of_int (go_div (c6_LeaseDuration cfg) second)))
       (copy_to 20 28 (put32 (of_int (go_div (c6_PreferredTime cfg) second)))
         (copy_to 4 20 (v6_To16 a) (copy_to 0 28 (put32 (get32 (take 4 iana))) (replicate 28 0))))"

definition put_ia :: "serverv6_config \<Rightarrow> dhcpv6_message \<Rightarrow> ip option \<Rightarrow> dhcpv6_message \<Rightarrow> dhcpv6_message" where
  "put_ia cfg request ipv6 r =
     (case (ipv6, v6_Options request V6OptionIANA) of
        (Some a, Some iana) \<Rightarrow> r\<lparr>v6_Options := (v6_Options r)(V6OptionIANA \<mapsto> ia_addr cfg iana a)\<rparr>
      | _ \<Rightarrow> r)"

definition put_dns :: "serverv6_config \<Rightarrow> dhcpv6_message \<Rightarrow> dhcpv6_message" where
  "put_dns cfg r =
     (if c6_DNSServers cfg \<noteq> []
      then r\<lparr>v6_Options := (v6_Options r)(V6OptionDNS \<mapsto> concat (map v6_To16 (c6_DNSServers cfg)))\<rparr> else r)"

definition put_opt :: "16 word \<Rightarrow> byte list \<Rightarrow> dhcpv6_message \<Rightarrow> dhcpv6_message" where
  "put_opt c v r = r\<lparr>v6_Options := (v6_Options r)(c \<mapsto> v)\<rparr>"

definition server_duid :: "serverv6_config \<Rightarrow> byte list" where
  "server_duid cfg = (case c6_ServerDUID cfg of None \<Rightarrow> [] | Some d \<Rightarrow> d)"

definition createAdvertise :: "serverv6_config \<Rightarrow> dhcpv6_message \<Rightarrow> ip option \<Rightarrow> byte list \<Rightarrow> dhcpv6_message" where
  "createAdvertise cfg request ipv6 clientID =
     put_dns cfg
       (put_ia cfg request ipv6
         (put_opt V6OptionPreference [255]
           (put_opt V6OptionClientID clientID
             (put_opt V6OptionServerID (server_duid cfg)
               (NewDHCPv6Message\<lparr>v6_MsgType := DHCPv6Advertise, v6_TransactionID := v6_TransactionID request\<rparr>)))))"

definition createReply :: "serverv6_config \<Rightarrow> dhcpv6_message \<Rightarrow> byte list option \<Rightarrow> ip option \<Rightarrow> 16 word \<Rightarrow> dhcpv6_message" where
  "createReply cfg request clientID ipv6 status =
     (let r0 = put_opt V6OptionServerID (server_duid cfg)
                 (NewDHCPv6Message\<lparr>v6_MsgType := DHCPv6Reply, v6_TransactionID := v6_TransactionID request\<rparr>);
          r1 = (case clientID of None \<Rightarrow> r0 | Some d \<Rightarrow> put_opt V6OptionClientID d r0);
          r2 = (if status \<noteq> V6StatusSuccess then put_opt V6OptionStatusCode (put16 status) r1 else r1);
          r3 = put_dns cfg (put_ia cfg request ipv6 r2)
      in if c6_NTPServers cfg \<noteq> []
         then put_opt V6OptionNTPServer (concat (map ascii_bytes (c6_NTPServers cfg))) r3 else r3)"

subsection \<open>The handlers\<close>

text \<open>The results of a handler: a response or none, a panic, or no return at all.\<close>

datatype v6_result = V6Response "dhcpv6_message option" | V6Panic | V6Blocked

text \<open>The common head of the handlers: the client identifier and the identity association.\<close>

definition read_iaid :: "byte list \<Rightarrow> 32 word option" where
  "read_iaid iana = (if length iana < 4 then None else Some (get32 (take 4 iana)))"

definition handleSolicit :: "string list \<Rightarrow> instant \<Rightarrow> dhcpv6_message \<Rightarrow> server_v6 \<Rightarrow> v6_result \<times> server_v6" where
  "handleSolicit ord now msg s =
     (case v6_Options msg V6OptionClientID of
        None \<Rightarrow> (V6Response None, s)
      | Some clientID \<Rightarrow>
          (case v6_Options msg V6OptionIANA of
             None \<Rightarrow> (V6Response (Some (createAdvertise (s6_config s) msg None clientID)), s)
           | Some iana \<Rightarrow>
               (case read_iaid iana of
                  None \<Rightarrow> (V6Panic, s)
                | Some iaid \<Rightarrow>
                    (case allocateIPv6 ord now clientID iaid s of
                       None \<Rightarrow> (V6Blocked, s\<lparr>s6_locked := True\<rparr>)
                     | Some (None, s1) \<Rightarrow>
                         (V6Response (Some (createReply (s6_config s) msg (Some clientID) None V6StatusNoAddrsAvail)), s1)
                     | Some (Some a, s1) \<Rightarrow>
                         (V6Response (Some (createAdvertise (s6_config s) msg (Some a) clientID)), s1)))))"

definition renew_lease :: "instant \<Rightarrow> serverv6_config \<Rightarrow> dhcpv6_lease \<Rightarrow> dhcpv6_lease" where
  "renew_lease now cfg l = l\<lparr>l6_ExpiresAt := now + c6_LeaseDuration cfg, l6_PreferredAt := now + c6_PreferredTime cfg\<rparr>"

definition handleRequest :: "string list \<Rightarrow> instant \<Rightarrow> dhcpv6_message \<Rightarrow> server_v6 \<Rightarrow> v6_result \<times> server_v6" where
  "handleRequest ord now msg s =
     (case (v6_Options msg V6OptionClientID, v6_Options msg V6OptionIANA) of
        (Some clientID, Some iana) \<Rightarrow>
          (case read_iaid iana of
             None \<Rightarrow> (V6Panic, s)
           | Some iaid \<Rightarrow>
               (case s6_leases s (leaseKey clientID iaid) of
                  Some l \<Rightarrow>
                    (V6Response (Some (createReply (s6_config s) msg (Some clientID) (Some (l6_IPv6 l)) V6StatusSuccess)),
                     s\<lparr>s6_leases := (s6_leases s)(leaseKey clientID iaid \<mapsto> renew_lease now (s6_config s) l)\<rparr>)
                | None \<Rightarrow>
                    (case allocateIPv6 ord now clientID iaid s of
                       None \<Rightarrow> (V6Blocked, s\<lparr>s6_locked := True\<rparr>)
                     | Some (None, s1) \<Rightarrow>
                         (V6Response (Some (createReply (s6_config s) msg (Some clientID) None V6StatusNoAddrsAvail)), s1)
                     | Some (Some a, s1) \<Rightarrow>
                         (V6Response (Some (createReply (s6_config s) msg (Some clientID) (Some a) V6StatusSuccess)), s1))))
      | _ \<Rightarrow> (V6Response None, s))"

text \<open>\<open>handleRenew\<close> calls \<open>handleRequest\<close>, which locks the mutex that the caller holds.\<close>

definition handleRenew :: "instant \<Rightarrow> dhcpv6_message \<Rightarrow> server_v6 \<Rightarrow> v6_result \<times> server_v6" where
  "handleRenew now msg s =
     (case (v6_Options msg V6OptionClientID, v6_Options msg V6OptionIANA) of
        (Some clientID, Some iana) \<Rightarrow>
          (case read_iaid iana of
             None \<Rightarrow> (V6Panic, s)
           | Some iaid \<Rightarrow>
               (case s6_leases s (leaseKey clientID iaid) of
                  None \<Rightarrow> (V6Blocked, s\<lparr>s6_locked := True\<rparr>)
                | Some l \<Rightarrow>
                    (V6Response (Some (createReply (s6_config s) msg (Some clientID) (Some (l6_IPv6 l)) V6StatusSuccess)),
                     s\<lparr>s6_leases := (s6_leases s)(leaseKey clientID iaid \<mapsto> renew_lease now (s6_config s) l)\<rparr>)))
      | _ \<Rightarrow> (V6Response None, s))"

definition handleRelease :: "dhcpv6_message \<Rightarrow> server_v6 \<Rightarrow> v6_result \<times> server_v6" where
  "handleRelease msg s =
     (case (v6_Options msg V6OptionClientID, v6_Options msg V6OptionIANA) of
        (Some clientID, Some iana) \<Rightarrow>
          (case read_iaid iana of
             None \<Rightarrow> (V6Panic, s)
           | Some iaid \<Rightarrow>
               (case s6_leases s (leaseKey clientID iaid) of
                  None \<Rightarrow> (V6Response None, s)
                | Some l \<Rightarrow>
                    (V6Response None,
                     updateStats ''release'' [] (s\<lparr>s6_leases := (s6_leases s)(leaseKey clientID iaid := None)\<rparr>))))
      | _ \<Rightarrow> (V6Response None, s))"

definition handleInformationRequest :: "dhcpv6_message \<Rightarrow> server_v6 \<Rightarrow> v6_result \<times> server_v6" where
  "handleInformationRequest msg s = (V6Response (Some (createReply (s6_config s) msg None None V6StatusSuccess)), s)"

text \<open>The statistics are updated after the handler has returned.\<close>

definition with_stats :: "string \<Rightarrow> string \<Rightarrow> v6_result \<times> server_v6 \<Rightarrow> v6_result \<times> server_v6" where
  "with_stats received sent r = (case r of (V6Response m, s) \<Rightarrow> (V6Response m, updateStats received sent s) | _ \<Rightarrow> r)"

definition handleMessage :: "string list \<Rightarrow> instant \<Rightarrow> byte list \<Rightarrow> ip \<Rightarrow> server_v6 \<Rightarrow> v6_result \<times> server_v6" where
  "handleMessage ord now data client s =
     (case ParseDHCPv6Message data of
        None \<Rightarrow> (V6Response None, updateStats ''error'' [] s)
      | Some m \<Rightarrow>
          let msg = m\<lparr>v6_PeerAddr := client\<rparr>; t = v6_MsgType m
          in if t = DHCPv6InformationReq then with_stats ''information-req'' ''reply'' (handleInformationRequest msg s)
             else if t \<notin> {DHCPv6Solicit, DHCPv6Request, DHCPv6Renew, DHCPv6Release}
               then (V6Response None, updateStats ''unknown'' ''error'' s)
             else if s6_locked s then (V6Blocked, s)
             else if t = DHCPv6Solicit then with_stats ''solicit'' ''reply'' (handleSolicit ord now msg s)
             else if t = DHCPv6Request then with_stats ''request'' ''reply'' (handleRequest ord now msg s)
             else if t = DHCPv6Renew then with_stats ''renew'' ''reply'' (handleRenew now msg s)
             else with_stats ''release'' [] (handleRelease msg s))"

text \<open>\<open>sendResponse\<close>: what goes to the socket, or None for the panic of \<open>Marshal\<close>; a failed write is an error.\<close>

definition sendResponse :: "byte list \<Rightarrow> 16 word list \<Rightarrow> bool \<Rightarrow> dhcpv6_message \<Rightarrow> server_v6 \<Rightarrow> (byte list \<times> server_v6) option" where
  "sendResponse buf ord written r s =
     (case v6_Marshal buf ord r of
        None \<Rightarrow> None
      | Some data \<Rightarrow> Some (data, if written then s else updateStats [] ''error'' s))"

definition GetActiveLeases :: "server_v6 \<Rightarrow> nat" where
  "GetActiveLeases s = card (dom (s6_leases s))"

subsection \<open>Addresses as numbers\<close>

primrec le_val :: "byte list \<Rightarrow> nat" where
  "le_val [] = 0"
| "le_val (b # bs) = unat b + 256 * le_val bs"

definition be_val :: "byte list \<Rightarrow> nat" where
  "be_val bs = le_val (rev bs)"

lemma unat_byte: "unat (b :: byte) < 256"
  using unsigned_less [of b, where ?'a = nat] by simp

lemma le_val_bound: "le_val bs < 256 ^ length bs"
proof (induction bs)
  case (Cons b bs)
  have "unat b + 256 * le_val bs < 256 * (le_val bs + 1)" using unat_byte [of b] by simp
  also have "\<dots> \<le> 256 * 256 ^ length bs" using Cons by (intro mult_left_mono) auto
  finally show ?case by simp
qed simp

lemma le_val_append: "le_val (as @ bs) = le_val as + 256 ^ length as * le_val bs"
  by (induction as) (simp_all add: algebra_simps)

lemma be_val_Cons: "be_val (b # bs) = be_val bs + 256 ^ length bs * unat b"
  by (simp add: be_val_def le_val_append)

lemma be_val_bound: "be_val bs < 256 ^ length bs"
  using le_val_bound [of "rev bs"] by (simp add: be_val_def)

lemma le_val_inc: "le_val (inc_bytes bs) = (le_val bs + 1) mod 256 ^ length bs"
proof (induction bs)
  case (Cons b bs)
  show ?case
  proof (cases "b + 1 = 0")
    case True
    then have "b = - 1" by (simp add: eq_neg_iff_add_eq_0)
    then have "unat b = 255" by (simp add: unsigned_minus_1_eq_mask mask_eq_exp_minus_1)
    moreover have "(256 + 256 * le_val bs) mod (256 * 256 ^ length bs) = 256 * ((le_val bs + 1) mod 256 ^ length bs)"
      using mult_mod_right [of 256 "le_val bs + 1" "256 ^ length bs"] by (simp add: add.commute)
    ultimately show ?thesis using True Cons by simp
  next
    case False
    then have u: "unat (b + 1) = unat b + 1" by (simp add: unatSuc add.commute)
    have "unat (b + 1) + 256 * le_val bs < 256 ^ Suc (length bs)"
      using le_val_bound [of "(b + 1) # bs"] by simp
    then show ?thesis using False u by simp
  qed
qed simp

lemma length_inc_bytes [simp]: "length (inc_bytes bs) = length bs"
  by (induction bs) auto

lemma be_val_next: "be_val (nextIPv6 a) = (be_val a + 1) mod 256 ^ length a"
  by (simp add: be_val_def nextIPv6_def le_val_inc)

lemma length_next [simp]: "length (nextIPv6 a) = length a"
  by (simp add: nextIPv6_def)

lemma Compare_val:
  "length as = length bs \<Longrightarrow> bytes_Compare as bs > 0 \<longleftrightarrow> be_val as > be_val bs"
proof (induction as bs rule: bytes_Compare.induct)
  case (4 a as b bs)
  have lt: "be_val xs + 256 ^ length xs * unat x < be_val ys + 256 ^ length ys * unat y"
    if "x < y" "length xs = length ys" for x y :: byte and xs ys
  proof -
    have "be_val xs + 256 ^ length xs * unat x < 256 ^ length xs * (unat x + 1)" using be_val_bound [of xs] by simp
    also have "\<dots> \<le> 256 ^ length ys * unat y" using that by (intro mult_le_mono) (simp_all add: word_less_nat_alt)
    finally show ?thesis by simp
  qed
  show ?case
    using 4 lt [of a b as bs] lt [of b a bs as] by (cases "a < b"; cases "b < a") (auto simp: be_val_Cons)
qed (simp_all add: be_val_def)

lemma be_val_inj: "length as = length bs \<Longrightarrow> be_val as = be_val bs \<Longrightarrow> as = bs"
proof (induction as arbitrary: bs)
  case (Cons a as)
  then obtain b bs' where bs: "bs = b # bs'" "length bs' = length as" by (cases bs) auto
  have "(be_val as + 256 ^ length as * unat a) div 256 ^ length as = unat a"
    "(be_val bs' + 256 ^ length as * unat b) div 256 ^ length as = unat b"
    using be_val_bound [of as] be_val_bound [of bs'] bs by simp_all
  moreover have "be_val as + 256 ^ length as * unat a = be_val bs' + 256 ^ length as * unat b"
    using Cons.prems(2) bs by (simp add: be_val_Cons)
  ultimately have "unat a = unat b" by metis
  then have "a = b" by (rule unsigned_word_eqI)
  then show ?case using Cons bs by (simp add: be_val_Cons)
qed simp

subsection \<open>The search for a free address\<close>

lemma search_returns:
  assumes "length e = 16" and "be_val e < 256 ^ 16 - 1" and "length c = 16"
  shows "\<exists>r. v6_search free e c = Some r \<and>
    (case r of
       None \<Rightarrow> \<forall>x. length x = 16 \<and> be_val c \<le> be_val x \<and> be_val x \<le> be_val e \<longrightarrow> \<not> free x
     | Some a \<Rightarrow> free a \<and> length a = 16 \<and> be_val c \<le> be_val a \<and> be_val a \<le> be_val e)"
  using assms(3)
proof (induction "be_val e + 1 - be_val c" arbitrary: c rule: less_induct)
  case (less c)
  show ?case
  proof (cases "be_val c > be_val e")
    case True
    then show ?thesis
      using less.prems assms(1) by (subst v6_search.simps) (auto simp: Compare_val)
  next
    case False
    then have cmp: "\<not> bytes_Compare c e > 0" using less.prems assms(1) by (simp add: Compare_val)
    show ?thesis
    proof (cases "free c")
      case True
      then show ?thesis using cmp False less.prems by (subst v6_search.simps) simp
    next
      case nf: False
      have nx: "be_val (nextIPv6 c) = be_val c + 1" using False assms(2) less.prems by (simp add: be_val_next)
      then have "be_val e + 1 - be_val (nextIPv6 c) < be_val e + 1 - be_val c" using False by simp
      from less.hyps [OF this] less.prems obtain r where
        r: "v6_search free e (nextIPv6 c) = Some r"
          "case r of
             None \<Rightarrow> \<forall>x. length x = 16 \<and> be_val (nextIPv6 c) \<le> be_val x \<and> be_val x \<le> be_val e \<longrightarrow> \<not> free x
           | Some a \<Rightarrow> free a \<and> length a = 16 \<and> be_val (nextIPv6 c) \<le> be_val a \<and> be_val a \<le> be_val e"
        by auto
      have step: "v6_search free e c = Some r" using cmp nf r(1) by (subst v6_search.simps) simp
      have "\<not> free x" if "length x = 16" "be_val c \<le> be_val x" "be_val x \<le> be_val e" "r = None" for x
      proof (cases "be_val x = be_val c")
        case True
        then show ?thesis using be_val_inj [of x c] that less.prems nf by simp
      next
        case False
        then show ?thesis using r(2) that nx by simp
      qed
      then show ?thesis using step r(2) nx by (auto split: option.splits)
    qed
  qed
qed

definition pool_ok6 :: "serverv6_config \<Rightarrow> bool" where
  "pool_ok6 cfg \<longleftrightarrow> length (c6_PoolStart cfg) = 16 \<and> length (c6_PoolEnd cfg) = 16 \<and> be_val (c6_PoolEnd cfg) < 256 ^ 16 - 1"

definition in_pool6 :: "serverv6_config \<Rightarrow> ip \<Rightarrow> bool" where
  "in_pool6 cfg a \<longleftrightarrow> length a = 16 \<and> be_val (c6_PoolStart cfg) \<le> be_val a \<and> be_val a \<le> be_val (c6_PoolEnd cfg)"

text \<open>\<open>held now s a\<close>: some lease that has not expired has the address.\<close>

definition held :: "instant \<Rightarrow> (string \<rightharpoonup> dhcpv6_lease) \<Rightarrow> ip \<Rightarrow> bool" where
  "held now leases a \<longleftrightarrow> (\<exists>k l. leases k = Some l \<and> IP_Equal (l6_IPv6 l) a \<and> now < l6_ExpiresAt l)"

lemma available_iff: "dom leases \<subseteq> set ord \<Longrightarrow> v6_available ord now leases a \<longleftrightarrow> \<not> held now leases a"
  by (force simp: v6_available_def held_def list_all_iff domIff subset_iff split: option.splits)

lemma To16_id: "length a = 16 \<Longrightarrow> v6_To16 a = a"
  by (simp add: v6_To16_def)

lemma allocate_new_cases:
  assumes "pool_ok6 (s6_config s)" and "dom (s6_leases s) \<subseteq> set ord"
  obtains (full) "allocate_new ord now d i s = Some (None, s)"
      "\<And>a. in_pool6 (s6_config s) a \<Longrightarrow> held now (s6_leases s) a"
  | (found) a where "allocate_new ord now d i s = Some (Some a,
        s\<lparr>s6_leases := (s6_leases s)(leaseKey d i \<mapsto> new_lease now d i (s6_config s) a),
          s6_stats := (s6_stats s)\<lparr>st_ActiveLeases := st_ActiveLeases (s6_stats s) + 1\<rparr>\<rparr>)"
      "in_pool6 (s6_config s) a" "\<not> held now (s6_leases s) a"
proof -
  let ?c = "s6_config s" let ?free = "v6_available ord now (s6_leases s)"
  have len: "length (c6_PoolStart ?c) = 16" "length (c6_PoolEnd ?c) = 16" "c6_PoolStart ?c \<noteq> []" "c6_PoolEnd ?c \<noteq> []"
    and lt: "be_val (c6_PoolEnd ?c) < 256 ^ 16 - 1"
    using assms(1) by (auto simp: pool_ok6_def)
  obtain r where r: "v6_search ?free (c6_PoolEnd ?c) (c6_PoolStart ?c) = Some r"
    "case r of
       None \<Rightarrow> \<forall>x. length x = 16 \<and> be_val (c6_PoolStart ?c) \<le> be_val x \<and> be_val x \<le> be_val (c6_PoolEnd ?c) \<longrightarrow> \<not> ?free x
     | Some a \<Rightarrow> ?free a \<and> length a = 16 \<and> be_val (c6_PoolStart ?c) \<le> be_val a \<and> be_val a \<le> be_val (c6_PoolEnd ?c)"
    using search_returns [OF len(2) lt len(1), of ?free] by blast
  note fr = available_iff [OF assms(2)]
  show ?thesis
  proof (cases r)
    case None
    show ?thesis
    proof (rule full)
      show "allocate_new ord now d i s = Some (None, s)"
        using r(1) None len by (simp add: allocate_new_def Let_def To16_id)
    qed (use r(2) None in \<open>simp add: in_pool6_def fr\<close>)
  next
    case (Some a)
    show ?thesis
    proof (rule found [of a])
      show "allocate_new ord now d i s = Some (Some a,
        s\<lparr>s6_leases := (s6_leases s)(leaseKey d i \<mapsto> new_lease now d i (s6_config s) a),
          s6_stats := (s6_stats s)\<lparr>st_ActiveLeases := st_ActiveLeases (s6_stats s) + 1\<rparr>\<rparr>)"
        using r(1) Some len by (simp add: allocate_new_def Let_def To16_id)
    qed (use r(2) Some in \<open>simp_all add: in_pool6_def fr\<close>)
  qed
qed

subsection \<open>The message round trip\<close>

definition enc_option :: "16 word \<Rightarrow> byte list \<Rightarrow> byte list" where
  "enc_option c v = put16 c @ put16 (of_nat (length v)) @ v"

lemma length_enc_option [simp]: "length (enc_option c v) = 4 + length v"
  by (simp add: enc_option_def)

lemma copy_to_fits:
  assumes "a + length bs \<le> length buf"
  shows "copy_to a (length buf) bs buf = take a buf @ bs @ drop (a + length bs) buf"
proof -
  have "min (length bs) (length buf - a) = length bs" using assms by simp
  then show ?thesis by (simp add: copy_to_def Let_def)
qed

lemma write_option:
  assumes "pos + 4 + length v \<le> length buf"
  shows "copy_to (pos + 4) (length buf) v
           (copy_to (pos + 2) (length buf) (put16 l) (copy_to pos (length buf) (put16 c) buf)) =
         take pos buf @ put16 c @ put16 l @ v @ drop (pos + 4 + length v) buf"
proof -
  let ?b1 = "take pos buf @ put16 c @ drop (pos + 2) buf"
  let ?b2 = "take pos buf @ put16 c @ put16 l @ drop (pos + 4) buf"
  have len: "length ?b1 = length buf" "length ?b2 = length buf" using assms by simp_all
  have b1: "copy_to pos (length buf) (put16 c) buf = ?b1" using assms by (subst copy_to_fits) simp_all
  have b2: "copy_to (pos + 2) (length buf) (put16 l) ?b1 = ?b2"
    using assms copy_to_fits [of "pos + 2" "put16 l" ?b1] len by (simp add: eval_nat_numeral)
  have "copy_to (pos + 4) (length buf) v ?b2 = take pos buf @ put16 c @ put16 l @ v @ drop (pos + 4 + length v) buf"
    using assms copy_to_fits [of "pos + 4" v ?b2] len by (simp add: ac_simps)
  then show ?thesis by (simp only: b1 b2)
qed

lemma marshal_options_ok:
  assumes "pos + length (concat (map (\<lambda>c. enc_option c (the (opts c))) cs)) \<le> length buf"
  shows "\<exists>buf'. marshal_options opts cs (pos, buf) =
      Some (pos + length (concat (map (\<lambda>c. enc_option c (the (opts c))) cs)), buf') \<and> length buf' = length buf \<and>
    take (pos + length (concat (map (\<lambda>c. enc_option c (the (opts c))) cs))) buf' =
      take pos buf @ concat (map (\<lambda>c. enc_option c (the (opts c))) cs)"
  using assms
proof (induction cs arbitrary: pos buf)
  case (Cons c cs)
  let ?v = "the (opts c)" let ?p = "pos + 4 + length ?v"
  let ?b = "take pos buf @ put16 c @ put16 (of_nat (length ?v)) @ ?v @ drop ?p buf"
  have fit: "?p \<le> length buf" using Cons.prems by simp
  have lb: "length ?b = length buf" and tb: "take ?p ?b = take pos buf @ enc_option c ?v"
    using fit by (simp_all add: enc_option_def)
  have step: "marshal_options opts (c # cs) (pos, buf) = marshal_options opts cs (?p, ?b)"
    using fit write_option [OF fit, of "of_nat (length ?v)" c] by (simp add: Let_def)
  let ?E = "concat (map (\<lambda>c. enc_option c (the (opts c))) cs)"
  have "?p + length ?E \<le> length ?b" unfolding lb using Cons.prems by simp
  from Cons.IH [OF this] obtain b' where b': "marshal_options opts cs (?p, ?b) = Some (?p + length ?E, b')"
    "length b' = length ?b" "take (?p + length ?E) b' = take ?p ?b @ ?E" by blast
  have tot: "pos + length (concat (map (\<lambda>c. enc_option c (the (opts c))) (c # cs))) = ?p + length ?E" by simp
  show ?case unfolding tot step b'(1) using b'(2,3) lb tb by simp
qed simp

lemma parse_enc_option:
  assumes "length v < 65536"
  shows "parse_v6_options (enc_option c v @ rest) opts = parse_v6_options rest (opts(c \<mapsto> v))"
proof -
  have "unat (of_nat (length v) :: 16 word) = length v" using assms by (simp add: unat_of_nat)
  moreover have "get16 (put16 c @ x) = c" for x :: "byte list"
  proof -
    have "get16 (put16 c @ x) = get16 (put16 c)" by (simp add: get16_def put16_def)
    then show ?thesis by simp
  qed
  moreover have "get16 (drop 2 (enc_option c v @ rest)) = of_nat (length v)"
  proof -
    have "drop 2 (enc_option c v @ rest) = put16 (of_nat (length v)) @ v @ rest" by (simp add: enc_option_def)
    moreover have "get16 (put16 (of_nat (length v)) @ v @ rest) = get16 (put16 (of_nat (length v)))"
      by (simp add: get16_def put16_def)
    ultimately show ?thesis by simp
  qed
  moreover have "drop 4 (enc_option c v @ rest) = v @ rest" by (simp add: enc_option_def)
  ultimately show ?thesis
    by (subst parse_v6_options.simps) (simp add: enc_option_def Let_def)
qed

lemma parse_enc_options:
  assumes "\<forall>c \<in> set cs. length (the (opts c)) < 65536 \<and> opts c \<noteq> None"
  shows "parse_v6_options (concat (map (\<lambda>c. enc_option c (the (opts c))) cs)) acc = (\<lambda>c. if c \<in> set cs then opts c else acc c)"
  using assms
proof (induction cs arbitrary: acc)
  case Nil
  then show ?case by (subst parse_v6_options.simps) simp
next
  case (Cons c cs)
  then show ?case by (auto simp: parse_enc_option fun_eq_iff)
qed

definition v6_size :: "16 word list \<Rightarrow> dhcpv6_message \<Rightarrow> nat" where
  "v6_size ord m = 4 + length (concat (map (\<lambda>c. enc_option c (the (v6_Options m c))) ord))"

lemma txid_roundtrip:
  fixes t :: "32 word"
  shows "push_bit 16 (ucast (ucast (drop_bit 16 t) :: byte)) OR push_bit 8 (ucast (ucast (drop_bit 8 t) :: byte)) OR
      ucast (ucast t :: byte) = take_bit 24 t"
proof (rule bit_word_eqI)
  fix n :: nat
  assume "n < LENGTH(32)"
  then consider "n < 8" | "8 \<le> n" "n < 16" | "16 \<le> n" "n < 24" | "24 \<le> n" "n < 32" by fastforce
  then show "bit (push_bit 16 (ucast (ucast (drop_bit 16 t) :: byte)) OR push_bit 8 (ucast (ucast (drop_bit 8 t) :: byte)) OR
      ucast (ucast t :: byte) :: 32 word) n = bit (take_bit 24 t) n"
    by cases (auto simp: bit_simps)
qed

lemma v6_parse_marshal:
  assumes "range_of (v6_Options m) ord" and "length buf = 1500" and "v6_size ord m \<le> 1500"
  shows "\<exists>d. v6_Marshal buf ord m = Some d \<and>
    ParseDHCPv6Message d = Some (m\<lparr>v6_TransactionID := take_bit 24 (v6_TransactionID m), v6_PeerAddr := []\<rparr>)"
proof -
  let ?t = "v6_TransactionID m" let ?f = "\<lambda>c. enc_option c (the (v6_Options m c))"
  let ?h = "[v6_MsgType m, ucast (drop_bit 16 ?t), ucast (drop_bit 8 ?t), ucast ?t] :: byte list"
  let ?b = "copy_to 0 4 ?h buf"
  have b: "length ?b = 1500" "take 4 ?b = ?h" using assms(2) by (simp_all add: copy_to_def Let_def)
  obtain b' where b': "marshal_options (v6_Options m) ord (4, ?b) = Some (v6_size ord m, b')" "length b' = 1500"
      "take (v6_size ord m) b' = ?h @ concat (map ?f ord)"
    using marshal_options_ok [of 4 "v6_Options m" ord ?b] assms(3) b by (auto simp: v6_size_def)
  have M: "v6_Marshal buf ord m = Some (?h @ concat (map ?f ord))"
    using b' assms(3) by (simp add: v6_Marshal_def Let_def)
  have "length (?f c) \<le> length (concat (map ?f ord))" if "c \<in> set ord" for c
    using that by (induction ord) auto
  then have "\<forall>c \<in> set ord. length (the (v6_Options m c)) < 65536 \<and> v6_Options m c \<noteq> None"
    using assms(1,3) by (fastforce simp: v6_size_def range_of_def)
  from parse_enc_options [OF this, of Map.empty] have "parse_v6_options (concat (map ?f ord)) Map.empty = v6_Options m"
    using assms(1) by (auto simp: range_of_def fun_eq_iff)
  then have "ParseDHCPv6Message (?h @ concat (map ?f ord)) = Some (m\<lparr>v6_TransactionID := take_bit 24 ?t, v6_PeerAddr := []\<rparr>)"
    by (cases m) (simp add: ParseDHCPv6Message_def nth_Cons' txid_roundtrip [simplified])
  with M show ?thesis by blast
qed

subsection \<open>Properties\<close>

text \<open>C23. A message that fits into the 1500 bytes of the buffer is parsed back, with the 24 bits of the transaction
  identifier that the format has.\<close>

theorem dhcpv6_message_roundtrip:
  assumes "range_of (v6_Options m) ord" and "length buf = 1500" and "v6_size ord m \<le> 1500"
  shows "\<exists>d. v6_Marshal buf ord m = Some d \<and>
    ParseDHCPv6Message d = Some (m\<lparr>v6_TransactionID := take_bit 24 (v6_TransactionID m), v6_PeerAddr := []\<rparr>)"
  by (rule v6_parse_marshal [OF assms])

definition example_v6 :: dhcpv6_message where
  "example_v6 = NewDHCPv6Message\<lparr>v6_MsgType := DHCPv6Solicit, v6_TransactionID := 0x123456,
     v6_Options := [V6OptionClientID \<mapsto> [0, 1], V6OptionIANA \<mapsto> [0, 0, 0, 7]]\<rparr>"

theorem dhcpv6_message_roundtrip_witness:
  "\<exists>d. v6_Marshal (replicate 1500 9) [V6OptionIANA, V6OptionClientID] example_v6 = Some d \<and>
    ParseDHCPv6Message d = Some (example_v6\<lparr>v6_TransactionID := take_bit 24 (v6_TransactionID example_v6), v6_PeerAddr := []\<rparr>)"
  by (rule dhcpv6_message_roundtrip) (auto simp: range_of_def example_v6_def v6_consts v6_size_def split: if_splits)

text \<open>The test in \<open>Marshal\<close> counts two bytes too few: a single option that ends one or two bytes beyond the buffer
  passes it, and cutting the result panics.\<close>

theorem dhcpv6_marshal_panics:
  assumes "v6_Options m = [c \<mapsto> v]" and "length buf = 1500" and "length v = 1493 \<or> length v = 1494"
  shows "v6_Marshal buf [c] m = None"
  using assms by (auto simp: v6_Marshal_def Let_def)

theorem dhcpv6_marshal_panics_witness:
  "v6_Marshal (replicate 1500 0) [V6OptionClientID] (NewDHCPv6Message\<lparr>v6_Options := [V6OptionClientID \<mapsto> replicate 1494 1]\<rparr>) = None"
  by (rule dhcpv6_marshal_panics [where v = "replicate 1494 1"]) simp_all

text \<open>C37. Allocation returns: a client with a live lease keeps its address; otherwise it gets an address of the pool that
  no live lease holds, recorded under its own key, and an error only if every address of the pool is held.\<close>

theorem dhcpv6_allocation:
  assumes "pool_ok6 (s6_config s)" and "dom (s6_leases s) \<subseteq> set ord"
  shows "\<exists>r s1. allocateIPv6 ord now d i s = Some (r, s1) \<and>
    (case r of
       None \<Rightarrow> \<forall>a. in_pool6 (s6_config s) a \<longrightarrow> held now (s6_leases s) a
     | Some a \<Rightarrow>
         (\<exists>l. s6_leases s1 (leaseKey d i) = Some l \<and> l6_IPv6 l = a) \<and>
         (\<forall>k. k \<noteq> leaseKey d i \<longrightarrow> s6_leases s1 k = s6_leases s k) \<and>
         (if \<exists>l. s6_leases s (leaseKey d i) = Some l \<and> now < l6_ExpiresAt l then s1 = s
          else in_pool6 (s6_config s) a \<and> \<not> held now (s6_leases s) a))"
proof (cases "\<exists>l. s6_leases s (leaseKey d i) = Some l \<and> now < l6_ExpiresAt l")
  case True
  then show ?thesis by (auto simp: allocateIPv6_def)
next
  case False
  let ?s = "s\<lparr>s6_leases := (s6_leases s)(leaseKey d i := None)\<rparr>"
  have alloc: "allocateIPv6 ord now d i s = allocate_new ord now d i ?s"
  proof (cases "s6_leases s (leaseKey d i)")
    case None
    then have "?s = s" by (simp add: fun_upd_idem)
    then show ?thesis using None by (simp add: allocateIPv6_def)
  next
    case (Some l)
    then show ?thesis using False by (simp add: allocateIPv6_def)
  qed
  have ex: "(\<exists>l. s6_leases ?s k = Some l \<and> Q l \<and> now < l6_ExpiresAt l) \<longleftrightarrow> (\<exists>l. s6_leases s k = Some l \<and> Q l \<and> now < l6_ExpiresAt l)"
    for k Q using False by (cases "k = leaseKey d i") auto
  have held: "held now (s6_leases ?s) a = held now (s6_leases s) a" for a
    by (simp only: held_def ex [of _ "\<lambda>l. IP_Equal (l6_IPv6 l) a"])
  have "pool_ok6 (s6_config ?s)" "dom (s6_leases ?s) \<subseteq> set ord" using assms by auto
  then show ?thesis
    by (cases rule: allocate_new_cases [where now = now and d = d and i = i])
      (use alloc held False in \<open>auto simp: new_lease_def\<close>)
qed

definition example_cfg6 :: serverv6_config where
  "example_cfg6 = \<lparr>c6_ServerMAC = [2, 0, 0, 0, 0, 1], c6_ServerDUID = Some [0, 3], c6_LeaseDuration = 100 * second,
     c6_PreferredTime = 50 * second, c6_PoolStart = replicate 15 0 @ [1], c6_PoolEnd = replicate 15 0 @ [1],
     c6_DNSServers = [], c6_NTPServers = []\<rparr>"

lemma le_val_zeros: "le_val (replicate n 0) = 0"
  by (induction n) simp_all

lemma example_v6_pool_ok: "pool_ok6 example_cfg6"
  by (simp add: pool_ok6_def example_cfg6_def be_val_def le_val_zeros)

theorem dhcpv6_allocation_witness:
  "\<exists>r s1. allocateIPv6 [] 0 [1] 7 (NewServerV6 example_cfg6) = Some (r, s1)"
  using dhcpv6_allocation [of "NewServerV6 example_cfg6" "[]" 0 "[1]" 7] example_v6_pool_ok
  by (auto simp: NewServerV6_def example_cfg6_def)

inductive v6_step :: "server_v6 \<Rightarrow> server_v6 \<Rightarrow> bool" where
  "handleMessage ord now data client s = (r, s1) \<Longrightarrow> v6_step s s1"

lemma updateStats_locked [simp]: "s6_locked (updateStats a b s) = s6_locked s"
  by (simp add: updateStats_def Let_def)

lemma locked_step: "s6_locked s \<Longrightarrow> v6_step s s1 \<Longrightarrow> s6_locked s1"
  by (auto simp: handleMessage_def Let_def with_stats_def handleInformationRequest_def
      elim!: v6_step.cases split: option.splits if_splits)

interpretation v6lock: invariant_system s6_locked v6_step s6_locked
  by unfold_locales (auto intro: locked_step)


definition renew_packet :: "byte list" where
  "renew_packet = [5, 0, 0, 1] @ enc_option V6OptionClientID [1] @ enc_option V6OptionIANA [0, 0, 0, 7]"

lemma parse_renew_packet:
  "ParseDHCPv6Message renew_packet = Some \<lparr>v6_MsgType = DHCPv6Renew, v6_TransactionID = 1,
     v6_Options = [V6OptionClientID \<mapsto> [1], V6OptionIANA \<mapsto> [0, 0, 0, 7]], v6_PeerAddr = []\<rparr>"
proof -
  have "parse_v6_options (enc_option V6OptionClientID [1] @ enc_option V6OptionIANA [0, 0, 0, 7]) Map.empty =
      [V6OptionClientID \<mapsto> [1], V6OptionIANA \<mapsto> [0, 0, 0, 7]]"
    using parse_enc_option [of "[0, 0, 0, 7]" V6OptionIANA "[]"] parse_enc_option [of "[1]" V6OptionClientID]
    by (simp add: parse_v6_options.simps [of "[]"])
  then show ?thesis by (simp add: ParseDHCPv6Message_def renew_packet_def v6_consts)
qed


lemma hex_digit_no_dash: "n < 16 \<Longrightarrow> hex_digit n \<noteq> CHR ''-''"
proof -
  assume "n < 16"
  moreover have "code CHR ''-'' = 45" by (simp add: code_def)
  ultimately have "code (hex_digit n) \<noteq> code CHR ''-''" by (simp add: hex_digit_code)
  then show ?thesis by metis
qed

lemma hex_bytes_no_dash: "CHR ''-'' \<notin> set (hex_bytes bs)"
proof -
  have "unat b div 16 < 16" for b :: byte using unat_byte [of b] by simp
  then show ?thesis using hex_digit_no_dash by (auto simp: hex_bytes_def) (metis mod_less_divisor zero_less_numeral)+
qed

lemma hex_digit_inj: "m < 16 \<Longrightarrow> n < 16 \<Longrightarrow> hex_digit m = hex_digit n \<longleftrightarrow> m = n"
proof -
  assume "m < 16" "n < 16"
  then have "code (hex_digit m) = code (hex_digit n) \<longleftrightarrow> m = n" by (auto simp: hex_digit_code)
  then show ?thesis by metis
qed

lemma hex_bytes_inj: "hex_bytes as = hex_bytes bs \<longleftrightarrow> as = bs"
proof (induction as arbitrary: bs)
  case Nil
  then show ?case by (cases bs) (auto simp: hex_bytes_def)
next
  case (Cons a as)
  have d: "unat b div 16 < 16" for b :: byte using unat_byte [of b] by simp
  have eq: "unat a div 16 = unat b div 16 \<and> unat a mod 16 = unat b mod 16 \<longleftrightarrow> a = b" for b
    by (metis div_mult_mod_eq unsigned_word_eqI)
  show ?case
  proof (cases bs)
    case (Cons b bs')
    then have "hex_bytes (a # as) = hex_bytes bs \<longleftrightarrow>
        unat a div 16 = unat b div 16 \<and> unat a mod 16 = unat b mod 16 \<and> hex_bytes as = hex_bytes bs'"
      using hex_digit_inj [OF d d, of a b] hex_digit_inj [of "unat a mod 16" "unat b mod 16"] by (simp add: hex_bytes_def)
    then show ?thesis using Cons.IH [of bs'] eq [of b] Cons by auto
  qed (simp add: hex_bytes_def)
qed

lemma leaseKey_inj: "leaseKey d i = leaseKey d' i' \<longleftrightarrow> d = d' \<and> i = i'"
  unfolding leaseKey_def
  by (subst split_at_first) (auto simp: hex_bytes_no_dash hex_bytes_inj FormatUint_inj intro: unsigned_word_eqI)

text \<open>A Request from a client whose lease has run out renews it without looking whether the address has been given
  to another client in the meantime: then two live leases hold one address.\<close>

theorem expired_request_duplicates_address:
  assumes "s6_leases s (leaseKey d (get32 (take 4 iana))) = Some l" and "s6_leases s k2 = Some l2"
    and "k2 \<noteq> leaseKey d (get32 (take 4 iana))" and "l6_IPv6 l2 = l6_IPv6 l" and "now < l6_ExpiresAt l2"
    and "0 < c6_LeaseDuration (s6_config s)"
    and "v6_Options m V6OptionClientID = Some d" and "v6_Options m V6OptionIANA = Some iana" and "4 \<le> length iana"
    and "handleRequest ord now m s = (r, s1)"
  shows "\<exists>k1 l1 l2. k1 \<noteq> k2 \<and> s6_leases s1 k1 = Some l1 \<and> s6_leases s1 k2 = Some l2 \<and>
    l6_IPv6 l1 = l6_IPv6 l2 \<and> now < l6_ExpiresAt l1 \<and> now < l6_ExpiresAt l2"
proof -
  let ?k = "leaseKey d (get32 (take 4 iana))"
  have "s6_leases s1 = (s6_leases s)(?k \<mapsto> renew_lease now (s6_config s) l)"
    using assms by (auto simp: handleRequest_def read_iaid_def)
  then have "s6_leases s1 ?k = Some (renew_lease now (s6_config s) l)" "s6_leases s1 k2 = Some l2" "?k \<noteq> k2"
    using assms(2,3) by auto
  then show ?thesis using assms(4-6) by (intro exI [of _ ?k]) (auto simp: renew_lease_def)
qed

definition solicit_of :: "byte list \<Rightarrow> dhcpv6_message" where
  "solicit_of d = NewDHCPv6Message\<lparr>v6_Options := [V6OptionClientID \<mapsto> d, V6OptionIANA \<mapsto> [0, 0, 0, 7]]\<rparr>"

lemma solicit_new:
  assumes "s6_leases s (leaseKey d 7) = None" and "s6_config s = example_cfg6"
    and "v6_available ord now (s6_leases s) (replicate 15 0 @ [1])"
  shows "s6_leases (snd (handleSolicit ord now (solicit_of d) s)) =
    (s6_leases s)(leaseKey d 7 \<mapsto> new_lease now d 7 example_cfg6 (replicate 15 0 @ [1])) \<and>
    s6_config (snd (handleSolicit ord now (solicit_of d) s)) = example_cfg6"
proof -
  let ?a = "replicate 15 0 @ [1] :: byte list"
  have "bytes_Compare x x = 0" for x :: "byte list" by (induction x) auto
  then have "v6_search (v6_available ord now (s6_leases s)) ?a ?a = Some (Some ?a)"
    using assms(3) by (subst v6_search.simps) simp
  moreover have "v6_To16 ?a = ?a" "?a \<noteq> []" "c6_PoolStart example_cfg6 = ?a" "c6_PoolEnd example_cfg6 = ?a"
    by (simp_all add: v6_To16_def example_cfg6_def)
  ultimately have "\<exists>s1. allocateIPv6 ord now d 7 s = Some (Some ?a, s1) \<and> s6_config s1 = example_cfg6 \<and>
      s6_leases s1 = (s6_leases s)(leaseKey d 7 \<mapsto> new_lease now d 7 example_cfg6 ?a)"
    using assms(1,2) by (simp add: allocateIPv6_def allocate_new_def Let_def del: append_is_Nil_conv)
  moreover have "read_iaid [0, 0, 0, 7] = Some 7" by (simp add: read_iaid_def get32_def)
  ultimately show ?thesis
    by (auto simp: handleSolicit_def solicit_of_def NewDHCPv6Message_def v6_consts)
qed

theorem expired_request_duplicates_address_witness:
  "\<exists>(s1 :: server_v6) k1 k2 l1 l2. k1 \<noteq> k2 \<and> s6_leases s1 k1 = Some l1 \<and> s6_leases s1 k2 = Some l2 \<and>
    l6_IPv6 l1 = l6_IPv6 l2 \<and> 201 * second < l6_ExpiresAt l1 \<and> 201 * second < l6_ExpiresAt l2"
proof -
  let ?ka = "leaseKey [1] 7" let ?kb = "leaseKey [2] 7"
  define s1 where "s1 = snd (handleSolicit [] 0 (solicit_of [1]) (NewServerV6 example_cfg6))"
  define s2 where "s2 = snd (handleSolicit [?ka] (200 * second) (solicit_of [2]) s1)"
  define s3 where "s3 = snd (handleRequest [?ka, ?kb] (201 * second) (solicit_of [1]) s2)"
  let ?a = "replicate 15 0 @ [1] :: byte list"
  have k: "?kb \<noteq> ?ka" by (simp add: leaseKey_inj)
  have c1: "s6_leases s1 = [?ka \<mapsto> new_lease 0 [1] 7 example_cfg6 ?a]" "s6_config s1 = example_cfg6"
    using solicit_new [of "NewServerV6 example_cfg6" "[1]" "[]" 0]
    by (simp_all add: s1_def NewServerV6_def v6_available_def) (simp_all add: example_cfg6_def)
  have c2: "s6_leases s2 = [?ka \<mapsto> new_lease 0 [1] 7 example_cfg6 ?a, ?kb \<mapsto> new_lease (200 * second) [2] 7 example_cfg6 ?a]"
      "s6_config s2 = example_cfg6"
    using solicit_new [of s1 "[2]" "[?ka]" "200 * second"] k
    by (simp_all add: s2_def c1 v6_available_def new_lease_def example_cfg6_def second_def)
  have "\<exists>k1 l1 l2. k1 \<noteq> ?kb \<and> s6_leases s3 k1 = Some l1 \<and> s6_leases s3 ?kb = Some l2 \<and>
    l6_IPv6 l1 = l6_IPv6 l2 \<and> 201 * second < l6_ExpiresAt l1 \<and> 201 * second < l6_ExpiresAt l2"
  proof (rule expired_request_duplicates_address [where ?l2.0 = "new_lease (200 * second) [2] 7 example_cfg6 ?a"])
    show "handleRequest [?ka, ?kb] (201 * second) (solicit_of [1]) s2 =
        (fst (handleRequest [?ka, ?kb] (201 * second) (solicit_of [1]) s2), s3)" by (simp add: s3_def)
    show "s6_leases s2 (leaseKey [1] (get32 (take 4 [0, 0, 0, 7]))) = Some (new_lease 0 [1] 7 example_cfg6 ?a)"
      using k by (simp add: c2 get32_def)
    show "?kb \<noteq> leaseKey [1] (get32 (take 4 [0, 0, 0, 7]))" by (simp add: leaseKey_inj)
  qed (simp_all add: c2 new_lease_def example_cfg6_def second_def solicit_of_def v6_consts)
  then show ?thesis by blast
qed

end
