(* ===== verification/AssocMaps.thy ===== *)
theory AssocMaps
  imports Prelude "HOL-Library.AList"
begin

text \<open>
  Facts on association lists with distinct keys, which stand for the Go maps whose size the code reads: the keys and the length after an
  update, a deletion or a filter, and sums over the values.
\<close>

lemma keys_update: "fst ` set (AList.update h e c) = insert h (fst ` set c)"
  using dom_update [of h e c] by (simp add: dom_map_of_conv_image_fst)

lemma keys_delete: "fst ` set (AList.delete h c) = fst ` set c - {h}"
proof -
  have "set (map fst (AList.delete h c)) = set (map fst c) - {h}" by (auto simp: delete_keys)
  then show ?thesis by simp
qed

lemma length_update: "distinct (map fst c) \<Longrightarrow> length (AList.update h e c) = (if h \<in> fst ` set c then length c else Suc (length c))"
proof -
  assume d: "distinct (map fst c)"
  have "length (AList.update h e c) = card (fst ` set (AList.update h e c))"
    using distinct_update [OF d, of h e] by (metis distinct_card length_map set_map)
  moreover have "length c = card (fst ` set c)" using d by (metis distinct_card length_map set_map)
  ultimately show ?thesis by (simp add: keys_update card_insert_if)
qed

lemma length_delete: "distinct (map fst c) \<Longrightarrow> h \<in> fst ` set c \<Longrightarrow> length (AList.delete h c) < length c"
proof -
  assume d: "distinct (map fst c)" and h: "h \<in> fst ` set c"
  have "length (AList.delete h c) = card (fst ` set (AList.delete h c))"
    using distinct_delete [OF d, of h] by (metis distinct_card length_map set_map)
  moreover have "length c = card (fst ` set c)" using d by (metis distinct_card length_map set_map)
  ultimately show ?thesis using h card_Diff1_less [of "fst ` set c" h] by (simp add: keys_delete)
qed

lemma map_of_mem: "distinct (map fst c) \<Longrightarrow> map_of c k = Some v \<longleftrightarrow> (k, v) \<in> set c"
  by (metis map_of_SomeD map_of_is_SomeI)

text \<open>The sum of a measure of the values, before and after the value of a key is replaced.\<close>

lemma sum_update:
  fixes f :: "'v \<Rightarrow> 'a :: ab_group_add"
  assumes "distinct (map fst c)"
  shows "sum_list (map (f \<circ> snd) (AList.update k v c)) =
    sum_list (map (f \<circ> snd) c) - (case map_of c k of None \<Rightarrow> 0 | Some w \<Rightarrow> f w) + f v"
  using assms by (induction c) (auto simp: algebra_simps split: option.splits)

lemma update_values: "x \<in> set (AList.update k v c) \<Longrightarrow> x = (k, v) \<or> x \<in> set c"
  by (induction c) (auto split: if_splits)

end
