(* ===== verification/DnsResolver.thy ===== *)
theory DnsResolver
  imports GoNet GoBytes BufferPools TtlCache AssocMaps
begin

text \<open>
  The DNS resolver of \<^verbatim>\<open>dns/resolver.go\<close>: the query it builds, the response it parses, the UDP query with its
  retries, the collection of the answers of several servers, the cache with its eviction, and the lookups.

  A Go map that the code measures with \<open>len\<close> is an association list with distinct keys; the order of a range over it
  is an argument.  What the network does is an argument: the outcome of each attempt, the order in which results
  arrive, whether the deadline passes first.
\<close>

unbundle bit_operations_syntax

datatype dns_error = DNSTooShort | DNSErrorCode "16 word" | DNSTruncated | DNSNoRecords "16 word" | DNSLabelTooLong
  | DNSNetError string | DNSContextDone | ErrDNSResolutionFailed | DNSLookupFailed | DNSNoIPv4 | DNSNoIPv6

subsection \<open>Queries\<close>

definition TrimDot :: "string \<Rightarrow> string" where
  "TrimDot h = (if h \<noteq> [] \<and> List.last h = CHR ''.'' then butlast h else h)"

definition query_header :: "16 word \<Rightarrow> byte list" where
  "query_header txid = put16 txid @ put16 0x0100 @ put16 1 @ put16 0 @ put16 0 @ put16 0"

definition enc_label :: "string \<Rightarrow> byte list" where
  "enc_label l = of_nat (length l) # ascii_bytes l"

definition buildDNSQuery :: "16 word \<Rightarrow> string \<Rightarrow> 16 word \<Rightarrow> dns_error + byte list" where
  "buildDNSQuery txid hostname qtype =
     (let labels = Split CHR ''.'' (TrimDot hostname)
      in if \<exists>l \<in> set labels. length l > 63 then Inl DNSLabelTooLong
         else Inr (query_header txid @ concat (map enc_label labels) @ [0] @ put16 qtype @ put16 1))"

subsection \<open>Responses\<close>

function skip_name :: "byte list \<Rightarrow> nat \<Rightarrow> nat option" where
  "skip_name buf off =
     (if length buf \<le> off then None
      else if buf ! off = 0 then Some (off + 1)
      else if (buf ! off) AND 0xC0 = 0xC0 then Some (off + 2)
      else skip_name buf (off + unat (buf ! off) + 1))"
  by pat_completeness auto

termination
  by (relation "measure (\<lambda>(buf, off). length buf - off)") auto

declare skip_name.simps [simp del]

primrec parse_answers :: "nat \<Rightarrow> 16 word \<Rightarrow> byte list \<Rightarrow> nat \<Rightarrow> ip list \<Rightarrow> dns_error + ip list" where
  "parse_answers 0 qtype buf off ips = Inr ips"
| "parse_answers (Suc n) qtype buf off ips =
     (case skip_name buf off of
        None \<Rightarrow> Inl DNSTruncated
      | Some o1 \<Rightarrow>
          if o1 + 10 > length buf then Inl DNSTruncated
          else
            let recordType = get16 (drop o1 buf); dataLen = unat (get16 (drop (o1 + 8) buf)); o2 = o1 + 10
            in if recordType = qtype then
                 if qtype = 1 then
                   if dataLen = 4 \<and> o2 + 4 \<le> length buf then parse_answers n qtype buf (o2 + 4) (ips @ [sub o2 (o2 + 4) buf])
                   else parse_answers n qtype buf o2 ips
                 else if qtype = 28 then
                   if dataLen = 16 \<and> o2 + 16 \<le> length buf then parse_answers n qtype buf (o2 + 16) (ips @ [sub o2 (o2 + 16) buf])
                   else parse_answers n qtype buf o2 ips
                 else parse_answers n qtype buf (o2 + dataLen) ips
               else parse_answers n qtype buf (o2 + dataLen) ips)"

definition parseDNSResponse :: "byte list \<Rightarrow> 16 word \<Rightarrow> dns_error + ip list" where
  "parseDNSResponse buf qtype =
     (if length buf < 12 then Inl DNSTooShort
      else if get16 (drop 2 buf) AND 0x000F \<noteq> 0 then Inl (DNSErrorCode (get16 (drop 2 buf) AND 0x000F))
      else
        case parse_answers (unat (get16 (drop 6 buf))) qtype buf 12 [] of
          Inl e \<Rightarrow> Inl e
        | Inr ips \<Rightarrow> if ips = [] then Inl (DNSNoRecords qtype) else Inr ips)"

subsection \<open>One query over UDP\<close>

datatype udp_event = DialFails string | WriteFails string | ReadFails string | Datagram "byte list"

text \<open>The loop of \<open>queryDNS\<close>: \<open>left\<close> attempts remain of three.  \<open>ev\<close> is what happens in an attempt, \<open>cancelled\<close> whether the
  context ends during the wait after it.  A read fills the slice that \<open>buffer.Get\<close> returned, up to its length.\<close>

primrec queryDNS_loop ::
  "nat \<Rightarrow> dns_error \<Rightarrow> (nat \<Rightarrow> udp_event) \<Rightarrow> (nat \<Rightarrow> bool) \<Rightarrow> (nat \<Rightarrow> nat option) \<Rightarrow> (nat \<Rightarrow> 16 word) \<Rightarrow> string \<Rightarrow> 16 word \<Rightarrow>
     buffer_pool \<Rightarrow> (dns_error + ip list) \<times> buffer_pool" where
  "queryDNS_loop 0 lastErr ev cancelled pick txid hostname qtype p = (Inl lastErr, p)"
| "queryDNS_loop (Suc left) lastErr ev cancelled pick txid hostname qtype p =
     (let attempt = 2 - left;
          again = (\<lambda>e p1. if attempt < 2 then
                             if cancelled attempt then (Inl DNSContextDone, p1)
                             else queryDNS_loop left e ev cancelled pick txid hostname qtype p1
                           else (Inl e, p1))
      in case ev attempt of
           DialFails e \<Rightarrow> again (DNSNetError e) p
         | _ \<Rightarrow>
             (case buildDNSQuery (txid attempt) hostname qtype of
                Inl e \<Rightarrow> (Inl e, p)
              | Inr query \<Rightarrow>
                  (case ev attempt of
                     WriteFails e \<Rightarrow> again (DNSNetError e) p
                   | _ \<Rightarrow>
                       let (b, p1) = Buf_Get (pick attempt) SmallBufferSize p; p2 = Buf_Put (Some b) p1
                       in case ev attempt of
                            Datagram d \<Rightarrow> (parseDNSResponse (take (sl_len b) d) qtype, p2)
                          | ReadFails e \<Rightarrow> again (DNSNetError e) p2
                          | _ \<Rightarrow> (Inl lastErr, p2))))"

definition queryDNS where
  "queryDNS = queryDNS_loop 3 (DNSNetError [])"

subsection \<open>The answers of several servers\<close>

text \<open>The A and AAAA queries of one server run in parallel; \<open>r1\<close> is the result recorded first.\<close>

definition merge_answers :: "dns_error + ip list \<Rightarrow> dns_error + ip list \<Rightarrow> ip list \<times> dns_error option" where
  "merge_answers r1 r2 =
     (let add = (\<lambda>r (ips, err). case r of
                    Inr as \<Rightarrow> (ips @ as, err)
                  | Inl e \<Rightarrow> (ips, if err = None then Some e else err))
      in add r2 (add r1 ([], None)))"

definition resolveWithServer :: "dns_error + ip list \<Rightarrow> dns_error + ip list \<Rightarrow> dns_error + ip list" where
  "resolveWithServer r1 r2 =
     (case merge_answers r1 r2 of
        (ips, err) \<Rightarrow> if ips \<noteq> [] then Inr ips
                      else (case err of Some e \<Rightarrow> Inl e | None \<Rightarrow> Inl ErrDNSResolutionFailed))"

text \<open>\<open>answer server\<close> are the two results of a server in the order they were recorded; \<open>system\<close> is \<open>net.LookupIP\<close>.\<close>

fun resolve_loop :: "(string \<Rightarrow> (dns_error + ip list) \<times> (dns_error + ip list)) \<Rightarrow> string list \<Rightarrow> ip list option" where
  "resolve_loop answer [] = None"
| "resolve_loop answer (s # ss) =
     (case answer s of
        (r1, r2) \<Rightarrow>
          (case resolveWithServer r1 r2 of
             Inr ips \<Rightarrow> if ips \<noteq> [] then Some ips else resolve_loop answer ss
           | Inl _ \<Rightarrow> resolve_loop answer ss))"

definition system_lookup :: "bool \<Rightarrow> dns_error + ip list \<Rightarrow> ip list option" where
  "system_lookup useSystemDNS system =
     (if useSystemDNS then (case system of Inr ips \<Rightarrow> if ips \<noteq> [] then Some ips else None | Inl _ \<Rightarrow> None) else None)"

definition resolveDomain ::
  "(string \<Rightarrow> (dns_error + ip list) \<times> (dns_error + ip list)) \<Rightarrow> bool \<Rightarrow> dns_error + ip list \<Rightarrow> string list \<Rightarrow> dns_error + ip list" where
  "resolveDomain answer useSystemDNS system servers =
     (case resolve_loop answer servers of
        Some ips \<Rightarrow> Inr ips
      | None \<Rightarrow> (case system_lookup useSystemDNS system of Some ips \<Rightarrow> Inr ips | None \<Rightarrow> Inl ErrDNSResolutionFailed))"

text \<open>\<open>queryDoH\<close>: the responses to the two requests, None where building or sending one fails.\<close>

definition queryDoH :: "byte list option \<Rightarrow> byte list option \<Rightarrow> ip list \<times> dns_error option" where
  "queryDoH bodyA bodyAAAA =
     (let got = (\<lambda>body qtype. case body of None \<Rightarrow> [] | Some b \<Rightarrow> (case parseDNSResponse b qtype of Inr ips \<Rightarrow> ips | Inl _ \<Rightarrow> []));
          ips = got bodyA 1 @ got bodyAAAA 28
      in if ips = [] then ([], Some DNSLookupFailed) else (ips, None))"

datatype arrival = Arrived "ip list" "dns_error option" | DeadlinePasses

text \<open>The loop that collects the results of all servers, in the order in which they arrive; when no more arrive
  the deadline passes.\<close>

datatype collected = Got "ip list" | TimedOut | Exhausted "dns_error option"

fun collect :: "nat \<Rightarrow> arrival list \<Rightarrow> dns_error option \<Rightarrow> collected" where
  "collect 0 as lastErr = Exhausted lastErr"
| "collect (Suc n) [] lastErr = TimedOut"
| "collect (Suc n) (DeadlinePasses # as) lastErr = TimedOut"
| "collect (Suc n) (Arrived ips err # as) lastErr =
     (if err = None \<and> ips \<noteq> [] then Got ips
      else collect n as (if err \<noteq> None then err else lastErr))"

definition lookupIPUncached :: "bool \<Rightarrow> nat \<Rightarrow> arrival list \<Rightarrow> bool \<Rightarrow> dns_error + ip list \<Rightarrow> dns_error + ip list" where
  "lookupIPUncached acquired totalServers arrivals useSystemDNS system =
     (if \<not> acquired then Inl DNSContextDone
      else case collect totalServers arrivals None of
        Got ips \<Rightarrow> Inr ips
      | TimedOut \<Rightarrow> Inl DNSContextDone
      | Exhausted lastErr \<Rightarrow>
          (case system_lookup useSystemDNS system of
             Some ips \<Rightarrow> Inr ips
           | None \<Rightarrow> (case lastErr of Some e \<Rightarrow> Inl e | None \<Rightarrow> Inl DNSLookupFailed)))"

subsection \<open>The cache\<close>

record dns_cache_entry =
  dc_IPs :: "ip list"
  dc_Expires :: instant

record dns_resolver =
  dr_cache :: "(string \<times> dns_cache_entry) list"
  dr_insertOrder :: "string list option"
  dr_cacheSize :: nat
  dr_cacheTTL :: duration
  dr_prefetchTTL :: duration
  dr_cacheHits :: "64 word"
  dr_cacheMisses :: "64 word"
  dr_queriesCached :: int

text \<open>The cache part of \<open>NewResolver\<close>: the size and the time to live of the configuration when they are positive.\<close>

definition NewResolver :: "int \<Rightarrow> int \<Rightarrow> dns_resolver" where
  "NewResolver cacheSize cacheTTL =
     \<lparr>dr_cache = [], dr_insertOrder = None, dr_cacheSize = (if cacheSize > 0 then nat cacheSize else 1024),
      dr_cacheTTL = (if cacheTTL > 0 then cacheTTL * second else 300 * second), dr_prefetchTTL = 30 * second,
      dr_cacheHits = 0, dr_cacheMisses = 0, dr_queriesCached = 0\<rparr>"

definition getCached :: "instant \<Rightarrow> string \<Rightarrow> dns_resolver \<Rightarrow> ip list option \<times> dns_resolver" where
  "getCached now h r =
     (case map_of (dr_cache r) h of
        None \<Rightarrow> (None, r)
      | Some e \<Rightarrow>
          if now > dc_Expires e then (None, r) else (Some (dc_IPs e), r\<lparr>dr_cacheHits := dr_cacheHits r + 1\<rparr>))"

definition dns_evictOldest :: "dns_resolver \<Rightarrow> dns_resolver" where
  "dns_evictOldest r =
     (case dr_insertOrder r of
        None \<Rightarrow> r
      | Some order \<Rightarrow>
          (case List.find (\<lambda>h. map_of (dr_cache r) h \<noteq> None) order of
             None \<Rightarrow> r
           | Some h \<Rightarrow> r\<lparr>dr_cache := AList.delete h (dr_cache r), dr_insertOrder := None\<rparr>))"

definition rebuildInsertOrder :: "string list \<Rightarrow> dns_resolver \<Rightarrow> dns_resolver" where
  "rebuildInsertOrder ord r = r\<lparr>dr_insertOrder := Some ord\<rparr>"

definition compactInsertOrder :: "dns_resolver \<Rightarrow> dns_resolver" where
  "compactInsertOrder r =
     r\<lparr>dr_insertOrder := map_option (filter (\<lambda>h. map_of (dr_cache r) h \<noteq> None)) (dr_insertOrder r)\<rparr>"

text \<open>\<open>ord\<close> is the order of the range in \<open>rebuildInsertOrder\<close>, used when the order was dropped.\<close>

definition setCached :: "instant \<Rightarrow> string list \<Rightarrow> string \<Rightarrow> ip list \<Rightarrow> dns_resolver \<Rightarrow> dns_resolver" where
  "setCached now ord h ips r =
     (let r1 = (if length (dr_cache r) \<ge> dr_cacheSize r then dns_evictOldest r else r);
          r2 = r1\<lparr>dr_cache := AList.update h \<lparr>dc_IPs = ips, dc_Expires = now + dr_cacheTTL r1\<rparr> (dr_cache r1)\<rparr>;
          r3 = (if dr_insertOrder r2 = None then rebuildInsertOrder ord r2 else r2);
          order = the (dr_insertOrder r3) @ [h];
          r4 = r3\<lparr>dr_insertOrder := Some order\<rparr>
      in if length order > dr_cacheSize r * 2 then compactInsertOrder r4 else r4)"

definition ClearCache :: "dns_resolver \<Rightarrow> dns_resolver" where
  "ClearCache r = r\<lparr>dr_cache := [], dr_insertOrder := None\<rparr>"

text \<open>The last part of \<open>StopWithTimeout\<close>: the cache is dropped, the order is not.\<close>

definition stop_clears :: "dns_resolver \<Rightarrow> dns_resolver" where
  "stop_clears r = r\<lparr>dr_cache := []\<rparr>"

record dns_cache_stats =
  ds_size :: nat
  ds_valid :: nat
  ds_expired :: nat
  ds_max_size :: nat

definition GetCacheStats :: "instant \<Rightarrow> dns_resolver \<Rightarrow> dns_cache_stats" where
  "GetCacheStats now r =
     \<lparr>ds_size = length (dr_cache r),
      ds_valid = length (filter (\<lambda>(h, e). \<not> now > dc_Expires e) (dr_cache r)),
      ds_expired = length (filter (\<lambda>(h, e). now > dc_Expires e) (dr_cache r)), ds_max_size = dr_cacheSize r\<rparr>"

text \<open>The ratio is a float in the code.\<close>

definition dns_GetMetrics :: "dns_resolver \<Rightarrow> 64 word \<times> 64 word \<times> rat" where
  "dns_GetMetrics r =
     (let total = dr_cacheHits r + dr_cacheMisses r
      in (dr_cacheHits r, dr_cacheMisses r,
          if total > 0 then of_nat (unat (dr_cacheHits r)) / of_nat (unat total) * 100 else 0))"

definition checkExpiringCache :: "instant \<Rightarrow> dns_resolver \<Rightarrow> string list" where
  "checkExpiringCache now r =
     map fst (filter (\<lambda>(h, e). dc_Expires e < now + dr_prefetchTTL r \<and> dc_Expires e > now) (dr_cache r))"

definition doPrefetch :: "instant \<Rightarrow> string list \<Rightarrow> string \<Rightarrow> dns_error + ip list \<Rightarrow> dns_resolver \<Rightarrow> dns_resolver" where
  "doPrefetch now ord h res r = (case res of Inl _ \<Rightarrow> r | Inr ips \<Rightarrow> setCached now ord h ips r)"

text \<open>The file holds, for each entry that has not expired, the texts of its addresses and the second of its expiry.\<close>

definition saveCache :: "instant \<Rightarrow> dns_resolver \<Rightarrow> (string \<times> string list \<times> int) list" where
  "saveCache now r =
     map (\<lambda>(h, e). (h, map IP_String (dc_IPs e), dc_Expires e div second)) (filter (\<lambda>(h, e). dc_Expires e > now) (dr_cache r))"

definition load_ip :: "string \<Rightarrow> ip" where
  "load_ip s = (case ParseIP s of None \<Rightarrow> v4InV6Prefix @ [0, 0, 0, 0] | Some a \<Rightarrow> a)"

fun load_entries :: "instant \<Rightarrow> (string \<times> string list \<times> int) list \<Rightarrow> (string \<times> dns_cache_entry) list \<Rightarrow> (string \<times> dns_cache_entry) list" where
  "load_entries now [] c = c"
| "load_entries now ((h, ips, ex) # es) c =
     load_entries now es
       (if ex * second > now then AList.update h \<lparr>dc_IPs = map load_ip ips, dc_Expires = ex * second\<rparr> c else c)"

definition loadCache :: "instant \<Rightarrow> (string \<times> string list \<times> int) list \<Rightarrow> dns_resolver \<Rightarrow> dns_resolver" where
  "loadCache now entries r = r\<lparr>dr_cache := load_entries now entries (dr_cache r)\<rparr>"

subsection \<open>Lookups\<close>

text \<open>How a lookup that misses the cache ends: through the queue with the worker's result, or None when the context
  ends first, or without the queue by \<open>lookupIPUncached\<close>.\<close>

datatype lookup_path = ByWorker "(dns_error + ip list) option" | Synchronous "dns_error + ip list"

definition LookupIP ::
  "instant \<Rightarrow> instant \<Rightarrow> string list \<Rightarrow> lookup_path \<Rightarrow> string \<Rightarrow> dns_resolver \<Rightarrow> (dns_error + ip list) \<times> dns_resolver" where
  "LookupIP t1 t2 ord path h r =
     (case getCached t1 h r of
        (Some ips, r1) \<Rightarrow> (Inr ips, r1\<lparr>dr_queriesCached := dr_queriesCached r1 + 1\<rparr>)
      | (None, r1) \<Rightarrow>
          let r2 = r1\<lparr>dr_cacheMisses := dr_cacheMisses r1 + 1\<rparr>;
              res = (case path of ByWorker None \<Rightarrow> Inl DNSContextDone | ByWorker (Some x) \<Rightarrow> x | Synchronous x \<Rightarrow> x)
          in case res of Inl e \<Rightarrow> (Inl e, r2) | Inr ips \<Rightarrow> (Inr ips, setCached t2 ord h ips r2))"

definition LookupIPv4 ::
  "instant \<Rightarrow> instant \<Rightarrow> string list \<Rightarrow> lookup_path \<Rightarrow> string \<Rightarrow> dns_resolver \<Rightarrow> (dns_error + ip list) \<times> dns_resolver" where
  "LookupIPv4 t1 t2 ord path h r =
     (case LookupIP t1 t2 ord path h r of
        (Inl e, r1) \<Rightarrow> (Inl e, r1)
      | (Inr ips, r1) \<Rightarrow>
          let v4 = filter (\<lambda>a. To4 a \<noteq> None) ips in (if v4 = [] then Inl DNSNoIPv4 else Inr v4, r1))"

definition LookupIPv6 :: "instant \<Rightarrow> dns_error + ip list \<Rightarrow> string \<Rightarrow> dns_resolver \<Rightarrow> (dns_error + ip list) \<times> dns_resolver" where
  "LookupIPv6 t1 uncached h r =
     (let (c, r1) = getCached t1 h r;
          v6 = (case c of None \<Rightarrow> [] | Some ips \<Rightarrow> filter (\<lambda>a. To4 a = None) ips)
      in if v6 \<noteq> [] then (Inr v6, r1)
         else case uncached of
                Inl e \<Rightarrow> (Inl e, r1)
              | Inr ips \<Rightarrow>
                  let w6 = filter (\<lambda>a. To4 a = None) ips in (if w6 = [] then Inl DNSNoIPv6 else Inr w6, r1))"

subsection \<open>The cache is a cache with expiring entries\<close>

definition dr_entry :: "dns_resolver \<Rightarrow> string \<Rightarrow> (ip list \<times> instant) option" where
  "dr_entry r h = map_option (\<lambda>e. (dc_IPs e, dc_Expires e)) (map_of (dr_cache r) h)"

definition dr_store :: "instant \<Rightarrow> string \<Rightarrow> ip list \<Rightarrow> dns_resolver \<Rightarrow> dns_resolver \<Rightarrow> bool" where
  "dr_store now h ips r r' \<longleftrightarrow> (\<exists>ord. r' = setCached now ord h ips r)"

lemma evict_cases:
  obtains "dns_evictOldest r = r"
  | h where "dns_evictOldest r = r\<lparr>dr_cache := AList.delete h (dr_cache r), dr_insertOrder := None\<rparr>" "map_of (dr_cache r) h \<noteq> None"
proof (cases "\<exists>order h. dr_insertOrder r = Some order \<and> List.find (\<lambda>h. map_of (dr_cache r) h \<noteq> None) order = Some h")
  case True
  then obtain order h where "dr_insertOrder r = Some order" and h: "List.find (\<lambda>h. map_of (dr_cache r) h \<noteq> None) order = Some h"
    by blast
  moreover have "map_of (dr_cache r) h \<noteq> None" using h by (auto simp: find_Some_iff)
  ultimately show ?thesis using that(2) [of h] by (simp add: dns_evictOldest_def)
next
  case False
  then have "dns_evictOldest r = r"
    by (cases "dr_insertOrder r"; cases "List.find (\<lambda>h. map_of (dr_cache r) h \<noteq> None) (the (dr_insertOrder r))")
      (simp_all add: dns_evictOldest_def)
  then show ?thesis by (rule that(1))
qed

lemma setCached_cache:
  "dr_cache (setCached now ord h ips r) =
     AList.update h \<lparr>dc_IPs = ips, dc_Expires = now + dr_cacheTTL r\<rparr>
       (dr_cache (if length (dr_cache r) \<ge> dr_cacheSize r then dns_evictOldest r else r))"
  "dr_cacheTTL (setCached now ord h ips r) = dr_cacheTTL r" "dr_cacheSize (setCached now ord h ips r) = dr_cacheSize r"
  by (cases r rule: evict_cases; simp add: setCached_def Let_def rebuildInsertOrder_def compactInsertOrder_def)+

lemma setCached_entry:
  "dr_entry (setCached now ord h ips r) h = Some (ips, now + dr_cacheTTL r)"
  "k \<noteq> h \<Longrightarrow> dr_entry (setCached now ord h ips r) k = Some x \<Longrightarrow> dr_entry r k = Some x"
proof -
  show "dr_entry (setCached now ord h ips r) h = Some (ips, now + dr_cacheTTL r)"
    by (simp add: dr_entry_def setCached_cache update_conv')
  assume "k \<noteq> h" "dr_entry (setCached now ord h ips r) k = Some x"
  then show "dr_entry r k = Some x"
    by (cases r rule: evict_cases) (auto simp: dr_entry_def setCached_cache update_conv' delete_conv' split: if_splits)
qed

interpretation dnscache: ttl_cache id dr_entry getCached dr_store "\<lambda>s _. dr_cacheTTL s"
proof unfold_locales
  fix c k s
  show "fst (getCached c k s) = (case dr_entry s k of None \<Rightarrow> None | Some (v, e) \<Rightarrow> if id c > e then None else Some v)"
    by (auto simp: getCached_def dr_entry_def split: option.splits)
next
  fix c k s k' x
  show "dr_entry (snd (getCached c k s)) k' = Some x \<Longrightarrow> dr_entry s k' = Some x"
    by (auto simp: getCached_def dr_entry_def split: option.splits if_splits)
next
  fix c k s v
  show "fst (getCached c k s) = Some v \<Longrightarrow> dr_entry (snd (getCached c k s)) = dr_entry s"
    by (auto simp: getCached_def dr_entry_def fun_eq_iff split: option.splits if_splits)
next
  fix t k v s s'
  show "dr_store t k v s s' \<Longrightarrow> dr_entry s' k = Some (v, t + dr_cacheTTL s)"
    by (auto simp: dr_store_def setCached_entry(1))
next
  fix t k v s s' k' x
  show "dr_store t k v s s' \<Longrightarrow> k' \<noteq> k \<Longrightarrow> dr_entry s' k' = Some x \<Longrightarrow> dr_entry s k' = Some x"
    by (auto simp: dr_store_def dest: setCached_entry(2))
qed

subsection \<open>The size of the cache\<close>

definition cache_keys :: "dns_resolver \<Rightarrow> string set" where
  "cache_keys r = fst ` set (dr_cache r)"

definition dns_inv :: "dns_resolver \<Rightarrow> bool" where
  "dns_inv r \<longleftrightarrow> distinct (map fst (dr_cache r)) \<and> 0 < dr_cacheSize r \<and> length (dr_cache r) \<le> dr_cacheSize r \<and>
     (case dr_insertOrder r of None \<Rightarrow> dr_cache r = [] | Some order \<Rightarrow> cache_keys r \<subseteq> set order)"

lemma evict_inv:
  assumes "dns_inv r" and "length (dr_cache r) \<ge> dr_cacheSize r"
  obtains h where "dns_evictOldest r = r\<lparr>dr_cache := AList.delete h (dr_cache r), dr_insertOrder := None\<rparr>"
    "h \<in> cache_keys r"
proof -
  have ne: "dr_cache r \<noteq> []" using assms by (auto simp: dns_inv_def)
  then obtain order where o: "dr_insertOrder r = Some order" "cache_keys r \<subseteq> set order"
    using assms(1) by (auto simp: dns_inv_def split: option.splits)
  obtain k e where "(k, e) \<in> set (dr_cache r)" using ne by (cases "dr_cache r") auto
  then have "k \<in> fst ` set (dr_cache r)" by (simp add: rev_image_eqI)
  then have k: "k \<in> set order" "map_of (dr_cache r) k \<noteq> None"
    using o(2) by (auto simp only: cache_keys_def map_of_eq_None_iff)
  show ?thesis
  proof (cases "List.find (\<lambda>h. map_of (dr_cache r) h \<noteq> None) order")
    case None
    then show ?thesis using k by (simp add: find_None_iff)
  next
    case (Some h)
    then have "map_of (dr_cache r) h \<noteq> None" by (auto simp: find_Some_iff)
    then have "h \<in> cache_keys r" by (simp add: cache_keys_def map_of_eq_None_iff)
    with that [of h] Some o(1) show ?thesis by (simp add: dns_evictOldest_def)
  qed
qed

text \<open>The cache after the eviction at the start of \<open>setCached\<close>.\<close>

definition made_room :: "dns_resolver \<Rightarrow> dns_resolver" where
  "made_room r = (if length (dr_cache r) \<ge> dr_cacheSize r then dns_evictOldest r else r)"

lemma made_room_inv:
  assumes "dns_inv r"
  shows "distinct (map fst (dr_cache (made_room r)))" "length (dr_cache (made_room r)) < dr_cacheSize r"
    "dr_cacheSize (made_room r) = dr_cacheSize r"
    "dr_insertOrder (made_room r) = Some order \<Longrightarrow> cache_keys (made_room r) \<subseteq> set order"
proof -
  have "distinct (map fst (dr_cache (made_room r))) \<and> length (dr_cache (made_room r)) < dr_cacheSize r \<and>
    dr_cacheSize (made_room r) = dr_cacheSize r \<and>
    (dr_insertOrder (made_room r) = Some order \<longrightarrow> cache_keys (made_room r) \<subseteq> set order)"
  proof (cases "length (dr_cache r) \<ge> dr_cacheSize r")
    case True
    obtain k where k: "dns_evictOldest r = r\<lparr>dr_cache := AList.delete k (dr_cache r), dr_insertOrder := None\<rparr>" "k \<in> cache_keys r"
      by (rule evict_inv [OF assms True])
    have "distinct (map fst (dr_cache r))" "length (dr_cache r) \<le> dr_cacheSize r" using assms by (simp_all add: dns_inv_def)
    then show ?thesis
      using True k length_delete [of "dr_cache r" k] distinct_delete [of "dr_cache r" k]
      by (simp add: made_room_def cache_keys_def)
  next
    case False
    then show ?thesis using assms by (auto simp: made_room_def dns_inv_def)
  qed
  then show "distinct (map fst (dr_cache (made_room r)))" "length (dr_cache (made_room r)) < dr_cacheSize r"
    "dr_cacheSize (made_room r) = dr_cacheSize r"
    "dr_insertOrder (made_room r) = Some order \<Longrightarrow> cache_keys (made_room r) \<subseteq> set order" by blast+
qed

lemma setCached_made_room:
  "setCached now ord h ips r =
     (let r1 = made_room r; c = AList.update h \<lparr>dc_IPs = ips, dc_Expires = now + dr_cacheTTL r1\<rparr> (dr_cache r1);
          order = (case dr_insertOrder r1 of None \<Rightarrow> ord | Some order \<Rightarrow> order) @ [h]
      in r1\<lparr>dr_cache := c, dr_insertOrder := Some (if length order > dr_cacheSize r * 2
            then filter (\<lambda>k. map_of c k \<noteq> None) order else order)\<rparr>)"
  by (cases "dr_insertOrder (made_room r)")
    (simp_all add: setCached_def made_room_def [symmetric] Let_def rebuildInsertOrder_def compactInsertOrder_def)

lemma set_inv:
  assumes "dns_inv r" and "set ord = insert h (cache_keys (made_room r))"
  shows "dns_inv (setCached now ord h ips r)"
proof -
  define r1 where "r1 = made_room r"
  define c where "c = AList.update h \<lparr>dc_IPs = ips, dc_Expires = now + dr_cacheTTL r1\<rparr> (dr_cache r1)"
  define order where "order = (case dr_insertOrder r1 of None \<Rightarrow> ord | Some order \<Rightarrow> order) @ [h]"
  note r1 = made_room_inv [OF assms(1), folded r1_def]
  have "fst ` set c \<subseteq> set order"
    using r1(4) assms(2) by (cases "dr_insertOrder r1") (auto simp: c_def order_def keys_update cache_keys_def r1_def)
  moreover have "distinct (map fst c)" using distinct_update [OF r1(1)] by (simp add: c_def)
  moreover have "length c \<le> dr_cacheSize r" using r1(2) length_update [OF r1(1)] by (simp add: c_def)
  moreover have "setCached now ord h ips r = r1\<lparr>dr_cache := c, dr_insertOrder := Some (if length order > dr_cacheSize r * 2
            then filter (\<lambda>k. map_of c k \<noteq> None) order else order)\<rparr>"
    by (simp only: setCached_made_room Let_def r1_def c_def order_def)
  ultimately show ?thesis
    using r1(2,3) by (auto simp: dns_inv_def cache_keys_def map_of_eq_None_iff)
qed

lemma made_room_counters [simp]: "made_room (r\<lparr>dr_cacheMisses := n\<rparr>) = (made_room r)\<lparr>dr_cacheMisses := n\<rparr>"
  by (auto simp: made_room_def dns_evictOldest_def split: option.splits)

lemma getCached_frame: "getCached t h r = (x, r1) \<Longrightarrow> r1 = r \<or> r1 = r\<lparr>dr_cacheHits := dr_cacheHits r + 1\<rparr> \<and> x \<noteq> None"
  by (auto simp: getCached_def split: option.splits if_splits)

lemma inv_counters [simp]:
  "dns_inv (r\<lparr>dr_cacheHits := a\<rparr>) = dns_inv r" "dns_inv (r\<lparr>dr_cacheMisses := b\<rparr>) = dns_inv r"
  "dns_inv (r\<lparr>dr_queriesCached := c\<rparr>) = dns_inv r"
  by (simp_all add: dns_inv_def cache_keys_def split: option.split)

lemma LookupIP_inv:
  assumes "dns_inv r" and "set ord = insert h (cache_keys (made_room r))" and "LookupIP t1 t2 ord path h r = (res, r1)"
  shows "dns_inv r1"
proof (cases "getCached t1 h r")
  case (Pair c r0)
  show ?thesis
  proof (cases c)
    case None
    then have "r0 = r" using getCached_frame [OF Pair] by auto
    then show ?thesis
      using assms None Pair set_inv [of "r\<lparr>dr_cacheMisses := dr_cacheMisses r + 1\<rparr>" ord h]
      by (auto simp: LookupIP_def Let_def cache_keys_def split: sum.splits)
  next
    case (Some ips)
    then show ?thesis
      using assms Pair getCached_frame [OF Pair] by (auto simp: LookupIP_def)
  qed
qed

text \<open>The runs of the cache.  The order of a rebuild enumerates the cache with the new entry.\<close>

definition rebuild_ok :: "string list \<Rightarrow> string \<Rightarrow> dns_resolver \<Rightarrow> bool" where
  "rebuild_ok ord h r \<longleftrightarrow> set ord = insert h (cache_keys (made_room r))"

inductive dns_step :: "dns_resolver \<Rightarrow> dns_resolver \<Rightarrow> bool" where
  lookup: "rebuild_ok ord h r \<Longrightarrow> dns_step r (snd (LookupIP t1 t2 ord path h r))"
| lookup4: "rebuild_ok ord h r \<Longrightarrow> dns_step r (snd (LookupIPv4 t1 t2 ord path h r))"
| lookup6: "dns_step r (snd (LookupIPv6 t1 uncached h r))"
| prefetch: "rebuild_ok ord h r \<Longrightarrow> dns_step r (doPrefetch now ord h x r)"
| clear: "dns_step r (ClearCache r)"
| stop: "dns_step r (stop_clears r)"

lemma LookupIPv4_state: "snd (LookupIPv4 t1 t2 ord path h r) = snd (LookupIP t1 t2 ord path h r)"
  by (auto simp: LookupIPv4_def Let_def split: prod.splits sum.splits)

lemma LookupIPv6_state: "snd (LookupIPv6 t1 uncached h r) = snd (getCached t1 h r)"
  by (auto simp: LookupIPv6_def Let_def split: prod.splits sum.splits)

lemma dns_step_inv:
  assumes "dns_inv r" and "dns_step r r1"
  shows "dns_inv r1"
  using assms(2)
proof cases
  case (lookup ord h t1 t2 path)
  then show ?thesis using LookupIP_inv [OF assms(1)] by (metis prod.collapse rebuild_ok_def)
next
  case (lookup4 ord h t1 t2 path)
  then show ?thesis using LookupIP_inv [OF assms(1)] by (metis prod.collapse rebuild_ok_def LookupIPv4_state)
next
  case (lookup6 t1 uncached h)
  have "r1 = r \<or> r1 = r\<lparr>dr_cacheHits := dr_cacheHits r + 1\<rparr>"
    using getCached_frame [of t1 h r] lookup6 LookupIPv6_state by (metis prod.collapse)
  then show ?thesis using assms(1) by auto
next
  case (prefetch ord h now x)
  then show ?thesis using assms(1) set_inv by (auto simp: doPrefetch_def rebuild_ok_def split: sum.splits)
next
  case clear
  then show ?thesis using assms(1) by (simp add: ClearCache_def dns_inv_def)
next
  case stop
  then show ?thesis using assms(1) by (auto simp: stop_clears_def dns_inv_def cache_keys_def split: option.splits)
qed

lemma NewResolver_inv: "dns_inv (NewResolver n ttl)"
  by (simp add: NewResolver_def dns_inv_def)

interpretation dnssys: invariant_system "\<lambda>r. \<exists>n ttl. r = NewResolver n ttl" dns_step dns_inv
  by unfold_locales (auto simp: NewResolver_inv intro: dns_step_inv)

subsection \<open>Names on the wire\<close>

lemma label_byte_not_pointer:
  assumes "n < 64"
  shows "(of_nat n :: byte) AND 0xC0 = 0"
proof (rule bit_word_eqI)
  fix m :: nat
  assume m: "m < LENGTH(8)"
  show "bit ((of_nat n :: byte) AND 0xC0) m = bit (0 :: byte) m"
  proof (cases "m < 6")
    case True
    then have "m \<in> {0, 1, 2, 3, 4, 5}" by auto
    then show ?thesis by (auto simp: bit_and_iff)
  next
    case False
    have "n < 2 ^ m" using assms False power_increasing [of 6 m "2 :: nat"] by simp
    then have "\<not> bit n m" by (simp add: bit_iff_odd)
    then show ?thesis by (simp add: bit_and_iff bit_of_nat_iff_bit bit_simps)
  qed
qed

lemma skip_name_labels:
  assumes "\<forall>l \<in> set ls. 0 < length l \<and> length l < 64"
  shows "skip_name (pre @ concat (map enc_label ls) @ 0 # post) (length pre) =
    Some (length pre + length (concat (map enc_label ls)) + 1)"
  using assms
proof (induction ls arbitrary: pre)
  case Nil
  then show ?case by (subst skip_name.simps) simp
next
  case (Cons l ls)
  have l: "0 < length l" "length l < 64" using Cons.prems by auto
  have u: "unat (of_nat (length l) :: byte) = length l" using l by (simp add: unat_of_nat)
  have nz: "(of_nat (length l) :: byte) \<noteq> 0" using u l(1) by (metis less_numeral_extra(3) unsigned_0)
  have np: "(of_nat (length l) :: byte) AND 0xC0 \<noteq> 0xC0" using label_byte_not_pointer [OF l(2)] by simp
  let ?buf = "pre @ concat (map enc_label (l # ls)) @ 0 # post"
  have at: "?buf ! length pre = of_nat (length l)" "length pre < length ?buf" by (simp_all add: enc_label_def nth_append)
  have "skip_name ?buf (length pre) = skip_name ?buf (length pre + length l + 1)"
    using at nz np u by (subst skip_name.simps) simp
  also have "\<dots> = skip_name ((pre @ enc_label l) @ concat (map enc_label ls) @ 0 # post) (length (pre @ enc_label l))"
    by (simp add: enc_label_def)
  also have "\<dots> = Some (length (pre @ enc_label l) + length (concat (map enc_label ls)) + 1)"
    using Cons.IH [of "pre @ enc_label l"] Cons.prems by simp
  finally show ?case by simp
qed

lemma skip_name_pointer: "skip_name (pre @ 0xC0 # x # post) (length pre) = Some (length pre + 2)"
  by (subst skip_name.simps) simp

text \<open>A reference decoder for names without compression.\<close>

function decode_labels :: "byte list \<Rightarrow> (string list \<times> byte list) option" where
  "decode_labels [] = None"
| "decode_labels (n # rest) =
     (if n = 0 then Some ([], rest)
      else if length rest < unat n then None
      else case decode_labels (drop (unat n) rest) of
             None \<Rightarrow> None
           | Some (ls, r) \<Rightarrow> Some (string_of_bytes (take (unat n) rest) # ls, r))"
  by pat_completeness auto

termination
  by (relation "measure length") auto

lemma decode_enc_labels:
  assumes "\<forall>l \<in> set ls. 0 < length l \<and> length l < 64"
  shows "decode_labels (concat (map enc_label ls) @ 0 # rest) = Some (ls, rest)"
  using assms
proof (induction ls)
  case (Cons l ls)
  have u: "unat (of_nat (length l) :: byte) = length l" "(of_nat (length l) :: byte) \<noteq> 0"
  proof -
    show "unat (of_nat (length l) :: byte) = length l" using Cons.prems by (simp add: unat_of_nat)
    then show "(of_nat (length l) :: byte) \<noteq> 0" using Cons.prems by (metis less_numeral_extra(3) list.set_intros(1) unsigned_0)
  qed
  then show ?case using Cons by (simp add: enc_label_def)
qed simp

lemma refresh_grows:
  assumes "2 \<le> dr_cacheSize r" and "dr_cache r = [(h, e)]" and "dr_insertOrder r = Some (replicate k h)"
  shows "\<exists>e'. dr_cache (setCached now ord h ips r) = [(h, e')] \<and>
    dr_insertOrder (setCached now ord h ips r) = Some (replicate (Suc k) h) \<and> dr_cacheSize (setCached now ord h ips r) = dr_cacheSize r"
proof -
  have "made_room r = r" using assms(1,2) by (simp add: made_room_def)
  then show ?thesis
    using assms by (simp add: setCached_made_room Let_def replicate_append_same)
qed

lemma refresh_many:
  assumes "2 \<le> sz"
  shows "\<exists>e. let r = ((\<lambda>r. setCached now [h] h ips r) ^^ Suc n) (NewResolver sz ttl)
    in dr_cache r = [(h, e)] \<and> dr_insertOrder r = Some (replicate (n + 2) h) \<and> dr_cacheSize r = nat sz"
proof (induction n)
  case 0
  have "made_room (NewResolver sz ttl) = NewResolver sz ttl" using assms by (simp add: made_room_def NewResolver_def)
  then show ?case using assms by (simp add: setCached_made_room Let_def) (simp add: NewResolver_def numeral_2_eq_2)
next
  case (Suc n)
  let ?r = "((\<lambda>r. setCached now [h] h ips r) ^^ Suc n) (NewResolver sz ttl)"
  obtain e where e: "dr_cache ?r = [(h, e)]" "dr_insertOrder ?r = Some (replicate (n + 2) h)" "dr_cacheSize ?r = nat sz"
    using Suc by (auto simp: Let_def)
  have "2 \<le> dr_cacheSize ?r" using e(3) assms by simp
  from refresh_grows [OF this e(1,2), of now "[h]" ips] e(3) show ?case by (simp add: Let_def)
qed

subsection \<open>Answers on the wire\<close>

text \<open>A resource record whose name is a compression pointer.\<close>

definition enc_rr :: "32 word \<Rightarrow> 16 word \<times> byte list \<Rightarrow> byte list" where
  "enc_rr ttl r = [0xC0, 12] @ put16 (fst r) @ put16 1 @ put32 ttl @ put16 (of_nat (length (snd r))) @ snd r"

definition response_header :: "16 word \<Rightarrow> nat \<Rightarrow> nat \<Rightarrow> byte list" where
  "response_header txid questions answers =
     put16 txid @ put16 0x8180 @ put16 (of_nat questions) @ put16 (of_nat answers) @ put16 0 @ put16 0"

declare get16_append [simp]

lemma length_response_header [simp]: "length (response_header t q n) = 12"
  by (simp add: response_header_def)

lemma header_fields:
  "n < 65536 \<Longrightarrow> unat (get16 (drop 6 (response_header t q n) @ rest)) = n"
  "get16 (drop 2 (response_header t q n) @ rest) AND 0x000F = 0"
proof -
  show "n < 65536 \<Longrightarrow> unat (get16 (drop 6 (response_header t q n) @ rest)) = n"
    by (simp add: response_header_def unat_of_nat)
  have "get16 (drop 2 (response_header t q n) @ rest) = 0x8180" by (simp add: response_header_def)
  then show "get16 (drop 2 (response_header t q n) @ rest) AND 0x000F = 0" by simp
qed

lemma parse_one_rr:
  assumes "length d < 65536" and "buf = pre @ enc_rr ttl (t, d) @ rest"
  shows "parse_answers (Suc n) q buf (length pre) ips =
    (let o2 = length pre + 12
     in if t = q then
          if q = 1 then
            if length d = 4 then parse_answers n q buf (o2 + 4) (ips @ [d]) else parse_answers n q buf o2 ips
          else if q = 28 then
            if length d = 16 then parse_answers n q buf (o2 + 16) (ips @ [d]) else parse_answers n q buf o2 ips
          else parse_answers n q buf (o2 + length d) ips
        else parse_answers n q buf (o2 + length d) ips)"
proof -
  let ?o = "length pre + 2"
  have sk: "skip_name buf (length pre) = Some ?o"
    using skip_name_pointer [of pre 12] by (simp add: assms(2) enc_rr_def)
  have t: "get16 (drop ?o buf) = t" by (simp add: assms(2) enc_rr_def)
  have "drop (?o + 8) buf = put16 (of_nat (length d)) @ d @ rest" by (simp add: assms(2) enc_rr_def)
  then have l: "unat (get16 (drop (?o + 8) buf)) = length d" using assms(1) by (simp add: unat_of_nat)
  have len: "length buf = length pre + 12 + length d + length rest" by (simp add: assms(2) enc_rr_def)
  have s: "sub (?o + 10) (?o + 10 + length d) buf = d" by (simp add: assms(2) enc_rr_def sub_def)
  show ?thesis
    using sk t l len s by (auto simp: Let_def eval_nat_numeral)
qed

lemma parse_good_rr:
  assumes "length d < 65536" and "buf = pre @ enc_rr ttl (t, d) @ rest" and "q = 1 \<or> q = 28"
    and "t = q \<Longrightarrow> length d = (if q = 1 then 4 else 16)"
  shows "parse_answers (Suc n) q buf (length pre) ips =
    parse_answers n q buf (length (pre @ enc_rr ttl (t, d))) (if t = q then ips @ [d] else ips)"
proof -
  have "length (pre @ enc_rr ttl (t, d)) = length pre + 12 + length d" by (simp add: enc_rr_def)
  then show ?thesis
    using assms(3,4) by (subst parse_one_rr [OF assms(1,2)]) (auto simp: Let_def ac_simps)
qed

lemma parse_rrs:
  assumes "\<forall>(t, d) \<in> set rs. length d < 65536 \<and> (t = q \<longrightarrow> length d = (if q = 1 then 4 else 16))" and "q = 1 \<or> q = 28"
    and "buf = pre @ concat (map (enc_rr ttl) rs) @ rest"
  shows "parse_answers (length rs) q buf (length pre) ips = Inr (ips @ map snd (filter (\<lambda>(t, d). t = q) rs))"
  using assms
proof (induction rs arbitrary: pre ips)
  case (Cons r rs)
  obtain t d where r: "r = (t, d)" by fastforce
  have d: "length d < 65536" "t = q \<Longrightarrow> length d = (if q = 1 then 4 else 16)" using Cons.prems(1) r by auto
  let ?pre = "pre @ enc_rr ttl (t, d)"
  have buf: "buf = pre @ enc_rr ttl (t, d) @ concat (map (enc_rr ttl) rs) @ rest" using Cons.prems(3) r by simp
  have "parse_answers (length rs) q buf (length ?pre) jps = Inr (jps @ map snd (filter (\<lambda>(t, d). t = q) rs))" for jps
    by (rule Cons.IH) (use Cons.prems buf in auto)
  then show ?case
    using parse_good_rr [OF d(1) buf assms(2) d(2), of "length rs" ips] r by (simp del: parse_answers.simps)
qed simp

text \<open>A standard response repeats the question before the answers.\<close>

definition standard_response :: "16 word \<Rightarrow> string list \<Rightarrow> 16 word \<Rightarrow> 32 word \<Rightarrow> (16 word \<times> byte list) list \<Rightarrow> byte list" where
  "standard_response txid name q ttl rs =
     response_header txid 1 (length rs) @ (concat (map enc_label name) @ [0] @ put16 q @ put16 1) @ concat (map (enc_rr ttl) rs)"

lemma question_taken_for_answer:
  assumes "\<forall>l \<in> set name. 0 < length l \<and> length l < 64" and "q = 1 \<or> q = 28" and "rs \<noteq> []"
  shows "parse_answers 1 q (standard_response txid name q ttl rs) 12 [] = Inr []"
proof -
  let ?n = "concat (map enc_label name)" let ?buf = "standard_response txid name q ttl rs" let ?o = "12 + length ?n + 1"
  obtain t d rs' where rs: "rs = (t, d) # rs'" using assms(3) by (cases rs) auto
  let ?tail = "put32 ttl @ put16 (of_nat (length d)) @ d @ concat (map (enc_rr ttl) rs')"
  have buf: "?buf = response_header txid 1 (length rs) @ ?n @ 0 # put16 q @ put16 1 @ [0xC0, 12] @ put16 t @ put16 1 @ ?tail"
    by (simp add: standard_response_def rs enc_rr_def)
  have sk: "skip_name ?buf 12 = Some ?o"
    using skip_name_labels [OF assms(1), of "response_header txid 1 (length rs)"] by (simp add: buf)
  have d1: "drop ?o ?buf = put16 q @ put16 1 @ [0xC0, 12] @ put16 t @ put16 1 @ ?tail" by (simp add: buf)
  have "drop (?o + 8) ?buf = drop 8 (drop ?o ?buf)" by (simp add: add.commute)
  then have d2: "drop (?o + 8) ?buf = put16 1 @ ?tail" unfolding d1 by simp
  have len: "?o + 10 \<le> length ?buf" by (simp add: buf)
  show ?thesis
    using sk d1 d2 len assms(2) by (auto simp: One_nat_def Let_def)
qed

subsection \<open>Properties\<close>

text \<open>A query holds exactly the name it was asked for: for a host name whose labels have 1 to 63 bytes the message
  has the header, the labels, the type and the class, and the labels joined by dots are the name.\<close>

theorem dns_query_names_host:
  assumes "\<forall>l \<in> set (Split CHR ''.'' (TrimDot h)). 0 < length l \<and> length l < 64"
  shows "\<exists>d labels. buildDNSQuery txid h q = Inr d \<and> take 12 d = query_header txid \<and>
    decode_labels (drop 12 d) = Some (labels, put16 q @ put16 1) \<and> Join CHR ''.'' labels = TrimDot h"
proof -
  let ?ls = "Split CHR ''.'' (TrimDot h)"
  have "buildDNSQuery txid h q = Inr (query_header txid @ concat (map enc_label ?ls) @ [0] @ put16 q @ put16 1)"
    using assms by (auto simp: buildDNSQuery_def Let_def)
  moreover have "length (query_header txid) = 12" by (simp add: query_header_def)
  ultimately show ?thesis using decode_enc_labels [OF assms, of "put16 q @ put16 1"] by simp
qed

theorem dns_query_names_host_witness:
  "\<exists>d labels. buildDNSQuery 7 ''a.org.'' 1 = Inr d \<and> take 12 d = query_header 7 \<and>
    decode_labels (drop 12 d) = Some (labels, put16 1 @ put16 1) \<and> Join CHR ''.'' labels = ''a.org''"
  using dns_query_names_host [of "''a.org.''" 7 1] by (simp add: TrimDot_def)

text \<open>What the parser accepts: in a message whose answers follow the header at once, it returns the data of exactly
  the records of the asked type, in order.\<close>

theorem answers_without_question_parsed:
  assumes "q = 1 \<or> q = 28" and "length rs < 65536"
    and "\<forall>(t, d) \<in> set rs. length d < 65536 \<and> (t = q \<longrightarrow> length d = (if q = 1 then 4 else 16))"
    and "\<exists>d. (q, d) \<in> set rs"
  shows "parseDNSResponse (response_header txid 0 (length rs) @ concat (map (enc_rr ttl) rs)) q =
    Inr (map snd (filter (\<lambda>(t, d). t = q) rs))"
proof -
  let ?buf = "response_header txid 0 (length rs) @ concat (map (enc_rr ttl) rs)"
  have "parse_answers (length rs) q ?buf (length (response_header txid 0 (length rs))) [] =
      Inr (map snd (filter (\<lambda>(t, d). t = q) rs))"
    using parse_rrs [OF assms(3,1), of ?buf _ ttl "[]" "[]"] by simp
  moreover have "map snd (filter (\<lambda>(t, d). t = q) rs) \<noteq> []" using assms(4) by (auto simp: filter_empty_conv)
  ultimately show ?thesis
    using assms(2) by (simp add: parseDNSResponse_def header_fields)
qed

definition example_answers :: "(16 word \<times> byte list) list" where
  "example_answers = [(5, [1]), (1, [10, 0, 0, 1])]"

theorem answers_without_question_parsed_witness:
  "parseDNSResponse (response_header 1 0 (length example_answers) @ concat (map (enc_rr 60) example_answers)) 1 =
    Inr (map snd (filter (\<lambda>(t, d). t = 1) example_answers))"
  by (rule answers_without_question_parsed) (auto simp: example_answers_def)

text \<open>C24. The parser does not skip the question.  A standard response with one answer, of either type and for any name,
  is reported as having no records.\<close>

theorem standard_response_rejected:
  assumes "\<forall>l \<in> set name. 0 < length l \<and> length l < 64" and "q = 1 \<or> q = 28"
  shows "parseDNSResponse (standard_response txid name q ttl [(q, a)]) q = Inl (DNSNoRecords q)"
proof -
  let ?rest = "(concat (map enc_label name) @ [0] @ put16 q @ put16 1) @ concat (map (enc_rr ttl) [(q, a)])"
  have "standard_response txid name q ttl [(q, a)] = response_header txid 1 1 @ ?rest" by (simp add: standard_response_def)
  then show ?thesis
    using question_taken_for_answer [OF assms, of "[(q, a)]" txid ttl]
    by (simp add: parseDNSResponse_def header_fields del: parse_answers.simps)
qed

theorem standard_response_rejected_witness:
  "parseDNSResponse (standard_response 1 [''a'', ''org''] 1 300 [(1, [10, 0, 0, 1])]) 1 = Inl (DNSNoRecords 1)"
  by (rule standard_response_rejected) simp_all

text \<open>No UDP query succeeds, whatever the network does: the datagram is read into a slice of length zero.\<close>

theorem udp_dns_query_fails:
  "\<exists>e p1. queryDNS ev cancelled pick txid h q p = (Inl e, p1)"
proof -
  have "\<exists>e p1. queryDNS_loop left lastErr ev cancelled pick txid h q p = (Inl e, p1)" for left lastErr p
  proof (induction left arbitrary: lastErr p)
    case (Suc left)
    obtain b p1 where b: "Buf_Get (pick (2 - left)) SmallBufferSize p = (b, p1)" by fastforce
    then have "sl_len b = 0" by (auto simp: Buf_Get_def Let_def split: prod.splits if_splits)
    then show ?case
      using Suc b by (auto simp: Let_def parseDNSResponse_def split: udp_event.splits sum.splits)
  qed simp
  then show ?thesis by (simp add: queryDNS_def)
qed

text \<open>A lookup through all servers drops the IPv4 addresses of a host without IPv6 addresses: a server that answers
  the A query and reports an error for AAAA contributes only its error, although the same answers resolve the
  name in \<open>resolveDomain\<close>.\<close>

theorem ipv4_only_answers_discarded:
  assumes "\<forall>x \<in> set answers. \<exists>ips e. ips \<noteq> [] \<and> (x = (Inr ips, Inl e) \<or> x = (Inl e, Inr ips))"
    and "answers \<noteq> []" and "arrivals = map (\<lambda>(r1, r2). case merge_answers r1 r2 of (ips, err) \<Rightarrow> Arrived ips err) answers"
  shows "(\<exists>e. lookupIPUncached True (length answers) arrivals False system = Inl e) \<and>
    (\<forall>(r1, r2) \<in> set answers. \<exists>ips. ips \<noteq> [] \<and> resolveWithServer r1 r2 = Inr ips)"
proof
  have "\<exists>e. collect (length answers) arrivals lastErr = Exhausted e \<and> (answers \<noteq> [] \<longrightarrow> e \<noteq> None)" for lastErr
    using assms(1,3)
  proof (induction answers arbitrary: arrivals lastErr)
    case (Cons x xs)
    obtain ips e where x: "ips \<noteq> []" "x = (Inr ips, Inl e) \<or> x = (Inl e, Inr ips)" using Cons.prems(1) by auto
    define as where "as = map (\<lambda>(r1, r2). case merge_answers r1 r2 of (ips, err) \<Rightarrow> Arrived ips err) xs"
    have "arrivals = Arrived ips (Some e) # as" using x Cons.prems(2) by (auto simp: as_def merge_answers_def)
    moreover obtain e' where "collect (length xs) as (Some e) = Exhausted e'" "xs \<noteq> [] \<longrightarrow> e' \<noteq> None"
      using Cons.IH [OF _ as_def, of "Some e"] Cons.prems(1) by auto
    ultimately show ?case by (cases xs) auto
  qed simp
  from this [of None] obtain e where "collect (length answers) arrivals None = Exhausted (Some e)" using assms(2) by auto
  then show "\<exists>e. lookupIPUncached True (length answers) arrivals False system = Inl e"
    by (simp add: lookupIPUncached_def system_lookup_def)
  show "\<forall>(r1, r2) \<in> set answers. \<exists>ips. ips \<noteq> [] \<and> resolveWithServer r1 r2 = Inr ips"
    using assms(1) by (fastforce simp: resolveWithServer_def merge_answers_def)
qed

definition example_results :: "((dns_error + ip list) \<times> (dns_error + ip list)) list" where
  "example_results = [(Inr [[10, 0, 0, 1]], Inl (DNSNoRecords 28))]"

theorem ipv4_only_answers_discarded_witness:
  "(\<exists>e. lookupIPUncached True (length example_results) [Arrived [[10, 0, 0, 1]] (Some (DNSNoRecords 28))] False (Inl DNSLookupFailed) = Inl e) \<and>
    (\<forall>(r1, r2) \<in> set example_results. \<exists>ips. ips \<noteq> [] \<and> resolveWithServer r1 r2 = Inr ips)"
  by (rule ipv4_only_answers_discarded) (auto simp: example_results_def merge_answers_def)



text \<open>A name that was looked up is answered from the cache until its time to live has passed, and not later.\<close>

theorem dns_cached_answer:
  "fst (getCached t h (setCached now ord h ips r)) = (if t > now + dr_cacheTTL r then None else Some ips)"
proof -
  have "dr_store now h ips r (setCached now ord h ips r)" by (auto simp: dr_store_def)
  from dnscache.lookup_after_store [OF this, of t] show ?thesis by simp
qed

text \<open>The list of insertions is not bounded by its compaction: refreshing one cached name makes it one longer each
  time, without limit.\<close>

theorem insert_order_unbounded:
  assumes "2 \<le> sz"
  shows "\<exists>order. dr_insertOrder (((\<lambda>r. setCached now [h] h ips r) ^^ Suc n) (NewResolver sz ttl)) = Some order \<and> length order = n + 2"
  using refresh_many [OF assms, where now = now and h = h and ips = ips and n = n and ttl = ttl] by (auto simp: Let_def)

theorem insert_order_unbounded_witness:
  "\<exists>order. dr_insertOrder (((\<lambda>r. setCached 0 [''a''] ''a'' [] r) ^^ Suc 99) (NewResolver 10 60)) = Some order \<and> length order = 99 + 2"
  by (rule insert_order_unbounded) simp

end
