(* ===== verification/TokenBucket.thy ===== *)
theory TokenBucket
  imports Prelude
begin

text \<open>
  The contract of a token bucket and the bound that follows from it for any sequence of requests.  The rate is
  per nanosecond, the unit of the clock.  The buckets of \<^verbatim>\<open>ratelimit/ratelimit.go\<close> and \<^verbatim>\<open>bandwidth/limiter.go\<close> meet it.
\<close>

text \<open>\<open>serve tk rs s\<close>: the requests \<open>rs\<close>, each an instant and an amount, in order; the amounts granted in all.\<close>

fun serve :: "(instant \<Rightarrow> int \<Rightarrow> 's \<Rightarrow> int \<times> 's) \<Rightarrow> (instant \<times> int) list \<Rightarrow> 's \<Rightarrow> int \<times> 's" where
  "serve tk [] s = (0, s)"
| "serve tk ((now, n) # rs) s =
     (let (g, s1) = tk now n s; (gs, s2) = serve tk rs s1 in (g + gs, s2))"

text \<open>The instants do not go back, and the amounts are not negative.\<close>

fun in_time :: "instant \<Rightarrow> (instant \<times> int) list \<Rightarrow> bool" where
  "in_time t [] \<longleftrightarrow> True"
| "in_time t ((now, n) # rs) \<longleftrightarrow> t \<le> now \<and> 0 \<le> n \<and> in_time now rs"

fun end_time :: "instant \<Rightarrow> (instant \<times> int) list \<Rightarrow> instant" where
  "end_time t [] = t"
| "end_time t ((now, n) # rs) = end_time now rs"

lemma in_time_end: "in_time t rs \<Longrightarrow> t \<le> end_time t rs"
proof (induction t rs rule: in_time.induct)
  case (2 t now n rs)
  then show ?case by fastforce
qed simp

locale token_bucket =
  fixes ok :: "'s \<Rightarrow> bool"
    and level :: "'s \<Rightarrow> rat"
    and rate :: "'s \<Rightarrow> rat"
    and since :: "'s \<Rightarrow> instant"
    and tk :: "instant \<Rightarrow> int \<Rightarrow> 's \<Rightarrow> int \<times> 's"
  assumes rate_nonneg: "ok s \<Longrightarrow> 0 \<le> rate s"
    and level_nonneg: "ok s \<Longrightarrow> 0 \<le> level s"
    and take_keeps: "ok s \<Longrightarrow> since s \<le> now \<Longrightarrow> 0 \<le> n \<Longrightarrow> ok (snd (tk now n s)) \<and> rate (snd (tk now n s)) = rate s \<and>
      since (snd (tk now n s)) = now"
    and take_pays: "ok s \<Longrightarrow> since s \<le> now \<Longrightarrow> 0 \<le> n \<Longrightarrow>
      of_int (fst (tk now n s)) + level (snd (tk now n s)) \<le> level s + rate s * of_int (now - since s)"
begin

lemma serve_bound_level:
  assumes "ok s" and "in_time (since s) rs" and "serve tk rs s = (all, s1)"
  shows "ok s1 \<and> of_int all + level s1 \<le> level s + rate s * of_int (end_time (since s) rs - since s)"
  using assms
proof (induction rs arbitrary: s all)
  case (Cons r rs)
  obtain now n where r: "r = (now, n)" by fastforce
  obtain g s2 where t: "tk now n s = (g, s2)" by fastforce
  obtain gs where gs: "serve tk rs s2 = (gs, s1)" and alleq: "all = g + gs"
    using Cons.prems(3) r t by (auto simp: Let_def split: prod.splits)
  have pre: "since s \<le> now" "0 \<le> n" "in_time now rs" using Cons.prems(2) r by auto
  note k = take_keeps [OF Cons.prems(1) pre(1,2)] and p = take_pays [OF Cons.prems(1) pre(1,2)]
  have ih: "ok s1 \<and> of_int gs + level s1 \<le> level s2 + rate s * of_int (end_time now rs - now)"
    using Cons.IH [of s2 gs] k t gs pre(3) by simp
  have "rate s * of_int (end_time now rs - since s) =
      rate s * of_int (now - since s) + rate s * of_int (end_time now rs - now)"
    by (simp add: algebra_simps)
  then show ?case using ih p t alleq r by simp
qed simp

lemma serve_bound:
  assumes "ok s" and "in_time (since s) rs" and "serve tk rs s = (all, s1)"
  shows "of_int all \<le> level s + rate s * of_int (end_time (since s) rs - since s)"
  using serve_bound_level [OF assms] level_nonneg [of s1] by linarith

end

end
