(* ===== verification/Bandwidth.thy ===== *)
theory Bandwidth
  imports TokenBucket GoStrings
begin

text \<open>
  The bandwidth limiter of \<^verbatim>\<open>bandwidth/limiter.go\<close> with the parser of its limits (\<^verbatim>\<open>cfg/config.go\<close>), and the packet rate
  limiter of \<^verbatim>\<open>ratelimit/ratelimit.go\<close>.

  The bucket of the bandwidth limiter counts thousandths of bytes in 64-bit words, and its arithmetic wraps.  \<open>Take\<close>
  loads the level and the instant of the last refill, swaps the level, and stores the instant: three atomic
  accesses, which the definitions keep apart.  The burst is a float in the code and a rational here, and so are the
  levels of the packet rate limiter.  A waiting loop takes one reading of the clock per iteration; the context ends when
  the readings do.
\<close>

subsection \<open>Limits\<close>

datatype bw_error = EmptyBandwidth | InvalidNumber | UnknownUnit string

definition ParseBandwidth :: "string \<Rightarrow> bw_error + 64 word" where
  "ParseBandwidth bandwidth =
     (let b = TrimSpace bandwidth
      in if b = [] then Inl EmptyBandwidth
         else
           let digits = takeWhile is_digit b;
               (numStr, unit) = (if digits = [] \<or> digits = b then (b, []) else (digits, TrimSpace (drop (length digits) b)))
           in case ParseUint 64 numStr of
                None \<Rightarrow> Inl InvalidNumber
              | Some n \<Rightarrow>
                  let num = of_nat n :: 64 word; u = ToLower unit
                  in if u \<in> {''kbps'', ''kb/s'', ''kbit/s''} then Inr (num * 1000 div 8)
                     else if u \<in> {''mbps'', ''mb/s'', ''mbit/s''} then Inr (num * 1000000 div 8)
                     else if u \<in> {''gbps'', ''gb/s'', ''gbit/s''} then Inr (num * 1000000000 div 8)
                     else if u \<in> {''k'', ''kb'', ''kib'', ''kib/s'', ''k/s''} then Inr (num * 1024)
                     else if u \<in> {''m'', ''mb'', ''mib'', ''mib/s'', ''m/s''} then Inr (num * 1024 * 1024)
                     else if u \<in> {''g'', ''gb'', ''gib'', ''gib/s'', ''g/s''} then Inr (num * 1024 * 1024 * 1024)
                     else if u \<in> {''bps'', ''b/s'', []} then Inr num
                     else Inl (UnknownUnit unit))"

subsection \<open>The bucket of the bandwidth limiter\<close>

record bw_bucket =
  bb_tokens :: "64 word"
  bb_maxTokens :: "64 word"
  bb_refillRate :: "64 word"
  bb_lastRefill :: instant

definition bw_NewTokenBucket :: "64 word \<Rightarrow> rat \<Rightarrow> instant \<Rightarrow> bw_bucket" where
  "bw_NewTokenBucket rateBytes burst now =
     (let b = (if burst \<le> 0 then 1 else burst);
          maxTokens = of_int \<lfloor>of_nat (unat rateBytes) * b * 1000\<rfloor>
      in \<lparr>bb_tokens = maxTokens, bb_maxTokens = maxTokens,
          bb_refillRate = of_int (int (unat rateBytes) * 1000), bb_lastRefill = now\<rparr>)"

text \<open>One pass of the loop of \<open>Take\<close> on the values loaded: what is taken and the level to store.\<close>

definition Take_compute :: "instant \<Rightarrow> int \<Rightarrow> 64 word \<Rightarrow> instant \<Rightarrow> bw_bucket \<Rightarrow> 64 word \<times> 64 word" where
  "Take_compute now n currentTokens lastRefill tb =
     (let nFixed = of_int (n * 1000) :: 64 word;
          elapsed = i64 (now - lastRefill);
          tokensToAdd = (if elapsed > 0 \<and> bb_refillRate tb > 0 then (of_int elapsed * bb_refillRate tb) div 1000000000 else 0);
          sum = currentTokens + tokensToAdd;
          newTokens = (if sum > bb_maxTokens tb then bb_maxTokens tb else sum);
          taken = (if newTokens \<ge> nFixed then nFixed else newTokens)
      in (taken, newTokens - taken))"

definition Take_swap :: "64 word \<Rightarrow> 64 word \<Rightarrow> bw_bucket \<Rightarrow> bw_bucket option" where
  "Take_swap currentTokens finalTokens tb =
     (if bb_tokens tb = currentTokens then Some (tb\<lparr>bb_tokens := finalTokens\<rparr>) else None)"

definition Take_store :: "instant \<Rightarrow> bw_bucket \<Rightarrow> bw_bucket" where
  "Take_store now tb = tb\<lparr>bb_lastRefill := now\<rparr>"

text \<open>\<open>Take\<close> without interference.\<close>

definition Take :: "instant \<Rightarrow> int \<Rightarrow> bw_bucket \<Rightarrow> int \<times> bw_bucket" where
  "Take now n tb =
     (let (taken, final) = Take_compute now n (bb_tokens tb) (bb_lastRefill tb) tb
      in case Take_swap (bb_tokens tb) final tb of
           Some tb1 \<Rightarrow> (int (unat (taken div 1000)), Take_store now tb1)
         | None \<Rightarrow> (0, tb))"

datatype wait_result = WaitOk | WaitCancelled | WaitPanic

text \<open>The wait after an attempt, None when the division by the rate panics.\<close>

definition wait_time :: "int \<Rightarrow> bw_bucket \<Rightarrow> duration option" where
  "wait_time need tb =
     (if bb_refillRate tb = 0 then None
      else
        let w = i64 (int (unat ((of_int need :: 64 word) * 1000 * 1000000000 div bb_refillRate tb)))
        in Some (if w < millisecond then millisecond else w))"

fun bw_Wait :: "instant list \<Rightarrow> int \<Rightarrow> bw_bucket \<Rightarrow> wait_result \<times> bw_bucket" where
  "bw_Wait [] n tb = (WaitCancelled, tb)"
| "bw_Wait (t # ts) n tb =
     (case Take t n tb of
        (taken, tb1) \<Rightarrow>
          if taken \<ge> n then (WaitOk, tb1)
          else (case wait_time (n - taken) tb1 of None \<Rightarrow> (WaitPanic, tb1) | Some _ \<Rightarrow> bw_Wait ts n tb1))"

subsection \<open>Clients\<close>

record rate_rule =
  rr_MAC :: string
  rr_IP :: string
  rr_Limit :: string

record client_buckets =
  cb_read :: bw_bucket
  cb_write :: bw_bucket

record bandwidth_limiter =
  bl_defaultLimit :: "64 word"
  bl_rules :: "rate_rule list"
  bl_clientBuckets :: "string \<rightharpoonup> client_buckets"
  bl_burstSeconds :: rat

definition NewBandwidthLimiter :: "(string \<times> rate_rule list) option \<Rightarrow> bw_error + bandwidth_limiter" where
  "NewBandwidthLimiter config =
     (case config of
        None \<Rightarrow> Inr \<lparr>bl_defaultLimit = 0, bl_rules = [], bl_clientBuckets = Map.empty, bl_burstSeconds = 1\<rparr>
      | Some (dflt, rules) \<Rightarrow>
          (case (if dflt \<noteq> [] then ParseBandwidth dflt else Inr 0) of
             Inl e \<Rightarrow> Inl e
           | Inr d \<Rightarrow> Inr \<lparr>bl_defaultLimit = d, bl_rules = rules, bl_clientBuckets = Map.empty, bl_burstSeconds = 1\<rparr>))"

definition bw_normalizeMAC :: "string \<Rightarrow> string" where
  "bw_normalizeMAC mac = ToUpper (RemoveAll CHR ''-'' (RemoveAll CHR '':'' mac))"

fun limit_of_rules :: "rate_rule list \<Rightarrow> string \<Rightarrow> string \<Rightarrow> 64 word \<Rightarrow> 64 word" where
  "limit_of_rules [] mac ip d = d"
| "limit_of_rules (r # rs) mac ip d =
     (case (rr_MAC r \<noteq> [] \<and> bw_normalizeMAC (rr_MAC r) = bw_normalizeMAC mac \<or> rr_IP r \<noteq> [] \<and> rr_IP r = ip,
            ParseBandwidth (rr_Limit r)) of
        (True, Inr l) \<Rightarrow> l
      | _ \<Rightarrow> limit_of_rules rs mac ip d)"

definition getLimitForClient :: "string \<Rightarrow> string \<Rightarrow> bandwidth_limiter \<Rightarrow> 64 word" where
  "getLimitForClient mac ip bl = limit_of_rules (bl_rules bl) mac ip (bl_defaultLimit bl)"

definition getOrCreateBuckets :: "instant \<Rightarrow> string \<Rightarrow> string \<Rightarrow> bandwidth_limiter \<Rightarrow> client_buckets \<times> bandwidth_limiter" where
  "getOrCreateBuckets now mac ip bl =
     (let key = (if mac = [] then ip else mac)
      in case bl_clientBuckets bl key of
           Some b \<Rightarrow> (b, bl)
         | None \<Rightarrow>
             let limit = getLimitForClient mac ip bl; tb = bw_NewTokenBucket limit (bl_burstSeconds bl) now;
                 b = \<lparr>cb_read = tb, cb_write = tb\<rparr>
             in (b, bl\<lparr>bl_clientBuckets := (bl_clientBuckets bl)(key \<mapsto> b)\<rparr>))"

text \<open>The connection as it is, or limited by the buckets.\<close>

definition LimitConn :: "instant \<Rightarrow> string \<Rightarrow> string \<Rightarrow> bandwidth_limiter \<Rightarrow> client_buckets option \<times> bandwidth_limiter" where
  "LimitConn now mac ip bl =
     (if bl_defaultLimit bl = 0 \<and> bl_rules bl = [] then (None, bl)
      else let (b, bl1) = getOrCreateBuckets now mac ip bl in (Some b, bl1))"

record limited_conn =
  lc_readBucket :: bw_bucket
  lc_writeBucket :: bw_bucket
  lc_readBytes :: "64 word"
  lc_writeBytes :: "64 word"
  lc_droppedRead :: "64 word"

text \<open>\<open>Read\<close> after the connection has given \<open>n\<close> bytes: they are always passed on.\<close>

definition lc_Read :: "instant \<Rightarrow> nat \<Rightarrow> limited_conn \<Rightarrow> limited_conn" where
  "lc_Read now n c =
     (if n = 0 then c
      else
        let (taken, tb) = Take now (int n) (lc_readBucket c);
            c1 = c\<lparr>lc_readBytes := lc_readBytes c + of_nat n, lc_readBucket := tb\<rparr>
        in if taken < int n then c1\<lparr>lc_droppedRead := lc_droppedRead c1 + of_int (int n - taken)\<rparr> else c1)"

datatype write_outcome = Written nat | WriteTimeout | WritePanic

text \<open>\<open>Write\<close> of \<open>n\<close> bytes; the connection takes \<open>m\<close> of them.\<close>

definition lc_Write :: "instant list \<Rightarrow> nat \<Rightarrow> nat \<Rightarrow> limited_conn \<Rightarrow> write_outcome \<times> limited_conn" where
  "lc_Write ts n m c =
     (if n = 0 then (Written 0, c)
      else case bw_Wait ts (int n) (lc_writeBucket c) of
        (WaitOk, tb) \<Rightarrow> (Written m, c\<lparr>lc_writeBucket := tb, lc_writeBytes := lc_writeBytes c + of_nat m\<rparr>)
      | (WaitCancelled, tb) \<Rightarrow> (WriteTimeout, c\<lparr>lc_writeBucket := tb\<rparr>)
      | (WaitPanic, tb) \<Rightarrow> (WritePanic, c\<lparr>lc_writeBucket := tb\<rparr>))"

text \<open>The limited reader and writer; the writer waits without a deadline, so the readings of the clock never run out and
  the model answers None when those supplied did.\<close>

record limit_io =
  li_bucket :: bw_bucket
  li_total :: "64 word"

definition NewLimitIO :: "64 word \<Rightarrow> rat \<Rightarrow> instant \<Rightarrow> limit_io" where
  "NewLimitIO limit burst now = \<lparr>li_bucket = bw_NewTokenBucket limit burst now, li_total = 0\<rparr>"

definition lr_Read :: "instant \<Rightarrow> nat \<Rightarrow> limit_io \<Rightarrow> limit_io" where
  "lr_Read now n lr =
     (if n = 0 then lr
      else lr\<lparr>li_total := li_total lr + of_nat n, li_bucket := snd (Take now (int n) (li_bucket lr))\<rparr>)"

definition lw_Write :: "instant list \<Rightarrow> nat \<Rightarrow> nat \<Rightarrow> limit_io \<Rightarrow> (write_outcome \<times> limit_io) option" where
  "lw_Write ts n m lw =
     (if n = 0 then Some (Written 0, lw)
      else case bw_Wait ts (int n) (li_bucket lw) of
        (WaitOk, tb) \<Rightarrow> Some (Written m, lw\<lparr>li_bucket := tb, li_total := li_total lw + of_nat m\<rparr>)
      | (WaitCancelled, tb) \<Rightarrow> None
      | (WaitPanic, tb) \<Rightarrow> Some (WritePanic, lw\<lparr>li_bucket := tb\<rparr>))"

definition bw_UpdateConfig :: "(string \<times> rate_rule list) option \<Rightarrow> bandwidth_limiter \<Rightarrow> bw_error option \<times> bandwidth_limiter" where
  "bw_UpdateConfig config bl =
     (case config of
        None \<Rightarrow> (None, bl\<lparr>bl_defaultLimit := 0, bl_rules := [], bl_clientBuckets := Map.empty\<rparr>)
      | Some (dflt, rules) \<Rightarrow>
          (case (if dflt \<noteq> [] then ParseBandwidth dflt else Inr (bl_defaultLimit bl)) of
             Inl e \<Rightarrow> (Some e, bl)
           | Inr d \<Rightarrow> (None, bl\<lparr>bl_defaultLimit := d, bl_rules := rules, bl_clientBuckets := Map.empty\<rparr>)))"

subsection \<open>The packet rate limiter\<close>

record rl_bucket =
  tb_tokens :: rat
  tb_maxTokens :: rat
  tb_refillRate :: rat
  tb_lastRefill :: instant

definition rl_NewTokenBucket :: "rat \<Rightarrow> rat \<Rightarrow> instant \<Rightarrow> rl_bucket" where
  "rl_NewTokenBucket maxTokens refillRate now =
     \<lparr>tb_tokens = maxTokens, tb_maxTokens = maxTokens, tb_refillRate = refillRate, tb_lastRefill = now\<rparr>"

definition tb_Allow :: "instant \<Rightarrow> int \<Rightarrow> rl_bucket \<Rightarrow> bool \<times> rl_bucket" where
  "tb_Allow now n tb =
     (let elapsed = of_int (now - tb_lastRefill tb) / of_int second;
          t = tb_tokens tb + elapsed * tb_refillRate tb;
          t1 = (if t > tb_maxTokens tb then tb_maxTokens tb else t)
      in if t1 \<ge> of_int n then (True, tb\<lparr>tb_tokens := t1 - of_int n, tb_lastRefill := now\<rparr>)
         else (False, tb\<lparr>tb_tokens := t1, tb_lastRefill := now\<rparr>))"

fun tb_Wait :: "instant list \<Rightarrow> int \<Rightarrow> rl_bucket \<Rightarrow> bool \<times> rl_bucket" where
  "tb_Wait [] n tb = (False, tb)"
| "tb_Wait (t # ts) n tb = (case tb_Allow t n tb of (True, tb1) \<Rightarrow> (True, tb1) | (False, tb1) \<Rightarrow> tb_Wait ts n tb1)"

record device_limiters =
  dl_Upload :: rl_bucket
  dl_Download :: rl_bucket

definition SetLimit :: "instant \<Rightarrow> string \<Rightarrow> 64 word \<Rightarrow> 64 word \<Rightarrow> (string \<rightharpoonup> device_limiters) \<Rightarrow> (string \<rightharpoonup> device_limiters)" where
  "SetLimit now mac uploadBps downloadBps rl =
     (let up = of_nat (unat uploadBps); down = of_nat (unat downloadBps); m = (if down > up then down else up)
      in rl(mac \<mapsto> \<lparr>dl_Upload = rl_NewTokenBucket m up now, dl_Download = rl_NewTokenBucket m down now\<rparr>))"

definition RemoveLimit :: "string \<Rightarrow> (string \<rightharpoonup> device_limiters) \<Rightarrow> (string \<rightharpoonup> device_limiters)" where
  "RemoveLimit mac rl = rl(mac := None)"

definition GetLimiter :: "string \<Rightarrow> bool \<Rightarrow> (string \<rightharpoonup> device_limiters) \<Rightarrow> rl_bucket option" where
  "GetLimiter mac isUpload rl = map_option (\<lambda>d. if isUpload then dl_Upload d else dl_Download d) (rl mac)"

definition dev_Allow :: "instant \<Rightarrow> string \<Rightarrow> int \<Rightarrow> bool \<Rightarrow> (string \<rightharpoonup> device_limiters) \<Rightarrow> bool \<times> (string \<rightharpoonup> device_limiters)" where
  "dev_Allow now mac n isUpload rl =
     (case rl mac of
        None \<Rightarrow> (True, rl)
      | Some d \<Rightarrow>
          let (a, tb) = tb_Allow now n (if isUpload then dl_Upload d else dl_Download d)
          in (a, rl(mac \<mapsto> (if isUpload then d\<lparr>dl_Upload := tb\<rparr> else d\<lparr>dl_Download := tb\<rparr>))))"

definition dev_Wait :: "instant list \<Rightarrow> string \<Rightarrow> int \<Rightarrow> bool \<Rightarrow> (string \<rightharpoonup> device_limiters) \<Rightarrow> bool \<times> (string \<rightharpoonup> device_limiters)" where
  "dev_Wait ts mac n isUpload rl =
     (case rl mac of
        None \<Rightarrow> (True, rl)
      | Some d \<Rightarrow>
          let (a, tb) = tb_Wait ts n (if isUpload then dl_Upload d else dl_Download d)
          in (a, rl(mac \<mapsto> (if isUpload then d\<lparr>dl_Upload := tb\<rparr> else d\<lparr>dl_Download := tb\<rparr>))))"

subsection \<open>Both buckets are token buckets\<close>

lemma unat_add_le: "unat (a + b :: 64 word) \<le> unat a + unat b"
  by (simp add: unat_word_ariths)

lemma unat_mult_le: "unat (a * b :: 64 word) \<le> unat a * unat b"
  by (simp add: unat_word_ariths)

lemma unat_of_int_le: "0 \<le> e \<Longrightarrow> int (unat (of_int e :: 64 word)) \<le> e"
  by (simp add: unsigned_of_int nat_take_bit_eq [symmetric] take_bit_int_less_eq_self_iff)

lemma i64_le: "0 \<le> x \<Longrightarrow> i64 x \<le> x"
proof -
  assume x: "0 \<le> x"
  have "i64 x = take_bit 64 x - (if bit x 63 then 2 ^ 64 else 0)"
    by (simp add: i64_def signed_take_bit_eq_take_bit_minus)
  moreover have "take_bit 64 x \<le> x" using x by (simp add: take_bit_int_less_eq_self_iff)
  ultimately show ?thesis by (simp split: if_splits)
qed

lemma Take_compute_bounds:
  assumes "Take_compute now n cur since tb = (taken, final)" and "since \<le> now"
  shows "int (unat taken) + int (unat final) \<le> int (unat cur) + (now - since) * int (unat (bb_refillRate tb)) div 1000000000"
    and "unat taken + unat final \<le> unat (bb_maxTokens tb)"
proof -
  let ?e = "i64 (now - since)" let ?r = "bb_refillRate tb"
  define add where "add = (if ?e > 0 \<and> ?r > 0 then (of_int ?e * ?r) div 1000000000 else 0 :: 64 word)"
  define new where "new = (if cur + add > bb_maxTokens tb then bb_maxTokens tb else cur + add)"
  have tf: "taken = (if new \<ge> of_int (n * 1000) then of_int (n * 1000) else new)" "final = new - taken"
    using assms(1) by (auto simp: Take_compute_def Let_def add_def new_def)
  then have le: "taken \<le> new" by auto
  have parts: "unat taken + unat final = unat new" using le tf(2) by (simp add: unat_sub word_le_nat_alt)
  have "int (unat add) \<le> (now - since) * int (unat ?r) div 1000000000"
  proof (cases "?e > 0 \<and> ?r > 0")
    case True
    have "unat add = unat (of_int ?e * ?r) div 1000000000" using True by (simp add: add_def unat_div)
    then have "unat add \<le> (unat (of_int ?e :: 64 word) * unat ?r) div 1000000000"
      using unat_mult_le [of "of_int ?e" ?r] by (simp add: div_le_mono)
    then have "int (unat add) \<le> int ((unat (of_int ?e :: 64 word) * unat ?r) div 1000000000)" by (simp only: of_nat_le_iff)
    also have "\<dots> = int (unat (of_int ?e :: 64 word) * unat ?r) div 1000000000" by (simp only: zdiv_int of_nat_numeral)
    also have "\<dots> \<le> ((now - since) * int (unat ?r)) div 1000000000"
    proof (rule zdiv_mono1)
      have "int (unat (of_int ?e :: 64 word)) \<le> now - since"
        using unat_of_int_le [of ?e] i64_le [of "now - since"] True assms(2) by simp
      then show "int (unat (of_int ?e :: 64 word) * unat ?r) \<le> (now - since) * int (unat ?r)"
        unfolding of_nat_mult by (rule mult_right_mono) (rule of_nat_0_le_iff)
    qed simp
    finally show ?thesis .
  next
    case False
    then have "add = 0" by (auto simp: add_def)
    moreover have "0 \<le> (now - since) * int (unat ?r)" by (rule mult_nonneg_nonneg) (use assms(2) in simp_all)
    ultimately show ?thesis by (simp add: pos_imp_zdiv_nonneg_iff del: of_nat_unat)
  qed
  moreover have "unat new \<le> unat cur + unat add"
    using unat_add_le [of cur add] by (auto simp: new_def word_less_nat_alt)
  ultimately show "int (unat taken) + int (unat final) \<le> int (unat cur) + (now - since) * int (unat ?r) div 1000000000"
    using parts by linarith
  have "unat new \<le> unat (bb_maxTokens tb)" by (auto simp: new_def word_less_nat_alt not_less)
  then show "unat taken + unat final \<le> unat (bb_maxTokens tb)" using parts by simp
qed

lemma Take_eq:
  assumes "Take_compute now n (bb_tokens tb) (bb_lastRefill tb) tb = (taken, final)"
  shows "Take now n tb = (int (unat taken div 1000), tb\<lparr>bb_tokens := final, bb_lastRefill := now\<rparr>)"
  using assms by (simp add: Take_def Take_swap_def Take_store_def unat_div)

lemma scaled_div_bound:
  fixes g t f c q :: int
  assumes "g * 1000 \<le> t" and "t + f \<le> c + q div 1000000000"
  shows "(g * 1000 + f) * 1000000000 \<le> c * 1000000000 + q"
proof -
  have "q div 1000000000 * 1000000000 \<le> q" by (simp add: minus_mod_eq_div_mult [symmetric])
  moreover have "(g * 1000 + f) * 1000000000 \<le> (c + q div 1000000000) * 1000000000"
    using assms by (intro mult_right_mono) simp_all
  ultimately show ?thesis by (simp only: distrib_right)
qed

interpretation bwb: token_bucket "\<lambda>_. True" "\<lambda>tb. of_nat (unat (bb_tokens tb)) / 1000"
  "\<lambda>tb. of_nat (unat (bb_refillRate tb)) / 1000 / 1000000000" bb_lastRefill Take
proof unfold_locales
  fix s :: bw_bucket and now n :: int
  assume t: "bb_lastRefill s \<le> now"
  obtain taken final where c: "Take_compute now n (bb_tokens s) (bb_lastRefill s) s = (taken, final)" by fastforce
  note eq = Take_eq [OF c] and b = Take_compute_bounds [OF c t]
  show "True \<and> of_nat (unat (bb_refillRate (snd (Take now n s)))) / 1000 / 1000000000 =
      (of_nat (unat (bb_refillRate s)) / 1000 / 1000000000 :: rat) \<and> bb_lastRefill (snd (Take now n s)) = now"
    by (simp add: eq)
  define d r g f c where "d = now - bb_lastRefill s" and "r = unat (bb_refillRate s)" and "g = unat taken div 1000"
    and "f = unat final" and "c = unat (bb_tokens s)"
  have "int g * 1000 \<le> int (unat taken)" by (simp add: g_def del: of_nat_unat)
  moreover have "int (unat taken) + int f \<le> int c + d * int r div 1000000000" using b(1) by (simp only: d_def r_def f_def c_def)
  ultimately have "(int g * 1000 + int f) * 1000000000 \<le> int c * 1000000000 + d * int r" by (rule scaled_div_bound)
  then have "of_int ((int g * 1000 + int f) * 1000000000) \<le> (of_int (int c * 1000000000 + d * int r) :: rat)"
    by (simp only: of_int_le_iff)
  then have "of_int (int g) + of_nat f / 1000 \<le> of_nat c / 1000 + (of_nat r / 1000 / 1000000000 :: rat) * of_int d"
    by (simp add: field_simps)
  then show "of_int (fst (Take now n s)) + of_nat (unat (bb_tokens (snd (Take now n s)))) / 1000 \<le>
      of_nat (unat (bb_tokens s)) / 1000 + (of_nat (unat (bb_refillRate s)) / 1000 / 1000000000 :: rat) * of_int (now - bb_lastRefill s)"
    by (simp add: eq d_def r_def g_def f_def c_def del: of_nat_unat)
qed (simp_all del: of_nat_unat)

definition tb_ok :: "rl_bucket \<Rightarrow> bool" where
  "tb_ok tb \<longleftrightarrow> 0 \<le> tb_tokens tb \<and> 0 \<le> tb_refillRate tb \<and> 0 \<le> tb_maxTokens tb"

definition tb_take :: "instant \<Rightarrow> int \<Rightarrow> rl_bucket \<Rightarrow> int \<times> rl_bucket" where
  "tb_take now n tb = (case tb_Allow now n tb of (a, tb1) \<Rightarrow> (if a then n else 0, tb1))"

interpretation rlb: token_bucket tb_ok tb_tokens "\<lambda>tb. tb_refillRate tb / of_int second" tb_lastRefill tb_take
proof unfold_locales
  fix s :: rl_bucket and now n :: int
  assume ok: "tb_ok s" and t: "tb_lastRefill s \<le> now" and n: "0 \<le> n"
  have "0 \<le> of_int (now - tb_lastRefill s) / (of_int second :: rat)" using t by (simp add: second_def)
  then have add: "0 \<le> of_int (now - tb_lastRefill s) / of_int second * tb_refillRate s"
    by (rule mult_nonneg_nonneg) (use ok in \<open>simp add: tb_ok_def\<close>)
  show "tb_ok (snd (tb_take now n s)) \<and> tb_refillRate (snd (tb_take now n s)) / of_int second = tb_refillRate s / of_int second \<and>
      tb_lastRefill (snd (tb_take now n s)) = now"
    using ok add by (auto simp: tb_take_def tb_Allow_def tb_ok_def Let_def)
  show "of_int (fst (tb_take now n s)) + tb_tokens (snd (tb_take now n s)) \<le>
      tb_tokens s + tb_refillRate s / of_int second * of_int (now - tb_lastRefill s)"
    by (auto simp: tb_take_def tb_Allow_def Let_def mult.commute)
qed (auto simp: tb_ok_def second_def)

subsection \<open>Properties\<close>

text \<open>C28. Whatever is requested, and although the refill wraps, a bandwidth bucket that is used by one goroutine at a time
  grants in any stretch of time at most the tokens it held and the rate times the time.\<close>

theorem bandwidth_bound:
  assumes "in_time (bb_lastRefill tb) rs" and "serve Take rs tb = (n, tb1)"
  shows "(of_int n :: rat) \<le> of_nat (unat (bb_tokens tb)) / 1000 +
    of_nat (unat (bb_refillRate tb)) / 1000 / 1000000000 * of_int (end_time (bb_lastRefill tb) rs - bb_lastRefill tb)"
  using bwb.serve_bound [OF _ assms] by simp

theorem bandwidth_bound_witness:
  "(of_int (fst (serve Take [(1000000000, 500), (2000000000, 9000)] (bw_NewTokenBucket 1000 1 0))) :: rat) \<le>
     of_nat (unat (bb_tokens (bw_NewTokenBucket 1000 1 0))) / 1000 +
     of_nat (unat (bb_refillRate (bw_NewTokenBucket 1000 1 0))) / 1000 / 1000000000 *
     of_int (end_time (bb_lastRefill (bw_NewTokenBucket 1000 1 0)) [(1000000000, 500), (2000000000, 9000)] -
       bb_lastRefill (bw_NewTokenBucket 1000 1 0))"
  by (rule bandwidth_bound [OF _ surjective_pairing]) (simp add: bw_NewTokenBucket_def)

text \<open>The packet rate limiter keeps the same bound.\<close>

theorem packet_rate_bound:
  assumes "tb_ok tb" and "in_time (tb_lastRefill tb) rs" and "serve tb_take rs tb = (n, tb1)"
  shows "of_int n \<le> tb_tokens tb +
    tb_refillRate tb / of_int second * of_int (end_time (tb_lastRefill tb) rs - tb_lastRefill tb)"
  by (rule rlb.serve_bound [OF assms])

theorem packet_rate_bound_witness:
  "of_int (fst (serve tb_take [(0, 5), (second, 5)] (rl_NewTokenBucket 5 2 0))) \<le> tb_tokens (rl_NewTokenBucket 5 2 0) +
    tb_refillRate (rl_NewTokenBucket 5 2 0) / of_int second *
    of_int (end_time (tb_lastRefill (rl_NewTokenBucket 5 2 0)) [(0, 5), (second, 5)] - tb_lastRefill (rl_NewTokenBucket 5 2 0))"
  by (rule packet_rate_bound [OF _ _ surjective_pairing]) (simp_all add: tb_ok_def rl_NewTokenBucket_def second_def)

text \<open>Two goroutines can spend one refill twice: the second loads the instant of the last refill before the first has
  stored its own.  After one second of an empty bucket both get a full second's worth.\<close>

theorem take_race_exceeds_limit:
  assumes "bb_tokens tb = 0" and "bb_maxTokens tb = 1000 * 1000" and "bb_refillRate tb = 1000 * 1000"
    and "now = bb_lastRefill tb + second"
    and a: "Take_compute now 1000 (bb_tokens tb) (bb_lastRefill tb) tb = (x, fx)" "Take_swap (bb_tokens tb) fx tb = Some tb1"
    and b: "Take_compute now 1000 (bb_tokens tb1) (bb_lastRefill tb1) tb1 = (y, fy)" "Take_swap (bb_tokens tb1) fy tb1 = Some tb2"
  shows "unat (x div 1000) + unat (y div 1000) = 2000"
proof -
  have e: "i64 (now - bb_lastRefill tb) = 1000000000" using assms(4) by (simp add: second_def)
  have x: "x = 1000000" "fx = 0" using assms(1-3) a(1) e by (simp_all add: Take_compute_def Let_def)
  have "bb_tokens tb1 = 0" "bb_lastRefill tb1 = bb_lastRefill tb" "bb_maxTokens tb1 = bb_maxTokens tb" "bb_refillRate tb1 = bb_refillRate tb"
    using a(2) x(2) by (auto simp: Take_swap_def split: if_splits)
  then have "y = 1000000" using assms(2,3) b(1) e by (simp add: Take_compute_def Let_def)
  then show ?thesis using x by simp
qed

definition empty_bucket :: bw_bucket where
  "empty_bucket = \<lparr>bb_tokens = 0, bb_maxTokens = 1000000, bb_refillRate = 1000000, bb_lastRefill = 0\<rparr>"

theorem take_race_exceeds_limit_witness:
  "unat ((1000000 :: 64 word) div 1000) + unat ((1000000 :: 64 word) div 1000) = 2000"
  by (rule take_race_exceeds_limit [of empty_bucket second _ 0 empty_bucket _ 0 empty_bucket])
    (simp_all add: empty_bucket_def Take_compute_def Take_swap_def Let_def second_def)

text \<open>A write that is larger than the burst never gets its tokens: each attempt takes what there is, at most the
  capacity, and starts again.\<close>

theorem write_above_burst_never_completes:
  assumes "unat (bb_maxTokens tb) < 1000 * n" and "list_all (\<lambda>t. bb_lastRefill tb \<le> t) ts" and "sorted ts"
  shows "fst (bw_Wait ts (int n) tb) \<noteq> WaitOk"
  using assms
proof (induction ts arbitrary: tb)
  case (Cons t ts)
  obtain taken final where c: "Take_compute t (int n) (bb_tokens tb) (bb_lastRefill tb) tb = (taken, final)" by fastforce
  have "unat taken \<le> unat (bb_maxTokens tb)" using Take_compute_bounds(2) [OF c] Cons.prems(2) by simp
  then have "unat taken div 1000 < n" using Cons.prems(1) by (simp add: less_mult_imp_div_less mult.commute)
  moreover have "fst (bw_Wait ts (int n) (tb\<lparr>bb_tokens := final, bb_lastRefill := t\<rparr>)) \<noteq> WaitOk"
    using Cons.prems by (intro Cons.IH) (auto simp: list_all_iff)
  ultimately show ?case using Take_eq [OF c] by (auto split: option.splits)
qed simp

theorem write_above_burst_never_completes_witness:
  "fst (bw_Wait [0, second, 5 * second] (int 2000) (bw_NewTokenBucket 1000 1 0)) \<noteq> WaitOk"
  by (rule write_above_burst_never_completes) (simp_all add: bw_NewTokenBucket_def second_def)

text \<open>C38. A client without a limit of its own, when some rule exists and there is no default, gets a bucket of rate zero:
  its first write divides by zero.\<close>

theorem unlimited_client_write_panics:
  assumes "bl_rules bl \<noteq> []" and "getLimitForClient mac ip bl = 0" and "bl_clientBuckets bl (if mac = [] then ip else mac) = None"
    and "LimitConn now mac ip bl = (r, bl1)" and "0 < n" and "now \<le> t"
  shows "\<exists>b. r = Some b \<and>
    fst (lc_Write (t # ts) n m \<lparr>lc_readBucket = cb_read b, lc_writeBucket = cb_write b, lc_readBytes = 0, lc_writeBytes = 0,
      lc_droppedRead = 0\<rparr>) = WritePanic"
proof -
  let ?tb = "\<lparr>bb_tokens = 0, bb_maxTokens = 0, bb_refillRate = 0, bb_lastRefill = now\<rparr>"
  have "bw_NewTokenBucket 0 x now = ?tb" for x by (simp add: bw_NewTokenBucket_def Let_def)
  then have r: "r = Some \<lparr>cb_read = ?tb, cb_write = ?tb\<rparr>"
    using assms(1-4) by (auto simp: LimitConn_def getOrCreateBuckets_def Let_def split: if_splits prod.splits)
  obtain taken final where c: "Take_compute t (int n) 0 now ?tb = (taken, final)" by fastforce
  have "taken = 0" using Take_compute_bounds(2) [OF c assms(6)] by (simp add: unat_eq_0)
  then have "bw_Wait (t # ts) (int n) ?tb = (WaitPanic, ?tb\<lparr>bb_tokens := final, bb_lastRefill := t\<rparr>)"
    using Take_eq [of t "int n" ?tb taken final] c assms(5) by (simp add: wait_time_def)
  then show ?thesis using r assms(5) by (auto simp: lc_Write_def simp del: bw_Wait.simps)
qed

definition one_rule :: bandwidth_limiter where
  "one_rule = \<lparr>bl_defaultLimit = 0, bl_rules = [\<lparr>rr_MAC = ''AA'', rr_IP = [], rr_Limit = ''8''\<rparr>], bl_clientBuckets = Map.empty, bl_burstSeconds = 1\<rparr>"

theorem unlimited_client_write_panics_witness:
  "\<exists>b. fst (LimitConn 0 ''BB'' [] one_rule) = Some b \<and>
    fst (lc_Write [1] 10 10 \<lparr>lc_readBucket = cb_read b, lc_writeBucket = cb_write b, lc_readBytes = 0, lc_writeBytes = 0,
      lc_droppedRead = 0\<rparr>) = WritePanic"
  by (rule unlimited_client_write_panics [OF _ _ _ surjective_pairing])
    (simp_all add: one_rule_def getLimitForClient_def bw_normalizeMAC_def RemoveAll_def ToUpper_def upper_char_def code_def)

end
