(* ===== verification/DnsProxy.thy ===== *)
theory DnsProxy
  imports TtlCache GoStrings
begin

text \<open>
  The DNS proxy (\<^verbatim>\<open>proxy/dns.go\<close>) and its cache (\<^verbatim>\<open>proxy/dns_cache.go\<close>).  A message is what the code reads and writes
  of a \<^verbatim>\<open>dns.Msg\<close>.  The exchange with a server by each kind of client, the state of the context, the names
  of types and classes and the success of a client's construction are parameters.  A query is answered by one
  goroutine; the end of its context may win the final \<open>select\<close>, which is the argument \<open>timedOut\<close>.
\<close>

subsection \<open>Messages\<close>

record dns_rr =
  rr_Ttl :: "32 word"
  rr_data :: "nat list"

record dns_msg =
  dm_Id :: "16 word"
  dm_Rcode :: nat
  dm_Question :: "(string \<times> 16 word \<times> 16 word) list"
  dm_Answer :: "dns_rr list"
  dm_Ns :: "dns_rr list"

definition getCacheKey :: "(16 word \<Rightarrow> string) \<Rightarrow> (16 word \<Rightarrow> string) \<Rightarrow> dns_msg \<Rightarrow> string" where
  "getCacheKey typeToString classToString msg =
     (case dm_Question msg of
        [] \<Rightarrow> []
      | (name, qtype, qclass) # _ \<Rightarrow> name @ '':'' @ typeToString qtype @ '':'' @ classToString qclass)"

fun min_ttl :: "32 word \<Rightarrow> dns_rr list \<Rightarrow> 32 word" where
  "min_ttl m [] = m"
| "min_ttl m (rr # rrs) = min_ttl (if rr_Ttl rr < m then rr_Ttl rr else m) rrs"

definition getTTL :: "dns_msg \<Rightarrow> duration" where
  "getTTL msg =
     (let m1 = min_ttl (min_ttl 3600 (dm_Answer msg)) (dm_Ns msg);
          m2 = (if dm_Answer msg = [] \<and> dm_Ns msg = [] then 300 else m1);
          m3 = (if m2 < 60 then 60 else m2);
          m4 = (if m3 > 3600 then 3600 else m3)
      in int (unat m4) * second)"

subsection \<open>The cache\<close>

record dns_cache =
  dc_entries :: "string \<rightharpoonup> (dns_msg \<times> instant)"
  dc_maxSize :: int
  dc_size :: int
  dc_hits :: "64 word"
  dc_misses :: "64 word"

definition newDNSCache :: "int \<Rightarrow> dns_cache" where
  "newDNSCache maxSize = \<lparr>dc_entries = Map.empty, dc_maxSize = i32 maxSize, dc_size = 0, dc_hits = 0, dc_misses = 0\<rparr>"

definition dc_get :: "instant \<Rightarrow> string \<Rightarrow> dns_cache \<Rightarrow> dns_msg option \<times> dns_cache" where
  "dc_get now key c =
     (case dc_entries c key of
        None \<Rightarrow> (None, c\<lparr>dc_misses := dc_misses c + 1\<rparr>)
      | Some (response, expiresAt) \<Rightarrow>
          if now > expiresAt then
            (None, c\<lparr>dc_entries := (dc_entries c)(key := None), dc_size := i32 (dc_size c - 1), dc_misses := dc_misses c + 1\<rparr>)
          else (Some response, c\<lparr>dc_hits := dc_hits c + 1\<rparr>))"

text \<open>\<open>ord\<close> is the order in which the range visits the keys.\<close>

definition dc_evict :: "string list \<Rightarrow> dns_cache \<Rightarrow> dns_cache" where
  "dc_evict ord c =
     (let gone = take (nat (go_div (dc_maxSize c) 4)) ord
      in c\<lparr>dc_entries := del_keys (dc_entries c) gone, dc_size := i32 (dc_size c - int (length gone))\<rparr>)"

definition dc_set :: "string list \<Rightarrow> instant \<Rightarrow> string \<Rightarrow> dns_msg \<Rightarrow> duration \<Rightarrow> dns_cache \<Rightarrow> dns_cache" where
  "dc_set ord now key response ttl c =
     (let c1 = (if dc_size c \<ge> dc_maxSize c then dc_evict ord c else c)
      in c1\<lparr>dc_entries := (dc_entries c1)(key \<mapsto> (response, now + ttl)), dc_size := i32 (dc_size c1 + 1)\<rparr>)"

definition dc_cleanup :: "string list \<Rightarrow> instant \<Rightarrow> dns_cache \<Rightarrow> dns_cache" where
  "dc_cleanup ord now c =
     (let gone = filter (\<lambda>k. case dc_entries c k of Some (_, e) \<Rightarrow> now > e | None \<Rightarrow> False) ord
      in if gone = [] then c
         else c\<lparr>dc_entries := del_keys (dc_entries c) gone, dc_size := i32 (dc_size c - int (length gone))\<rparr>)"

definition dc_stats :: "dns_cache \<Rightarrow> 64 word \<times> 64 word" where
  "dc_stats c = (dc_hits c, dc_misses c)"

subsection \<open>The servers\<close>

record dns_upstream =
  ds_Type :: string
  ds_Address :: string

record dns_clients =
  cl_servers :: "dns_upstream list"
  cl_doh :: "string set"
  cl_dot :: "string set"
  cl_tcp :: "string set"

text \<open>\<open>NewDNS\<close>: the servers for which a client exists; \<open>ok\<close> says whether the construction of one succeeds.\<close>

definition NewDNS :: "(dns_upstream \<Rightarrow> bool) \<Rightarrow> dns_upstream list \<Rightarrow> dns_clients" where
  "NewDNS ok servers =
     \<lparr>cl_servers = servers,
      cl_doh = set (map ds_Address (filter (\<lambda>s. ds_Type s = ''https'' \<and> ok s) servers)),
      cl_dot = set (map ds_Address (filter (\<lambda>s. ds_Type s = ''tls'' \<and> ok s) servers)),
      cl_tcp = set (map ds_Address (filter (\<lambda>s. ds_Type s = [] \<or> ds_Type s = ''udp'') servers))\<rparr>"

text \<open>What an exchange with an address gives at an attempt, by each kind of client; None is an error.\<close>

record exchange_env =
  xe_done :: "string \<Rightarrow> nat \<Rightarrow> bool"
  xe_local :: "nat \<Rightarrow> dns_msg option"
  xe_doh :: "string \<Rightarrow> nat \<Rightarrow> dns_msg option"
  xe_dot :: "string \<Rightarrow> nat \<Rightarrow> dns_msg option"
  xe_tcp :: "string \<Rightarrow> nat \<Rightarrow> dns_msg option"
  xe_udp :: "string \<Rightarrow> nat \<Rightarrow> dns_msg option"

definition exchange_once :: "exchange_env \<Rightarrow> dns_clients \<Rightarrow> dns_upstream \<Rightarrow> nat \<Rightarrow> dns_msg option" where
  "exchange_once xe d server attempt =
     (let a = ds_Address server
      in if a = ''local'' then xe_local xe attempt
         else if ds_Type server = ''https'' \<and> a \<in> cl_doh d then xe_doh xe a attempt
         else if ds_Type server = ''tls'' \<and> a \<in> cl_dot d then xe_dot xe a attempt
         else if a \<in> cl_tcp d then xe_tcp xe a attempt
         else xe_udp xe a attempt)"

datatype exchange_error = ContextDone | ExchangeFailed | NoServers

datatype exchange_result = ExResponse dns_msg | ExError exchange_error

text \<open>The attempts at one server: a result, or None when the loop goes on to the next server.\<close>

fun server_attempts :: "exchange_env \<Rightarrow> dns_clients \<Rightarrow> dns_upstream \<Rightarrow> nat list \<Rightarrow> exchange_result option" where
  "server_attempts xe d server [] = None"
| "server_attempts xe d server (n # ns) =
     (if xe_done xe (ds_Address server) n then Some (ExError ContextDone)
      else case exchange_once xe d server n of
             Some r \<Rightarrow> Some (ExResponse r)
           | None \<Rightarrow> server_attempts xe d server ns)"

fun exchange_loop :: "exchange_env \<Rightarrow> dns_clients \<Rightarrow> dns_upstream list \<Rightarrow> exchange_error \<Rightarrow> exchange_result" where
  "exchange_loop xe d [] lastErr = ExError lastErr"
| "exchange_loop xe d (s # ss) lastErr =
     (case server_attempts xe d s [0, 1, 2] of Some r \<Rightarrow> r | None \<Rightarrow> exchange_loop xe d ss ExchangeFailed)"

definition asyncExchange :: "exchange_env \<Rightarrow> dns_clients \<Rightarrow> exchange_result" where
  "asyncExchange xe d = exchange_loop xe d (cl_servers d) NoServers"

subsection \<open>A query\<close>

definition server_failure :: dns_msg where
  "server_failure = \<lparr>dm_Id = 0, dm_Rcode = 2, dm_Question = [], dm_Answer = [], dm_Ns = []\<rparr>"

record query_env =
  qe_get :: instant
  qe_set :: instant
  qe_ord :: "string list"
  qe_timedOut :: bool

text \<open>The goroutine of \<open>WriteTo\<close>: the answer it sends and the cache.\<close>

definition WriteTo_query :: "(16 word \<Rightarrow> string) \<Rightarrow> (16 word \<Rightarrow> string) \<Rightarrow> query_env \<Rightarrow> exchange_env \<Rightarrow> dns_clients \<Rightarrow> dns_msg \<Rightarrow> dns_cache
    \<Rightarrow> dns_msg \<times> dns_cache" where
  "WriteTo_query ts cs qe xe d msg c =
     (let key = getCacheKey ts cs msg;
          (cached, c1) = (if key \<noteq> [] then dc_get (qe_get qe) key c else (None, c))
      in case cached of
           Some r \<Rightarrow> (r\<lparr>dm_Id := dm_Id msg\<rparr>, c1)
         | None \<Rightarrow>
             if qe_timedOut qe then (server_failure, c1)
             else case asyncExchange xe d of
                    ExError _ \<Rightarrow> (server_failure, c1)
                  | ExResponse r \<Rightarrow>
                      (r\<lparr>dm_Id := dm_Id msg\<rparr>,
                       if key \<noteq> [] then dc_set (qe_ord qe) (qe_set qe) key r (getTTL r) c1 else c1))"

text \<open>\<open>ReadFrom\<close> after an answer arrived: \<open>pack\<close> is \<open>PackBuffer\<close>, which fills the buffer only when the packed message fits into
  it, and \<open>len\<close> is \<open>Len\<close>.  The result is the length it returns and the buffer.\<close>

definition dns_ReadFrom :: "(dns_msg \<Rightarrow> byte list option) \<Rightarrow> (dns_msg \<Rightarrow> nat) \<Rightarrow> dns_msg \<Rightarrow> byte list \<Rightarrow> (nat \<times> byte list) option" where
  "dns_ReadFrom pack len msg b =
     (case pack msg of
        None \<Rightarrow> None
      | Some p \<Rightarrow> Some (len msg, if length p \<le> length b then p @ drop (length p) b else b))"

subsection \<open>The cache is a cache with expiring entries\<close>

definition dc_store :: "instant \<Rightarrow> string \<Rightarrow> dns_msg \<Rightarrow> dns_cache \<Rightarrow> dns_cache \<Rightarrow> bool" where
  "dc_store t k v c c' \<longleftrightarrow> (\<exists>ord. c' = dc_set ord t k v (getTTL v) c)"

lemma dc_set_entries:
  "dc_entries (dc_set ord t k v ttl c) =
     (if dc_size c \<ge> dc_maxSize c then del_keys (dc_entries c) (take (nat (go_div (dc_maxSize c) 4)) ord) else dc_entries c)
       (k \<mapsto> (v, t + ttl))"
  by (simp add: dc_set_def dc_evict_def Let_def)

interpretation pdns: ttl_cache id dc_entries dc_get dc_store "\<lambda>_ v. getTTL v"
proof unfold_locales
  fix c k s
  show "fst (dc_get c k s) = (case dc_entries s k of None \<Rightarrow> None | Some (v, e) \<Rightarrow> if id c > e then None else Some v)"
    by (auto simp: dc_get_def split: option.split)
next
  fix c k s k' x
  show "dc_entries (snd (dc_get c k s)) k' = Some x \<Longrightarrow> dc_entries s k' = Some x"
    by (auto simp: dc_get_def split: option.splits if_splits)
next
  fix c k s v
  show "fst (dc_get c k s) = Some v \<Longrightarrow> dc_entries (snd (dc_get c k s)) = dc_entries s"
    by (auto simp: dc_get_def split: option.splits if_splits)
next
  fix t k v s s'
  show "dc_store t k v s s' \<Longrightarrow> dc_entries s' k = Some (v, t + getTTL v)"
    by (auto simp: dc_store_def dc_set_entries)
next
  fix t k v s s' k' x
  show "dc_store t k v s s' \<Longrightarrow> k' \<noteq> k \<Longrightarrow> dc_entries s' k' = Some x \<Longrightarrow> dc_entries s k' = Some x"
    by (auto simp: dc_store_def dc_set_entries split: if_splits)
qed

subsection \<open>The size counter\<close>

text \<open>The counter is never below the number of entries; \<open>drift\<close> is by how much it is above.\<close>

abbreviation dc_card :: "dns_cache \<Rightarrow> int" where
  "dc_card c \<equiv> int (card (Map.dom (dc_entries c)))"

definition drift :: "dns_cache \<Rightarrow> int" where
  "drift c = dc_size c - dc_card c"

definition dc_inv :: "dns_cache \<Rightarrow> bool" where
  "dc_inv c \<longleftrightarrow> 4 \<le> dc_maxSize c \<and> dc_maxSize c < 2 ^ 30 \<and> finite (Map.dom (dc_entries c)) \<and> dc_card c \<le> dc_maxSize c \<and>
     dc_size c \<le> dc_maxSize c + 1 \<and> 0 \<le> drift c \<and> drift c \<le> dc_maxSize c"

lemma dc_get_effect:
  assumes "dc_inv c" and "dc_get now k c = (r, c')"
  shows "dc_inv c' \<and> drift c' = drift c \<and> dc_maxSize c' = dc_maxSize c"
proof (cases "dc_entries c' = dc_entries c")
  case True
  then have "dc_size c' = dc_size c \<and> dc_maxSize c' = dc_maxSize c"
    using assms(2) by (auto simp: dc_get_def fun_upd_idem_iff split: option.splits if_splits)
  then show ?thesis using True assms(1) by (simp add: dc_inv_def drift_def)
next
  case False
  then obtain x where x: "dc_entries c k = Some x" "dc_entries c' = (dc_entries c)(k := None)" "dc_size c' = i32 (dc_size c - 1)"
      "dc_maxSize c' = dc_maxSize c"
    using assms(2) by (auto simp: dc_get_def split: option.splits if_splits)
  have fin: "finite (Map.dom (dc_entries c))" using assms(1) by (simp add: dc_inv_def)
  have "0 < card (Map.dom (dc_entries c))" using card_dom_pos [OF fin x(1)] .
  then have "dc_card c' = dc_card c - 1" using x fin by (simp only: x(2) card_dom_del) auto
  moreover have "dc_size c' = dc_size c - 1" using x(3) assms(1) \<open>0 < card _\<close> by (simp add: dc_inv_def drift_def)
  ultimately show ?thesis using assms(1) x(2,4) by (simp add: dc_inv_def drift_def)
qed

lemma dc_del_effect:
  assumes "dc_inv c" and "range_of (dc_entries c) ord" and "set ks \<subseteq> set ord" and "distinct ks"
  defines "c' \<equiv> c\<lparr>dc_entries := del_keys (dc_entries c) ks, dc_size := i32 (dc_size c - int (length ks))\<rparr>"
  shows "dc_inv c' \<and> drift c' = drift c \<and> dc_card c' = dc_card c - int (length ks) \<and> dc_size c' = dc_size c - int (length ks)"
proof -
  have sub: "set ks \<subseteq> Map.dom (dc_entries c)" using assms(2,3) by (simp add: range_of_def)
  have fin: "finite (Map.dom (dc_entries c))" using assms(1) by (simp add: dc_inv_def)
  have le: "length ks \<le> card (Map.dom (dc_entries c))" using card_mono [OF fin sub] distinct_card [OF assms(4)] by simp
  have "dc_card c' = dc_card c - int (length ks)"
    using card_dom_del_keys [OF assms(2) sub assms(4)] le by (simp add: c'_def)
  moreover have "dc_size c' = dc_size c - int (length ks)"
    using assms(1) le by (simp add: c'_def dc_inv_def drift_def)
  ultimately show ?thesis using assms(1) by (simp add: dc_inv_def drift_def c'_def)
qed

lemma quarter: "4 \<le> (m :: int) \<Longrightarrow> 1 \<le> nat (go_div m 4)"
  by simp

lemma dc_evict_effect:
  assumes "dc_inv c" and "range_of (dc_entries c) ord"
  shows "dc_inv (dc_evict ord c) \<and> drift (dc_evict ord c) = drift c \<and> (dc_card c = 0 \<or> dc_card (dc_evict ord c) < dc_card c)"
proof -
  let ?gone = "take (nat (go_div (dc_maxSize c) 4)) ord"
  have "set ?gone \<subseteq> set ord" by (rule set_take_subset)
  moreover have "distinct ?gone" using assms(2) by (simp add: range_of_def)
  ultimately have d: "set ?gone \<subseteq> set ord" "distinct ?gone" by auto
  note e = dc_del_effect [OF assms d]
  have "1 \<le> nat (go_div (dc_maxSize c) 4)" using assms(1) by (intro quarter) (simp add: dc_inv_def)
  then have one: "dc_card c = 0 \<or> 1 \<le> int (length ?gone)" using range_of_card [OF assms(2)] by (cases ord) auto
  have eq: "dc_evict ord c = c\<lparr>dc_entries := del_keys (dc_entries c) ?gone, dc_size := i32 (dc_size c - int (length ?gone))\<rparr>"
    by (simp only: dc_evict_def Let_def)
  from e [folded eq] one show ?thesis by linarith
qed

lemma dc_insert_effect:
  fixes k x
  assumes "dc_inv c" and "dc_card c < dc_maxSize c" and "dc_size c \<le> dc_maxSize c"
  defines "c' \<equiv> c\<lparr>dc_entries := (dc_entries c)(k \<mapsto> x), dc_size := i32 (dc_size c + 1)\<rparr>"
  shows "dc_inv c' \<and> drift c' = (if dc_entries c k = None then drift c else drift c + 1)"
proof -
  have fin: "finite (Map.dom (dc_entries c))" using assms(1) by (simp add: dc_inv_def)
  have card: "dc_card c' = (if dc_entries c k = None then dc_card c + 1 else dc_card c)"
    using card_dom_upd [OF fin, of k x] by (simp add: c'_def)
  have "dc_size c' = dc_size c + 1" using assms(1,3) by (simp add: c'_def dc_inv_def drift_def)
  moreover have "dc_entries c k \<noteq> None \<Longrightarrow> 1 \<le> dc_card c" using card_dom_pos [OF fin] by fastforce
  ultimately show ?thesis using assms card fin by (auto simp: dc_inv_def drift_def)
qed

lemma dc_set_effect:
  assumes "dc_inv c" and "range_of (dc_entries c) ord"
  shows "dc_inv (dc_set ord now k r ttl c) \<and> drift c \<le> drift (dc_set ord now k r ttl c)"
proof -
  define c1 where "c1 = (if dc_size c \<ge> dc_maxSize c then dc_evict ord c else c)"
  have c1: "dc_inv c1" "drift c1 = drift c" using assms dc_evict_effect by (auto simp: c1_def)
  have max: "dc_maxSize c1 = dc_maxSize c" by (simp add: c1_def dc_evict_def Let_def)
  have room: "dc_card c1 < dc_maxSize c1 \<and> dc_size c1 \<le> dc_maxSize c1"
  proof (cases "dc_size c \<ge> dc_maxSize c")
    case True
    then have "dc_card c = 0 \<or> dc_card c1 < dc_card c" using dc_evict_effect [OF assms] by (simp add: c1_def)
    moreover have "dc_card c = 0 \<Longrightarrow> dc_card c1 = 0"
      using True assms by (auto simp: c1_def dc_evict_def Let_def dc_inv_def range_of_def)
    ultimately show ?thesis using c1 assms(1) max by (auto simp: dc_inv_def drift_def)
  next
    case False
    then show ?thesis using assms(1) by (auto simp: c1_def dc_inv_def drift_def)
  qed
  have "dc_set ord now k r ttl c = c1\<lparr>dc_entries := (dc_entries c1)(k \<mapsto> (r, now + ttl)), dc_size := i32 (dc_size c1 + 1)\<rparr>"
    by (simp add: dc_set_def c1_def Let_def)
  then show ?thesis using dc_insert_effect [OF c1(1), of k "(r, now + ttl)"] room c1(2) by auto
qed

lemma dc_cleanup_effect:
  assumes "dc_inv c" and "range_of (dc_entries c) ord"
  shows "dc_inv (dc_cleanup ord now c) \<and> drift (dc_cleanup ord now c) = drift c"
proof -
  define g where "g = filter (\<lambda>k. case dc_entries c k of Some (_, e) \<Rightarrow> now > e | None \<Rightarrow> False) ord"
  have "set g \<subseteq> set ord" "distinct g" using assms(2) by (auto simp: range_of_def g_def)
  note e = dc_del_effect [OF assms this]
  have "dc_cleanup ord now c =
      (if g = [] then c else c\<lparr>dc_entries := del_keys (dc_entries c) g, dc_size := i32 (dc_size c - int (length g))\<rparr>)"
    by (simp add: dc_cleanup_def Let_def g_def)
  then show ?thesis using e assms(1) by presburger
qed

inductive dc_step :: "dns_cache \<Rightarrow> dns_cache \<Rightarrow> bool" where
  get: "dc_step c (snd (dc_get now k c))"
| set: "range_of (dc_entries c) ord \<Longrightarrow> dc_step c (dc_set ord now k r ttl c)"
| cleanup: "range_of (dc_entries c) ord \<Longrightarrow> dc_step c (dc_cleanup ord now c)"

lemma dc_step_effect:
  assumes "dc_step c c'" and "dc_inv c"
  shows "dc_inv c' \<and> drift c \<le> drift c' \<and> dc_maxSize c' = dc_maxSize c"
  using assms
proof (cases rule: dc_step.cases)
  case (get now k)
  then show ?thesis using dc_get_effect [OF assms(2), of now k] by (metis prod.collapse order_refl)
next
  case (set ord now k r ttl)
  then show ?thesis using dc_set_effect [OF assms(2) set(2)] by (simp add: dc_set_def dc_evict_def Let_def)
next
  case (cleanup ord now)
  then show ?thesis using dc_cleanup_effect [OF assms(2) cleanup(2)] by (simp add: dc_cleanup_def Let_def)
qed

lemma newDNSCache_inv: "4 \<le> m \<Longrightarrow> m < 2 ^ 30 \<Longrightarrow> dc_inv (newDNSCache m) \<and> dc_maxSize (newDNSCache m) = m"
  by (simp add: dc_inv_def newDNSCache_def drift_def)

interpretation pdcache: invariant_system "\<lambda>c. \<exists>m. 4 \<le> m \<and> m < 2 ^ 30 \<and> c = newDNSCache m" dc_step dc_inv
proof unfold_locales
  show "dc_inv c" if "\<exists>m. 4 \<le> m \<and> m < 2 ^ 30 \<and> c = newDNSCache m" for c
    using that newDNSCache_inv by blast
  show "dc_inv c'" if "dc_inv c" and "dc_step c c'" for c c' using dc_step_effect that by blast
qed

lemma dc_run_effect: "dc_step\<^sup>*\<^sup>* c c' \<Longrightarrow> dc_inv c \<Longrightarrow> dc_inv c' \<and> drift c \<le> drift c' \<and> dc_maxSize c' = dc_maxSize c"
proof (induction rule: rtranclp_induct)
  case (step y z)
  then show ?case using dc_step_effect [of y z] by auto
qed simp

subsection \<open>Properties\<close>

text \<open>In every sequence of lookups, stores and cleanups the cache holds at most its configured number of responses, although
  its size counter can exceed that.\<close>

theorem dns_proxy_cache_bounded:
  assumes "4 \<le> m" and "m < 2 ^ 30" and "dc_step\<^sup>*\<^sup>* (newDNSCache m) c"
  shows "finite (Map.dom (dc_entries c)) \<and> int (card (Map.dom (dc_entries c))) \<le> m"
proof -
  have "dc_inv c" using pdcache.run_inv [OF _ assms(3)] assms(1,2) by blast
  moreover have "dc_maxSize c = m"
    using dc_run_effect [OF assms(3)] newDNSCache_inv [OF assms(1,2)] by simp
  ultimately show ?thesis by (simp add: dc_inv_def)
qed

definition dns_example_msg :: dns_msg where
  "dns_example_msg = \<lparr>dm_Id = 7, dm_Rcode = 0, dm_Question = [(''a.'', 1, 1)], dm_Answer = [\<lparr>rr_Ttl = 30, rr_data = [1]\<rparr>], dm_Ns = []\<rparr>"

definition dns_example_cache :: dns_cache where
  "dns_example_cache = dc_set [] 0 ''a.:A:IN'' dns_example_msg (60 * second) (newDNSCache 1000)"

lemma dns_example_run: "dc_step\<^sup>*\<^sup>* (newDNSCache 1000) dns_example_cache"
  unfolding dns_example_cache_def by (intro r_into_rtranclp dc_step.set) (simp add: newDNSCache_def)

theorem dns_proxy_cache_bounded_witness:
  "finite (Map.dom (dc_entries dns_example_cache)) \<and> int (card (Map.dom (dc_entries dns_example_cache))) \<le> 1000"
  by (rule dns_proxy_cache_bounded [OF _ _ dns_example_run]) simp_all

text \<open>Storing a response under a key that is cached already, which two clients that ask the same at once bring about, counts
  the entry twice, and nothing ever corrects the counter: the cache has lost a place for good.\<close>

theorem overwrite_loses_a_place:
  assumes "4 \<le> m" and "m < 2 ^ 30" and "dc_step\<^sup>*\<^sup>* (newDNSCache m) c" and "dc_entries c k \<noteq> None" and "dc_size c < m"
    and "dc_set ord now k r ttl c = c1" and "dc_step\<^sup>*\<^sup>* c1 c2"
  shows "int (card (Map.dom (dc_entries c2))) \<le> m - (dc_size c - int (card (Map.dom (dc_entries c))))"
proof -
  note init = newDNSCache_inv [OF assms(1,2)]
  have i: "dc_inv c" and max: "dc_maxSize c = m"
    using dc_run_effect [OF assms(3)] init by auto
  have c1: "c1 = c\<lparr>dc_entries := (dc_entries c)(k \<mapsto> (r, now + ttl)), dc_size := i32 (dc_size c + 1)\<rparr>"
    using assms(5,6) max by (simp add: dc_set_def)
  have "dc_card c < dc_maxSize c" using i assms(5) max by (simp add: dc_inv_def drift_def)
  then have "dc_inv c1 \<and> drift c1 = drift c + 1"
    using dc_insert_effect [OF i, of k "(r, now + ttl)"] assms(4,5) max c1 by simp
  then have "dc_inv c2 \<and> drift c + 1 \<le> drift c2 \<and> dc_maxSize c2 = m"
    using dc_run_effect [OF assms(7)] c1 max by auto
  then show ?thesis by (simp add: dc_inv_def drift_def)
qed

theorem overwrite_loses_a_place_witness:
  "int (card (Map.dom (dc_entries (dc_set [] 1 ''a.:A:IN'' dns_example_msg (60 * second) dns_example_cache)))) \<le>
     1000 - (dc_size dns_example_cache - int (card (Map.dom (dc_entries dns_example_cache))))"
  by (rule overwrite_loses_a_place [OF _ _ dns_example_run _ _ refl rtranclp.rtrancl_refl])
    (simp_all add: dns_example_cache_def dc_set_def newDNSCache_def)

lemma unat_min_ttl: "unat (min_ttl m rrs) = fold min (map (\<lambda>rr. unat (rr_Ttl rr)) rrs) (unat m)"
  by (induction rrs arbitrary: m) (simp_all add: min_def word_less_nat_alt)

text \<open>The lifetime of a response is the least TTL of its records, kept between a minute and an hour; without records it is
  five minutes.\<close>

theorem dns_lifetime_clamped:
  "getTTL msg = second * (if dm_Answer msg @ dm_Ns msg = [] then 300
     else int (max 60 (Min (set (3600 # map (\<lambda>rr. unat (rr_Ttl rr)) (dm_Answer msg @ dm_Ns msg))))))"
proof -
  let ?ts = "map (\<lambda>rr. unat (rr_Ttl rr)) (dm_Answer msg @ dm_Ns msg)"
  define m where "m = min_ttl (min_ttl 3600 (dm_Answer msg)) (dm_Ns msg)"
  have m: "unat m = Min (set (3600 # ?ts))"
    unfolding Min.set_eq_fold by (simp add: m_def unat_min_ttl)
  then have "unat m \<le> 3600" by simp
  then have "getTTL msg = second * (if dm_Answer msg @ dm_Ns msg = [] then 300 else int (max 60 (unat m)))"
    by (auto simp: getTTL_def m_def [symmetric] Let_def max_def word_less_nat_alt word_le_nat_alt)
  then show ?thesis unfolding m .
qed

text \<open>A response that was fetched for a query answers the next query for the same key out of the cache, with that query's
  own id, until its lifetime is over, whatever the servers would say.\<close>

theorem fetched_response_is_reused:
  assumes "getCacheKey ts cs q1 = key" and "getCacheKey ts cs q2 = key" and "key \<noteq> []" and "dc_entries c key = None"
    and "\<not> qe_timedOut e1" and "asyncExchange x1 d = ExResponse r" and "qe_get e2 \<le> qe_set e1 + getTTL r"
    and "WriteTo_query ts cs e1 x1 d q1 c = (a1, c1)"
  shows "a1 = r\<lparr>dm_Id := dm_Id q1\<rparr> \<and> fst (WriteTo_query ts cs e2 x2 d2 q2 c1) = r\<lparr>dm_Id := dm_Id q2\<rparr>"
proof -
  have w: "a1 = r\<lparr>dm_Id := dm_Id q1\<rparr>" "c1 = dc_set (qe_ord e1) (qe_set e1) key r (getTTL r) (c\<lparr>dc_misses := dc_misses c + 1\<rparr>)"
    using assms(1,3-6,8) by (auto simp: WriteTo_query_def dc_get_def Let_def)
  then have "dc_store (qe_set e1) key r (c\<lparr>dc_misses := dc_misses c + 1\<rparr>) c1" by (auto simp: dc_store_def)
  from pdns.lookup_after_store [OF this, of "qe_get e2"] have "fst (dc_get (qe_get e2) key c1) = Some r" using assms(7) by simp
  then have "fst (WriteTo_query ts cs e2 x2 d2 q2 c1) = r\<lparr>dm_Id := dm_Id q2\<rparr>"
    using assms(2,3) by (cases "dc_get (qe_get e2) key c1") (simp add: WriteTo_query_def Let_def)
  then show ?thesis using w by simp
qed

definition dns_example_names :: "16 word \<Rightarrow> string" where
  "dns_example_names n = (if n = 1 then ''A'' else ''X'')"

definition dns_example_exchange :: exchange_env where
  "dns_example_exchange = \<lparr>xe_done = (\<lambda>_ _. False), xe_local = (\<lambda>_. None), xe_doh = (\<lambda>_ _. None), xe_dot = (\<lambda>_ _. None),
     xe_tcp = (\<lambda>_ _. Some dns_example_msg), xe_udp = (\<lambda>_ _. None)\<rparr>"

definition dns_example_servers :: "dns_upstream list" where
  "dns_example_servers = [\<lparr>ds_Type = [], ds_Address = ''8.8.8.8:53''\<rparr>]"

theorem fetched_response_is_reused_witness:
  "fst (WriteTo_query dns_example_names dns_example_names \<lparr>qe_get = 5, qe_set = 5, qe_ord = [], qe_timedOut = True\<rparr> dns_example_exchange
      (NewDNS (\<lambda>_. True) []) (dns_example_msg\<lparr>dm_Id := 9\<rparr>)
      (snd (WriteTo_query dns_example_names dns_example_names \<lparr>qe_get = 0, qe_set = 1, qe_ord = [], qe_timedOut = False\<rparr> dns_example_exchange
         (NewDNS (\<lambda>_. True) dns_example_servers) dns_example_msg (newDNSCache 1000)))) = dns_example_msg\<lparr>dm_Id := 9\<rparr>"
proof -
  let ?e1 = "\<lparr>qe_get = 0, qe_set = 1, qe_ord = [], qe_timedOut = False\<rparr>" let ?e2 = "\<lparr>qe_get = 5, qe_set = 5, qe_ord = [], qe_timedOut = True\<rparr>"
  have "asyncExchange dns_example_exchange (NewDNS (\<lambda>_. True) dns_example_servers) = ExResponse dns_example_msg"
    by (simp add: asyncExchange_def NewDNS_def dns_example_servers_def exchange_once_def dns_example_exchange_def)
  moreover have "(5 :: int) \<le> 1 + getTTL dns_example_msg" by (simp add: dns_example_msg_def getTTL_def second_def)
  ultimately show ?thesis
    using fetched_response_is_reused [where ?q1.0 = dns_example_msg and ?q2.0 = "dns_example_msg\<lparr>dm_Id := 9\<rparr>" and key = "''a.:A:A''"
        and c = "newDNSCache 1000" and ?e1.0 = ?e1 and ?e2.0 = ?e2 and r = dns_example_msg and ?x1.0 = dns_example_exchange
        and d = "NewDNS (\<lambda>_. True) dns_example_servers" and ts = dns_example_names and cs = dns_example_names,
        OF _ _ _ _ _ _ _ surjective_pairing, of dns_example_exchange "NewDNS (\<lambda>_. True) []"]
    by (simp add: getCacheKey_def dns_example_msg_def dns_example_names_def newDNSCache_def)
qed

text \<open>When no server answers, the client is sent a message whose id is zero and which repeats no question, whatever it
  asked: it cannot match the answer to its query.\<close>

theorem failed_query_answer_unmatched:
  assumes "fst (dc_get (qe_get e) (getCacheKey ts cs q) c) = None" and "asyncExchange x d = ExError err \<or> qe_timedOut e"
  shows "dm_Id (fst (WriteTo_query ts cs e x d q c)) = 0 \<and> dm_Question (fst (WriteTo_query ts cs e x d q c)) = []"
  using assms by (auto simp: WriteTo_query_def Let_def server_failure_def split: prod.splits exchange_result.splits)

theorem failed_query_answer_unmatched_witness:
  "dm_Id (fst (WriteTo_query dns_example_names dns_example_names \<lparr>qe_get = 0, qe_set = 0, qe_ord = [], qe_timedOut = False\<rparr> dns_example_exchange
      (NewDNS (\<lambda>_. True) []) dns_example_msg (newDNSCache 1000))) = 0"
  using failed_query_answer_unmatched [of "\<lparr>qe_get = 0, qe_set = 0, qe_ord = [], qe_timedOut = False\<rparr>" dns_example_names dns_example_names dns_example_msg
      "newDNSCache 1000" dns_example_exchange "NewDNS (\<lambda>_. True) []" NoServers]
  by (simp add: dc_get_def newDNSCache_def asyncExchange_def NewDNS_def)

text \<open>A plain server is never asked over UDP: its TCP pool exists, and a failed exchange over it starts the next attempt.\<close>

theorem plain_servers_never_use_udp:
  assumes "list_all (\<lambda>s. ds_Type s = [] \<or> ds_Type s = ''udp'') servers"
  shows "asyncExchange (xe\<lparr>xe_udp := u\<rparr>) (NewDNS ok servers) = asyncExchange xe (NewDNS ok servers)"
proof -
  let ?d = "NewDNS ok servers"
  have once: "exchange_once (xe\<lparr>xe_udp := u\<rparr>) ?d s n = exchange_once xe ?d s n" if "s \<in> set servers" for s n
    using that assms by (auto simp: exchange_once_def NewDNS_def list_all_iff Let_def)
  have at: "server_attempts (xe\<lparr>xe_udp := u\<rparr>) ?d s ns = server_attempts xe ?d s ns" if "s \<in> set servers" for s ns
    using once [OF that] by (induction ns) (simp_all split: option.split)
  have "exchange_loop (xe\<lparr>xe_udp := u\<rparr>) ?d ss e = exchange_loop xe ?d ss e" if "set ss \<subseteq> set servers" for ss e
    using that at by (induction ss arbitrary: e) (simp_all del: server_attempts.simps split: option.split)
  then show ?thesis by (simp add: asyncExchange_def NewDNS_def)
qed

theorem plain_servers_never_use_udp_witness:
  "asyncExchange (dns_example_exchange\<lparr>xe_udp := \<lambda>_ _. Some server_failure\<rparr>) (NewDNS (\<lambda>_. True) dns_example_servers) =
   asyncExchange dns_example_exchange (NewDNS (\<lambda>_. True) dns_example_servers)"
  by (rule plain_servers_never_use_udp) (simp add: dns_example_servers_def)

end
