(* ===== verification/DohServer.thy ===== *)
theory DohServer
  imports DnsResolver Socks5
begin

text \<open>
  The DNS-over-HTTPS server of \<^verbatim>\<open>dns/server.go\<close>: the life cycle of the server, the middleware and the routes, the checks of a
  query, the host name it asks for, the lookup through the resolver and the response.

  What \<^verbatim>\<open>net/http\<close> does before a handler runs is in the request: the method, the clean path, the value of the query parameter
  \<^verbatim>\<open>dns\<close>, the header fields, the body or the failure of reading it, the remote address.  A panic in a handler is recovered by
  \<^verbatim>\<open>net/http\<close>, which drops the connection: the result \<open>Aborted\<close>.
\<close>

unbundle bit_operations_syntax

subsection \<open>Requests, statistics and configuration\<close>

definition DoHAlternativePort :: nat where "DoHAlternativePort = 8443"
definition DoHPath :: string where "DoHPath = ''/dns-query''"

record doh_config =
  dh_Enabled :: bool
  dh_Listen :: string
  dh_TLSEnabled :: bool
  dh_CertFile :: string
  dh_KeyFile :: string
  dh_AutoTLS :: bool
  dh_Domain :: string
  dh_AllowPrivate :: bool

record doh_stats =
  ht_StartTime :: instant
  ht_TotalRequests :: "64 word"
  ht_SuccessCount :: "64 word"
  ht_ErrorCount :: "64 word"
  ht_AvgLatencyMs :: rat

text \<open>\<open>dh_server\<close> and \<open>dh_listener\<close> say whether the pointers are set, \<open>dh_shutdown\<close> whether the channel is closed.\<close>

record doh_server =
  dh_config :: doh_config
  dh_server :: bool
  dh_listener :: bool
  dh_shutdown :: bool
  dh_resolver :: dns_resolver
  dh_stats :: doh_stats
  dh_pool :: buffer_pool

record http_request =
  rq_Method :: string
  rq_Path :: string
  rq_Header :: "string \<Rightarrow> string"
  rq_dns :: string
  rq_Body :: "byte list option"
  rq_RemoteAddr :: string

datatype http_result = HttpError nat string | HttpDNS "byte list" | HttpHealth duration | HttpStats doh_stats | NoContent | Aborted

definition NewDoHServer :: "instant \<Rightarrow> doh_config \<Rightarrow> dns_resolver \<Rightarrow> buffer_pool \<Rightarrow> doh_server" where
  "NewDoHServer now cfg r p =
     \<lparr>dh_config = (if dh_Listen cfg = [] then cfg\<lparr>dh_Listen := CHR '':'' # FormatUint DoHAlternativePort\<rparr> else cfg),
      dh_server = False, dh_listener = False, dh_shutdown = False, dh_resolver = r,
      dh_stats = \<lparr>ht_StartTime = now, ht_TotalRequests = 0, ht_SuccessCount = 0, ht_ErrorCount = 0, ht_AvgLatencyMs = 0\<rparr>,
      dh_pool = p\<rparr>"

definition incrementStats :: "bool \<Rightarrow> doh_server \<Rightarrow> doh_server" where
  "incrementStats success s =
     (let st = (dh_stats s)\<lparr>ht_TotalRequests := ht_TotalRequests (dh_stats s) + 1\<rparr>
      in s\<lparr>dh_stats := if success then st\<lparr>ht_SuccessCount := ht_SuccessCount st + 1\<rparr>
                      else st\<lparr>ht_ErrorCount := ht_ErrorCount st + 1\<rparr>\<rparr>)"

definition doh_GetStats :: "doh_server \<Rightarrow> doh_stats" where
  "doh_GetStats s = dh_stats s"

subsection \<open>Life cycle\<close>

datatype cert_step = GenerateKey | SerialNumber | CreateCertificate | CreateCertFile | EncodeCert | CreateKeyFile | EncodeKey

text \<open>\<open>generateSelfSignedCert\<close>: \<open>exists\<close> tells which files \<open>os.Stat\<close> finds, \<open>bad\<close> which of the steps fails.  The result is the
  step that failed, the files created and the configuration with its default names.\<close>

definition generateSelfSignedCert ::
  "(string \<Rightarrow> bool) \<Rightarrow> (cert_step \<Rightarrow> bool) \<Rightarrow> doh_config \<Rightarrow> cert_step option \<times> string list \<times> doh_config" where
  "generateSelfSignedCert exists bad cfg =
     (let c1 = (if dh_CertFile cfg = [] then cfg\<lparr>dh_CertFile := ''doh_server.crt''\<rparr> else cfg);
          c2 = (if dh_KeyFile c1 = [] then c1\<lparr>dh_KeyFile := ''doh_server.key''\<rparr> else c1);
          cert = dh_CertFile c2; key = dh_KeyFile c2
      in if exists cert \<and> exists key then (None, [], c2)
         else if bad GenerateKey then (Some GenerateKey, [], c2)
         else if bad SerialNumber then (Some SerialNumber, [], c2)
         else if bad CreateCertificate then (Some CreateCertificate, [], c2)
         else if bad CreateCertFile then (Some CreateCertFile, [], c2)
         else if bad EncodeCert then (Some EncodeCert, [cert], c2)
         else if bad CreateKeyFile then (Some CreateKeyFile, [cert], c2)
         else if bad EncodeKey then (Some EncodeKey, [cert, key], c2)
         else (None, [cert, key], c2))"

datatype serving = ServesTLS string string | ServesPlain | ServesNothing

text \<open>What the goroutine of \<open>Start\<close> serves.\<close>

definition start_serving :: "(string \<Rightarrow> bool) \<Rightarrow> (cert_step \<Rightarrow> bool) \<Rightarrow> doh_config \<Rightarrow> serving \<times> doh_config" where
  "start_serving exists bad cfg =
     (if dh_TLSEnabled cfg then
        let (err, files, c1) = (if dh_AutoTLS cfg then generateSelfSignedCert exists bad cfg else (None, [], cfg))
        in if err \<noteq> None then (ServesNothing, c1)
           else if dh_CertFile c1 = [] \<or> dh_KeyFile c1 = [] then (ServesNothing, c1)
           else (ServesTLS (dh_CertFile c1) (dh_KeyFile c1), c1)
      else (ServesPlain, cfg))"

text \<open>\<open>listens\<close> is whether \<open>net.Listen\<close> succeeds; the result is whether \<open>Start\<close> returns nil, what is served and the server.\<close>

definition doh_Start :: "bool \<Rightarrow> (string \<Rightarrow> bool) \<Rightarrow> (cert_step \<Rightarrow> bool) \<Rightarrow> doh_server \<Rightarrow> bool \<times> serving \<times> doh_server" where
  "doh_Start listens exists bad s =
     (if \<not> dh_Enabled (dh_config s) then (True, ServesNothing, s)
      else
        let s1 = s\<lparr>dh_server := True\<rparr>
        in if \<not> listens then (False, ServesNothing, s1)
           else
             let s2 = s1\<lparr>dh_listener := True\<rparr>; (v, cfg) = start_serving exists bad (dh_config s2)
             in (True, v, s2\<lparr>dh_config := cfg\<rparr>))"

text \<open>None is the panic of closing a closed channel; otherwise the result is whether the server was shut down.\<close>

definition doh_Stop :: "doh_server \<Rightarrow> (bool \<times> doh_server) option" where
  "doh_Stop s = (if dh_shutdown s then None else Some (dh_server s, s\<lparr>dh_shutdown := True\<rparr>))"

definition IsRunning :: "doh_server \<Rightarrow> bool" where
  "IsRunning s \<longleftrightarrow> dh_server s \<and> dh_listener s"

subsection \<open>The client of a request\<close>

definition getClientIP :: "http_request \<Rightarrow> string" where
  "getClientIP r =
     (if rq_Header r ''X-Forwarded-For'' \<noteq> [] then rq_Header r ''X-Forwarded-For''
      else if rq_Header r ''X-Real-Ip'' \<noteq> [] then rq_Header r ''X-Real-Ip''
      else case SplitHostPort (rq_RemoteAddr r) of Some (h, p) \<Rightarrow> h | None \<Rightarrow> [])"

definition v4_net :: "byte list \<Rightarrow> nat \<Rightarrow> ipnet" where
  "v4_net a n = \<lparr>ipn_IP = v4InV6Prefix @ a, ipn_Mask = CIDRMask n 32\<rparr>"

definition doh_privateRanges :: "ipnet list" where
  "doh_privateRanges = [v4_net [10, 0, 0, 0] 8, v4_net [172, 16, 0, 0] 12, v4_net [192, 168, 0, 0] 16, v4_net [127, 0, 0, 0] 8]"

definition isPrivateIP :: "string \<Rightarrow> bool" where
  "isPrivateIP s =
     (case ParseIP s of None \<Rightarrow> False | Some a \<Rightarrow> list_ex (\<lambda>n. IPNet_Contains n a) doh_privateRanges)"

subsection \<open>The query\<close>

text \<open>\<open>base64.RawURLEncoding\<close>: the alphabet of RFC 4648 for names, no padding, line breaks skipped, spare bits ignored.\<close>

definition b64_char :: "nat \<Rightarrow> char" where
  "b64_char n = char_of (if n < 26 then 65 + n else if n < 52 then 71 + n else if n < 62 then n - 4 else if n = 62 then 45 else 95)"

definition b64_val :: "char \<Rightarrow> nat option" where
  "b64_val c =
     (let k = code c
      in if 65 \<le> k \<and> k \<le> 90 then Some (k - 65)
         else if 97 \<le> k \<and> k \<le> 122 then Some (k - 71)
         else if 48 \<le> k \<and> k \<le> 57 then Some (k + 4)
         else if k = 45 then Some 62
         else if k = 95 then Some 63
         else None)"

fun b64_bytes :: "nat list \<Rightarrow> byte list option" where
  "b64_bytes [] = Some []"
| "b64_bytes [a] = None"
| "b64_bytes [a, b] = Some [of_nat (a * 4 + b div 16)]"
| "b64_bytes [a, b, c] = Some [of_nat (a * 4 + b div 16), of_nat (b mod 16 * 16 + c div 4)]"
| "b64_bytes (a # b # c # d # rest) =
     map_option ((@) [of_nat (a * 4 + b div 16), of_nat (b mod 16 * 16 + c div 4), of_nat (c mod 4 * 64 + d)]) (b64_bytes rest)"

definition RawURL_DecodeString :: "string \<Rightarrow> byte list option" where
  "RawURL_DecodeString s =
     (let t = filter (\<lambda>c. code c \<noteq> 10 \<and> code c \<noteq> 13) s
      in if list_all (\<lambda>c. b64_val c \<noteq> None) t then b64_bytes (map (\<lambda>c. the (b64_val c)) t) else None)"

text \<open>The loop of \<open>parseDNSQueryHostname\<close>: the labels and the offset behind them.\<close>

function hostname_labels :: "byte list \<Rightarrow> nat \<Rightarrow> string list \<Rightarrow> string list \<times> nat" where
  "hostname_labels query offset labels =
     (if offset \<ge> length query then (labels, offset)
      else
        let len = unat (query ! offset)
        in if len = 0 then (labels, offset + 1)
           else if len > 63 then (labels, offset + 2)
           else if offset + 1 + len > length query then (labels, offset + 1)
           else hostname_labels query (offset + 1 + len) (labels @ [string_of_bytes (sub (offset + 1) (offset + 1 + len) query)]))"
  by pat_completeness auto

termination
  by (relation "measure (\<lambda>(query, offset, labels). length query - offset)") auto

declare hostname_labels.simps [simp del]

datatype doh_error = QueryTooShort | InvalidQueryFormat | LookupError dns_error

definition parseDNSQueryHostname :: "byte list \<Rightarrow> doh_error + string" where
  "parseDNSQueryHostname query =
     (if length query < 12 then Inl QueryTooShort
      else case hostname_labels query 12 [] of
        (labels, offset) \<Rightarrow>
          if offset + 4 > length query then Inl InvalidQueryFormat
          else Inr (if labels = [] then [] else foldl (\<lambda>h l. h @ CHR ''.'' # l) (hd labels) (tl labels)))"

subsection \<open>The response\<close>

text \<open>Writes to a slice: \<open>buf[i] = v\<close> panics beyond the length, \<open>copy\<close> stops there, \<open>append\<close> writes behind it, in place where the
  capacity allows it.  The pair is the pooled slice and the slice \<open>append\<close> moved the bytes to, if it did.\<close>

definition sl_set :: "nat \<Rightarrow> byte \<Rightarrow> slice \<Rightarrow> slice option" where
  "sl_set i v b = (if i < sl_len b then Some (b\<lparr>sl_array := (sl_array b)[i := v]\<rparr>) else None)"

definition sl_copy :: "nat \<Rightarrow> byte list \<Rightarrow> slice \<Rightarrow> slice option" where
  "sl_copy off bs b =
     (if off \<le> sl_len b then
        let n = min (length bs) (sl_len b - off)
        in Some (b\<lparr>sl_array := take off (sl_array b) @ take n bs @ drop (off + n) (sl_array b)\<rparr>)
      else None)"

fun sl_append :: "byte list \<Rightarrow> slice \<times> byte list option \<Rightarrow> slice \<times> byte list option" where
  "sl_append bs (b, Some moved) = (b, Some (moved @ bs))"
| "sl_append bs (b, None) =
     (let n = sl_len b
      in if n + length bs \<le> sl_cap b
         then (\<lparr>sl_array = take n (sl_array b) @ bs @ drop (n + length bs) (sl_array b), sl_len = n + length bs\<rparr>, None)
         else (b, Some (take n (sl_array b) @ bs)))"

primrec sl_sets :: "(nat \<times> byte) list \<Rightarrow> slice \<Rightarrow> slice option" where
  "sl_sets [] b = Some b"
| "sl_sets (w # ws) b = (case sl_set (fst w) (snd w) b of None \<Rightarrow> None | Some b1 \<Rightarrow> sl_sets ws b1)"

definition add_answer :: "ip \<Rightarrow> slice \<times> byte list option \<Rightarrow> slice \<times> byte list option" where
  "add_answer a b =
     (case To4 a of
        None \<Rightarrow> b
      | Some ip4 \<Rightarrow>
          sl_append ip4 (sl_append [0x00, 0x04] (sl_append [0x00, 0x00, 0x01, 0x2C] (sl_append [0x00, 0x01]
            (sl_append [0x00, 0x01] (sl_append [0xC0, 0x0C] b))))))"

text \<open>The writes of \<open>buildDNSResponse\<close> into its buffer; None is a panic.\<close>

definition fill_response :: "byte list \<Rightarrow> ip list \<Rightarrow> slice \<Rightarrow> (slice \<times> byte list option) option" where
  "fill_response query ips buf =
     (let n = of_nat (length ips) :: 16 word;
          header = [(2, 0x81), (3, 0x80), (4, query ! 4), (5, query ! 5), (6, ucast (drop_bit 8 n)), (7, ucast (n AND 0xFF)),
                    (8, 0), (9, 0), (10, 0), (11, 0)]
      in case sl_copy 0 (take 12 query) buf of
           None \<Rightarrow> None
         | Some b1 \<Rightarrow>
             (case sl_sets header b1 of
                None \<Rightarrow> None
              | Some b2 \<Rightarrow>
                  (case sl_copy 12 (drop 12 query) b2 of
                     None \<Rightarrow> None
                   | Some b3 \<Rightarrow> Some (foldl (\<lambda>b a. add_answer a b) (b3, None) ips))))"

datatype 'a run = Returns 'a | Panics

text \<open>The deferred \<open>Put\<close> runs on a panic too.  The clone is taken before the deferred call.\<close>

definition doh_buildDNSResponse ::
  "nat option \<Rightarrow> nat option \<Rightarrow> byte list \<Rightarrow> ip list \<Rightarrow> buffer_pool \<Rightarrow> (doh_error + byte list) run \<times> buffer_pool" where
  "doh_buildDNSResponse pick1 pick2 query ips p =
     (if length query < 12 then (Returns (Inl QueryTooShort), p)
      else
        let requiredSize = 12 + (length query - 12) + length ips * 16;
            pooled = requiredSize \<le> SmallBufferSize;
            (buf, p1) = (if pooled then Buf_Get pick1 SmallBufferSize p else (new_slice 0 requiredSize, p));
            put = (\<lambda>b q. if pooled then Buf_Put (Some (b\<lparr>sl_len := sl_len buf\<rparr>)) q else q)
        in case fill_response query ips buf of
             None \<Rightarrow> (Panics, put buf p1)
           | Some (b, moved) \<Rightarrow>
               let bytes = (case moved of None \<Rightarrow> take (sl_len b) (sl_array b) | Some m \<Rightarrow> m)
               in case Clone pick2 bytes p1 of
                    (None, p2) \<Rightarrow> (Panics, put b p2)
                  | (Some c, p2) \<Rightarrow> (Returns (Inr (take (sl_len c) (sl_array c))), put b p2))"

subsection \<open>The handlers\<close>

text \<open>What the environment decides during a query: the times and the path of the lookup, the choices of the pool.\<close>

record doh_env =
  de_t1 :: instant
  de_t2 :: instant
  de_ord :: "string list"
  de_path :: lookup_path
  de_pick1 :: "nat option"
  de_pick2 :: "nat option"

definition resolveDNSQuery :: "doh_env \<Rightarrow> byte list \<Rightarrow> doh_server \<Rightarrow> (doh_error + byte list) run \<times> doh_server" where
  "resolveDNSQuery env query s =
     (case parseDNSQueryHostname query of
        Inl e \<Rightarrow> (Returns (Inl e), s)
      | Inr hostname \<Rightarrow>
          (case LookupIP (de_t1 env) (de_t2 env) (de_ord env) (de_path env) hostname (dh_resolver s) of
             (Inl e, r) \<Rightarrow> (Returns (Inl (LookupError e)), s\<lparr>dh_resolver := r\<rparr>)
           | (Inr ips, r) \<Rightarrow>
               (case doh_buildDNSResponse (de_pick1 env) (de_pick2 env) query ips (dh_pool s) of
                  (res, p) \<Rightarrow> (res, s\<lparr>dh_resolver := r, dh_pool := p\<rparr>))))"

text \<open>The part of \<open>handleDoHQuery\<close> that gets the query from the request.\<close>

definition get_query :: "http_request \<Rightarrow> http_result + byte list" where
  "get_query r =
     (if rq_Method r \<noteq> ''GET'' \<and> rq_Method r \<noteq> ''POST'' then Inl (HttpError 405 ''Method not allowed'')
      else if rq_Method r = ''POST'' \<and> rq_Header r ''Content-Type'' \<noteq> ''application/dns-message''
        then Inl (HttpError 415 ''Unsupported Media Type'')
      else if rq_Method r = ''POST'' then
        (case rq_Body r of None \<Rightarrow> Inl (HttpError 400 ''Bad request'') | Some q \<Rightarrow> Inr q)
      else if rq_dns r = [] then Inl (HttpError 400 ''Missing dns parameter'')
      else case RawURL_DecodeString (rq_dns r) of
             None \<Rightarrow> Inl (HttpError 400 ''Invalid dns parameter'')
           | Some q \<Rightarrow> Inr q)"

definition handleDoHQuery :: "doh_env \<Rightarrow> http_request \<Rightarrow> doh_server \<Rightarrow> http_result \<times> doh_server" where
  "handleDoHQuery env r s =
     (case get_query r of
        Inl e \<Rightarrow> (e, incrementStats False s)
      | Inr query \<Rightarrow>
          if length query < 12 then (HttpError 400 ''Invalid DNS query'', incrementStats False s)
          else if \<not> dh_AllowPrivate (dh_config s) \<and> isPrivateIP (getClientIP r)
            then (HttpError 403 ''Forbidden'', incrementStats False s)
          else case resolveDNSQuery env query s of
                 (Panics, s1) \<Rightarrow> (Aborted, s1)
               | (Returns (Inl e), s1) \<Rightarrow> (HttpError 502 ''DNS resolution failed'', incrementStats False s1)
               | (Returns (Inr resp), s1) \<Rightarrow> (HttpDNS resp, incrementStats True s1))"

definition handleHealth :: "instant \<Rightarrow> doh_server \<Rightarrow> http_result" where
  "handleHealth now s = HttpHealth (now - ht_StartTime (dh_stats s))"

definition handleStats :: "doh_server \<Rightarrow> http_result" where
  "handleStats s = HttpStats (dh_stats s)"

text \<open>The routes that \<open>Start\<close> registers; another path is not found.\<close>

definition mux :: "instant \<Rightarrow> doh_env \<Rightarrow> http_request \<Rightarrow> doh_server \<Rightarrow> http_result \<times> doh_server" where
  "mux now env r s =
     (if rq_Path r = DoHPath then handleDoHQuery env r s
      else if rq_Path r = ''/health'' then (handleHealth now s, s)
      else if rq_Path r = ''/stats'' then (handleStats s, s)
      else (HttpError 404 ''404 page not found'', s))"

text \<open>The header fields that the middleware sets, and the handler behind it.\<close>

definition withCORS :: "instant \<Rightarrow> doh_env \<Rightarrow> http_request \<Rightarrow> doh_server \<Rightarrow> (string \<times> string) list \<times> http_result \<times> doh_server" where
  "withCORS now env r s =
     ([(''Access-Control-Allow-Origin'', ''*''), (''Access-Control-Allow-Methods'', ''GET, POST, OPTIONS''),
       (''Access-Control-Allow-Headers'', ''Content-Type'')],
      if rq_Method r = ''OPTIONS'' then (NoContent, s) else mux now env r s)"

subsection \<open>Host names of queries\<close>

lemma hostname_label_step:
  assumes "0 < length l" "length l < 64"
  shows "hostname_labels (pre @ enc_label l @ rest) (length pre) ls =
    hostname_labels (pre @ enc_label l @ rest) (length (pre @ enc_label l)) (ls @ [l])"
proof -
  let ?q = "pre @ enc_label l @ rest"
  have n: "?q ! length pre = of_nat (length l)" by (simp add: enc_label_def nth_append)
  have u: "unat (of_nat (length l) :: byte) = length l" using assms(2) by (simp add: unat_of_nat)
  have s: "sub (length pre + 1) (length pre + 1 + length l) ?q = ascii_bytes l" by (simp add: sub_def enc_label_def)
  have len: "length pre + 1 + length l \<le> length ?q" by (simp add: enc_label_def)
  show ?thesis
    using assms len
    by (subst hostname_labels.simps) (simp only: n u s Let_def, simp add: enc_label_def)
qed

lemma hostname_labels_enc:
  assumes "\<forall>l \<in> set ls. 0 < length l \<and> length l < 64"
  shows "hostname_labels (pre @ concat (map enc_label ls) @ 0 # rest) (length pre) acc =
    (acc @ ls, length pre + length (concat (map enc_label ls)) + 1)"
  using assms
proof (induction ls arbitrary: pre acc)
  case Nil
  then show ?case by (subst hostname_labels.simps) (simp add: nth_append)
next
  case (Cons l ls)
  have "hostname_labels ((pre @ enc_label l) @ concat (map enc_label ls) @ 0 # rest) (length (pre @ enc_label l)) (acc @ [l]) =
      ((acc @ [l]) @ ls, length (pre @ enc_label l) + length (concat (map enc_label ls)) + 1)"
    by (rule Cons.IH) (use Cons.prems in auto)
  then show ?case
    using hostname_label_step [of l pre "concat (map enc_label ls) @ 0 # rest" acc] Cons.prems by simp
qed

lemma foldl_dots: "foldl (\<lambda>h l. h @ CHR ''.'' # l) x ls = Join CHR ''.'' (x # ls)"
proof (induction ls arbitrary: x)
  case (Cons l ls)
  have "Join CHR ''.'' ((x @ CHR ''.'' # l) # ls) = Join CHR ''.'' (x # l # ls)" by (cases ls) simp_all
  then show ?case using Cons by simp
qed simp

lemma parse_hostname_enc:
  assumes "\<forall>l \<in> set ls. 0 < length l \<and> length l < 64" and "length hdr = 12" and "4 \<le> length rest"
  shows "parseDNSQueryHostname (hdr @ concat (map enc_label ls) @ 0 # rest) = Inr (Join CHR ''.'' ls)"
  using hostname_labels_enc [OF assms(1), of hdr rest "[]"] assms(2,3)
  by (cases ls) (auto simp: parseDNSQueryHostname_def foldl_dots)

subsection \<open>Base64\<close>

text \<open>The encoder of RFC 4648, as a reference.\<close>

fun b64_digits :: "nat list \<Rightarrow> nat list" where
  "b64_digits [] = []"
| "b64_digits [x] = [x div 4, x mod 4 * 16]"
| "b64_digits [x, y] = [x div 4, x mod 4 * 16 + y div 16, y mod 16 * 4]"
| "b64_digits (x # y # z # rest) =
     [x div 4, x mod 4 * 16 + y div 16, y mod 16 * 4 + z div 64, z mod 64] @ b64_digits rest"

definition RawURL_EncodeToString :: "byte list \<Rightarrow> string" where
  "RawURL_EncodeToString bs = map b64_char (b64_digits (map unat bs))"

lemma code_b64_char:
  "n < 64 \<Longrightarrow> code (b64_char n) = (if n < 26 then 65 + n else if n < 52 then 71 + n else if n < 62 then n - 4 else if n = 62 then 45 else 95)"
  by (auto simp: b64_char_def)

lemma b64_val_char: "n < 64 \<Longrightarrow> b64_val (b64_char n) = Some n"
  by (auto simp: b64_val_def code_b64_char Let_def)

lemma b64_char_visible: "n < 64 \<Longrightarrow> code (b64_char n) \<noteq> 10 \<and> code (b64_char n) \<noteq> 13"
  by (auto simp: code_b64_char)

lemma b64_digits_less: "\<forall>x \<in> set xs. x < 256 \<Longrightarrow> \<forall>d \<in> set (b64_digits xs). d < 64"
  by (induction xs rule: b64_digits.induct) auto

lemma sextets:
  fixes x y z :: nat
  assumes "y < 256" "z < 256"
  shows "x div 4 * 4 + (x mod 4 * 16 + y div 16) div 16 = x"
    and "(x mod 4 * 16 + y div 16) mod 16 * 16 + (y mod 16 * 4 + z div 64) div 4 = y"
    and "(y mod 16 * 4 + z div 64) mod 4 * 64 + z mod 64 = z"
proof -
  have q: "y div 16 < 16" "z div 64 < 4" using assms by (simp_all add: less_mult_imp_div_less)
  then have "(x mod 4 * 16 + y div 16) div 16 = x mod 4" "(x mod 4 * 16 + y div 16) mod 16 = y div 16"
    "(y mod 16 * 4 + z div 64) div 4 = y mod 16" "(y mod 16 * 4 + z div 64) mod 4 = z div 64"
    by (simp_all add: mod_add_eq [symmetric])
  then show "x div 4 * 4 + (x mod 4 * 16 + y div 16) div 16 = x"
    "(x mod 4 * 16 + y div 16) mod 16 * 16 + (y mod 16 * 4 + z div 64) div 4 = y"
    "(y mod 16 * 4 + z div 64) mod 4 * 64 + z mod 64 = z"
    by simp_all
qed

lemma b64_bytes_digits: "\<forall>x \<in> set xs. x < 256 \<Longrightarrow> b64_bytes (b64_digits xs) = Some (map of_nat xs)"
proof (induction xs rule: b64_digits.induct)
  case (2 x)
  then show ?case using sextets(1) [of 0 x] by simp
next
  case (3 x y)
  then show ?case using sextets(1) [of y x] sextets(2) [of y 0 x] by simp
next
  case (4 x y z rest)
  then show ?case using sextets(1) [of y x] sextets(2) [of y z x] sextets(3) [of y z] by simp
qed simp

lemma decode_encode: "RawURL_DecodeString (RawURL_EncodeToString bs) = Some bs"
proof -
  let ?ds = "b64_digits (map unat bs)"
  have d: "\<forall>d \<in> set ?ds. d < 64" by (rule b64_digits_less) (auto simp: unat_byte_less)
  have f: "filter (\<lambda>c. code c \<noteq> 10 \<and> code c \<noteq> 13) (map b64_char ?ds) = map b64_char ?ds"
    by (rule filter_True) (use d b64_char_visible in auto)
  have v: "map (\<lambda>c. the (b64_val c)) (map b64_char ?ds) = ?ds" using d by (auto simp: b64_val_char intro: map_idI)
  have "b64_bytes ?ds = Some (map of_nat (map unat bs))" by (rule b64_bytes_digits) (auto simp: unat_byte_less)
  moreover have "list_all (\<lambda>c. b64_val c \<noteq> None) (map b64_char ?ds)" using d by (auto simp: list_all_iff b64_val_char)
  moreover have "map of_nat (map unat bs) = bs" by (simp add: map_idI)
  ultimately show ?thesis unfolding RawURL_DecodeString_def RawURL_EncodeToString_def f Let_def v by simp
qed

subsection \<open>Responses\<close>

lemma empty_buffer_panics: "sl_len b = 0 \<Longrightarrow> fill_response query ips b = None"
  by (auto simp: fill_response_def Let_def sl_copy_def sl_set_def)

lemma response_panics:
  assumes "12 \<le> length query"
  shows "\<exists>p1. doh_buildDNSResponse pick1 pick2 query ips p = (Panics, p1)"
proof -
  obtain b p1 where b: "Buf_Get pick1 SmallBufferSize p = (b, p1)" by fastforce
  then have "sl_len b = 0" by (auto simp: Buf_Get_def Let_def split: prod.splits if_splits)
  moreover have "sl_len (new_slice 0 n) = 0" for n by (simp add: new_slice_def)
  ultimately show ?thesis using assms b by (simp add: doh_buildDNSResponse_def Let_def empty_buffer_panics)
qed

lemma parse_ok_length: "parseDNSQueryHostname query = Inr h \<Longrightarrow> 12 \<le> length query"
  by (auto simp: parseDNSQueryHostname_def split: if_splits)

lemma resolve_outcome:
  assumes "resolveDNSQuery env query s = (res, s1)"
  shows "(res = Panics \<or> (\<exists>e. res = Returns (Inl e))) \<and> dh_stats s1 = dh_stats s \<and> dh_config s1 = dh_config s"
proof (cases "parseDNSQueryHostname query")
  case (Inl e)
  then show ?thesis using assms by (auto simp: resolveDNSQuery_def)
next
  case (Inr h)
  obtain l r where l: "LookupIP (de_t1 env) (de_t2 env) (de_ord env) (de_path env) h (dh_resolver s) = (l, r)" by fastforce
  show ?thesis
  proof (cases l)
    case (Inl e)
    then show ?thesis using assms Inr l by (auto simp: resolveDNSQuery_def)
  next
    case (Inr ips)
    then show ?thesis
      using assms l \<open>parseDNSQueryHostname query = _\<close>
        response_panics [OF parse_ok_length, of query h "de_pick1 env" "de_pick2 env" ips "dh_pool s"]
      by (auto simp: resolveDNSQuery_def)
  qed
qed

subsection \<open>Private addresses\<close>

lemma To4_mapped: "length a = 4 \<Longrightarrow> To4 (v4InV6Prefix @ a) = Some a"
  by (simp add: To4_def v4InV6Prefix_def)

lemma v4_net_contains:
  assumes "length a = 4" "length b = 4"
  shows "IPNet_Contains (v4_net a n) (v4InV6Prefix @ b) \<longleftrightarrow>
    list_all (\<lambda>(x, y, k). x AND k = y AND k) (zip a (zip b (CIDRMask n 32)))"
  using assms by (simp add: IPNet_Contains_def networkNumberAndMask_def v4_net_def To4_mapped Let_def)

lemma private_masks:
  "CIDRMask 8 32 = [255, 0, 0, 0]" "CIDRMask 12 32 = [255, 240, 0, 0]" "CIDRMask 16 32 = [255, 255, 0, 0]"
  by code_simp+

lemma and_255 [simp]: "(x :: byte) AND 255 = x"
proof -
  have "x AND mask 8 = x" by (rule bit_eqI) (auto simp: bit_simps)
  moreover have "(mask 8 :: byte) = 255" by code_simp
  ultimately show ?thesis by simp
qed

lemma and_240: "(16 :: byte) = x AND 240 \<longleftrightarrow> 16 \<le> x \<and> x \<le> 31"
proof -
  have "\<forall>n < 256. (16 = (of_nat n :: byte) AND 240) = (16 \<le> n \<and> n \<le> 31)"
    by code_simp
  then have "(16 = (of_nat (unat x) :: byte) AND 240) = (16 \<le> unat x \<and> unat x \<le> 31)" using unat_byte_less by blast
  then show ?thesis by (simp add: word_le_nat_alt)
qed

subsection \<open>Runs of the server\<close>

text \<open>A step is a request, handled whole, or a start or stop.\<close>

inductive doh_step :: "doh_server \<Rightarrow> doh_server \<Rightarrow> bool" where
  request: "withCORS now env r s = (hs, res, s') \<Longrightarrow> doh_step s s'"
| start: "doh_Start listens exists bad s = (ok, v, s') \<Longrightarrow> doh_step s s'"
| stop: "doh_Stop s = Some (was, s') \<Longrightarrow> doh_step s s'"

definition failures_only :: "doh_server \<Rightarrow> bool" where
  "failures_only s \<longleftrightarrow> ht_SuccessCount (dh_stats s) = 0 \<and> ht_TotalRequests (dh_stats s) = ht_ErrorCount (dh_stats s)"

lemma stats_parts [simp]:
  "dh_stats (incrementStats False s) = (dh_stats s)\<lparr>ht_TotalRequests := ht_TotalRequests (dh_stats s) + 1, ht_ErrorCount := ht_ErrorCount (dh_stats s) + 1\<rparr>"
  by (simp add: incrementStats_def Let_def)

lemma failures_increment: "failures_only s \<Longrightarrow> failures_only (incrementStats False s)"
  by (simp add: failures_only_def)

lemma get_query_error: "get_query r = Inl e \<Longrightarrow> \<exists>c m. e = HttpError c m"
  by (auto simp: get_query_def split: if_splits option.splits)

lemma handle_cases:
  assumes "handleDoHQuery env r s = (res, s')"
  obtains (error) c m s1 where "res = HttpError c m" "s' = incrementStats False s1" "dh_stats s1 = dh_stats s"
  | (abort) "res = Aborted" "dh_stats s' = dh_stats s"
proof (cases "get_query r")
  case (Inl e)
  then show ?thesis using assms error get_query_error by (fastforce simp: handleDoHQuery_def)
next
  case (Inr q)
  obtain x s1 where x: "resolveDNSQuery env q s = (x, s1)" by fastforce
  note out = resolve_outcome [OF x]
  show ?thesis
    using assms Inr x out error abort
    by (auto simp: handleDoHQuery_def split: if_splits)
qed

lemma failures_request: "handleDoHQuery env r s = (res, s') \<Longrightarrow> failures_only s \<Longrightarrow> failures_only s'"
  by (erule handle_cases) (auto simp: failures_only_def)

lemma failures_step: "doh_step s s' \<Longrightarrow> failures_only s \<Longrightarrow> failures_only s'"
proof (induction rule: doh_step.induct)
  case (request now env r s hs res s')
  then show ?case by (auto simp: withCORS_def mux_def dest: failures_request split: if_splits)
next
  case (start listens exists bad s ok v s')
  then show ?case by (auto simp: doh_Start_def Let_def failures_only_def split: if_splits prod.splits)
next
  case (stop s was s')
  then show ?case by (auto simp: doh_Stop_def failures_only_def split: if_splits)
qed

interpretation dohsys: invariant_system "\<lambda>s. \<exists>now cfg rv p. s = NewDoHServer now cfg rv p" doh_step failures_only
  by unfold_locales (auto simp: failures_only_def NewDoHServer_def dest: failures_step [unfolded failures_only_def])

lemma request_step: "doh_step s (snd (snd (withCORS now env r s)))"
  by (cases "withCORS now env r s") (auto intro: doh_step.request)

subsection \<open>Properties\<close>

text \<open>The server reads back the name that the resolver's own query holds, for every name with labels of 1 to 63 bytes.\<close>

theorem doh_hostname_roundtrip:
  assumes "\<forall>l \<in> set (Split CHR ''.'' (TrimDot h)). 0 < length l \<and> length l < 64"
  shows "\<exists>d. buildDNSQuery txid h q = Inr d \<and> parseDNSQueryHostname d = Inr (TrimDot h)"
proof -
  let ?ls = "Split CHR ''.'' (TrimDot h)"
  have "buildDNSQuery txid h q = Inr (query_header txid @ concat (map enc_label ?ls) @ [0] @ put16 q @ put16 1)"
    using assms by (auto simp: buildDNSQuery_def Let_def)
  moreover have "length (query_header txid) = 12" by (simp add: query_header_def)
  ultimately show ?thesis using parse_hostname_enc [OF assms, of "query_header txid" "put16 q @ put16 1"] by simp
qed

theorem doh_hostname_roundtrip_witness:
  "\<exists>d. buildDNSQuery 7 ''a.org.'' 1 = Inr d \<and> parseDNSQueryHostname d = Inr (TrimDot ''a.org.'')"
  by (rule doh_hostname_roundtrip) (simp add: TrimDot_def)

text \<open>The two ways of asking are equivalent: a GET whose parameter is the base64 text of a message is handled
  like a POST of the message, in its answer and in the state it leaves.\<close>

theorem doh_get_equals_post:
  assumes "rq_Method r = ''POST''" "rq_Header r ''Content-Type'' = ''application/dns-message''" "rq_Body r = Some q" "q \<noteq> []"
  shows "handleDoHQuery env (r\<lparr>rq_Method := ''GET'', rq_dns := RawURL_EncodeToString q\<rparr>) s = handleDoHQuery env r s"
proof -
  have "RawURL_EncodeToString q \<noteq> []" using decode_encode [of q] assms(4) by (auto simp: RawURL_DecodeString_def)
  then have "get_query (r\<lparr>rq_Method := ''GET'', rq_dns := RawURL_EncodeToString q\<rparr>) = Inr q"
    by (simp add: get_query_def decode_encode)
  moreover have "get_query r = Inr q" using assms by (simp add: get_query_def)
  ultimately show ?thesis by (simp add: handleDoHQuery_def getClientIP_def)
qed

definition example_post :: http_request where
  "example_post = \<lparr>rq_Method = ''POST'', rq_Path = DoHPath, rq_Header = (\<lambda>n. if n = ''Content-Type'' then ''application/dns-message'' else []),
     rq_dns = [], rq_Body = Some (query_header 7 @ [1, 97, 0, 0, 1, 0, 1]), rq_RemoteAddr = ''10.0.0.7:5000''\<rparr>"

definition example_doh :: doh_server where
  "example_doh = NewDoHServer 0 \<lparr>dh_Enabled = True, dh_Listen = [], dh_TLSEnabled = True, dh_CertFile = [], dh_KeyFile = [],
     dh_AutoTLS = False, dh_Domain = [], dh_AllowPrivate = False\<rparr> (NewResolver 10 60) New_pool"

definition doh_example_env :: doh_env where
  "doh_example_env = \<lparr>de_t1 = 0, de_t2 = 0, de_ord = [], de_path = Synchronous (Inr [[10, 0, 0, 1]]), de_pick1 = None, de_pick2 = None\<rparr>"

theorem doh_get_equals_post_witness:
  "handleDoHQuery doh_example_env (example_post\<lparr>rq_Method := ''GET'', rq_dns := RawURL_EncodeToString (query_header 7 @ [1, 97, 0, 0, 1, 0, 1])\<rparr>) example_doh =
    handleDoHQuery doh_example_env example_post example_doh"
  by (rule doh_get_equals_post) (simp_all add: example_post_def)

text \<open>The check of the client's address recognises exactly the ranges of RFC 1918 and the loopback range among the IPv4 addresses.\<close>

theorem private_ranges_exact:
  "isPrivateIP (v4_string [a, b, c, d]) \<longleftrightarrow> a = 10 \<or> (a = 172 \<and> 16 \<le> b \<and> b \<le> 31) \<or> (a = 192 \<and> b = 168) \<or> a = 127"
  using ParseIP_v4_string [of "[a, b, c, d]"]
  by (auto simp: isPrivateIP_def doh_privateRanges_def v4_net_contains private_masks and_240)

text \<open>The address that is checked is what the client wrote in a header field: a client with any address, private or not, passes the check
  by sending a public address, or text that is no address.\<close>

theorem forwarded_header_passes_check:
  assumes "ParseIP x = None \<or> \<not> isPrivateIP x" and "x \<noteq> []" and "rq_Header r = h(''X-Forwarded-For'' := x)"
  shows "\<not> isPrivateIP (getClientIP r)"
  using assms by (auto simp: getClientIP_def isPrivateIP_def)

theorem forwarded_header_passes_check_witness:
  "\<not> isPrivateIP (getClientIP (example_post\<lparr>rq_Header := (rq_Header example_post)(''X-Forwarded-For'' := ''me'')\<rparr>))"
  by (rule forwarded_header_passes_check [of "''me''"]) (simp_all add: isPrivateIP_def ParseIP_def ParseAddr_def)

text \<open>No query is ever answered.  A query that passes the checks and whose name resolves makes the handler panic, because the
  buffer for the response has length zero; the request is then not counted.\<close>

theorem resolved_query_panics:
  assumes "get_query r = Inr q" and "parseDNSQueryHostname q = Inr h" and "dh_AllowPrivate (dh_config s) \<or> \<not> isPrivateIP (getClientIP r)"
    and "LookupIP (de_t1 env) (de_t2 env) (de_ord env) (de_path env) h (dh_resolver s) = (Inr ips, rv)"
  shows "fst (handleDoHQuery env r s) = Aborted \<and> dh_stats (snd (handleDoHQuery env r s)) = dh_stats s"
proof -
  have len: "12 \<le> length q" using assms(2) by (rule parse_ok_length)
  then obtain p where "doh_buildDNSResponse (de_pick1 env) (de_pick2 env) q ips (dh_pool s) = (Panics, p)"
    using response_panics by blast
  then show ?thesis using assms len by (auto simp: handleDoHQuery_def resolveDNSQuery_def)
qed

theorem resolved_query_panics_witness:
  "fst (handleDoHQuery doh_example_env (example_post\<lparr>rq_RemoteAddr := ''8.8.8.8:53''\<rparr>) example_doh) = Aborted \<and>
   dh_stats (snd (handleDoHQuery doh_example_env (example_post\<lparr>rq_RemoteAddr := ''8.8.8.8:53''\<rparr>) example_doh)) = dh_stats example_doh"
proof (rule resolved_query_panics)
  show "get_query (example_post\<lparr>rq_RemoteAddr := ''8.8.8.8:53''\<rparr>) = Inr (query_header 7 @ [1, 97, 0, 0, 1, 0, 1])"
    by (simp add: get_query_def example_post_def)
  show "parseDNSQueryHostname (query_header 7 @ [1, 97, 0, 0, 1, 0, 1]) = Inr ''a''"
    using parse_hostname_enc [of "[''a'']" "query_header 7" "[0, 1, 0, 1]"] by (simp add: query_header_def enc_label_def ascii_bytes_def code_def)
  have "\<not> isPrivateIP ''8.8.8.8''" by code_simp
  moreover have "getClientIP (example_post\<lparr>rq_RemoteAddr := ''8.8.8.8:53''\<rparr>) = ''8.8.8.8''" by code_simp
  ultimately show "dh_AllowPrivate (dh_config example_doh) \<or> \<not> isPrivateIP (getClientIP (example_post\<lparr>rq_RemoteAddr := ''8.8.8.8:53''\<rparr>))"
    by simp
  show "LookupIP (de_t1 doh_example_env) (de_t2 doh_example_env) (de_ord doh_example_env) (de_path doh_example_env) ''a'' (dh_resolver example_doh) =
      (Inr [[10, 0, 0, 1]], snd (LookupIP 0 0 [] (Synchronous (Inr [[10, 0, 0, 1]])) ''a'' (NewResolver 10 60)))"
    by (simp add: LookupIP_def doh_example_env_def example_doh_def NewDoHServer_def NewResolver_def getCached_def Let_def)
qed

text \<open>In every run the number of successful requests that the statistics report is zero, and every counted request is an error.\<close>

theorem doh_counts_only_failures:
  assumes "doh_step\<^sup>*\<^sup>* (NewDoHServer now cfg rv p) s"
  shows "ht_SuccessCount (doh_GetStats s) = 0 \<and> ht_TotalRequests (doh_GetStats s) = ht_ErrorCount (doh_GetStats s)"
  using dohsys.run_inv [OF _ assms] by (auto simp: failures_only_def doh_GetStats_def)

theorem doh_counts_only_failures_witness:
  "ht_SuccessCount (doh_GetStats (snd (snd (withCORS 0 doh_example_env (example_post\<lparr>rq_Method := ''PUT''\<rparr>) example_doh)))) = 0 \<and>
   ht_TotalRequests (doh_GetStats (snd (snd (withCORS 0 doh_example_env (example_post\<lparr>rq_Method := ''PUT''\<rparr>) example_doh)))) =
     ht_ErrorCount (doh_GetStats (snd (snd (withCORS 0 doh_example_env (example_post\<lparr>rq_Method := ''PUT''\<rparr>) example_doh))))"
  unfolding example_doh_def
  by (rule doh_counts_only_failures, rule r_into_rtranclp, rule request_step)

text \<open>The server reports that it runs when it does not: after a start with TLS and no certificate, where nothing is served,
  and after a stop.\<close>

theorem running_reported_wrongly:
  assumes "dh_Enabled (dh_config s)" "dh_TLSEnabled (dh_config s)" "\<not> dh_AutoTLS (dh_config s)" "dh_CertFile (dh_config s) = []"
    "\<not> dh_shutdown s"
  shows "\<exists>s1 s2. doh_Start True exists bad s = (True, ServesNothing, s1) \<and> IsRunning s1 \<and> doh_Stop s1 = Some (True, s2) \<and> IsRunning s2 \<and>
    doh_Stop s2 = None"
  using assms by (simp add: doh_Start_def start_serving_def Let_def IsRunning_def doh_Stop_def)

theorem running_reported_wrongly_witness:
  "\<exists>s1 s2. doh_Start True (\<lambda>_. False) (\<lambda>_. False) example_doh = (True, ServesNothing, s1) \<and> IsRunning s1 \<and> doh_Stop s1 = Some (True, s2) \<and> IsRunning s2 \<and>
    doh_Stop s2 = None"
  by (rule running_reported_wrongly) (simp_all add: example_doh_def NewDoHServer_def)

end
