(* ===== verification/InetChecksum.thy ===== *)
theory InetChecksum
  imports GoBytes
begin

text \<open>
  The Internet checksum as \<^verbatim>\<open>mtu/discovery.go\<close> computes it: the 16-bit groups are added in a 32-bit word, the carries
  are folded back, and the complement is taken.  The facts below hold for any message short enough not to
  overflow the sum; the packet builders of \<^verbatim>\<open>windivert/dhcp_server.go\<close> rest on them too.
\<close>

unbundle bit_operations_syntax

subsection \<open>The computation\<close>

fun sum16 :: "32 word \<Rightarrow> byte list \<Rightarrow> 32 word" where
  "sum16 s [] = s"
| "sum16 s [b] = s + push_bit 8 (ucast b)"
| "sum16 s (a # b # bs) = sum16 (s + ucast (get16 [a, b])) bs"

lemma unat_fold_parts:
  "unat (drop_bit 16 s :: 32 word) = unat s div 65536" "unat (s AND 65535 :: 32 word) = unat s mod 65536"
proof -
  show "unat (drop_bit 16 s) = unat s div 65536" by (simp add: drop_bit_eq_div unat_div)
  have "(65535 :: 32 word) = mask 16" by (simp add: mask_eq_exp_minus_1)
  then have "s AND 65535 = take_bit 16 s" by (simp add: take_bit_eq_mask)
  then show "unat (s AND 65535) = unat s mod 65536" by (simp add: unat_mod take_bit_eq_mod)
qed

lemma unat_fold_step: "unat (drop_bit 16 s + (s AND 65535) :: 32 word) = unat s div 65536 + unat s mod 65536"
proof -
  have "unat s < 2 ^ 32" using unsigned_less [of s] by simp
  then have "unat s div 65536 + unat s mod 65536 < 2 ^ 32"
    using mod_less_divisor [of 65536 "unat s"] by simp
  then show ?thesis by (simp add: unat_word_ariths unat_fold_parts)
qed

function fold16 :: "32 word \<Rightarrow> 32 word" where
  "fold16 s = (if 65535 < s then fold16 (drop_bit 16 s + (s AND 65535)) else s)"
  by auto

termination
proof (relation "measure unat")
  fix s :: "32 word"
  assume "65535 < s"
  then have "65536 \<le> unat s" by (simp add: word_less_nat_alt)
  then have "0 < unat s div 65536" by (simp add: div_greater_zero_iff)
  then have "unat s div 65536 + unat s mod 65536 < unat s" using div_mult_mod_eq [of "unat s" 65536] by linarith
  then show "(drop_bit 16 s + (s AND 65535), s) \<in> measure unat" by (simp add: unat_fold_step)
qed simp

declare fold16.simps [simp del]

definition calculateChecksum :: "byte list \<Rightarrow> 16 word" where
  "calculateChecksum d = NOT (ucast (fold16 (sum16 0 d)))"

subsection \<open>The checksum\<close>

lemma fold16_mod: "unat (fold16 s) mod 65535 = unat s mod 65535 \<and> unat (fold16 s) \<le> 65535 \<and> (0 < unat s \<longrightarrow> 0 < unat (fold16 s))"
proof (induction s rule: fold16.induct)
  case (1 s)
  show ?case
  proof (cases "65535 < s")
    case True
    let ?t = "drop_bit 16 s + (s AND 65535)"
    have t: "unat ?t = unat s div 65536 + unat s mod 65536" by (rule unat_fold_step)
    have eq: "unat s = 65535 * (unat s div 65536) + unat ?t" using t div_mult_mod_eq [of "unat s" 65536] by linarith
    then have "unat s mod 65535 = unat ?t mod 65535" by (metis mod_mult_self4)
    moreover have "0 < unat s div 65536" using True by (simp add: word_less_nat_alt div_greater_zero_iff)
    then have "0 < unat ?t" using t by simp
    ultimately show ?thesis using "1.IH" [OF True] True by (subst (1 2 3) fold16.simps) simp
  next
    case False
    then have "unat s \<le> 65535" by (simp add: word_less_nat_alt not_less)
    then show ?thesis using False by (subst (1 2 3) fold16.simps) simp
  qed
qed

text \<open>The sum of the 16-bit groups, without wrap-around.\<close>

fun nsum :: "byte list \<Rightarrow> nat" where
  "nsum [] = 0"
| "nsum [b] = 256 * unat b"
| "nsum (a # b # bs) = unat (get16 [a, b]) + nsum bs"

lemma nsum_bound: "nsum d \<le> 65535 * ((length d + 1) div 2)"
proof (induction d rule: nsum.induct)
  case (2 b)
  then show ?case using unat_byte_less [of b] by simp
next
  case (3 a b bs)
  have "unat (get16 [a, b]) \<le> 65535" using unat_u16_less [of "get16 [a, b]"] by simp
  then show ?case using 3 by simp
qed simp

lemma unat_push8:
  "unat (push_bit 8 (ucast (b :: byte)) :: 32 word) = 256 * unat b" "unat (push_bit 8 (ucast b) :: 16 word) = 256 * unat b"
proof -
  have "unat (ucast b :: 32 word) = unat b" "unat (ucast b :: 16 word) = unat b"
    using unat_byte_less [of b] by (simp_all add: unsigned_ucast_eq take_bit_nat_eq_self)
  then show "unat (push_bit 8 (ucast b) :: 32 word) = 256 * unat b" "unat (push_bit 8 (ucast b) :: 16 word) = 256 * unat b"
    using unat_byte_less [of b] by (simp_all add: push_bit_eq_mult unat_word_ariths mult.commute)
qed

lemma unat_sum16: "unat s + nsum d < 2 ^ 32 \<Longrightarrow> unat (sum16 s d) = unat s + nsum d"
proof (induction s d rule: sum16.induct)
  case (2 s b)
  then show ?case by (simp add: unat_word_ariths unat_push8)
next
  case (3 s a b bs)
  have u: "unat (ucast (get16 [a, b]) :: 32 word) = unat (get16 [a, b])"
    using unat_u16_less [of "get16 [a, b]"] by (simp add: unsigned_ucast_eq take_bit_nat_eq_self)
  have "unat (s + ucast (get16 [a, b])) = unat s + unat (get16 [a, b])" using 3(2) u by (simp add: unat_word_ariths)
  then show ?case using 3 by simp
qed simp

lemma nsum_append: "even (length xs) \<Longrightarrow> nsum (xs @ ys) = nsum xs + nsum ys"
  by (induction xs rule: nsum.induct) simp_all

lemma checksum_value:
  assumes "nsum d < 2 ^ 32"
  shows "unat (calculateChecksum d) + unat (fold16 (sum16 0 d)) = 65535"
proof -
  let ?f = "fold16 (sum16 0 d)"
  have "unat ?f \<le> 65535" using fold16_mod by blast
  then have u: "unat (ucast ?f :: 16 word) = unat ?f" by (simp add: unsigned_ucast_eq take_bit_nat_eq_self)
  have "unat (NOT (ucast ?f :: 16 word)) = 65535 - unat (ucast ?f :: 16 word)"
  proof -
    have "NOT (ucast ?f :: 16 word) = - 1 - ucast ?f" by (simp add: not_eq_complement)
    then show ?thesis using unat_sub [of "ucast ?f" "- 1 :: 16 word"] by (simp add: unsigned_minus_1_eq_mask mask_eq_exp_minus_1)
  qed
  then show ?thesis using u \<open>unat ?f \<le> 65535\<close> by (simp add: calculateChecksum_def)
qed

lemma checksum_zero_iff:
  assumes "nsum d < 2 ^ 32"
  shows "calculateChecksum d = 0 \<longleftrightarrow> 0 < nsum d \<and> nsum d mod 65535 = 0"
proof -
  have s: "unat (sum16 0 d) = nsum d" using unat_sum16 [of 0 d] assms by simp
  note f = fold16_mod [of "sum16 0 d"] and v = checksum_value [OF assms]
  have z: "fold16 0 = 0" by (subst fold16.simps) simp
  have "calculateChecksum d = 0 \<longleftrightarrow> unat (fold16 (sum16 0 d)) = 65535" using v by (auto simp: unat_eq_0)
  also have "\<dots> \<longleftrightarrow> 0 < nsum d \<and> nsum d mod 65535 = 0"
  proof
    assume "unat (fold16 (sum16 0 d)) = 65535"
    then show "0 < nsum d \<and> nsum d mod 65535 = 0"
      using f s z by (cases "nsum d = 0") (auto simp: unat_eq_0)
  next
    assume "0 < nsum d \<and> nsum d mod 65535 = 0"
    then have "unat (fold16 (sum16 0 d)) mod 65535 = 0" "0 < unat (fold16 (sum16 0 d))" "unat (fold16 (sum16 0 d)) \<le> 65535"
      using f s by auto
    then show "unat (fold16 (sum16 0 d)) = 65535" by (auto simp: mod_eq_0_iff_dvd elim!: dvdE)
  qed
  finally show ?thesis .
qed

text \<open>A message that carries the checksum of itself with a zero in that place verifies.\<close>

lemma nsum_put16: "nsum (put16 c @ post) = unat c + nsum post"
  using get16_put16 [of c] by (simp add: put16_def)

lemma checksum_inserted:
  assumes m: "m = pre @ [0, 0] @ post" and "even (length pre)" and "length m \<le> 65008" and pos: "0 < nsum m"
  shows "calculateChecksum (pre @ put16 (calculateChecksum m) @ post) = 0"
proof -
  let ?d = "pre @ put16 (calculateChecksum m) @ post"
  have "65535 * ((length m + 1) div 2) \<le> 65535 * 32504" using assms(3) by (intro mult_left_mono) simp_all
  then have small: "nsum m \<le> 65535 * 32504" using nsum_bound [of m] by simp
  then have lt: "nsum m < 2 ^ 32" by simp
  have s: "unat (sum16 0 m) = nsum m" using unat_sum16 [of 0 m] lt by simp
  have "nsum m = nsum pre + nsum post" using assms(2) nsum_put16 [of 0 post] by (simp add: m nsum_append put16_def)
  then have e: "nsum ?d = nsum m + unat (calculateChecksum m)" using assms(2) by (simp add: nsum_append nsum_put16)
  have "unat (calculateChecksum m) < 65536" by (rule unat_u16_less)
  then have lt2: "nsum ?d < 2 ^ 32" using e small by simp
  have "(nsum m + unat (calculateChecksum m)) mod 65535 = (unat (fold16 (sum16 0 m)) + unat (calculateChecksum m)) mod 65535"
    using fold16_mod [of "sum16 0 m"] s by (metis mod_add_left_eq)
  also have "\<dots> = 0" using checksum_value [OF lt] by (simp add: add.commute)
  finally show ?thesis using checksum_zero_iff [OF lt2] e pos by simp
qed

end
