(* ===== verification/MtuDiscovery.thy ===== *)
theory MtuDiscovery
  imports Socks5 InetChecksum "HOL-Library.Product_Lexorder"
begin

text \<open>
  Path MTU discovery (\<^verbatim>\<open>mtu/discovery.go\<close>): the probes, the binary search over them, the ICMP messages with their
  checksum, and the cache of results.  What a socket does with a probe is a record of functions: whether the raw
  socket opens, whether a message is sent, and what is read back.  The resolver of host names is a function too.
\<close>

unbundle bit_operations_syntax

definition MinMTU :: int where "MinMTU = 576"
definition MaxMTU :: int where "MaxMTU = 9000"
definition DefaultMTU :: int where "DefaultMTU = 1500"
definition ICMPHeaderSize :: nat where "ICMPHeaderSize = 8"
definition IPv4HeaderSize :: nat where "IPv4HeaderSize = 20"
definition TCPHeaderSize :: nat where "TCPHeaderSize = 20"

named_theorems mtu_defs \<open>the constants of path MTU discovery\<close>

lemmas [mtu_defs] = MinMTU_def MaxMTU_def DefaultMTU_def ICMPHeaderSize_def IPv4HeaderSize_def TCPHeaderSize_def

subsection \<open>ICMP messages\<close>

definition echo_request :: "byte \<Rightarrow> 16 word \<Rightarrow> 16 word \<Rightarrow> byte list \<Rightarrow> byte list" where
  "echo_request ty i seq body =
     (let msg0 = [ty, 0] @ put16 0 @ put16 i @ put16 seq @ body in copy_to 2 4 (put16 (calculateChecksum msg0)) msg0)"

definition buildICMPEchoRequest :: "16 word \<Rightarrow> 16 word \<Rightarrow> byte list \<Rightarrow> byte list" where
  "buildICMPEchoRequest i seq body = echo_request 8 i seq body"

definition buildICMPv6EchoRequest :: "16 word \<Rightarrow> 16 word \<Rightarrow> byte list \<Rightarrow> byte list" where
  "buildICMPv6EchoRequest i seq body = echo_request 128 i seq body"

subsection \<open>Probes\<close>

record probe_net =
  pn_raw :: bool
  pn_send :: "byte list \<Rightarrow> bool"
  pn_reply :: "byte list \<Rightarrow> byte list option"
  pn_dial :: bool
  pn_udp_send :: "nat \<Rightarrow> bool"

definition probe_body :: "nat \<Rightarrow> byte list" where
  "probe_body mtu = map of_nat [0..<mtu - IPv4HeaderSize - ICMPHeaderSize]"

fun Contains :: "byte list \<Rightarrow> byte list \<Rightarrow> bool" where
  "Contains [] p \<longleftrightarrow> p = []"
| "Contains (b # bs) p \<longleftrightarrow> take (length p) (b # bs) = p \<or> Contains bs p"

definition probeMTUUDP :: "probe_net \<Rightarrow> nat \<Rightarrow> bool" where
  "probeMTUUDP net mtu \<longleftrightarrow> pn_dial net \<and> pn_udp_send net (mtu - IPv4HeaderSize - 8)"

definition probeMTUv4 :: "probe_net \<Rightarrow> 16 word \<Rightarrow> 16 word \<Rightarrow> nat \<Rightarrow> bool" where
  "probeMTUv4 net i seq mtu =
     (if \<not> pn_raw net then probeMTUUDP net mtu
      else
        let body = probe_body mtu; msg = buildICMPEchoRequest i seq body
        in if \<not> pn_send net msg then False
           else case pn_reply net msg of
                  None \<Rightarrow> False
                | Some r \<Rightarrow>
                    let buf = take mtu r in IPv4HeaderSize + ICMPHeaderSize \<le> length buf \<and> Contains buf (take 8 body))"

definition probeMTUv6 :: "probe_net \<Rightarrow> 16 word \<Rightarrow> 16 word \<Rightarrow> nat \<Rightarrow> bool" where
  "probeMTUv6 net i seq mtu =
     (if \<not> pn_raw net then False
      else
        let body = probe_body mtu; msg = buildICMPv6EchoRequest i seq body
        in if \<not> pn_send net msg then False
           else case pn_reply net msg of
                  None \<Rightarrow> False
                | Some r \<Rightarrow> ICMPHeaderSize + length body \<le> length (take mtu r))"

text \<open>\<open>seq\<close> gives the sequence number of each probe, the clock's low bits.\<close>

definition probeMTU :: "probe_net \<Rightarrow> 16 word \<Rightarrow> (int \<Rightarrow> 16 word) \<Rightarrow> bool \<Rightarrow> int \<Rightarrow> bool" where
  "probeMTU net i seq isIPv6 mtu =
     (if isIPv6 then probeMTUv6 net i (seq mtu) (nat mtu) else probeMTUv4 net i (seq mtu) (nat mtu))"

subsection \<open>The search\<close>

function mtu_search :: "(int \<Rightarrow> bool) \<Rightarrow> int \<Rightarrow> int \<Rightarrow> int \<Rightarrow> int" where
  "mtu_search probe low high best =
     (if low \<le> high then
        let mid = (low + high) div 2
        in if probe mid then mtu_search probe (mid + 1) high mid else mtu_search probe low (mid - 1) best
      else best)"
  by auto

termination
  by (relation "measure (\<lambda>(probe, low, high, best). nat (high - low + 1))") auto

declare mtu_search.simps [simp del]

definition discoverPathMTU :: "(int \<Rightarrow> bool) \<Rightarrow> 32 word" where
  "discoverPathMTU probe = of_int (mtu_search probe MinMTU MaxMTU MinMTU)"

subsection \<open>Discovery\<close>

datatype mtu_error = ResolveFailed | NoAddresses

record discovery_result =
  dr_MTU :: "32 word"
  dr_EffectiveMTU :: "32 word"
  dr_Protocol :: string
  dr_Destination :: string
  dr_LastChecked :: instant
  dr_IsValid :: bool
  dr_Error :: "mtu_error option"

definition mtu_overhead :: "string \<Rightarrow> bool \<Rightarrow> int" where
  "mtu_overhead protocol isIPv6 =
     (if isIPv6 then 40 else int IPv4HeaderSize) +
     (if protocol = ''socks5'' then 10 else if protocol = ''wireguard'' then 60 else if protocol = ''pppoe'' then 8 else 0)"

text \<open>\<open>lookup\<close> is \<open>net.LookupIP\<close>, None its error; \<open>probe\<close> says for an address and its family which sizes pass.\<close>

definition performDiscovery :: "(string \<Rightarrow> ip list option) \<Rightarrow> (ip \<Rightarrow> bool \<Rightarrow> int \<Rightarrow> bool) \<Rightarrow> instant \<Rightarrow> string \<Rightarrow> string \<Rightarrow> discovery_result" where
  "performDiscovery lookup probe now destination protocol =
     (let r0 = \<lparr>dr_MTU = of_int DefaultMTU, dr_EffectiveMTU = of_int DefaultMTU, dr_Protocol = protocol,
                dr_Destination = destination, dr_LastChecked = now, dr_IsValid = False, dr_Error = None\<rparr>;
          host = (case SplitHostPort destination of Some (h, _) \<Rightarrow> h | None \<Rightarrow> destination);
          resolved = (case ParseIP host of
                        Some a \<Rightarrow> Inr a
                      | None \<Rightarrow> (case lookup host of
                                  None \<Rightarrow> Inl ResolveFailed
                                | Some [] \<Rightarrow> Inl NoAddresses
                                | Some (a # _) \<Rightarrow> Inr a))
      in case resolved of
           Inl e \<Rightarrow> r0\<lparr>dr_Error := Some e\<rparr>
         | Inr a \<Rightarrow>
             let isIPv6 = (To4 a = None); mtu = discoverPathMTU (probe a isIPv6)
             in r0\<lparr>dr_MTU := mtu, dr_EffectiveMTU := mtu - of_int (mtu_overhead protocol isIPv6), dr_IsValid := True\<rparr>)"

record mtu_entry =
  me_result :: discovery_result
  me_accessCount :: "32 word"
  me_lastAccess :: instant
  me_createdAt :: instant

record mtu_discoverer =
  md_cache :: "string \<rightharpoonup> mtu_entry"
  md_cacheExpiry :: duration
  md_maxCacheSize :: int

definition NewMTUDiscoverer :: mtu_discoverer where
  "NewMTUDiscoverer = \<lparr>md_cache = Map.empty, md_cacheExpiry = 600 * second, md_maxCacheSize = 1000\<rparr>"

definition mtu_hit :: "instant \<Rightarrow> string \<Rightarrow> mtu_discoverer \<Rightarrow> mtu_entry option" where
  "mtu_hit now destination d =
     (case md_cache d destination of
        Some e \<Rightarrow> if now - me_createdAt e < md_cacheExpiry d \<and> dr_IsValid (me_result e) then Some e else None
      | None \<Rightarrow> None)"

definition mtu_touch :: "instant \<Rightarrow> string \<Rightarrow> mtu_entry \<Rightarrow> mtu_discoverer \<Rightarrow> mtu_discoverer" where
  "mtu_touch now destination e d =
     d\<lparr>md_cache := (md_cache d)(destination \<mapsto> e\<lparr>me_accessCount := me_accessCount e + 1, me_lastAccess := now\<rparr>)\<rparr>"

definition DiscoverMTU :: "(string \<Rightarrow> ip list option) \<Rightarrow> (ip \<Rightarrow> bool \<Rightarrow> int \<Rightarrow> bool) \<Rightarrow> instant \<Rightarrow> instant \<Rightarrow> string \<Rightarrow> string \<Rightarrow>
    mtu_discoverer \<Rightarrow> discovery_result \<times> mtu_discoverer" where
  "DiscoverMTU lookup probe now later destination protocol d =
     (case mtu_hit now destination d of
        Some e \<Rightarrow> (me_result e, mtu_touch now destination e d)
      | None \<Rightarrow>
          let result = performDiscovery lookup probe now destination protocol
          in (result, d\<lparr>md_cache := (md_cache d)(destination \<mapsto>
                \<lparr>me_result = result, me_accessCount = 1, me_lastAccess = later, me_createdAt = later\<rparr>)\<rparr>))"

definition GetCachedMTU :: "instant \<Rightarrow> string \<Rightarrow> mtu_discoverer \<Rightarrow> discovery_result option \<times> mtu_discoverer" where
  "GetCachedMTU now destination d =
     (case mtu_hit now destination d of
        Some e \<Rightarrow> (Some (me_result e), mtu_touch now destination e d)
      | None \<Rightarrow> (None, d))"

definition mtu_ClearCache :: "mtu_discoverer \<Rightarrow> mtu_discoverer" where
  "mtu_ClearCache d = d\<lparr>md_cache := Map.empty\<rparr>"

text \<open>
  \<open>ord\<close> and \<open>ord2\<close> are the orders of the two ranges.  \<open>sort.Slice\<close> leaves open how it orders equal entries; a stable
  sort of an arbitrary order covers every outcome.
\<close>

definition mtu_expired :: "instant \<Rightarrow> string list \<Rightarrow> mtu_discoverer \<Rightarrow> string list" where
  "mtu_expired now ord d =
     filter (\<lambda>k. case md_cache d k of Some e \<Rightarrow> now - me_createdAt e > md_cacheExpiry d | None \<Rightarrow> False) ord"

definition use_of :: "(string \<rightharpoonup> mtu_entry) \<Rightarrow> string \<Rightarrow> 32 word \<times> instant" where
  "use_of c k = (me_accessCount (the (c k)), me_lastAccess (the (c k)))"

definition evictStaleEntries :: "instant \<Rightarrow> string list \<Rightarrow> string list \<Rightarrow> mtu_discoverer \<Rightarrow> mtu_discoverer" where
  "evictStaleEntries now ord ord2 d =
     (let c1 = del_keys (md_cache d) (mtu_expired now ord d)
      in if int (length ord2) > md_maxCacheSize d then
           let entries = sort_key (use_of c1) ord2; toRemove = int (length ord2) - go_div (md_maxCacheSize d * 3) 4
           in d\<lparr>md_cache := del_keys c1 (take (nat toRemove) entries)\<rparr>
         else d\<lparr>md_cache := c1\<rparr>)"

subsection \<open>Sizes for a protocol\<close>

definition CalculateMSS :: "32 word \<Rightarrow> bool \<Rightarrow> 32 word" where
  "CalculateMSS mtu isIPv6 =
     (let headerSize = (if isIPv6 then 40 + of_nat TCPHeaderSize else of_nat (IPv4HeaderSize + TCPHeaderSize))
      in if mtu > headerSize then mtu - headerSize else 536)"

definition GetOptimalMTU :: "string \<Rightarrow> 32 word \<Rightarrow> 32 word" where
  "GetOptimalMTU protocol baseMTU =
     (let overhead = (if protocol = ''socks5'' then 10 else if protocol = ''wireguard'' then 60
                      else if protocol = ''pppoe'' then 8 else 0)
      in if baseMTU > overhead then baseMTU - overhead else of_int MinMTU)"

subsection \<open>The messages verify\<close>

lemma echo_request_verifies:
  assumes "length body \<le> 65000" and "ty \<noteq> 0"
  shows "calculateChecksum (echo_request ty i seq body) = 0"
proof -
  define m where "m = [ty, 0] @ [0, 0] @ put16 i @ put16 seq @ body"
  have "echo_request ty i seq body = [ty, 0] @ put16 (calculateChecksum m) @ put16 i @ put16 seq @ body"
    by (simp add: echo_request_def copy_to_def Let_def put16_def m_def)
  moreover have "0 < nsum m" using assms(2) by (simp add: m_def get16_def unat_push8 unat_gt_0)
  moreover have "length m \<le> 65008" using assms(1) by (simp add: m_def)
  ultimately show ?thesis using checksum_inserted [OF m_def] by simp
qed

subsection \<open>The search\<close>

lemma mtu_search_limit:
  assumes "\<And>m. low \<le> m \<Longrightarrow> m \<le> high \<Longrightarrow> probe m \<longleftrightarrow> m \<le> limit"
  shows "mtu_search probe low high best = (if low \<le> high \<and> low \<le> limit then min high limit else best)"
  using assms
proof (induction probe low high best rule: mtu_search.induct)
  case (1 probe low high best)
  let ?mid = "(low + high) div 2"
  show ?case
  proof (cases "low \<le> high")
    case True
    then have mid: "low \<le> ?mid" "?mid \<le> high" by auto
    show ?thesis
    proof (cases "probe ?mid")
      case pt: True
      then have "?mid \<le> limit" using "1.prems" [OF mid] by simp
      moreover have "mtu_search probe (?mid + 1) high ?mid =
          (if ?mid + 1 \<le> high \<and> ?mid + 1 \<le> limit then min high limit else ?mid)"
        using "1.IH"(1) [OF True refl pt] "1.prems" mid(1) by simp
      ultimately show ?thesis using True pt mid by (subst mtu_search.simps) (auto simp: Let_def min_def)
    next
      case pf: False
      then have "limit < ?mid" using "1.prems" [OF mid] by simp
      moreover have "mtu_search probe low (?mid - 1) best = (if low \<le> ?mid - 1 \<and> low \<le> limit then min (?mid - 1) limit else best)"
        using "1.IH"(2) [OF True refl pf] "1.prems" mid(2) by simp
      ultimately show ?thesis using True pf mid by (subst mtu_search.simps) (auto simp: Let_def min_def)
    qed
  next
    case False
    then show ?thesis by (subst mtu_search.simps) simp
  qed
qed

lemma mtu_search_range: "best \<le> low \<Longrightarrow> low \<le> best + 1 \<Longrightarrow> best \<le> high \<Longrightarrow> best \<le> mtu_search probe low high best \<and> mtu_search probe low high best \<le> high"
proof (induction probe low high best rule: mtu_search.induct)
  case (1 probe low high best)
  let ?mid = "(low + high) div 2"
  show ?case
  proof (cases "low \<le> high")
    case True
    then have mid: "low \<le> ?mid" "?mid \<le> high" by auto
    show ?thesis
    proof (cases "probe ?mid")
      case pt: True
      then show ?thesis using "1.IH"(1) [OF True refl pt] "1.prems" True mid
        by (subst (1 2) mtu_search.simps) (simp add: Let_def)
    next
      case pf: False
      show ?thesis
      proof (cases "best \<le> ?mid - 1")
        case True
        then show ?thesis using "1.IH"(2) [OF \<open>low \<le> high\<close> refl pf] "1.prems" \<open>low \<le> high\<close> pf mid
          by (subst (1 2) mtu_search.simps) (simp add: Let_def)
      next
        case False
        then have "?mid - 1 < low" using "1.prems" mid by simp
        then have "mtu_search probe low (?mid - 1) best = best" by (subst mtu_search.simps) simp
        then show ?thesis using \<open>low \<le> high\<close> pf "1.prems" by (subst (1 2) mtu_search.simps) (simp add: Let_def)
      qed
    qed
  next
    case False
    then show ?thesis using "1.prems" by (subst (1 2) mtu_search.simps) simp
  qed
qed

lemma discoverPathMTU_range: "576 \<le> unat (discoverPathMTU probe) \<and> unat (discoverPathMTU probe) \<le> 9000"
proof -
  let ?m = "mtu_search probe MinMTU MaxMTU MinMTU"
  have "576 \<le> ?m" "?m \<le> 9000" using mtu_search_range [of MinMTU MinMTU MaxMTU probe] by (simp_all add: mtu_defs)
  then have "unat (of_int ?m :: 32 word) = nat ?m" by (simp add: unsigned_of_int take_bit_int_eq_self)
  then show ?thesis using \<open>576 \<le> ?m\<close> \<open>?m \<le> 9000\<close> by (simp add: discoverPathMTU_def le_nat_iff nat_le_iff)
qed

lemma Contains_mid: "Contains (xs @ p @ ys) p"
proof (induction xs)
  case Nil
  have "take (length p) (p @ ys) = p" by simp
  then show ?case by (cases "p @ ys") auto
qed simp

lemma length_echo_request [simp]: "length (echo_request ty i seq body) = 8 + length body"
  by (simp add: echo_request_def Let_def)

lemma drop_echo_request: "drop 8 (echo_request ty i seq body) = body"
  by (simp add: echo_request_def copy_to_def Let_def put16_def numeral_eq_Suc)

text \<open>A path that carries packets of at most \<open>limit\<close> bytes, with a header of \<open>hdr\<close> bytes before the message: what fits is
  echoed, its data unchanged, and what does not fit is lost.\<close>

definition echo_path :: "probe_net \<Rightarrow> nat \<Rightarrow> int \<Rightarrow> bool" where
  "echo_path net hdr limit \<longleftrightarrow> pn_raw net \<and> (\<forall>m. pn_send net m) \<and>
     (\<forall>m. if int (length m + hdr) \<le> limit then \<exists>h. length h = 8 \<and> pn_reply net m = Some (h @ drop 8 m) else pn_reply net m = None)"

lemma probe_on_echo_path:
  assumes "echo_path net (if isIPv6 then 40 else 20) limit" and "576 \<le> m"
  shows "probeMTU net i seq isIPv6 m \<longleftrightarrow> m \<le> limit - (if isIPv6 then 20 else 0)"
proof -
  define body where "body = probe_body (nat m)"
  define msg where "msg = echo_request (if isIPv6 then 128 else 8) i (seq m) body"
  define hdr :: nat where "hdr = (if isIPv6 then 40 else 20)"
  have lb: "length body = nat m - 28" by (simp add: body_def probe_body_def mtu_defs)
  then have lm: "length msg = nat m - 20" using assms(2) by (simp add: msg_def)
  have fits: "int (length msg + hdr) \<le> limit \<longleftrightarrow> m \<le> limit - (if isIPv6 then 20 else 0)"
    using lm assms(2) by (auto simp: hdr_def)
  have net: "pn_raw net" "pn_send net msg" using assms(1) by (simp_all add: echo_path_def)
  show ?thesis
  proof (cases "int (length msg + hdr) \<le> limit")
    case True
    then obtain h where h: "length h = 8" "pn_reply net msg = Some (h @ body)"
    proof -
      have "\<exists>h. length h = 8 \<and> pn_reply net msg = Some (h @ drop 8 msg)"
        using assms(1) True unfolding echo_path_def hdr_def by presburger
      then show thesis using that by (auto simp: msg_def drop_echo_request)
    qed
    have all: "take (nat m) (h @ body) = h @ body" using h(1) lb assms(2) by simp
    have "Contains (h @ take 8 body @ drop 8 body) (take 8 body)" by (rule Contains_mid)
    then show ?thesis
      using True fits net h all lb assms(2)
      by (cases isIPv6) (auto simp: probeMTU_def probeMTUv4_def probeMTUv6_def Let_def body_def [symmetric] msg_def
          buildICMPEchoRequest_def buildICMPv6EchoRequest_def mtu_defs)
  next
    case False
    then have "pn_reply net msg = None" using assms(1) by (auto simp: echo_path_def hdr_def split: if_splits)
    then show ?thesis
      using False fits net
      by (auto simp: probeMTU_def probeMTUv4_def probeMTUv6_def Let_def body_def [symmetric] msg_def
          buildICMPEchoRequest_def buildICMPv6EchoRequest_def)
  qed
qed

subsection \<open>Properties\<close>

text \<open>C29. The echo requests carry the checksum that the receiver computes: over the whole message it is zero.\<close>

theorem icmp_checksum_verifies:
  assumes "length body \<le> 65000"
  shows "calculateChecksum (buildICMPEchoRequest i seq body) = 0 \<and> calculateChecksum (buildICMPv6EchoRequest i seq body) = 0"
  using echo_request_verifies [OF assms] by (simp add: buildICMPEchoRequest_def buildICMPv6EchoRequest_def)

theorem icmp_checksum_verifies_witness:
  "calculateChecksum (buildICMPEchoRequest 7 1 [255, 255, 3]) = 0 \<and> calculateChecksum (buildICMPv6EchoRequest 7 1 [255, 255, 3]) = 0"
  by (rule icmp_checksum_verifies) simp


definition example_path :: probe_net where
  "example_path = \<lparr>pn_raw = True, pn_send = (\<lambda>_. True), pn_reply = (\<lambda>m. if length m + 20 \<le> 1400 then Some (replicate 8 0 @ drop 8 m) else None),
     pn_dial = False, pn_udp_send = (\<lambda>_. False)\<rparr>"


text \<open>Without a raw socket every datagram that the socket accepts counts as delivered: the path is said to carry 9000 bytes
  whatever it carries.\<close>

theorem udp_fallback_reports_maximum:
  assumes "\<not> pn_raw net" and "pn_dial net" and "\<And>n. pn_udp_send net n"
  shows "discoverPathMTU (probeMTU net i seq False) = 9000"
proof -
  have "probeMTU net i seq False m" for m using assms by (simp add: probeMTU_def probeMTUv4_def probeMTUUDP_def)
  then have "mtu_search (probeMTU net i seq False) 576 9000 576 = (if (576 :: int) \<le> 9000 \<and> 576 \<le> (9000 :: int) then min 9000 9000 else 576)"
    by (intro mtu_search_limit) simp
  then show ?thesis by (simp add: discoverPathMTU_def mtu_defs)
qed

theorem udp_fallback_reports_maximum_witness:
  "discoverPathMTU (probeMTU \<lparr>pn_raw = False, pn_send = (\<lambda>_. False), pn_reply = (\<lambda>_. None), pn_dial = True, pn_udp_send = (\<lambda>_. True)\<rparr>
     1 (\<lambda>_. 0) False) = 9000"
  by (rule udp_fallback_reports_maximum) simp_all

text \<open>A discovery without an error gives a size between 576 and 9000, and its effective MTU does not wrap below the overhead;
  a discovery with an error is not valid.\<close>

theorem effective_mtu_exact:
  "case dr_Error (performDiscovery lookup probe now destination protocol) of
     None \<Rightarrow> dr_IsValid (performDiscovery lookup probe now destination protocol) \<and>
       576 \<le> unat (dr_MTU (performDiscovery lookup probe now destination protocol)) \<and>
       unat (dr_MTU (performDiscovery lookup probe now destination protocol)) \<le> 9000 \<and>
       (\<exists>v6. int (unat (dr_EffectiveMTU (performDiscovery lookup probe now destination protocol))) =
          int (unat (dr_MTU (performDiscovery lookup probe now destination protocol))) - mtu_overhead protocol v6)
   | Some e \<Rightarrow> dr_IsValid (performDiscovery lookup probe now destination protocol) = False"
proof -
  have no_wrap: "int (unat (m - of_int (mtu_overhead protocol v6))) = int (unat m) - mtu_overhead protocol v6"
    if m: "576 \<le> unat m" for m :: "32 word" and v6
  proof -
    have o: "0 \<le> mtu_overhead protocol v6" "mtu_overhead protocol v6 \<le> 100" by (auto simp: mtu_overhead_def mtu_defs)
    then have u: "unat (of_int (mtu_overhead protocol v6) :: 32 word) = nat (mtu_overhead protocol v6)"
      by (simp add: unsigned_of_int take_bit_int_eq_self)
    then have "of_int (mtu_overhead protocol v6) \<le> m" using m o by (simp add: word_le_nat_alt)
    then have "unat (m - of_int (mtu_overhead protocol v6)) = unat m - nat (mtu_overhead protocol v6)" using u by (simp add: unat_sub)
    then show ?thesis using m o by (simp del: of_nat_unat)
  qed
  show ?thesis
    using discoverPathMTU_range no_wrap
    by (fastforce simp: performDiscovery_def Let_def simp del: of_nat_unat split: option.splits sum.splits list.splits)
qed

lemma take_sorted_le:
  assumes "x \<in> set (take n (sort_key f xs))" and "y \<in> set xs" and "y \<notin> set (take n (sort_key f xs))"
  shows "f x \<le> f y"
proof -
  let ?s = "sort_key f xs"
  have "y \<in> set ?s" using assms(2) by simp
  then have "y \<in> set (drop n ?s)" using assms(3) by (metis Un_iff append_take_drop_id set_append)
  moreover have "sorted (map f (take n ?s) @ map f (drop n ?s))" by (simp flip: map_append)
  ultimately show ?thesis using assms(1) by (auto simp: sorted_append)
qed

text \<open>An eviction leaves at most the configured number of results, none of them expired, and where it had to choose it
  removed only results that were used no more than any that it kept.\<close>

theorem mtu_eviction_correct:
  assumes "range_of (md_cache d) ord" and "range_of (del_keys (md_cache d) (mtu_expired now ord d)) ord2"
    and "0 \<le> md_maxCacheSize d" and "evictStaleEntries now ord ord2 d = d1"
  shows "int (card (Map.dom (md_cache d1))) \<le> md_maxCacheSize d \<and>
    (\<forall>k e. md_cache d1 k = Some e \<longrightarrow> md_cache d k = Some e \<and> now - me_createdAt e \<le> md_cacheExpiry d) \<and>
    (\<forall>k k' e'. md_cache d1 k \<noteq> None \<longrightarrow> md_cache d1 k' = None \<longrightarrow> md_cache d k' = Some e' \<longrightarrow>
       now - me_createdAt e' \<le> md_cacheExpiry d \<longrightarrow> use_of (md_cache d) k' \<le> use_of (md_cache d) k)"
proof -
  define c1 where "c1 = del_keys (md_cache d) (mtu_expired now ord d)"
  define gone where "gone = (if int (length ord2) > md_maxCacheSize d
    then take (nat (int (length ord2) - go_div (md_maxCacheSize d * 3) 4)) (sort_key (use_of c1) ord2) else [])"
  have d1: "md_cache d1 = del_keys c1 gone"
    using assms(4) by (auto simp: evictStaleEntries_def Let_def c1_def gone_def del_keys_def)
  have r2: "distinct ord2" "set ord2 = Map.dom c1" using assms(2) by (simp_all add: range_of_def c1_def)
  have c1: "c1 k = Some e \<longleftrightarrow> md_cache d k = Some e \<and> now - me_createdAt e \<le> md_cacheExpiry d" for k e
    using assms(1) by (auto simp: c1_def mtu_expired_def range_of_def)
  have "set gone \<subseteq> Map.dom c1"
    using r2(2) set_take_subset [of _ "sort_key (use_of c1) ord2"]
    unfolding gone_def by (cases "int (length ord2) > md_maxCacheSize d") simp_all
  moreover have "distinct gone" using r2(1) by (simp add: gone_def)
  ultimately have sub: "set gone \<subseteq> Map.dom c1" "distinct gone" by auto
  have "card (Map.dom (md_cache d1)) = length ord2 - length gone"
    using card_dom_del_keys [OF assms(2) sub [unfolded c1_def]] range_of_card [OF assms(2)] d1 by (simp add: c1_def)
  moreover have "int (length ord2 - length gone) \<le> md_maxCacheSize d"
    using assms(3) by (auto simp: gone_def min_def)
  ultimately have bound: "int (card (Map.dom (md_cache d1))) \<le> md_maxCacheSize d" by simp
  have "use_of (md_cache d) k' \<le> use_of (md_cache d) k"
    if k: "md_cache d1 k \<noteq> None" "md_cache d1 k' = None" "md_cache d k' = Some e'" "now - me_createdAt e' \<le> md_cacheExpiry d" for k k' e'
  proof -
    have "c1 k' = Some e'" using k c1 by simp
    then have g: "k' \<in> set gone" using k(2) d1 by (auto split: if_splits)
    obtain e where e: "c1 k = Some e" "k \<notin> set gone" using k(1) d1 by (auto split: if_splits)
    have "k \<in> set ord2" using e(1) r2(2) by blast
    then have "use_of c1 k' \<le> use_of c1 k" using take_sorted_le g e(2) by (auto simp: gone_def split: if_splits)
    then show ?thesis using \<open>c1 k' = Some e'\<close> e(1) c1 k(3) by (simp add: use_of_def)
  qed
  moreover have "\<forall>k e. md_cache d1 k = Some e \<longrightarrow> md_cache d k = Some e \<and> now - me_createdAt e \<le> md_cacheExpiry d"
    using d1 c1 by (auto split: if_splits)
  ultimately show ?thesis using bound by blast
qed

definition example_mtu :: "32 word \<Rightarrow> mtu_entry" where
  "example_mtu n = \<lparr>me_result = performDiscovery (\<lambda>_. None) (\<lambda>_ _ _. True) 0 [] [], me_accessCount = n, me_lastAccess = 0, me_createdAt = 0\<rparr>"

definition example_discoverer :: mtu_discoverer where
  "example_discoverer = \<lparr>md_cache = [''a'' \<mapsto> example_mtu 2, ''b'' \<mapsto> example_mtu 1], md_cacheExpiry = 600 * second, md_maxCacheSize = 1\<rparr>"

theorem mtu_eviction_correct_witness:
  "int (card (Map.dom (md_cache (evictStaleEntries 5 [''a'', ''b''] [''b'', ''a''] example_discoverer)))) \<le> 1"
proof -
  have x: "mtu_expired 5 [''a'', ''b''] example_discoverer = []"
    by (simp add: mtu_expired_def example_discoverer_def example_mtu_def second_def)
  have "range_of (md_cache example_discoverer) [''a'', ''b'']" "range_of (md_cache example_discoverer) [''b'', ''a'']"
    by (auto simp: range_of_def example_discoverer_def)
  moreover have "del_keys (md_cache example_discoverer) [] = md_cache example_discoverer" by (simp add: del_keys_def)
  ultimately have "int (card (Map.dom (md_cache (evictStaleEntries 5 [''a'', ''b''] [''b'', ''a''] example_discoverer)))) \<le> md_maxCacheSize example_discoverer"
    using mtu_eviction_correct [of example_discoverer "[''a'', ''b'']" 5 "[''b'', ''a'']"] x by (simp add: example_discoverer_def)
  then show ?thesis by (simp add: example_discoverer_def)
qed

end
