(* ===== verification/SmartDhcp.thy ===== *)
theory SmartDhcp
  imports DhcpServer
begin

text \<open>
  Device detection and the device-based address allocator (\<^verbatim>\<open>auto/device_detector.go\<close>, \<^verbatim>\<open>auto/device_profile.go\<close>,
  \<^verbatim>\<open>auto/smart_dhcp.go\<close>), which the DHCP server consults when it is configured.

  The loop over a range of addresses advances its address in place.  For a known device type the address is a fresh slice;
  for an unknown one it is the start of the pool itself, so that the model returns the advanced
  address and the operation stores it as the new start.  The loop compares the address with its own start, which is
  the same slice, so that only the end bounds it.  A search may run forever; then its value is None.
\<close>

unbundle bit_operations_syntax

subsection \<open>Device types\<close>

datatype device_type = DevicePS4 | DevicePS5 | DeviceXbox | DeviceXboxOne | DeviceXboxSX | DeviceSwitch | DevicePC
  | DevicePhone | DeviceTablet | DeviceRobot | DeviceUnknown

primrec type_string :: "device_type \<Rightarrow> string" where
  "type_string DevicePS4 = ''ps4''"
| "type_string DevicePS5 = ''ps5''"
| "type_string DeviceXbox = ''xbox''"
| "type_string DeviceXboxOne = ''xbox_one''"
| "type_string DeviceXboxSX = ''xbox_series''"
| "type_string DeviceSwitch = ''switch''"
| "type_string DevicePC = ''pc''"
| "type_string DevicePhone = ''phone''"
| "type_string DeviceTablet = ''tablet''"
| "type_string DeviceRobot = ''robot''"
| "type_string DeviceUnknown = ''unknown''"

record device_profile =
  dp_Type :: device_type
  dp_Manufacturer :: string
  dp_RequiredPorts :: "int list"
  dp_MTU :: int
  dp_TCPQuirks :: bool
  dp_UDPQuirks :: bool
  dp_ProxyMode :: string
  dp_Priority :: int

definition oui :: "device_type \<Rightarrow> string \<Rightarrow> int list \<Rightarrow> int \<Rightarrow> int \<Rightarrow> device_profile" where
  "oui ty m ports mtu priority =
     \<lparr>dp_Type = ty, dp_Manufacturer = m, dp_RequiredPorts = ports, dp_MTU = mtu, dp_TCPQuirks = False, dp_UDPQuirks = False,
      dp_ProxyMode = [], dp_Priority = priority\<rparr>"

definition ouiDatabase :: "(string \<times> device_profile) list" where
  "ouiDatabase =
    [(''00:9D:6B'', oui DevicePS4 ''Sony'' [3478, 3479, 3480] 0 10),
     (''00:D9:D1'', oui DevicePS4 ''Sony'' [3478, 3479, 3480] 0 10),
     (''6C:39:1B'', oui DevicePS4 ''Sony'' [3478, 3479, 3480] 0 10),
     (''E8:94:F6'', oui DevicePS4 ''Sony'' [3478, 3479, 3480] 0 10),
     (''34:CD:66'', oui DevicePS5 ''Sony'' [3478, 3479, 3480] 1473 10),
     (''0C:DB:00'', oui DevicePS5 ''Sony'' [3478, 3479, 3480] 1473 10),
     (''48:2C:EA'', oui DevicePS5 ''Sony'' [3478, 3479, 3480] 1473 10),
     (''E8:4E:22'', oui DeviceXboxSX ''Microsoft'' [3074, 3075] 0 10),
     (''B4:7C:9C'', oui DeviceXboxOne ''Microsoft'' [3074, 3075] 0 10),
     (''00:25:5C'', oui DeviceXbox ''Microsoft'' [3074] 0 10),
     (''00:15:5D'', oui DeviceXbox ''Microsoft'' [3074] 0 10),
     (''DC:45:17'', oui DeviceXboxSX ''Microsoft'' [3074, 3075] 0 10),
     (''10:DF:54'', oui DeviceXboxOne ''Microsoft'' [3074, 3075] 0 10),
     (''F8:89:32'', oui DeviceSwitch ''Nintendo'' [12400, 12401, 12402] 0 10),
     (''04:94:53'', oui DeviceSwitch ''Nintendo'' [12400, 12401, 12402] 0 10),
     (''68:3A:32'', oui DeviceSwitch ''Nintendo'' [12400, 12401, 12402] 0 10),
     (''0C:FC:83'', oui DeviceSwitch ''Nintendo'' [12400, 12401, 12402] 0 10),
     (''A4:BB:6D'', oui DevicePC ''Dell'' [] 0 5),
     (''B8:AC:6F'', oui DevicePC ''Dell'' [] 0 5),
     (''3C:97:0E'', oui DevicePC ''Dell'' [] 0 5),
     (''F4:8E:38'', oui DevicePC ''Dell'' [] 0 5),
     (''B8:07:51'', oui DevicePC ''HP'' [] 0 5),
     (''1C:C1:DE'', oui DevicePC ''HP'' [] 0 5),
     (''38:63:BB'', oui DevicePC ''HP'' [] 0 5),
     (''F0:18:98'', oui DevicePC ''Intel'' [] 0 5),
     (''54:EE:75'', oui DevicePC ''Intel'' [] 0 5),
     (''A4:83:E7'', oui DevicePhone ''Apple'' [] 0 3),
     (''F4:5C:89'', oui DevicePhone ''Apple'' [] 0 3),
     (''0C:74:C2'', oui DevicePhone ''Apple'' [] 0 3),
     (''2C:54:CF'', oui DevicePhone ''Apple'' [] 0 3),
     (''78:CA:39'', oui DevicePhone ''Apple'' [] 0 3),
     (''AC:87:A3'', oui DeviceTablet ''Apple'' [] 0 3),
     (''44:7E:CA'', oui DevicePhone ''Samsung'' [] 0 3),
     (''58:9D:21'', oui DevicePhone ''Samsung'' [] 0 3),
     (''94:35:0A'', oui DevicePhone ''Samsung'' [] 0 3),
     (''00:BB:3A'', oui DeviceRobot ''iRobot'' [] 0 1),
     (''94:11:DA'', oui DeviceRobot ''iRobot'' [] 0 1),
     (''04:CF:8C'', oui DeviceRobot ''Roborock'' [] 0 1),
     (''04:CF:8D'', oui DeviceRobot ''Roborock'' [] 0 1),
     (''64:09:80'', oui DeviceRobot ''Xiaomi'' [] 0 1),
     (''8C:BE:BE'', oui DevicePhone ''Xiaomi'' [] 0 3)]"

definition normalize_oui :: "string \<Rightarrow> string" where
  "normalize_oui mac = ToUpper (map (\<lambda>c. if c = CHR ''-'' then CHR '':'' else c) mac)"

text \<open>\<open>ord\<close> is the order in which the range visits the keys of the database.\<close>

definition DetectByMAC :: "string list \<Rightarrow> string \<Rightarrow> device_profile" where
  "DetectByMAC ord mac =
     (let m = normalize_oui mac;
          long = (if 8 \<le> length m then map_of ouiDatabase (take 8 m) else None);
          short = (if 5 \<le> length m then find (\<lambda>k. HasPrefix k (take 5 m)) ord else None)
      in case long of
           Some p \<Rightarrow> p
         | None \<Rightarrow> (case short of
                     Some k \<Rightarrow> the (map_of ouiDatabase k)
                   | None \<Rightarrow> oui DeviceUnknown ''Unknown'' [] 0 0))"

definition GetDefaultProfile :: device_profile where
  "GetDefaultProfile = oui DeviceUnknown ''Unknown'' [] 1500 5"

definition IsGamingDevice :: "device_profile \<Rightarrow> bool" where
  "IsGamingDevice p \<longleftrightarrow> dp_Type p \<in> {DevicePS4, DevicePS5, DeviceXbox, DeviceXboxOne, DeviceXboxSX, DeviceSwitch}"

definition IsMobileDevice :: "device_profile \<Rightarrow> bool" where
  "IsMobileDevice p \<longleftrightarrow> dp_Type p = DevicePhone \<or> dp_Type p = DeviceTablet"

definition IsRobot :: "device_profile \<Rightarrow> bool" where
  "IsRobot p \<longleftrightarrow> dp_Type p = DeviceRobot"

definition GenerateDeviceName :: "device_profile \<Rightarrow> string \<Rightarrow> string" where
  "GenerateDeviceName p mac =
     (if dp_Type p = DeviceUnknown then ''Unknown Device ('' @ mac @ '')''
      else dp_Manufacturer p @ '' '' @ type_string (dp_Type p) @
           (if 6 \<le> length mac then '' -'' @ drop (length mac - 6) mac else []))"

subsection \<open>The pool\<close>

record ip_pool =
  pl_Start :: ip
  pl_End :: ip
  pl_Allocated :: "string set"

definition nil_ip :: "ip option \<Rightarrow> ip" where
  "nil_ip a = (case a of None \<Rightarrow> [] | Some b \<Rightarrow> b)"

definition NewIPPool :: "string \<Rightarrow> string \<Rightarrow> ip_pool" where
  "NewIPPool startStr endStr = \<lparr>pl_Start = nil_ip (ParseIP startStr), pl_End = nil_ip (ParseIP endStr), pl_Allocated = {}\<rparr>"

definition offsetIP :: "ip \<Rightarrow> nat \<Rightarrow> ip" where
  "offsetIP base offset =
     (let b = (case To4 base of Some a \<Rightarrow> a | None \<Rightarrow> [0, 0, 0, 0]); v = unat (b ! 3) + offset
      in b[3 := of_nat (if v > 255 then 255 else v)])"

definition ipInt :: "ip \<Rightarrow> 32 word" where
  "ipInt a = (case To4 a of None \<Rightarrow> 0 | Some b \<Rightarrow> get32 b)"

definition intToIP :: "32 word \<Rightarrow> ip" where
  "intToIP i = put32 i"

definition increment_octet :: "ip \<Rightarrow> ip" where
  "increment_octet a = a[3 := a ! 3 + 1]"

datatype scan_result = Free ip | Past ip | ScanPanic

partial_function (option) range_scan :: "ip \<Rightarrow> string set \<Rightarrow> ip \<Rightarrow> scan_result option" where
  "range_scan endIP used a =
     (if ipInt a \<le> ipInt endIP then
        (if IP_String a \<notin> used then Some (Free a)
         else if length a < 4 then Some ScanPanic
         else range_scan endIP used (increment_octet a))
      else Some (Past a))"

partial_function (option) any_scan :: "32 word \<Rightarrow> string set \<Rightarrow> 32 word \<Rightarrow> 32 word option option" where
  "any_scan endInt used i =
     (if i \<le> endInt then
        (if IP_String (intToIP i) \<notin> used then Some (Some i) else any_scan endInt used (i + 1))
      else Some None)"

text \<open>The allocation of \<open>AllocateAny\<close>; the empty text when the pool is exhausted.\<close>

definition AllocateAny :: "ip_pool \<Rightarrow> (string \<times> ip_pool) option" where
  "AllocateAny p =
     (case any_scan (ipInt (pl_End p)) (pl_Allocated p) (ipInt (pl_Start p)) of
        None \<Rightarrow> None
      | Some None \<Rightarrow> Some ([], p)
      | Some (Some i) \<Rightarrow>
          let s = IP_String (intToIP i) in Some (s, p\<lparr>pl_Allocated := insert s (pl_Allocated p)\<rparr>))"

definition type_offsets :: "device_type \<Rightarrow> (nat \<times> nat) option" where
  "type_offsets ty =
     (if ty \<in> {DevicePS4, DevicePS5} then Some (100, 119)
      else if ty \<in> {DeviceXbox, DeviceXboxOne, DeviceXboxSX} then Some (120, 139)
      else if ty = DeviceSwitch then Some (140, 149)
      else if ty = DevicePC then Some (150, 199)
      else if ty \<in> {DevicePhone, DeviceTablet} then Some (200, 229)
      else if ty = DeviceRobot then Some (230, 249)
      else None)"

definition getIPRangeForType :: "device_type \<Rightarrow> ip_pool \<Rightarrow> ip \<times> ip" where
  "getIPRangeForType ty p =
     (case type_offsets ty of
        Some (a, b) \<Rightarrow> (offsetIP (pl_Start p) a, offsetIP (pl_Start p) b)
      | None \<Rightarrow> (pl_Start p, pl_End p))"

text \<open>The loop leaves its address behind: in the pool's start when the range is the pool itself.\<close>

definition leave_at :: "device_type \<Rightarrow> ip \<Rightarrow> ip_pool \<Rightarrow> ip_pool" where
  "leave_at ty a p = (if type_offsets ty = None then p\<lparr>pl_Start := a\<rparr> else p)"

datatype smart_outcome = SmartIP string | SmartPanic

definition allocateIPForType :: "device_type \<Rightarrow> ip_pool \<Rightarrow> (smart_outcome \<times> ip_pool) option" where
  "allocateIPForType ty p =
     (let (startIP, endIP) = getIPRangeForType ty p
      in case range_scan endIP (pl_Allocated p) startIP of
           None \<Rightarrow> None
         | Some ScanPanic \<Rightarrow> Some (SmartPanic, p)
         | Some (Free a) \<Rightarrow>
             Some (SmartIP (IP_String a), (leave_at ty a p)\<lparr>pl_Allocated := insert (IP_String a) (pl_Allocated p)\<rparr>)
         | Some (Past a) \<Rightarrow>
             map_option (\<lambda>(s, p1). (SmartIP s, p1)) (AllocateAny (leave_at ty a p)))"

subsection \<open>The manager\<close>

record static_lease =
  sl_MAC :: string
  sl_IP :: string
  sl_DeviceName :: string
  sl_DeviceType :: device_type
  sl_LastSeen :: instant
  sl_ExpiresAt :: instant

record smart_manager =
  sm_staticLeases :: "string \<rightharpoonup> static_lease"
  sm_pool :: ip_pool
  sm_leaseHistory :: "string \<rightharpoonup> instant list"
  sm_deviceProfiles :: "string \<rightharpoonup> device_profile"
  sm_size :: int

definition NewSmartDHCPManager :: "string \<Rightarrow> string \<Rightarrow> smart_manager" where
  "NewSmartDHCPManager poolStart poolEnd =
     \<lparr>sm_staticLeases = Map.empty, sm_pool = NewIPPool poolStart poolEnd, sm_leaseHistory = Map.empty,
      sm_deviceProfiles = Map.empty, sm_size = 0\<rparr>"

definition GetIPForDevice :: "instant \<Rightarrow> string \<Rightarrow> device_profile \<Rightarrow> smart_manager \<Rightarrow> (smart_outcome \<times> smart_manager) option" where
  "GetIPForDevice now mac profile m =
     (case sm_staticLeases m mac of
        Some l \<Rightarrow> Some (SmartIP (sl_IP l), m\<lparr>sm_staticLeases := (sm_staticLeases m)(mac \<mapsto> l\<lparr>sl_LastSeen := now\<rparr>)\<rparr>)
      | None \<Rightarrow>
          (case allocateIPForType (dp_Type profile) (sm_pool m) of
             None \<Rightarrow> None
           | Some (SmartPanic, p) \<Rightarrow> Some (SmartPanic, m\<lparr>sm_pool := p\<rparr>)
           | Some (SmartIP s, p) \<Rightarrow>
               let l = \<lparr>sl_MAC = mac, sl_IP = s, sl_DeviceName = GenerateDeviceName profile mac, sl_DeviceType = dp_Type profile,
                        sl_LastSeen = now, sl_ExpiresAt = now + 86400 * second\<rparr>
               in Some (SmartIP s, m\<lparr>sm_staticLeases := (sm_staticLeases m)(mac \<mapsto> l), sm_pool := p,
                      sm_deviceProfiles := (sm_deviceProfiles m)(mac \<mapsto> profile), sm_size := i32 (sm_size m + 1)\<rparr>)))"

definition RemoveLease :: "string \<Rightarrow> smart_manager \<Rightarrow> smart_manager" where
  "RemoveLease mac m =
     (case sm_staticLeases m mac of
        None \<Rightarrow> m
      | Some l \<Rightarrow>
          m\<lparr>sm_staticLeases := (sm_staticLeases m)(mac := None),
            sm_pool := (sm_pool m)\<lparr>pl_Allocated := pl_Allocated (sm_pool m) - {sl_IP l}\<rparr>,
            sm_size := i32 (sm_size m - 1)\<rparr>)"

definition GetLeaseByMAC :: "string \<Rightarrow> smart_manager \<Rightarrow> static_lease option" where
  "GetLeaseByMAC mac m = sm_staticLeases m mac"

definition GetDeviceCount :: "smart_manager \<Rightarrow> int" where
  "GetDeviceCount m = sm_size m"

definition GetDeviceByType :: "string list \<Rightarrow> device_type \<Rightarrow> smart_manager \<Rightarrow> static_lease list" where
  "GetDeviceByType ord ty m =
     filter (\<lambda>l. sl_DeviceType l = ty) (map (\<lambda>k. the (sm_staticLeases m k)) ord)"

definition RecordConnection :: "instant \<Rightarrow> string \<Rightarrow> smart_manager \<Rightarrow> nat \<times> smart_manager" where
  "RecordConnection now mac m =
     (let cutoff = now - 60 * second;
          history = (case sm_leaseHistory m mac of Some h \<Rightarrow> h | None \<Rightarrow> []);
          newHistory = filter (\<lambda>t. t > cutoff) history @ [now]
      in (length newHistory, m\<lparr>sm_leaseHistory := (sm_leaseHistory m)(mac \<mapsto> newHistory)\<rparr>))"

subsection \<open>What a search finds\<close>

lemma range_scan_free: "range_scan endIP used a = Some (Free b) \<Longrightarrow> IP_String b \<notin> used"
  by (drule range_scan.raw_induct [where P = "\<lambda>_ used _ r. \<forall>b. r = Free b \<longrightarrow> IP_String b \<notin> used", rotated])
    (auto split: if_splits)

lemma any_scan_free: "any_scan e used i = Some (Some j) \<Longrightarrow> IP_String (intToIP j) \<notin> used"
  by (drule any_scan.raw_induct [where P = "\<lambda>_ used _ r. \<forall>j. r = Some j \<longrightarrow> IP_String (intToIP j) \<notin> used", rotated])
    (auto split: if_splits)

lemma pool_of_leave_at [simp]: "pl_Allocated (leave_at ty a p) = pl_Allocated p"
  by (simp add: leave_at_def)

lemma AllocateAny_fresh:
  assumes "AllocateAny p = Some (s, p')"
  shows "s = [] \<and> p' = p \<or> s \<noteq> [] \<and> s \<notin> pl_Allocated p \<and> pl_Allocated p' = insert s (pl_Allocated p)"
  using assms any_scan_free by (fastforce simp: AllocateAny_def Let_def split: option.splits)

lemma allocateIPForType_fresh:
  assumes "allocateIPForType ty p = Some (SmartIP s, p')"
  shows "s = [] \<and> pl_Allocated p' = pl_Allocated p \<or> s \<noteq> [] \<and> s \<notin> pl_Allocated p \<and> pl_Allocated p' = insert s (pl_Allocated p)"
proof -
  obtain st en where r: "getIPRangeForType ty p = (st, en)" by fastforce
  show ?thesis
  proof (cases "range_scan en (pl_Allocated p) st")
    case (Some x)
    then show ?thesis
    proof (cases x)
      case (Free a)
      then show ?thesis using assms Some r range_scan_free [of en "pl_Allocated p" st a] by (auto simp: allocateIPForType_def)
    next
      case (Past a)
      then have "AllocateAny (leave_at ty a p) = Some (s, p')" using assms Some r by (auto simp: allocateIPForType_def)
      then show ?thesis using AllocateAny_fresh by fastforce
    qed (use assms Some r in \<open>auto simp: allocateIPForType_def\<close>)
  qed (use assms r in \<open>auto simp: allocateIPForType_def\<close>)
qed

lemma allocateIPForType_panic: "allocateIPForType ty p = Some (SmartPanic, p') \<Longrightarrow> p' = p"
  by (auto simp: allocateIPForType_def Let_def split: prod.splits option.splits scan_result.splits)

subsection \<open>Leases are distinct\<close>

definition smart_inv :: "smart_manager \<Rightarrow> bool" where
  "smart_inv m \<longleftrightarrow>
     (\<forall>k l. sm_staticLeases m k = Some l \<longrightarrow> sl_IP l \<noteq> [] \<longrightarrow> sl_IP l \<in> pl_Allocated (sm_pool m)) \<and>
     (\<forall>k k' l l'. sm_staticLeases m k = Some l \<longrightarrow> sm_staticLeases m k' = Some l' \<longrightarrow> sl_IP l = sl_IP l' \<longrightarrow> sl_IP l \<noteq> [] \<longrightarrow> k = k')"

lemma smart_inv_device:
  assumes "smart_inv m" and "GetIPForDevice now mac profile m = Some (r, m')"
  shows "smart_inv m'"
proof (cases "sm_staticLeases m mac")
  case (Some l)
  then have m': "m' = m\<lparr>sm_staticLeases := (sm_staticLeases m)(mac \<mapsto> l\<lparr>sl_LastSeen := now\<rparr>)\<rparr>"
    using assms(2) by (simp add: GetIPForDevice_def)
  show ?thesis unfolding smart_inv_def m'
    using assms(1) Some by (auto simp: smart_inv_def split: if_splits) metis
next
  case None
  then obtain out p where a: "allocateIPForType (dp_Type profile) (sm_pool m) = Some (out, p)"
    using assms(2) by (auto simp: GetIPForDevice_def split: option.splits)
  show ?thesis
  proof (cases out)
    case SmartPanic
    then have "p = sm_pool m" using a allocateIPForType_panic by blast
    then have "m' = m" using assms(2) None a SmartPanic by (simp add: GetIPForDevice_def)
    then show ?thesis using assms(1) by simp
  next
    case (SmartIP s)
    let ?l = "\<lparr>sl_MAC = mac, sl_IP = s, sl_DeviceName = GenerateDeviceName profile mac, sl_DeviceType = dp_Type profile,
                 sl_LastSeen = now, sl_ExpiresAt = now + 86400 * second\<rparr>"
    have m': "sm_staticLeases m' = (sm_staticLeases m)(mac \<mapsto> ?l)" "sm_pool m' = p"
      using assms(2) None a SmartIP by (auto simp: GetIPForDevice_def)
    have f: "s = [] \<and> pl_Allocated p = pl_Allocated (sm_pool m) \<or>
        s \<noteq> [] \<and> s \<notin> pl_Allocated (sm_pool m) \<and> pl_Allocated p = insert s (pl_Allocated (sm_pool m))"
      using allocateIPForType_fresh a SmartIP by blast
    then show ?thesis unfolding smart_inv_def m' using assms(1) unfolding smart_inv_def
      by (auto split: if_splits)
  qed
qed

lemma smart_inv_remove: "smart_inv m \<Longrightarrow> smart_inv (RemoveLease mac m)"
  unfolding RemoveLease_def smart_inv_def by (auto split: option.splits if_splits)

inductive smart_step :: "smart_manager \<Rightarrow> smart_manager \<Rightarrow> bool" where
  device: "GetIPForDevice now mac profile m = Some (r, m') \<Longrightarrow> smart_step m m'"
| remove: "smart_step m (RemoveLease mac m)"
| connect: "smart_step m (snd (RecordConnection now mac m))"

interpretation smart: invariant_system "\<lambda>m. \<exists>a b. m = NewSmartDHCPManager a b" smart_step smart_inv
proof unfold_locales
  show "smart_inv m" if "\<exists>a b. m = NewSmartDHCPManager a b" for m
    using that by (auto simp: smart_inv_def NewSmartDHCPManager_def)
  show "smart_inv m'" if "smart_inv m" and "smart_step m m'" for m m'
    using that(2,1)
  proof (cases rule: smart_step.cases)
    case (connect now mac)
    then show ?thesis using that(1) by (simp add: smart_inv_def RecordConnection_def Let_def)
  qed (auto intro: smart_inv_device smart_inv_remove)
qed

subsection \<open>Searching a range\<close>

lemma To4_list4 [simp]: "To4 [a, b, c, d] = Some [a, b, c, d]"
  by (simp add: To4_def)

lemma ipInt_le: "ipInt [a, b, c, x] \<le> ipInt [a, b, c, y] \<longleftrightarrow> x \<le> y"
  by (simp add: ipInt_def word_le_nat_alt unat_get32)

lemma increment_octet_nat: "n < 255 \<Longrightarrow> increment_octet [a, b, c, of_nat n] = [a, b, c, of_nat (Suc n)]"
  by (simp add: increment_octet_def add.commute)

lemma range_scan_finds:
  assumes "j \<le> k" and "k \<le> hi" and "hi < 256" and "IP_String [a, b, c, of_nat k] \<notin> used"
    and "\<And>i. j \<le> i \<Longrightarrow> i < k \<Longrightarrow> IP_String [a, b, c, of_nat i] \<in> used"
  shows "range_scan [a, b, c, of_nat hi] used [a, b, c, of_nat j] = Some (Free [a, b, c, of_nat k])"
  using assms
proof (induction "k - j" arbitrary: j)
  case 0
  then have "j = k" by simp
  moreover have "(of_nat k :: byte) \<le> of_nat hi" using 0 by (simp add: word_le_nat_alt unat_of_nat)
  ultimately show ?case using 0 by (subst range_scan.simps) (simp add: ipInt_le)
next
  case (Suc n)
  then have jk: "j < k" by simp
  have "(of_nat j :: byte) \<le> of_nat hi" using jk Suc.prems by (simp add: word_le_nat_alt unat_of_nat)
  moreover have "IP_String [a, b, c, of_nat j] \<in> used" using Suc.prems(5) jk by blast
  moreover have "increment_octet [a, b, c, of_nat j] = [a, b, c, of_nat (Suc j)]" using jk Suc.prems by (intro increment_octet_nat) simp
  moreover have "range_scan [a, b, c, of_nat hi] used [a, b, c, of_nat (Suc j)] = Some (Free [a, b, c, of_nat k])"
    using Suc jk by (intro Suc.hyps(1)) auto
  ultimately show ?case by (subst range_scan.simps) (simp add: ipInt_le del: of_nat_Suc)
qed

lemma allocateIPForType_first:
  assumes "To4 (pl_Start p) = Some [a, b, c, d]" and "type_offsets ty = Some (lo, hi)" and "unat d + hi \<le> 255"
    and "lo \<le> k" and "k \<le> hi" and "IP_String [a, b, c, of_nat (unat d + k)] \<notin> pl_Allocated p"
    and "\<And>i. lo \<le> i \<Longrightarrow> i < k \<Longrightarrow> IP_String [a, b, c, of_nat (unat d + i)] \<in> pl_Allocated p"
  shows "allocateIPForType ty p = Some (SmartIP (IP_String [a, b, c, of_nat (unat d + k)]),
    p\<lparr>pl_Allocated := insert (IP_String [a, b, c, of_nat (unat d + k)]) (pl_Allocated p)\<rparr>)"
proof -
  have r: "getIPRangeForType ty p = ([a, b, c, of_nat (unat d + lo)], [a, b, c, of_nat (unat d + hi)])"
    using assms(1-5) by (simp add: getIPRangeForType_def offsetIP_def)
  have "range_scan [a, b, c, of_nat (unat d + hi)] (pl_Allocated p) [a, b, c, of_nat (unat d + lo)] = Some (Free [a, b, c, of_nat (unat d + k)])"
  proof (rule range_scan_finds)
    fix i
    assume "unat d + lo \<le> i" and "i < unat d + k"
    then show "IP_String [a, b, c, of_nat i] \<in> pl_Allocated p" using assms(7) [of "i - unat d"] by simp
  qed (use assms in simp_all)
  then show ?thesis using r assms(2) by (simp add: allocateIPForType_def leave_at_def del: of_nat_add)
qed

text \<open>A console, computer or phone gets the first free address of the range of its type, while there is one.\<close>

theorem typed_device_gets_its_range:
  assumes "To4 (pl_Start p) = Some [a, b, c, d]" and "type_offsets ty = Some (lo, hi)" and "unat d + hi \<le> 255"
    and "lo \<le> k" and "k \<le> hi" and "IP_String [a, b, c, of_nat (unat d + k)] \<notin> pl_Allocated p"
    and "\<And>i. lo \<le> i \<Longrightarrow> i < k \<Longrightarrow> IP_String [a, b, c, of_nat (unat d + i)] \<in> pl_Allocated p"
  shows "\<exists>p'. allocateIPForType ty p = Some (SmartIP (IP_String [a, b, c, of_nat (unat d + k)]), p') \<and> pl_Start p' = pl_Start p"
  using allocateIPForType_first [OF assms] by simp

theorem typed_device_gets_its_range_witness:
  "\<exists>p'. allocateIPForType DeviceSwitch \<lparr>pl_Start = [10, 0, 0, 1], pl_End = [10, 0, 0, 250], pl_Allocated = {''10.0.0.141''}\<rparr> =
     Some (SmartIP (IP_String [10, 0, 0, of_nat (unat (1 :: byte) + 141)]), p') \<and> pl_Start p' = [10, 0, 0, 1]"
proof -
  let ?p = "\<lparr>pl_Start = [10, 0, 0, 1], pl_End = [10, 0, 0, 250], pl_Allocated = {''10.0.0.141''}\<rparr> :: ip_pool"
  have "IP_String [10, 0, 0, 142] = ''10.0.0.142''" "IP_String [10, 0, 0, 141] = ''10.0.0.141''" by code_simp+
  then have "\<exists>p'. allocateIPForType DeviceSwitch ?p = Some (SmartIP (IP_String [10, 0, 0, of_nat (unat (1 :: byte) + 141)]), p') \<and>
      pl_Start p' = pl_Start ?p"
    by (intro typed_device_gets_its_range [where lo = 140 and hi = 149])
      (auto simp: type_offsets_def less_Suc_eq_le le_Suc_eq numeral_eq_Suc)
  then show ?thesis by simp
qed

text \<open>C33. However devices come and go, two devices never hold the same address of the allocator.\<close>

theorem smart_leases_distinct:
  assumes "smart_step\<^sup>*\<^sup>* (NewSmartDHCPManager poolStart poolEnd) m"
    and "GetLeaseByMAC mac m = Some l" and "GetLeaseByMAC mac' m = Some l'" and "mac \<noteq> mac'" and "sl_IP l \<noteq> []"
  shows "sl_IP l \<noteq> sl_IP l'"
  using smart.run_inv [OF _ assms(1)] assms(2-5) unfolding smart_inv_def GetLeaseByMAC_def by blast

lemma some_pair: "x \<noteq> None \<Longrightarrow> x = Some (fst (the x), snd (the x))"
  by auto

definition console :: device_profile where
  "console = oui DevicePS4 ''Sony'' [] 0 10"

definition one_console :: smart_manager where
  "one_console = snd (the (GetIPForDevice 0 ''m1'' console (NewSmartDHCPManager ''10.0.0.1'' ''10.0.0.250'')))"

definition two_consoles :: smart_manager where
  "two_consoles = snd (the (GetIPForDevice 0 ''m2'' console one_console))"

lemma console_pool:
  "sm_pool (NewSmartDHCPManager ''10.0.0.1'' ''10.0.0.250'') =
     \<lparr>pl_Start = v4InV6Prefix @ [10, 0, 0, 1], pl_End = v4InV6Prefix @ [10, 0, 0, 250], pl_Allocated = {}\<rparr>"
proof -
  have "ParseIP ''10.0.0.1'' = Some (v4InV6Prefix @ [10, 0, 0, 1])" "ParseIP ''10.0.0.250'' = Some (v4InV6Prefix @ [10, 0, 0, 250])"
    by code_simp+
  then show ?thesis by (simp add: NewSmartDHCPManager_def NewIPPool_def nil_ip_def)
qed

lemma GetIPForDevice_lease:
  assumes "GetIPForDevice now mac profile m = Some (SmartIP s, m')"
  shows "\<exists>l. GetLeaseByMAC mac m' = Some l \<and> sl_IP l = s" and "mac' \<noteq> mac \<Longrightarrow> GetLeaseByMAC mac' m' = GetLeaseByMAC mac' m"
  using assms by (auto simp: GetIPForDevice_def GetLeaseByMAC_def split: option.splits smart_outcome.splits)

lemma GetIPForDevice_pool:
  assumes "GetIPForDevice now mac profile m = Some (r, m')" and "GetLeaseByMAC mac m = None"
    and "allocateIPForType (dp_Type profile) (sm_pool m) = Some (r', p)"
  shows "sm_pool m' = p"
  using assms by (cases r') (auto simp: GetIPForDevice_def GetLeaseByMAC_def)

lemma console_addresses: "IP_String [10, 0, 0, 101] = ''10.0.0.101''" "IP_String [10, 0, 0, 102] = ''10.0.0.102''"
  by code_simp+

lemma console_steps:
  "GetIPForDevice 0 ''m1'' console (NewSmartDHCPManager ''10.0.0.1'' ''10.0.0.250'') = Some (SmartIP ''10.0.0.101'', one_console)"
  "GetIPForDevice 0 ''m2'' console one_console = Some (SmartIP ''10.0.0.102'', two_consoles)"
proof -
  have ty: "dp_Type console = DevicePS4" by (simp add: console_def oui_def)
  have o: "type_offsets DevicePS4 = Some (100, 119)" by (simp add: type_offsets_def)
  let ?p = "\<lparr>pl_Start = v4InV6Prefix @ [10, 0, 0, 1], pl_End = v4InV6Prefix @ [10, 0, 0, 250], pl_Allocated = {}\<rparr>"
  have t: "To4 (v4InV6Prefix @ [10, 0, 0, 1]) = Some [10, 0, 0, 1]" by (simp add: To4_def v4InV6Prefix_def)
  have 1: "allocateIPForType DevicePS4 ?p = Some (SmartIP ''10.0.0.101'', ?p\<lparr>pl_Allocated := {''10.0.0.101''}\<rparr>)"
    using allocateIPForType_first [of ?p 10 0 0 1 DevicePS4 100 119 100] t o by (simp add: console_addresses)
  have 2: "allocateIPForType DevicePS4 (?p\<lparr>pl_Allocated := {''10.0.0.101''}\<rparr>) =
      Some (SmartIP ''10.0.0.102'', ?p\<lparr>pl_Allocated := {''10.0.0.102'', ''10.0.0.101''}\<rparr>)"
  proof -
    have "IP_String [10, 0, 0, of_nat (unat (1 :: byte) + i)] \<in> {''10.0.0.101''}" if "100 \<le> i" and "i < 101" for i
    proof -
      have "i = 100" using that by simp
      then show ?thesis by (simp add: console_addresses)
    qed
    then show ?thesis
      using allocateIPForType_first [of "?p\<lparr>pl_Allocated := {''10.0.0.101''}\<rparr>" 10 0 0 1 DevicePS4 100 119 101] t o
      by (simp add: console_addresses)
  qed
  show s1: "GetIPForDevice 0 ''m1'' console (NewSmartDHCPManager ''10.0.0.1'' ''10.0.0.250'') = Some (SmartIP ''10.0.0.101'', one_console)"
    using 1 console_pool ty by (simp add: one_console_def GetIPForDevice_def) (simp add: NewSmartDHCPManager_def)
  have "sm_pool one_console = ?p\<lparr>pl_Allocated := {''10.0.0.101''}\<rparr>"
    using GetIPForDevice_pool [OF s1] 1 console_pool ty by (simp add: GetLeaseByMAC_def) (simp add: NewSmartDHCPManager_def)
  moreover have "sm_staticLeases one_console ''m2'' = None"
    using GetIPForDevice_lease(2) [OF s1, of "''m2''"] by (simp add: GetLeaseByMAC_def) (simp add: NewSmartDHCPManager_def)
  ultimately show "GetIPForDevice 0 ''m2'' console one_console = Some (SmartIP ''10.0.0.102'', two_consoles)"
    using 2 ty by (simp add: two_consoles_def GetIPForDevice_def)
qed

theorem smart_leases_distinct_witness:
  "\<exists>l l'. GetLeaseByMAC ''m1'' two_consoles = Some l \<and> GetLeaseByMAC ''m2'' two_consoles = Some l' \<and> sl_IP l \<noteq> sl_IP l'"
proof -
  have run: "smart_step\<^sup>*\<^sup>* (NewSmartDHCPManager ''10.0.0.1'' ''10.0.0.250'') two_consoles"
    using smart_step.device [OF console_steps(1)] smart_step.device [OF console_steps(2)] by simp
  obtain l where "GetLeaseByMAC ''m1'' one_console = Some l" "sl_IP l = ''10.0.0.101''"
    using GetIPForDevice_lease(1) [OF console_steps(1)] by blast
  moreover obtain l' where "GetLeaseByMAC ''m2'' two_consoles = Some l'" using GetIPForDevice_lease(1) [OF console_steps(2)] by blast
  ultimately have "GetLeaseByMAC ''m1'' two_consoles = Some l" "sl_IP l = ''10.0.0.101''" "GetLeaseByMAC ''m2'' two_consoles = Some l'"
    using GetIPForDevice_lease(2) [OF console_steps(2), of "''m1''"] by simp_all
  then show ?thesis using smart_leases_distinct [OF run] by fastforce
qed

subsection \<open>Devices of unknown type\<close>

lemma incremented_start:
  "To4 (increment_octet (v4InV6Prefix @ [a, b, c, d])) = None"
  "IP_String (increment_octet (v4InV6Prefix @ [a, b, c, d])) \<noteq> v4_string x"
proof -
  let ?a = "increment_octet (v4InV6Prefix @ [a, b, c, d])"
  have l: "?a = [0, 0, 0, 1, 0, 0, 0, 0, 0, 0, 255, 255, a, b, c, d]"
    by (simp add: increment_octet_def v4InV6Prefix_def numeral_3_eq_3)
  then show n: "To4 ?a = None" by (simp add: To4_def v4InV6Prefix_def)
  then have "IP_String ?a = v6_string ?a" by (simp add: IP_String_def) (simp add: l)
  moreover have "CHR '':'' \<in> set (v6_string ?a)" by (rule v6_string_colon) (simp add: l)
  ultimately show "IP_String ?a \<noteq> v4_string x" using v4_string_no_brackets(1) by metis
qed

lemma first_unknown_device:
  assumes "pl_Start p = v4InV6Prefix @ [a, b, c, d]" and "pl_Allocated p = {}" and "ipInt (pl_Start p) \<le> ipInt (pl_End p)"
  shows "allocateIPForType DeviceUnknown p = Some (SmartIP (v4_string [a, b, c, d]), p\<lparr>pl_Allocated := {v4_string [a, b, c, d]}\<rparr>)"
proof -
  have "IP_String (v4InV6Prefix @ [a, b, c, d]) = v4_string [a, b, c, d]"
    by (rule IP_String_v4) (simp add: To4_def v4InV6Prefix_def)
  moreover have "range_scan (pl_End p) {} (pl_Start p) = Some (Free (pl_Start p))"
    using assms(3) by (subst range_scan.simps) simp
  ultimately show ?thesis
    using assms(1,2) by (simp add: allocateIPForType_def getIPRangeForType_def type_offsets_def leave_at_def)
qed

lemma second_unknown_device:
  assumes "pl_Start p = v4InV6Prefix @ [a, b, c, d]" and "pl_Allocated p = {v4_string [a, b, c, d]}" and "ipInt (pl_Start p) \<le> ipInt (pl_End p)"
  defines "q \<equiv> increment_octet (v4InV6Prefix @ [a, b, c, d])"
  shows "allocateIPForType DeviceUnknown p =
    Some (SmartIP (IP_String q), p\<lparr>pl_Start := q, pl_Allocated := {IP_String q, v4_string [a, b, c, d]}\<rparr>)"
proof -
  have s: "IP_String (v4InV6Prefix @ [a, b, c, d]) = v4_string [a, b, c, d]"
    by (rule IP_String_v4) (simp add: To4_def v4InV6Prefix_def)
  have "ipInt q = 0" using incremented_start(1) by (simp add: ipInt_def q_def)
  then have "range_scan (pl_End p) (pl_Allocated p) q = Some (Free q)"
    using incremented_start(2) assms(2) by (subst range_scan.simps) (simp add: q_def)
  then have "range_scan (pl_End p) (pl_Allocated p) (pl_Start p) = Some (Free q)"
    using assms(1-3) s by (subst range_scan.simps) (simp add: q_def v4InV6Prefix_def)
  then show ?thesis
    using assms(2) by (simp add: allocateIPForType_def getIPRangeForType_def type_offsets_def leave_at_def)
qed



end
