(* ===== verification/NpcapDhcp.thy ===== *)
theory NpcapDhcp
  imports SmartDhcp
begin

text \<open>
  The DHCP server over Npcap (\<^verbatim>\<open>npcap_dhcp/simple_server.go\<close>): the processing of a captured packet, the replies it builds byte by
  byte, and its two ways to choose an address.  A captured packet is what the decoder found of its Ethernet and UDP
  layers.  Serialising a frame and writing it to the device is the function \<open>ne_send\<close> of the environment, which
  also holds the readings of the clock.  \<open>offsetIP\<close> has the same text here and in \<^verbatim>\<open>auto/smart_dhcp.go\<close>.
\<close>

subsection \<open>Addresses by device\<close>

record np_profile =
  np_Type :: string
  np_Manufacturer :: string

definition np_ouiDB :: "(string \<times> np_profile) list" where
  "np_ouiDB = map (\<lambda>(k, ty, m). (k, \<lparr>np_Type = ty, np_Manufacturer = m\<rparr>))
     [(''00:9D:6B'', ''PS4'', ''Sony''), (''00:D9:D1'', ''PS4'', ''Sony''), (''6C:39:1B'', ''PS4'', ''Sony''),
      (''E8:94:F6'', ''PS4'', ''Sony''), (''34:CD:66'', ''PS5'', ''Sony''), (''0C:DB:00'', ''PS5'', ''Sony''),
      (''48:2C:EA'', ''PS5'', ''Sony''), (''E8:4E:22'', ''Xbox Series X/S'', ''Microsoft''),
      (''B4:7C:9C'', ''Xbox One'', ''Microsoft''), (''00:25:5C'', ''Xbox 360'', ''Microsoft''),
      (''F8:89:32'', ''Switch'', ''Nintendo''), (''04:94:53'', ''Switch'', ''Nintendo'')]"

definition detectDeviceByMAC :: "string \<Rightarrow> np_profile" where
  "detectDeviceByMAC mac =
     (let m = normalize_oui mac
      in case (if 8 \<le> length m then map_of np_ouiDB (take 8 m) else None) of
           Some p \<Rightarrow> p
         | None \<Rightarrow> \<lparr>np_Type = ''Unknown'', np_Manufacturer = ''Unknown''\<rparr>)"

record np_smart =
  ns_staticLeases :: "string \<rightharpoonup> string"
  ns_ipPool :: "string \<rightharpoonup> bool"
  ns_poolStart :: ip
  ns_poolEnd :: ip

definition np_offsets :: "string \<Rightarrow> nat \<times> nat" where
  "np_offsets deviceType =
     (if deviceType \<in> {''PS4'', ''PS5''} then (100, 119)
      else if deviceType \<in> {''Xbox Series X/S'', ''Xbox One'', ''Xbox 360''} then (120, 139)
      else if deviceType = ''Switch'' then (140, 149)
      else if deviceType = ''PC'' then (150, 199)
      else if deviceType \<in> {''Phone'', ''Tablet''} then (200, 229)
      else if deviceType \<in> {''Robot'', ''IoT''} then (230, 249)
      else (100, 249))"

text \<open>The first offset of a list whose address is not taken.\<close>

fun np_free :: "np_smart \<Rightarrow> nat list \<Rightarrow> ip option" where
  "np_free s [] = None"
| "np_free s (k # ks) =
     (let a = offsetIP (ns_poolStart s) k
      in if ns_ipPool s (IP_String a) \<noteq> Some True then Some a else np_free s ks)"

definition np_allocateIPForType :: "string \<Rightarrow> np_smart \<Rightarrow> ip option \<times> np_smart" where
  "np_allocateIPForType deviceType s =
     (let (from, upto) = np_offsets deviceType;
          found = (case np_free s [from..<Suc upto] of Some a \<Rightarrow> Some a | None \<Rightarrow> np_free s [100..<250])
      in case found of
           Some a \<Rightarrow> (Some a, s\<lparr>ns_ipPool := (ns_ipPool s)(IP_String a \<mapsto> True)\<rparr>)
         | None \<Rightarrow> (None, s))"

subsection \<open>The server\<close>

record np_lease =
  nl_MAC :: "byte list"
  nl_IP :: ip
  nl_Hostname :: string
  nl_ClientID :: string
  nl_VendorClass :: string
  nl_ParameterList :: "byte list"
  nl_ExpiresAt :: instant

record simple_server =
  ss_config :: server_config
  ss_localMAC :: "byte list"
  ss_localIP :: ip
  ss_lastRequest :: "string \<rightharpoonup> instant"
  ss_leases :: "string \<rightharpoonup> np_lease"
  ss_smart :: "np_smart option"
  ss_profiles :: "string \<rightharpoonup> np_profile"

definition NewSimpleServer :: "server_config \<Rightarrow> byte list \<Rightarrow> bool \<Rightarrow> string \<Rightarrow> string \<Rightarrow> simple_server" where
  "NewSimpleServer config localMAC enableSmart poolStart poolEnd =
     \<lparr>ss_config = config, ss_localMAC = localMAC, ss_localIP = sc_ServerIP config, ss_lastRequest = Map.empty, ss_leases = Map.empty,
      ss_smart = (if enableSmart \<and> poolStart \<noteq> [] \<and> poolEnd \<noteq> []
                  then Some \<lparr>ns_staticLeases = Map.empty, ns_ipPool = Map.empty, ns_poolStart = nil_ip (ParseIP poolStart),
                             ns_poolEnd = nil_ip (ParseIP poolEnd)\<rparr>
                  else None),
      ss_profiles = Map.empty\<rparr>"

definition np_allocateIP :: "instant \<Rightarrow> byte list \<Rightarrow> simple_server \<Rightarrow> ip \<times> simple_server" where
  "np_allocateIP now clientMAC s =
     (let macStr = HardwareAddr_String clientMAC;
          current = (case ss_leases s macStr of
                       Some l \<Rightarrow> if now < nl_ExpiresAt l then Some (nl_IP l) else None
                     | None \<Rightarrow> None)
      in case current of
           Some a \<Rightarrow> (a, s)
         | None \<Rightarrow>
             (case ss_smart s of
                None \<Rightarrow> (sc_FirstIP (ss_config s), s)
              | Some sm \<Rightarrow>
                  (case ns_staticLeases sm macStr of
                     Some t \<Rightarrow> (nil_ip (ParseIP t), s)
                   | None \<Rightarrow>
                       let profile = detectDeviceByMAC macStr;
                           s1 = s\<lparr>ss_profiles := (ss_profiles s)(macStr \<mapsto> profile)\<rparr>
                       in case np_allocateIPForType (np_Type profile) sm of
                            (Some a, sm1) \<Rightarrow>
                              (a, s1\<lparr>ss_smart := Some (sm1\<lparr>ns_staticLeases := (ns_staticLeases sm1)(macStr \<mapsto> IP_String a)\<rparr>)\<rparr>)
                          | (None, sm1) \<Rightarrow> (sc_FirstIP (ss_config s), s1\<lparr>ss_smart := Some sm1\<rparr>))))"

subsection \<open>Replies\<close>

definition np_header :: "byte list \<Rightarrow> byte list \<Rightarrow> ip \<Rightarrow> ip \<Rightarrow> byte list \<Rightarrow> byte list" where
  "np_header xid flags yiaddr siaddr clientMAC =
     [2, 1, 6, 0] @ xid @ [0, 0] @ flags @ [0, 0, 0, 0] @ slot4 yiaddr @ slot4 siaddr @ [0, 0, 0, 0] @
     take 6 clientMAC @ replicate 202 0"

definition np_pad :: "byte list \<Rightarrow> byte list" where
  "np_pad p = p @ replicate (340 - length p) 0"

definition offer_payload :: "simple_server \<Rightarrow> byte list \<Rightarrow> ip \<Rightarrow> byte \<Rightarrow> byte list \<Rightarrow> byte list \<Rightarrow> byte list" where
  "offer_payload s clientMAC clientIP msgType xid flags =
     np_pad (np_header xid flags clientIP (ss_localIP s) clientMAC @
       [53, msgType, 54] @ slot4 (ss_localIP s) @ [51, 0, 1, 0x51, 0x80] @ [3, 4] @ slot4 (ss_localIP s) @
       [6, 8, 8, 8, 8, 8, 1, 1, 1, 1] @ [43, 8, 1, 6] @ take 6 (ascii_bytes ''MSFT 5.0'') @
       [121, 8, 0] @ slot4 (ss_localIP s) @ [255])"

definition nak_payload :: "simple_server \<Rightarrow> byte list \<Rightarrow> byte list \<Rightarrow> byte list \<Rightarrow> byte list" where
  "nak_payload s clientMAC xid flags =
     np_pad (np_header xid flags [] [] clientMAC @ [53, 6, 54] @ slot4 (ss_localIP s) @ [255])"

record np_frame =
  nf_DstMAC :: "byte list"
  nf_SrcIP :: ip
  nf_DstIP :: ip
  nf_Payload :: "byte list"

definition offer_frame :: "simple_server \<Rightarrow> byte list \<Rightarrow> ip \<Rightarrow> byte \<Rightarrow> byte list \<Rightarrow> byte list \<Rightarrow> np_frame" where
  "offer_frame s clientMAC clientIP msgType xid flags =
     \<lparr>nf_DstMAC = clientMAC, nf_SrcIP = ss_localIP s, nf_DstIP = clientIP,
      nf_Payload = offer_payload s clientMAC clientIP msgType xid flags\<rparr>"

definition nak_frame :: "simple_server \<Rightarrow> byte list \<Rightarrow> byte list \<Rightarrow> byte list \<Rightarrow> np_frame" where
  "nak_frame s clientMAC xid flags =
     \<lparr>nf_DstMAC = clientMAC, nf_SrcIP = ss_localIP s, nf_DstIP = [255, 255, 255, 255], nf_Payload = nak_payload s clientMAC xid flags\<rparr>"

subsection \<open>Requests\<close>

record np_request =
  nq_type :: byte
  nq_hostname :: string
  nq_vendorClass :: string
  nq_clientID :: string
  nq_parameterList :: "byte list"

definition np_option :: "byte \<Rightarrow> byte list \<Rightarrow> np_request \<Rightarrow> np_request" where
  "np_option opt v q =
     (if opt = 53 then (if v \<noteq> [] then q\<lparr>nq_type := hd v\<rparr> else q)
      else if opt = 12 then q\<lparr>nq_hostname := string_of_bytes v\<rparr>
      else if opt = 60 then q\<lparr>nq_vendorClass := string_of_bytes v\<rparr>
      else if opt = 61 then q\<lparr>nq_clientID := string_of_bytes v\<rparr>
      else if opt = 55 then q\<lparr>nq_parameterList := v\<rparr>
      else q)"

text \<open>The loop over the options, on what is left of the message; it stops one byte before the end.\<close>

function np_options :: "byte list \<Rightarrow> np_request \<Rightarrow> np_request" where
  "np_options [] q = q"
| "np_options [c] q = q"
| "np_options (c # l # vs) q =
     (if c = 0 then np_options (l # vs) q
      else if c = 255 then q
      else if unat l > length vs then q
      else np_options (drop (unat l) vs) (np_option c (take (unat l) vs) q))"
  by pat_completeness auto

termination
  by (relation "measure (\<lambda>(bs, _). length bs)") auto

definition cookie_ok :: "byte list \<Rightarrow> bool" where
  "cookie_ok d \<longleftrightarrow> d ! 236 = 99 \<and> d ! 237 = 130 \<and> d ! 238 = 83 \<and> d ! 239 = 99"

record np_packet =
  pk_SrcMAC :: "byte list option"
  pk_UDP :: "(16 word \<times> 16 word \<times> byte list) option"

record np_env =
  ne_now :: instant
  ne_alloc :: instant
  ne_lease :: instant
  ne_send :: "np_frame \<Rightarrow> bool"

text \<open>The request of a packet: None where \<open>processPacket\<close> returns before the rate limit.\<close>

definition np_parse :: "np_packet \<Rightarrow> (byte list \<times> byte list \<times> np_request) option" where
  "np_parse pk =
     (case (pk_SrcMAC pk, pk_UDP pk) of
        (Some mac, Some (srcPort, dstPort, d)) \<Rightarrow>
          if srcPort \<noteq> 68 \<or> dstPort \<noteq> 67 then None
          else if length d < 240 then None
          else if \<not> cookie_ok d then None
          else Some (mac, d, np_options (drop 240 d)
                 \<lparr>nq_type = 0, nq_hostname = [], nq_vendorClass = [], nq_clientID = [], nq_parameterList = []\<rparr>)
      | _ \<Rightarrow> None)"

definition np_limited :: "instant \<Rightarrow> string \<Rightarrow> simple_server \<Rightarrow> bool" where
  "np_limited now macStr s \<longleftrightarrow> (case ss_lastRequest s macStr of Some t \<Rightarrow> now - t < 50 * millisecond | None \<Rightarrow> False)"

definition np_add_lease :: "np_env \<Rightarrow> byte list \<Rightarrow> ip \<Rightarrow> np_request \<Rightarrow> simple_server \<Rightarrow> simple_server" where
  "np_add_lease env mac clientIP q s =
     s\<lparr>ss_leases := (ss_leases s)(HardwareAddr_String mac \<mapsto>
         \<lparr>nl_MAC = mac, nl_IP = clientIP, nl_Hostname = nq_hostname q, nl_ClientID = nq_clientID q,
          nl_VendorClass = nq_vendorClass q, nl_ParameterList = nq_parameterList q,
          nl_ExpiresAt = ne_lease env + sc_LeaseDuration (ss_config s)\<rparr>)\<rparr>"

text \<open>The frames that were handed to the device, in order, and the server.\<close>

definition np_processPacket :: "np_env \<Rightarrow> np_packet \<Rightarrow> simple_server \<Rightarrow> np_frame list \<times> simple_server" where
  "np_processPacket env pk s =
     (case np_parse pk of
        None \<Rightarrow> ([], s)
      | Some (mac, d, q) \<Rightarrow>
          let macStr = HardwareAddr_String mac; xid = sub 4 8 d; flags = sub 10 12 d
          in if np_limited (ne_now env) macStr s then ([], s)
             else
               let s1 = s\<lparr>ss_lastRequest := (ss_lastRequest s)(macStr \<mapsto> ne_now env)\<rparr>;
                   (clientIP, s2) = np_allocateIP (ne_alloc env) mac s1;
                   s3 = np_add_lease env mac clientIP q s2
               in if nq_type q = 7 then ([], s3\<lparr>ss_leases := (ss_leases s3)(macStr := None)\<rparr>)
                  else
                    let msgType = (if nq_type q = 3 then 5 else 2);
                        offer = offer_frame s3 mac clientIP msgType xid flags
                    in if ne_send env offer then ([offer], s3)
                       else if nq_type q = 3 then ([offer, nak_frame s3 mac xid flags], s3)
                       else ([offer], s3))"

definition np_GetHostname :: "string \<Rightarrow> simple_server \<Rightarrow> string" where
  "np_GetHostname mac s = (case ss_leases s mac of Some l \<Rightarrow> nl_Hostname l | None \<Rightarrow> [])"

subsection \<open>Replies\<close>

lemma length_np_header [simp]:
  "length xid = 4 \<Longrightarrow> length flags = 2 \<Longrightarrow> 6 \<le> length mac \<Longrightarrow> length (np_header xid flags y si mac) = 236"
  by (simp add: np_header_def)

lemma payload_at_236:
  assumes "length xid = 4" and "length flags = 2" and "6 \<le> length mac"
  shows "offer_payload s mac cip ty xid flags ! 236 = 53" and "nak_payload s mac xid flags ! 236 = 53"
  using assms by (simp_all add: offer_payload_def nak_payload_def np_pad_def nth_append)

lemma processPacket_frames:
  assumes "f \<in> set (fst (np_processPacket env pk s))"
  shows "\<exists>mac d q s' cip ty. np_parse pk = Some (mac, d, q) \<and>
    (nf_Payload f = offer_payload s' mac cip ty (sub 4 8 d) (sub 10 12 d) \<or> nf_Payload f = nak_payload s' mac (sub 4 8 d) (sub 10 12 d))"
  using assms
  by (auto simp: np_processPacket_def Let_def offer_frame_def nak_frame_def split: option.splits prod.splits if_splits) metis+

lemma np_parse_data: "np_parse pk = Some (mac, d, q) \<Longrightarrow> 240 \<le> length d \<and> pk_SrcMAC pk = Some mac \<and> cookie_ok d"
  by (auto simp: np_parse_def split: option.splits if_splits)

text \<open>C26. No reply of this server is a DHCP message: at the place of the magic cookie stands the message type option, so that the
  check the server itself applies to what it receives rejects every frame it sends.\<close>

theorem replies_lack_magic_cookie:
  assumes "f \<in> set (fst (np_processPacket env pk s))" and "pk_SrcMAC pk = Some mac" and "6 \<le> length mac"
  shows "\<not> cookie_ok (nf_Payload f)"
proof -
  obtain d q s' cip ty where "np_parse pk = Some (mac, d, q)" and
    f: "nf_Payload f = offer_payload s' mac cip ty (sub 4 8 d) (sub 10 12 d) \<or> nf_Payload f = nak_payload s' mac (sub 4 8 d) (sub 10 12 d)"
    using processPacket_frames [OF assms(1)] np_parse_data assms(2) by (metis option.inject)
  then have "240 \<le> length d" using np_parse_data by blast
  then have "length (sub 4 8 d) = 4" "length (sub 10 12 d) = 2" by (simp_all add: sub_def)
  then have "nf_Payload f ! 236 = 53" using payload_at_236 assms(3) f by metis
  then show ?thesis by (simp add: cookie_ok_def)
qed

definition np_discover :: "byte list \<Rightarrow> np_packet" where
  "np_discover mac = \<lparr>pk_SrcMAC = Some mac, pk_UDP = Some (68, 67, replicate 236 0 @ [99, 130, 83, 99, 53, 1, 1, 255, 0])\<rparr>"

lemma np_parse_discover:
  "np_parse (np_discover mac) = Some (mac, replicate 236 0 @ [99, 130, 83, 99, 53, 1, 1, 255, 0],
     \<lparr>nq_type = 1, nq_hostname = [], nq_vendorClass = [], nq_clientID = [], nq_parameterList = []\<rparr>)"
  by (simp add: np_parse_def np_discover_def cookie_ok_def np_option_def nth_append)

definition np_example_env :: np_env where
  "np_example_env = \<lparr>ne_now = 0, ne_alloc = 0, ne_lease = 0, ne_send = (\<lambda>_. True)\<rparr>"

definition np_example_config :: server_config where
  "np_example_config = \<lparr>sc_ServerIP = [10, 0, 0, 1], sc_Network = \<lparr>ipn_IP = [10, 0, 0, 0], ipn_Mask = [255, 255, 255, 0]\<rparr>,
     sc_LeaseDuration = 3600 * second, sc_FirstIP = [10, 0, 0, 10], sc_LastIP = [10, 0, 0, 20], sc_DNSServers = []\<rparr>"

definition np_example :: simple_server where
  "np_example = NewSimpleServer np_example_config [2, 0, 0, 0, 0, 1] False [] []"

theorem replies_lack_magic_cookie_witness:
  "\<exists>f. fst (np_processPacket np_example_env (np_discover [2, 0, 0, 0, 0, 2]) np_example) = [f] \<and> \<not> cookie_ok (nf_Payload f)"
proof -
  obtain f where f: "fst (np_processPacket np_example_env (np_discover [2, 0, 0, 0, 0, 2]) np_example) = [f]"
    by (simp add: np_processPacket_def np_parse_discover Let_def np_example_env_def np_limited_def np_example_def NewSimpleServer_def
        np_allocateIP_def)
  then have "f \<in> set (fst (np_processPacket np_example_env (np_discover [2, 0, 0, 0, 0, 2]) np_example))" by simp
  from replies_lack_magic_cookie [OF this, of "[2, 0, 0, 0, 0, 2]"] f show ?thesis by (simp add: np_discover_def)
qed

subsection \<open>Addresses\<close>

text \<open>What a request that is neither a release nor limited records: a lease of the allocated address.\<close>

lemma processPacket_lease:
  assumes "np_parse pk = Some (mac, d, q)" and "nq_type q \<noteq> 7" and "\<not> np_limited (ne_now env) (HardwareAddr_String mac) s"
    and "np_processPacket env pk s = (fs, s')"
    and "np_allocateIP (ne_alloc env) mac (s\<lparr>ss_lastRequest := (ss_lastRequest s)(HardwareAddr_String mac \<mapsto> ne_now env)\<rparr>) = (a, s2)"
  shows "\<exists>l. ss_leases s' = (ss_leases s2)(HardwareAddr_String mac \<mapsto> l) \<and> nl_IP l = a \<and> nl_MAC l = mac" and "ss_smart s' = ss_smart s2"
  using assms by (auto simp: np_processPacket_def Let_def np_add_lease_def split: prod.splits if_splits)

lemma allocate_without_smart:
  assumes "ss_smart s = None" and "ss_leases s (HardwareAddr_String mac) = None"
  shows "np_allocateIP now mac s = (sc_FirstIP (ss_config s), s)"
  using assms by (simp add: np_allocateIP_def Let_def)

text \<open>Without the device-based allocator every client is given the same address, the first of the pool.\<close>

theorem clients_share_first_address:
  assumes "ss_smart s = None" and "np_parse p1 = Some (mac1, d1, q1)" and "np_parse p2 = Some (mac2, d2, q2)"
    and "nq_type q1 \<noteq> 7" and "nq_type q2 \<noteq> 7" and "HardwareAddr_String mac1 \<noteq> HardwareAddr_String mac2"
    and "ss_leases s (HardwareAddr_String mac1) = None" and "ss_leases s (HardwareAddr_String mac2) = None"
    and "\<not> np_limited (ne_now e1) (HardwareAddr_String mac1) s" and "\<not> np_limited (ne_now e2) (HardwareAddr_String mac2) s"
    and "np_processPacket e1 p1 s = (f1, s1)" and "np_processPacket e2 p2 s1 = (f2, s2)"
  shows "\<exists>l1 l2. ss_leases s2 (HardwareAddr_String mac1) = Some l1 \<and> ss_leases s2 (HardwareAddr_String mac2) = Some l2 \<and>
    nl_IP l1 = sc_FirstIP (ss_config s) \<and> nl_IP l2 = sc_FirstIP (ss_config s)"
proof -
  let ?m1 = "HardwareAddr_String mac1" let ?m2 = "HardwareAddr_String mac2"
  have a1: "np_allocateIP (ne_alloc e1) mac1 (s\<lparr>ss_lastRequest := (ss_lastRequest s)(?m1 \<mapsto> ne_now e1)\<rparr>) =
      (sc_FirstIP (ss_config s), s\<lparr>ss_lastRequest := (ss_lastRequest s)(?m1 \<mapsto> ne_now e1)\<rparr>)"
    using allocate_without_smart assms(1,7) by simp
  obtain l1 where l1: "ss_leases s1 = (ss_leases s)(?m1 \<mapsto> l1)" "nl_IP l1 = sc_FirstIP (ss_config s)" "ss_smart s1 = None"
    using processPacket_lease [OF assms(2,4,9,11) a1] assms(1) by auto
  have keep: "ss_config s1 = ss_config s" "ss_lastRequest s1 ?m2 = ss_lastRequest s ?m2"
    using assms(2,4,6,9,11) a1 by (auto simp: np_processPacket_def Let_def np_add_lease_def split: if_splits)
  have a2: "np_allocateIP (ne_alloc e2) mac2 (s1\<lparr>ss_lastRequest := (ss_lastRequest s1)(?m2 \<mapsto> ne_now e2)\<rparr>) =
      (sc_FirstIP (ss_config s), s1\<lparr>ss_lastRequest := (ss_lastRequest s1)(?m2 \<mapsto> ne_now e2)\<rparr>)"
    using allocate_without_smart l1 keep assms(6,8) by simp
  have "\<not> np_limited (ne_now e2) ?m2 s1" using assms(10) keep by (simp add: np_limited_def)
  from processPacket_lease [OF assms(3,5) this assms(12) a2] l1 assms(6) show ?thesis by auto
qed

theorem clients_share_first_address_witness:
  "\<exists>s1 s2 l1 l2. snd (np_processPacket np_example_env (np_discover [2, 0, 0, 0, 0, 2]) np_example) = s1 \<and>
     snd (np_processPacket np_example_env (np_discover [2, 0, 0, 0, 0, 3]) s1) = s2 \<and>
     ss_leases s2 (HardwareAddr_String [2, 0, 0, 0, 0, 2]) = Some l1 \<and> ss_leases s2 (HardwareAddr_String [2, 0, 0, 0, 0, 3]) = Some l2 \<and>
     nl_IP l1 = [10, 0, 0, 10] \<and> nl_IP l2 = [10, 0, 0, 10]"
proof -
  have ne: "HardwareAddr_String [2, 0, 0, 0, 0, 2] \<noteq> HardwareAddr_String [2, 0, 0, 0, 0, 3]" by code_simp
  have ex: "ss_smart np_example = None" "\<And>k. ss_leases np_example k = None" "\<And>t k. \<not> np_limited t k np_example"
      "sc_FirstIP (ss_config np_example) = [10, 0, 0, 10]"
    by (simp_all add: np_example_def NewSimpleServer_def np_limited_def np_example_config_def)
  show ?thesis
    using clients_share_first_address [OF ex(1) np_parse_discover np_parse_discover _ _ ne ex(2) ex(2) ex(3) ex(3)
        surjective_pairing surjective_pairing, of np_example_env np_example_env] ex(4) by auto
qed

subsection \<open>The device-based allocator\<close>

lemma np_free_unused: "np_free s ks = Some a \<Longrightarrow> ns_ipPool s (IP_String a) \<noteq> Some True \<and> (\<exists>k \<in> set ks. a = offsetIP (ns_poolStart s) k)"
  by (induction ks) (auto simp: Let_def split: if_splits)

lemma np_allocateIPForType_fresh:
  assumes "np_allocateIPForType ty s = (Some a, s')"
  shows "ns_ipPool s (IP_String a) \<noteq> Some True" and "s' = s\<lparr>ns_ipPool := (ns_ipPool s)(IP_String a \<mapsto> True)\<rparr>"
    and "\<exists>k. 100 \<le> k \<and> a = offsetIP (ns_poolStart s) k"
proof -
  obtain f u where o: "np_offsets ty = (f, u)" by fastforce
  then have f: "100 \<le> f" by (auto simp: np_offsets_def split: if_splits)
  have found: "np_free s [f..<Suc u] = Some a \<or> np_free s [100..<250] = Some a"
    and s': "s' = s\<lparr>ns_ipPool := (ns_ipPool s)(IP_String a \<mapsto> True)\<rparr>"
    using assms o by (auto simp: np_allocateIPForType_def simp del: upt_Suc split: option.splits)
  show "s' = s\<lparr>ns_ipPool := (ns_ipPool s)(IP_String a \<mapsto> True)\<rparr>" by (rule s')
  show "ns_ipPool s (IP_String a) \<noteq> Some True" using found np_free_unused by blast
  obtain k where "k \<in> set [f..<Suc u] \<union> set [100..<250]" and a: "a = offsetIP (ns_poolStart s) k"
    using found np_free_unused by blast
  then have "100 \<le> k" using f by (metis Un_iff atLeastLessThan_iff le_trans set_upt)
  then show "\<exists>k. 100 \<le> k \<and> a = offsetIP (ns_poolStart s) k" using a by blast
qed

lemma np_allocateIPForType_none: "np_allocateIPForType ty s = (None, s') \<Longrightarrow> s' = s"
  by (auto simp: np_allocateIPForType_def Let_def split: prod.splits option.splits)

definition np_smart_ok :: "np_smart \<Rightarrow> bool" where
  "np_smart_ok sm \<longleftrightarrow> (\<forall>k a. ns_staticLeases sm k = Some a \<longrightarrow> ns_ipPool sm a = Some True) \<and>
     (\<forall>k k' a. ns_staticLeases sm k = Some a \<longrightarrow> ns_staticLeases sm k' = Some a \<longrightarrow> k = k')"

definition np_inv :: "simple_server \<Rightarrow> bool" where
  "np_inv s \<longleftrightarrow> (case ss_smart s of None \<Rightarrow> True | Some sm \<Rightarrow> np_smart_ok sm)"

lemma np_smart_ok_add:
  assumes "np_smart_ok sm" and "ns_ipPool sm t \<noteq> Some True"
  shows "np_smart_ok (sm\<lparr>ns_ipPool := (ns_ipPool sm)(t \<mapsto> True), ns_staticLeases := (ns_staticLeases sm)(k \<mapsto> t)\<rparr>)"
  using assms by (auto simp: np_smart_ok_def)

lemma np_inv_allocate:
  assumes "np_inv s" and "np_allocateIP now mac s = (a, s')"
  shows "np_inv s'"
proof (cases "ss_smart s")
  case None
  then have "ss_smart s' = None" using assms(2) by (auto simp: np_allocateIP_def Let_def split: option.splits if_splits)
  then show ?thesis by (simp add: np_inv_def)
next
  case (Some sm)
  then have ok: "np_smart_ok sm" using assms(1) by (simp add: np_inv_def)
  let ?ty = "np_Type (detectDeviceByMAC (HardwareAddr_String mac))"
  consider "ss_smart s' = Some sm"
    | b sm1 where "np_allocateIPForType ?ty sm = (Some b, sm1)"
        "ss_smart s' = Some (sm1\<lparr>ns_staticLeases := (ns_staticLeases sm1)(HardwareAddr_String mac \<mapsto> IP_String b)\<rparr>)"
    | sm1 where "np_allocateIPForType ?ty sm = (None, sm1)" "ss_smart s' = Some sm1"
    using assms(2) Some by (auto simp: np_allocateIP_def Let_def split: option.splits if_splits prod.splits)
  then show ?thesis
  proof cases
    case 2
    then show ?thesis
      using np_smart_ok_add [OF ok np_allocateIPForType_fresh(1) [OF 2(1)]] np_allocateIPForType_fresh(2) [OF 2(1)]
      by (simp add: np_inv_def)
  qed (use ok np_allocateIPForType_none in \<open>auto simp: np_inv_def\<close>)
qed

lemma np_inv_packet: "np_inv s \<Longrightarrow> np_inv (snd (np_processPacket env pk s))"
proof (cases "np_parse pk")
  case None
  then show "np_inv s \<Longrightarrow> ?thesis" by (simp add: np_processPacket_def)
next
  case (Some x)
  obtain mac d q where x: "x = (mac, d, q)" by (cases x) auto
  let ?s1 = "s\<lparr>ss_lastRequest := (ss_lastRequest s)(HardwareAddr_String mac \<mapsto> ne_now env)\<rparr>"
  obtain a s2 where a: "np_allocateIP (ne_alloc env) mac ?s1 = (a, s2)" by fastforce
  assume i: "np_inv s"
  then have "np_inv ?s1" by (simp add: np_inv_def)
  then have "np_inv s2" using np_inv_allocate a by blast
  moreover have "snd (np_processPacket env pk s) = s \<or> ss_smart (snd (np_processPacket env pk s)) = ss_smart s2"
    using Some x a by (auto simp: np_processPacket_def Let_def np_add_lease_def)
  ultimately show ?thesis using i by (auto simp: np_inv_def)
qed

inductive np_step :: "simple_server \<Rightarrow> simple_server \<Rightarrow> bool" where
  "np_step s (snd (np_processPacket env pk s))"

interpretation npcap: invariant_system "\<lambda>s. \<exists>cfg mac e a b. s = NewSimpleServer cfg mac e a b" np_step np_inv
proof unfold_locales
  show "np_inv s" if "\<exists>cfg mac e a b. s = NewSimpleServer cfg mac e a b" for s
    using that by (auto simp: np_inv_def np_smart_ok_def NewSimpleServer_def)
  show "np_inv t" if "np_inv s" and "np_step s t" for s t
    using that by (auto elim!: np_step.cases intro: np_inv_packet)
qed

text \<open>In every run the device-based allocator reserves different addresses for different clients.\<close>

theorem npcap_reservations_distinct:
  assumes "np_step\<^sup>*\<^sup>* (NewSimpleServer cfg mac enable a b) s" and "ss_smart s = Some sm"
    and "ns_staticLeases sm k = Some t" and "ns_staticLeases sm k' = Some t'" and "k \<noteq> k'"
  shows "t \<noteq> t'"
  using npcap.run_inv [OF _ assms(1)] assms(2-5) unfolding np_inv_def np_smart_ok_def by (simp, blast)

definition np_smart_example :: simple_server where
  "np_smart_example = NewSimpleServer np_example_config [2, 0, 0, 0, 0, 1] True ''10.0.0.1'' ''10.0.0.50''"

definition np_two_clients :: simple_server where
  "np_two_clients = snd (np_processPacket np_example_env (np_discover [2, 0, 0, 0, 0, 3])
     (snd (np_processPacket np_example_env (np_discover [2, 0, 0, 0, 0, 2]) np_smart_example)))"

lemma np_two_clients_leases:
  "map_option (\<lambda>sm. map (ns_staticLeases sm) [HardwareAddr_String [2, 0, 0, 0, 0, 2], HardwareAddr_String [2, 0, 0, 0, 0, 3]]) (ss_smart np_two_clients) =
     Some [Some ''10.0.0.101'', Some ''10.0.0.102'']"
  by code_simp

theorem npcap_reservations_distinct_witness:
  "\<exists>sm t t'. ss_smart np_two_clients = Some sm \<and> ns_staticLeases sm (HardwareAddr_String [2, 0, 0, 0, 0, 2]) = Some t \<and>
     ns_staticLeases sm (HardwareAddr_String [2, 0, 0, 0, 0, 3]) = Some t' \<and> t \<noteq> t'"
proof -
  have run: "np_step\<^sup>*\<^sup>* np_smart_example np_two_clients"
    unfolding np_two_clients_def by (meson np_step.intros r_into_rtranclp rtranclp.rtrancl_into_rtrancl)
  have ne: "HardwareAddr_String [2, 0, 0, 0, 0, 2] \<noteq> HardwareAddr_String [2, 0, 0, 0, 0, 3]" by code_simp
  obtain sm where sm: "ss_smart np_two_clients = Some sm" "ns_staticLeases sm (HardwareAddr_String [2, 0, 0, 0, 0, 2]) = Some ''10.0.0.101''"
      "ns_staticLeases sm (HardwareAddr_String [2, 0, 0, 0, 0, 3]) = Some ''10.0.0.102''"
    using np_two_clients_leases by auto
  from npcap_reservations_distinct [OF run [unfolded np_smart_example_def] sm ne] sm show ?thesis by auto
qed

text \<open>The end of the pool is never consulted: the offsets start at 100 above the start of the pool, and every
  address given out of a pool of at most a hundred addresses lies beyond its end.\<close>

theorem npcap_addresses_outside_pool:
  assumes "To4 (ns_poolStart sm) = Some [a, b, c, d]" and "To4 (ns_poolEnd sm) = Some [a, b, c, e]"
    and "unat e < unat d + 100" and "unat e < 255" and "np_allocateIPForType ty sm = (Some x, sm')"
  shows "ipInt (ns_poolEnd sm) < ipInt x"
proof -
  obtain k where k: "100 \<le> k" "x = offsetIP (ns_poolStart sm) k" using np_allocateIPForType_fresh(3) [OF assms(5)] by blast
  define v where "v = (if unat d + k > 255 then 255 else unat d + k)"
  have x: "x = [a, b, c, of_nat v]" using k(2) assms(1) by (simp add: offsetIP_def v_def Let_def numeral_3_eq_3)
  have "unat (of_nat v :: byte) = v" by (simp add: v_def unat_of_nat)
  then have "\<not> of_nat v \<le> e" using assms(3,4) k(1) by (simp add: word_le_nat_alt v_def)
  moreover have "ipInt (ns_poolEnd sm) = ipInt [a, b, c, e]" using assms(2) by (simp add: ipInt_def)
  ultimately show ?thesis using ipInt_le [of a b c "of_nat v" e] x by simp
qed

theorem npcap_addresses_outside_pool_witness:
  "\<exists>sm sm' x. ss_smart np_smart_example = Some sm \<and> np_allocateIPForType ''Unknown'' sm = (Some x, sm') \<and> ipInt (ns_poolEnd sm) < ipInt x"
proof -
  let ?sm = "\<lparr>ns_staticLeases = Map.empty, ns_ipPool = Map.empty, ns_poolStart = v4InV6Prefix @ [10, 0, 0, 1], ns_poolEnd = v4InV6Prefix @ [10, 0, 0, 50]\<rparr> :: np_smart"
  have "ParseIP ''10.0.0.1'' = Some (v4InV6Prefix @ [10, 0, 0, 1])" "ParseIP ''10.0.0.50'' = Some (v4InV6Prefix @ [10, 0, 0, 50])"
    by code_simp+
  then have sm: "ss_smart np_smart_example = Some ?sm" by (simp add: np_smart_example_def NewSimpleServer_def nil_ip_def)
  obtain x sm' where x: "np_allocateIPForType ''Unknown'' ?sm = (Some x, sm')"
    by (simp add: np_allocateIPForType_def np_offsets_def upt_conv_Cons Let_def)
  have "ipInt (ns_poolEnd ?sm) < ipInt x"
    by (rule npcap_addresses_outside_pool [OF _ _ _ _ x, of 10 0 0 1 50]) (simp_all add: To4_def v4InV6Prefix_def)
  then show ?thesis using sm x by blast
qed

end
