(* ===== verification/WinDivertDhcp.thy ===== *)
theory WinDivertDhcp
  imports DhcpServer InetChecksum
begin

text \<open>
  The DHCP server over WinDivert, \<^verbatim>\<open>windivert/dhcp_server.go\<close> and the packets of \<^verbatim>\<open>windivert/windivert.go\<close>: the packets it parses and builds, the
  checksums, the loop that receives packets, the handling of one packet through the server of \<^verbatim>\<open>dhcp/server.go\<close>, and the choice of the
  way a reply takes.

  The drivers are arguments: what the loop receives, whether a send succeeds, which capture devices there are.  A packet that is handed
  back to the driver, sent, or written as an Ethernet frame is an action in the result.  Log lines are left out.
\<close>

unbundle bit_operations_syntax

subsection \<open>Packets\<close>

record wd_packet =
  wp_Raw :: "byte list"
  wp_IfIdx :: "32 word"
  wp_SubIfIdx :: "32 word"
  wp_SrcMAC :: "byte list option"
  wp_DstMAC :: "byte list option"
  wp_SrcIP :: "ip option"
  wp_DstIP :: "ip option"
  wp_SrcPort :: "16 word"
  wp_DstPort :: "16 word"

text \<open>The ports of \<open>parsePacketRaw\<close>: the header of the transport starts at \<open>off\<close>.\<close>

definition set_ports :: "nat \<Rightarrow> byte \<Rightarrow> byte list \<Rightarrow> wd_packet \<Rightarrow> wd_packet" where
  "set_ports off protocol d pkt =
     (if length d \<ge> off + 4 \<and> (protocol = 17 \<or> protocol = 6)
      then pkt\<lparr>wp_SrcPort := get16 (drop off d), wp_DstPort := get16 (drop (off + 2) d)\<rparr>
      else pkt)"

definition ip_header_len :: "byte list \<Rightarrow> nat" where
  "ip_header_len d = unat ((d ! 0 AND 0x0F) * 4)"

definition parse_network :: "byte list \<Rightarrow> wd_packet \<Rightarrow> wd_packet" where
  "parse_network d pkt =
     (let ipVersion = drop_bit 4 (d ! 0) AND 0x0F
      in if ipVersion = 4 then
           if length d \<ge> ip_header_len d
           then set_ports (ip_header_len d) (d ! 9) d (pkt\<lparr>wp_SrcIP := Some (sub 12 16 d), wp_DstIP := Some (sub 16 20 d)\<rparr>)
           else pkt
         else if ipVersion = 6 then
           if length d \<ge> 40 then set_ports 40 (d ! 6) d (pkt\<lparr>wp_SrcIP := Some (sub 8 24 d), wp_DstIP := Some (sub 24 40 d)\<rparr>) else pkt
         else pkt)"

definition parsePacketRaw :: "byte list \<Rightarrow> wd_packet \<Rightarrow> wd_packet" where
  "parsePacketRaw d pkt0 =
     (let pkt = pkt0\<lparr>wp_Raw := d, wp_SrcIP := None, wp_DstIP := None, wp_SrcPort := 0, wp_DstPort := 0, wp_SrcMAC := None, wp_DstMAC := None\<rparr>
      in if length d < 20 then pkt
         else (parse_network d pkt)\<lparr>wp_DstMAC := Some (sub 0 6 d), wp_SrcMAC := Some (sub 6 12 d)\<rparr>)"

definition GetClientMAC :: "byte list \<Rightarrow> byte list option" where
  "GetClientMAC d = (if length d < 34 then None else if d ! 1 \<noteq> 1 \<or> d ! 2 \<noteq> 6 then None else Some (sub 28 34 d))"

subsection \<open>Building packets\<close>

text \<open>A last odd byte is left out of the sum.\<close>

fun sum_pairs :: "32 word \<Rightarrow> byte list \<Rightarrow> 32 word" where
  "sum_pairs s (a # b # bs) = sum_pairs (s + (push_bit 8 (ucast a) OR ucast b)) bs"
| "sum_pairs s _ = s"

function add_carry :: "32 word \<Rightarrow> 32 word" where
  "add_carry s = (if drop_bit 16 s \<noteq> 0 then add_carry ((s AND 0xFFFF) + drop_bit 16 s) else s)"
  by auto

termination
proof (relation "measure unat")
  fix s :: "32 word"
  assume "drop_bit 16 s \<noteq> 0"
  then have "0 < unat s div 65536" using unat_fold_parts(1) [of s] by (metis gr0I unat_eq_0)
  then have "unat s div 65536 + unat s mod 65536 < unat s" using div_mult_mod_eq [of "unat s" 65536] by linarith
  then show "((s AND 0xFFFF) + drop_bit 16 s, s) \<in> measure unat" using unat_fold_step [of s] by (simp add: add.commute)
qed simp

declare add_carry.simps [simp del]

definition calculateIPChecksum :: "byte list \<Rightarrow> 16 word" where
  "calculateIPChecksum header = ucast (NOT (add_carry (sum_pairs 0 (header[10 := 0, 11 := 0]))))"

definition ip_header :: "nat \<Rightarrow> ip \<Rightarrow> ip \<Rightarrow> byte list" where
  "ip_header totalLen srcIP dstIP =
     [0x45, 0] @ put16 (of_nat totalLen) @ [0, 0, 0, 0, 64, 17] @ [0, 0] @ slot4 srcIP @ slot4 dstIP"

definition buildIPUDPPacket :: "ip \<Rightarrow> ip \<Rightarrow> 16 word \<Rightarrow> 16 word \<Rightarrow> byte list \<Rightarrow> byte list" where
  "buildIPUDPPacket srcIP dstIP srcPort dstPort payload =
     (let h = ip_header (28 + length payload) srcIP dstIP
      in copy_to 10 12 (put16 (calculateIPChecksum h)) h @
         put16 srcPort @ put16 dstPort @ put16 (of_nat (8 + length payload)) @ [0, 0] @ payload)"

text \<open>\<open>calculateUDPChecksum\<close> reads four bytes of each address; None is the panic when one is shorter.  The packet has at least
  the three headers.\<close>

definition calculateUDPChecksum :: "byte list \<Rightarrow> ip \<Rightarrow> ip \<Rightarrow> nat \<Rightarrow> 16 word option" where
  "calculateUDPChecksum packet srcIP dstIP ethOffset =
     (let udpStart = ethOffset + 20;
          udpLen = get16 (drop (udpStart + 4) packet);
          totalLen = 8 + unat udpLen;
          packet1 = packet[udpStart + 6 := 0, udpStart + 7 := 0];
          pseudo = sum16 0 (take 4 srcIP @ take 4 dstIP) + 17 + ucast udpLen;
          s = add_carry (sum16 pseudo (take (2 * ((totalLen + 1) div 2)) (drop udpStart packet1)));
          checksum = ucast (NOT s)
      in if length srcIP < 4 \<or> length dstIP < 4 then None
         else Some (if checksum = 0 then 0xFFFF else checksum))"

definition buildEthernetIPUDPPacket ::
  "byte list \<Rightarrow> byte list \<Rightarrow> ip \<Rightarrow> ip \<Rightarrow> 16 word \<Rightarrow> 16 word \<Rightarrow> byte list \<Rightarrow> byte list option" where
  "buildEthernetIPUDPPacket dstMAC srcMAC srcIP dstIP srcPort dstPort payload =
     (let totalLen = 42 + length payload;
          eth = copy_to 6 12 srcMAC (copy_to 0 6 dstMAC (replicate 12 0)) @ [0x08, 0x00];
          h = ip_header (28 + length payload) srcIP dstIP;
          p1 = eth @ copy_to 10 12 (put16 (calculateIPChecksum h)) h @
               put16 srcPort @ put16 dstPort @ put16 (of_nat (8 + length payload)) @ [0, 0] @ replicate (length payload) 0
      in map_option (\<lambda>c. copy_to 22 totalLen payload (copy_to 40 42 (put16 c) p1)) (calculateUDPChecksum p1 srcIP dstIP 14))"

subsection \<open>The server\<close>

text \<open>\<open>wd_smart\<close> is the allocator by device types, when it is enabled; \<open>wd_pcap\<close> is the capture device that is open for sending.\<close>

record wd_server =
  wd_server :: dhcp_server
  wd_smart :: "(string \<Rightarrow> string) option"
  wd_localMAC :: "byte list"
  wd_localIP :: ip
  wd_ifaceName :: string
  wd_pcap :: "string option"
  wd_lastRequest :: "string \<rightharpoonup> instant"
  wd_packetsReceived :: "64 word"
  wd_packetsSent :: "64 word"
  wd_discoverCount :: "64 word"
  wd_requestCount :: "64 word"
  wd_offerCount :: "64 word"
  wd_ackCount :: "64 word"
  wd_errorsCount :: "64 word"
  wd_activeLeases :: "32 word"

definition NewDHCPServer ::
  "(string \<Rightarrow> string \<Rightarrow> string \<Rightarrow> string) \<Rightarrow> server_config \<Rightarrow> nat \<Rightarrow> byte list \<Rightarrow> bool \<Rightarrow> string \<Rightarrow> string \<Rightarrow> string \<Rightarrow> wd_server" where
  "NewDHCPServer alloc config obj localMAC enableSmartDHCP poolStart poolEnd ifaceName =
     \<lparr>wd_server = NewServer config None [] obj,
      wd_smart = (if enableSmartDHCP \<and> poolStart \<noteq> [] \<and> poolEnd \<noteq> [] then Some (alloc poolStart poolEnd) else None),
      wd_localMAC = localMAC, wd_localIP = sc_ServerIP config, wd_ifaceName = ifaceName, wd_pcap = None,
      wd_lastRequest = Map.empty, wd_packetsReceived = 0, wd_packetsSent = 0, wd_discoverCount = 0, wd_requestCount = 0,
      wd_offerCount = 0, wd_ackCount = 0, wd_errorsCount = 0, wd_activeLeases = 0\<rparr>"

definition wd_GetMetrics :: "wd_server \<Rightarrow> (string \<times> 64 word) list" where
  "wd_GetMetrics s =
     [(''packets_received'', wd_packetsReceived s), (''packets_sent'', wd_packetsSent s), (''discover_count'', wd_discoverCount s),
      (''request_count'', wd_requestCount s), (''offer_count'', wd_offerCount s), (''ack_count'', wd_ackCount s),
      (''errors_count'', wd_errorsCount s), (''active_leases'', ucast (wd_activeLeases s))]"

text \<open>An Ethernet frame written through the capture device; the library computes lengths and checksums.\<close>

record pcap_frame =
  pf_SrcMAC :: "byte list"
  pf_DstMAC :: "byte list"
  pf_SrcIP :: ip
  pf_DstIP :: ip
  pf_SrcPort :: "16 word"
  pf_DstPort :: "16 word"
  pf_Payload :: "byte list"

datatype wd_action = Reinject wd_packet | SendIP "byte list" "32 word" "32 word" | WriteFrame pcap_frame

definition broadcastMAC :: "byte list" where "broadcastMAC = replicate 6 0xff"
definition broadcastIP :: ip where "broadcastIP = v4InV6Prefix @ [255, 255, 255, 255]"

text \<open>A capture device is its name with its addresses.  \<open>addrs\<close> are the addresses of the interface, None when it is not found.\<close>

definition pcap_device :: "string \<Rightarrow> (string \<times> ip list) list \<Rightarrow> ip list option \<Rightarrow> string" where
  "pcap_device ifaceName devices addrs =
     (let byName = List.find (\<lambda>(n, as). n = ifaceName \<or> HasSuffix n ifaceName \<or> sublist ifaceName n) devices;
          name1 = (case byName of Some (n, as) \<Rightarrow> n | None \<Rightarrow> []);
          name2 = (if name1 = [] then
                     (case addrs of
                        None \<Rightarrow> []
                      | Some ias \<Rightarrow>
                          (case List.find (\<lambda>(n, as). n \<noteq> [] \<and> list_ex (\<lambda>a. list_ex (IP_Equal a) ias) as) devices of
                             Some (n, as) \<Rightarrow> n
                           | None \<Rightarrow> []))
                   else name1)
      in if name2 = [] then ifaceName else name2)"

text \<open>What the drivers do during a request.\<close>

record wd_env =
  we_now :: instant
  we_mode :: queue_mode
  we_dhcp :: dhcp_env
  we_devices :: "(string \<times> ip list) list option"
  we_addrs :: "ip list option"
  we_opens :: "string \<Rightarrow> bool"
  we_serializes :: bool
  we_writes :: bool
  we_sends :: bool

datatype wd_error = FindDevices | OpenPcap | SerializeReply | PcapWrite | SendReply

definition open_pcap :: "wd_env \<Rightarrow> wd_server \<Rightarrow> wd_error option \<times> wd_server" where
  "open_pcap env s =
     (if wd_pcap s \<noteq> None then (None, s)
      else case we_devices env of
             None \<Rightarrow> (Some FindDevices, s)
           | Some devs \<Rightarrow>
               let devName = pcap_device (wd_ifaceName s) devs (we_addrs env)
               in if we_opens env devName then (None, s\<lparr>wd_pcap := Some devName\<rparr>) else (Some OpenPcap, s))"

definition sendViaPcap :: "wd_env \<Rightarrow> byte list \<Rightarrow> wd_server \<Rightarrow> wd_error option \<times> wd_action list \<times> wd_server" where
  "sendViaPcap env dhcpData s =
     (case open_pcap env s of
        (Some e, s1) \<Rightarrow> (Some e, [], s1)
      | (None, s1) \<Rightarrow>
          if \<not> we_serializes env then (Some SerializeReply, [], s1)
          else if \<not> we_writes env then (Some PcapWrite, [], s1)
          else (None, [WriteFrame \<lparr>pf_SrcMAC = wd_localMAC s1, pf_DstMAC = broadcastMAC, pf_SrcIP = wd_localIP s1, pf_DstIP = broadcastIP,
                                   pf_SrcPort = 67, pf_DstPort = 68, pf_Payload = dhcpData\<rparr>], s1))"

definition sendBroadcastDHCP where
  "sendBroadcastDHCP = sendViaPcap"

text \<open>The search for the message type among the options of a reply.\<close>

function find_msg_type :: "byte list \<Rightarrow> nat \<Rightarrow> byte" where
  "find_msg_type d i =
     (if i + 1 < length d then
        if d ! i = 255 then 0
        else if d ! i = 0 then find_msg_type d (i + 1)
        else
          let optLen = unat (d ! (i + 1))
          in if i + 2 + optLen > length d then 0
             else if d ! i = 53 \<and> optLen = 1 then d ! (i + 2)
             else find_msg_type d (i + 2 + optLen)
      else 0)"
  by pat_completeness auto

termination
  by (relation "measure (\<lambda>(d, i). length d - i)") auto

declare find_msg_type.simps [simp del]

definition reply_type :: "byte list \<Rightarrow> byte" where
  "reply_type d = (if length d > 242 then find_msg_type d 240 else 0)"

definition clientHasIP :: "byte list \<Rightarrow> bool" where
  "clientHasIP d \<longleftrightarrow> length d \<ge> 20 \<and> \<not> IP_Equal (sub 12 16 d) (v4InV6Prefix @ [0, 0, 0, 0])"

text \<open>Every branch for a client without an address leaves the broadcast addresses in place.\<close>

definition reply_dstIP :: "byte list \<Rightarrow> ip" where
  "reply_dstIP d = (if clientHasIP d then sub 12 16 d else broadcastIP)"

definition sendDHCPResponseWithMAC ::
  "wd_env \<Rightarrow> wd_packet \<Rightarrow> byte list \<Rightarrow> wd_server \<Rightarrow> wd_error option \<times> wd_action list \<times> wd_server" where
  "sendDHCPResponseWithMAC env request dhcpData s =
     (let isOfferOrAck = (reply_type dhcpData = 2 \<or> reply_type dhcpData = 5)
      in if isOfferOrAck \<and> \<not> clientHasIP dhcpData then sendBroadcastDHCP env dhcpData s
         else if \<not> we_sends env then (Some SendReply, [], s)
         else (None, [SendIP (buildIPUDPPacket (wd_localIP s) (reply_dstIP dhcpData) 67 68 dhcpData) (wp_IfIdx request) (wp_SubIfIdx request)], s))"

text \<open>The MAC address a request is counted under: that of the payload, or that of the packet.\<close>

definition request_mac :: "wd_packet \<Rightarrow> byte list \<Rightarrow> byte list" where
  "request_mac packet d = (case GetClientMAC d of Some m \<Rightarrow> m | None \<Rightarrow> (case wp_SrcMAC packet of Some m \<Rightarrow> m | None \<Rightarrow> []))"

definition wd_limited :: "instant \<Rightarrow> string \<Rightarrow> wd_server \<Rightarrow> bool" where
  "wd_limited now mac s = (case wd_lastRequest s mac of None \<Rightarrow> False | Some t \<Rightarrow> now - t < 50 * millisecond)"

text \<open>\<open>processPacket\<close>.  A panic is recovered: what was done before it stays done.\<close>

definition wd_processPacket :: "wd_env \<Rightarrow> wd_packet \<Rightarrow> wd_server \<Rightarrow> wd_action list \<times> wd_server" where
  "wd_processPacket env packet s =
     (if wp_SrcPort packet \<noteq> 68 \<or> wp_DstPort packet \<noteq> 67 then ([Reinject packet], s)
      else
        let s1 = s\<lparr>wd_packetsReceived := wd_packetsReceived s + 1\<rparr>; dhcpStart = ip_header_len (wp_Raw packet) + 8
        in if wp_Raw packet = [] then ([], s1)
           else if length (wp_Raw packet) \<le> dhcpStart then ([Reinject packet], s1)
           else
             let d = drop dhcpStart (wp_Raw packet); macStr = HardwareAddr_String (request_mac packet d)
             in if wd_limited (we_now env) macStr s1 then ([Reinject packet], s1)
                else
                  let s2 = s1\<lparr>wd_lastRequest := (wd_lastRequest s1)(macStr \<mapsto> we_now env)\<rparr>;
                      (res, srv) = HandleRequest (wd_smart s2) (we_mode env) (we_dhcp env) d (wd_server s2);
                      s3 = s2\<lparr>wd_server := srv\<rparr>
                  in case res of
                       Handled (Reply data) \<Rightarrow>
                         (case sendDHCPResponseWithMAC env packet data s3 of
                            (None, as, s4) \<Rightarrow> (as, s4\<lparr>wd_packetsSent := wd_packetsSent s4 + 1\<rparr>)
                          | (Some e, as, s4) \<Rightarrow> (as, s4\<lparr>wd_errorsCount := wd_errorsCount s4 + 1\<rparr>))
                     | Handled DhcpPanic \<Rightarrow> ([], s3)
                     | _ \<Rightarrow> ([Reinject packet], s3))"

subsection \<open>The loop\<close>

definition maxErrors :: nat where "maxErrors = 10"

definition recv_backoff :: "nat \<Rightarrow> duration" where
  "recv_backoff errorCount = (let b = int (100 * 2 ^ errorCount) * millisecond in if b > 2 * second then 2 * second else b)"

text \<open>What an iteration meets: the stop signal, the monitoring tick, a failed receive (with the stop signal arriving during the wait
  after it, or not), or a packet.\<close>

datatype wd_event = StopSignal | QueueTick | RecvFails bool | RecvPacket wd_env wd_packet

text \<open>The result is whether the loop has ended, the waits and the actions in order, and the server.\<close>

fun packetLoop :: "wd_event list \<Rightarrow> nat \<Rightarrow> wd_server \<Rightarrow> bool \<times> duration list \<times> wd_action list \<times> wd_server" where
  "packetLoop [] errorCount s = (False, [], [], s)"
| "packetLoop (StopSignal # es) errorCount s = (True, [], [], s)"
| "packetLoop (QueueTick # es) errorCount s = packetLoop es errorCount s"
| "packetLoop (RecvFails stopped # es) errorCount s =
     (if errorCount + 1 \<ge> maxErrors then (True, [], [], s)
      else if stopped then (True, [], [], s)
      else case packetLoop es (errorCount + 1) s of (fin, ws, as, s') \<Rightarrow> (fin, recv_backoff (errorCount + 1) # ws, as, s'))"
| "packetLoop (RecvPacket env packet # es) errorCount s =
     (case wd_processPacket env packet s of
        (as1, s1) \<Rightarrow> (case packetLoop es 0 s1 of (fin, ws, as, s') \<Rightarrow> (fin, ws, as1 @ as, s')))"

subsection \<open>The checksum of the header\<close>

lemma drop_bit_16_zero: "drop_bit 16 (s :: 32 word) \<noteq> 0 \<longleftrightarrow> 65535 < s"
proof -
  have "drop_bit 16 s = 0 \<longleftrightarrow> unat s div 65536 = 0" by (simp flip: unat_fold_parts(1) add: unat_eq_0)
  then show ?thesis by (auto simp: div_eq_0_iff word_less_nat_alt)
qed

lemma add_carry_fold16: "add_carry s = fold16 s"
proof (induction s rule: fold16.induct)
  case (1 s)
  then show ?case
    by (subst add_carry.simps, subst fold16.simps) (simp add: drop_bit_16_zero add.commute)
qed

lemma pair_value: "(push_bit 8 (ucast a) OR ucast b :: 32 word) = ucast (get16 [a, b])"
  by (rule bit_word_eqI) (auto simp: get16_def bit_simps dest: bit_imp_le_length)

lemma sum_pairs_sum16: "even (length d) \<Longrightarrow> sum_pairs s d = sum16 s d"
  by (induction s d rule: sum16.induct) (simp_all add: pair_value)

lemma ip_checksum: "even (length h) \<Longrightarrow> calculateIPChecksum h = calculateChecksum (h[10 := 0, 11 := 0])"
proof -
  assume "even (length h)"
  moreover have "(ucast (NOT x) :: 16 word) = NOT (ucast x)" for x :: "32 word"
    by (rule bit_word_eqI) (simp add: bit_simps)
  ultimately show ?thesis by (simp add: calculateIPChecksum_def calculateChecksum_def add_carry_fold16 sum_pairs_sum16)
qed

lemma length_ip_header [simp]: "length (ip_header n a b) = 20"
  by (simp add: ip_header_def)

lemma zeroed_header: "(ip_header n a b)[10 := 0, 11 := 0] = ip_header n a b"
  by (simp add: ip_header_def put16_def)

text \<open>The header with its checksum in place.\<close>

definition checked_header :: "nat \<Rightarrow> ip \<Rightarrow> ip \<Rightarrow> byte list" where
  "checked_header n a b = ([0x45, 0] @ put16 (of_nat n) @ [0, 0, 0, 0, 64, 17]) @
     put16 (calculateChecksum (ip_header n a b)) @ slot4 a @ slot4 b"

lemma header_with_checksum:
  "copy_to 10 12 (put16 (calculateIPChecksum (ip_header n a b))) (ip_header n a b) = checked_header n a b"
  unfolding ip_checksum [of "ip_header n a b", simplified] zeroed_header
  by (simp add: checked_header_def copy_to_def ip_header_def put16_def)

lemma length_checked_header [simp]: "length (checked_header n a b) = 20"
  by (simp add: checked_header_def)

lemma checked_header_verifies: "calculateChecksum (checked_header n a b) = 0"
proof -
  let ?pre = "[0x45, 0] @ put16 (of_nat n) @ [0, 0, 0, 0, 64, 17]"
  have m: "ip_header n a b = ?pre @ [0, 0] @ slot4 a @ slot4 b" by (simp add: ip_header_def)
  have "0 < nsum ([0x45, 0] @ put16 (of_nat n) @ [0, 0, 0, 0, 64, 17] @ [0, 0] @ slot4 a @ slot4 b)"
    by (simp add: get16_def unat_push8)
  then have "0 < nsum (ip_header n a b)" by (simp add: ip_header_def)
  then show ?thesis using checksum_inserted [OF m] by (simp add: checked_header_def)
qed

lemma packet_parts:
  "buildIPUDPPacket a b sp dp payload =
     checked_header (28 + length payload) a b @ put16 sp @ put16 dp @ put16 (of_nat (8 + length payload)) @ [0, 0] @ payload"
  by (simp add: buildIPUDPPacket_def Let_def header_with_checksum)

lemma packet_bytes:
  fixes a b payload sp dp
  defines "d \<equiv> buildIPUDPPacket a b sp dp payload"
  shows "d ! 0 = 0x45" "d ! 9 = 17" "sub 12 16 d = slot4 a" "sub 16 20 d = slot4 b" "sub 6 12 d = [0, 0, 64, 17] @ put16 (calculateChecksum (ip_header (28 + length payload) a b))"
    "drop 20 d = put16 sp @ put16 dp @ put16 (of_nat (8 + length payload)) @ [0, 0] @ payload"
    "drop 22 d = put16 dp @ put16 (of_nat (8 + length payload)) @ [0, 0] @ payload"
    "drop 28 d = payload" "length d = 28 + length payload"
  by (simp_all add: d_def packet_parts checked_header_def sub_def put16_def drop_Cons' nth_append)

lemma header_nibbles: "ip_header_len (buildIPUDPPacket a b sp dp payload) = 20" "drop_bit 4 (0x45 :: byte) AND 0x0F = 4"
proof -
  have "unat (((0x45 :: byte) AND 0x0F) * 4) = 20" by simp
  then show "ip_header_len (buildIPUDPPacket a b sp dp payload) = 20" by (simp add: ip_header_len_def packet_bytes(1))
  show "drop_bit 4 (0x45 :: byte) AND 0x0F = 4" by code_simp
qed

subsection \<open>Replies\<close>

lemma find_type_first:
  assumes "length h = 240"
  shows "reply_type (h @ addOption 53 [t] @ rest) = t"
  using assms by (simp add: reply_type_def find_msg_type.simps [of _ 240] addOption_def nth_append)

lemma reply_layout:
  "\<exists>rest. buildResponse cfg stale msg ty ip = dhcp_header (build_reply cfg stale msg ty ip) @ addOption 53 [ty] @ rest"
proof -
  let ?r = "build_reply cfg stale msg ty ip"
  have o: "Options ?r OptionDHCPMessageType = Some [ty]"
    by (simp add: build_reply_def Let_def option_codes)
  then obtain cs where "option_order [] ?r = OptionDHCPMessageType # cs" by (simp add: option_order_def fixed_order_def)
  then show ?thesis using o by (simp add: buildResponse_def Marshal_def option_codes)
qed

lemma reply_client:
  assumes "length (ClientIP msg) = 4"
  shows "sub 12 16 (buildResponse cfg stale msg ty ip) = ClientIP msg"
proof -
  have c: "ClientIP (build_reply cfg stale msg ty ip) = ClientIP msg" by (simp add: build_reply_def Let_def)
  have "sub 12 16 (dhcp_header (build_reply cfg stale msg ty ip)) = ClientIP msg"
    unfolding dhcp_header_def c using assms by (simp add: sub_copy_same sub_copy_other)
  then show ?thesis using reply_layout [of cfg stale msg ty ip] by (auto simp: sub_append)
qed

subsection \<open>The way of a reply\<close>

lemma handler_replies:
  "fst (handleDiscover smart env msg s) = Reply data \<Longrightarrow> \<exists>cfg a. data = buildResponse cfg (dv_stale env) msg 2 a"
  "fst (handleRequest smart env msg s) = Reply data \<Longrightarrow> \<exists>cfg a. data = buildResponse cfg (dv_stale env) msg 5 a"
  "fst (handleRelease msg s) \<noteq> Reply data"
  "fst (handleInform env msg s) = Reply data \<Longrightarrow> \<exists>cfg a. data = buildResponse cfg (dv_stale env) msg 5 a"
  by (auto simp: handleDiscover_def handleRequest_def handleRelease_def handleInform_def Let_def
      split: prod.splits alloc_result.splits option.splits if_splits)

lemma processed_reply:
  assumes "ParseDHCPMessage d = Parsed msg" and "fst (processDHCPRequest smart env d s) = Reply data"
  shows "\<exists>cfg stale ty a. data = buildResponse cfg stale msg ty a \<and> (ty = 2 \<or> ty = 5)"
proof -
  have "fst (handleDiscover smart env msg s) = Reply data \<or> fst (handleRequest smart env msg s) = Reply data \<or>
      fst (handleInform env msg s) = Reply data"
    using assms handler_replies(3) [of msg s data] by (auto simp: processDHCPRequest_def split: option.splits list.splits if_splits)
  then show ?thesis using handler_replies(1,2,4) by metis
qed

lemma request_reply:
  assumes "fst (HandleRequest smart mode env d s) = Handled (Reply data)"
  obtains msg cfg stale ty a where "ParseDHCPMessage d = Parsed msg" "data = buildResponse cfg stale msg ty a" "ty = 2 \<or> ty = 5"
proof -
  obtain msg where m: "ParseDHCPMessage d = Parsed msg" using assms by (auto simp: HandleRequest_def split: dhcp_parse.splits)
  have "\<exists>s1. fst (processDHCPRequest smart env d s1) = Reply data"
    using assms m
    by (auto simp: HandleRequest_def Let_def split: prod.splits bool.splits queue_mode.splits dhcp_reply.splits if_splits)
      (metis fst_conv)+
  then show ?thesis using processed_reply [OF m] that m by blast
qed

definition client_addressed :: "dhcp_message \<Rightarrow> bool" where
  "client_addressed msg \<longleftrightarrow> ClientIP msg \<noteq> [0, 0, 0, 0]"

lemma parsed_client: "ParseDHCPMessage d = Parsed msg \<Longrightarrow> length (ClientIP msg) = 4"
  by (auto simp: ParseDHCPMessage_def sub_def split: if_splits option.splits)

lemma zero_address: "length a = 4 \<Longrightarrow> IP_Equal a (v4InV6Prefix @ [0, 0, 0, 0]) \<longleftrightarrow> a = [0, 0, 0, 0]"
  by (auto simp: IP_Equal_def To4_def v4InV6Prefix_def)

lemma reply_destination:
  assumes "length (ClientIP msg) = 4"
  shows "clientHasIP (buildResponse cfg stale msg ty a) \<longleftrightarrow> client_addressed msg"
    and "client_addressed msg \<Longrightarrow> reply_dstIP (buildResponse cfg stale msg ty a) = ClientIP msg"
    and "reply_type (buildResponse cfg stale msg ty a) = ty"
proof -
  obtain rest where r: "buildResponse cfg stale msg ty a = dhcp_header (build_reply cfg stale msg ty a) @ addOption 53 [ty] @ rest"
    using reply_layout by blast
  have "20 \<le> length (buildResponse cfg stale msg ty a)" by (simp add: r)
  then show h: "clientHasIP (buildResponse cfg stale msg ty a) \<longleftrightarrow> client_addressed msg"
    using assms by (simp add: clientHasIP_def reply_client zero_address client_addressed_def)
  show "client_addressed msg \<Longrightarrow> reply_dstIP (buildResponse cfg stale msg ty a) = ClientIP msg"
    using h assms by (simp add: reply_dstIP_def reply_client)
  show "reply_type (buildResponse cfg stale msg ty a) = ty" unfolding r by (rule find_type_first) simp
qed

lemma open_pcap_frame:
  "open_pcap env s = (e, s1) \<Longrightarrow> wd_localMAC s1 = wd_localMAC s \<and> wd_localIP s1 = wd_localIP s \<and> wd_server s1 = wd_server s \<and> wd_smart s1 = wd_smart s"
  by (auto simp: open_pcap_def Let_def split: if_splits option.splits)

lemma send_frame:
  "sendDHCPResponseWithMAC env pk data s = (e, as, s1) \<Longrightarrow> wd_server s1 = wd_server s \<and> wd_smart s1 = wd_smart s"
  by (auto simp: sendDHCPResponseWithMAC_def sendBroadcastDHCP_def sendViaPcap_def Let_def
      dest: open_pcap_frame split: if_splits prod.splits option.splits)

text \<open>The reply of a request: to everybody for a client without an address, otherwise to the client.\<close>

definition routed :: "ip \<Rightarrow> byte list \<Rightarrow> dhcp_message \<Rightarrow> wd_action \<Rightarrow> bool" where
  "routed localIP localMAC msg act =
     (case act of
        Reinject p \<Rightarrow> False
      | WriteFrame f \<Rightarrow> \<not> client_addressed msg \<and> pf_DstMAC f = broadcastMAC \<and> pf_DstIP f = broadcastIP \<and> pf_SrcMAC f = localMAC \<and>
          pf_SrcIP f = localIP \<and> pf_SrcPort f = 67 \<and> pf_DstPort f = 68
      | SendIP d i j \<Rightarrow> client_addressed msg \<and> (\<exists>data. d = buildIPUDPPacket localIP (ClientIP msg) 67 68 data))"

lemma reply_routed:
  assumes "length (ClientIP msg) = 4" "data = buildResponse cfg stale msg ty a" "ty = 2 \<or> ty = 5"
    and "sendDHCPResponseWithMAC env pk data s = (e, as, s1)"
  shows "as = [] \<and> e \<noteq> None \<or> e = None \<and> (\<exists>act. as = [act] \<and> routed (wd_localIP s) (wd_localMAC s) msg act)"
  using assms(4,3) reply_destination [OF assms(1), of cfg stale ty a, folded assms(2)]
  by (auto simp: sendDHCPResponseWithMAC_def sendBroadcastDHCP_def sendViaPcap_def routed_def Let_def
      dest: open_pcap_frame split: if_splits prod.splits option.splits)

subsection \<open>Runs\<close>

lemma packet_step:
  assumes "wd_smart s = None" and "wd_processPacket env pk s = (as, s')"
  shows "dhcp_step\<^sup>=\<^sup>= (wd_server s) (wd_server s') \<and> wd_smart s' = None"
proof -
  have step: "dhcp_step (wd_server s) (snd (HandleRequest None mode e d (wd_server s)))" for mode e d by (rule dhcp_step.request)
  have step': "dhcp_step (wd_server s) srv" if "HandleRequest None mode e d (wd_server s) = (res, srv)" for mode e d res srv
    using step [of mode e d] that by simp
  show ?thesis
    using assms
    by (auto simp: wd_processPacket_def Let_def dest!: send_frame intro: step'
        split: if_splits prod.splits handle_result.splits dhcp_reply.splits option.splits)
qed

lemma loop_steps:
  "packetLoop es n s = (fin, ws, as, s') \<Longrightarrow> wd_smart s = None \<Longrightarrow> dhcp_step\<^sup>*\<^sup>* (wd_server s) (wd_server s')"
proof (induction es n s arbitrary: fin ws as s' rule: packetLoop.induct)
  case (4 stopped es n s)
  then show ?case by (auto split: if_splits prod.splits)
next
  case (5 env pk es n s)
  obtain as1 s1 where p: "wd_processPacket env pk s = (as1, s1)" by fastforce
  obtain f w a where l: "packetLoop es 0 s1 = (f, w, a, s')" using 5(2) p by (auto split: prod.splits)
  have "dhcp_step\<^sup>=\<^sup>= (wd_server s) (wd_server s1)" "wd_smart s1 = None" using packet_step [OF 5(3) p] by auto
  moreover have "dhcp_step\<^sup>*\<^sup>* (wd_server s1) (wd_server s')" using 5(1) [OF p [symmetric] l] calculation(2) by blast
  ultimately show ?case by (auto intro: converse_rtranclp_into_rtranclp)
qed auto

text \<open>The counters that nothing writes.\<close>

definition idle_counters :: "wd_server \<Rightarrow> 64 word list" where
  "idle_counters s = [wd_discoverCount s, wd_requestCount s, wd_offerCount s, wd_ackCount s, ucast (wd_activeLeases s)]"

lemma send_counters: "sendDHCPResponseWithMAC env pk data s = (e, as, s1) \<Longrightarrow> idle_counters s1 = idle_counters s"
  by (auto simp: sendDHCPResponseWithMAC_def sendBroadcastDHCP_def sendViaPcap_def open_pcap_def idle_counters_def Let_def
      split: if_splits prod.splits option.splits)

lemma counters_frame [simp]:
  "idle_counters (s\<lparr>wd_packetsSent := x\<rparr>) = idle_counters s" "idle_counters (s\<lparr>wd_errorsCount := x\<rparr>) = idle_counters s"
  "idle_counters (s\<lparr>wd_packetsReceived := x\<rparr>) = idle_counters s" "idle_counters (s\<lparr>wd_lastRequest := l\<rparr>) = idle_counters s"
  "idle_counters (s\<lparr>wd_server := v\<rparr>) = idle_counters s"
  by (simp_all add: idle_counters_def)

lemma packet_counters: "wd_processPacket env pk s = (as, s') \<Longrightarrow> idle_counters s' = idle_counters s"
  by (auto simp: wd_processPacket_def Let_def dest!: send_counters
      split: if_splits prod.splits handle_result.splits dhcp_reply.splits option.splits)

lemma loop_counters: "packetLoop es n s = (fin, ws, as, s') \<Longrightarrow> idle_counters s' = idle_counters s"
  by (induction es n s arbitrary: fin ws as s' rule: packetLoop.induct)
    (auto dest: packet_counters split: if_splits prod.splits)

lemma loop_failures:
  "n + k = maxErrors \<Longrightarrow> 0 < k \<Longrightarrow>
     packetLoop (replicate k (RecvFails False) @ es) n s = (True, map recv_backoff [Suc n..<maxErrors], [], s)"
proof (induction k arbitrary: n)
  case (Suc k)
  show ?case
  proof (cases k)
    case 0
    then show ?thesis using Suc.prems by simp
  next
    case (Suc j)
    then have "Suc n < maxErrors" using Suc.prems by simp
    then have "[Suc n..<maxErrors] = Suc n # [Suc (Suc n)..<maxErrors]" by (simp add: upt_conv_Cons)
    then show ?thesis using Suc.IH [of "Suc n"] Suc.prems Suc \<open>Suc n < maxErrors\<close> by simp
  qed
qed simp

lemma frame_tail:
  assumes "length h = 42" "20 \<le> n"
  shows "drop (22 + n) (copy_to 40 42 (put16 c) (h @ replicate n 0)) = replicate 20 0"
proof -
  have "copy_to 40 42 (put16 c) (h @ replicate n 0) = (take 40 h @ put16 c) @ replicate n 0" using assms(1) by (simp add: copy_to_def)
  moreover have "length (take 40 h @ put16 c) = 42" using assms(1) by simp
  ultimately have "drop (22 + n) (copy_to 40 42 (put16 c) (h @ replicate n 0)) = drop (22 + n - 42) (replicate n 0)"
    using assms(2) by (simp only: drop_append) simp
  then show ?thesis using assms(2) by simp
qed

subsection \<open>Properties\<close>

text \<open>A packet that is built is parsed back: its addresses, its ports, and its payload behind the headers; and its header verifies, the
  checksum over it being zero.\<close>

theorem wd_packet_roundtrip:
  assumes "To4 a = Some a4" "To4 b = Some b4"
  shows "wp_SrcIP (parsePacketRaw (buildIPUDPPacket a b sp dp payload) pkt) = Some a4 \<and>
    wp_DstIP (parsePacketRaw (buildIPUDPPacket a b sp dp payload) pkt) = Some b4 \<and>
    wp_SrcPort (parsePacketRaw (buildIPUDPPacket a b sp dp payload) pkt) = sp \<and>
    wp_DstPort (parsePacketRaw (buildIPUDPPacket a b sp dp payload) pkt) = dp \<and>
    drop (ip_header_len (buildIPUDPPacket a b sp dp payload) + 8) (buildIPUDPPacket a b sp dp payload) = payload \<and>
    calculateChecksum (take 20 (buildIPUDPPacket a b sp dp payload)) = 0"
proof -
  have "take 20 (buildIPUDPPacket a b sp dp payload) = checked_header (28 + length payload) a b" by (simp add: packet_parts)
  then show ?thesis
    using assms
    by (simp add: parsePacketRaw_def Let_def parse_network_def set_ports_def packet_bytes header_nibbles get16_append slot4_def
        checked_header_verifies)
qed

definition example_wd_packet :: wd_packet where
  "example_wd_packet = \<lparr>wp_Raw = [], wp_IfIdx = 1, wp_SubIfIdx = 0, wp_SrcMAC = None, wp_DstMAC = None, wp_SrcIP = None, wp_DstIP = None,
     wp_SrcPort = 68, wp_DstPort = 67\<rparr>"

theorem wd_packet_roundtrip_witness:
  "wp_SrcIP (parsePacketRaw (buildIPUDPPacket [10, 0, 0, 1] [10, 0, 0, 2] 67 68 [1, 2, 3]) example_wd_packet) = Some [10, 0, 0, 1] \<and>
    wp_DstIP (parsePacketRaw (buildIPUDPPacket [10, 0, 0, 1] [10, 0, 0, 2] 67 68 [1, 2, 3]) example_wd_packet) = Some [10, 0, 0, 2] \<and>
    wp_SrcPort (parsePacketRaw (buildIPUDPPacket [10, 0, 0, 1] [10, 0, 0, 2] 67 68 [1, 2, 3]) example_wd_packet) = 67 \<and>
    wp_DstPort (parsePacketRaw (buildIPUDPPacket [10, 0, 0, 1] [10, 0, 0, 2] 67 68 [1, 2, 3]) example_wd_packet) = 68 \<and>
    drop (ip_header_len (buildIPUDPPacket [10, 0, 0, 1] [10, 0, 0, 2] 67 68 [1, 2, 3]) + 8)
      (buildIPUDPPacket [10, 0, 0, 1] [10, 0, 0, 2] 67 68 [1, 2, 3]) = [1, 2, 3] \<and>
    calculateChecksum (take 20 (buildIPUDPPacket [10, 0, 0, 1] [10, 0, 0, 2] 67 68 [1, 2, 3])) = 0"
  by (rule wd_packet_roundtrip) (simp_all add: To4_def)

text \<open>The hardware addresses that parsing reports are not those of the sender: a packet starts with its IP header, and the bytes taken for the
  source address are the flags, the time to live, the protocol and the checksum.\<close>

theorem wd_source_mac_is_ip_header:
  "wp_SrcMAC (parsePacketRaw (buildIPUDPPacket a b sp dp payload) pkt) =
     Some ([0, 0, 64, 17] @ put16 (calculateChecksum (ip_header (28 + length payload) a b)))"
  by (simp add: parsePacketRaw_def Let_def packet_bytes)

text \<open>The Ethernet frame that \<open>buildEthernetIPUDPPacket\<close> builds is broken for every payload of 20 bytes or more: the payload is written over the IP
  header from its eighth byte on and over the UDP header, and the frame ends in 20 zero bytes.\<close>

theorem ethernet_payload_overwrites_headers:
  assumes "buildEthernetIPUDPPacket dm sm a b sp dp payload = Some f" and "20 \<le> length payload"
  shows "length f = 42 + length payload \<and> sub 22 (22 + length payload) f = payload \<and> drop (22 + length payload) f = replicate 20 0"
proof -
  let ?eth = "copy_to 6 12 sm (copy_to 0 6 dm (replicate 12 0)) @ [0x08, 0x00]"
  let ?udp = "put16 sp @ put16 dp @ put16 (of_nat (8 + length payload)) @ [0, 0]"
  let ?p1 = "(?eth @ checked_header (28 + length payload) a b @ ?udp) @ replicate (length payload) 0"
  obtain c where f: "f = copy_to 22 (42 + length payload) payload (copy_to 40 42 (put16 c) ?p1)"
    using assms(1) by (auto simp: buildEthernetIPUDPPacket_def Let_def header_with_checksum)
  have l: "length (?eth @ checked_header (28 + length payload) a b @ ?udp) = 42" by simp
  let ?q = "copy_to 40 42 (put16 c) ?p1"
  have q: "length ?q = 42 + length payload" "drop (22 + length payload) ?q = replicate 20 0"
    using l frame_tail [OF l assms(2)] by simp_all
  define g where "g = ?q"
  have "f = take 22 g @ payload @ replicate 20 0"
    using q(2) unfolding f g_def [symmetric] by (simp add: copy_to_def)
  moreover have "length g = 42 + length payload" using q(1) by (simp add: g_def)
  ultimately show ?thesis by (simp add: sub_def)
qed

definition example_payload :: "byte list" where "example_payload = replicate 24 7"

theorem ethernet_payload_overwrites_headers_witness:
  "\<exists>f. buildEthernetIPUDPPacket broadcastMAC broadcastMAC [10, 0, 0, 1] [10, 0, 0, 2] 67 68 example_payload = Some f \<and>
    length f = 42 + length example_payload \<and> sub 22 (22 + length example_payload) f = example_payload \<and>
    drop (22 + length example_payload) f = replicate 20 0"
proof -
  obtain f where f: "buildEthernetIPUDPPacket broadcastMAC broadcastMAC [10, 0, 0, 1] [10, 0, 0, 2] 67 68 example_payload = Some f"
    by (auto simp: buildEthernetIPUDPPacket_def calculateUDPChecksum_def Let_def)
  moreover have "20 \<le> length example_payload" by (simp add: example_payload_def)
  ultimately show ?thesis using ethernet_payload_overwrites_headers by blast
qed

text \<open>What happens to a packet: at most one action, which hands the packet back or is the reply to the message it holds, by broadcast frame for a
  client without an address and to the client's address otherwise.\<close>

theorem wd_replies_routed:
  assumes "wd_processPacket env pk s = (as, s')"
  shows "as = [] \<or> as = [Reinject pk] \<or>
    (\<exists>msg act. ParseDHCPMessage (drop (ip_header_len (wp_Raw pk) + 8) (wp_Raw pk)) = Parsed msg \<and> as = [act] \<and>
       routed (wd_localIP s) (wd_localMAC s) msg act)"
proof -
  define d where "d = drop (ip_header_len (wp_Raw pk) + 8) (wp_Raw pk)"
  define s2 where "s2 = s\<lparr>wd_packetsReceived := wd_packetsReceived s + 1,
    wd_lastRequest := (wd_lastRequest s)(HardwareAddr_String (request_mac pk d) \<mapsto> we_now env)\<rparr>"
  obtain res srv where h: "HandleRequest (wd_smart s) (we_mode env) (we_dhcp env) d (wd_server s) = (res, srv)" by fastforce
  show ?thesis
  proof (cases "\<exists>data. res = Handled (Reply data)")
    case True
    then obtain data where r: "res = Handled (Reply data)" by blast
    obtain msg cfg stale ty a where m: "ParseDHCPMessage d = Parsed msg" "data = buildResponse cfg stale msg ty a" "ty = 2 \<or> ty = 5"
      by (rule request_reply [of "wd_smart s" "we_mode env" "we_dhcp env" d "wd_server s" data]) (use h r in simp_all)
    obtain e bs s4 where x: "sendDHCPResponseWithMAC env pk data (s2\<lparr>wd_server := srv\<rparr>) = (e, bs, s4)" by (metis prod_cases3)
    have "bs = [] \<or> (\<exists>act. bs = [act] \<and> routed (wd_localIP s) (wd_localMAC s) msg act)"
      using reply_routed [OF parsed_client [OF m(1)] m(2,3) x] by (auto simp: s2_def)
    moreover have "as = [] \<or> as = [Reinject pk] \<or> as = bs"
      using assms h r x unfolding wd_processPacket_def Let_def d_def s2_def by (auto split: if_splits option.splits)
    ultimately show ?thesis using m(1) by (auto simp: d_def)
  next
    case False
    then show ?thesis
      using assms h unfolding wd_processPacket_def Let_def d_def by (auto split: if_splits handle_result.splits dhcp_reply.splits)
  qed
qed

definition wd_example_env :: wd_env where
  "wd_example_env = \<lparr>we_now = 0, we_mode = Queued, we_dhcp = example_dhcp_env, we_devices = Some [(''eth0'', [])], we_addrs = None,
     we_opens = (\<lambda>_. True), we_serializes = True, we_writes = True, we_sends = True\<rparr>"

definition wd_example :: wd_server where
  "wd_example = NewDHCPServer (\<lambda>_ _ m. m) example_pool 1 [2, 0, 0, 0, 0, 9] False [] [] ''eth0''"

definition wd_discover :: wd_packet where
  "wd_discover = example_wd_packet\<lparr>wp_Raw := buildIPUDPPacket [0, 0, 0, 0] [255, 255, 255, 255] 68 67 (example_packet 1)\<rparr>"

theorem wd_replies_routed_witness:
  "fst (wd_processPacket wd_example_env wd_discover wd_example) = [] \<or> fst (wd_processPacket wd_example_env wd_discover wd_example) = [Reinject wd_discover] \<or>
    (\<exists>msg act. ParseDHCPMessage (drop (ip_header_len (wp_Raw wd_discover) + 8) (wp_Raw wd_discover)) = Parsed msg \<and>
       fst (wd_processPacket wd_example_env wd_discover wd_example) = [act] \<and> routed (wd_localIP wd_example) (wd_localMAC wd_example) msg act)"
  by (rule wd_replies_routed [of _ _ _ _ "snd (wd_processPacket wd_example_env wd_discover wd_example)"]) simp

text \<open>Without device-based allocation, every run of the packet loop is a run of the DHCP server, so that whatever holds in the runs of
  the server holds here.\<close>

theorem wd_loop_refines_server:
  assumes "packetLoop es n s = (fin, ws, as, s')" and "wd_smart s = None"
  shows "dhcp_step\<^sup>*\<^sup>* (wd_server s) (wd_server s')"
  using assms by (rule loop_steps)

lemma example_loop:
  "packetLoop [RecvPacket env pk] 0 s = (False, [], fst (wd_processPacket env pk s), snd (wd_processPacket env pk s))"
  by (simp split: prod.split)

theorem wd_loop_refines_server_witness:
  "dhcp_step\<^sup>*\<^sup>* (wd_server wd_example) (wd_server (snd (wd_processPacket wd_example_env wd_discover wd_example)))"
  by (rule wd_loop_refines_server [OF example_loop]) (simp add: wd_example_def NewDHCPServer_def)

text \<open>The loop ends for good after ten failed receives in a row: 13 seconds after the first the server handles no packet any more, whatever arrives.\<close>

theorem wd_loop_gives_up:
  "\<exists>ws. packetLoop (replicate 10 (RecvFails False) @ es) 0 s = (True, ws, [], s) \<and> sum_list ws = 13 * second"
proof -
  have "packetLoop (replicate 10 (RecvFails False) @ es) 0 s = (True, map recv_backoff [Suc 0..<maxErrors], [], s)"
    by (rule loop_failures) (simp_all add: maxErrors_def)
  moreover have "sum_list (map recv_backoff [Suc 0..<maxErrors]) = 13 * second"
    by (simp add: maxErrors_def recv_backoff_def upt_rec second_def millisecond_def Let_def)
  ultimately show ?thesis by blast
qed

text \<open>A client that repeats a request within 50 milliseconds is not served: its packet is handed back and the DHCP server does not see it.\<close>

theorem wd_repeated_request_reinjected:
  assumes "wp_SrcPort pk = 68" "wp_DstPort pk = 67" "wp_Raw pk \<noteq> []"
    and "wd_lastRequest s (HardwareAddr_String (request_mac pk (drop (ip_header_len (wp_Raw pk) + 8) (wp_Raw pk)))) = Some t"
    and "we_now env - t < 50 * millisecond"
  shows "wd_processPacket env pk s = ([Reinject pk], s\<lparr>wd_packetsReceived := wd_packetsReceived s + 1\<rparr>)"
  using assms by (simp add: wd_processPacket_def Let_def wd_limited_def)

theorem wd_repeated_request_reinjected_witness:
  "wd_processPacket wd_example_env (example_wd_packet\<lparr>wp_Raw := [0x45, 0, 0], wp_SrcMAC := Some [1, 2]\<rparr>)
      (wd_example\<lparr>wd_lastRequest := [''01:02'' \<mapsto> 0]\<rparr>) =
    ([Reinject (example_wd_packet\<lparr>wp_Raw := [0x45, 0, 0], wp_SrcMAC := Some [1, 2]\<rparr>)],
     (wd_example\<lparr>wd_lastRequest := [''01:02'' \<mapsto> 0]\<rparr>)\<lparr>wd_packetsReceived := wd_packetsReceived (wd_example\<lparr>wd_lastRequest := [''01:02'' \<mapsto> 0]\<rparr>) + 1\<rparr>)"
proof (rule wd_repeated_request_reinjected)
  have "HardwareAddr_String [1, 2] = ''01:02''" by code_simp
  then show "wd_lastRequest (wd_example\<lparr>wd_lastRequest := [''01:02'' \<mapsto> 0]\<rparr>)
      (HardwareAddr_String (request_mac (example_wd_packet\<lparr>wp_Raw := [0x45, 0, 0], wp_SrcMAC := Some [1, 2]\<rparr>)
         (drop (ip_header_len (wp_Raw (example_wd_packet\<lparr>wp_Raw := [0x45, 0, 0], wp_SrcMAC := Some [1, 2]\<rparr>)) + 8)
           (wp_Raw (example_wd_packet\<lparr>wp_Raw := [0x45, 0, 0], wp_SrcMAC := Some [1, 2]\<rparr>))))) = Some 0"
    by (simp add: request_mac_def GetClientMAC_def)
qed (simp_all add: example_wd_packet_def wd_example_env_def millisecond_def)

text \<open>The counts of discovers, requests, offers, acknowledgements and active leases that the metrics report are zero in every run.\<close>

theorem wd_metrics_stay_zero:
  assumes "packetLoop es 0 (NewDHCPServer alloc cfg obj mac smart ps pe iface) = (fin, ws, as, s)"
    and "(k, v) \<in> set (wd_GetMetrics s)" and "k \<in> {''discover_count'', ''request_count'', ''offer_count'', ''ack_count'', ''active_leases''}"
  shows "v = 0"
proof -
  have "idle_counters s = replicate 5 0"
    using loop_counters [OF assms(1)] by (simp add: idle_counters_def NewDHCPServer_def eval_nat_numeral)
  then show ?thesis using assms(2,3) by (auto simp: wd_GetMetrics_def idle_counters_def eval_nat_numeral)
qed

theorem wd_metrics_stay_zero_witness:
  "wd_offerCount (snd (wd_processPacket wd_example_env wd_discover wd_example)) = 0"
  by (rule wd_metrics_stay_zero [OF example_loop [of wd_example_env wd_discover wd_example, unfolded wd_example_def], where k = "''offer_count''"])
    (simp_all add: wd_example_def wd_GetMetrics_def)

end
