(* ===== verification/StatsStore.thy ===== *)
theory StatsStore
  imports LeaseDb TtlCache AssocMaps
begin

text \<open>
  The statistics store of \<^verbatim>\<open>stats/store.go\<close>: the devices with their traffic counters, the index from hardware addresses to IP addresses,
  the cleanup of inactive devices, and the ARP cache with its size counter.

  A \<open>sync.Map\<close> that the code ranges over is an association list with distinct keys, in the order of the range; the index is a map.  Each operation
  is one step: the code keeps the counters atomic and lets the first of two creators of a device win.
\<close>

subsection \<open>The store\<close>

record device_stats =
  dv_IP :: string
  dv_MAC :: string
  dv_Hostname :: string
  dv_CustomName :: string
  dv_Connected :: bool
  dv_LastSeen :: instant
  dv_totalBytes :: "64 word"
  dv_uploadBytes :: "64 word"
  dv_downloadBytes :: "64 word"
  dv_packets :: "64 word"
  dv_SessionStart :: instant
  dv_RateLimitUpload :: "64 word"
  dv_RateLimitDownload :: "64 word"

record arp_entry =
  ae_mac :: string
  ae_hostname :: string
  ae_timestamp :: instant

record stats_store =
  st_devices :: "(string \<times> device_stats) list"
  st_macIndex :: "string \<rightharpoonup> string"
  st_started :: instant
  st_inactivityTimeout :: duration
  st_deviceCount :: "32 word"
  st_arpCache :: "(string \<times> arp_entry) list"
  st_arpCacheSize :: "32 word"
  st_maxArpCache :: int
  st_arpCacheTTL :: duration

definition NewStoreWithCleanup :: "instant \<Rightarrow> duration \<Rightarrow> stats_store" where
  "NewStoreWithCleanup now inactivityTimeout =
     \<lparr>st_devices = [], st_macIndex = Map.empty, st_started = now, st_inactivityTimeout = inactivityTimeout, st_deviceCount = 0,
      st_arpCache = [], st_arpCacheSize = 0, st_maxArpCache = 500, st_arpCacheTTL = 300 * second\<rparr>"

definition NewStore :: "instant \<Rightarrow> stats_store" where
  "NewStore now = NewStoreWithCleanup now (24 * 3600 * second)"

definition new_device :: "instant \<Rightarrow> string \<Rightarrow> string \<Rightarrow> device_stats" where
  "new_device now ip mac =
     \<lparr>dv_IP = ip, dv_MAC = mac, dv_Hostname = [], dv_CustomName = [], dv_Connected = True, dv_LastSeen = now, dv_totalBytes = 0,
      dv_uploadBytes = 0, dv_downloadBytes = 0, dv_packets = 0, dv_SessionStart = now, dv_RateLimitUpload = 0, dv_RateLimitDownload = 0\<rparr>"

subsection \<open>Traffic\<close>

text \<open>A device that the store does not know is added to the devices, the index and the count.\<close>

definition add_device :: "string \<Rightarrow> string \<Rightarrow> device_stats \<Rightarrow> stats_store \<Rightarrow> stats_store" where
  "add_device ip mac d s =
     s\<lparr>st_devices := AList.update ip d (st_devices s), st_macIndex := (st_macIndex s)(mac \<mapsto> ip), st_deviceCount := st_deviceCount s + 1\<rparr>"

definition count_traffic :: "64 word \<Rightarrow> bool \<Rightarrow> device_stats \<Rightarrow> device_stats" where
  "count_traffic bytes isUpload d =
     (let d1 = d\<lparr>dv_totalBytes := dv_totalBytes d + bytes, dv_packets := dv_packets d + 1\<rparr>
      in if isUpload then d1\<lparr>dv_uploadBytes := dv_uploadBytes d1 + bytes\<rparr> else d1\<lparr>dv_downloadBytes := dv_downloadBytes d1 + bytes\<rparr>)"

definition st_RecordTraffic :: "instant \<Rightarrow> string \<Rightarrow> string \<Rightarrow> 64 word \<Rightarrow> bool \<Rightarrow> stats_store \<Rightarrow> stats_store" where
  "st_RecordTraffic now ip mac bytes isUpload s =
     (case map_of (st_devices s) ip of
        Some d \<Rightarrow> s\<lparr>st_devices := AList.update ip (count_traffic bytes isUpload d) (st_devices s)\<rparr>
      | None \<Rightarrow> add_device ip mac (count_traffic bytes isUpload (new_device now ip mac)) s)"

definition UpdateHeartbeat :: "instant \<Rightarrow> string \<Rightarrow> string \<Rightarrow> stats_store \<Rightarrow> stats_store" where
  "UpdateHeartbeat now ip mac s =
     (case map_of (st_devices s) ip of
        Some d \<Rightarrow> s\<lparr>st_devices := AList.update ip (d\<lparr>dv_LastSeen := now, dv_Connected := True\<rparr>) (st_devices s)\<rparr>
      | None \<Rightarrow> add_device ip mac (new_device now ip mac) s)"

definition SetDisconnected :: "string \<Rightarrow> stats_store \<Rightarrow> stats_store" where
  "SetDisconnected ip s =
     (case map_of (st_devices s) ip of
        Some d \<Rightarrow> s\<lparr>st_devices := AList.update ip (d\<lparr>dv_Connected := False\<rparr>) (st_devices s)\<rparr>
      | None \<Rightarrow> s)"

definition CleanupInactive :: "instant \<Rightarrow> stats_store \<Rightarrow> nat \<times> stats_store" where
  "CleanupInactive now s =
     (if st_inactivityTimeout s = 0 then (0, s)
      else
        let old = (\<lambda>d. dv_LastSeen d < now - st_inactivityTimeout s); gone = filter (\<lambda>(ip, d). old d) (st_devices s)
        in (length gone,
            s\<lparr>st_macIndex := fold (\<lambda>(ip, d) m. m(dv_MAC d := None)) gone (st_macIndex s),
              st_devices := filter (\<lambda>(ip, d). \<not> old d) (st_devices s), st_deviceCount := st_deviceCount s - of_nat (length gone)\<rparr>))"

definition Reset :: "instant \<Rightarrow> stats_store \<Rightarrow> stats_store" where
  "Reset now s = s\<lparr>st_devices := [], st_macIndex := Map.empty, st_deviceCount := 0, st_started := now\<rparr>"

subsection \<open>Devices by hardware address\<close>

text \<open>A stale entry of the index is removed when it is met.\<close>

definition getDeviceByMAC :: "string \<Rightarrow> stats_store \<Rightarrow> (device_stats \<times> string) option \<times> stats_store" where
  "getDeviceByMAC mac s =
     (case st_macIndex s mac of
        None \<Rightarrow> (None, s)
      | Some ip \<Rightarrow>
          (case map_of (st_devices s) ip of
             Some d \<Rightarrow> (Some (d, ip), s)
           | None \<Rightarrow> (None, s\<lparr>st_macIndex := (st_macIndex s)(mac := None)\<rparr>)))"

definition forEachDeviceByMAC :: "string \<Rightarrow> (device_stats \<Rightarrow> device_stats) \<Rightarrow> stats_store \<Rightarrow> stats_store" where
  "forEachDeviceByMAC mac f s =
     (case getDeviceByMAC mac s of
        (None, s1) \<Rightarrow> s1
      | (Some (d, ip), s1) \<Rightarrow> s1\<lparr>st_devices := AList.update ip (f d) (st_devices s1)\<rparr>)"

definition st_SetHostname :: "string \<Rightarrow> string \<Rightarrow> stats_store \<Rightarrow> stats_store" where
  "st_SetHostname mac hostname s = (if hostname = [] then s else forEachDeviceByMAC mac (\<lambda>d. d\<lparr>dv_Hostname := hostname\<rparr>) s)"

definition RecordTrafficWithHostname ::
  "instant \<Rightarrow> string \<Rightarrow> string \<Rightarrow> string \<Rightarrow> 64 word \<Rightarrow> bool \<Rightarrow> stats_store \<Rightarrow> stats_store" where
  "RecordTrafficWithHostname now ip mac hostname bytes isUpload s =
     st_RecordTraffic now ip mac bytes isUpload (if hostname \<noteq> [] then st_SetHostname mac hostname s else s)"

definition SetCustomName :: "string \<Rightarrow> string \<Rightarrow> stats_store \<Rightarrow> stats_store" where
  "SetCustomName mac name s = (if name = [] then s else forEachDeviceByMAC mac (\<lambda>d. d\<lparr>dv_CustomName := name\<rparr>) s)"

definition GetCustomName :: "string \<Rightarrow> stats_store \<Rightarrow> string \<times> stats_store" where
  "GetCustomName mac s = (case getDeviceByMAC mac s of (Some (d, ip), s1) \<Rightarrow> (dv_CustomName d, s1) | (None, s1) \<Rightarrow> ([], s1))"

definition SetRateLimit :: "string \<Rightarrow> 64 word \<Rightarrow> 64 word \<Rightarrow> stats_store \<Rightarrow> stats_store" where
  "SetRateLimit mac upload download s =
     forEachDeviceByMAC mac (\<lambda>d. d\<lparr>dv_RateLimitUpload := upload, dv_RateLimitDownload := download\<rparr>) s"

definition GetRateLimit :: "string \<Rightarrow> stats_store \<Rightarrow> (64 word \<times> 64 word) \<times> stats_store" where
  "GetRateLimit mac s =
     (case getDeviceByMAC mac s of
        (Some (d, ip), s1) \<Rightarrow> ((dv_RateLimitUpload d, dv_RateLimitDownload d), s1)
      | (None, s1) \<Rightarrow> ((0, 0), s1))"

definition HasDeviceByMAC :: "string \<Rightarrow> stats_store \<Rightarrow> bool \<times> stats_store" where
  "HasDeviceByMAC mac s = (case getDeviceByMAC mac s of (x, s1) \<Rightarrow> (x \<noteq> None, s1))"

subsection \<open>Reports\<close>

definition HasDevice :: "string \<Rightarrow> stats_store \<Rightarrow> bool" where
  "HasDevice ip s \<longleftrightarrow> map_of (st_devices s) ip \<noteq> None"

definition GetDeviceStats :: "string \<Rightarrow> stats_store \<Rightarrow> device_stats option" where
  "GetDeviceStats ip s = map_of (st_devices s) ip"

definition GetAllDevices :: "stats_store \<Rightarrow> device_stats list" where
  "GetAllDevices s = map snd (st_devices s)"

definition GetConnectedDevices :: "stats_store \<Rightarrow> device_stats list" where
  "GetConnectedDevices s = filter dv_Connected (map snd (st_devices s))"

definition GetTotalTraffic :: "stats_store \<Rightarrow> 64 word \<times> 64 word \<times> 64 word \<times> 64 word" where
  "GetTotalTraffic s =
     (let total = (\<lambda>f. sum_list (map (f \<circ> snd) (st_devices s)))
      in (total dv_totalBytes, total dv_uploadBytes, total dv_downloadBytes, total dv_packets))"

definition st_GetUptime :: "instant \<Rightarrow> stats_store \<Rightarrow> duration" where
  "st_GetUptime now s = now - st_started s"

definition st_GetDeviceCount :: "stats_store \<Rightarrow> int" where
  "st_GetDeviceCount s = sint (st_deviceCount s)"

definition GetActiveDeviceCount :: "stats_store \<Rightarrow> int" where
  "GetActiveDeviceCount s = sint (of_nat (length (GetConnectedDevices s)) :: 32 word)"

definition st_GetStats :: "stats_store \<Rightarrow> (64 word \<times> 64 word \<times> 64 word \<times> 64 word) \<times> int \<times> int" where
  "st_GetStats s = (GetTotalTraffic s, st_GetDeviceCount s, GetActiveDeviceCount s)"

definition display_name :: "device_stats \<Rightarrow> string" where
  "display_name d = (if dv_CustomName d \<noteq> [] then dv_CustomName d else if dv_Hostname d \<noteq> [] then dv_Hostname d else dv_MAC d)"

definition GetAllDeviceNames :: "stats_store \<Rightarrow> string \<rightharpoonup> string" where
  "GetAllDeviceNames s = fold (\<lambda>(ip, d) m. m(dv_MAC d \<mapsto> display_name d)) (st_devices s) Map.empty"

subsection \<open>The ARP cache\<close>

text \<open>\<open>None\<close> is the nil address.\<close>

definition arp_expired :: "instant \<Rightarrow> stats_store \<Rightarrow> string \<Rightarrow> bool" where
  "arp_expired now s k = (case map_of (st_arpCache s) k of None \<Rightarrow> False | Some e \<Rightarrow> now - ae_timestamp e > st_arpCacheTTL s)"

definition cleanupArpCache :: "instant \<Rightarrow> stats_store \<Rightarrow> stats_store" where
  "cleanupArpCache now s =
     (let deleted = length (filter (\<lambda>(k, e). arp_expired now s k) (st_arpCache s))
      in s\<lparr>st_arpCache := filter (\<lambda>(k, e). \<not> arp_expired now s k) (st_arpCache s),
           st_arpCacheSize := if deleted > 0 then st_arpCacheSize s - of_nat deleted else st_arpCacheSize s\<rparr>)"

definition arp_put :: "instant \<Rightarrow> string \<Rightarrow> string \<times> string \<Rightarrow> stats_store \<Rightarrow> stats_store" where
  "arp_put now ipStr v s =
     s\<lparr>st_arpCache := AList.update ipStr \<lparr>ae_mac = fst v, ae_hostname = snd v, ae_timestamp = now\<rparr> (st_arpCache s),
       st_arpCacheSize := st_arpCacheSize s + 1\<rparr>"

definition UpdateArpCache :: "instant \<Rightarrow> instant \<Rightarrow> ip option \<Rightarrow> byte list \<Rightarrow> string \<Rightarrow> stats_store \<Rightarrow> stats_store" where
  "UpdateArpCache now now2 ip mac hostname s =
     (case ip of
        None \<Rightarrow> s
      | Some a \<Rightarrow>
          if mac = [] then s
          else
            let s1 = arp_put now (IP_String a) (HardwareAddr_String mac, hostname) s
            in if sint (st_arpCacheSize s1) > st_maxArpCache s1 then cleanupArpCache now2 s1 else s1)"

definition arp_get :: "instant \<Rightarrow> string \<Rightarrow> stats_store \<Rightarrow> (string \<times> string) option \<times> stats_store" where
  "arp_get now ipStr s =
     (case map_of (st_arpCache s) ipStr of
        None \<Rightarrow> (None, s)
      | Some e \<Rightarrow>
          if now - ae_timestamp e > st_arpCacheTTL s
          then (None, s\<lparr>st_arpCache := AList.delete ipStr (st_arpCache s), st_arpCacheSize := st_arpCacheSize s - 1\<rparr>)
          else (Some (ae_mac e, ae_hostname e), s))"

definition GetFromArpCache :: "instant \<Rightarrow> ip option \<Rightarrow> stats_store \<Rightarrow> (string \<times> string) option \<times> stats_store" where
  "GetFromArpCache now ip s = (case ip of None \<Rightarrow> (None, s) | Some a \<Rightarrow> arp_get now (IP_String a) s)"

definition GetArpCacheStats :: "stats_store \<Rightarrow> 32 word \<times> int \<times> duration" where
  "GetArpCacheStats s = (st_arpCacheSize s, st_maxArpCache s, st_arpCacheTTL s)"

subsection \<open>Counters\<close>

record traffic_counter =
  tc_BytesSent :: "64 word"
  tc_BytesReceived :: "64 word"
  tc_PacketsSent :: "64 word"
  tc_PacketsReceived :: "64 word"

definition AddSent :: "64 word \<Rightarrow> traffic_counter \<Rightarrow> traffic_counter" where
  "AddSent n c = c\<lparr>tc_BytesSent := tc_BytesSent c + n, tc_PacketsSent := tc_PacketsSent c + 1\<rparr>"

definition AddReceived :: "64 word \<Rightarrow> traffic_counter \<Rightarrow> traffic_counter" where
  "AddReceived n c = c\<lparr>tc_BytesReceived := tc_BytesReceived c + n, tc_PacketsReceived := tc_PacketsReceived c + 1\<rparr>"

definition tc_GetTotal :: "traffic_counter \<Rightarrow> 64 word \<times> 64 word" where
  "tc_GetTotal c = (tc_BytesSent c, tc_BytesReceived c)"

subsection \<open>The ARP cache is a cache with expiring entries\<close>

definition arp_lookup_entry :: "stats_store \<Rightarrow> string \<Rightarrow> ((string \<times> string) \<times> instant) option" where
  "arp_lookup_entry s k = map_option (\<lambda>e. ((ae_mac e, ae_hostname e), ae_timestamp e + st_arpCacheTTL s)) (map_of (st_arpCache s) k)"

text \<open>An update, with the cleanup that may follow it.\<close>

definition arp_store :: "instant \<Rightarrow> string \<Rightarrow> string \<times> string \<Rightarrow> stats_store \<Rightarrow> stats_store \<Rightarrow> bool" where
  "arp_store now k v s s' \<longleftrightarrow>
     s' = arp_put now k v s \<or> (\<exists>now2. now2 - now \<le> st_arpCacheTTL s \<and> s' = cleanupArpCache now2 (arp_put now k v s))"

lemma map_of_filter_keys: "map_of (filter (\<lambda>(k, e). P k) c) k = (if P k then map_of c k else None)"
  by (induction c) auto

lemma arp_put_parts [simp]:
  "map_of (st_arpCache (arp_put now k v s)) = (map_of (st_arpCache s))(k \<mapsto> \<lparr>ae_mac = fst v, ae_hostname = snd v, ae_timestamp = now\<rparr>)"
  "st_arpCacheTTL (arp_put now k v s) = st_arpCacheTTL s"
  by (simp_all add: arp_put_def update_conv')

lemma cleanup_parts [simp]:
  "map_of (st_arpCache (cleanupArpCache now s)) k = (if arp_expired now s k then None else map_of (st_arpCache s) k)"
  "st_arpCacheTTL (cleanupArpCache now s) = st_arpCacheTTL s"
  by (simp_all add: cleanupArpCache_def map_of_filter_keys)

interpretation arpcache: ttl_cache id arp_lookup_entry arp_get arp_store "\<lambda>s _. st_arpCacheTTL s"
proof unfold_locales
  fix c k s
  show "fst (arp_get c k s) = (case arp_lookup_entry s k of None \<Rightarrow> None | Some (v, e) \<Rightarrow> if id c > e then None else Some v)"
    by (auto simp: arp_get_def arp_lookup_entry_def split: option.splits)
next
  fix c k s k' x
  show "arp_lookup_entry (snd (arp_get c k s)) k' = Some x \<Longrightarrow> arp_lookup_entry s k' = Some x"
    by (auto simp: arp_get_def arp_lookup_entry_def delete_conv' split: option.splits if_splits)
next
  fix c k s v
  show "fst (arp_get c k s) = Some v \<Longrightarrow> arp_lookup_entry (snd (arp_get c k s)) = arp_lookup_entry s"
    by (auto simp: arp_get_def split: option.splits if_splits)
next
  fix t k v s s'
  show "arp_store t k v s s' \<Longrightarrow> arp_lookup_entry s' k = Some (v, t + st_arpCacheTTL s)"
    by (auto simp: arp_store_def arp_lookup_entry_def arp_expired_def)
next
  fix t k v s s' k' x
  show "arp_store t k v s s' \<Longrightarrow> k' \<noteq> k \<Longrightarrow> arp_lookup_entry s' k' = Some x \<Longrightarrow> arp_lookup_entry s k' = Some x"
    by (auto simp: arp_store_def arp_lookup_entry_def split: if_splits)
qed

subsection \<open>The invariant\<close>

definition stats_inv :: "stats_store \<Rightarrow> bool" where
  "stats_inv s \<longleftrightarrow> distinct (map fst (st_devices s)) \<and> st_deviceCount s = of_nat (length (st_devices s)) \<and>
     (\<forall>(ip, d) \<in> set (st_devices s). dv_IP d = ip \<and> dv_totalBytes d = dv_uploadBytes d + dv_downloadBytes d)"

definition balanced :: "string \<Rightarrow> device_stats \<Rightarrow> bool" where
  "balanced ip d \<longleftrightarrow> dv_IP d = ip \<and> dv_totalBytes d = dv_uploadBytes d + dv_downloadBytes d"

lemma stats_inv_replace:
  assumes "stats_inv s" "map_of (st_devices s) ip = Some d" "balanced ip d'"
  shows "stats_inv (s\<lparr>st_devices := AList.update ip d' (st_devices s)\<rparr>)"
proof -
  have "ip \<in> fst ` set (st_devices s)" using assms(2) by (force dest: map_of_SomeD)
  then have "length (AList.update ip d' (st_devices s)) = length (st_devices s)" using assms(1) by (simp add: stats_inv_def length_update)
  then show ?thesis
    using assms by (auto simp: stats_inv_def balanced_def distinct_update dest!: update_values)
qed

lemma stats_inv_add:
  assumes "stats_inv s" "map_of (st_devices s) ip = None" "balanced ip d'"
  shows "stats_inv (add_device ip mac d' s)"
proof -
  have "ip \<notin> fst ` set (st_devices s)" using assms(2) by (simp add: map_of_eq_None_iff)
  then have "length (AList.update ip d' (st_devices s)) = Suc (length (st_devices s))" using assms(1) by (simp add: stats_inv_def length_update)
  then show ?thesis
    using assms by (auto simp: stats_inv_def balanced_def add_device_def distinct_update dest!: update_values)
qed

lemma known_balanced: "stats_inv s \<Longrightarrow> map_of (st_devices s) ip = Some d \<Longrightarrow> balanced ip d"
  by (auto simp: stats_inv_def balanced_def dest!: map_of_SomeD)

lemma count_balanced: "balanced ip d \<Longrightarrow> balanced ip (count_traffic n up d)"
  by (simp add: balanced_def count_traffic_def Let_def)

lemma new_balanced: "balanced ip (new_device now ip mac)"
  by (simp add: balanced_def new_device_def)

lemma traffic_inv: "stats_inv s \<Longrightarrow> stats_inv (st_RecordTraffic now ip mac n up s)"
  by (auto simp: st_RecordTraffic_def split: option.split
      intro: stats_inv_replace stats_inv_add count_balanced new_balanced known_balanced)

lemma heartbeat_inv: "stats_inv s \<Longrightarrow> stats_inv (UpdateHeartbeat now ip mac s)"
  using known_balanced [of s ip]
  by (auto simp: UpdateHeartbeat_def balanced_def split: option.split intro!: stats_inv_replace stats_inv_add new_balanced)

lemma disconnect_inv: "stats_inv s \<Longrightarrow> stats_inv (SetDisconnected ip s)"
  using known_balanced [of s ip] by (auto simp: SetDisconnected_def balanced_def split: option.split intro!: stats_inv_replace)

lemma index_inv [simp]: "stats_inv (s\<lparr>st_macIndex := m\<rparr>) = stats_inv s"
  by (simp add: stats_inv_def)

lemma by_mac_inv:
  assumes "stats_inv s" "\<And>ip d. balanced ip d \<Longrightarrow> balanced ip (f d)"
  shows "stats_inv (forEachDeviceByMAC mac f s)"
  using assms(1)
  by (auto simp: forEachDeviceByMAC_def getDeviceByMAC_def split: option.split intro: stats_inv_replace assms(2) known_balanced)

lemma cleanup_inv:
  assumes "stats_inv s"
  shows "stats_inv (snd (CleanupInactive now s))"
proof (cases "st_inactivityTimeout s = 0")
  case True
  then show ?thesis using assms by (simp add: CleanupInactive_def)
next
  case False
  define old where "old = (\<lambda>(ip :: string, d :: device_stats). dv_LastSeen d < now - st_inactivityTimeout s)"
  have k: "(\<lambda>(ip, d). \<not> dv_LastSeen d < now - st_inactivityTimeout s) = (\<lambda>x. \<not> old x)" by (auto simp: old_def)
  let ?gone = "filter old (st_devices s)" and ?kept = "filter (\<lambda>x. \<not> old x) (st_devices s)"
  have "length ?gone + length ?kept = length (st_devices s)" by (rule sum_length_filter_compl)
  then have "(of_nat (length (st_devices s)) :: 32 word) = of_nat (length ?gone) + of_nat (length ?kept)" by (metis of_nat_add)
  then have c: "(of_nat (length (st_devices s)) :: 32 word) - of_nat (length ?gone) = of_nat (length ?kept)" by simp
  have "distinct (map fst ?kept)" using assms by (simp add: stats_inv_def distinct_map_filter)
  moreover have "st_devices (snd (CleanupInactive now s)) = ?kept" "st_deviceCount (snd (CleanupInactive now s)) = st_deviceCount s - of_nat (length ?gone)"
    using False unfolding CleanupInactive_def Let_def k by (simp_all add: old_def)
  ultimately show ?thesis using assms c by (auto simp: stats_inv_def)
qed

inductive stats_step :: "stats_store \<Rightarrow> stats_store \<Rightarrow> bool" where
  traffic: "stats_step s (st_RecordTraffic now ip mac n up s)"
| named_traffic: "stats_step s (RecordTrafficWithHostname now ip mac h n up s)"
| heartbeat: "stats_step s (UpdateHeartbeat now ip mac s)"
| disconnect: "stats_step s (SetDisconnected ip s)"
| cleanup: "stats_step s (snd (CleanupInactive now s))"
| reset: "stats_step s (Reset now s)"
| hostname: "stats_step s (st_SetHostname mac h s)"
| custom: "stats_step s (SetCustomName mac h s)"
| limit: "stats_step s (SetRateLimit mac u d s)"
| lookup: "stats_step s (snd (getDeviceByMAC mac s))"
| arp_update: "stats_step s (UpdateArpCache now now2 a mac h s)"
| arp_lookup: "stats_step s (snd (GetFromArpCache now a s))"

lemma arp_inv [simp]:
  "stats_inv (arp_put now k v s) = stats_inv s" "stats_inv (cleanupArpCache now s) = stats_inv s" "stats_inv (snd (arp_get now k s)) = stats_inv s"
  by (auto simp: arp_put_def cleanupArpCache_def arp_get_def stats_inv_def Let_def split: option.split)

lemma stats_step_inv: "stats_step s s' \<Longrightarrow> stats_inv s \<Longrightarrow> stats_inv s'"
proof (induction rule: stats_step.induct)
  case (named_traffic s now ip mac h n up)
  then show ?case
    by (auto simp: RecordTrafficWithHostname_def st_SetHostname_def balanced_def intro!: traffic_inv by_mac_inv)
next
  case (reset s now)
  then show ?case by (simp add: Reset_def stats_inv_def)
next
  case (lookup s mac)
  then show ?case by (auto simp: getDeviceByMAC_def split: option.split)
next
  case (arp_update s now now2 a mac h)
  then show ?case by (auto simp: UpdateArpCache_def Let_def split: option.split)
next
  case (arp_lookup s now a)
  then show ?case by (auto simp: GetFromArpCache_def split: option.split)
qed (auto simp: st_SetHostname_def SetCustomName_def SetRateLimit_def balanced_def
     intro!: traffic_inv heartbeat_inv disconnect_inv cleanup_inv by_mac_inv)

lemma new_store_inv: "stats_inv (NewStoreWithCleanup now t)"
  by (simp add: NewStoreWithCleanup_def stats_inv_def)

interpretation statsys: invariant_system "\<lambda>s. \<exists>now t. s = NewStoreWithCleanup now t" stats_step stats_inv
  by unfold_locales (auto simp: new_store_inv intro: stats_step_inv)

subsection \<open>Totals\<close>

lemma traffic_measure:
  fixes f :: "device_stats \<Rightarrow> 64 word"
  assumes "stats_inv s" and "\<And>d. f (count_traffic n up d) = f d + x" and "\<And>t a m. f (new_device t a m) = 0"
  shows "sum_list (map (f \<circ> snd) (st_devices (st_RecordTraffic now ip mac n up s))) = sum_list (map (f \<circ> snd) (st_devices s)) + x"
proof (cases "map_of (st_devices s) ip")
  case None
  then show ?thesis
    using assms(1) by (simp add: st_RecordTraffic_def add_device_def sum_update stats_inv_def assms(2,3) del: comp_apply)
next
  case (Some d)
  then show ?thesis using assms(1) by (simp add: st_RecordTraffic_def sum_update stats_inv_def assms(2) del: comp_apply)
qed

lemma traffic_totals:
  assumes "stats_inv s" and "GetTotalTraffic s = (t, u, d, p)"
  shows "GetTotalTraffic (st_RecordTraffic now ip mac n up s) =
    (t + n, if up then u + n else u, if up then d else d + n, p + 1)"
  using assms(2)
    traffic_measure [OF assms(1), of dv_totalBytes n up n now ip mac]
    traffic_measure [OF assms(1), of dv_uploadBytes n up "if up then n else 0" now ip mac]
    traffic_measure [OF assms(1), of dv_downloadBytes n up "if up then 0 else n" now ip mac]
    traffic_measure [OF assms(1), of dv_packets n up 1 now ip mac]
  by (auto simp: GetTotalTraffic_def Let_def count_traffic_def new_device_def)

type_synonym traffic = "instant \<times> string \<times> string \<times> 64 word \<times> bool"

definition record_all :: "traffic list \<Rightarrow> stats_store \<Rightarrow> stats_store" where
  "record_all rs s = fold (\<lambda>(now, ip, mac, n, up). st_RecordTraffic now ip mac n up) rs s"

definition bytes_of :: "(bool \<Rightarrow> bool) \<Rightarrow> traffic list \<Rightarrow> 64 word" where
  "bytes_of P rs = sum_list (map (\<lambda>(now, ip, mac, n, up). if P up then n else 0) rs)"

lemma record_all_totals:
  assumes "stats_inv s" and "GetTotalTraffic s = (t, u, d, p)"
  shows "GetTotalTraffic (record_all rs s) =
    (t + bytes_of (\<lambda>_. True) rs, u + bytes_of id rs, d + bytes_of Not rs, p + of_nat (length rs))"
  using assms
proof (induction rs arbitrary: s t u d p)
  case (Cons r rs)
  obtain now ip mac n up where r: "r = (now, ip, mac, n, up)" by (metis prod_cases5)
  let ?s = "st_RecordTraffic now ip mac n up s"
  have "record_all (r # rs) s = record_all rs ?s" by (simp add: record_all_def r)
  then show ?case
    using Cons.IH [OF traffic_inv [OF Cons.prems(1), of now ip mac n up] traffic_totals [OF Cons.prems, of now ip mac n up]]
    by (simp add: bytes_of_def r)
qed (simp add: record_all_def bytes_of_def)

lemma consistent_totals:
  assumes "stats_inv s" and "GetTotalTraffic s = (t, u, d, p)"
  shows "t = u + d"
proof -
  have "\<forall>x \<in> set ds. dv_totalBytes (snd x) = dv_uploadBytes (snd x) + dv_downloadBytes (snd x) \<Longrightarrow>
    sum_list (map (dv_totalBytes \<circ> snd) ds) = sum_list (map (dv_uploadBytes \<circ> snd) ds) + sum_list (map (dv_downloadBytes \<circ> snd) ds)"
    for ds :: "(string \<times> device_stats) list"
    by (induction ds) (auto simp: algebra_simps)
  moreover have "\<forall>x \<in> set (st_devices s). dv_totalBytes (snd x) = dv_uploadBytes (snd x) + dv_downloadBytes (snd x)"
    using assms(1) by (auto simp: stats_inv_def)
  ultimately show ?thesis using assms(2) by (simp add: GetTotalTraffic_def Let_def del: comp_apply) blast
qed

lemma traffic_keeps_seen:
  "map_of (st_devices s) ip = Some d \<Longrightarrow>
     \<exists>d'. map_of (st_devices (st_RecordTraffic now ip mac n up s)) ip = Some d' \<and> dv_LastSeen d' = dv_LastSeen d"
  by (auto simp: st_RecordTraffic_def update_conv' count_traffic_def Let_def)

lemma many_keep_seen:
  "map_of (st_devices s) ip = Some d \<Longrightarrow> \<forall>(t, a, m, n, u) \<in> set rs. a = ip \<Longrightarrow>
     \<exists>d'. map_of (st_devices (record_all rs s)) ip = Some d' \<and> dv_LastSeen d' = dv_LastSeen d"
proof (induction rs arbitrary: s d)
  case (Cons r rs)
  obtain now mac n up where r: "r = (now, ip, mac, n, up)" using Cons.prems(2) by (cases r) auto
  obtain d1 where d1: "map_of (st_devices (st_RecordTraffic now ip mac n up s)) ip = Some d1" "dv_LastSeen d1 = dv_LastSeen d"
    using traffic_keeps_seen [OF Cons.prems(1)] by blast
  have "record_all (r # rs) s = record_all rs (st_RecordTraffic now ip mac n up s)" by (simp add: record_all_def r)
  then show ?case using Cons.IH [OF d1(1)] Cons.prems(2) d1(2) by simp
qed (simp add: record_all_def)

lemma record_all_inv: "stats_inv s \<Longrightarrow> stats_inv (record_all rs s)"
  by (induction rs arbitrary: s) (auto simp: record_all_def intro: traffic_inv)

lemma record_all_timeout: "st_inactivityTimeout (record_all rs s) = st_inactivityTimeout s"
proof -
  have "st_inactivityTimeout (st_RecordTraffic now ip mac n up s) = st_inactivityTimeout s" for now ip mac n up s
    by (auto simp: st_RecordTraffic_def add_device_def split: option.split)
  then show ?thesis by (induction rs arbitrary: s) (auto simp: record_all_def)
qed

lemma cleanup_removes:
  assumes "stats_inv s" "map_of (st_devices s) ip = Some d" "st_inactivityTimeout s \<noteq> 0" "dv_LastSeen d < now - st_inactivityTimeout s"
  shows "\<not> HasDevice ip (snd (CleanupInactive now s))"
proof -
  have "d' = d" if "(ip, d') \<in> set (st_devices s)" for d'
    using assms(1,2) that map_of_mem [of "st_devices s" ip d'] by (simp add: stats_inv_def)
  then show ?thesis
    using assms(3,4) by (auto simp: HasDevice_def CleanupInactive_def Let_def map_of_eq_None_iff)
qed

subsection \<open>Updates of the ARP cache in one instant\<close>

lemma fresh_entries_stay:
  assumes "\<forall>(k, e) \<in> set (st_arpCache s). ae_timestamp e = now" and "0 \<le> st_arpCacheTTL s"
  shows "cleanupArpCache now s = s"
proof -
  have "\<not> arp_expired now s k" for k
    using assms by (cases "map_of (st_arpCache s) k") (auto simp: arp_expired_def dest!: map_of_SomeD)
  then show ?thesis by (simp add: cleanupArpCache_def Let_def)
qed

definition arp_fresh :: "instant \<Rightarrow> stats_store \<Rightarrow> bool" where
  "arp_fresh now s \<longleftrightarrow> distinct (map fst (st_arpCache s)) \<and> (\<forall>(k, e) \<in> set (st_arpCache s). ae_timestamp e = now) \<and> 0 \<le> st_arpCacheTTL s"

lemma arp_update_fresh:
  assumes "arp_fresh now s" "mac \<noteq> []"
  shows "UpdateArpCache now now (Some a) mac h s = arp_put now (IP_String a) (HardwareAddr_String mac, h) s"
    and "arp_fresh now (arp_put now (IP_String a) v s)"
proof -
  show f: "arp_fresh now (arp_put now (IP_String a) v s)" for v
    using assms(1) by (auto simp: arp_fresh_def arp_put_def distinct_update dest!: update_values)
  show "UpdateArpCache now now (Some a) mac h s = arp_put now (IP_String a) (HardwareAddr_String mac, h) s"
    using assms(2) fresh_entries_stay [of "arp_put now (IP_String a) (HardwareAddr_String mac, h) s" now] f
    by (auto simp: UpdateArpCache_def Let_def arp_fresh_def)
qed

definition arp_updates :: "instant \<Rightarrow> byte list \<Rightarrow> string \<Rightarrow> ip list \<Rightarrow> stats_store \<Rightarrow> stats_store" where
  "arp_updates now mac h as s = fold (\<lambda>a. UpdateArpCache now now (Some a) mac h) as s"

lemma arp_updates_grow:
  assumes "arp_fresh now s" "mac \<noteq> []"
  shows "fst ` set (st_arpCache (arp_updates now mac h as s)) = fst ` set (st_arpCache s) \<union> IP_String ` set as \<and>
    arp_fresh now (arp_updates now mac h as s) \<and> st_arpCacheSize (arp_updates now mac h as s) = st_arpCacheSize s + of_nat (length as)"
  using assms(1)
proof (induction as arbitrary: s)
  case (Cons a as)
  let ?s = "arp_put now (IP_String a) (HardwareAddr_String mac, h) s"
  have "arp_updates now mac h (a # as) s = arp_updates now mac h as ?s"
    using arp_update_fresh(1) [OF Cons.prems assms(2)] by (simp add: arp_updates_def)
  moreover have "fst ` set (st_arpCache ?s) = insert (IP_String a) (fst ` set (st_arpCache s))"
    "st_arpCacheSize ?s = st_arpCacheSize s + 1" by (simp_all add: arp_put_def keys_update)
  ultimately show ?case using Cons.IH [OF arp_update_fresh(2) [OF Cons.prems assms(2)]] by auto
qed (simp add: arp_updates_def)

subsection \<open>Properties\<close>

text \<open>In every run of the store's operations the totals are consistent: all bytes are uploaded or downloaded bytes, and the number of devices that is
  kept by counting is the number of devices in the store.\<close>

theorem stats_totals_consistent:
  assumes "stats_step\<^sup>*\<^sup>* (NewStoreWithCleanup now timeout) s" and "GetTotalTraffic s = (t, u, d, p)"
    and "length (GetAllDevices s) < 2 ^ 31"
  shows "t = u + d \<and> st_GetDeviceCount s = int (length (GetAllDevices s))"
proof -
  have inv: "stats_inv s" using statsys.run_inv [OF _ assms(1)] by blast
  have "sint (of_nat (length (st_devices s)) :: 32 word) = int (length (st_devices s))"
    using assms(3) by (simp add: GetAllDevices_def signed_of_nat signed_take_bit_int_eq_self)
  then show ?thesis using consistent_totals [OF inv assms(2)] inv by (simp add: st_GetDeviceCount_def GetAllDevices_def stats_inv_def)
qed

definition stats_example :: stats_store where
  "stats_example = record_all [(1, ''10.0.0.1'', ''aa'', 5, True), (2, ''10.0.0.2'', ''bb'', 7, False)] (NewStoreWithCleanup 0 10)"

lemma stats_example_run: "stats_step\<^sup>*\<^sup>* (NewStoreWithCleanup 0 10) stats_example"
proof -
  have "stats_example = st_RecordTraffic 2 ''10.0.0.2'' ''bb'' 7 False (st_RecordTraffic 1 ''10.0.0.1'' ''aa'' 5 True (NewStoreWithCleanup 0 10))"
    by (simp add: stats_example_def record_all_def)
  moreover have "stats_step\<^sup>*\<^sup>* (NewStoreWithCleanup 0 10) (st_RecordTraffic 1 ''10.0.0.1'' ''aa'' 5 True (NewStoreWithCleanup 0 10))"
    by (rule r_into_rtranclp, rule stats_step.traffic)
  then have "stats_step\<^sup>*\<^sup>* (NewStoreWithCleanup 0 10)
      (st_RecordTraffic 2 ''10.0.0.2'' ''bb'' 7 False (st_RecordTraffic 1 ''10.0.0.1'' ''aa'' 5 True (NewStoreWithCleanup 0 10)))"
    by (rule rtranclp.rtrancl_into_rtrancl) (rule stats_step.traffic)
  ultimately show ?thesis by (simp only:)
qed

theorem stats_totals_consistent_witness:
  "(12 :: 64 word) = 5 + 7 \<and> st_GetDeviceCount stats_example = int (length (GetAllDevices stats_example))"
  by (rule stats_totals_consistent [OF stats_example_run, where p = 2])
    (simp_all add: stats_example_def record_all_def GetTotalTraffic_def GetAllDevices_def st_RecordTraffic_def add_device_def
      NewStoreWithCleanup_def count_traffic_def new_device_def Let_def)

text \<open>No traffic is lost or counted twice: after any sequence of records, over any devices, the totals are the sums of the recorded bytes, in each direction,
  and the number of records.\<close>

theorem traffic_conserved:
  "GetTotalTraffic (record_all rs (NewStoreWithCleanup now timeout)) =
    (bytes_of (\<lambda>_. True) rs, bytes_of id rs, bytes_of Not rs, of_nat (length rs))"
proof -
  have "GetTotalTraffic (NewStoreWithCleanup now timeout) = (0, 0, 0, 0)" by (simp add: GetTotalTraffic_def NewStoreWithCleanup_def)
  from record_all_totals [OF new_store_inv this] show ?thesis by simp
qed

text \<open>Rate limits that are set for a known hardware address are the ones that are read for it.\<close>

theorem rate_limit_roundtrip:
  assumes "fst (HasDeviceByMAC mac s)"
  shows "fst (GetRateLimit mac (SetRateLimit mac u d s)) = (u, d)"
  using assms
  by (auto simp: HasDeviceByMAC_def GetRateLimit_def SetRateLimit_def forEachDeviceByMAC_def getDeviceByMAC_def update_conv'
      split: option.splits)

theorem rate_limit_roundtrip_witness:
  "fst (GetRateLimit ''aa'' (SetRateLimit ''aa'' 100 200 stats_example)) = (100, 200)"
  by (rule rate_limit_roundtrip)
    (simp add: stats_example_def record_all_def HasDeviceByMAC_def getDeviceByMAC_def st_RecordTraffic_def add_device_def NewStoreWithCleanup_def)

text \<open>A client that got a new IP address is lost to the lookups by hardware address when its old address is cleaned up: the cleanup removes the index entry that
  points to the new address, and limits and names for the client have no effect.\<close>

theorem moved_client_lost:
  assumes "ip1 \<noteq> ip2" "timeout \<noteq> 0" "t1 < now - timeout" "now - timeout \<le> t2"
    and "s = snd (CleanupInactive now (st_RecordTraffic t2 ip2 mac n2 up2 (st_RecordTraffic t1 ip1 mac n1 up1 (NewStoreWithCleanup t0 timeout))))"
  shows "HasDevice ip2 s \<and> \<not> fst (HasDeviceByMAC mac s) \<and> SetRateLimit mac u d s = s"
  using assms(1-4) unfolding assms(5)
  by (auto simp: HasDevice_def HasDeviceByMAC_def SetRateLimit_def forEachDeviceByMAC_def getDeviceByMAC_def CleanupInactive_def st_RecordTraffic_def
      add_device_def NewStoreWithCleanup_def count_traffic_def new_device_def Let_def)

theorem moved_client_lost_witness:
  "HasDevice ''10.0.0.2'' (snd (CleanupInactive 20 (st_RecordTraffic 15 ''10.0.0.2'' ''aa'' 1 True
      (st_RecordTraffic 1 ''10.0.0.1'' ''aa'' 1 True (NewStoreWithCleanup 0 10))))) \<and>
   \<not> fst (HasDeviceByMAC ''aa'' (snd (CleanupInactive 20 (st_RecordTraffic 15 ''10.0.0.2'' ''aa'' 1 True
      (st_RecordTraffic 1 ''10.0.0.1'' ''aa'' 1 True (NewStoreWithCleanup 0 10)))))) \<and>
   SetRateLimit ''aa'' 5 5 (snd (CleanupInactive 20 (st_RecordTraffic 15 ''10.0.0.2'' ''aa'' 1 True
      (st_RecordTraffic 1 ''10.0.0.1'' ''aa'' 1 True (NewStoreWithCleanup 0 10))))) =
   snd (CleanupInactive 20 (st_RecordTraffic 15 ''10.0.0.2'' ''aa'' 1 True (st_RecordTraffic 1 ''10.0.0.1'' ''aa'' 1 True (NewStoreWithCleanup 0 10))))"
  by (rule moved_client_lost [OF _ _ _ _ refl]) simp_all

text \<open>Traffic does not keep a device in the store: however much traffic follows its first packet, and however recent it is, the device is removed with its
  counters once the timeout has passed since the first packet without a heartbeat.\<close>

theorem busy_device_removed:
  assumes "stats_inv s" "\<not> HasDevice ip s" "st_inactivityTimeout s \<noteq> 0" "t0 < now - st_inactivityTimeout s"
    and "\<forall>(t, a, m, n, up) \<in> set rs. a = ip"
  shows "\<not> HasDevice ip (snd (CleanupInactive now (record_all rs (st_RecordTraffic t0 ip mac n0 up0 s))))"
proof -
  let ?s = "st_RecordTraffic t0 ip mac n0 up0 s"
  have "map_of (st_devices ?s) ip = Some (count_traffic n0 up0 (new_device t0 ip mac))"
    using assms(2) by (simp add: HasDevice_def st_RecordTraffic_def add_device_def update_conv')
  moreover have "dv_LastSeen (count_traffic n0 up0 (new_device t0 ip mac)) = t0" by (simp add: count_traffic_def new_device_def Let_def)
  ultimately obtain d where d: "map_of (st_devices (record_all rs ?s)) ip = Some d" "dv_LastSeen d = t0"
    using many_keep_seen [of ?s ip _ rs] assms(5) by auto
  have "st_inactivityTimeout (record_all rs ?s) = st_inactivityTimeout s"
    using record_all_timeout [of "(t0, ip, mac, n0, up0) # rs" s] by (simp add: record_all_def)
  then show ?thesis using cleanup_removes [OF record_all_inv [OF traffic_inv [OF assms(1)]] d(1)] assms(3,4) d(2) by simp
qed

theorem busy_device_removed_witness:
  "\<not> HasDevice ''10.0.0.1'' (snd (CleanupInactive 20 (record_all [(19, ''10.0.0.1'', ''aa'', 9, True)]
      (st_RecordTraffic 1 ''10.0.0.1'' ''aa'' 5 True (NewStoreWithCleanup 0 10)))))"
  by (rule busy_device_removed) (simp_all add: new_store_inv, simp_all add: NewStoreWithCleanup_def HasDevice_def)

text \<open>The ARP cache answers what was stored last for an address, until its time to live has passed and not longer.\<close>

theorem arp_answer_lives:
  assumes "mac \<noteq> []" "now2 - now \<le> st_arpCacheTTL s"
  shows "fst (GetFromArpCache t (Some a) (UpdateArpCache now now2 (Some a) mac h s)) =
    (if t > now + st_arpCacheTTL s then None else Some (HardwareAddr_String mac, h))"
proof -
  have "arp_store now (IP_String a) (HardwareAddr_String mac, h) s (UpdateArpCache now now2 (Some a) mac h s)"
    using assms by (auto simp: arp_store_def UpdateArpCache_def Let_def)
  from arpcache.lookup_after_store [OF this, of t] show ?thesis by (simp add: GetFromArpCache_def)
qed

theorem arp_answer_lives_witness:
  "fst (GetFromArpCache 100 (Some [10, 0, 0, 1]) (UpdateArpCache 0 0 (Some [10, 0, 0, 1]) [2] ''host'' (NewStore 0))) =
    (if 100 > 0 + st_arpCacheTTL (NewStore 0) then None else Some (HardwareAddr_String [2], ''host''))"
  by (rule arp_answer_lives) (simp_all add: NewStore_def NewStoreWithCleanup_def second_def)

text \<open>The limit of the ARP cache does not limit it: only expired entries are evicted, so that it holds as many entries as there are addresses.  Its size counter counts updates and
  not entries: it grows with every refresh of an address that is present.\<close>

theorem arp_cache_unbounded:
  assumes "mac \<noteq> []" "distinct (map IP_String as)"
  shows "length (st_arpCache (arp_updates now mac h as (NewStore t0))) = length as \<and>
    st_arpCacheSize (arp_updates now mac h (as @ as) (NewStore t0)) = of_nat (2 * length as) \<and>
    length (st_arpCache (arp_updates now mac h (as @ as) (NewStore t0))) = length as"
proof -
  have f: "arp_fresh now (NewStore t0)" "st_arpCacheSize (NewStore t0) = 0" "st_arpCache (NewStore t0) = []"
    by (simp_all add: arp_fresh_def NewStore_def NewStoreWithCleanup_def second_def)
  have len: "length (st_arpCache (arp_updates now mac h bs (NewStore t0))) = length as" if "set bs = set as" for bs
  proof -
    note g = arp_updates_grow [OF f(1) assms(1), of h bs]
    have "length (st_arpCache (arp_updates now mac h bs (NewStore t0))) = card (fst ` set (st_arpCache (arp_updates now mac h bs (NewStore t0))))"
      using g unfolding arp_fresh_def by (metis distinct_card length_map set_map)
    also have "\<dots> = card (set (map IP_String as))" using g f(3) that by simp
    also have "\<dots> = length as" using assms(2) by (metis distinct_card length_map)
    finally show ?thesis .
  qed
  show ?thesis
    using len [of as] len [of "as @ as"] arp_updates_grow [OF f(1) assms(1), of h "as @ as"] f(2) by simp
qed

theorem arp_cache_unbounded_witness:
  "length (st_arpCache (arp_updates 5 [2] [] [[10, 0, 0, 1], [10, 0, 0, 2]] (NewStore 0))) = length [[10, 0, 0, 1 :: byte], [10, 0, 0, 2]] \<and>
    st_arpCacheSize (arp_updates 5 [2] [] ([[10, 0, 0, 1], [10, 0, 0, 2]] @ [[10, 0, 0, 1], [10, 0, 0, 2]]) (NewStore 0)) =
      of_nat (2 * length [[10, 0, 0, 1 :: byte], [10, 0, 0, 2]]) \<and>
    length (st_arpCache (arp_updates 5 [2] [] ([[10, 0, 0, 1], [10, 0, 0, 2]] @ [[10, 0, 0, 1], [10, 0, 0, 2]]) (NewStore 0))) =
      length [[10, 0, 0, 1 :: byte], [10, 0, 0, 2]]"
proof (rule arp_cache_unbounded)
  show "distinct (map IP_String [[10, 0, 0, 1], [10, 0, 0, 2]])" by code_simp
qed simp

end
