(* ===== verification/HealthChecker.thy ===== *)
theory HealthChecker
  imports Prelude GoBytes
begin

text \<open>
  The health checker of \<^verbatim>\<open>health/checker.go\<close> with its metrics (\<^verbatim>\<open>health/metrics.go\<close>): probes with retries, the periodic check, the
  backoff with jitter, and the recovery it triggers.

  What a probe meets on the network is an argument, as is the order in which the results of a check arrive.  Floats are rational numbers, and a random number is an argument.
  A recovery runs in the background: \<open>hk_running\<close> counts the recoveries whose verification is still to come.  \<open>triggerRecovery\<close>, which
  only starts the recovery, is one step.
\<close>

subsection \<open>Probes\<close>

datatype probe_type = ProbeHTTP | ProbeDNS | ProbeDHCP | ProbeInterface | ProbeTCP | ProbeUDP

definition ProbeType_String :: "probe_type \<Rightarrow> string" where
  "ProbeType_String p =
     (case p of ProbeHTTP \<Rightarrow> ''HTTP'' | ProbeDNS \<Rightarrow> ''DNS'' | ProbeDHCP \<Rightarrow> ''DHCP'' | ProbeInterface \<Rightarrow> ''Interface'' | ProbeTCP \<Rightarrow> ''TCP'' | ProbeUDP \<Rightarrow> ''UDP'')"

datatype probe_error = RequestCreation | RequestFailed | HTTPStatus int | DNSResolutionFailed | HealthCheckFailed | ConnectFailed | DialFailed
  | WriteFailed | ReadFailed | ResponseTooShort nat nat | ContextEnded

record probe_result =
  pr_Type :: probe_type
  pr_Success :: bool
  pr_Latency :: duration
  pr_Error :: "probe_error option"
  pr_Timeout :: bool
  pr_Timestamp :: instant
  pr_Retries :: nat

text \<open>\<open>pr_Timeout\<close> is whether the text of the error contains ``timeout''; it depends on the text of errors of the network.\<close>

definition probe_result :: "probe_type \<Rightarrow> instant \<Rightarrow> duration \<Rightarrow> bool \<Rightarrow> probe_error option \<Rightarrow> probe_result" where
  "probe_result ty start latency tmo err =
     \<lparr>pr_Type = ty, pr_Success = (err = None), pr_Latency = latency, pr_Error = err, pr_Timeout = (err \<noteq> None \<and> tmo), pr_Timestamp = start, pr_Retries = 0\<rparr>"

datatype http_outcome = NoRequest | NoResponse | Status int

definition HTTPProbe_err :: "http_outcome \<Rightarrow> probe_error option" where
  "HTTPProbe_err r =
     (case r of
        NoRequest \<Rightarrow> Some RequestCreation
      | NoResponse \<Rightarrow> Some RequestFailed
      | Status c \<Rightarrow> if c < 200 \<or> c \<ge> 400 then Some (HTTPStatus c) else None)"

definition DNSProbe_err :: "bool \<Rightarrow> probe_error option" where
  "DNSProbe_err resolved = (if resolved then None else Some DNSResolutionFailed)"

definition DHCPProbe_err :: "bool \<Rightarrow> probe_error option" where
  "DHCPProbe_err ok = (if ok then None else Some HealthCheckFailed)"

definition TCPProbe_err :: "bool \<Rightarrow> probe_error option" where
  "TCPProbe_err reached = (if reached then None else Some ConnectFailed)"

datatype udp_outcome = UdpNoDial | UdpNoWrite | UdpNoRead | UdpRead nat | UdpSent

text \<open>\<open>expected\<close> is the size of the response that is awaited, zero for none; a read fills a buffer of that size.\<close>

definition UDPProbe_payload :: "byte list \<Rightarrow> byte list" where
  "UDPProbe_payload p = (if length p = 0 then [0] else p)"

definition UDPProbe_err :: "nat \<Rightarrow> udp_outcome \<Rightarrow> probe_error option" where
  "UDPProbe_err expected r =
     (case r of
        UdpNoDial \<Rightarrow> Some DialFailed
      | UdpNoWrite \<Rightarrow> Some WriteFailed
      | UdpNoRead \<Rightarrow> if expected > 0 then Some ReadFailed else None
      | UdpRead n \<Rightarrow> if expected > 0 \<and> min n expected < expected then Some (ResponseTooShort (min n expected) expected) else None
      | UdpSent \<Rightarrow> if expected > 0 then Some ReadFailed else None)"

subsection \<open>Retries\<close>

definition hk_MaxRetries :: nat where "hk_MaxRetries = 2"

text \<open>The delay before a retry: 100 milliseconds, doubled for each attempt before, at most one second; \<open>r\<close> is the random number.\<close>

fun retry_base :: "nat \<Rightarrow> duration \<Rightarrow> duration" where
  "retry_base 0 delay = delay"
| "retry_base (Suc i) delay = (let d = \<lfloor>of_int delay * (2 :: rat)\<rfloor> in if d > second then second else retry_base i d)"

definition retry_delay :: "nat \<Rightarrow> rat \<Rightarrow> duration" where
  "retry_delay attempt r =
     (let delay = retry_base attempt (100 * millisecond)
      in delay + (let j = of_int delay * (1 / 10) * (r * 2 - 1) in if 0 \<le> j then \<lfloor>j\<rfloor> else \<lceil>j\<rceil>))"

text \<open>\<open>left\<close> attempts remain after this one.  \<open>run\<close> is the result of each attempt, \<open>cancelled\<close> whether the context ends during the wait after it, \<open>rnd\<close> the random numbers.
  The delays waited are the second part of the result.\<close>

fun probe_attempts :: "nat \<Rightarrow> nat \<Rightarrow> (nat \<Rightarrow> probe_result) \<Rightarrow> (nat \<Rightarrow> bool) \<Rightarrow> (nat \<Rightarrow> rat) \<Rightarrow> probe_result \<times> duration list" where
  "probe_attempts left attempt run cancelled rnd =
     (let result = (run attempt)\<lparr>pr_Retries := attempt\<rparr>
      in if pr_Success result then (result, [])
         else case left of
                0 \<Rightarrow> (result, [])
              | Suc n \<Rightarrow>
                  let delay = retry_delay attempt (rnd attempt)
                  in if cancelled attempt then (result\<lparr>pr_Error := Some ContextEnded, pr_Timeout := False\<rparr>, [delay])
                     else case probe_attempts n (attempt + 1) run cancelled rnd of (res, ds) \<Rightarrow> (res, delay # ds))"

declare probe_attempts.simps [simp del]

definition runProbeWithRetry :: "(nat \<Rightarrow> probe_result) \<Rightarrow> (nat \<Rightarrow> bool) \<Rightarrow> (nat \<Rightarrow> rat) \<Rightarrow> probe_result \<times> duration list" where
  "runProbeWithRetry = probe_attempts hk_MaxRetries 0"

subsection \<open>Metrics\<close>

record health_metrics =
  hm_probesTotal :: "64 word"
  hm_probesSuccess :: "64 word"
  hm_probesFailed :: "64 word"
  hm_probesTimeout :: "64 word"
  hm_recoveriesTotal :: "64 word"
  hm_recoveriesSuccess :: "64 word"
  hm_recoveriesFailed :: "64 word"
  hm_activeProbes :: int
  hm_healthyCount :: int
  hm_unhealthyCount :: int
  hm_totalLatencyMs :: "64 word"

definition NewHealthMetrics :: health_metrics where
  "NewHealthMetrics = \<lparr>hm_probesTotal = 0, hm_probesSuccess = 0, hm_probesFailed = 0, hm_probesTimeout = 0, hm_recoveriesTotal = 0,
     hm_recoveriesSuccess = 0, hm_recoveriesFailed = 0, hm_activeProbes = 0, hm_healthyCount = 0, hm_unhealthyCount = 0, hm_totalLatencyMs = 0\<rparr>"

definition RecordProbe :: "bool \<Rightarrow> bool \<Rightarrow> 64 word \<Rightarrow> health_metrics \<Rightarrow> health_metrics" where
  "RecordProbe success isTimeout latencyMs m =
     (let m1 = m\<lparr>hm_probesTotal := hm_probesTotal m + 1\<rparr>;
          m2 = (if success then m1\<lparr>hm_probesSuccess := hm_probesSuccess m1 + 1\<rparr> else m1\<lparr>hm_probesFailed := hm_probesFailed m1 + 1\<rparr>);
          m3 = (if isTimeout then m2\<lparr>hm_probesTimeout := hm_probesTimeout m2 + 1\<rparr> else m2)
      in m3\<lparr>hm_totalLatencyMs := hm_totalLatencyMs m3 + latencyMs\<rparr>)"

subsection \<open>The checker\<close>

record health_config =
  hc_RecoveryThreshold :: int
  hc_MinBackoff :: duration
  hc_MaxBackoff :: duration
  hc_Multiplier :: rat
  hc_Jitter :: rat
  hc_Handler :: bool

definition DefaultHealthCheckerConfig :: health_config where
  "DefaultHealthCheckerConfig = \<lparr>hc_RecoveryThreshold = 3, hc_MinBackoff = 5 * second, hc_MaxBackoff = 120 * second,
     hc_Multiplier = 2, hc_Jitter = 1 / 10, hc_Handler = False\<rparr>"

record health_checker =
  hk_config :: health_config
  hk_probes :: "string list"
  hk_consecutiveFailures :: int
  hk_totalChecks :: "64 word"
  hk_totalRecoveries :: "64 word"
  hk_totalProbes :: "64 word"
  hk_successfulProbes :: "64 word"
  hk_failedProbes :: "64 word"
  hk_lastCheckTime :: "instant option"
  hk_lastSuccessTime :: "instant option"
  hk_backoffInterval :: duration
  hk_metrics :: health_metrics
  hk_running :: nat
  hk_completed :: "bool list"

definition NewHealthChecker :: "health_config option \<Rightarrow> health_checker" where
  "NewHealthChecker cfg =
     (let c = (case cfg of Some c \<Rightarrow> c | None \<Rightarrow> DefaultHealthCheckerConfig)
      in \<lparr>hk_config = c, hk_probes = [], hk_consecutiveFailures = 0, hk_totalChecks = 0, hk_totalRecoveries = 0, hk_totalProbes = 0,
          hk_successfulProbes = 0, hk_failedProbes = 0, hk_lastCheckTime = None, hk_lastSuccessTime = None,
          hk_backoffInterval = hc_MinBackoff c, hk_metrics = NewHealthMetrics, hk_running = 0, hk_completed = []\<rparr>)"

definition AddProbe :: "string \<Rightarrow> health_checker \<Rightarrow> health_checker" where
  "AddProbe name hc = hc\<lparr>hk_probes := hk_probes hc @ [name]\<rparr>"

text \<open>The first probe of the name is removed.\<close>

definition RemoveProbe :: "string \<Rightarrow> health_checker \<Rightarrow> health_checker" where
  "RemoveProbe name hc = hc\<lparr>hk_probes := remove1 name (hk_probes hc)\<rparr>"

definition applyBackoff :: "health_checker \<Rightarrow> health_checker" where
  "applyBackoff hc =
     (let nxt = \<lfloor>of_int (hk_backoffInterval hc) * hc_Multiplier (hk_config hc)\<rfloor>
      in hc\<lparr>hk_backoffInterval := if nxt > hc_MaxBackoff (hk_config hc) then hc_MaxBackoff (hk_config hc) else nxt\<rparr>)"

definition resetBackoff :: "health_checker \<Rightarrow> health_checker" where
  "resetBackoff hc = hc\<lparr>hk_backoffInterval := hc_MinBackoff (hk_config hc)\<rparr>"

definition applyJitter :: "rat \<Rightarrow> duration \<Rightarrow> health_checker \<Rightarrow> duration" where
  "applyJitter r base hc =
     (if hc_Jitter (hk_config hc) \<le> 0 then base
      else
        let jitter = (r * 2 - 1) * (of_int base * hc_Jitter (hk_config hc)); result = of_int base + jitter;
            result1 = (if result < of_int (hc_MinBackoff (hk_config hc)) then of_int (hc_MinBackoff (hk_config hc)) else result)
        in \<lfloor>result1\<rfloor>)"

text \<open>The deferred function runs when \<open>triggerRecovery\<close> returns, which is as soon as the recovery has been started.\<close>

definition triggerRecovery :: "health_checker \<Rightarrow> health_checker" where
  "triggerRecovery hc =
     (let limit = i32 (i32 (hc_RecoveryThreshold (hk_config hc)) * 2)
      in if \<not> hc_Handler (hk_config hc) then hc
         else if hk_consecutiveFailures hc > limit then hc
         else
           let hc1 = hc\<lparr>hk_consecutiveFailures := limit, hk_totalRecoveries := hk_totalRecoveries hc + 1, hk_running := hk_running hc + 1\<rparr>
           in if hk_consecutiveFailures hc1 \<ge> limit then hc1\<lparr>hk_consecutiveFailures := 0\<rparr> else hc1)"

definition count_result :: "probe_result \<Rightarrow> health_checker \<Rightarrow> health_checker" where
  "count_result r hc =
     (let hc1 = hc\<lparr>hk_totalProbes := hk_totalProbes hc + 1,
                  hk_metrics := RecordProbe (pr_Success r) (pr_Timeout r) (of_int (pr_Latency r div millisecond)) (hk_metrics hc)\<rparr>
      in if pr_Success r then hc1\<lparr>hk_successfulProbes := hk_successfulProbes hc1 + 1, hk_lastSuccessTime := Some (pr_Timestamp r)\<rparr>
         else hc1\<lparr>hk_failedProbes := hk_failedProbes hc1 + 1\<rparr>)"

text \<open>\<open>results\<close> are the results of the probes, one for each, in the order in which they arrive.\<close>

definition runChecks :: "instant \<Rightarrow> probe_result list \<Rightarrow> health_checker \<Rightarrow> health_checker" where
  "runChecks now results hc =
     (if hk_probes hc = [] then hc
      else
        let hc1 = hc\<lparr>hk_totalChecks := hk_totalChecks hc + 1, hk_lastCheckTime := Some now\<rparr>;
            hc2 = fold count_result results hc1
        in if list_ex (\<lambda>r. \<not> pr_Success r) results then
             let failures = i32 (hk_consecutiveFailures hc2 + 1);
                 hc3 = applyBackoff (hc2\<lparr>hk_consecutiveFailures := failures\<rparr>)
             in if failures \<ge> i32 (hc_RecoveryThreshold (hk_config hc3)) then triggerRecovery hc3 else hc3
           else resetBackoff (hc2\<lparr>hk_consecutiveFailures := 0\<rparr>))"

text \<open>The end of a background recovery: the verification and the callback, which is told whether the recovery succeeded.\<close>

definition finish_recovery :: "instant \<Rightarrow> probe_result list \<Rightarrow> health_checker \<Rightarrow> health_checker" where
  "finish_recovery now results hc =
     (let hc1 = runChecks now results hc
      in hc1\<lparr>hk_running := hk_running hc1 - 1, hk_completed := hk_completed hc1 @ [hk_consecutiveFailures hc1 = 0]\<rparr>)"

definition IsHealthy :: "health_checker \<Rightarrow> bool" where
  "IsHealthy hc \<longleftrightarrow> hk_consecutiveFailures hc < i32 (hc_RecoveryThreshold (hk_config hc))"

definition hk_SuccessRate :: "health_checker \<Rightarrow> rat" where
  "hk_SuccessRate hc =
     (if sint (hk_totalProbes hc) > 0 then of_int (sint (hk_successfulProbes hc)) / of_int (sint (hk_totalProbes hc)) * 100 else 0)"

text \<open>The gauges that the export sets from the last check.\<close>

definition ExportPrometheusMetrics :: "health_checker \<Rightarrow> health_metrics" where
  "ExportPrometheusMetrics hc =
     (let n = int (length (hk_probes hc)); m = (hk_metrics hc)\<lparr>hm_activeProbes := i32 n\<rparr>
      in if hk_consecutiveFailures hc = 0 then m\<lparr>hm_healthyCount := i32 n, hm_unhealthyCount := 0\<rparr>
         else m\<lparr>hm_healthyCount := 0, hm_unhealthyCount := i32 n\<rparr>)"

subsection \<open>Frames\<close>

lemma count_results_frame:
  "hk_config (fold count_result rs hc) = hk_config hc" "hk_probes (fold count_result rs hc) = hk_probes hc"
  "hk_consecutiveFailures (fold count_result rs hc) = hk_consecutiveFailures hc" "hk_backoffInterval (fold count_result rs hc) = hk_backoffInterval hc"
  "hk_totalRecoveries (fold count_result rs hc) = hk_totalRecoveries hc" "hk_running (fold count_result rs hc) = hk_running hc"
proof -
  have "hk_config (count_result r hc) = hk_config hc \<and> hk_probes (count_result r hc) = hk_probes hc \<and>
    hk_consecutiveFailures (count_result r hc) = hk_consecutiveFailures hc \<and> hk_backoffInterval (count_result r hc) = hk_backoffInterval hc \<and>
    hk_totalRecoveries (count_result r hc) = hk_totalRecoveries hc \<and> hk_running (count_result r hc) = hk_running hc" for r hc
    by (simp add: count_result_def Let_def)
  then show "hk_config (fold count_result rs hc) = hk_config hc" "hk_probes (fold count_result rs hc) = hk_probes hc"
    "hk_consecutiveFailures (fold count_result rs hc) = hk_consecutiveFailures hc" "hk_backoffInterval (fold count_result rs hc) = hk_backoffInterval hc"
    "hk_totalRecoveries (fold count_result rs hc) = hk_totalRecoveries hc" "hk_running (fold count_result rs hc) = hk_running hc"
    by (induction rs arbitrary: hc; simp)+
qed

lemma backoff_frame [simp]:
  "hk_config (applyBackoff hc) = hk_config hc" "hk_probes (applyBackoff hc) = hk_probes hc"
  "hk_consecutiveFailures (applyBackoff hc) = hk_consecutiveFailures hc" "hk_totalRecoveries (applyBackoff hc) = hk_totalRecoveries hc"
  "hk_running (applyBackoff hc) = hk_running hc"
  by (simp_all add: applyBackoff_def Let_def)

lemma trigger_frame [simp]:
  "hk_config (triggerRecovery hc) = hk_config hc" "hk_probes (triggerRecovery hc) = hk_probes hc"
  "hk_backoffInterval (triggerRecovery hc) = hk_backoffInterval hc"
  by (simp_all add: triggerRecovery_def Let_def)

lemma check_frame [simp]: "hk_config (runChecks now rs hc) = hk_config hc" "hk_probes (runChecks now rs hc) = hk_probes hc"
  by (simp_all add: runChecks_def Let_def count_results_frame resetBackoff_def)

subsection \<open>Recoveries\<close>

definition failing :: "probe_result list \<Rightarrow> bool" where
  "failing rs \<longleftrightarrow> list_ex (\<lambda>r. \<not> pr_Success r) rs"

definition threshold_ok :: "health_checker \<Rightarrow> bool" where
  "threshold_ok hc \<longleftrightarrow> hc_Handler (hk_config hc) \<and> 0 < hc_RecoveryThreshold (hk_config hc) \<and> hc_RecoveryThreshold (hk_config hc) < 2 ^ 30 \<and> hk_probes hc \<noteq> []"

lemma failed_check_step:
  fixes hc :: health_checker
  defines "n \<equiv> hc_RecoveryThreshold (hk_config hc)"
  assumes "threshold_ok hc" "failing rs" "0 \<le> hk_consecutiveFailures hc" "hk_consecutiveFailures hc < n"
  shows "hk_consecutiveFailures (runChecks now rs hc) = (if hk_consecutiveFailures hc + 1 = n then 0 else hk_consecutiveFailures hc + 1)"
    and "hk_totalRecoveries (runChecks now rs hc) = hk_totalRecoveries hc + (if hk_consecutiveFailures hc + 1 = n then 1 else 0)"
    and "hk_running (runChecks now rs hc) = hk_running hc + (if hk_consecutiveFailures hc + 1 = n then 1 else 0)"
proof -
  let ?c = "hk_consecutiveFailures hc"
  have b: "0 < n" "n < 2 ^ 30" "hc_Handler (hk_config hc)" "hk_probes hc \<noteq> []" using assms(2) by (auto simp: threshold_ok_def n_def)
  have i: "i32 n = n" "i32 (n * 2) = n * 2" "i32 (?c + 1) = ?c + 1" using b assms(4,5) by simp_all
  have t: "?c + 1 \<ge> n \<longleftrightarrow> ?c + 1 = n" using assms(5) by linarith
  note d = runChecks_def failing_def [symmetric] Let_def count_results_frame triggerRecovery_def n_def [symmetric] i t
  show "hk_consecutiveFailures (runChecks now rs hc) = (if ?c + 1 = n then 0 else ?c + 1)" using b assms(3) by (auto simp: d)
  show "hk_totalRecoveries (runChecks now rs hc) = hk_totalRecoveries hc + (if ?c + 1 = n then 1 else 0)" using b assms(3) by (auto simp: d)
  show "hk_running (runChecks now rs hc) = hk_running hc + (if ?c + 1 = n then 1 else 0)" using b assms(3) by (auto simp: d)
qed

definition run_checks :: "(instant \<times> probe_result list) list \<Rightarrow> health_checker \<Rightarrow> health_checker" where
  "run_checks xs hc = fold (\<lambda>(now, rs). runChecks now rs) xs hc"

lemma run_checks_frame: "hk_config (run_checks xs hc) = hk_config hc" "hk_probes (run_checks xs hc) = hk_probes hc"
  by (induction xs arbitrary: hc) (auto simp: run_checks_def)

lemma run_checks_snoc: "run_checks (xs @ [(now, rs)]) hc = runChecks now rs (run_checks xs hc)"
  by (simp add: run_checks_def)

lemma Suc_div_mod: "0 < m \<Longrightarrow> Suc k mod m = (if k mod m + 1 = m then 0 else k mod m + 1) \<and> Suc k div m = k div m + (if k mod m + 1 = m then 1 else 0)"
  by (simp add: mod_Suc div_Suc)

lemma failing_run:
  assumes "threshold_ok hc" "hc_RecoveryThreshold (hk_config hc) = int m" "hk_consecutiveFailures hc = 0" "\<forall>(now, rs) \<in> set xs. failing rs"
  shows "hk_consecutiveFailures (run_checks xs hc) = int (length xs mod m) \<and>
    hk_totalRecoveries (run_checks xs hc) = hk_totalRecoveries hc + of_nat (length xs div m) \<and>
    hk_running (run_checks xs hc) = hk_running hc + length xs div m"
  using assms(4)
proof (induction xs rule: rev_induct)
  case Nil
  then show ?case using assms(3) by (simp add: run_checks_def)
next
  case (snoc x xs)
  obtain now rs where x: "x = (now, rs)" by fastforce
  let ?h = "run_checks xs hc"
  have m: "0 < m" using assms(1,2) by (simp add: threshold_ok_def)
  have h: "threshold_ok ?h" "hc_RecoveryThreshold (hk_config ?h) = int m"
    using assms(1,2) by (simp_all add: threshold_ok_def run_checks_frame)
  have f: "failing rs" using snoc.prems x by simp
  have IH: "hk_consecutiveFailures ?h = int (length xs mod m)"
    "hk_totalRecoveries ?h = hk_totalRecoveries hc + of_nat (length xs div m)" "hk_running ?h = hk_running hc + length xs div m"
    using snoc by auto
  have c: "0 \<le> hk_consecutiveFailures ?h" "hk_consecutiveFailures ?h < hc_RecoveryThreshold (hk_config ?h)" using m by (simp_all add: IH(1) h(2))
  note s = failed_check_step [OF h(1) f c, of now, unfolded h(2) IH]
  have e: "int (length xs mod m) + 1 = int m \<longleftrightarrow> length xs mod m + 1 = m" by linarith
  show ?case
    unfolding x run_checks_snoc s length_append_singleton e using Suc_div_mod [OF m, of "length xs"] by auto
qed

subsection \<open>The backoff\<close>

definition backoff_ok :: "health_config \<Rightarrow> bool" where
  "backoff_ok c \<longleftrightarrow> 0 \<le> hc_MinBackoff c \<and> hc_MinBackoff c \<le> hc_MaxBackoff c \<and> 1 \<le> hc_Multiplier c"

definition hk_inv :: "health_checker \<Rightarrow> bool" where
  "hk_inv hc \<longleftrightarrow> backoff_ok (hk_config hc) \<and> hc_MinBackoff (hk_config hc) \<le> hk_backoffInterval hc \<and> hk_backoffInterval hc \<le> hc_MaxBackoff (hk_config hc) \<and>
     hk_totalProbes hc = hk_successfulProbes hc + hk_failedProbes hc \<and> hm_probesTotal (hk_metrics hc) = hk_totalProbes hc \<and>
     hm_probesSuccess (hk_metrics hc) = hk_successfulProbes hc \<and> hm_probesFailed (hk_metrics hc) = hk_failedProbes hc"

lemma floor_grows:
  fixes x :: rat
  assumes "0 \<le> b" "1 \<le> x"
  shows "b \<le> \<lfloor>of_int b * x\<rfloor>"
proof -
  have "of_int b * 1 \<le> of_int b * x" using assms by (intro mult_left_mono) simp_all
  then show ?thesis by (simp add: le_floor_iff)
qed

lemma count_inv: "hk_inv hc \<Longrightarrow> hk_inv (count_result r hc)"
  by (auto simp: hk_inv_def count_result_def RecordProbe_def Let_def)

lemma counts_inv: "hk_inv hc \<Longrightarrow> hk_inv (fold count_result rs hc)"
  by (induction rs arbitrary: hc) (auto intro: count_inv)

lemma inv_frames [simp]:
  "hk_inv (hc\<lparr>hk_consecutiveFailures := c\<rparr>) = hk_inv hc" "hk_inv (hc\<lparr>hk_running := n\<rparr>) = hk_inv hc" "hk_inv (hc\<lparr>hk_completed := l\<rparr>) = hk_inv hc"
  "hk_inv (hc\<lparr>hk_totalRecoveries := k\<rparr>) = hk_inv hc" "hk_inv (hc\<lparr>hk_probes := ps\<rparr>) = hk_inv hc" "hk_inv (hc\<lparr>hk_totalChecks := tc\<rparr>) = hk_inv hc"
  "hk_inv (hc\<lparr>hk_lastCheckTime := t\<rparr>) = hk_inv hc"
  by (simp_all add: hk_inv_def)

lemma backoff_inv: "hk_inv hc \<Longrightarrow> hk_inv (applyBackoff hc)"
  using floor_grows [of "hk_backoffInterval hc" "hc_Multiplier (hk_config hc)"]
  by (auto simp: hk_inv_def applyBackoff_def Let_def backoff_ok_def)

lemma trigger_inv: "hk_inv hc \<Longrightarrow> hk_inv (triggerRecovery hc)"
  by (simp add: triggerRecovery_def Let_def)

lemma check_inv: "hk_inv hc \<Longrightarrow> hk_inv (runChecks now rs hc)"
proof -
  assume "hk_inv hc"
  then have i: "hk_inv (fold count_result rs (hc\<lparr>hk_totalChecks := hk_totalChecks hc + 1, hk_lastCheckTime := Some now\<rparr>))"
    by (intro counts_inv) simp
  then have "hk_inv (resetBackoff (fold count_result rs (hc\<lparr>hk_totalChecks := hk_totalChecks hc + 1, hk_lastCheckTime := Some now\<rparr>)\<lparr>hk_consecutiveFailures := 0\<rparr>))"
    by (auto simp: resetBackoff_def hk_inv_def backoff_ok_def)
  then show ?thesis using i \<open>hk_inv hc\<close> by (auto simp: runChecks_def Let_def intro!: trigger_inv backoff_inv)
qed

inductive health_step :: "health_checker \<Rightarrow> health_checker \<Rightarrow> bool" where
  add: "health_step hc (AddProbe name hc)"
| remove: "health_step hc (RemoveProbe name hc)"
| check: "health_step hc (runChecks now rs hc)"
| finish: "0 < hk_running hc \<Longrightarrow> health_step hc (finish_recovery now rs hc)"

lemma health_step_inv: "health_step hc hc' \<Longrightarrow> hk_inv hc \<Longrightarrow> hk_inv hc'"
  by (induction rule: health_step.induct) (auto simp: AddProbe_def RemoveProbe_def finish_recovery_def Let_def check_inv)

definition new_checker :: "health_checker \<Rightarrow> bool" where
  "new_checker hc \<longleftrightarrow> (\<exists>c. hc = NewHealthChecker (Some c) \<and> backoff_ok c)"

lemma new_checker_inv: "new_checker hc \<Longrightarrow> hk_inv hc"
  by (auto simp: new_checker_def NewHealthChecker_def hk_inv_def backoff_ok_def NewHealthMetrics_def)

interpretation healthsys: invariant_system new_checker health_step hk_inv
  by unfold_locales (auto intro: new_checker_inv health_step_inv)

subsection \<open>Delays\<close>

lemma retry_bases: "retry_base 0 (100 * millisecond) = 100 * millisecond" "retry_base 1 (100 * millisecond) = 200 * millisecond"
  by (simp_all add: millisecond_def second_def Let_def)

lemma jitter_range:
  fixes r b :: rat
  assumes "0 \<le> r" "r \<le> 1" "0 \<le> b"
  shows "- b \<le> (r * 2 - 1) * b" "(r * 2 - 1) * b \<le> b"
proof -
  have "0 \<le> r * b" "0 \<le> (1 - r) * b" using assms by simp_all
  then have p: "0 \<le> r * b" "r * b \<le> b" by (simp_all add: algebra_simps)
  have "(r * 2 - 1) * b = 2 * (r * b) - b" by (simp add: algebra_simps)
  then show "- b \<le> (r * 2 - 1) * b" "(r * 2 - 1) * b \<le> b" using p by linarith+
qed

lemma jittered:
  assumes "0 \<le> r" "r \<le> 1" "retry_base a (100 * millisecond) = 10 * d" "0 \<le> d"
  shows "9 * d \<le> retry_delay a r \<and> retry_delay a r \<le> 11 * d"
proof -
  define j where "j = (of_int (10 * d) :: rat) * (1 / 10) * (r * 2 - 1)"
  have e: "j = (r * 2 - 1) * of_int d" by (simp add: j_def)
  have "- of_int d \<le> j" "j \<le> of_int d" using jitter_range [OF assms(1,2), of "of_int d"] assms(4) by (simp_all add: e)
  then have "- d \<le> \<lfloor>j\<rfloor>" "\<lfloor>j\<rfloor> \<le> d" "- d \<le> \<lceil>j\<rceil>" "\<lceil>j\<rceil> \<le> d"
    by (simp_all add: le_floor_iff ceiling_le_iff floor_le_iff le_ceiling_iff)
  then show ?thesis unfolding retry_delay_def Let_def assms(3) j_def [symmetric] by (auto simp: e)
qed

subsection \<open>Properties\<close>

text \<open>While every check fails, a recovery is started at every multiple of the threshold: after \<open>k\<close> failed checks there have been \<open>k div threshold\<close> recoveries
  and the counter of consecutive failures is the remainder.  The marker against a second recovery has no effect, since it is cleared when the first has been
  started: with twice as many failures as the threshold during a recovery, two recoveries run at the same time.\<close>

theorem recoveries_while_failing:
  assumes "threshold_ok hc" "hc_RecoveryThreshold (hk_config hc) = int m" "hk_consecutiveFailures hc = 0" "\<forall>(now, rs) \<in> set xs. failing rs"
  shows "hk_totalRecoveries (run_checks xs hc) = hk_totalRecoveries hc + of_nat (length xs div m) \<and>
    hk_running (run_checks xs hc) = hk_running hc + length xs div m \<and>
    hk_consecutiveFailures (run_checks xs hc) = int (length xs mod m)"
  using failing_run [OF assms] by simp

definition health_example :: health_checker where
  "health_example = AddProbe ''dns'' (NewHealthChecker (Some (DefaultHealthCheckerConfig\<lparr>hc_Handler := True\<rparr>)))"

definition failed_result :: probe_result where
  "failed_result = probe_result ProbeDNS 0 0 False (DNSProbe_err False)"

lemma health_example_parts:
  "threshold_ok health_example" "hc_RecoveryThreshold (hk_config health_example) = int 3" "hk_consecutiveFailures health_example = 0"
  "hk_totalRecoveries health_example = 0" "hk_running health_example = 0" "failing [failed_result]"
  by (simp_all add: threshold_ok_def health_example_def AddProbe_def NewHealthChecker_def DefaultHealthCheckerConfig_def Let_def failing_def failed_result_def
      probe_result_def DNSProbe_err_def)

theorem recoveries_while_failing_witness:
  "hk_totalRecoveries (run_checks (replicate 7 (0, [failed_result])) health_example) = hk_totalRecoveries health_example + of_nat (length (replicate 7 (0 :: int, [failed_result])) div 3) \<and>
    hk_running (run_checks (replicate 7 (0, [failed_result])) health_example) = hk_running health_example + length (replicate 7 (0 :: int, [failed_result])) div 3 \<and>
    hk_consecutiveFailures (run_checks (replicate 7 (0, [failed_result])) health_example) = int (length (replicate 7 (0 :: int, [failed_result])) mod 3)"
  by (rule recoveries_while_failing) (simp_all only: health_example_parts, simp add: health_example_parts)

text \<open>The checker reports that the system is healthy at the moment it starts a recovery: after the check that reaches the threshold the counter is zero, and the
  export counts every probe as healthy, although a probe has failed in each of the last checks.\<close>

theorem healthy_when_recovery_starts:
  assumes "threshold_ok hc" "failing rs" "hk_consecutiveFailures hc + 1 = hc_RecoveryThreshold (hk_config hc)"
  shows "IsHealthy (runChecks now rs hc) \<and> hm_unhealthyCount (ExportPrometheusMetrics (runChecks now rs hc)) = 0 \<and>
    hk_running (runChecks now rs hc) = hk_running hc + 1"
proof -
  have c: "0 \<le> hk_consecutiveFailures hc" "hk_consecutiveFailures hc < hc_RecoveryThreshold (hk_config hc)"
    using assms(1,3) by (auto simp: threshold_ok_def)
  have "hk_consecutiveFailures (runChecks now rs hc) = 0" "hk_running (runChecks now rs hc) = hk_running hc + 1"
    using failed_check_step(1,3) [OF assms(1,2) c] assms(3) by simp_all
  moreover have "0 < i32 (hc_RecoveryThreshold (hk_config hc))" using assms(1) by (simp add: threshold_ok_def)
  ultimately show ?thesis by (simp add: IsHealthy_def ExportPrometheusMetrics_def Let_def)
qed

theorem healthy_when_recovery_starts_witness:
  "IsHealthy (runChecks 9 [failed_result] (health_example\<lparr>hk_consecutiveFailures := 2\<rparr>)) \<and>
   hm_unhealthyCount (ExportPrometheusMetrics (runChecks 9 [failed_result] (health_example\<lparr>hk_consecutiveFailures := 2\<rparr>))) = 0 \<and>
   hk_running (runChecks 9 [failed_result] (health_example\<lparr>hk_consecutiveFailures := 2\<rparr>)) = hk_running (health_example\<lparr>hk_consecutiveFailures := 2\<rparr>) + 1"
  by (rule healthy_when_recovery_starts) (use health_example_parts in \<open>auto simp: threshold_ok_def\<close>)

text \<open>In every run the interval between checks stays between its bounds, and the counts of probes agree: every probe is a successful or a failed one, in the
  statistics as in the metrics.\<close>

theorem health_backoff_bounded:
  assumes "backoff_ok cfg" "health_step\<^sup>*\<^sup>* (NewHealthChecker (Some cfg)) hc"
  shows "hc_MinBackoff (hk_config hc) \<le> hk_backoffInterval hc \<and> hk_backoffInterval hc \<le> hc_MaxBackoff (hk_config hc) \<and>
    hk_totalProbes hc = hk_successfulProbes hc + hk_failedProbes hc \<and> hm_probesTotal (hk_metrics hc) = hk_totalProbes hc"
  using healthsys.run_inv [OF _ assms(2)] assms(1) by (auto simp: hk_inv_def new_checker_def)

theorem health_backoff_bounded_witness:
  "hc_MinBackoff (hk_config (AddProbe ''p'' (NewHealthChecker (Some DefaultHealthCheckerConfig)))) \<le> hk_backoffInterval (AddProbe ''p'' (NewHealthChecker (Some DefaultHealthCheckerConfig))) \<and>
   hk_backoffInterval (AddProbe ''p'' (NewHealthChecker (Some DefaultHealthCheckerConfig))) \<le> hc_MaxBackoff (hk_config (AddProbe ''p'' (NewHealthChecker (Some DefaultHealthCheckerConfig)))) \<and>
   hk_totalProbes (AddProbe ''p'' (NewHealthChecker (Some DefaultHealthCheckerConfig))) =
     hk_successfulProbes (AddProbe ''p'' (NewHealthChecker (Some DefaultHealthCheckerConfig))) + hk_failedProbes (AddProbe ''p'' (NewHealthChecker (Some DefaultHealthCheckerConfig))) \<and>
   hm_probesTotal (hk_metrics (AddProbe ''p'' (NewHealthChecker (Some DefaultHealthCheckerConfig)))) = hk_totalProbes (AddProbe ''p'' (NewHealthChecker (Some DefaultHealthCheckerConfig)))"
  by (rule health_backoff_bounded [of DefaultHealthCheckerConfig], simp add: backoff_ok_def DefaultHealthCheckerConfig_def second_def,
      rule r_into_rtranclp, rule health_step.add)

text \<open>The wait before a check is never below the minimum, and above the interval by at most the share of the jitter.\<close>

theorem jitter_bounded:
  assumes "0 \<le> r" "r \<le> 1" "0 \<le> hc_MinBackoff (hk_config hc)" "hc_MinBackoff (hk_config hc) \<le> base"
  shows "hc_MinBackoff (hk_config hc) \<le> applyJitter r base hc \<and>
    of_int (applyJitter r base hc) \<le> of_int base * (1 + max 0 (hc_Jitter (hk_config hc)))"
proof (cases "hc_Jitter (hk_config hc) \<le> 0")
  case True
  then show ?thesis using assms(4) by (simp add: applyJitter_def max_def)
next
  case False
  define m where "m = hc_MinBackoff (hk_config hc)"
  define b where "b = (of_int base :: rat) * hc_Jitter (hk_config hc)"
  have b0: "0 \<le> b" using False assms(3,4) by (simp add: b_def)
  define x where "x = (let y = of_int base + (r * 2 - 1) * b in if y < of_int m then of_int m else y)"
  have a: "applyJitter r base hc = \<lfloor>x\<rfloor>" using False by (simp add: applyJitter_def x_def b_def m_def Let_def)
  have "of_int m \<le> x" by (simp add: x_def Let_def)
  moreover have "of_int m \<le> (of_int base :: rat)" using assms(4) by (simp add: m_def)
  then have "x \<le> of_int base + b" using jitter_range(2) [OF assms(1,2) b0] b0 by (simp add: x_def Let_def)
  then have "of_int \<lfloor>x\<rfloor> \<le> of_int base + b" using of_int_floor_le [of x] by linarith
  ultimately show ?thesis using False by (simp add: a le_floor_iff m_def [symmetric] b_def max_def algebra_simps)
qed

theorem jitter_bounded_witness:
  "hc_MinBackoff (hk_config health_example) \<le> applyJitter 1 (6 * second) health_example \<and>
    of_int (applyJitter 1 (6 * second) health_example) \<le> of_int (6 * second) * (1 + max 0 (hc_Jitter (hk_config health_example)))"
  by (rule jitter_bounded)
    (simp_all add: health_example_def AddProbe_def NewHealthChecker_def DefaultHealthCheckerConfig_def second_def)

text \<open>A probe is tried three times at most and succeeds when one of the tries does; the result is that of the first success or of the third try.  Between the tries
  the checker waits about 100 and 200 milliseconds, 330 together at most.\<close>

theorem probe_retried:
  assumes "\<forall>i. \<not> cancelled i" "\<forall>i. 0 \<le> rnd i \<and> rnd i \<le> 1"
  shows "(let n = (if pr_Success (run 0) then 0 else if pr_Success (run 1) then 1 else 2) in
     fst (runProbeWithRetry run cancelled rnd) = (run n)\<lparr>pr_Retries := n\<rparr> \<and> length (snd (runProbeWithRetry run cancelled rnd)) = n \<and>
     sum_list (snd (runProbeWithRetry run cancelled rnd)) \<le> 330 * millisecond)"
proof -
  have d: "retry_delay 0 (rnd 0) \<le> 110 * millisecond" "retry_delay 1 (rnd 1) \<le> 220 * millisecond"
    using jittered [of "rnd 0" 0 "10 * millisecond"] jittered [of "rnd 1" 1 "20 * millisecond"] assms(2) retry_bases
    by (simp_all add: millisecond_def)
  have m: "0 \<le> millisecond" "110 * millisecond \<le> 330 * millisecond" by (simp_all add: millisecond_def)
  note e = probe_attempts.simps [of 2 0] probe_attempts.simps [of "Suc 0" "Suc 0"] probe_attempts.simps [of 0 "Suc (Suc 0)"]
  show ?thesis
    using assms(1) d m
    by (simp add: runProbeWithRetry_def hk_MaxRetries_def numeral_2_eq_2 e [unfolded numeral_2_eq_2] Let_def)
qed

theorem probe_retried_witness:
  "(let n = (if pr_Success ((\<lambda>i. failed_result\<lparr>pr_Success := (i = 1)\<rparr>) (0 :: nat)) then 0 else if pr_Success ((\<lambda>i. failed_result\<lparr>pr_Success := (i = 1)\<rparr>) (1 :: nat)) then 1 else 2) in
     fst (runProbeWithRetry (\<lambda>i. failed_result\<lparr>pr_Success := (i = 1)\<rparr>) (\<lambda>_. False) (\<lambda>_. 1 / 2)) = ((\<lambda>i. failed_result\<lparr>pr_Success := (i = 1)\<rparr>) n)\<lparr>pr_Retries := n\<rparr> \<and>
     length (snd (runProbeWithRetry (\<lambda>i. failed_result\<lparr>pr_Success := (i = 1)\<rparr>) (\<lambda>_. False) (\<lambda>_. 1 / 2))) = n \<and>
     sum_list (snd (runProbeWithRetry (\<lambda>i. failed_result\<lparr>pr_Success := (i = 1)\<rparr>) (\<lambda>_. False) (\<lambda>_. 1 / 2))) \<le> 330 * millisecond)"
  by (rule probe_retried) simp_all

end
