(* ===== verification/WsTransport.thy ===== *)
theory WsTransport
  imports Socks5
begin

text \<open>
  The connections of the WebSocket transport, \<^verbatim>\<open>transport/ws/websocket.go\<close>: the byte stream over messages, its obfuscated and its padded variant.

  The WebSocket library delivers messages or errors; what it delivers is part of the state of a connection, as is what has been handed to it.  A read where
  nothing more arrives does not return: the result None.
\<close>

unbundle bit_operations_syntax

subsection \<open>Connections\<close>

datatype ws_event = WsMessage int "byte list" | WsFails string

datatype ws_error = WsReadError string | UnexpectedType int | ShortMessage | InvalidDataLength | WsWriteError string

record ws_conn =
  wc_readBuf :: "byte list"
  wc_in :: "ws_event list"
  wc_out :: "byte list list"

definition BinaryMessage :: int where "BinaryMessage = 2"

text \<open>\<open>Read\<close> with a buffer of \<open>n\<close> bytes.\<close>

definition ws_Read :: "nat \<Rightarrow> ws_conn \<Rightarrow> ((ws_error + byte list) \<times> ws_conn) option" where
  "ws_Read n c =
     (if wc_readBuf c \<noteq> [] then Some (Inr (take n (wc_readBuf c)), c\<lparr>wc_readBuf := drop n (wc_readBuf c)\<rparr>)
      else case wc_in c of
             [] \<Rightarrow> None
           | WsFails e # es \<Rightarrow> Some (Inl (WsReadError e), c\<lparr>wc_in := es\<rparr>)
           | WsMessage ty m # es \<Rightarrow>
               if ty \<noteq> BinaryMessage then Some (Inl (UnexpectedType ty), c\<lparr>wc_in := es\<rparr>)
               else Some (Inr (take n m), c\<lparr>wc_in := es, wc_readBuf := if min n (length m) < length m then wc_readBuf c @ drop n m else wc_readBuf c\<rparr>))"

text \<open>\<open>fails\<close> is the error of the library, if there is one.\<close>

definition ws_Write :: "string option \<Rightarrow> byte list \<Rightarrow> ws_conn \<Rightarrow> (ws_error + nat) \<times> ws_conn" where
  "ws_Write err b c = (case err of Some e \<Rightarrow> (Inl (WsWriteError e), c) | None \<Rightarrow> (Inr (length b), c\<lparr>wc_out := wc_out c @ [b]\<rparr>))"

subsection \<open>Obfuscation\<close>

record obfs_conn =
  oc_conn :: ws_conn
  oc_key :: "byte list"
  oc_keyPos :: nat

definition obfs_default_key :: "byte list" where
  "obfs_default_key = ascii_bytes ''go-pcap2socks-ws-obfs-key''"

definition obfs_key :: "byte list \<Rightarrow> byte list" where
  "obfs_key k = (if length k = 0 then obfs_default_key else k)"

fun obfuscate :: "byte list \<Rightarrow> nat \<Rightarrow> byte list \<Rightarrow> byte list \<times> nat" where
  "obfuscate key pos [] = ([], pos)"
| "obfuscate key pos (x # xs) = (case obfuscate key ((pos + 1) mod length key) xs of (ys, p) \<Rightarrow> ((x XOR key ! pos) # ys, p))"

definition obfs_Read :: "nat \<Rightarrow> obfs_conn \<Rightarrow> ((ws_error + byte list) \<times> obfs_conn) option" where
  "obfs_Read n c =
     (case ws_Read n (oc_conn c) of
        None \<Rightarrow> None
      | Some (Inl e, w) \<Rightarrow> Some (Inl e, c\<lparr>oc_conn := w\<rparr>)
      | Some (Inr b, w) \<Rightarrow>
          if length b > 0 then (case obfuscate (oc_key c) (oc_keyPos c) b of (b', p) \<Rightarrow> Some (Inr b', c\<lparr>oc_conn := w, oc_keyPos := p\<rparr>))
          else Some (Inr b, c\<lparr>oc_conn := w\<rparr>))"

definition obfs_Write :: "string option \<Rightarrow> byte list \<Rightarrow> obfs_conn \<Rightarrow> (ws_error + nat) \<times> obfs_conn" where
  "obfs_Write err b c =
     (case obfuscate (oc_key c) (oc_keyPos c) b of
        (b', p) \<Rightarrow> (case ws_Write err b' (oc_conn c) of (r, w) \<Rightarrow> (r, c\<lparr>oc_conn := w, oc_keyPos := p\<rparr>)))"

subsection \<open>Padding\<close>

record padded_conn =
  pc_conn :: ws_conn
  pc_blockSize :: nat

definition pad_blockSize :: "int \<Rightarrow> nat" where
  "pad_blockSize n = (if n \<le> 0 then 64 else nat n)"

definition padding_len :: "nat \<Rightarrow> nat \<Rightarrow> nat" where
  "padding_len blockSize len = (let remainder = (len + 4) mod blockSize in if remainder \<noteq> 0 then blockSize - remainder else 0)"

text \<open>The message is built in a pooled buffer, every byte of which is written; the buffer goes back to the pool.\<close>

definition padded_Write ::
  "nat option \<Rightarrow> string option \<Rightarrow> byte list \<Rightarrow> padded_conn \<Rightarrow> slice list \<Rightarrow> (ws_error + nat) \<times> padded_conn \<times> slice list" where
  "padded_Write pick err b c bufs =
     (let pad = padding_len (pc_blockSize c) (length b);
          totalLen = 4 + length b + pad;
          (pooled, bufs1) = GetUDP pick bufs;
          buf = (if sl_cap pooled < totalLen then new_slice totalLen totalLen else pooled\<lparr>sl_len := totalLen\<rparr>);
          arr = put32 (of_nat (length b)) @ b @ map (\<lambda>i. of_nat (i + 1)) [0..<pad] @ drop totalLen (sl_array buf);
          pooled1 = (if sl_cap pooled < totalLen then pooled else pooled\<lparr>sl_array := arr\<rparr>)
      in case ws_Write err (take totalLen arr) (pc_conn c) of
           (Inl e, w) \<Rightarrow> (Inl e, c\<lparr>pc_conn := w\<rparr>, PutUDP pooled1 bufs1)
         | (Inr n, w) \<Rightarrow> (Inr (length b), c\<lparr>pc_conn := w\<rparr>, PutUDP pooled1 bufs1))"

definition padded_Read :: "nat \<Rightarrow> padded_conn \<Rightarrow> ((ws_error + byte list) \<times> padded_conn) option" where
  "padded_Read n c =
     (case wc_in (pc_conn c) of
        [] \<Rightarrow> None
      | WsFails e # es \<Rightarrow> Some (Inl (WsReadError e), c\<lparr>pc_conn := (pc_conn c)\<lparr>wc_in := es\<rparr>\<rparr>)
      | WsMessage ty m # es \<Rightarrow>
          let c1 = c\<lparr>pc_conn := (pc_conn c)\<lparr>wc_in := es\<rparr>\<rparr>
          in if ty \<noteq> BinaryMessage then Some (Inl (UnexpectedType ty), c1)
             else if length m < 4 then Some (Inl ShortMessage, c1)
             else
               let dataLen = unat (get32 (take 4 m))
               in if dataLen > length m - 4 then Some (Inl InvalidDataLength, c1) else Some (Inr (take n (take dataLen (drop 4 m))), c1))"

subsection \<open>The stream\<close>

fun messages :: "ws_event list \<Rightarrow> byte list" where
  "messages [] = []"
| "messages (WsMessage ty m # es) = (if ty = BinaryMessage then m else []) @ messages es"
| "messages (WsFails e # es) = messages es"

definition pending :: "ws_conn \<Rightarrow> byte list" where
  "pending c = wc_readBuf c @ messages (wc_in c)"

definition bytes_read :: "ws_error + byte list \<Rightarrow> byte list" where
  "bytes_read r = (case r of Inl e \<Rightarrow> [] | Inr b \<Rightarrow> b)"

lemma ws_read_stream: "ws_Read n c = Some (r, c') \<Longrightarrow> bytes_read r @ pending c' = pending c"
  by (auto simp: ws_Read_def pending_def bytes_read_def split: if_splits list.splits ws_event.splits)

fun ws_reads :: "nat list \<Rightarrow> ws_conn \<Rightarrow> byte list \<times> ws_conn" where
  "ws_reads [] c = ([], c)"
| "ws_reads (n # ns) c =
     (case ws_Read n c of None \<Rightarrow> ([], c) | Some (r, c1) \<Rightarrow> (case ws_reads ns c1 of (bs, c2) \<Rightarrow> (bytes_read r @ bs, c2)))"

lemma ws_reads_stream: "ws_reads ns c = (bs, c') \<Longrightarrow> bs @ pending c' = pending c"
proof (induction ns arbitrary: c bs)
  case (Cons n ns)
  show ?case
  proof (cases "ws_Read n c")
    case None
    then show ?thesis using Cons.prems by simp
  next
    case (Some x)
    obtain r c1 where x: "x = (r, c1)" by fastforce
    obtain b2 where "ws_reads ns c1 = (b2, c')" "bs = bytes_read r @ b2" using Cons.prems Some x by (auto split: prod.splits)
    then show ?thesis using Cons.IH ws_read_stream [of n c r c1] Some x by simp
  qed
qed simp

subsection \<open>The key stream\<close>

lemma length_obfuscate: "length (fst (obfuscate key pos xs)) = length xs"
  by (induction key pos xs rule: obfuscate.induct) (auto split: prod.splits)

lemma obfuscate_pos: "pos < length key \<Longrightarrow> snd (obfuscate key pos xs) = (pos + length xs) mod length key"
proof (induction key pos xs rule: obfuscate.induct)
  case (2 key pos x xs)
  have "(pos + 1) mod length key < length key" using 2(2) by (intro mod_less_divisor) linarith
  then have "snd (obfuscate key ((pos + 1) mod length key) xs) = ((pos + 1) mod length key + length xs) mod length key" by (rule 2(1))
  then show ?case by (auto simp: mod_simps split: prod.split)
qed simp

lemma obfuscate_twice: "obfuscate key pos (fst (obfuscate key pos xs)) = (xs, snd (obfuscate key pos xs))"
  by (induction key pos xs rule: obfuscate.induct) (auto simp: xor.assoc split: prod.splits)

lemma obfuscate_append:
  "obfuscate key pos (xs @ ys) =
     (fst (obfuscate key pos xs) @ fst (obfuscate key (snd (obfuscate key pos xs)) ys), snd (obfuscate key (snd (obfuscate key pos xs)) ys))"
  by (induction key pos xs rule: obfuscate.induct) (auto split: prod.splits)

lemma obfuscate_nth: "pos < length key \<Longrightarrow> i < length xs \<Longrightarrow> fst (obfuscate key pos xs) ! i = xs ! i XOR key ! ((pos + i) mod length key)"
proof (induction key pos xs arbitrary: i rule: obfuscate.induct)
  case (2 key pos x xs)
  have "(pos + 1) mod length key < length key" using 2(2) by (intro mod_less_divisor) linarith
  then show ?case using 2 by (cases i) (auto simp: mod_simps split: prod.splits)
qed simp

definition obfs_writes :: "byte list list \<Rightarrow> obfs_conn \<Rightarrow> obfs_conn" where
  "obfs_writes bs c = fold (\<lambda>b c. snd (obfs_Write None b c)) bs c"

fun obfs_reads :: "nat list \<Rightarrow> obfs_conn \<Rightarrow> byte list \<times> obfs_conn" where
  "obfs_reads [] c = ([], c)"
| "obfs_reads (n # ns) c =
     (case obfs_Read n c of None \<Rightarrow> ([], c) | Some (r, c1) \<Rightarrow> (case obfs_reads ns c1 of (bs, c2) \<Rightarrow> (bytes_read r @ bs, c2)))"

lemma obfs_writes_out:
  "concat (wc_out (oc_conn (obfs_writes bs c))) = concat (wc_out (oc_conn c)) @ fst (obfuscate (oc_key c) (oc_keyPos c) (concat bs))"
proof (induction bs arbitrary: c)
  case Nil
  then show ?case by (simp add: obfs_writes_def)
next
  case (Cons b bs)
  let ?c = "snd (obfs_Write None b c)"
  have "obfs_writes (b # bs) c = obfs_writes bs ?c" by (simp add: obfs_writes_def)
  moreover have "concat (wc_out (oc_conn ?c)) = concat (wc_out (oc_conn c)) @ fst (obfuscate (oc_key c) (oc_keyPos c) b)"
    "oc_key ?c = oc_key c" "oc_keyPos ?c = snd (obfuscate (oc_key c) (oc_keyPos c) b)"
    by (auto simp: obfs_Write_def ws_Write_def split: prod.split)
  ultimately show ?case using Cons.IH [of ?c] by (simp add: obfuscate_append)
qed

lemma obfs_reads_stream:
  "obfs_reads ns c = (bs, c') \<Longrightarrow>
     bs @ fst (obfuscate (oc_key c') (oc_keyPos c') (pending (oc_conn c'))) = fst (obfuscate (oc_key c) (oc_keyPos c) (pending (oc_conn c))) \<and>
     oc_key c' = oc_key c"
proof (induction ns arbitrary: c bs)
  case (Cons n ns)
  show ?case
  proof (cases "ws_Read n (oc_conn c)")
    case None
    then show ?thesis using Cons.prems by (simp add: obfs_Read_def)
  next
    case (Some x)
    obtain r w where x: "x = (r, w)" by fastforce
    have p: "bytes_read r @ pending w = pending (oc_conn c)" using ws_read_stream [of n "oc_conn c" r w] Some x by simp
    define c1 where "c1 = c\<lparr>oc_conn := w, oc_keyPos := snd (obfuscate (oc_key c) (oc_keyPos c) (bytes_read r))\<rparr>"
    have "\<exists>r1. obfs_Read n c = Some (r1, c1) \<and> bytes_read r1 = fst (obfuscate (oc_key c) (oc_keyPos c) (bytes_read r))"
      using Some x by (cases r) (auto simp: obfs_Read_def c1_def bytes_read_def split: prod.split)
    then obtain r1 where r1: "obfs_Read n c = Some (r1, c1)" "bytes_read r1 = fst (obfuscate (oc_key c) (oc_keyPos c) (bytes_read r))" by blast
    obtain b2 where b: "obfs_reads ns c1 = (b2, c')" "bs = bytes_read r1 @ b2" using Cons.prems r1(1) by (auto split: prod.splits)
    have "fst (obfuscate (oc_key c) (oc_keyPos c) (pending (oc_conn c))) =
        bytes_read r1 @ fst (obfuscate (oc_key c1) (oc_keyPos c1) (pending (oc_conn c1)))"
      using p r1(2) by (simp add: c1_def obfuscate_append flip: p)
    then show ?thesis using Cons.IH [OF b(1)] b(2) by (auto simp: c1_def)
  qed
qed simp

subsection \<open>Padding\<close>

lemma padded_blocks: "0 < k \<Longrightarrow> (4 + n + padding_len k n) mod k = 0"
proof -
  assume k: "0 < k"
  define r where "r = (n + 4) mod k"
  have "(4 + n + (if r \<noteq> 0 then k - r else 0)) mod k = (r + (if r \<noteq> 0 then k - r else 0)) mod k" by (simp add: r_def mod_simps add.commute)
  also have "\<dots> = 0" using k by (auto simp: r_def)
  finally show ?thesis unfolding padding_len_def Let_def r_def [symmetric] .
qed

definition padded_message :: "nat \<Rightarrow> byte list \<Rightarrow> byte list" where
  "padded_message k b = put32 (of_nat (length b)) @ b @ map (\<lambda>i. of_nat (i + 1)) [0..<padding_len k (length b)]"

lemma padded_Write_sends:
  "wc_out (pc_conn (fst (snd (padded_Write pick None b c bufs)))) = wc_out (pc_conn c) @ [padded_message (pc_blockSize c) b]"
  by (simp add: padded_Write_def ws_Write_def padded_message_def Let_def split: prod.split)

lemma padded_Read_message:
  assumes "length b < 2 ^ 32" "wc_in (pc_conn c) = WsMessage BinaryMessage (padded_message k b) # es"
  shows "padded_Read n c = Some (Inr (take n b), c\<lparr>pc_conn := (pc_conn c)\<lparr>wc_in := es\<rparr>\<rparr>)"
proof -
  have t: "take 4 (padded_message k b) = put32 (of_nat (length b))" "drop 4 (padded_message k b) = b @ map (\<lambda>i. of_nat (i + 1)) [0..<padding_len k (length b)]"
    by (simp_all add: padded_message_def)
  have u: "unat (of_nat (length b) :: 32 word) = length b" using assms(1) by (simp add: unat_of_nat)
  have l: "4 \<le> length (padded_message k b)" "length b \<le> length (padded_message k b) - 4" by (simp_all add: padded_message_def)
  show ?thesis using assms(2) l by (simp add: padded_Read_def Let_def t u)
qed

subsection \<open>Properties\<close>

text \<open>The plain connection is a byte stream: whatever the sizes of the buffers, the bytes that reads return, followed by those still pending, are the bytes of the binary
  messages in order.\<close>

theorem ws_stream_preserved:
  assumes "ws_reads ns c = (bs, c')" and "wc_readBuf c = []"
  shows "bs @ wc_readBuf c' @ messages (wc_in c') = messages (wc_in c)"
  using ws_reads_stream [OF assms(1)] assms(2) by (simp add: pending_def)

theorem ws_stream_preserved_witness:
  "[1, 2, 3] @ [] @ messages [] = messages [WsMessage 2 [1, 2], WsMessage 2 [3]]"
  using ws_stream_preserved [of "[1, 5, 5]" "\<lparr>wc_readBuf = [], wc_in = [WsMessage 2 [1, 2], WsMessage 2 [3]], wc_out = []\<rparr>" "[1, 2, 3]"
      "\<lparr>wc_readBuf = [], wc_in = [], wc_out = []\<rparr>"]
  by (simp add: ws_Read_def BinaryMessage_def bytes_read_def)

text \<open>In one direction obfuscation is transparent: what one side writes in any pieces is what the other side reads in any pieces, when both start with the same key and the same
  position and traffic flows in this direction only.\<close>

theorem obfuscation_transparent:
  assumes "oc_key a = oc_key b" "oc_keyPos a = oc_keyPos b" "wc_out (oc_conn a) = []" "wc_readBuf (oc_conn b) = []"
    and "wc_in (oc_conn b) = map (WsMessage BinaryMessage) (wc_out (oc_conn (obfs_writes bs a)))"
    and "obfs_reads ns b = (rs, b')"
  shows "rs @ fst (obfuscate (oc_key b') (oc_keyPos b') (pending (oc_conn b'))) = concat bs"
proof -
  have "messages (map (WsMessage BinaryMessage) ms) = concat ms" for ms by (induction ms) simp_all
  then have "pending (oc_conn b) = fst (obfuscate (oc_key a) (oc_keyPos a) (concat bs))"
    using obfs_writes_out [of bs a] assms(3-5) by (simp add: pending_def)
  then show ?thesis using obfs_reads_stream [OF assms(6)] assms(1,2) obfuscate_twice [of "oc_key a" "oc_keyPos a" "concat bs"] by auto
qed

definition obfs_side :: "ws_event list \<Rightarrow> obfs_conn" where
  "obfs_side es = \<lparr>oc_conn = \<lparr>wc_readBuf = [], wc_in = es, wc_out = []\<rparr>, oc_key = [7, 9], oc_keyPos = 0\<rparr>"

theorem obfuscation_transparent_witness:
  "fst (obfs_reads [2, 2] (obfs_side (map (WsMessage BinaryMessage) (wc_out (oc_conn (obfs_writes [[1], [2, 3]] (obfs_side []))))))) @
    (let b' = snd (obfs_reads [2, 2] (obfs_side (map (WsMessage BinaryMessage) (wc_out (oc_conn (obfs_writes [[1], [2, 3]] (obfs_side [])))))))
     in fst (obfuscate (oc_key b') (oc_keyPos b') (pending (oc_conn b')))) = concat [[1], [2, 3]]"
  unfolding Let_def
  by (rule obfuscation_transparent [where a = "obfs_side []" and b = "obfs_side (map (WsMessage BinaryMessage) (wc_out (oc_conn (obfs_writes [[1], [2, 3]] (obfs_side [])))))"
        and ns = "[2, 2]"])
    (simp_all add: obfs_side_def)

text \<open>With traffic in both directions it is not: reads and writes of a connection share one key position.  When a message is on its way while the other side writes, each byte of it is
  decoded with the wrong part of the key: the byte comes out right only where the key repeats.\<close>

theorem crossing_messages_garbled:
  assumes "key \<noteq> []" "i < length y"
    and "a = \<lparr>oc_conn = \<lparr>wc_readBuf = [], wc_in = [WsMessage BinaryMessage (fst (obfuscate key 0 y))], wc_out = []\<rparr>, oc_key = key, oc_keyPos = 0\<rparr>"
    and "obfs_Read (length y) (snd (obfs_Write None x a)) = Some (Inr r, a')"
  shows "r ! i = y ! i \<longleftrightarrow> key ! (i mod length key) = key ! ((length x + i) mod length key)"
proof -
  let ?p = "length x mod length key"
  have k: "0 < length key" using assms(1) by simp
  have pos: "snd (obfuscate key 0 x) = ?p" using obfuscate_pos [of 0 key x] k by simp
  have p: "?p < length key" using k by simp
  have "r = fst (obfuscate key ?p (fst (obfuscate key 0 y)))"
  proof -
    let ?m = "fst (obfuscate key 0 y)"
    define c where "c = snd (obfs_Write None x a)"
    have c: "wc_readBuf (oc_conn c) = []" "wc_in (oc_conn c) = [WsMessage BinaryMessage ?m]" "oc_key c = key" "oc_keyPos c = ?p"
      using pos by (auto simp: c_def assms(3) obfs_Write_def ws_Write_def split: prod.split)
    have "length ?m = length y" by (rule length_obfuscate)
    then have "\<exists>w. ws_Read (length y) (oc_conn c) = Some (Inr ?m, w)" "0 < length ?m" using c assms(2) by (auto simp: ws_Read_def)
    then show ?thesis using assms(4) c by (auto simp: obfs_Read_def c_def [symmetric] split: prod.splits)
  qed
  then have "r ! i = fst (obfuscate key 0 y) ! i XOR key ! ((?p + i) mod length key)"
    using obfuscate_nth [OF p, of i "fst (obfuscate key 0 y)"] assms(2) by (simp add: length_obfuscate)
  also have "\<dots> = y ! i XOR key ! (i mod length key) XOR key ! ((length x + i) mod length key)"
    using obfuscate_nth [OF k assms(2)] by (simp add: mod_simps xor.assoc)
  finally have e: "r ! i = y ! i XOR key ! (i mod length key) XOR key ! ((length x + i) mod length key)" .
  have "(u XOR v XOR w = u) \<longleftrightarrow> v = w" for u v w :: byte
    by (auto simp: bit_eq_iff bit_xor_iff)
  then show ?thesis unfolding e by simp
qed

definition crossing_side :: obfs_conn where
  "crossing_side = \<lparr>oc_conn = \<lparr>wc_readBuf = [], wc_in = [WsMessage BinaryMessage (fst (obfuscate [7, 9] 0 [1, 2]))], wc_out = []\<rparr>, oc_key = [7, 9], oc_keyPos = 0\<rparr>"

theorem crossing_messages_garbled_witness:
  "fst (obfuscate [7, 9] 1 (fst (obfuscate [7, 9] 0 [1, 2]))) ! 0 \<noteq> ([1, 2] :: byte list) ! 0"
proof -
  have "obfs_Read (length ([1, 2] :: byte list)) (snd (obfs_Write None [5] crossing_side)) =
      Some (Inr (fst (obfuscate [7, 9] 1 (fst (obfuscate [7, 9] 0 [1, 2])))),
        snd (the (obfs_Read 2 (snd (obfs_Write None [5] crossing_side)))))"
    by (simp add: crossing_side_def obfs_Read_def obfs_Write_def ws_Read_def ws_Write_def BinaryMessage_def eval_nat_numeral)
  from crossing_messages_garbled [OF _ _ crossing_side_def this, of 0] show ?thesis by simp
qed

text \<open>Padding is transparent to a reader with a buffer that is large enough, and hides the length: every message has a multiple of the block size, whatever was in the pooled
  buffer.\<close>

theorem padding_roundtrip:
  assumes "0 < pc_blockSize a" "length b < 2 ^ 32" "length b \<le> n"
    and "wc_in (pc_conn c) = map (WsMessage BinaryMessage) (wc_out (pc_conn (fst (snd (padded_Write pick None b a bufs)))))" "wc_out (pc_conn a) = []"
  shows "\<exists>m c'. wc_out (pc_conn (fst (snd (padded_Write pick None b a bufs)))) = [m] \<and> length m mod pc_blockSize a = 0 \<and> padded_Read n c = Some (Inr b, c')"
proof -
  have "wc_out (pc_conn (fst (snd (padded_Write pick None b a bufs)))) = [padded_message (pc_blockSize a) b]" using assms(5) by (simp add: padded_Write_sends)
  moreover have "length (padded_message (pc_blockSize a) b) = 4 + length b + padding_len (pc_blockSize a) (length b)" by (simp add: padded_message_def)
  then have "length (padded_message (pc_blockSize a) b) mod pc_blockSize a = 0" using padded_blocks [OF assms(1)] by simp
  moreover have "padded_Read n c = Some (Inr (take n b), c\<lparr>pc_conn := (pc_conn c)\<lparr>wc_in := []\<rparr>\<rparr>)"
    by (rule padded_Read_message [OF assms(2)]) (use assms(4) calculation(1) in simp)
  ultimately show ?thesis using assms(3) by simp
qed

definition padded_side :: "ws_event list \<Rightarrow> padded_conn" where
  "padded_side es = \<lparr>pc_conn = \<lparr>wc_readBuf = [], wc_in = es, wc_out = []\<rparr>, pc_blockSize = 16\<rparr>"

theorem padding_roundtrip_witness:
  "\<exists>m c'. wc_out (pc_conn (fst (snd (padded_Write None None [1, 2, 3] (padded_side []) [])))) = [m] \<and> length m mod pc_blockSize (padded_side []) = 0 \<and>
     padded_Read 10 (padded_side (map (WsMessage BinaryMessage) (wc_out (pc_conn (fst (snd (padded_Write None None [1, 2, 3] (padded_side []) []))))))) = Some (Inr [1, 2, 3], c')"
  by (rule padding_roundtrip) (simp_all add: padded_side_def)

text \<open>A reader with a smaller buffer loses data: the part of a message that does not fit is dropped, and the next read continues with the next message.\<close>

theorem padded_read_drops_rest:
  assumes "length b1 < 2 ^ 32" "length b2 < 2 ^ 32" "n < length b1"
    and "wc_in (pc_conn c) = [WsMessage BinaryMessage (padded_message k b1), WsMessage BinaryMessage (padded_message k b2)]"
  shows "\<exists>c1 c2. padded_Read n c = Some (Inr (take n b1), c1) \<and> padded_Read n c1 = Some (Inr (take n b2), c2) \<and> padded_Read n c2 = None"
  by (simp add: padded_Read_message [OF assms(1,4)] padded_Read_message [OF assms(2)]) (simp add: padded_Read_def)

theorem padded_read_drops_rest_witness:
  "\<exists>c1 c2. padded_Read 2 (padded_side [WsMessage BinaryMessage (padded_message 16 [1, 2, 3]), WsMessage BinaryMessage (padded_message 16 [4])]) = Some (Inr (take 2 [1, 2, 3]), c1) \<and>
     padded_Read 2 c1 = Some (Inr (take 2 [4]), c2) \<and> padded_Read 2 c2 = None"
  by (rule padded_read_drops_rest) (simp_all add: padded_side_def)

end
