(* ===== verification/EngineSelect.thy ===== *)
theory EngineSelect
  imports Prelude Complex_Main
begin

text \<open>
  The choice of a packet capture engine, \<^verbatim>\<open>auto/engine_selector.go\<close>, the failover between engines,
  \<^verbatim>\<open>auto/engine_failover.go\<close>, and the sizes the tuner derives from the machine, \<^verbatim>\<open>auto/tuner.go\<close>.

  An engine type is a string in the code and here.  What the operating system answers (the platform, the driver files, the
  interfaces, the memory) and the readings of the clock are arguments; the zero time is None.
\<close>

type_synonym engine_type = string

definition EngineWinDivert :: engine_type where "EngineWinDivert = ''windivert''"
definition EngineNpcap :: engine_type where "EngineNpcap = ''npcap''"
definition EngineNative :: engine_type where "EngineNative = ''native''"
definition EngineAuto :: engine_type where "EngineAuto = ''auto''"

lemmas engine_names = EngineWinDivert_def EngineNpcap_def EngineNative_def EngineAuto_def

subsection \<open>Selection by score\<close>

record engine_score =
  es_Type :: engine_type
  es_Score :: int
  es_Available :: bool
  es_Latency :: duration
  es_Throughput :: int
  es_Stability :: real
  es_Error :: "string option"

definition microsecond :: duration where "microsecond = 1000"

definition no_score :: engine_score where
  "no_score = \<lparr>es_Type = [], es_Score = 0, es_Available = False, es_Latency = 0, es_Throughput = 0, es_Stability = 0, es_Error = None\<rparr>"

text \<open>\<open>here\<close> and \<open>there\<close> say whether the driver file is in the one and in the other place.\<close>

definition evaluateWinDivert :: "bool \<Rightarrow> bool \<Rightarrow> bool \<Rightarrow> bool \<Rightarrow> engine_score" where
  "evaluateWinDivert windows here there admin =
     (let score = no_score\<lparr>es_Type := EngineWinDivert, es_Stability := 0.95\<rparr>
      in if \<not> windows then score
         else
           let score = (if here then score\<lparr>es_Available := True, es_Score := es_Score score + 100\<rparr>
                        else if there then score\<lparr>es_Available := True, es_Score := es_Score score + 100\<rparr>
                        else score)
           in if \<not> es_Available score then score
              else
                let score = (if \<not> admin then score\<lparr>es_Score := es_Score score - 50, es_Stability := 0.5\<rparr> else score);
                    score = score\<lparr>es_Latency := 500 * microsecond, es_Score := es_Score score + 50\<rparr>
                in score\<lparr>es_Throughput := 1000000000, es_Score := es_Score score + 50\<rparr>)"

definition evaluateNpcap :: "bool \<Rightarrow> string + nat \<Rightarrow> engine_score" where
  "evaluateNpcap windows devs =
     (let score = no_score\<lparr>es_Type := EngineNpcap, es_Stability := 0.90\<rparr>
      in if \<not> windows then score
         else case devs of
                Inl err \<Rightarrow> score\<lparr>es_Error := Some err\<rparr>
              | Inr n \<Rightarrow>
                  if n > 0 then
                    let score = score\<lparr>es_Available := True, es_Score := es_Score score + 100\<rparr>;
                        score = score\<lparr>es_Score := es_Score score + int n * 10\<rparr>;
                        score = score\<lparr>es_Latency := 1 * millisecond, es_Score := es_Score score + 40\<rparr>
                    in score\<lparr>es_Throughput := 500000000, es_Score := es_Score score + 40\<rparr>
                  else score)"

definition evaluateNative :: engine_score where
  "evaluateNative =
     (let score = no_score\<lparr>es_Type := EngineNative, es_Available := True, es_Stability := 0.85\<rparr>;
          score = score\<lparr>es_Score := es_Score score + 50\<rparr>;
          score = score\<lparr>es_Latency := 5 * millisecond\<rparr>
      in score\<lparr>es_Throughput := 100000000, es_Score := es_Score score + 20\<rparr>)"

fun best_score :: "engine_score \<Rightarrow> engine_score list \<Rightarrow> engine_score" where
  "best_score best [] = best"
| "best_score best (s # ss) = best_score (if es_Score s > es_Score best then s else best) ss"

definition SelectBestEngine :: "bool \<Rightarrow> bool \<Rightarrow> bool \<Rightarrow> bool \<Rightarrow> string + nat \<Rightarrow> engine_type" where
  "SelectBestEngine windows here there admin devs =
     (let w = evaluateWinDivert windows here there admin; n = evaluateNpcap windows devs; m = evaluateNative;
          scores = (if windows \<and> es_Available w then [w] else []) @ (if windows \<and> es_Available n then [n] else []) @
                   (if es_Available m then [m] else []);
          best = best_score no_score scores
      in if es_Type best = [] then EngineNative else es_Type best)"

subsection \<open>Failover\<close>

record engine_health =
  eh_IsHealthy :: bool
  eh_LastError :: "string option"
  eh_ErrorCount :: int
  eh_SuccessCount :: int
  eh_LastCheck :: "instant option"
  eh_Latency :: duration

record engine_failover =
  ef_currentEngine :: engine_type
  ef_healthChecks :: "engine_type \<rightharpoonup> engine_health"
  ef_switchCount :: int
  ef_lastSwitchTime :: "instant option"
  ef_minSwitchInterval :: duration
  ef_onSwitch :: bool

definition fresh_health :: engine_health where
  "fresh_health = \<lparr>eh_IsHealthy = True, eh_LastError = None, eh_ErrorCount = 0, eh_SuccessCount = 0, eh_LastCheck = None, eh_Latency = 0\<rparr>"

definition NewEngineFailover :: engine_failover where
  "NewEngineFailover =
     \<lparr>ef_currentEngine = EngineAuto,
      ef_healthChecks = [EngineWinDivert \<mapsto> fresh_health, EngineNpcap \<mapsto> fresh_health, EngineNative \<mapsto> fresh_health],
      ef_switchCount = 0, ef_lastSwitchTime = None, ef_minSwitchInterval = 30 * second, ef_onSwitch = False\<rparr>"

definition SetOnSwitch :: "bool \<Rightarrow> engine_failover \<Rightarrow> engine_failover" where
  "SetOnSwitch callback f = f\<lparr>ef_onSwitch := callback\<rparr>"

definition RecordSuccess :: "engine_type \<Rightarrow> duration \<Rightarrow> instant \<Rightarrow> engine_failover \<Rightarrow> engine_failover" where
  "RecordSuccess e latency now f =
     (case ef_healthChecks f e of
        None \<Rightarrow> f
      | Some st \<Rightarrow>
          f\<lparr>ef_healthChecks := (ef_healthChecks f)(e \<mapsto>
              st\<lparr>eh_IsHealthy := True, eh_SuccessCount := eh_SuccessCount st + 1, eh_LastCheck := Some now, eh_Latency := latency,
                 eh_ErrorCount := 0\<rparr>)\<rparr>)"

definition RecordError :: "engine_type \<Rightarrow> string \<Rightarrow> instant \<Rightarrow> engine_failover \<Rightarrow> engine_failover" where
  "RecordError e err now f =
     (case ef_healthChecks f e of
        None \<Rightarrow> f
      | Some st \<Rightarrow>
          let st1 = st\<lparr>eh_ErrorCount := eh_ErrorCount st + 1, eh_LastError := Some err, eh_LastCheck := Some now\<rparr>;
              st2 = (if eh_ErrorCount st1 \<ge> 3 then st1\<lparr>eh_IsHealthy := False\<rparr> else st1)
          in f\<lparr>ef_healthChecks := (ef_healthChecks f)(e \<mapsto> st2)\<rparr>)"

definition IsEngineHealthy :: "engine_type \<Rightarrow> engine_failover \<Rightarrow> bool" where
  "IsEngineHealthy e f = (case ef_healthChecks f e of Some st \<Rightarrow> eh_IsHealthy st | None \<Rightarrow> False)"

fun first_healthy :: "engine_type list \<Rightarrow> engine_failover \<Rightarrow> engine_type" where
  "first_healthy [] f = EngineNative"
| "first_healthy (e # es) f =
     (case ef_healthChecks f e of Some st \<Rightarrow> if eh_IsHealthy st then e else first_healthy es f | None \<Rightarrow> first_healthy es f)"

definition findHealthyEngine :: "engine_failover \<Rightarrow> engine_type" where
  "findHealthyEngine f = first_healthy [EngineWinDivert, EngineNpcap, EngineNative] f"

text \<open>\<open>CheckAndSwitch\<close> returns the engine, the new state, and the calls of the callback.\<close>

definition too_soon :: "instant \<Rightarrow> engine_failover \<Rightarrow> bool" where
  "too_soon now f = (case ef_lastSwitchTime f of None \<Rightarrow> False | Some t \<Rightarrow> now - t < ef_minSwitchInterval f)"

definition CheckAndSwitch :: "instant \<Rightarrow> engine_failover \<Rightarrow> engine_type \<times> engine_failover \<times> (engine_type \<times> engine_type) list" where
  "CheckAndSwitch now f =
     (let cur = ef_currentEngine f
      in if too_soon now f then (cur, f, [])
         else if cur \<noteq> EngineAuto \<and> (case ef_healthChecks f cur of Some st \<Rightarrow> eh_IsHealthy st | None \<Rightarrow> False) then (cur, f, [])
         else
           let new = findHealthyEngine f
           in if new \<noteq> cur \<and> new \<noteq> EngineAuto then
                (new, f\<lparr>ef_currentEngine := new, ef_switchCount := ef_switchCount f + 1, ef_lastSwitchTime := Some now\<rparr>,
                 if ef_onSwitch f then [(cur, new)] else [])
              else (cur, f, []))"

definition ef_Reset :: "engine_failover \<Rightarrow> engine_failover" where
  "ef_Reset f =
     f\<lparr>ef_healthChecks := (\<lambda>e. map_option (\<lambda>st. st\<lparr>eh_IsHealthy := True, eh_ErrorCount := 0, eh_LastError := None\<rparr>) (ef_healthChecks f e))\<rparr>"

subsection \<open>Tuning\<close>

record system_resources =
  sr_CPUCount :: int
  sr_TotalMemory :: int
  sr_AvailableMemory :: int
  sr_NetworkSpeed :: int

record tuning_config =
  tu_TCPBufferSize :: int
  tu_UDPBufferSize :: int
  tu_PacketBufferSize :: int
  tu_MaxConnections :: int
  tu_ConnectionTimeout :: duration
  tu_GCPressure :: string
  tu_MTU :: int

definition GB :: int where "GB = 1024 * 1024 * 1024"

definition estimateNetworkSpeed :: int where "estimateNetworkSpeed = 100"

definition detectSystemResources :: "int \<Rightarrow> int \<Rightarrow> system_resources" where
  "detectSystemResources cpus memory =
     \<lparr>sr_CPUCount = cpus, sr_TotalMemory = memory, sr_AvailableMemory = memory div 2, sr_NetworkSpeed = estimateNetworkSpeed\<rparr>"

definition calculatePacketBuffer :: "system_resources \<Rightarrow> int" where
  "calculatePacketBuffer res =
     (let cpuMultiplier = (if sr_CPUCount res > 8 then 8 else sr_CPUCount res);
          memoryMultiplier = (if sr_AvailableMemory res > 8 * GB then 4 else if sr_AvailableMemory res > 4 * GB then 2 else 1)
      in 256 * cpuMultiplier * memoryMultiplier)"

definition AutoTune :: "system_resources \<Rightarrow> tuning_config" where
  "AutoTune res =
     (let mem = sr_AvailableMemory res; netSpeed = sr_NetworkSpeed res; cpuCount = sr_CPUCount res
      in \<lparr>tu_TCPBufferSize = (if mem > 8 * GB then 65536 else if mem > 4 * GB then 32768 else if mem > 2 * GB then 16384 else 8192),
          tu_UDPBufferSize = (if netSpeed > 1000 then 65536 else if netSpeed > 100 then 32768 else 16384),
          tu_PacketBufferSize = calculatePacketBuffer res,
          tu_MaxConnections = cpuCount * 100,
          tu_ConnectionTimeout = (if cpuCount \<ge> 8 then 120 * second else if cpuCount \<ge> 4 then 90 * second else 60 * second),
          tu_GCPressure = (if mem > 8 * GB then ''low'' else if mem > 4 * GB then ''medium'' else ''high''),
          tu_MTU = 1486\<rparr>)"

definition NewSystemTuner :: "int \<Rightarrow> int \<Rightarrow> system_resources \<times> tuning_config" where
  "NewSystemTuner cpus memory = (let res = detectSystemResources cpus memory in (res, AutoTune res))"

subsection \<open>Facts\<close>

text \<open>The operations of the failover, as steps; the state carries the time, which does not run backwards.\<close>

inductive failover_step :: "engine_failover \<times> instant \<Rightarrow> engine_failover \<times> instant \<Rightarrow> bool" where
  wait: "now \<le> later \<Longrightarrow> failover_step (f, now) (f, later)"
| success: "failover_step (f, now) (RecordSuccess e latency now f, now)"
| failure: "failover_step (f, now) (RecordError e err now f, now)"
| check: "failover_step (f, now) (fst (snd (CheckAndSwitch now f)), now)"
| reset: "failover_step (f, now) (ef_Reset f, now)"
| callback: "failover_step (f, now) (SetOnSwitch cb f, now)"

definition failover_inv :: "instant \<Rightarrow> engine_failover \<times> instant \<Rightarrow> bool" where
  "failover_inv start = (\<lambda>(f, now).
     start \<le> now \<and> ef_minSwitchInterval f = 30 * second \<and>
     dom (ef_healthChecks f) = {EngineWinDivert, EngineNpcap, EngineNative} \<and>
     (\<forall>e st. ef_healthChecks f e = Some st \<longrightarrow> (eh_IsHealthy st \<longleftrightarrow> eh_ErrorCount st < 3)) \<and>
     (case ef_lastSwitchTime f of
        None \<Rightarrow> ef_switchCount f = 0 \<and> ef_currentEngine f = EngineAuto
      | Some t \<Rightarrow> start \<le> t \<and> t \<le> now \<and> (ef_switchCount f - 1) * (30 * second) \<le> t - start \<and>
                  ef_currentEngine f \<in> {EngineWinDivert, EngineNpcap, EngineNative}))"

lemma findHealthyEngine_cases:
  "findHealthyEngine f =
     (if IsEngineHealthy EngineWinDivert f then EngineWinDivert
      else if IsEngineHealthy EngineNpcap f then EngineNpcap else EngineNative)"
  by (auto simp: findHealthyEngine_def IsEngineHealthy_def split: option.splits)

lemma engines_distinct [simp]:
  "EngineWinDivert \<noteq> EngineNpcap" "EngineWinDivert \<noteq> EngineNative" "EngineNpcap \<noteq> EngineNative"
  "EngineAuto \<noteq> EngineWinDivert" "EngineAuto \<noteq> EngineNpcap" "EngineAuto \<noteq> EngineNative"
  by (simp_all add: engine_names)

lemmas engines_distinct' [simp] = engines_distinct [symmetric]

lemma findHealthyEngine_mem: "findHealthyEngine f \<in> {EngineWinDivert, EngineNpcap, EngineNative}"
  by (simp add: findHealthyEngine_cases)

lemma CheckAndSwitch_cases:
  "fst (snd (CheckAndSwitch now f)) = f \<or>
   (\<not> too_soon now f \<and> fst (snd (CheckAndSwitch now f)) =
      f\<lparr>ef_currentEngine := findHealthyEngine f, ef_switchCount := ef_switchCount f + 1, ef_lastSwitchTime := Some now\<rparr>)"
  by (simp add: CheckAndSwitch_def Let_def)

lemma health_upd_inv:
  assumes "failover_inv start (f, now)" and "ef_healthChecks f e = Some st" and "eh_IsHealthy st' \<longleftrightarrow> eh_ErrorCount st' < 3"
  shows "failover_inv start (f\<lparr>ef_healthChecks := (ef_healthChecks f)(e \<mapsto> st')\<rparr>, now)"
  using assms by (auto simp: failover_inv_def split: option.splits)

lemma switch_inv:
  assumes inv: "failover_inv start (f, now)" and ok: "\<not> too_soon now f"
  shows "failover_inv start (f\<lparr>ef_currentEngine := findHealthyEngine f, ef_switchCount := ef_switchCount f + 1, ef_lastSwitchTime := Some now\<rparr>, now)"
proof (cases "ef_lastSwitchTime f")
  case None
  then show ?thesis using inv findHealthyEngine_mem [of f] by (simp add: failover_inv_def)
next
  case (Some t)
  then have "(ef_switchCount f - 1) * (30 * second) \<le> t - start" "30 * second \<le> now - t"
    using inv ok by (simp_all add: failover_inv_def too_soon_def)
  then have "ef_switchCount f * (30 * second) \<le> now - start" by (simp add: algebra_simps)
  then show ?thesis using inv Some findHealthyEngine_mem [of f] by (simp add: failover_inv_def)
qed

lemma failover_step_inv:
  assumes "failover_step s t" and "failover_inv start s"
  shows "failover_inv start t"
  using assms
proof (cases rule: failover_step.cases)
  case (wait now later f)
  then show ?thesis using assms by (auto simp: failover_inv_def split: option.splits)
next
  case (success f now e latency)
  then show ?thesis using assms health_upd_inv [of start f now e]
    by (auto simp: RecordSuccess_def split: option.splits)
next
  case (failure f now e err)
  then show ?thesis
  proof (cases "ef_healthChecks f e")
    case None
    then show ?thesis using failure assms by (simp add: RecordError_def)
  next
    case (Some st)
    then have "eh_IsHealthy st \<longleftrightarrow> eh_ErrorCount st < 3" using failure assms by (auto simp: failover_inv_def)
    then show ?thesis using Some failure assms health_upd_inv [of start f now e st]
      by (simp add: RecordError_def Let_def)
  qed
next
  case (check f now)
  then show ?thesis using assms CheckAndSwitch_cases [of now f] switch_inv [of start f now] by auto
next
  case (reset f now)
  then show ?thesis using assms by (auto simp: failover_inv_def ef_Reset_def dom_def split: option.splits)
next
  case (callback f now cb)
  then show ?thesis using assms by (auto simp: failover_inv_def SetOnSwitch_def split: option.splits)
qed

interpretation failsys: invariant_system "\<lambda>s. s = (NewEngineFailover, start)" failover_step "failover_inv start" for start
proof unfold_locales
  show "failover_inv start s" if "s = (NewEngineFailover, start)" for s
    using that by (auto simp: failover_inv_def NewEngineFailover_def fresh_health_def)
qed (rule failover_step_inv)

subsection \<open>Properties\<close>

text \<open>The failover does not flap: however its operations interleave, after the first switch at most one switch happens in
  every thirty seconds.\<close>

theorem failover_switches_rarely:
  assumes "failover_step\<^sup>*\<^sup>* (NewEngineFailover, start) (f, now)"
  shows "ef_switchCount f \<le> 1 + (now - start) div (30 * second)"
proof -
  have inv: "failover_inv start (f, now)" by (rule failsys.run_inv [OF refl assms])
  have "(ef_switchCount f - 1) * (30 * second) \<le> now - start"
  proof (cases "ef_lastSwitchTime f")
    case None
    then have "ef_switchCount f = 0" "start \<le> now" using inv by (simp_all add: failover_inv_def)
    then show ?thesis by (simp add: second_def)
  next
    case (Some t)
    then show ?thesis using inv by (simp add: failover_inv_def)
  qed
  moreover have "0 < 30 * second" by (simp add: second_def)
  ultimately have "ef_switchCount f - 1 \<le> (now - start) div (30 * second)"
    using zdiv_mono1 [of "(ef_switchCount f - 1) * (30 * second)" "now - start" "30 * second"] by simp
  then show ?thesis by simp
qed

theorem failover_switches_rarely_witness:
  "ef_switchCount (fst (snd (CheckAndSwitch 5 NewEngineFailover))) \<le> 1 + (5 - 0) div (30 * second) \<and>
   ef_switchCount (fst (snd (CheckAndSwitch 5 NewEngineFailover))) = 1"
proof -
  have "failover_step\<^sup>*\<^sup>* (NewEngineFailover, 0) (fst (snd (CheckAndSwitch 5 NewEngineFailover)), 5)"
    using failover_step.wait [of 0 5 NewEngineFailover] failover_step.check [of NewEngineFailover 5] by force
  from failover_switches_rarely [OF this] show ?thesis
    by (simp add: CheckAndSwitch_def NewEngineFailover_def too_soon_def findHealthyEngine_cases IsEngineHealthy_def fresh_health_def)
qed

text \<open>Once the interval has passed, the check returns a healthy engine if there is one: it stays with the current engine while
  that is healthy and otherwise takes the first healthy one in the order WinDivert, Npcap, native.\<close>

theorem failover_uses_healthy_engine:
  assumes "failover_step\<^sup>*\<^sup>* (NewEngineFailover, start) (f, now)" and "\<not> too_soon now f" and "IsEngineHealthy e f"
  shows "IsEngineHealthy (fst (CheckAndSwitch now f)) f \<and>
    ef_currentEngine (fst (snd (CheckAndSwitch now f))) = fst (CheckAndSwitch now f) \<and>
    fst (CheckAndSwitch now f) = (if IsEngineHealthy (ef_currentEngine f) f then ef_currentEngine f else findHealthyEngine f)"
proof -
  have inv: "failover_inv start (f, now)" by (rule failsys.run_inv [OF refl assms(1)])
  then have dom: "IsEngineHealthy x f \<Longrightarrow> x \<in> {EngineWinDivert, EngineNpcap, EngineNative}" for x
    by (auto simp: failover_inv_def IsEngineHealthy_def split: option.splits)
  then have "IsEngineHealthy (findHealthyEngine f) f" and auto: "\<not> IsEngineHealthy EngineAuto f"
    using assms(3) dom [of EngineAuto] by (auto simp: findHealthyEngine_cases)
  then show ?thesis
    using assms(2) findHealthyEngine_mem [of f]
    by (auto simp: CheckAndSwitch_def Let_def IsEngineHealthy_def)
qed

definition failing_windivert :: engine_failover where
  "failing_windivert = fold (\<lambda>t. RecordError EngineWinDivert ''lost'' t) [1, 1, 1] NewEngineFailover"

lemma failing_windivert_run: "failover_step\<^sup>*\<^sup>* (NewEngineFailover, 1) (failing_windivert, 1)"
proof -
  let ?r = "RecordError EngineWinDivert ''lost'' 1"
  have "failover_step (f, 1) (?r f, 1)" for f by (rule failover_step.failure)
  then have "failover_step\<^sup>*\<^sup>* (NewEngineFailover, 1) (?r (?r (?r NewEngineFailover)), 1)"
    by (meson converse_rtranclp_into_rtranclp rtranclp.rtrancl_refl)
  then show ?thesis by (simp add: failing_windivert_def)
qed

lemmas failing_windivert_eval =
  failing_windivert_def RecordError_def NewEngineFailover_def fresh_health_def IsEngineHealthy_def too_soon_def engine_names Let_def

theorem failover_uses_healthy_engine_witness:
  "fst (CheckAndSwitch 1 failing_windivert) = EngineNpcap \<and> \<not> IsEngineHealthy EngineWinDivert failing_windivert"
proof -
  have h: "IsEngineHealthy EngineNpcap failing_windivert" "\<not> too_soon 1 failing_windivert" "\<not> IsEngineHealthy EngineWinDivert failing_windivert"
    "\<not> IsEngineHealthy (ef_currentEngine failing_windivert) failing_windivert"
    by (simp_all add: failing_windivert_eval)
  from failover_uses_healthy_engine [OF failing_windivert_run h(2,1)] h show ?thesis by (simp add: findHealthyEngine_cases)
qed

text \<open>An engine is taken out after three failures in a row and not before: what counts is the failures since the last success.\<close>

theorem three_failures_disable_engine:
  assumes "ef_healthChecks f e = Some st"
  shows "IsEngineHealthy e (fold (\<lambda>(err, t). RecordError e err t) errs (RecordSuccess e latency now f)) \<longleftrightarrow> length errs < 3"
proof -
  have "\<exists>st'. ef_healthChecks (fold (\<lambda>(err, t). RecordError e err t) errs g) e = Some st' \<and>
      eh_ErrorCount st' = eh_ErrorCount sg + int (length errs) \<and>
      (eh_IsHealthy st' \<longleftrightarrow> eh_ErrorCount st' < 3)"
    if "ef_healthChecks g e = Some sg" "eh_IsHealthy sg \<longleftrightarrow> eh_ErrorCount sg < 3" for g sg
    using that
  proof (induction errs arbitrary: g sg)
    case (Cons p errs)
    obtain err t where p: "p = (err, t)" by (cases p)
    let ?g = "RecordError e err t g"
    obtain s1 where s1: "ef_healthChecks ?g e = Some s1" "eh_ErrorCount s1 = eh_ErrorCount sg + 1" "eh_IsHealthy s1 \<longleftrightarrow> eh_ErrorCount s1 < 3"
      using Cons.prems by (simp add: RecordError_def Let_def)
    from Cons.IH [OF s1(1,3)] show ?case by (simp add: p s1(2) add.assoc case_prod_beta)
  qed simp
  from this [of "RecordSuccess e latency now f" "st\<lparr>eh_IsHealthy := True, eh_SuccessCount := eh_SuccessCount st + 1, eh_LastCheck := Some now, eh_Latency := latency, eh_ErrorCount := 0\<rparr>"]
  show ?thesis using assms by (auto simp: RecordSuccess_def IsEngineHealthy_def)
qed

theorem three_failures_disable_engine_witness:
  "IsEngineHealthy EngineNpcap (fold (\<lambda>(err, t). RecordError EngineNpcap err t) [(''a'', 1), (''b'', 2)] (RecordSuccess EngineNpcap 7 0 NewEngineFailover)) \<and>
   \<not> IsEngineHealthy EngineNpcap (fold (\<lambda>(err, t). RecordError EngineNpcap err t) [(''a'', 1), (''b'', 2), (''c'', 3)] (RecordSuccess EngineNpcap 7 0 NewEngineFailover))"
proof -
  have h: "ef_healthChecks NewEngineFailover EngineNpcap = Some fresh_health" by (simp add: NewEngineFailover_def)
  show ?thesis
    using three_failures_disable_engine [OF h, of "[(''a'', 1), (''b'', 2)]" 7 0]
      three_failures_disable_engine [OF h, of "[(''a'', 1), (''b'', 2), (''c'', 3)]" 7 0] by simp
qed

lemma engine_nonempty: "EngineWinDivert \<noteq> []" "EngineNpcap \<noteq> []" "EngineNative \<noteq> []"
  by (simp_all add: engine_names)

text \<open>The choice by score in closed form: off Windows the native engine; on Windows WinDivert if its driver is there, unless
  Npcap has an interface and either the rights are missing or it lists at least three interfaces.\<close>

theorem engine_choice:
  "SelectBestEngine windows here there admin devs =
     (let driver = here \<or> there; n = (case devs of Inl _ \<Rightarrow> 0 | Inr k \<Rightarrow> k)
      in if \<not> windows then EngineNative
         else if driver \<and> (if admin then n < 3 else n = 0) then EngineWinDivert
         else if n > 0 then EngineNpcap else EngineNative)"
  by (cases windows; cases here; cases there; cases admin; cases devs)
    (simp_all add: SelectBestEngine_def evaluateWinDivert_def evaluateNpcap_def evaluateNative_def no_score_def Let_def engine_nonempty)

text \<open>The failover knows nothing of the platform: it starts with every engine marked healthy, so its first check switches to WinDivert
  also where the selector has to take the native engine.\<close>

theorem first_check_switches_to_windivert:
  "fst (CheckAndSwitch now NewEngineFailover) = EngineWinDivert \<and> SelectBestEngine False here there admin devs = EngineNative"
  by (simp add: CheckAndSwitch_def NewEngineFailover_def too_soon_def findHealthyEngine_cases IsEngineHealthy_def fresh_health_def
      SelectBestEngine_def evaluateNative_def no_score_def engine_nonempty)

text \<open>A better machine never gets smaller buffers, fewer connections or a shorter timeout, and the packet buffer stays between
  256 and 8192 packets.\<close>

theorem tuning_monotone:
  assumes "1 \<le> sr_CPUCount r" "sr_CPUCount r \<le> sr_CPUCount r'" "sr_AvailableMemory r \<le> sr_AvailableMemory r'" "sr_NetworkSpeed r \<le> sr_NetworkSpeed r'"
  shows "tu_TCPBufferSize (AutoTune r) \<le> tu_TCPBufferSize (AutoTune r') \<and> tu_UDPBufferSize (AutoTune r) \<le> tu_UDPBufferSize (AutoTune r') \<and>
    tu_PacketBufferSize (AutoTune r) \<le> tu_PacketBufferSize (AutoTune r') \<and> tu_MaxConnections (AutoTune r) \<le> tu_MaxConnections (AutoTune r') \<and>
    tu_ConnectionTimeout (AutoTune r) \<le> tu_ConnectionTimeout (AutoTune r') \<and>
    256 \<le> tu_PacketBufferSize (AutoTune r) \<and> tu_PacketBufferSize (AutoTune r) \<le> 8192"
proof -
  have "tu_PacketBufferSize (AutoTune r) \<le> tu_PacketBufferSize (AutoTune r')"
    "256 \<le> tu_PacketBufferSize (AutoTune r)" "tu_PacketBufferSize (AutoTune r) \<le> 8192"
    using assms by (auto simp: AutoTune_def calculatePacketBuffer_def Let_def)
  moreover have "tu_TCPBufferSize (AutoTune r) \<le> tu_TCPBufferSize (AutoTune r')" "tu_UDPBufferSize (AutoTune r) \<le> tu_UDPBufferSize (AutoTune r')"
    "tu_MaxConnections (AutoTune r) \<le> tu_MaxConnections (AutoTune r')" "tu_ConnectionTimeout (AutoTune r) \<le> tu_ConnectionTimeout (AutoTune r')"
    using assms by (simp_all add: AutoTune_def Let_def second_def)
  ultimately show ?thesis by blast
qed

theorem tuning_monotone_witness:
  "tu_PacketBufferSize (snd (NewSystemTuner 4 (6 * GB))) \<le> tu_PacketBufferSize (snd (NewSystemTuner 8 (32 * GB))) \<and>
   tu_PacketBufferSize (snd (NewSystemTuner 8 (32 * GB))) = 8192"
  using tuning_monotone [of "detectSystemResources 4 (6 * GB)" "detectSystemResources 8 (32 * GB)"]
  by (simp add: NewSystemTuner_def detectSystemResources_def AutoTune_def calculatePacketBuffer_def GB_def Let_def)

end
