(* ===== verification/ProxySelect.thy ===== *)
theory ProxySelect
  imports LeaseDb GoBytes
begin

text \<open>
  The choice of a proxy, \<^verbatim>\<open>auto/proxy_selector.go\<close>, and of a network interface, \<^verbatim>\<open>auto/interface_selector.go\<close>.

  Confidences are real numbers: the decimal constants of the code and their sums differ from its floating point numbers
  by less than a millionth, and no comparison of the code has operands that close.  The connection tests and what the operating
  system says about its interfaces are arguments; the zero time is None.
\<close>

unbundle bit_operations_syntax

subsection \<open>Proxies\<close>

datatype proxy_mode = ModeNone | ModeDirect | ModeSocks5 | ModeHTTP3 | ModeWireGuard

text \<open>The fields of an outbound of the configuration that the selection reads: the address of each kind of proxy that is configured.\<close>

record outbound =
  ob_Tag :: string
  ob_Socks :: "string option"
  ob_HTTP3 :: "string option"
  ob_WireGuard :: "string option"

record proxy_candidate =
  pc_Mode :: proxy_mode
  pc_Address :: string
  pc_Config :: "outbound option"
  pc_Priority :: int

record proxy_recommendation =
  pr_Mode :: proxy_mode
  pr_Confidence :: real
  pr_Reason :: string
  pr_Config :: "outbound option"
  pr_Speed :: int
  pr_Latency :: duration

record proxy_selector =
  ps_config :: "outbound list option"
  ps_lastCheck :: "instant option"
  ps_cache :: "proxy_mode \<rightharpoonup> proxy_recommendation"
  ps_checkInterval :: duration
  ps_speedTestResult :: "string \<rightharpoonup> int"

definition no_recommendation :: proxy_recommendation where
  "no_recommendation = \<lparr>pr_Mode = ModeNone, pr_Confidence = 0, pr_Reason = [], pr_Config = None, pr_Speed = 0, pr_Latency = 0\<rparr>"

definition NewProxySelector :: "outbound list option \<Rightarrow> proxy_selector" where
  "NewProxySelector config =
     \<lparr>ps_config = config, ps_lastCheck = None, ps_cache = Map.empty, ps_checkInterval = 30 * second, ps_speedTestResult = Map.empty\<rparr>"

definition direct_candidate :: proxy_candidate where
  "direct_candidate = \<lparr>pc_Mode = ModeDirect, pc_Address = ''direct'', pc_Config = None, pc_Priority = 10\<rparr>"

definition outbound_candidates :: "outbound \<Rightarrow> proxy_candidate list" where
  "outbound_candidates ob =
     (case ob_HTTP3 ob of Some a \<Rightarrow> [\<lparr>pc_Mode = ModeHTTP3, pc_Address = a, pc_Config = Some ob, pc_Priority = 1\<rparr>] | None \<Rightarrow> []) @
     (case ob_Socks ob of Some a \<Rightarrow> [\<lparr>pc_Mode = ModeSocks5, pc_Address = a, pc_Config = Some ob, pc_Priority = 2\<rparr>] | None \<Rightarrow> []) @
     (case ob_WireGuard ob of Some a \<Rightarrow> [\<lparr>pc_Mode = ModeWireGuard, pc_Address = a, pc_Config = Some ob, pc_Priority = 3\<rparr>] | None \<Rightarrow> [])"

definition detectAvailableProxies :: "proxy_selector \<Rightarrow> proxy_candidate list" where
  "detectAvailableProxies s =
     (case ps_config s of
        None \<Rightarrow> [direct_candidate]
      | Some obs \<Rightarrow> concat (map outbound_candidates obs) @ [direct_candidate])"

text \<open>The outside world: whether a host name resolves, whether a TCP connection to an address opens, and how long the test of a
  candidate takes, in nanoseconds.\<close>

record probe_env =
  pv_resolves :: "string \<Rightarrow> bool"
  pv_connects :: "string \<Rightarrow> bool"
  pv_elapsed :: "proxy_candidate \<Rightarrow> duration"

fun cut_at :: "char \<Rightarrow> string \<Rightarrow> string" where
  "cut_at c [] = []"
| "cut_at c (x # xs) = (if x = c then [] else x # cut_at c xs)"

fun after_scheme :: "string \<Rightarrow> string option" where
  "after_scheme [] = None"
| "after_scheme (x # xs) = (if HasPrefix (x # xs) ''://'' then Some (drop 3 (x # xs)) else after_scheme xs)"

definition http3_host :: "string \<Rightarrow> string" where
  "http3_host a = (let host = (case after_scheme a of Some h \<Rightarrow> h | None \<Rightarrow> a) in cut_at CHR '':'' (cut_at CHR ''/'' host))"

definition testHTTP3Connect :: "probe_env \<Rightarrow> string \<Rightarrow> bool" where
  "testHTTP3Connect env a = (if length a < 8 then False else pv_resolves env (http3_host a))"

definition testProxySpeed :: "probe_env \<Rightarrow> proxy_candidate \<Rightarrow> int" where
  "testProxySpeed env c =
     (let success = (case pc_Mode c of
                       ModeHTTP3 \<Rightarrow> testHTTP3Connect env (pc_Address c)
                     | ModeSocks5 \<Rightarrow> pv_connects env (pc_Address c)
                     | ModeWireGuard \<Rightarrow> True
                     | _ \<Rightarrow> False)
      in if \<not> success then 0
         else let elapsed = (if pv_elapsed env c = 0 then millisecond else pv_elapsed env c)
              in floor (1024 * 1024 / (of_int elapsed / 1000000000 :: real)))"

definition testProxySpeedsSequential :: "probe_env \<Rightarrow> proxy_candidate list \<Rightarrow> proxy_selector \<Rightarrow> proxy_selector" where
  "testProxySpeedsSequential env cs s =
     fold (\<lambda>c s. s\<lparr>ps_speedTestResult := (ps_speedTestResult s)(pc_Address c \<mapsto>
                    (if pc_Mode c = ModeDirect then 0 else testProxySpeed env c))\<rparr>) cs s"

definition evaluateProxy :: "proxy_candidate \<Rightarrow> int \<Rightarrow> proxy_recommendation" where
  "evaluateProxy c speed =
     (let rec = no_recommendation\<lparr>pr_Mode := pc_Mode c, pr_Config := pc_Config c, pr_Speed := speed\<rparr>
      in case pc_Mode c of
           ModeHTTP3 \<Rightarrow>
             (if speed > 0 then rec\<lparr>pr_Confidence := 0.90, pr_Reason := ''HTTP3 provides best performance with QUIC protocol'', pr_Latency := 20 * millisecond\<rparr>
              else rec\<lparr>pr_Confidence := 0.65, pr_Reason := ''HTTP3 configured but connectivity test failed'', pr_Latency := 50 * millisecond\<rparr>)
         | ModeSocks5 \<Rightarrow>
             (if speed > 0 then rec\<lparr>pr_Confidence := 0.80, pr_Reason := ''SOCKS5 proxy is reliable and fast'', pr_Latency := 30 * millisecond\<rparr>
              else rec\<lparr>pr_Confidence := 0.55, pr_Reason := ''SOCKS5 proxy configured but unreachable'', pr_Latency := 100 * millisecond\<rparr>)
         | ModeWireGuard \<Rightarrow>
             rec\<lparr>pr_Confidence := 0.75, pr_Reason := ''WireGuard provides secure tunnel with good performance'', pr_Latency := 25 * millisecond\<rparr>
         | ModeDirect \<Rightarrow> rec\<lparr>pr_Confidence := 0.50, pr_Reason := ''Direct connection (no proxy)'', pr_Latency := 10 * millisecond\<rparr>
         | ModeNone \<Rightarrow> rec)"

definition rated :: "(string \<rightharpoonup> int) \<Rightarrow> proxy_candidate \<Rightarrow> proxy_recommendation" where
  "rated results c =
     (let speed = (case results (pc_Address c) of Some v \<Rightarrow> v | None \<Rightarrow> 0);
          rec = evaluateProxy c speed;
          conf = pr_Confidence rec + real_of_int (10 - pc_Priority c) * 0.01
      in rec\<lparr>pr_Confidence := if conf > 1 then 1 else conf\<rparr>)"

fun best_recommendation :: "(string \<rightharpoonup> int) \<Rightarrow> proxy_recommendation \<Rightarrow> proxy_candidate list \<Rightarrow> proxy_recommendation" where
  "best_recommendation results best [] = best"
| "best_recommendation results best (c # cs) =
     best_recommendation results (if pr_Confidence (rated results c) > pr_Confidence best then rated results c else best) cs"

definition selectBestFromCandidates :: "proxy_selector \<Rightarrow> proxy_candidate list \<Rightarrow> proxy_recommendation" where
  "selectBestFromCandidates s cs = best_recommendation (ps_speedTestResult s) no_recommendation cs"

definition confident :: "proxy_selector \<Rightarrow> proxy_mode \<Rightarrow> bool" where
  "confident s m = (case ps_cache s m of Some rec \<Rightarrow> pr_Confidence rec > 0.8 | None \<Rightarrow> False)"

definition cached_recommendation :: "instant \<Rightarrow> proxy_selector \<Rightarrow> proxy_recommendation option" where
  "cached_recommendation now s =
     (if (case ps_lastCheck s of None \<Rightarrow> False | Some t \<Rightarrow> now - t < ps_checkInterval s) then
        (case filter (confident s) [ModeHTTP3, ModeWireGuard, ModeSocks5] of [] \<Rightarrow> None | m # _ \<Rightarrow> ps_cache s m)
      else None)"

text \<open>\<open>SelectBestProxy\<close> at time \<open>now\<close>, with the tests finished at \<open>later\<close>.\<close>

definition SelectBestProxy :: "probe_env \<Rightarrow> instant \<Rightarrow> instant \<Rightarrow> proxy_selector \<Rightarrow> proxy_recommendation \<times> proxy_selector" where
  "SelectBestProxy env now later s =
     (case cached_recommendation now s of
        Some rec \<Rightarrow> (rec, s)
      | None \<Rightarrow>
          let cs = detectAvailableProxies s;
              s1 = testProxySpeedsSequential env cs s;
              best = selectBestFromCandidates s1 cs;
              best = (if pr_Mode best = ModeNone
                      then no_recommendation\<lparr>pr_Mode := ModeDirect, pr_Confidence := 1, pr_Reason := ''No proxies available, using direct connection'',
                             pr_Latency := 10 * millisecond\<rparr>
                      else best)
          in (best, s1\<lparr>ps_cache := (ps_cache s1)(pr_Mode best \<mapsto> best), ps_lastCheck := Some later\<rparr>))"

datatype apply_error = ConfidenceTooLow real

definition ApplyRecommendation :: "proxy_recommendation \<Rightarrow> apply_error option" where
  "ApplyRecommendation rec = (if pr_Confidence rec < 0.7 then Some (ConfidenceTooLow (pr_Confidence rec)) else None)"

definition GetProxyMode :: "proxy_selector \<Rightarrow> proxy_mode" where
  "GetProxyMode s =
     (if confident s ModeHTTP3 then ModeHTTP3 else if confident s ModeSocks5 then ModeSocks5
      else if confident s ModeWireGuard then ModeWireGuard else ModeDirect)"

definition ForceRecheck :: "proxy_selector \<Rightarrow> proxy_selector" where
  "ForceRecheck s = s\<lparr>ps_lastCheck := None\<rparr>"

subsection \<open>Properties\<close>

lemma best_recommendation_mem:
  "best_recommendation r b cs = b \<or> best_recommendation r b cs \<in> rated r ` set cs"
proof (induction cs arbitrary: b)
  case (Cons c cs)
  then show ?case using Cons.IH [of "if pr_Confidence (rated r c) > pr_Confidence b then rated r c else b"] by (auto split: if_splits)
qed simp

lemma best_recommendation_ge:
  "pr_Confidence b \<le> pr_Confidence (best_recommendation r b cs) \<and>
   (\<forall>c \<in> set cs. pr_Confidence (rated r c) \<le> pr_Confidence (best_recommendation r b cs))"
proof (induction cs arbitrary: b)
  case (Cons c cs)
  let ?b = "if pr_Confidence (rated r c) > pr_Confidence b then rated r c else b"
  have "pr_Confidence b \<le> pr_Confidence ?b" "pr_Confidence (rated r c) \<le> pr_Confidence ?b" by simp_all
  with Cons.IH [of ?b] show ?case by (auto intro: order_trans)
qed simp

lemma rated_mode [simp]: "pr_Mode (rated r c) = pc_Mode c"
  by (simp add: rated_def evaluateProxy_def Let_def no_recommendation_def split: proxy_mode.splits)

definition mode_priority :: "proxy_mode \<Rightarrow> int" where
  "mode_priority m = (case m of ModeHTTP3 \<Rightarrow> 1 | ModeSocks5 \<Rightarrow> 2 | ModeWireGuard \<Rightarrow> 3 | _ \<Rightarrow> 10)"

definition reached :: "(string \<rightharpoonup> int) \<Rightarrow> string \<Rightarrow> bool" where
  "reached r a \<longleftrightarrow> (case r a of Some v \<Rightarrow> v > 0 | None \<Rightarrow> False)"

definition rank :: "proxy_mode \<Rightarrow> bool \<Rightarrow> real" where
  "rank m up = (case m of ModeHTTP3 \<Rightarrow> if up then 0.99 else 0.74 | ModeSocks5 \<Rightarrow> if up then 0.88 else 0.63
     | ModeWireGuard \<Rightarrow> 0.82 | ModeDirect \<Rightarrow> 0.5 | ModeNone \<Rightarrow> 0)"

lemma rated_confidence:
  "pc_Priority c = mode_priority (pc_Mode c) \<Longrightarrow> pr_Confidence (rated r c) = rank (pc_Mode c) (reached r (pc_Address c))"
  by (cases "pc_Mode c"; cases "r (pc_Address c)")
    (simp_all add: rated_def evaluateProxy_def Let_def no_recommendation_def mode_priority_def reached_def rank_def)

definition candidates_ok :: "proxy_candidate list \<Rightarrow> bool" where
  "candidates_ok cs \<longleftrightarrow> direct_candidate \<in> set cs \<and> (\<forall>c \<in> set cs. pc_Mode c \<noteq> ModeNone \<and> pc_Priority c = mode_priority (pc_Mode c))"

lemma detect_ok: "candidates_ok (detectAvailableProxies s)"
  by (auto simp: candidates_ok_def detectAvailableProxies_def outbound_candidates_def direct_candidate_def mode_priority_def split: option.splits)

text \<open>The selected recommendation is that of a candidate of the highest rank.\<close>

lemma select_best:
  assumes ok: "candidates_ok cs"
  obtains c where "c \<in> set cs" "selectBestFromCandidates s cs = rated (ps_speedTestResult s) c"
    "\<forall>d \<in> set cs. rank (pc_Mode d) (reached (ps_speedTestResult s) (pc_Address d)) \<le> rank (pc_Mode c) (reached (ps_speedTestResult s) (pc_Address c))"
proof -
  let ?r = "ps_speedTestResult s" and ?b = "selectBestFromCandidates s cs"
  have conf: "d \<in> set cs \<Longrightarrow> pr_Confidence (rated ?r d) = rank (pc_Mode d) (reached ?r (pc_Address d))" for d
    using ok by (auto simp: candidates_ok_def intro: rated_confidence)
  have ge: "\<forall>d \<in> set cs. pr_Confidence (rated ?r d) \<le> pr_Confidence ?b"
    unfolding selectBestFromCandidates_def using best_recommendation_ge by blast
  have "direct_candidate \<in> set cs" using ok by (simp add: candidates_ok_def)
  then have "0.5 \<le> pr_Confidence ?b" using ge conf by (force simp: rank_def direct_candidate_def)
  then have "?b \<noteq> no_recommendation" by (auto simp: no_recommendation_def)
  then obtain c where c: "c \<in> set cs" "?b = rated ?r c"
    using best_recommendation_mem [of ?r no_recommendation cs] by (auto simp: selectBestFromCandidates_def)
  show ?thesis by (rule that [OF c]) (use ge conf c in simp)
qed

text \<open>The rule the confidences amount to.\<close>

definition configured :: "(outbound \<Rightarrow> string option) \<Rightarrow> (string \<Rightarrow> bool) \<Rightarrow> outbound list \<Rightarrow> bool" where
  "configured kind p obs = list_ex (\<lambda>ob. case kind ob of Some a \<Rightarrow> p a | None \<Rightarrow> False) obs"

definition chosen_mode :: "(string \<rightharpoonup> int) \<Rightarrow> outbound list \<Rightarrow> proxy_mode" where
  "chosen_mode r obs =
     (if configured ob_HTTP3 (reached r) obs then ModeHTTP3
      else if configured ob_Socks (reached r) obs then ModeSocks5
      else if configured ob_WireGuard (\<lambda>_. True) obs then ModeWireGuard
      else if configured ob_HTTP3 (\<lambda>_. True) obs then ModeHTTP3
      else if configured ob_Socks (\<lambda>_. True) obs then ModeSocks5
      else ModeDirect)"

lemma configured_iff: "configured kind p obs \<longleftrightarrow> (\<exists>ob \<in> set obs. \<exists>a. kind ob = Some a \<and> p a)"
  by (auto simp: configured_def list_ex_iff split: option.splits)

abbreviation all_candidates :: "outbound list \<Rightarrow> proxy_candidate list" where
  "all_candidates obs \<equiv> concat (map outbound_candidates obs) @ [direct_candidate]"

lemma candidate_configured:
  assumes "c \<in> set (all_candidates obs)" and "p (pc_Address c)"
  shows "pc_Mode c = ModeHTTP3 \<and> configured ob_HTTP3 p obs \<or> pc_Mode c = ModeSocks5 \<and> configured ob_Socks p obs \<or>
     pc_Mode c = ModeWireGuard \<and> configured ob_WireGuard p obs \<or> pc_Mode c = ModeDirect"
proof (cases "c = direct_candidate")
  case True
  then show ?thesis by (simp add: direct_candidate_def)
next
  case False
  then obtain ob where ob: "ob \<in> set obs" "c \<in> set (outbound_candidates ob)" using assms by auto
  from ob(2) have "pc_Mode c = ModeHTTP3 \<and> ob_HTTP3 ob = Some (pc_Address c) \<or> pc_Mode c = ModeSocks5 \<and> ob_Socks ob = Some (pc_Address c) \<or>
      pc_Mode c = ModeWireGuard \<and> ob_WireGuard ob = Some (pc_Address c)"
    by (auto simp: outbound_candidates_def split: option.splits)
  with ob(1) assms(2) show ?thesis unfolding configured_iff by blast
qed

lemma configured_candidate:
  "configured ob_HTTP3 p obs \<Longrightarrow> \<exists>c \<in> set (all_candidates obs). pc_Mode c = ModeHTTP3 \<and> p (pc_Address c)"
  "configured ob_Socks p obs \<Longrightarrow> \<exists>c \<in> set (all_candidates obs). pc_Mode c = ModeSocks5 \<and> p (pc_Address c)"
  "configured ob_WireGuard p obs \<Longrightarrow> \<exists>c \<in> set (all_candidates obs). pc_Mode c = ModeWireGuard \<and> p (pc_Address c)"
  by (force simp: configured_iff outbound_candidates_def)+

lemma select_mode:
  assumes conf: "ps_config s = Some obs"
  shows "pr_Mode (selectBestFromCandidates s (detectAvailableProxies s)) = chosen_mode (ps_speedTestResult s) obs"
proof -
  let ?r = "ps_speedTestResult s"
  have cs: "detectAvailableProxies s = all_candidates obs" by (simp add: detectAvailableProxies_def conf)
  have ok: "candidates_ok (all_candidates obs)" using detect_ok [of s] by (simp only: cs)
  from select_best [OF ok, of s] obtain c where c: "c \<in> set (all_candidates obs)" and eq: "selectBestFromCandidates s (all_candidates obs) = rated ?r c"
    and max: "\<forall>d \<in> set (all_candidates obs). rank (pc_Mode d) (reached ?r (pc_Address d)) \<le> rank (pc_Mode c) (reached ?r (pc_Address c))" .
  let ?R = "rank (pc_Mode c) (reached ?r (pc_Address c))"
  have up: "rank ModeHTTP3 True \<le> ?R" if h: "configured ob_HTTP3 (reached ?r) obs"
    using configured_candidate(1) [OF h] max by fastforce
  have us: "rank ModeSocks5 True \<le> ?R" if h: "configured ob_Socks (reached ?r) obs"
    using configured_candidate(2) [OF h] max by fastforce
  have any: "\<exists>b. rank m b \<le> ?R" if "\<exists>d \<in> set (all_candidates obs). pc_Mode d = m \<and> True" for m
    using that max by fast
  have wg: "0.82 \<le> ?R" if h: "configured ob_WireGuard (\<lambda>_. True) obs"
    using any [OF configured_candidate(3) [OF h]] by (simp add: rank_def)
  have hd: "0.74 \<le> ?R" if h: "configured ob_HTTP3 (\<lambda>_. True) obs"
    using any [OF configured_candidate(1) [OF h]] by (auto simp: rank_def split: if_splits)
  have sd: "0.63 \<le> ?R" if h: "configured ob_Socks (\<lambda>_. True) obs"
    using any [OF configured_candidate(2) [OF h]] by (auto simp: rank_def split: if_splits)
  have mode: "pc_Mode c = ModeHTTP3 \<and> configured ob_HTTP3 (\<lambda>_. True) obs \<or> pc_Mode c = ModeSocks5 \<and> configured ob_Socks (\<lambda>_. True) obs \<or>
     pc_Mode c = ModeWireGuard \<and> configured ob_WireGuard (\<lambda>_. True) obs \<or> pc_Mode c = ModeDirect"
    by (rule candidate_configured [OF c]) simp
  have "pc_Mode c = chosen_mode ?r obs"
  proof (cases "reached ?r (pc_Address c)")
    case True
    from candidate_configured [OF c, of "reached ?r", OF True] mode show ?thesis
      using up us wg hd sd True by (auto simp: chosen_mode_def rank_def)
  next
    case False
    from mode show ?thesis using up us wg hd sd False by (auto simp: chosen_mode_def rank_def)
  qed
  then show ?thesis by (simp add: cs eq)
qed

lemma tested_config [simp]: "ps_config (testProxySpeedsSequential env cs s) = ps_config s"
  by (induction cs arbitrary: s) (simp_all add: testProxySpeedsSequential_def)

lemma tested_cache [simp]:
  "ps_cache (testProxySpeedsSequential env cs s) = ps_cache s" "ps_checkInterval (testProxySpeedsSequential env cs s) = ps_checkInterval s"
  by (induction cs arbitrary: s) (simp_all add: testProxySpeedsSequential_def)

lemma tested_detect [simp]: "detectAvailableProxies (testProxySpeedsSequential env cs s) = detectAvailableProxies s"
  by (simp add: detectAvailableProxies_def)

lemma selected_mode_some: "pr_Mode (selectBestFromCandidates s' (detectAvailableProxies s)) \<noteq> ModeNone"
proof -
  from select_best [OF detect_ok [of s], of s'] obtain c where
    "c \<in> set (detectAvailableProxies s)" "selectBestFromCandidates s' (detectAvailableProxies s) = rated (ps_speedTestResult s') c" .
  then show ?thesis using detect_ok [of s] by (auto simp: candidates_ok_def)
qed

lemma SelectBestProxy_fresh:
  assumes "cached_recommendation now s = None"
  shows "SelectBestProxy env now later s =
    (let s1 = testProxySpeedsSequential env (detectAvailableProxies s) s; best = selectBestFromCandidates s1 (detectAvailableProxies s)
     in (best, s1\<lparr>ps_cache := (ps_cache s1)(pr_Mode best \<mapsto> best), ps_lastCheck := Some later\<rparr>))"
  using assms selected_mode_some by (simp add: SelectBestProxy_def Let_def)

text \<open>A selection that does not come from the cache follows a fixed order: an HTTP/3 proxy that resolved, a SOCKS5 proxy that was reached,
  WireGuard, an HTTP/3 or SOCKS5 proxy whose test failed, and the direct connection only when no proxy is configured.\<close>

theorem proxy_choice:
  assumes "ps_config s = Some obs" and "cached_recommendation now s = None" and "SelectBestProxy env now later s = (best, s')"
  shows "pr_Mode best = chosen_mode (ps_speedTestResult s') obs"
proof -
  let ?s1 = "testProxySpeedsSequential env (detectAvailableProxies s) s"
  have "best = selectBestFromCandidates ?s1 (detectAvailableProxies ?s1)" "ps_speedTestResult s' = ps_speedTestResult ?s1"
    using assms(3) unfolding SelectBestProxy_fresh [OF assms(2)] by (auto simp: Let_def)
  then show ?thesis using select_mode [of ?s1 obs] assms(1) by simp
qed

definition example_outbound :: "string \<Rightarrow> outbound" where
  "example_outbound h = \<lparr>ob_Tag = ''p'', ob_Socks = None, ob_HTTP3 = Some h, ob_WireGuard = None\<rparr>"

definition probe_world :: "bool \<Rightarrow> probe_env" where
  "probe_world up = \<lparr>pv_resolves = (\<lambda>_. up), pv_connects = (\<lambda>_. True), pv_elapsed = (\<lambda>_. 1000000)\<rparr>"

definition example_selector :: proxy_selector where
  "example_selector = NewProxySelector (Some [example_outbound ''https://p:443'', (example_outbound [])\<lparr>ob_HTTP3 := None, ob_Socks := Some ''q:1080''\<rparr>])"

lemmas selector_eval =
  example_selector_def NewProxySelector_def example_outbound_def probe_world_def cached_recommendation_def SelectBestProxy_def
  detectAvailableProxies_def outbound_candidates_def direct_candidate_def testProxySpeedsSequential_def testProxySpeed_def testHTTP3Connect_def
  http3_host_def selectBestFromCandidates_def rated_def evaluateProxy_def no_recommendation_def Let_def

theorem proxy_choice_witness:
  "pr_Mode (fst (SelectBestProxy (probe_world False) 0 1 example_selector)) = ModeSocks5 \<and>
   chosen_mode (ps_speedTestResult (snd (SelectBestProxy (probe_world False) 0 1 example_selector))) (the (ps_config example_selector)) = ModeSocks5"
proof -
  have m: "pr_Mode (fst (SelectBestProxy (probe_world False) 0 1 example_selector)) = ModeSocks5"
    by (simp add: selector_eval)
  have "ps_config example_selector = Some (the (ps_config example_selector))" "cached_recommendation 0 example_selector = None"
    by (simp_all add: example_selector_def NewProxySelector_def cached_recommendation_def)
  from proxy_choice [OF this prod.collapse [symmetric], of "probe_world False" 1] m show ?thesis by simp
qed

text \<open>What is applied turns this order around: a proxy whose connectivity test has just failed is recommended with a confidence of
  0.74 and accepted, while a recommendation of the direct connection has 0.50 and is always refused.\<close>

theorem failed_proxy_applied_direct_refused:
  assumes "cached_recommendation now s = None" and "SelectBestProxy env now later s = (best, s')"
  shows "(pr_Mode best = ModeDirect \<longrightarrow> ApplyRecommendation best = Some (ConfidenceTooLow 0.5)) \<and>
    (pr_Mode best = ModeHTTP3 \<longrightarrow> ApplyRecommendation best = None)"
proof -
  let ?s1 = "testProxySpeedsSequential env (detectAvailableProxies s) s"
  have "best = selectBestFromCandidates ?s1 (detectAvailableProxies s)"
    using assms(2) unfolding SelectBestProxy_fresh [OF assms(1)] by (auto simp: Let_def)
  with select_best [OF detect_ok [of s], of ?s1] obtain c where
    c: "c \<in> set (detectAvailableProxies s)" "best = rated (ps_speedTestResult ?s1) c" by metis
  then have "pc_Priority c = mode_priority (pc_Mode c)" using detect_ok [of s] by (auto simp: candidates_ok_def)
  from rated_confidence [OF this, of "ps_speedTestResult ?s1"] c show ?thesis
    by (auto simp: ApplyRecommendation_def rank_def)
qed

theorem failed_proxy_applied_direct_refused_witness:
  "let best = fst (SelectBestProxy (probe_world False) 0 1 (NewProxySelector (Some [example_outbound ''https://p:443'']))) in
     pr_Mode best = ModeHTTP3 \<and> pr_Speed best = 0 \<and> ApplyRecommendation best = None"
proof -
  let ?s = "NewProxySelector (Some [example_outbound ''https://p:443''])"
  have m: "pr_Mode (fst (SelectBestProxy (probe_world False) 0 1 ?s)) = ModeHTTP3" "pr_Speed (fst (SelectBestProxy (probe_world False) 0 1 ?s)) = 0"
    by (simp_all add: selector_eval)
  have "cached_recommendation 0 ?s = None" by (simp add: NewProxySelector_def cached_recommendation_def)
  from failed_proxy_applied_direct_refused [OF this prod.collapse [symmetric], of "probe_world False" 1] m show ?thesis by simp
qed

text \<open>The cache keeps an entry per kind of proxy and never drops one.  Once HTTP/3 was good, a later selection that finds it failing and
  returns another proxy is overruled on the next call: the old recommendation is returned again for the whole interval.\<close>

theorem stale_recommendation_returned:
  assumes "cached_recommendation now s = None" and "SelectBestProxy env now later s = (best, s')" and "pr_Mode best \<noteq> ModeHTTP3"
    and "ps_cache s ModeHTTP3 = Some old" and "pr_Confidence old > 0.8"
    and "now' - later < ps_checkInterval s"
  shows "SelectBestProxy env' now' later' s' = (old, s')"
proof -
  let ?s1 = "testProxySpeedsSequential env (detectAvailableProxies s) s"
  have s': "s' = ?s1\<lparr>ps_cache := (ps_cache ?s1)(pr_Mode best \<mapsto> best), ps_lastCheck := Some later\<rparr>"
    using assms(2) unfolding SelectBestProxy_fresh [OF assms(1)] by (auto simp: Let_def)
  have "ps_cache s' ModeHTTP3 = Some old" "ps_lastCheck s' = Some later" "ps_checkInterval s' = ps_checkInterval s"
    using assms(3,4) by (auto simp: s')
  then have "cached_recommendation now' s' = Some old" using assms(5,6) by (simp add: cached_recommendation_def confident_def)
  then show ?thesis by (simp add: SelectBestProxy_def)
qed

definition once_good :: proxy_selector where
  "once_good = snd (SelectBestProxy (probe_world True) 0 0 example_selector)"

theorem stale_recommendation_returned_witness:
  "let (best, s') = SelectBestProxy (probe_world False) (40 * second) (41 * second) once_good in
     pr_Mode best = ModeSocks5 \<and> pr_Mode (fst (SelectBestProxy (probe_world False) (50 * second) (50 * second) s')) = ModeHTTP3"
proof -
  let ?now = "40 * second" and ?e = "probe_world False"
  have h: "ps_cache once_good ModeHTTP3 = Some (fst (SelectBestProxy (probe_world True) 0 0 example_selector))"
    "pr_Confidence (fst (SelectBestProxy (probe_world True) 0 0 example_selector)) > 0.8"
    "pr_Mode (fst (SelectBestProxy (probe_world True) 0 0 example_selector)) = ModeHTTP3"
    "cached_recommendation ?now once_good = None" "ps_checkInterval once_good = 30 * second"
    "pr_Mode (fst (SelectBestProxy ?e ?now (41 * second) once_good)) = ModeSocks5"
    by (simp_all add: once_good_def selector_eval second_def millisecond_def)
  have "50 * second - 41 * second < ps_checkInterval once_good" by (simp add: h(5) second_def)
  from stale_recommendation_returned [OF h(4) prod.collapse [symmetric] _ h(1,2) this] h(3,6)
  show ?thesis by (simp add: case_prod_beta)
qed

subsection \<open>Network interfaces\<close>

record net_interface =
  ni_Name :: string
  ni_loopback :: bool
  ni_up :: bool
  ni_MTU :: int
  ni_HardwareAddr :: "byte list"
  ni_Addrs :: "ipnet option list option"

record interface_config =
  ic_Name :: string
  ic_IP :: string
  ic_MAC :: string
  ic_Network :: string
  ic_Netmask :: string
  ic_NetworkStart :: string
  ic_RecommendedMTU :: "32 word"
  ic_HasInternet :: bool
  ic_IsVirtual :: bool
  ic_Priority :: int

definition no_interface :: interface_config where
  "no_interface = \<lparr>ic_Name = [], ic_IP = [], ic_MAC = [], ic_Network = [], ic_Netmask = [], ic_NetworkStart = [], ic_RecommendedMTU = 0,
     ic_HasInternet = False, ic_IsVirtual = False, ic_Priority = 0\<rparr>"

definition virtualKeywords :: "string list" where
  "virtualKeywords = [''vmware'', ''virtualbox'', ''hyper-v'', ''vethernet'', ''vmnet'', ''vboxnet'', ''virbr'', ''docker'', ''bridge'', ''tun'', ''tap'']"

definition isVirtualInterface :: "string \<Rightarrow> bool" where
  "isVirtualInterface name = list_ex (\<lambda>k. sublist k (ToLower name)) virtualKeywords"

text \<open>\<open>dial ip target\<close>: whether the connection opened while looking at the interface with address \<open>ip\<close> succeeds.\<close>

definition hasInternetAccess :: "(string \<Rightarrow> string \<Rightarrow> bool) \<Rightarrow> string \<Rightarrow> bool" where
  "hasInternetAccess dial ip = list_ex (\<lambda>t. dial ip (t @ '':53'')) [''1.1.1.1'', ''8.8.8.8'', ''9.9.9.9'']"

fun bytes_Compare :: "byte list \<Rightarrow> byte list \<Rightarrow> int" where
  "bytes_Compare [] [] = 0"
| "bytes_Compare [] (_ # _) = - 1"
| "bytes_Compare (_ # _) [] = 1"
| "bytes_Compare (a # as) (b # bs) = (if a < b then - 1 else if b < a then 1 else bytes_Compare as bs)"

definition interface_privateRanges :: "(ip option \<times> ip option) list" where
  "interface_privateRanges =
     [(ParseIP ''10.0.0.0'', ParseIP ''10.255.255.255''), (ParseIP ''172.16.0.0'', ParseIP ''172.31.255.255''),
      (ParseIP ''192.168.0.0'', ParseIP ''192.168.255.255'')]"

definition nil_ip :: "ip option \<Rightarrow> ip" where
  "nil_ip a = (case a of Some b \<Rightarrow> b | None \<Rightarrow> [])"

definition interface_isPrivateIP :: "ip \<Rightarrow> bool" where
  "interface_isPrivateIP ip =
     list_ex (\<lambda>(start, last). bytes_Compare ip (nil_ip start) \<ge> 0 \<and> bytes_Compare ip (nil_ip last) \<le> 0) interface_privateRanges"

definition calculateMTU :: "int \<Rightarrow> 32 word" where
  "calculateMTU mtu = (let recommended = word_of_int mtu - 14 in if recommended < 1400 then 1400 else recommended)"

definition interface_priority :: "bool \<Rightarrow> ip \<Rightarrow> string \<Rightarrow> int" where
  "interface_priority hasInternet ip4 name =
     (if hasInternet then 100 else 0) + (if interface_isPrivateIP ip4 then 50 else 0) +
     (if sublist ''ethernet'' (ToLower name) then 30 else 0) +
     (if sublist ''wi-fi'' (ToLower name) \<or> sublist ''wireless'' (ToLower name) then 20 else 0) +
     (if v4_string ip4 = ''192.168.137.1'' then 200 else 0)"

text \<open>The entry of one address; None is the panic on a mask of fewer than four bytes.\<close>

definition interface_entry :: "(string \<Rightarrow> string \<Rightarrow> bool) \<Rightarrow> bool \<Rightarrow> net_interface \<Rightarrow> ip \<Rightarrow> byte list \<Rightarrow> interface_config option" where
  "interface_entry dial ranked iface ip4 ms =
     (if length ms < 4 then None
      else
        let ipStr = v4_string ip4;
            ones = (case simpleMaskLength ms of Some n \<Rightarrow> n | None \<Rightarrow> 0);
            netmask = v4_string (take 4 ms);
            networkIP = put32 (get32 ip4 AND get32 (slot4 (nil_ip (ParseIP netmask))));
            networkStart = put32 (get32 networkIP + 1);
            hasInternet = hasInternetAccess dial ipStr
        in Some \<lparr>ic_Name = ni_Name iface, ic_IP = ipStr, ic_MAC = HardwareAddr_String (ni_HardwareAddr iface),
                 ic_Network = v4_string networkIP @ CHR ''/'' # FormatUint ones, ic_Netmask = netmask, ic_NetworkStart = v4_string networkStart,
                 ic_RecommendedMTU = calculateMTU (ni_MTU iface), ic_HasInternet = hasInternet,
                 ic_IsVirtual = isVirtualInterface (ni_Name iface),
                 ic_Priority = (if ranked then interface_priority hasInternet ip4 (ni_Name iface) else 0)\<rparr>)"

definition interface_entries :: "(string \<Rightarrow> string \<Rightarrow> bool) \<Rightarrow> bool \<Rightarrow> net_interface \<Rightarrow> interface_config option list" where
  "interface_entries dial ranked iface =
     (case ni_Addrs iface of
        None \<Rightarrow> []
      | Some addrs \<Rightarrow>
          concat (map (\<lambda>a. case a of
                             None \<Rightarrow> []
                           | Some ipnet \<Rightarrow> (case To4 (ipn_IP ipnet) of None \<Rightarrow> [] | Some ip4 \<Rightarrow> [interface_entry dial ranked iface ip4 (ipn_Mask ipnet)]))
                   addrs))"

fun best_interface :: "interface_config \<Rightarrow> interface_config list \<Rightarrow> interface_config" where
  "best_interface best [] = best"
| "best_interface best (c # cs) = best_interface (if ic_Priority c > ic_Priority best then c else best) cs"

definition considered :: "net_interface \<Rightarrow> bool" where
  "considered iface \<longleftrightarrow> \<not> (ni_loopback iface \<or> \<not> ni_up iface) \<and> \<not> isVirtualInterface (ni_Name iface)"

definition SelectBestInterface :: "(string \<Rightarrow> string \<Rightarrow> bool) \<Rightarrow> string + net_interface list \<Rightarrow> interface_config option" where
  "SelectBestInterface dial ifaces =
     (case ifaces of
        Inl err \<Rightarrow> Some no_interface
      | Inr ifs \<Rightarrow> map_option (best_interface no_interface) (those (concat (map (interface_entries dial True) (filter considered ifs)))))"

definition GetInterfaceList :: "(string \<Rightarrow> string \<Rightarrow> bool) \<Rightarrow> string + net_interface list \<Rightarrow> interface_config list option" where
  "GetInterfaceList dial ifaces =
     (case ifaces of Inl err \<Rightarrow> Some [] | Inr ifs \<Rightarrow> those (concat (map (interface_entries dial False) (filter ni_up ifs))))"

lemma range_bounds:
  "interface_privateRanges =
     [(Some (v4InV6Prefix @ [10, 0, 0, 0]), Some (v4InV6Prefix @ [10, 255, 255, 255])),
      (Some (v4InV6Prefix @ [172, 16, 0, 0]), Some (v4InV6Prefix @ [172, 31, 255, 255])),
      (Some (v4InV6Prefix @ [192, 168, 0, 0]), Some (v4InV6Prefix @ [192, 168, 255, 255]))]"
  unfolding interface_privateRanges_def by code_simp

lemma short_against_long:
  "bytes_Compare [a, b, c, d] (v4InV6Prefix @ x) = (if a = 0 \<and> b = 0 \<and> c = 0 \<and> d = 0 then - 1 else 1)"
  by (simp add: v4InV6Prefix_def word_neq_0_conv)

lemma private_local:
  assumes "length ip = 4"
  shows "\<not> interface_isPrivateIP ip"
proof -
  from assms obtain a b c d where "ip = [a, b, c, d]" by (auto simp: length_Suc_conv numeral_eq_Suc)
  then show ?thesis by (simp add: interface_isPrivateIP_def range_bounds nil_ip_def short_against_long)
qed

text \<open>The check for private addresses compares the four bytes of an address with bounds of sixteen bytes, which start with ten zero bytes:
  no address of the selection ever counts as private.\<close>

theorem private_address_not_recognised:
  assumes "To4 ip = Some ip4"
  shows "\<not> interface_isPrivateIP ip4"
  by (rule private_local) (use assms in \<open>rule To4_length\<close>)

theorem private_address_not_recognised_witness: "\<not> interface_isPrivateIP [192, 168, 1, 5]"
  using private_address_not_recognised [of "[192, 168, 1, 5]" "[192, 168, 1, 5]"] by (simp add: To4_def)

text \<open>The recommended MTU leaves room for the encapsulation but never falls below 1400, even if the interface has less; an MTU below 14
  wraps around to more than four billion.\<close>

theorem recommended_mtu:
  assumes "0 \<le> mtu" and "mtu < 2 ^ 31"
  shows "uint (calculateMTU mtu) = (if mtu < 14 then 2 ^ 32 + mtu - 14 else max 1400 (mtu - 14))"
proof -
  have "uint (word_of_int mtu - 14 :: 32 word) = (mtu - 14) mod 2 ^ 32"
    using assms by (simp add: uint_word_ariths unsigned_of_int take_bit_eq_mod mod_diff_left_eq)
  moreover have "(mtu - 14) mod 2 ^ 32 = (if mtu < 14 then 2 ^ 32 + mtu - 14 else mtu - 14)"
  proof (cases "mtu < 14")
    case True
    have "(mtu - 14) mod 2 ^ 32 = (mtu - 14 + 2 ^ 32) mod 2 ^ 32" by (rule mod_add_self2 [symmetric])
    also have "\<dots> = mtu - 14 + 2 ^ 32" using assms True by (intro mod_pos_pos_trivial) auto
    finally show ?thesis using True by simp
  qed (use assms in simp)
  ultimately show ?thesis using assms by (simp add: calculateMTU_def Let_def word_less_def)
qed

theorem recommended_mtu_witness:
  "uint (calculateMTU 1500) = 1486 \<and> uint (calculateMTU 576) = 1400 \<and> uint (calculateMTU 0) = 4294967282"
  using recommended_mtu [of 1500] recommended_mtu [of 576] recommended_mtu [of 0] by simp

text \<open>The selected interface is an entry of the highest priority, and there is none exactly if no entry has a positive one.\<close>

lemma best_interface_max:
  "ic_Priority b \<le> ic_Priority (best_interface b cs) \<and> (\<forall>c \<in> set cs. ic_Priority c \<le> ic_Priority (best_interface b cs))"
proof (induction cs arbitrary: b)
  case (Cons c cs)
  have "ic_Priority b \<le> ic_Priority (if ic_Priority c > ic_Priority b then c else b)"
    "ic_Priority c \<le> ic_Priority (if ic_Priority c > ic_Priority b then c else b)" by simp_all
  with Cons.IH [of "if ic_Priority c > ic_Priority b then c else b"] show ?case by (auto intro: order_trans)
qed simp

lemma best_interface_mem: "best_interface b cs = b \<or> (best_interface b cs \<in> set cs \<and> ic_Priority b < ic_Priority (best_interface b cs))"
proof (induction cs arbitrary: b)
  case (Cons c cs)
  from Cons.IH [of "if ic_Priority c > ic_Priority b then c else b"] show ?case by (auto split: if_splits)
qed simp

theorem selected_interface_ranked_highest:
  assumes "SelectBestInterface dial (Inr ifs) = Some best"
  shows "\<exists>cs. those (concat (map (interface_entries dial True) (filter considered ifs))) = Some cs \<and>
    (\<forall>c \<in> set cs. ic_Priority c \<le> ic_Priority best) \<and> (best \<in> set cs \<or> best = no_interface)"
proof -
  from assms obtain cs where cs: "those (concat (map (interface_entries dial True) (filter considered ifs))) = Some cs" "best = best_interface no_interface cs"
    by (auto simp: SelectBestInterface_def)
  then show ?thesis using best_interface_max [of no_interface cs] best_interface_mem [of no_interface cs] by auto
qed

text \<open>As private addresses are not recognised, an interface of a network without internet access is found only by its name: with
  names such as eth0 or en0 none is selected.\<close>

theorem offline_interface_not_selected:
  assumes "\<And>ip t. \<not> dial ip t"
    and "\<And>i. i \<in> set ifs \<Longrightarrow> \<not> sublist ''ethernet'' (ToLower (ni_Name i)) \<and> \<not> sublist ''wi-fi'' (ToLower (ni_Name i)) \<and> \<not> sublist ''wireless'' (ToLower (ni_Name i))"
    and "\<And>i as n ip4. i \<in> set ifs \<Longrightarrow> ni_Addrs i = Some as \<Longrightarrow> Some n \<in> set as \<Longrightarrow> To4 (ipn_IP n) = Some ip4 \<Longrightarrow> v4_string ip4 \<noteq> ''192.168.137.1'' \<and> 4 \<le> length (ipn_Mask n)"
  shows "SelectBestInterface dial (Inr ifs) = Some no_interface"
proof -
  have e: "e \<noteq> None \<and> ic_Priority (the e) = 0" if i: "i \<in> set ifs" and "e \<in> set (interface_entries dial True i)" for i e
  proof -
    from that(2) obtain as n ip4 where n: "ni_Addrs i = Some as" "Some n \<in> set as" "To4 (ipn_IP n) = Some ip4"
      and e: "e = interface_entry dial True i ip4 (ipn_Mask n)"
      by (auto simp: interface_entries_def split: option.splits) metis
    have "\<not> interface_isPrivateIP ip4" by (rule private_local) (use n(3) in \<open>rule To4_length\<close>)
    then show ?thesis using assms(1,2) i assms(3) [OF i n] 
      by (simp add: e interface_entry_def interface_priority_def hasInternetAccess_def Let_def)
  qed
  have all: "\<forall>e \<in> set (concat (map (interface_entries dial True) (filter considered ifs))). e \<noteq> None \<and> ic_Priority (the e) = 0"
    using e by auto
  have "those es = Some (map the es)" if "\<forall>e \<in> set es. e \<noteq> None" for es :: "interface_config option list"
    using that by (induction es) (auto split: option.splits)
  with all have "those (concat (map (interface_entries dial True) (filter considered ifs))) = Some (map the (concat (map (interface_entries dial True) (filter considered ifs))))"
    by blast
  moreover have "best_interface no_interface (map the es) = no_interface" if "\<forall>e \<in> set es. e \<noteq> None \<and> ic_Priority (the e) = 0" for es
    using that by (induction es) (auto simp: no_interface_def)
  ultimately show ?thesis using all by (simp add: SelectBestInterface_def)
qed

definition home_lan :: "net_interface list" where
  "home_lan = [\<lparr>ni_Name = ''eth0'', ni_loopback = False, ni_up = True, ni_MTU = 1500, ni_HardwareAddr = [2, 0, 0, 0, 0, 1],
      ni_Addrs = Some [Some \<lparr>ipn_IP = [192, 168, 1, 5], ipn_Mask = [255, 255, 255, 0]\<rparr>]\<rparr>]"

theorem selected_interface_ranked_highest_witness:
  "\<exists>cs. those (concat (map (interface_entries (\<lambda>_ _. True) True) (filter considered home_lan))) = Some cs \<and>
    (\<forall>c \<in> set cs. ic_Priority c \<le> 100) \<and> map_option ic_Priority (SelectBestInterface (\<lambda>_ _. True) (Inr home_lan)) = Some 100"
proof -
  have v: "isVirtualInterface ''eth0'' = False" "sublist ''ethernet'' (ToLower ''eth0'') = False" "sublist ''wi-fi'' (ToLower ''eth0'') = False"
    "sublist ''wireless'' (ToLower ''eth0'') = False" "v4_string [192, 168, 1, 5] = ''192.168.137.1'' \<longleftrightarrow> False"
    by code_simp+
  have "\<exists>best. SelectBestInterface (\<lambda>_ _. True) (Inr home_lan) = Some best \<and> ic_Priority best = 100"
    by (simp add: SelectBestInterface_def home_lan_def considered_def v interface_entries_def To4_def interface_entry_def Let_def hasInternetAccess_def
        no_interface_def interface_priority_def private_local)
  then obtain best where b: "SelectBestInterface (\<lambda>_ _. True) (Inr home_lan) = Some best" "ic_Priority best = 100" by blast
  from selected_interface_ranked_highest [OF b(1)] b show ?thesis by auto
qed

theorem offline_interface_not_selected_witness: "SelectBestInterface (\<lambda>_ _. False) (Inr home_lan) = Some no_interface"
proof (rule offline_interface_not_selected)
  fix i as n ip4
  assume h: "i \<in> set home_lan" "ni_Addrs i = Some as" "Some n \<in> set as" "To4 (ipn_IP n) = Some ip4"
  then have "n = \<lparr>ipn_IP = [192, 168, 1, 5], ipn_Mask = [255, 255, 255, 0]\<rparr>" "ip4 = [192, 168, 1, 5]" by (auto simp: home_lan_def To4_def)
  moreover have "v4_string [192, 168, 1, 5] \<noteq> ''192.168.137.1''" by code_simp
  ultimately show "v4_string ip4 \<noteq> ''192.168.137.1'' \<and> 4 \<le> length (ipn_Mask n)" by simp
next
  have "\<not> sublist ''ethernet'' (ToLower ''eth0'') \<and> \<not> sublist ''wi-fi'' (ToLower ''eth0'') \<and> \<not> sublist ''wireless'' (ToLower ''eth0'')"
    by code_simp
  then show "\<not> sublist ''ethernet'' (ToLower (ni_Name i)) \<and> \<not> sublist ''wi-fi'' (ToLower (ni_Name i)) \<and> \<not> sublist ''wireless'' (ToLower (ni_Name i))"
    if "i \<in> set home_lan" for i using that by (simp add: home_lan_def)
qed simp

end
