(* ===== verification/NetUtil.thy ===== *)
theory NetUtil
  imports GoNet GoBytes "HOL-Library.Multiset"
begin

text \<open>
  The address utilities of \<^verbatim>\<open>netutil/ip.go\<close>: conversions, successor and predecessor of an address, ranges, enumeration of a network,
  comparison and sorting, formats and patterns of hardware addresses.
\<close>

unbundle bit_operations_syntax

subsection \<open>Addresses as numbers\<close>

definition IPToUint32 :: "ip \<Rightarrow> 32 word" where
  "IPToUint32 a = (case To4 a of None \<Rightarrow> 0 | Some b \<Rightarrow> get32 b)"

definition Uint32ToIP :: "32 word \<Rightarrow> ip" where
  "Uint32ToIP n = put32 n"

text \<open>The loops run from the last byte to the first: recursion on the reversed address.\<close>

fun incr_bytes :: "byte list \<Rightarrow> byte list" where
  "incr_bytes [] = []"
| "incr_bytes (b # bs) = (if b + 1 \<noteq> 0 then (b + 1) # bs else (b + 1) # incr_bytes bs)"

definition NextIP :: "ip \<Rightarrow> ip" where
  "NextIP a = rev (incr_bytes (rev a))"

fun decr_bytes :: "byte list \<Rightarrow> byte list" where
  "decr_bytes [] = []"
| "decr_bytes (b # bs) = (if b > 0 then (b - 1) # bs else 255 # decr_bytes bs)"

definition PrevIP :: "ip \<Rightarrow> ip" where
  "PrevIP a = rev (decr_bytes (rev a))"

subsection \<open>Ranges and networks\<close>

record ip_range =
  range_Start :: ip
  range_End :: ip

text \<open>The order of Go's strings, bytewise.\<close>

fun str_le :: "string \<Rightarrow> string \<Rightarrow> bool" where
  "str_le [] t = True"
| "str_le (c # s) [] = False"
| "str_le (c # s) (d # t) = (code c < code d \<or> code c = code d \<and> str_le s t)"

definition IPInRange :: "ip \<Rightarrow> ip_range \<Rightarrow> bool" where
  "IPInRange a r =
     (case (To4 a, To4 (range_Start r), To4 (range_End r)) of
        (Some a4, Some s4, Some e4) \<Rightarrow> IPToUint32 s4 \<le> IPToUint32 a4 \<and> IPToUint32 a4 \<le> IPToUint32 e4
      | _ \<Rightarrow> str_le (IP_String (range_Start r)) (IP_String a) \<and> str_le (IP_String a) (IP_String (range_End r)))"

text \<open>\<open>Mask.Size\<close> gives zeros for a mask that is not ones followed by zeros; the shift is on 64 bits.\<close>

definition CountIPsInCIDR :: "ipnet \<Rightarrow> 64 word" where
  "CountIPsInCIDR n =
     (let (ones, bits) = (case simpleMaskLength (ipn_Mask n) of Some k \<Rightarrow> (k, 8 * length (ipn_Mask n)) | None \<Rightarrow> (0, 0))
      in push_bit (bits - ones) 1)"

definition ParseCIDRRange :: "string \<Rightarrow> ip_range option" where
  "ParseCIDRRange cidr =
     (case ParseCIDR cidr of
        None \<Rightarrow> None
      | Some (_, ipnet) \<Rightarrow> Some \<lparr>range_Start = ipn_IP ipnet, range_End = map2 (\<lambda>s m. s OR NOT m) (ipn_IP ipnet) (ipn_Mask ipnet)\<rparr>)"

text \<open>The goroutine that fills the channel: what it sends before it closes the channel; None if it never does.\<close>

partial_function (option) generate_from :: "ip \<Rightarrow> ip \<Rightarrow> ip list option" where
  "generate_from cur stop =
     (if IP_Equal cur stop then Some [cur]
      else Option.bind (generate_from (NextIP cur) stop) (\<lambda>rest. Some (cur # rest)))"

definition GenerateIPsInCIDR :: "string \<Rightarrow> ip list option" where
  "GenerateIPsInCIDR cidr =
     (case ParseCIDRRange cidr of None \<Rightarrow> Some [] | Some r \<Rightarrow> generate_from (range_Start r) (range_End r))"

subsection \<open>Comparison and sorting\<close>

definition To16 :: "ip \<Rightarrow> ip option" where
  "To16 a = (if length a = 4 then Some (v4InV6Prefix @ a) else if length a = 16 then Some a else None)"

fun compare_bytes :: "byte list \<Rightarrow> byte list \<Rightarrow> int" where
  "compare_bytes (a # as) (b # bs) = (if a < b then - 1 else if a > b then 1 else compare_bytes as bs)"
| "compare_bytes _ _ = 0"

definition CompareIPs :: "ip \<Rightarrow> ip \<Rightarrow> int" where
  "CompareIPs a b =
     (case (To16 a, To16 b) of
        (None, None) \<Rightarrow> 0
      | (None, Some _) \<Rightarrow> - 1
      | (Some _, None) \<Rightarrow> 1
      | (Some x, Some y) \<Rightarrow> compare_bytes x y)"

function sort_inner :: "nat \<Rightarrow> nat \<Rightarrow> ip list \<Rightarrow> ip list" where
  "sort_inner i j ips =
     (if j < length ips
      then sort_inner i (Suc j) (if CompareIPs (ips ! i) (ips ! j) > 0 then ips[i := ips ! j, j := ips ! i] else ips)
      else ips)"
  by pat_completeness auto
termination by (relation "measure (\<lambda>(i, j, ips). length ips - j)") auto

declare sort_inner.simps [simp del]

lemma length_sort_inner [simp]: "length (sort_inner i j ips) = length ips"
  by (induction i j ips rule: sort_inner.induct) (subst sort_inner.simps, simp)

function sort_outer :: "nat \<Rightarrow> ip list \<Rightarrow> ip list" where
  "sort_outer i ips = (if i < length ips then sort_outer (Suc i) (sort_inner i (Suc i) ips) else ips)"
  by pat_completeness auto
termination by (relation "measure (\<lambda>(i, ips). length ips - i)") auto

declare sort_outer.simps [simp del]

definition SortIPs :: "ip list \<Rightarrow> ip list" where
  "SortIPs ips = sort_outer 0 ips"

subsection \<open>Facts\<close>

definition ip_val :: "ip \<Rightarrow> nat" where
  "ip_val a = rval (rev a)"

lemma ip_val_bound: "ip_val a < 256 ^ length a"
  using rval_bound [of "rev a"] by (simp add: ip_val_def)

lemma ip_val_inj: "length a = length b \<Longrightarrow> ip_val a = ip_val b \<longleftrightarrow> a = b"
  using rval_inj [of "rev a" "rev b"] by (auto simp: ip_val_def)

lemma length_incr [simp]: "length (incr_bytes bs) = length bs"
  by (induction bs) auto

lemma length_NextIP [simp]: "length (NextIP a) = length a"
  by (simp add: NextIP_def)

lemma byte_incr: "b + 1 \<noteq> 0 \<Longrightarrow> unat (b + 1) = unat b + 1" "b + 1 = 0 \<Longrightarrow> unat b = 255" for b :: byte
proof -
  show "unat (b + 1) = unat b + 1" if "b + 1 \<noteq> 0" using unatSuc [of b] that by (simp add: add.commute)
  show "unat b = 255" if "b + 1 = 0"
  proof -
    have "b = 255" using that by (simp add: eq_neg_iff_add_eq_0 [symmetric])
    then show ?thesis by simp
  qed
qed

lemma rval_incr: "rval (incr_bytes bs) = (rval bs + 1) mod 256 ^ length bs"
proof (induction bs)
  case (Cons b bs)
  show ?case
  proof (cases "b + 1 = 0")
    case True
    have "rval (incr_bytes (b # bs)) = 256 * ((rval bs + 1) mod 256 ^ length bs)" using True Cons.IH by simp
    also have "\<dots> = (256 * (rval bs + 1)) mod (256 * 256 ^ length bs)" by (rule mult_mod_right)
    finally show ?thesis using byte_incr(2) [OF True] by (simp add: algebra_simps)
  next
    case False
    have "rval (incr_bytes (b # bs)) = rval (b # bs) + 1" using False byte_incr(1) by simp
    moreover have "rval (incr_bytes (b # bs)) < 256 ^ length (b # bs)" using rval_bound [of "incr_bytes (b # bs)"] unfolding length_incr .
    ultimately show ?thesis by simp
  qed
qed simp

lemma ip_val_NextIP: "ip_val (NextIP a) = (ip_val a + 1) mod 256 ^ length a"
  using rval_incr [of "rev a"] by (simp add: ip_val_def NextIP_def)

lemma decr_incr: "decr_bytes (incr_bytes bs) = bs"
proof (induction bs)
  case (Cons b bs)
  show ?case
  proof (cases "b + 1 = 0")
    case True
    then have "b = 255" by (simp add: eq_neg_iff_add_eq_0 [symmetric])
    then show ?thesis using Cons.IH by simp
  next
    case False
    then have "0 < b + 1" by (simp only: word_neq_0_conv)
    then show ?thesis using False by simp
  qed
qed simp

lemma PrevIP_NextIP: "PrevIP (NextIP a) = a"
  by (simp add: PrevIP_def NextIP_def decr_incr)

text \<open>The comparison orders addresses by a key: their number as sixteen bytes, with invalid ones first.\<close>

definition ip_key :: "ip \<Rightarrow> nat" where
  "ip_key a = (case To16 a of None \<Rightarrow> 0 | Some x \<Rightarrow> ip_val x + 1)"

lemma ip_val_Cons: "ip_val (a # as) = unat a * 256 ^ length as + ip_val as"
proof -
  have "rval (xs @ [a]) = rval xs + unat a * 256 ^ length xs" for xs by (induction xs) (simp_all add: algebra_simps)
  from this [of "rev as"] show ?thesis by (simp add: ip_val_def)
qed

lemma ip_val_Cons_less:
  assumes "a < b" and "length as = length bs"
  shows "ip_val (a # as) < ip_val (b # bs)"
proof -
  have "ip_val (a # as) < (unat a + 1) * 256 ^ length as" using ip_val_bound [of as] by (simp add: ip_val_Cons)
  also have "\<dots> \<le> unat b * 256 ^ length as" using assms(1) by (intro mult_le_mono1) (simp add: word_less_nat_alt)
  also have "\<dots> \<le> ip_val (b # bs)" using assms(2) by (simp add: ip_val_Cons)
  finally show ?thesis .
qed

lemma compare_bytes_val:
  "length as = length bs \<Longrightarrow>
   compare_bytes as bs = (if ip_val as < ip_val bs then - 1 else if ip_val bs < ip_val as then 1 else 0)"
proof (induction as bs rule: list_induct2)
  case (Cons a as b bs)
  consider "a < b" | "b < a" | "a = b" by (rule linorder_less_linear [THEN disjE]) auto
  then show ?case
  proof cases
    case 1
    then show ?thesis using ip_val_Cons_less [OF 1 Cons.hyps] by simp
  next
    case 2
    then show ?thesis using ip_val_Cons_less [OF 2 Cons.hyps [symmetric]] by simp
  next
    case 3
    then show ?thesis using Cons by (simp add: ip_val_Cons)
  qed
qed simp

lemma To16_length: "To16 a = Some x \<Longrightarrow> length x = 16"
  by (auto simp: To16_def split: if_splits)

lemma CompareIPs_key: "CompareIPs a b = (if ip_key a < ip_key b then - 1 else if ip_key b < ip_key a then 1 else 0)"
proof (cases "To16 a"; cases "To16 b")
  fix x y
  assume xy: "To16 a = Some x" "To16 b = Some y"
  then show ?thesis using compare_bytes_val [of x y] To16_length [OF xy(1)] To16_length [OF xy(2)] by (simp add: CompareIPs_def ip_key_def)
qed (auto simp: CompareIPs_def ip_key_def)

text \<open>The inner loop moves a least element of the rest to position \<open>i\<close>.\<close>

definition sorted_up_to :: "nat \<Rightarrow> ip list \<Rightarrow> bool" where
  "sorted_up_to i ips \<longleftrightarrow> (\<forall>p q. p < i \<longrightarrow> p \<le> q \<longrightarrow> q < length ips \<longrightarrow> ip_key (ips ! p) \<le> ip_key (ips ! q))"

lemma sort_inner_mset: "i < j \<Longrightarrow> mset (sort_inner i j ips) = mset ips"
proof (induction i j ips rule: sort_inner.induct)
  case (1 i j ips)
  show ?case
  proof (cases "j < length ips")
    case True
    let ?ips = "if CompareIPs (ips ! i) (ips ! j) > 0 then ips[i := ips ! j, j := ips ! i] else ips"
    have sw: "mset ?ips = mset ips" using True 1(2) mset_swap [of j ips i] by (simp add: list_update_swap)
    have "mset (sort_inner i (Suc j) ?ips) = mset ?ips" by (rule 1(1) [OF True]) (use 1(2) in simp)
    with sw show ?thesis using True by (subst sort_inner.simps) simp
  next
    case False
    then show ?thesis by (subst sort_inner.simps) simp
  qed
qed

lemma sort_inner_min:
  assumes "i < j" and "sorted_up_to i ips" and "\<forall>k. i < k \<longrightarrow> k < j \<longrightarrow> k < length ips \<longrightarrow> ip_key (ips ! i) \<le> ip_key (ips ! k)"
  shows "sorted_up_to (Suc i) (sort_inner i j ips)"
  using assms
proof (induction i j ips rule: sort_inner.induct)
  case (1 i j ips)
  show ?case
  proof (cases "j < length ips")
    case True
    let ?ips = "if CompareIPs (ips ! i) (ips ! j) > 0 then ips[i := ips ! j, j := ips ! i] else ips"
    have up: "sorted_up_to i ?ips"
      using 1(3) True 1(2) by (auto simp: sorted_up_to_def nth_list_update)
    have least: "\<forall>k. i < k \<longrightarrow> k < Suc j \<longrightarrow> k < length ?ips \<longrightarrow> ip_key (?ips ! i) \<le> ip_key (?ips ! k)"
    proof (intro allI impI)
      fix k
      assume k: "i < k" "k < Suc j" "k < length ?ips"
      have old: "k < j \<Longrightarrow> ip_key (ips ! i) \<le> ip_key (ips ! k)" using 1(4) k True by simp
      show "ip_key (?ips ! i) \<le> ip_key (?ips ! k)"
        using k 1(2) True old by (cases "k = j") (auto simp: nth_list_update CompareIPs_key split: if_splits)
    qed
    have "sorted_up_to (Suc i) (sort_inner i (Suc j) ?ips)"
      by (rule 1(1) [OF True _ up least]) (use 1(2) in simp)
    then show ?thesis using True by (subst sort_inner.simps) simp
  next
    case False
    then show ?thesis using 1(2-4)
      by (subst sort_inner.simps) (auto simp: sorted_up_to_def less_Suc_eq le_less)
  qed
qed

lemma sort_outer_correct:
  "sorted_up_to i ips \<Longrightarrow> mset (sort_outer i ips) = mset ips \<and> sorted_up_to (length ips) (sort_outer i ips)"
proof (induction i ips rule: sort_outer.induct)
  case (1 i ips)
  show ?case
  proof (cases "i < length ips")
    case True
    have "sorted_up_to (Suc i) (sort_inner i (Suc i) ips)" by (rule sort_inner_min) (use 1(2) in auto)
    from 1(1) [OF True this] sort_inner_mset [of i "Suc i" ips] show ?thesis
      using True by (subst (1 2) sort_outer.simps) simp
  next
    case False
    then show ?thesis using 1(2) by (subst (1 2) sort_outer.simps) (auto simp: sorted_up_to_def)
  qed
qed

lemma CIDRMask_Suc:
  "CIDRMask n (8 * Suc k) = (if 8 \<le> n then 255 else if n = 0 then 0 else NOT (drop_bit n 255)) # CIDRMask (n - 8) (8 * k)"
proof -
  have "[0..<Suc k] = 0 # map Suc [0..<k]" by (simp add: upt_conv_Cons map_Suc_upt)
  then show ?thesis by (simp add: CIDRMask_def comp_def) (auto simp: diff_diff_eq add.commute)
qed

lemma first_host_byte: "n < 8 \<Longrightarrow> unat (drop_bit n (255 :: byte)) = 2 ^ (8 - n) - 1"
proof -
  have "list_all (\<lambda>n. unat (drop_bit n (255 :: byte)) = 2 ^ (8 - n) - 1) [0..<8]" by code_simp
  then show "n < 8 \<Longrightarrow> unat (drop_bit n (255 :: byte)) = 2 ^ (8 - n) - 1" by (simp only: list_all_iff set_upt atLeastLessThan_iff) simp
qed

lemma host_bits_val: "n \<le> 8 * k \<Longrightarrow> ip_val (map (\<lambda>m. NOT m) (CIDRMask n (8 * k))) = 2 ^ (8 * k - n) - 1"
proof (induction k arbitrary: n)
  case 0
  then show ?case by (simp add: CIDRMask_def ip_val_def)
next
  case (Suc k)
  show ?case
  proof (cases "8 \<le> n")
    case True
    have u: "unat (NOT (255 :: byte)) = 0" by code_simp
    have "ip_val (map (\<lambda>m. NOT m) (CIDRMask n (8 * Suc k))) = ip_val (map (\<lambda>m. NOT m) (CIDRMask (n - 8) (8 * k)))"
      using True by (simp only: CIDRMask_Suc if_True list.map ip_val_Cons u mult_0 add_0)
    then show ?thesis using True Suc.IH [of "n - 8"] Suc.prems by (simp add: add.commute)
  next
    case False
    have "unat (NOT (0 :: byte)) = 2 ^ (8 - 0) - 1" by code_simp
    then have "unat (NOT (if n = 0 then 0 else NOT (drop_bit n (255 :: byte)))) = 2 ^ (8 - n) - 1"
      using first_host_byte [of n] False by (cases "n = 0") (simp_all only: simp_thms if_True if_False bit.double_compl not_le)
    moreover have "(2 ^ (8 - n) - 1) * 256 ^ k + (2 ^ (8 * k) - 1) = (2 ^ (8 * Suc k - n) - 1 :: nat)"
    proof -
      have p: "(256 :: nat) ^ k = 2 ^ (8 * k)" by (simp add: power_mult)
      have "(2 ^ (8 - n) - 1) * 2 ^ (8 * k) + 2 ^ (8 * k) = (2 ^ (8 * Suc k - n) :: nat)"
        using False by (simp add: algebra_simps diff_mult_distrib2 power_add [symmetric])
      then show ?thesis using p one_le_power [of 2 "8 * k"] by simp
    qed
    ultimately show ?thesis using Suc.IH [of 0] False by (simp add: CIDRMask_Suc ip_val_Cons del: mult_Suc_right)
  qed
qed

lemma generate_from_total:
  assumes "length cur = length stop" and "ip_val cur \<le> ip_val stop"
  shows "\<exists>ips. generate_from cur stop = Some ips \<and> map ip_val ips = [ip_val cur..<ip_val stop + 1] \<and> (\<forall>a \<in> set ips. length a = length stop)"
  using assms
proof (induction "ip_val stop - ip_val cur" arbitrary: cur)
  case 0
  then have "cur = stop" using ip_val_inj [of cur stop] by simp
  then show ?case by (subst generate_from.simps) (simp add: IP_Equal_def)
next
  case (Suc d)
  then have lt: "ip_val cur < ip_val stop" by simp
  have v: "ip_val (NextIP cur) = ip_val cur + 1"
    using lt ip_val_bound [of stop] Suc.prems(1) by (simp add: ip_val_NextIP)
  have "d = ip_val stop - ip_val (NextIP cur)" using Suc.hyps(2) v by simp
  from Suc.hyps(1) [OF this] lt v Suc.prems(1) obtain ips where
    ips: "generate_from (NextIP cur) stop = Some ips" "map ip_val ips = [ip_val cur + 1..<ip_val stop + 1]" "\<forall>a \<in> set ips. length a = length stop"
    by auto
  have "\<not> IP_Equal cur stop" using lt Suc.prems(1) by (auto simp: IP_Equal_def)
  then have "generate_from cur stop = Some (cur # ips)" using ips(1) by (subst generate_from.simps) simp
  moreover have "[ip_val cur..<ip_val stop + 1] = ip_val cur # [ip_val cur + 1..<ip_val stop + 1]" using lt by (simp add: upt_conv_Cons)
  ultimately show ?case using ips(2,3) Suc.prems(1) by simp
qed

lemma unat_or_disjoint: "x AND y = 0 \<Longrightarrow> unat (x OR y) = unat x + unat y" for x y :: byte
proof -
  assume "x AND y = 0"
  then have "unat x AND unat y = 0" by (metis unsigned_0 unsigned_and_eq)
  then show "unat (x OR y) = unat x + unat y" by (simp add: unsigned_or_eq disjunctive_add_eq_or)
qed

lemma ip_val_or:
  "length s = length m \<Longrightarrow> \<forall>(x, y) \<in> set (zip s m). x AND NOT y = 0 \<Longrightarrow>
   ip_val (map2 (\<lambda>s m. s OR NOT m) s m) = ip_val s + ip_val (map (\<lambda>m. NOT m) m)"
proof (induction s m rule: list_induct2)
  case (Cons x xs y ys)
  then show ?case using unat_or_disjoint [of x "NOT y"] by (simp add: ip_val_Cons algebra_simps)
qed (simp add: ip_val_def)

lemma masked_disjoint: "\<forall>(x, y) \<in> set (zip (map2 (AND) a m) m). x AND NOT y = 0" for a :: "byte list"
proof (induction a arbitrary: m)
  case (Cons b a)
  then show ?case by (cases m) (auto simp: and.assoc)
qed simp

lemma first_mask_byte:
  "0 < n \<Longrightarrow> n < 8 \<Longrightarrow> NOT (drop_bit n (255 :: byte)) \<noteq> 255 \<and> lead_ones 8 (NOT (drop_bit n (255 :: byte))) = n \<and> push_bit n (NOT (drop_bit n (255 :: byte))) = 0"
proof -
  have "list_all (\<lambda>n. NOT (drop_bit n (255 :: byte)) \<noteq> 255 \<and> lead_ones 8 (NOT (drop_bit n (255 :: byte))) = n \<and> push_bit n (NOT (drop_bit n (255 :: byte))) = 0) [1..<8]"
    by code_simp
  then show "0 < n \<Longrightarrow> n < 8 \<Longrightarrow> NOT (drop_bit n (255 :: byte)) \<noteq> 255 \<and> lead_ones 8 (NOT (drop_bit n (255 :: byte))) = n \<and> push_bit n (NOT (drop_bit n (255 :: byte))) = 0"
    by (simp only: list_all_iff set_upt atLeastLessThan_iff) simp
qed

lemma CIDRMask_zero: "list_all (\<lambda>w. w = 0) (CIDRMask 0 bits)"
  by (simp add: CIDRMask_def list_all_iff)

lemma zero_byte_mask: "lead_ones 8 (0 :: byte) = 0" "(0 :: byte) \<noteq> 255"
  by code_simp+

lemma simpleMaskLength_CIDRMask: "n \<le> 8 * k \<Longrightarrow> simpleMaskLength (CIDRMask n (8 * k)) = Some n"
proof (induction k arbitrary: n)
  case 0
  then show ?case by (simp add: CIDRMask_def)
next
  case (Suc k)
  consider "8 \<le> n" | "n = 0" | "0 < n" "n < 8" by linarith
  then show ?case
  proof cases
    case 1
    then show ?thesis using Suc.IH [of "n - 8"] Suc.prems by (simp only: CIDRMask_Suc if_True simpleMaskLength.simps) simp
  next
    case 2
    then show ?thesis using CIDRMask_zero [of "8 * k"] zero_byte_mask by (simp only: CIDRMask_Suc simpleMaskLength.simps) simp
  next
    case 3
    then have m: "CIDRMask n (8 * Suc k) = NOT (drop_bit n 255) # CIDRMask 0 (8 * k)" by (simp only: CIDRMask_Suc) simp
    show ?thesis using first_mask_byte [OF 3] CIDRMask_zero [of "8 * k"] by (simp only: m simpleMaskLength.simps Let_def if_False) simp
  qed
qed

lemma ParseCIDR_parts:
  assumes "ParseCIDR s = Some (a, n)"
  shows "\<exists>ad ones. ParseAddr (takeWhile (\<lambda>c. c \<noteq> CHR ''/'') s) = Some ad \<and> ones \<le> addr_bits ad \<and>
    n = \<lparr>ipn_IP = IP_Mask (As16 ad) (CIDRMask ones (addr_bits ad)), ipn_Mask = CIDRMask ones (addr_bits ad)\<rparr>"
  using assms by (auto simp: ParseCIDR_def Let_def split: if_splits option.splits intro: leI)

lemma ParseCIDR_shape:
  assumes "ParseCIDR s = Some (a, n)"
  obtains ones k b where "ones \<le> 8 * k" "k = 4 \<or> k = 16" "ipn_Mask n = CIDRMask ones (8 * k)" "ipn_IP n = map2 (AND) b (CIDRMask ones (8 * k))" "length b = k"
proof -
  from assms obtain ad ones where ad: "ParseAddr (takeWhile (\<lambda>c. c \<noteq> CHR ''/'') s) = Some ad" and le: "ones \<le> addr_bits ad"
    and n: "n = \<lparr>ipn_IP = IP_Mask (As16 ad) (CIDRMask ones (addr_bits ad)), ipn_Mask = CIDRMask ones (addr_bits ad)\<rparr>"
    using ParseCIDR_parts by blast
  show thesis
  proof (cases ad)
    case AddrZero
    then show ?thesis using ParseAddr_wf [OF ad] by simp
  next
    case (Addr4 b)
    have l: "length b = 4" using ParseAddr_wf [OF ad] Addr4 by (simp add: addr_wf_def)
    show ?thesis
      by (rule that [of ones 4 b]) (use le l Addr4 in \<open>auto simp: n IP_Mask_def Let_def\<close>)
  next
    case (Addr6 b z)
    have l: "length b = 16" using ParseAddr_wf [OF ad] Addr6 by (simp add: addr_wf_def)
    show ?thesis
      by (rule that [of ones 16 b]) (use le l Addr6 in \<open>auto simp: n IP_Mask_def Let_def\<close>)
  qed
qed

lemma network_end:
  assumes "length b = k" "ones \<le> 8 * k"
  defines "m \<equiv> CIDRMask ones (8 * k)"
  shows "ip_val (map2 (\<lambda>s m. s OR NOT m) (map2 (AND) b m) m) = ip_val (map2 (AND) b m) + (2 ^ (8 * k - ones) - 1)"
proof -
  have "length (map2 (AND) b m) = length m" using assms by simp
  from ip_val_or [OF this masked_disjoint] show ?thesis using host_bits_val [OF assms(2)] by (simp only: m_def)
qed

lemma get32_val: "length b = 4 \<Longrightarrow> unat (get32 b) = ip_val b"
  by (simp add: ip_val_def unat_get32)

lemma incr_decr: "incr_bytes (decr_bytes bs) = bs"
proof (induction bs)
  case (Cons b bs)
  have "(255 :: byte) + 1 = 0" by code_simp
  then show ?case using Cons.IH by (cases "b = 0") (simp_all add: word_neq_0_conv)
qed simp

subsection \<open>Properties\<close>

text \<open>The successor and the predecessor of an address are inverse to each other, and they are the next and the previous number of its width, with
  wrap-around at the ends.\<close>

theorem neighbour_addresses:
  "ip_val (NextIP a) = (ip_val a + 1) mod 256 ^ length a \<and> PrevIP (NextIP a) = a \<and> NextIP (PrevIP a) = a"
  by (simp add: ip_val_NextIP PrevIP_NextIP) (simp add: PrevIP_def NextIP_def incr_decr)

text \<open>The enumeration of a network ends, and it yields every address of the network exactly once, in order: the \<open>2 ^ h\<close> addresses from
  the network address on, where \<open>h\<close> is the number of host bits.  The last one is the end of the range that \<open>ParseCIDRRange\<close> returns.\<close>

theorem network_enumerated:
  assumes "ParseCIDR cidr = Some (a, n)" and "simpleMaskLength (ipn_Mask n) = Some ones"
  shows "\<exists>ips r. GenerateIPsInCIDR cidr = Some ips \<and> ParseCIDRRange cidr = Some r \<and> hd ips = ipn_IP n \<and> last ips = range_End r \<and>
    map ip_val ips = [ip_val (ipn_IP n)..<ip_val (ipn_IP n) + 2 ^ (8 * length (ipn_Mask n) - ones)] \<and> (\<forall>x \<in> set ips. length x = length (ipn_IP n))"
proof -
  from ParseCIDR_shape [OF assms(1)] obtain o1 k b where o1: "o1 \<le> 8 * k" and n: "ipn_Mask n = CIDRMask o1 (8 * k)"
    "ipn_IP n = map2 (AND) b (CIDRMask o1 (8 * k))" and b: "length b = k" by metis
  have ones: "ones = o1" using assms(2) simpleMaskLength_CIDRMask [OF o1] by (simp add: n)
  let ?stop = "map2 (\<lambda>s m. s OR NOT m) (ipn_IP n) (ipn_Mask n)"
  have len: "length (ipn_IP n) = length ?stop" "length (ipn_Mask n) = k" using b by (simp_all add: n)
  have stop: "ip_val ?stop = ip_val (ipn_IP n) + (2 ^ (8 * k - ones) - 1)" using network_end [OF b o1] by (simp add: n ones)
  then obtain ips where ips: "generate_from (ipn_IP n) ?stop = Some ips" "map ip_val ips = [ip_val (ipn_IP n)..<ip_val ?stop + 1]"
    "\<forall>x \<in> set ips. length x = length ?stop" using generate_from_total [OF len(1)] by (metis le_add1)
  have upper: "ip_val ?stop + 1 = ip_val (ipn_IP n) + 2 ^ (8 * k - ones)" using stop one_le_power [of "2 :: nat" "8 * k - ones"] by simp
  have "length ips = ip_val ?stop + 1 - ip_val (ipn_IP n)" by (metis ips(2) length_map length_upt)
  then have ne: "ips \<noteq> []" using stop by auto
  then have "ip_val (hd ips) = hd [ip_val (ipn_IP n)..<ip_val ?stop + 1]" "ip_val (last ips) = last [ip_val (ipn_IP n)..<ip_val ?stop + 1]"
    using ips(2) by (metis hd_map, metis last_map)
  then have "ip_val (hd ips) = ip_val (ipn_IP n)" "ip_val (last ips) = ip_val ?stop" using stop by simp_all
  moreover have "length (hd ips) = length (ipn_IP n)" by (simp only: len(1) bspec [OF ips(3) hd_in_set [OF ne]])
  moreover have "length (last ips) = length ?stop" by (rule bspec [OF ips(3) last_in_set [OF ne]])
  ultimately have "hd ips = ipn_IP n" "last ips = ?stop" by (simp_all only: ip_val_inj)
  moreover have r: "ParseCIDRRange cidr = Some \<lparr>range_Start = ipn_IP n, range_End = ?stop\<rparr>" by (simp add: ParseCIDRRange_def assms(1))
  moreover have "GenerateIPsInCIDR cidr = Some ips" by (simp add: GenerateIPsInCIDR_def r ips(1) del: zip_map1)
  moreover have "\<forall>x \<in> set ips. length x = length (ipn_IP n)" using ips(3) by (simp only: len(1))
  ultimately show ?thesis using ips(2) unfolding upper len(2) by (metis ip_range.select_convs(2))
qed

theorem network_enumerated_witness:
  "\<exists>ips. GenerateIPsInCIDR ''192.168.1.4/30'' = Some ips \<and> map ip_val ips = [3232235780, 3232235781, 3232235782, 3232235783]"
proof -
  have h: "ParseCIDR ''192.168.1.4/30'' = Some (v4InV6Prefix @ [192, 168, 1, 4], \<lparr>ipn_IP = [192, 168, 1, 4], ipn_Mask = [255, 255, 255, 252]\<rparr>)"
    "simpleMaskLength [255, 255, 255, 252] = Some 30" by code_simp+
  have v: "ip_val [192, 168, 1, 4] = 3232235780" by (simp add: ip_val_def)
  have "[3232235780..<3232235780 + 2 ^ 2] = [3232235780, 3232235781, 3232235782, 3232235783 :: nat]" by (simp add: upt_conv_Cons)
  with v have "[ip_val [192, 168, 1, 4]..<ip_val [192, 168, 1, 4] + 2 ^ (8 * length [255 :: byte, 255, 255, 252] - 30)] = [3232235780, 3232235781, 3232235782, 3232235783]"
    by simp
  with network_enumerated [OF h(1)] h(2) show ?thesis by (metis ipnet.select_convs)
qed

text \<open>\<open>CountIPsInCIDR\<close> counts modulo \<open>2 ^ 64\<close>: exact for every IPv4 network, and zero for every IPv6 network of 64 or more host bits.\<close>

theorem network_count:
  assumes "ParseCIDR cidr = Some (a, n)" and "simpleMaskLength (ipn_Mask n) = Some ones"
  shows "unat (CountIPsInCIDR n) = (if 8 * length (ipn_Mask n) - ones < 64 then 2 ^ (8 * length (ipn_Mask n) - ones) else 0)"
proof -
  have "unat (push_bit h 1 :: 64 word) = (if h < 64 then 2 ^ h else 0)" for h
  proof -
    have "unat (push_bit h 1 :: 64 word) = take_bit 64 (2 ^ h)" by (subst unsigned_push_bit_eq) simp
    also have "\<dots> = (if h < 64 then 2 ^ h else 0)" by (simp only: take_bit_of_exp) simp
    finally show ?thesis .
  qed
  then show ?thesis using assms(2) by (simp add: CountIPsInCIDR_def)
qed

theorem network_count_witness:
  "\<exists>a n. ParseCIDR ''1::/64'' = Some (a, n) \<and> unat (CountIPsInCIDR n) = 0"
proof -
  have h: "ParseCIDR ''1::/64'' = Some (0 # 1 # replicate 14 0, \<lparr>ipn_IP = 0 # 1 # replicate 14 0, ipn_Mask = replicate 8 255 @ replicate 8 0\<rparr>)"
    "simpleMaskLength (replicate 8 255 @ replicate 8 0) = Some 64" by code_simp+
  from network_count [OF h(1)] h show ?thesis by simp
qed

text \<open>The exchange sort returns a permutation of the addresses, in the order of the comparison.\<close>

theorem addresses_sorted:
  "mset (SortIPs ips) = mset ips \<and> sorted_wrt (\<lambda>a b. CompareIPs a b \<le> 0) (SortIPs ips)"
proof -
  have "sorted_up_to 0 ips" by (simp add: sorted_up_to_def)
  from sort_outer_correct [OF this] have m: "mset (SortIPs ips) = mset ips" and s: "sorted_up_to (length ips) (SortIPs ips)"
    by (simp_all add: SortIPs_def)
  have "length (SortIPs ips) = length ips" using m by (metis size_mset)
  then have "sorted_wrt (\<lambda>a b. ip_key a \<le> ip_key b) (SortIPs ips)" using s by (auto simp: sorted_wrt_iff_nth_less sorted_up_to_def)
  then have "sorted_wrt (\<lambda>a b. CompareIPs a b \<le> 0) (SortIPs ips)" by (rule sorted_wrt_mono_rel [rotated]) (simp add: CompareIPs_key)
  with m show ?thesis by simp
qed

text \<open>For IPv4 the range check is the check of the numbers.  For IPv6 it compares the printed forms, and an address inside a range is
  reported outside.\<close>

theorem ipv4_range_check:
  assumes "To4 a = Some a4" "To4 (range_Start r) = Some s4" "To4 (range_End r) = Some e4"
  shows "IPInRange a r \<longleftrightarrow> ip_val s4 \<le> ip_val a4 \<and> ip_val a4 \<le> ip_val e4"
proof -
  have "To4 x = Some y \<Longrightarrow> To4 y = Some y" for x y using To4_length [of x y] by (simp add: To4_def)
  with assms show ?thesis
    using get32_val [OF To4_length [OF assms(1)]] get32_val [OF To4_length [OF assms(2)]] get32_val [OF To4_length [OF assms(3)]]
    by (simp add: IPInRange_def IPToUint32_def word_le_nat_alt)
qed

theorem ipv4_range_check_witness: "IPInRange [10, 0, 0, 9] \<lparr>range_Start = [10, 0, 0, 1], range_End = [10, 0, 0, 10]\<rparr>"
proof -
  have "ip_val [10, 0, 0, 1] = 167772161" "ip_val [10, 0, 0, 9] = 167772169" "ip_val [10, 0, 0, 10] = 167772170" by (simp_all add: ip_val_def)
  then show ?thesis using ipv4_range_check [of "[10, 0, 0, 9]" "[10, 0, 0, 9]" "\<lparr>range_Start = [10, 0, 0, 1], range_End = [10, 0, 0, 10]\<rparr>"]
    by (simp add: To4_def)
qed

definition v6_address :: "byte \<Rightarrow> ip" where
  "v6_address b = 0 # 1 # replicate 13 0 @ [b]"

theorem ipv6_range_check_by_text:
  "ip_val (v6_address 1) \<le> ip_val (v6_address 9) \<and> ip_val (v6_address 9) \<le> ip_val (v6_address 16) \<and>
   \<not> IPInRange (v6_address 9) \<lparr>range_Start = v6_address 1, range_End = v6_address 16\<rparr>"
proof -
  have "\<not> IPInRange (v6_address 9) \<lparr>range_Start = v6_address 1, range_End = v6_address 16\<rparr>" by code_simp
  moreover have "replicate 13 (0 :: byte) = [0, 0, 0, 0, 0, 0, 0, 0, 0, 0, 0, 0, 0]" by code_simp
  ultimately show ?thesis by (simp add: v6_address_def ip_val_def)
qed

end
