(* ===== verification/Retry.thy ===== *)
theory Retry
  imports Prelude
begin

text \<open>
  The retry loop of \<^verbatim>\<open>retry/retry.go\<close>.

  Arguments stand for what the loop reads from outside: \<open>errIs\<close> is \<open>errors.Is\<close>, \<open>fmul\<close> the product of a delay
  with the floating-point multiplier, and \<open>env n\<close> what happens in attempt \<open>n\<close>: the error of the
  function, whether the context is cancelled before or during the wait, the random part of the
  delay, and the clock.  The loop may run forever; its result is then None.
\<close>

record 'e retry_config =
  rc_MaxAttempts :: int
  rc_InitialDelay :: duration
  rc_MaxDelay :: duration
  rc_Multiplier :: rat
  rc_Jitter :: rat
  rc_Timeout :: duration
  rc_RetryableErrors :: "'e list"

definition Retry_DefaultConfig :: "'e retry_config" where
  "Retry_DefaultConfig = \<lparr>rc_MaxAttempts = 3, rc_InitialDelay = 100 * millisecond, rc_MaxDelay = 10 * second,
     rc_Multiplier = 2, rc_Jitter = 1 / 10, rc_Timeout = 30 * second, rc_RetryableErrors = []\<rparr>"

definition AggressiveConfig :: "'e retry_config" where
  "AggressiveConfig = \<lparr>rc_MaxAttempts = 5, rc_InitialDelay = 50 * millisecond, rc_MaxDelay = 5 * second,
     rc_Multiplier = 3 / 2, rc_Jitter = 1 / 5, rc_Timeout = 10 * second, rc_RetryableErrors = []\<rparr>"

definition ConservativeConfig :: "'e retry_config" where
  "ConservativeConfig = \<lparr>rc_MaxAttempts = 2, rc_InitialDelay = 500 * millisecond, rc_MaxDelay = 30 * second,
     rc_Multiplier = 3, rc_Jitter = 1 / 20, rc_Timeout = 60 * second, rc_RetryableErrors = []\<rparr>"

definition ConstantDelay :: "duration \<Rightarrow> int \<Rightarrow> 'e retry_config" where
  "ConstantDelay delay maxAttempts = \<lparr>rc_MaxAttempts = maxAttempts, rc_InitialDelay = delay, rc_MaxDelay = delay,
     rc_Multiplier = 1, rc_Jitter = 1 / 10, rc_Timeout = 0, rc_RetryableErrors = []\<rparr>"

record 'e retry_result =
  rr_Attempts :: nat
  rr_TotalTime :: duration
  rr_LastErr :: "'e option"
  rr_Success :: bool

record 'e attempt_env =
  ae_err :: "'e option"
  ae_cancelledBefore :: "'e option"
  ae_jitter :: duration
  ae_cancelledDuring :: "'e option"
  ae_now :: instant

definition shouldRetry :: "('e \<Rightarrow> 'e \<Rightarrow> bool) \<Rightarrow> 'e retry_config \<Rightarrow> 'e \<Rightarrow> bool" where
  "shouldRetry errIs cfg e =
     (if length (rc_RetryableErrors cfg) = 0 then True else list_ex (errIs e) (rc_RetryableErrors cfg))"

text \<open>The random amount is already scaled to the jitter range.\<close>

definition calculateDelay :: "duration \<Rightarrow> duration \<Rightarrow> rat \<Rightarrow> duration" where
  "calculateDelay amount baseDelay jitter =
     (if jitter \<le> 0 then baseDelay
      else let newDelay = baseDelay + amount in if newDelay < 0 then 0 else newDelay)"

definition next_delay :: "(duration \<Rightarrow> rat \<Rightarrow> duration) \<Rightarrow> 'e retry_config \<Rightarrow> duration \<Rightarrow> duration" where
  "next_delay fmul cfg delay =
     (let d = fmul delay (rc_Multiplier cfg) in if d > rc_MaxDelay cfg then rc_MaxDelay cfg else d)"

text \<open>The loop with the attempt number, the current delay and, as a ghost, the waits made so far.\<close>

partial_function (option) retry_loop ::
  "('e \<Rightarrow> 'e \<Rightarrow> bool) \<Rightarrow> (duration \<Rightarrow> rat \<Rightarrow> duration) \<Rightarrow> (nat \<Rightarrow> 'e attempt_env) \<Rightarrow> 'e retry_config \<Rightarrow> instant
     \<Rightarrow> nat \<Rightarrow> duration \<Rightarrow> 'e option \<Rightarrow> duration list \<Rightarrow> ('e retry_result \<times> duration list) option" where
  "retry_loop errIs fmul env cfg start attempt delay lastErr waits =
     (let ae = env attempt
      in case ae_err ae of
           None \<Rightarrow> Some (\<lparr>rr_Attempts = attempt, rr_TotalTime = ae_now ae - start, rr_LastErr = lastErr, rr_Success = True\<rparr>, waits)
         | Some e \<Rightarrow>
             if \<not> shouldRetry errIs cfg e \<or> (rc_MaxAttempts cfg > 0 \<and> int attempt \<ge> rc_MaxAttempts cfg) then
               Some (\<lparr>rr_Attempts = attempt, rr_TotalTime = ae_now ae - start, rr_LastErr = Some e, rr_Success = False\<rparr>, waits)
             else if ae_cancelledBefore ae \<noteq> None then
               Some (\<lparr>rr_Attempts = attempt, rr_TotalTime = 0, rr_LastErr = ae_cancelledBefore ae, rr_Success = False\<rparr>, waits)
             else
               let waits1 = waits @ [calculateDelay (ae_jitter ae) delay (rc_Jitter cfg)]
               in if ae_cancelledDuring ae \<noteq> None then
                    Some (\<lparr>rr_Attempts = attempt, rr_TotalTime = 0, rr_LastErr = ae_cancelledDuring ae, rr_Success = False\<rparr>, waits1)
                  else retry_loop errIs fmul env cfg start (attempt + 1) (next_delay fmul cfg delay) (Some e) waits1)"

definition Retry_Do :: "('e \<Rightarrow> 'e \<Rightarrow> bool) \<Rightarrow> (duration \<Rightarrow> rat \<Rightarrow> duration) \<Rightarrow> (nat \<Rightarrow> 'e attempt_env) \<Rightarrow> 'e retry_config \<Rightarrow> instant
    \<Rightarrow> ('e retry_result \<times> duration list) option" where
  "Retry_Do errIs fmul env cfg start = retry_loop errIs fmul env cfg start 1 (rc_InitialDelay cfg) None []"

text \<open>\<open>DoWithResult\<close>: the value of the last attempt, \<open>val n\<close> being what attempt \<open>n\<close> returns beside its error.\<close>

definition DoWithResult :: "('e \<Rightarrow> 'e \<Rightarrow> bool) \<Rightarrow> (duration \<Rightarrow> rat \<Rightarrow> duration) \<Rightarrow> (nat \<Rightarrow> 'e attempt_env) \<Rightarrow> (nat \<Rightarrow> 'v) \<Rightarrow> 'e retry_config \<Rightarrow> instant
    \<Rightarrow> ('v \<times> 'e retry_result) option" where
  "DoWithResult errIs fmul env val cfg start =
     map_option (\<lambda>(r, _). (val (rr_Attempts r), r)) (Retry_Do errIs fmul env cfg start)"

subsection \<open>The loop returns\<close>

lemma retry_loop_returns:
  assumes "0 < rc_MaxAttempts cfg" and "int attempt \<le> rc_MaxAttempts cfg" and "0 < attempt"
    and "length waits = attempt - 1" and "delay \<le> B" and "rc_MaxDelay cfg \<le> B" and "\<forall>w \<in> set waits. w \<le> max 0 B"
    and "rc_Jitter cfg \<le> 0"
  shows "\<exists>r ws. retry_loop errIs fmul env cfg start attempt delay lastErr waits = Some (r, ws) \<and>
    int (rr_Attempts r) \<le> rc_MaxAttempts cfg \<and> attempt \<le> rr_Attempts r \<and> length ws \<le> rr_Attempts r \<and>
    (\<forall>w \<in> set ws. w \<le> max 0 B) \<and>
    (rr_Success r \<longrightarrow> ae_err (env (rr_Attempts r)) = None) \<and>
    (\<forall>i. attempt \<le> i \<and> i < rr_Attempts r \<longrightarrow> ae_err (env i) \<noteq> None)"
  using assms
proof (induction "nat (rc_MaxAttempts cfg - int attempt)" arbitrary: attempt delay lastErr waits rule: less_induct)
  case less
  let ?ae = "env attempt"
  show ?case
  proof (cases "ae_err ?ae = None")
    case True
    then show ?thesis
      using less.prems by (subst retry_loop.simps) (auto simp: Let_def)
  next
    case False
    then obtain e where e: "ae_err ?ae = Some e" by blast
    let ?stop = "\<not> shouldRetry errIs cfg e \<or> int attempt \<ge> rc_MaxAttempts cfg"
    let ?w = "calculateDelay (ae_jitter ?ae) delay (rc_Jitter cfg)"
    have w: "?w \<le> max 0 B" using less.prems(5,8) by (simp add: calculateDelay_def)
    show ?thesis
    proof (cases "?stop \<or> ae_cancelledBefore ?ae \<noteq> None \<or> ae_cancelledDuring ?ae \<noteq> None")
      case True
      then show ?thesis
        using less.prems e w by (subst retry_loop.simps) (auto simp: Let_def)
    next
      case False
      have nd: "next_delay fmul cfg delay \<le> B" using less.prems(6) by (auto simp: next_delay_def Let_def)
      have "nat (rc_MaxAttempts cfg - int (attempt + 1)) < nat (rc_MaxAttempts cfg - int attempt)" using False by auto
      from less.hyps [OF this less.prems(1) _ _ _ nd less.prems(6) _ less.prems(8), of "waits @ [?w]" "Some e"] False less.prems(3,4,7) w
      obtain r ws where r: "retry_loop errIs fmul env cfg start (attempt + 1) (next_delay fmul cfg delay) (Some e) (waits @ [?w]) = Some (r, ws)"
        "int (rr_Attempts r) \<le> rc_MaxAttempts cfg" "attempt + 1 \<le> rr_Attempts r" "length ws \<le> rr_Attempts r"
        "\<forall>w \<in> set ws. w \<le> max 0 B" "rr_Success r \<longrightarrow> ae_err (env (rr_Attempts r)) = None"
        "\<forall>i. attempt + 1 \<le> i \<and> i < rr_Attempts r \<longrightarrow> ae_err (env i) \<noteq> None"
        by auto
      have "retry_loop errIs fmul env cfg start attempt delay lastErr waits = Some (r, ws)"
        using False e r(1) by (subst retry_loop.simps) (auto simp: Let_def)
      moreover have "ae_err (env i) \<noteq> None" if "attempt \<le> i" "i < rr_Attempts r" for i
        using r(7) e that by (cases "i = attempt") auto
      ultimately show ?thesis using r by auto
    qed
  qed
qed



text \<open>Without a limit, a function that always fails with a retryable error and a context that is never
  cancelled keep the loop running forever.\<close>

lemma unlimited_retry_diverges:
  assumes "rc_MaxAttempts cfg \<le> 0" and "rc_RetryableErrors cfg = []"
    and "\<And>n. ae_err (env n) \<noteq> None" and "\<And>n. ae_cancelledBefore (env n) = None" and "\<And>n. ae_cancelledDuring (env n) = None"
  shows "retry_loop errIs fmul env cfg start attempt delay lastErr waits = None"
proof (rule ccontr)
  assume "retry_loop errIs fmul env cfg start attempt delay lastErr waits \<noteq> None"
  then obtain res where "retry_loop errIs fmul env cfg start attempt delay lastErr waits = Some res" by blast
  then have "\<not> (env = env \<and> cfg = cfg)"
    apply (rule retry_loop.raw_induct [where P = "\<lambda>_ _ env' cfg' _ _ _ _ _ _. \<not> (env' = env \<and> cfg' = cfg)", rotated])
    subgoal premises body for f errIs' fmul' env' cfg' start' n' d' l' ws' y
    proof
      assume eq: "env' = env \<and> cfg' = cfg"
      obtain e where e: "ae_err (env n') = Some e" using assms(3) by blast
      obtain ws'' where "f errIs' fmul' env cfg start' (n' + 1) (next_delay fmul' cfg d') (Some e) ws'' = Some y"
        using body(2) eq e assms(1,2,4,5) by (simp add: Let_def shouldRetry_def)
      from body(1) [OF this] show False by simp
    qed
    done
  then show False by simp
qed

end
