(* ===== verification/Spec2Isabelle.thy ===== *)
theory Spec2Isabelle
  imports ProxyRouter ProxyGroup WanBalancer DhcpServer LruCache ProxyHandler FilterRouter DnsRateLimit Socks5Client DhcpV6 DnsResolver Bandwidth DnsProxy DohServer MtuDiscovery NpcapDhcp WinDivertDhcp StatsStore HealthChecker WsTransport EngineSelect ProxySelect NetUtil Retry
begin

text \<open>
  Verification of go-pcap2socks, a transparent proxy for a local network.  It captures the packets of
  the devices on the network, terminates their TCP and UDP flows in a user-space stack, and
  relays each flow through an upstream proxy that a rule table chooses; beside that it runs a DHCP
  server, a DNS hijacker and resolver, and several caches, pools and limiters.

  \<^bold>\<open>The parts and how they interact.\<close>  A flow of the stack enters the proxy handler
  (core/proxy_handler.go), which makes a session in the connection tracker (core/conntrack.go).  The
  relays of the session dial through the router (proxy/router.go): the source filter admits the
  client, the route cache or the routing table (cfg/config.go, cfg/port_range.go) names the proxy, and the
  circuit breaker (circuitbreaker/breaker.go) guards the dial.  The proxy behind a name may be a group with
  failover (proxy/group.go), a set of uplinks (wanbalancer) or a SOCKS5 client (proxy/socks5.go over
  transport/socks5.go), and its connections may come from a pool (connpool/pool.go).  The DNS hijacker
  (dns/hijacker.go) answers queries with made-up addresses that the handler later turns back into names.
  The DHCP server (dhcp/server.go, dhcp/dhcp.go, dhcp/lease_db.go) hands out the addresses of the devices, with
  the allocator of auto/smart_dhcp.go when it is configured.

  \<^bold>\<open>Which theory models which part.\<close>
  \<^item> \<open>Prelude\<close>, \<open>GoStrings\<close>, \<open>GoNet\<close>: machine integers, map ranges, the locale of invariant proofs
    \<open>invariant_system\<close>, and what the code uses of Go's strings, strconv, net and net/netip packages.
  \<^item> \<open>CircuitBreaker\<close>: circuitbreaker/breaker.go.  The invariant of the counters, when it trips, when
    it recovers.
  \<^item> \<open>PortRange\<close>, \<open>RoutingTable\<close>: the port and rule part of cfg/ and the table of proxy/router.go.  Port
    specifications refine sets of ports and survive printing; the table answers as a linear scan of
    the rules does.
  \<^item> \<open>TtlCache\<close>: the contract of a cache with expiring entries, a locale; \<open>RouteCache\<close> (proxy/router.go) and
    \<open>LruCache\<close> (cache/lru.go) interpret it.  Bounds, key injectivity, consistency of index and map.
  \<^item> \<open>Metadata\<close>, \<open>ProxyRouter\<close>: md/ and the router.  Every dial goes to the proxy of the first matching
    rule, cached or not; filtered sources are never dialled; an open breaker stops all dials.
  \<^item> \<open>ProxyGroup\<close>, \<open>WanBalancer\<close>: selection by each policy, failover, counters of open connections.
  \<^item> \<open>DhcpMessage\<close>, \<open>LeaseDb\<close>, \<open>DhcpServer\<close>: the packet codec, the lease map, the server.  Round trip of
    messages, no two live leases with one address, allocation succeeds while the pool has room.
  \<^item> \<open>TcpSession\<close>, \<open>UdpSession\<close>, \<open>ConnTrack\<close>, \<open>ProxyHandler\<close>: core/conntrack.go, core/proxy_handler.go and
    core/conntrack_metrics.go.  Sessions are systems of goroutines; bytes are relayed in order, tables
    and counters are exact, and the shutdown and relay defects are stated as theorems about all runs.
  \<^item> \<open>DnsHijacker\<close>, \<open>DnsRateLimit\<close>, \<open>FilterRouter\<close>: dns/hijacker.go, dns/rate_limiter.go, router/filter.go.
  \<^item> \<open>BufferPools\<close>, \<open>ConnPool\<close>, \<open>Retry\<close>: common/pool/alloc.go and buffer/pool.go, connpool/pool.go, retry/retry.go.
  \<^item> \<open>GoBytes\<close>, \<open>InetChecksum\<close>: byte buffers and the Internet checksum.
  \<^item> \<open>Socks5\<close>, \<open>Socks5Client\<close>: transport/socks5.go with its pools, and the client with its fallback and idle
    connections (proxy/socks5.go, proxy/socks5_fallback.go, proxy/socks5_pool.go).  What a conforming
    handshake looks like, why the code's one never completes, round trips of addresses and datagrams.
  \<^item> \<open>DhcpV6\<close>: dhcp/dhcpv6.go.  Message round trip, termination and result of the allocation, the request that
    stops the server.
  \<^item> \<open>SmartDhcp\<close>, \<open>NpcapDhcp\<close>: device detection and the device-based allocator of auto/, which the DHCP servers
    consult, and the server of npcap_dhcp/.  Distinct reservations in every run, and the two defects that make
    the pool and the replies useless.
  \<^item> \<open>DnsResolver\<close>: dns/resolver.go, messages, cache, prefetch, servers in parallel; a third instance of \<open>TtlCache\<close>.
  \<^item> \<open>TokenBucket\<close>: the contract of a token bucket, a locale; \<open>Bandwidth\<close> interprets it for bandwidth/limiter.go
    and ratelimit/ratelimit.go.
  \<^item> \<open>MtuDiscovery\<close>: mtu/discovery.go.  The search finds the limit of the path, the checksum verifies, evictions.

  \<^bold>\<open>How state and operations correspond.\<close>  A Go struct is a record with the names of its fields
  (prefixed where two structs share one), a method is a function from the record to the updated
  record, and a pointer that several holders share is an index into an explicit heap (uplinks,
  sessions, pooled buffers).  Errors, early returns and panics are values of a result type.  A map
  range takes its order as an argument, a \<open>sync.Pool\<close> or \<open>select\<close> its choice, and every reading of the clock or of a
  random source is an argument of the operation.  Concurrent code is a step relation whose steps
  end at the next synchronisation point: a channel operation, an atomic access, a mutex section or a
  blocking call; what happens between two such points is one step because it touches no state
  that another goroutine can see.  Ghost fields (accepted and delivered payloads, opened and closed
  connections, the log of dials) are written and never read by the code.

  \<^bold>\<open>Parameters and hypotheses.\<close>  Code outside the repository is an argument: the longest-prefix lookup of
  go-radix (locale \<open>radix_tree\<close>), \<open>sort.Slice\<close> (locale \<open>slice_sort\<close>), packing and unpacking of miekg/dns, the dial of a
  proxy, health probes, \<open>errors.Is\<close> and the float product of the retry delay.  The locales that stand
  for outside code are interpreted on concrete functions, and the witnesses use these.

  \<^bold>\<open>Numbers, bounds and fuel.\<close>  Where overflow matters a value is a word or is reduced by \<open>i32\<close> and
  \<open>i64\<close>.  Counters that a run would have to increment \<open>2^63\<close> times to overflow are integers.  Floating-point
  values are exact rationals in the token bucket and in the balancer's averages, and a parameter in the
  retry loop.  The probe loop of the hijacker has the fuel \<open>FakeIPRangeSize\<close>, the number of candidates, as
  in the source; the eviction bound of the route cache needs a maximum of at least four entries,
  the smallest for which a quarter is not zero; the retry loop is a partial function and its
  termination is a theorem; lists of clock readings bound the waiting loops, and the theorems say
  how long a list is enough.

  \<^bold>\<open>Not modelled, and why.\<close>  Start-up and wiring (main.go, di/), the web API, tray, hotkeys and bots are
  glue over HTTP and operating system calls; core/stack.go and the drivers (windivert/, core/device) configure
  code outside the repository; the WebSocket, HTTP/3 and WireGuard transports are protocols of third-party
  packages; services, updater and profiles are file and system I/O.  Log lines and metrics that no
  decision reads are left out of the modelled operations.

  \<^bold>\<open>What could follow.\<close>  The health checker, the statistics store and the validators are the parts of the
  program's own logic that no theory models yet.
\<close>

subsection \<open>From the configuration file to the proxy\<close>

lemma matcher_of_port_set:
  assumes "NewPortMatcher spec = Inr pm" and "parsePorts spec = Inr P"
  shows "PortMatcher_Matches (Some pm) p \<longleftrightarrow> p \<in> P"
proof (cases "spec = []")
  case True
  then show ?thesis using assms by (auto simp: NewPortMatcher_def parsePorts_def PortMatcher_Matches_def)
next
  case False
  then show ?thesis
    using assms parsers_agree [of "Split CHR '','' spec" "{}"]
    by (auto simp: NewPortMatcher_def parsePorts_def Matches_ranges split: sum.splits)
qed

lemma first_rule_by_port:
  assumes "Config_Normalize 0 (r # rs) = Inr rules" and "parsePorts (r_DstPort r) = Inr P" and "DstPort m \<in> P"
  shows "route_of rules m = OutboundTag r"
proof -
  obtain r' rs' where r': "Rule_Normalize r = Inr r'" and rules: "rules = r' # rs'"
    using assms(1) by (auto split: sum.splits)
  then obtain dp where "NewPortMatcher (r_DstPort r) = Inr dp" "DstPortMatcher r' = Some dp"
    "OutboundTag r' = OutboundTag r"
    by (auto simp: Rule_Normalize_def split: sum.splits)
  with matcher_of_port_set [OF _ assms(2)] assms(3) show ?thesis
    by (simp add: rules route_of_def linear_match_def matchRule_def)
qed

lemma cb_Execute_closed: "cb_st cb = StateClosed \<Longrightarrow> fst (cb_Execute t1 t2 t3 e cb) = FnResult e"
  by (cases e) (simp_all add: cb_defs)



end
